(* ===== verification/Forge_Prelude.thy ===== *)
theory Forge_Prelude
  imports Complex_Main "HOL-Library.AList" "HOL-Library.Char_ord" "HOL-Library.List_Lexorder"
    "HOL-Library.Product_Lexorder" "HOL-Library.Sublist"
begin

text \<open>
  Shared vocabulary of the development: the Python values, strings, dictionaries and sets the
  coordinator code works on, the facts about them that the component theories use, and the two
  interfaces (locales) several components implement, a keyed store and a machine of operations
  that keeps an invariant.

  A Python \<^verbatim>\<open>str\<close> is a \<open>string\<close> whose characters are the code points U+0000 to U+00FF; code
  points above that are outside the model. Integers are \<open>int\<close>. A finite float is the rational it
  denotes: the modelled code stores, copies and compares floats, and the few places where it
  computes with them are stated where they occur.
\<close>

named_theorems dict_simps \<open>lookup after an update of an insertion-ordered dictionary\<close>

section \<open>Errors\<close>

text \<open>The exceptions the modelled code raises.\<close>

datatype py_error =
    ValueError string
  | KeyError string
  | IndexError
  | OSError string
  | TypeError string
  | AttributeError string
  | ZeroDivisionError

type_synonym 'a py_result = "py_error + 'a"

fun py_bind :: "'a py_result \<Rightarrow> ('a \<Rightarrow> 'b py_result) \<Rightarrow> 'b py_result" where
  "py_bind (Inl e) f = Inl e"
| "py_bind (Inr a) f = f a"

lemma py_bind_eq_Inr: "py_bind m f = Inr b \<longleftrightarrow> (\<exists>a. m = Inr a \<and> f a = Inr b)"
  by (cases m) auto

lemma py_bind_eq_Inl: "py_bind m f = Inl e \<longleftrightarrow> m = Inl e \<or> (\<exists>a. m = Inr a \<and> f a = Inl e)"
  by (cases m) auto

section \<open>Strings\<close>

text \<open>
  \<^verbatim>\<open>str.isspace\<close>, \<^verbatim>\<open>str.isdigit\<close>, \<^verbatim>\<open>str.lower\<close> and the regular-expression classes on the code
  points up to U+00FF. \<^verbatim>\<open>isdigit\<close> holds of the superscripts U+00B2, U+00B3 and U+00B9, which
  \<^verbatim>\<open>int\<close> does not accept and which \<^verbatim>\<open>\d\<close> does not match.
\<close>

definition code_point :: "char \<Rightarrow> nat" where
  "code_point c = of_char c"

definition py_isspace :: "char \<Rightarrow> bool" where
  "py_isspace c = (let n = code_point c
     in (9 \<le> n \<and> n \<le> 13) \<or> (28 \<le> n \<and> n \<le> 32) \<or> n = 133 \<or> n = 160)"

definition py_isdecimal :: "char \<Rightarrow> bool" where
  "py_isdecimal c = (let n = code_point c in 48 \<le> n \<and> n \<le> 57)"

definition py_isdigit :: "char \<Rightarrow> bool" where
  "py_isdigit c = (let n = code_point c
     in (48 \<le> n \<and> n \<le> 57) \<or> n = 178 \<or> n = 179 \<or> n = 185)"

definition py_isalnum :: "char \<Rightarrow> bool" where
  "py_isalnum c = (let n = code_point c
     in (48 \<le> n \<and> n \<le> 57) \<or> (65 \<le> n \<and> n \<le> 90) \<or> (97 \<le> n \<and> n \<le> 122)
        \<or> n = 170 \<or> n = 178 \<or> n = 179 \<or> n = 181 \<or> n = 185 \<or> n = 186 \<or> (188 \<le> n \<and> n \<le> 190)
        \<or> (192 \<le> n \<and> n \<le> 214) \<or> (216 \<le> n \<and> n \<le> 246) \<or> (248 \<le> n \<and> n \<le> 255))"

text \<open>The capitals of both ranges differ from their small letters in the bit of weight 32.\<close>

fun case_bit :: "bool \<Rightarrow> char \<Rightarrow> char" where
  "case_bit b (Char b0 b1 b2 b3 b4 b5 b6 b7) = Char b0 b1 b2 b3 b4 b b6 b7"

definition lower_char :: "char \<Rightarrow> char" where
  "lower_char c = (let n = code_point c
     in if (65 \<le> n \<and> n \<le> 90) \<or> (192 \<le> n \<and> n \<le> 222 \<and> n \<noteq> 215) then case_bit True c else c)"

definition py_lower :: "string \<Rightarrow> string" where
  "py_lower s = map lower_char s"

definition py_strip :: "string \<Rightarrow> string" where
  "py_strip s = rev (dropWhile py_isspace (rev (dropWhile py_isspace s)))"

text \<open>\<^verbatim>\<open>s.isdigit()\<close> is false on the empty string.\<close>

definition py_str_isdigit :: "string \<Rightarrow> bool" where
  "py_str_isdigit s = (s \<noteq> [] \<and> list_all py_isdigit s)"

definition py_removeprefix :: "string \<Rightarrow> string \<Rightarrow> string" where
  "py_removeprefix p s = (if prefix p s then drop (length p) s else s)"

definition py_split_first :: "char \<Rightarrow> string \<Rightarrow> string option" where
  \<comment> \<open>\<^verbatim>\<open>s.split(c, 1)[1]\<close>, or None where that index is out of range\<close>
  "py_split_first c s = (case dropWhile (\<lambda>x. x \<noteq> c) s of [] \<Rightarrow> None | _ # r \<Rightarrow> Some r)"

text \<open>\<^verbatim>\<open>s.split()\<close>: the maximal runs of non-space characters.\<close>

fun py_words_acc :: "string \<Rightarrow> string \<Rightarrow> string list" where
  "py_words_acc w [] = (if w = [] then [] else [rev w])"
| "py_words_acc w (c # cs) =
     (if py_isspace c
      then (if w = [] then py_words_acc [] cs else rev w # py_words_acc [] cs)
      else py_words_acc (c # w) cs)"

definition py_split :: "string \<Rightarrow> string list" where
  "py_split s = py_words_acc [] s"

text \<open>\<^verbatim>\<open>s.splitlines()\<close>: the pieces between line boundaries, with no empty piece after a final boundary.\<close>

definition py_line_break :: "char \<Rightarrow> bool" where
  "py_line_break c = (let n = code_point c in (10 \<le> n \<and> n \<le> 13) \<or> (28 \<le> n \<and> n \<le> 30) \<or> n = 133)"

fun py_lines_acc :: "string \<Rightarrow> string \<Rightarrow> string list" where
  "py_lines_acc w [] = (if w = [] then [] else [rev w])"
| "py_lines_acc w (c # cs) =
     (if py_line_break c
      then rev w # py_lines_acc [] (if code_point c = 13 \<and> cs \<noteq> [] \<and> code_point (hd cs) = 10 then tl cs else cs)
      else py_lines_acc (c # w) cs)"

definition py_splitlines :: "string \<Rightarrow> string list" where
  "py_splitlines s = py_lines_acc [] s"

fun py_join :: "string \<Rightarrow> string list \<Rightarrow> string" where
  "py_join sep [] = []"
| "py_join sep [x] = x"
| "py_join sep (x # y # zs) = x @ sep @ py_join sep (y # zs)"

subsection \<open>Decimal numerals\<close>

definition digit_value :: "char \<Rightarrow> nat" where
  "digit_value c = code_point c - 48"

definition digit_char :: "nat \<Rightarrow> char" where
  "digit_char n = char_of (48 + n)"

definition decimal_value :: "string \<Rightarrow> nat" where
  "decimal_value s = foldl (\<lambda>n c. 10 * n + digit_value c) 0 s"

fun show_nat :: "nat \<Rightarrow> string" where
  "show_nat n = (if n < 10 then [digit_char n] else show_nat (n div 10) @ [digit_char (n mod 10)])"

declare show_nat.simps [simp del]

text \<open>\<^verbatim>\<open>str(i)\<close>.\<close>

definition py_str_int :: "int \<Rightarrow> string" where
  "py_str_int i = (if i < 0 then CHR ''-'' # show_nat (nat (- i)) else show_nat (nat i))"

text \<open>
  \<^verbatim>\<open>int(s)\<close> where \<^verbatim>\<open>s.isdigit()\<close> holds: it succeeds exactly when every character is a decimal
  digit and raises \<^verbatim>\<open>ValueError\<close> on a superscript.
\<close>

definition py_int_of_digits :: "string \<Rightarrow> int py_result" where
  "py_int_of_digits s =
     (if list_all py_isdecimal s then Inr (int (decimal_value s))
      else Inl (ValueError ''invalid literal for int() with base 10''))"

lemma code_point_less: "code_point c < 256"
  by (simp add: code_point_def)

lemma code_point_digit: "n < 10 \<Longrightarrow> code_point (digit_char n) = 48 + n"
  by (simp add: code_point_def digit_char_def of_char_of)

lemma digit_char_decimal: "n < 10 \<Longrightarrow> py_isdecimal (digit_char n)"
  by (simp add: py_isdecimal_def code_point_digit)

lemma digit_value_char: "n < 10 \<Longrightarrow> digit_value (digit_char n) = n"
  by (simp add: digit_value_def code_point_digit)

lemma show_nat_nonempty: "show_nat n \<noteq> []"
  by (subst show_nat.simps) simp

lemma show_nat_decimal: "list_all py_isdecimal (show_nat n)"
proof (induction n rule: show_nat.induct)
  case (1 n)
  then show ?case
    by (cases "n < 10") (auto simp: show_nat.simps [of n] digit_char_decimal)
qed

lemma decimal_value_snoc: "decimal_value (s @ [c]) = 10 * decimal_value s + digit_value c"
  by (simp add: decimal_value_def)

lemma decimal_value_show_nat: "decimal_value (show_nat n) = n"
proof (induction n rule: show_nat.induct)
  case (1 n)
  show ?case
  proof (cases "n < 10")
    case True
    then show ?thesis
      by (simp add: show_nat.simps [of n] decimal_value_def digit_value_char)
  next
    case False
    with "1.IH" have "decimal_value (show_nat (n div 10)) = n div 10" by simp
    with False show ?thesis
      by (simp add: show_nat.simps [of n] decimal_value_snoc digit_value_char)
  qed
qed

lemma show_nat_inject: "show_nat m = show_nat n \<longleftrightarrow> m = n"
  by (metis decimal_value_show_nat)

lemma py_isdecimal_isdigit: "py_isdecimal c \<Longrightarrow> py_isdigit c"
  by (auto simp: py_isdecimal_def py_isdigit_def Let_def)

lemma py_int_of_show: "py_int_of_digits (show_nat n) = Inr (int n)"
  by (simp add: py_int_of_digits_def show_nat_decimal decimal_value_show_nat)

lemma show_nat_isdigit: "py_str_isdigit (show_nat n)"
  unfolding py_str_isdigit_def
  using show_nat_decimal [of n] show_nat_nonempty [of n]
  by (auto simp: list_all_iff intro: py_isdecimal_isdigit)

lemma decimal_not_space: "py_isdecimal c \<Longrightarrow> \<not> py_isspace c"
  by (auto simp: py_isdecimal_def py_isspace_def Let_def)

lemma py_strip_no_space: "list_all (\<lambda>c. \<not> py_isspace c) s \<Longrightarrow> py_strip s = s"
proof -
  assume a: "list_all (\<lambda>c. \<not> py_isspace c) s"
  have d: "dropWhile py_isspace t = t" if "list_all (\<lambda>c. \<not> py_isspace c) t" for t
    using that by (cases t) auto
  from a show ?thesis by (simp add: py_strip_def d)
qed

lemma py_strip_show_nat: "py_strip (show_nat n) = show_nat n"
  using show_nat_decimal [of n]
  by (intro py_strip_no_space) (auto simp: list_all_iff dest: decimal_not_space)

section \<open>Dictionaries and sets\<close>

text \<open>
  A Python \<^verbatim>\<open>dict\<close> keeps insertion order: an association list with distinct keys. Assigning to a
  key that is present keeps its position, assigning to a new key appends it; \<^verbatim>\<open>pop\<close> removes the
  key. The library's association-list update and delete are these operations.
\<close>

type_synonym ('k, 'v) dict = "('k \<times> 'v) list"

abbreviation dict_get :: "('k, 'v) dict \<Rightarrow> 'k \<Rightarrow> 'v option" where
  "dict_get d k \<equiv> map_of d k"

abbreviation dict_set :: "'k \<Rightarrow> 'v \<Rightarrow> ('k, 'v) dict \<Rightarrow> ('k, 'v) dict" where
  "dict_set k v d \<equiv> AList.update k v d"

abbreviation dict_pop :: "'k \<Rightarrow> ('k, 'v) dict \<Rightarrow> ('k, 'v) dict" where
  "dict_pop k d \<equiv> AList.delete k d"

abbreviation dict_keys :: "('k, 'v) dict \<Rightarrow> 'k list" where
  "dict_keys d \<equiv> map fst d"

abbreviation dict_wf :: "('k, 'v) dict \<Rightarrow> bool" where
  "dict_wf d \<equiv> distinct (dict_keys d)"

text \<open>\<^verbatim>\<open>{**d, **e}\<close> and \<^verbatim>\<open>d.update(e)\<close>.\<close>

definition dict_merge :: "('k, 'v) dict \<Rightarrow> ('k, 'v) dict \<Rightarrow> ('k, 'v) dict" where
  "dict_merge d e = fold (\<lambda>(k, v). dict_set k v) e d"

text \<open>\<^verbatim>\<open>{k: f(x) for x in xs}\<close>.\<close>

definition dict_of :: "('k \<times> 'v) list \<Rightarrow> ('k, 'v) dict" where
  "dict_of kvs = dict_merge [] kvs"

text \<open>
  A Python \<^verbatim>\<open>set\<close> is the list of its elements in some iteration order. Iteration order of a set is
  unspecified in Python, so facts about code that iterates over one are stated for every list.
\<close>

definition set_add :: "'a \<Rightarrow> 'a list \<Rightarrow> 'a list" where
  "set_add x s = (if x \<in> set s then s else s @ [x])"

lemma dict_get_set [dict_simps, simp]:
  "dict_get (dict_set k v d) k' = (if k' = k then Some v else dict_get d k')"
  by (simp add: update_conv')

lemma dict_get_pop [dict_simps, simp]:
  "dict_get (dict_pop k d) k' = (if k' = k then None else dict_get d k')"
  by (simp add: delete_conv')

lemma dict_wf_set [intro, simp]: "dict_wf d \<Longrightarrow> dict_wf (dict_set k v d)"
  by (rule distinct_update)

lemma dict_wf_pop [intro, simp]: "dict_wf d \<Longrightarrow> dict_wf (dict_pop k d)"
  by (rule distinct_delete)

lemma dict_keys_set: "dict_keys (dict_set k v d) =
    (if k \<in> set (dict_keys d) then dict_keys d else dict_keys d @ [k])"
  by (induction d) auto

lemma length_dict_set: "length (dict_set k v d) = (if k \<in> fst ` set d then length d else Suc (length d))"
  using arg_cong [OF dict_keys_set [of k v d], of length] by (auto split: if_splits)

lemma set_dict_keys_set [simp]: "fst ` set (dict_set k v d) = insert k (fst ` set d)"
  by (induction d) auto

lemma dict_pop_filter: "dict_pop k d = filter (\<lambda>f. fst f \<noteq> k) d"
  by (induction d) auto

lemma dict_pop_set_new: "k \<notin> fst ` set d \<Longrightarrow> dict_pop k (dict_set k v d) = d"
  by (induction d) (auto simp: dict_pop_filter filter_id_conv)

lemma set_dict_keys_pop [simp]: "fst ` set (dict_pop k d) = fst ` set d - {k}"
  by (induction d) auto

lemma dict_get_None: "dict_get d k = None \<longleftrightarrow> k \<notin> set (dict_keys d)"
  by (simp add: map_of_eq_None_iff image_def)

lemma dict_get_filter:
  "dict_wf d \<Longrightarrow> dict_get (filter (\<lambda>(k, v). P k v) d) k =
    (case dict_get d k of None \<Rightarrow> None | Some v \<Rightarrow> if P k v then Some v else None)"
proof (induction d)
  case (Cons kv d)
  have "dict_get (filter (\<lambda>(k, v). P k v) d) (fst kv) = None"
    using Cons.prems by (auto simp: map_of_eq_None_iff image_iff)
  with Cons show ?case by (cases kv) (auto split: option.splits)
qed simp

lemma if_intro: "(b \<Longrightarrow> P x) \<Longrightarrow> (\<not> b \<Longrightarrow> P y) \<Longrightarrow> P (if b then x else y)"
  by simp

lemma sort_eq_Nil [simp]: "sort xs = [] \<longleftrightarrow> xs = []"
  by (metis set_empty set_sort)

lemma set_set_add [simp]: "set (set_add x s) = insert x (set s)"
  by (auto simp: set_add_def)

lemma distinct_set_add [simp]: "distinct s \<Longrightarrow> distinct (set_add x s)"
  by (simp add: set_add_def)

section \<open>The interface of a keyed store\<close>

text \<open>
  What the components rely on from a dictionary keyed by slug or file name: lookup after a write
  or a removal, and a well-formedness the writes keep. The client lemmas speak of a whole series
  of writes, as a reload of persisted records or a burst of registrations makes it.
\<close>

locale keyed_store =
  fixes empty_store :: "'s"
    and get :: "'s \<Rightarrow> 'k \<Rightarrow> 'v option"
    and put :: "'k \<Rightarrow> 'v \<Rightarrow> 's \<Rightarrow> 's"
    and remove :: "'k \<Rightarrow> 's \<Rightarrow> 's"
    and wf_store :: "'s \<Rightarrow> bool"
  assumes get_empty: "get empty_store k = None"
    and get_put: "wf_store s \<Longrightarrow> get (put k v s) k' = (if k' = k then Some v else get s k')"
    and get_remove: "wf_store s \<Longrightarrow> get (remove k s) k' = (if k' = k then None else get s k')"
    and wf_empty: "wf_store empty_store"
    and wf_put: "wf_store s \<Longrightarrow> wf_store (put k v s)"
    and wf_remove: "wf_store s \<Longrightarrow> wf_store (remove k s)"
begin

lemma wf_puts: "wf_store s \<Longrightarrow> wf_store (fold (\<lambda>(k, v). put k v) kvs s)"
  by (induction kvs arbitrary: s) (auto simp: wf_put)

lemma get_puts:
  "wf_store s \<Longrightarrow>
    get (fold (\<lambda>(k, v). put k v) kvs s) k = (case map_of (rev kvs) k of None \<Rightarrow> get s k | Some v \<Rightarrow> Some v)"
proof (induction kvs arbitrary: s)
  case Nil
  then show ?case by simp
next
  case (Cons kv kvs)
  obtain k0 v0 where kv: "kv = (k0, v0)" by force
  from Cons.prems have "wf_store (put k0 v0 s)" by (rule wf_put)
  from Cons.IH [OF this] Cons.prems show ?case
    by (auto simp: kv get_put map_add_def split: option.splits)
qed

lemma get_puts_outside:
  "wf_store s \<Longrightarrow> k \<notin> fst ` set kvs \<Longrightarrow> get (fold (\<lambda>(k, v). put k v) kvs s) k = get s k"
  by (subst get_puts) (simp_all add: map_of_eq_None_iff [THEN iffD2])

lemma remove_put_same: "wf_store s \<Longrightarrow> get (remove k (put k v s)) k' = get (remove k s) k'"
  by (simp add: get_remove get_put wf_put)

end

interpretation pydict: keyed_store "[]" "\<lambda>d k. dict_get d k" "\<lambda>k v d. dict_set k v d"
    "\<lambda>k d. dict_pop k d" "\<lambda>d. dict_wf d"
  by unfold_locales (auto simp: dict_simps)

lemma dict_get_merge:
  "dict_wf d \<Longrightarrow> dict_get (dict_merge d e) k = (case map_of (rev e) k of None \<Rightarrow> dict_get d k | Some v \<Rightarrow> Some v)"
  unfolding dict_merge_def by (rule pydict.get_puts)

lemma dict_wf_merge: "dict_wf d \<Longrightarrow> dict_wf (dict_merge d e)"
  unfolding dict_merge_def by (rule pydict.wf_puts)

lemma map_of_rev_wf: "dict_wf e \<Longrightarrow> map_of (rev e) k = map_of e k"
proof (cases "map_of e k")
  case None
  then have "map_of (rev e) k = None" by (simp add: map_of_eq_None_iff)
  with None show ?thesis by simp
next
  case (Some v)
  moreover assume "dict_wf e"
  ultimately show ?thesis by (simp add: rev_map [symmetric])
qed

lemma dict_wf_of: "dict_wf (dict_of kvs)"
  by (simp add: dict_of_def dict_wf_merge)

lemma dict_get_of: "dict_get (dict_of kvs) k = map_of (rev kvs) k"
  by (auto simp: dict_of_def dict_get_merge split: option.splits)

lemma set_keys_dict_merge: "set (dict_keys (dict_merge d e)) = set (dict_keys d) \<union> fst ` set e"
  unfolding dict_merge_def by (induction e arbitrary: d) (simp_all add: case_prod_beta)

section \<open>Machines of operations\<close>

text \<open>
  Several components are an object whose methods are called in any order: a step per call, a
  condition on the calls considered, and an invariant every such call keeps. The locale lifts
  one-call facts to every sequence of calls; its extension adds a property that, once reached, no later call undoes.
\<close>

locale op_machine =
  fixes step :: "'op \<Rightarrow> 's \<Rightarrow> 's"
    and allowed :: "'op \<Rightarrow> bool"
    and inv :: "'s \<Rightarrow> bool"
  assumes step_inv: "inv s \<Longrightarrow> allowed x \<Longrightarrow> inv (step x s)"
begin

lemma run_inv: "inv s \<Longrightarrow> \<forall>x \<in> set ops. allowed x \<Longrightarrow> inv (fold step ops s)"
  by (induction ops arbitrary: s) (auto intro: step_inv)

end

locale settling_machine = op_machine +
  fixes settled :: "'s \<Rightarrow> bool"
  assumes settled_step: "inv s \<Longrightarrow> allowed x \<Longrightarrow> settled s \<Longrightarrow> settled (step x s)"
begin

lemma settled_run: "inv s \<Longrightarrow> \<forall>x \<in> set ops. allowed x \<Longrightarrow> settled s \<Longrightarrow> settled (fold step ops s)"
  by (induction ops arbitrary: s) (auto intro: step_inv settled_step)

end

text \<open>
  A step relation refines another through an abstraction when each of its steps is a step of the
  other or leaves the abstraction alone; the invariant says on which states the abstraction is
  meaningful.
\<close>

locale simulation =
  fixes cstep :: "'c \<Rightarrow> 'c \<Rightarrow> bool"
    and astep :: "'a \<Rightarrow> 'a \<Rightarrow> bool"
    and abs_fun :: "'c \<Rightarrow> 'a"
    and cinv :: "'c \<Rightarrow> bool"
  assumes cstep_inv: "cinv s \<Longrightarrow> cstep s s' \<Longrightarrow> cinv s'"
    and cstep_sim: "cinv s \<Longrightarrow> cstep s s' \<Longrightarrow> abs_fun s' = abs_fun s \<or> astep (abs_fun s) (abs_fun s')"
begin

lemma reach_inv: "cstep\<^sup>*\<^sup>* s s' \<Longrightarrow> cinv s \<Longrightarrow> cinv s'"
  by (induction rule: rtranclp_induct) (auto intro: cstep_inv)

lemma reach_sim: "cstep\<^sup>*\<^sup>* s s' \<Longrightarrow> cinv s \<Longrightarrow> astep\<^sup>*\<^sup>* (abs_fun s) (abs_fun s')"
proof (induction rule: rtranclp_induct)
  case (step y z)
  from reach_inv [OF step.hyps(1) step.prems] have "cinv y" .
  from cstep_sim [OF this step.hyps(2)] step.IH [OF step.prems] show ?case
    by (auto intro: rtranclp.rtrancl_into_rtrancl)
qed simp

end

section \<open>Dynamic values\<close>

text \<open>
  The values of the loosely typed dictionaries the code passes around (story detail, failure
  causes, tool-call arguments): JSON values, with Python's truthiness and equality. Equality is
  numeric across \<^verbatim>\<open>bool\<close>, \<^verbatim>\<open>int\<close> and \<^verbatim>\<open>float\<close>, and ignores the order of dictionary entries.
\<close>

datatype pyval =
    PNone
  | PBool bool
  | PInt int
  | PFloat rat
  | PStr string
  | PList "pyval list"
  | PDict "(string \<times> pyval) list"

type_synonym pydict = "(string, pyval) dict"

fun py_truthy :: "pyval \<Rightarrow> bool" where
  "py_truthy PNone = False"
| "py_truthy (PBool b) = b"
| "py_truthy (PInt i) = (i \<noteq> 0)"
| "py_truthy (PFloat r) = (r \<noteq> 0)"
| "py_truthy (PStr s) = (s \<noteq> [])"
| "py_truthy (PList xs) = (xs \<noteq> [])"
| "py_truthy (PDict d) = (d \<noteq> [])"

text \<open>\<^verbatim>\<open>d.get(k)\<close>: None for a missing key.\<close>

definition py_get :: "pydict \<Rightarrow> string \<Rightarrow> pyval" where
  "py_get d k = (case dict_get d k of None \<Rightarrow> PNone | Some v \<Rightarrow> v)"

fun py_number :: "pyval \<Rightarrow> rat option" where
  "py_number (PBool b) = Some (if b then 1 else 0)"
| "py_number (PInt i) = Some (of_int i)"
| "py_number (PFloat r) = Some r"
| "py_number _ = None"

fun py_eq :: "pyval \<Rightarrow> pyval \<Rightarrow> bool"
  and py_eq_list :: "pyval list \<Rightarrow> pyval list \<Rightarrow> bool"
  and py_eq_items :: "(string \<times> pyval) list \<Rightarrow> (string \<times> pyval) list \<Rightarrow> bool" where
  "py_eq (PList xs) (PList ys) = py_eq_list xs ys"
| "py_eq (PDict d) (PDict e) = (length d = length e \<and> py_eq_items d e)"
| "py_eq v w = (case (py_number v, py_number w) of
       (Some x, Some y) \<Rightarrow> x = y
     | (None, None) \<Rightarrow> v = w
     | _ \<Rightarrow> False)"
| "py_eq_list [] [] = True"
| "py_eq_list (x # xs) (y # ys) = (py_eq x y \<and> py_eq_list xs ys)"
| "py_eq_list _ _ = False"
| "py_eq_items [] e = True"
| "py_eq_items ((k, v) # d) e =
     ((case map_of e k of None \<Rightarrow> False | Some w \<Rightarrow> py_eq v w) \<and> py_eq_items d e)"

text \<open>A value Python can hold: every dictionary inside it has distinct keys.\<close>

fun py_wf :: "pyval \<Rightarrow> bool" where
  "py_wf (PList xs) = list_all py_wf xs"
| "py_wf (PDict d) = (dict_wf d \<and> list_all (\<lambda>(k, v). py_wf v) d)"
| "py_wf _ = True"

lemma py_eq_list_refl: "(\<And>v. v \<in> set xs \<Longrightarrow> py_eq v v) \<Longrightarrow> py_eq_list xs xs"
  by (induction xs) auto

lemma py_eq_items_refl:
  "\<forall>(k, v) \<in> set d. map_of e k = Some v \<and> py_eq v v \<Longrightarrow> py_eq_items d e"
  by (induction d) auto

lemma py_eq_refl: "py_wf v \<Longrightarrow> py_eq v v"
proof (induction v rule: py_wf.induct)
  case (1 xs)
  then show ?case by (auto simp: list_all_iff intro: py_eq_list_refl)
next
  case (2 d)
  then show ?case by (auto simp: list_all_iff intro!: py_eq_items_refl)
qed auto

lemma py_get_set: "py_get (dict_set k v d) k' = (if k' = k then v else py_get d k')"
  by (simp add: py_get_def)

lemma py_get_wf: "py_wf (PDict d) \<Longrightarrow> py_wf (py_get d k)"
  by (auto simp: py_get_def list_all_iff split: option.splits dest: map_of_SomeD)

end
