(* ===== verification/Retry_Budget.thy ===== *)
theory Retry_Budget
  imports Forge_Prelude
begin

text \<open>
  The per-cycle and cumulative counter of dev iterations (\<^verbatim>\<open>coordinator/retry_budget.py\<close>), which the
  coordinator consults before every dev call. The clock reading that stamps a log entry is an
  argument of \<open>consume\<close>.
\<close>

section \<open>Model\<close>

record retry_budget_consumption =
  rc_cycle :: int
  rc_cycle_count :: int
  rc_total_count :: int
  rc_timestamp :: string

record retry_budget =
  rb_max_iterations :: int
  rb_cycle_count :: int
  rb_total_count :: int
  rb_consumption_log :: "retry_budget_consumption list"

definition new_retry_budget :: "int \<Rightarrow> retry_budget" where
  "new_retry_budget m =
     \<lparr>rb_max_iterations = m, rb_cycle_count = 0, rb_total_count = 0, rb_consumption_log = []\<rparr>"

definition consume :: "int \<Rightarrow> string \<Rightarrow> retry_budget \<Rightarrow> retry_budget" where
  "consume review_cycle now b =
     (let c = rb_cycle_count b + 1; t = rb_total_count b + 1
      in b\<lparr>rb_cycle_count := c, rb_total_count := t,
           rb_consumption_log := rb_consumption_log b @
             [\<lparr>rc_cycle = review_cycle, rc_cycle_count = c, rc_total_count = t, rc_timestamp = now\<rparr>]\<rparr>)"

definition release_unused :: "retry_budget \<Rightarrow> bool \<times> retry_budget" where
  "release_unused b =
     (if rb_consumption_log b = [] \<or> rb_total_count b \<le> 0 then (False, b)
      else (True, b\<lparr>rb_consumption_log := butlast (rb_consumption_log b),
                    rb_total_count := max 0 (rb_total_count b - 1),
                    rb_cycle_count := max 0 (rb_cycle_count b - 1)\<rparr>))"

definition reset_cycle :: "retry_budget \<Rightarrow> retry_budget" where
  "reset_cycle b = b\<lparr>rb_cycle_count := 0\<rparr>"

definition is_exhausted :: "retry_budget \<Rightarrow> bool" where
  "is_exhausted b = (rb_cycle_count b \<ge> rb_max_iterations b)"

definition remaining_iterations :: "retry_budget \<Rightarrow> int" where
  "remaining_iterations b = max 0 (rb_max_iterations b - rb_cycle_count b)"

text \<open>The calls a run makes on the budget, in any order.\<close>

datatype budget_op = Consume int string | ReleaseUnused | ResetCycle

fun budget_step :: "budget_op \<Rightarrow> retry_budget \<Rightarrow> retry_budget" where
  "budget_step (Consume c now) b = consume c now b"
| "budget_step ReleaseUnused b = snd (release_unused b)"
| "budget_step ResetCycle b = reset_cycle b"

lemmas budget_defs = consume_def release_unused_def reset_cycle_def Let_def

section \<open>The ledger invariant\<close>

text \<open>
  The counters are never negative and the log is an exact ledger of the cumulative counter: its
  entries carry the totals 1, 2, 3, \<open>\<dots>\<close> up to the current one.
\<close>

definition ledger_ok :: "retry_budget \<Rightarrow> bool" where
  "ledger_ok b \<longleftrightarrow> 0 \<le> rb_cycle_count b \<and> rb_total_count b = int (length (rb_consumption_log b))
     \<and> map rc_total_count (rb_consumption_log b) = map int [1..<Suc (length (rb_consumption_log b))]"

lemma ledger_ok_new: "ledger_ok (new_retry_budget m)"
  by (simp add: ledger_ok_def new_retry_budget_def)

lemma ledger_ok_consume: "ledger_ok b \<Longrightarrow> ledger_ok (consume c now b)"
  by (simp add: ledger_ok_def budget_defs)

lemma ledger_ok_release: "ledger_ok b \<Longrightarrow> ledger_ok (snd (release_unused b))"
proof -
  assume ok: "ledger_ok b"
  show ?thesis
  proof (cases "rb_consumption_log b" rule: rev_cases)
    case Nil
    with ok show ?thesis by (simp add: ledger_ok_def budget_defs)
  next
    case (snoc es e)
    with ok show ?thesis by (auto simp: ledger_ok_def budget_defs)
  qed
qed

lemma ledger_ok_reset: "ledger_ok b \<Longrightarrow> ledger_ok (reset_cycle b)"
  by (simp add: ledger_ok_def budget_defs)

lemma ledger_ok_step: "ledger_ok b \<Longrightarrow> ledger_ok (budget_step x b)"
  by (cases x) (auto simp: ledger_ok_consume ledger_ok_release ledger_ok_reset)

interpretation budget: op_machine budget_step "\<lambda>_. True" ledger_ok
  by unfold_locales (rule ledger_ok_step)

section \<open>Counting within a cycle\<close>

lemma step_max: "rb_max_iterations (budget_step x b) = rb_max_iterations b"
  by (cases x) (auto simp: budget_defs)

lemma consumes_count:
  "rb_cycle_count (fold (\<lambda>(c, now). consume c now) calls b) = rb_cycle_count b + int (length calls)"
  by (induction calls arbitrary: b) (auto simp: budget_defs)

lemma consumes_max:
  "rb_max_iterations (fold (\<lambda>(c, now). consume c now) calls b) = rb_max_iterations b"
  by (induction calls arbitrary: b) (auto simp: budget_defs)

lemma exhausted_iff_no_remaining: "is_exhausted b \<longleftrightarrow> remaining_iterations b = 0"
  by (auto simp: is_exhausted_def remaining_iterations_def)

lemma release_consume: "0 \<le> rb_cycle_count b \<Longrightarrow> 0 \<le> rb_total_count b \<Longrightarrow>
    release_unused (consume c now b) = (True, b)"
  by (simp add: budget_defs)

section \<open>Properties\<close>

text \<open>Whatever sequence of consumptions, releases and cycle resets a run makes on a fresh budget, the
  consumption log stays an exact ledger: as many entries as the cumulative counter says, numbered
  1, 2, 3 and so on, and no counter is ever negative.\<close>

theorem budget_ledger_exact: "ledger_ok (fold budget_step ops (new_retry_budget m))"
  by (rule budget.run_inv [OF ledger_ok_new]) simp

text \<open>The per-cycle budget is exact: after a reset, a cycle is exhausted after precisely
  \<open>max_iterations\<close> further dev calls, not before and not later, and the count of remaining calls is
  what is left.\<close>

theorem budget_cycle_exact:
  assumes "0 \<le> rb_max_iterations b"
  shows "let b' = fold (\<lambda>(c, now). consume c now) calls (reset_cycle b)
         in (is_exhausted b' \<longleftrightarrow> rb_max_iterations b \<le> int (length calls))
          \<and> remaining_iterations b' = max 0 (rb_max_iterations b - int (length calls))"
  by (simp add: Let_def is_exhausted_def remaining_iterations_def consumes_count consumes_max)
    (simp add: reset_cycle_def)

theorem budget_cycle_exact_witness:
  "0 \<le> rb_max_iterations (new_retry_budget 2)
    \<and> is_exhausted (fold (\<lambda>(c, now). consume c now) [(1, ''t1''), (1, ''t2'')] (reset_cycle (new_retry_budget 2)))"
  using budget_cycle_exact [of "new_retry_budget 2" "[(1, ''t1''), (1, ''t2'')]"]
  by (simp add: Let_def new_retry_budget_def)

text \<open>Releasing a slot right after reserving it restores the budget exactly, whatever the counters
  were, as long as none was negative; on a budget with an empty log a release changes nothing and
  says so.\<close>

theorem release_undoes_consume:
  assumes "ledger_ok b"
  shows "release_unused (consume c now b) = (True, b)
    \<and> (rb_consumption_log b = [] \<longrightarrow> release_unused b = (False, b))"
  using assms by (auto simp: release_consume ledger_ok_def) (simp add: release_unused_def)

theorem release_undoes_consume_witness:
  "ledger_ok (new_retry_budget 3) \<and> release_unused (consume 1 ''t'' (new_retry_budget 3)) = (True, new_retry_budget 3)"
  using release_undoes_consume [OF ledger_ok_new [of 3], of 1 "''t''"] ledger_ok_new [of 3] by blast

end
