(* ===== verification/Story_DAG.thy ===== *)
theory Story_DAG
  imports Forge_Prelude
begin

text \<open>
  The dependency scheduler of a sprint (\<^verbatim>\<open>sprint/dag.py\<close>): construction with its validation and
  cycle check, the queries and marks the scheduler loop makes, and the resolution of dependencies
  satisfied outside the manifest. \<^verbatim>\<open>set\<close> attributes that are only tested and added to are HOL sets;
  the dependency sets, which are iterated over, are lists in an unspecified order.
\<close>

section \<open>Model\<close>

text \<open>The fields of \<^verbatim>\<open>TaskStory\<close> (\<^verbatim>\<open>task/story.py\<close>) that scheduling reads.\<close>

record task_story =
  ts_name :: string
  ts_slug :: string
  ts_story_text :: "string option"
  ts_depends_on :: "string list"
  ts_collision_deps :: "string list"
  ts_github_issue :: "int option"

text \<open>\<^verbatim>\<open>re.fullmatch(r"issue-(\d+)", slug)\<close>.\<close>

definition issue_number_from_slug :: "string \<Rightarrow> int option" where
  "issue_number_from_slug s =
     (if prefix ''issue-'' s
      then (let r = drop 6 s in if r \<noteq> [] \<and> list_all py_isdecimal r then Some (int (decimal_value r)) else None)
      else None)"

definition is_issue_slug :: "string \<Rightarrow> bool" where
  "is_issue_slug s = (prefix ''issue-'' s \<and> drop 6 s \<noteq> [] \<and> list_all py_isdecimal (drop 6 s))"

record story_dag =
  dag_tasks :: "(string, task_story) dict"
  dag_hard_deps :: "(string, string list) dict"
  dag_soft_deps :: "(string, string list) dict"
  dag_completed :: "string set"
  dag_finished :: "string set"

definition new_story_dag :: "task_story list \<Rightarrow> string set \<Rightarrow> story_dag" where
  "new_story_dag tasks satisfied =
     \<lparr>dag_tasks = dict_of (map (\<lambda>t. (ts_slug t, t)) tasks),
      dag_hard_deps = dict_of (map (\<lambda>t. (ts_slug t, remdups (ts_depends_on t))) tasks),
      dag_soft_deps = dict_of (map (\<lambda>t. (ts_slug t, remdups (ts_collision_deps t))) tasks),
      dag_completed = satisfied,
      dag_finished = {}\<rparr>"

text \<open>
  \<^verbatim>\<open>self._hard_deps[slug]\<close> for a slug of \<^verbatim>\<open>self._tasks\<close>: the three dictionaries have the same keys, so
  the lookup cannot fail there.
\<close>

definition deps_of :: "(string, string list) dict \<Rightarrow> string \<Rightarrow> string list" where
  "deps_of d s = (case dict_get d s of None \<Rightarrow> [] | Some ds \<Rightarrow> ds)"

definition dag_ready :: "story_dag \<Rightarrow> task_story list" where
  "dag_ready g = map snd (filter (\<lambda>(s, t). s \<notin> dag_finished g
       \<and> (\<forall>d \<in> set (deps_of (dag_hard_deps g) s). d \<in> dag_completed g)
       \<and> (\<forall>d \<in> set (deps_of (dag_soft_deps g) s). d \<in> dag_completed g \<or> d \<in> dag_finished g))
     (dag_tasks g))"

definition mark_complete :: "string \<Rightarrow> story_dag \<Rightarrow> story_dag" where
  "mark_complete s g =
     (let g1 = g\<lparr>dag_completed := insert s (dag_completed g)\<rparr>
      in if dict_get (dag_tasks g) s \<noteq> None then g1\<lparr>dag_finished := insert s (dag_finished g)\<rparr> else g1)"

definition mark_skipped :: "string \<Rightarrow> story_dag \<Rightarrow> story_dag" where
  "mark_skipped s g = g\<lparr>dag_finished := insert s (dag_finished g)\<rparr>"

definition dag_is_done :: "story_dag \<Rightarrow> bool" where
  "dag_is_done g = (card (dag_finished g) = length (dag_tasks g))"

definition unmet_deps :: "story_dag \<Rightarrow> string \<Rightarrow> string list py_result" where
  "unmet_deps g s =
     (case dict_get (dag_hard_deps g) s of
        None \<Rightarrow> Inl (KeyError s)
      | Some hard \<Rightarrow>
         (case dict_get (dag_soft_deps g) s of
            None \<Rightarrow> Inl (KeyError s)
          | Some soft \<Rightarrow>
              Inr (filter (\<lambda>d. d \<notin> dag_completed g) hard
                   @ filter (\<lambda>d. d \<notin> dag_completed g \<and> d \<notin> dag_finished g) soft)))"

definition dag_remaining :: "story_dag \<Rightarrow> task_story list" where
  "dag_remaining g = map snd (filter (\<lambda>(s, t). s \<notin> dag_finished g) (dag_tasks g))"

subsection \<open>Construction\<close>

text \<open>The two \<^verbatim>\<open>ValueError\<close>s of \<^verbatim>\<open>build_dag\<close>, with the data their messages carry.\<close>

datatype dag_error =
    UnknownDeps string "string list"
  | CircularDependency string string

definition missing_deps :: "string set \<Rightarrow> string set \<Rightarrow> task_story \<Rightarrow> string list" where
  "missing_deps known satisfied t =
     filter (\<lambda>d. d \<notin> known \<and> d \<notin> satisfied \<and> issue_number_from_slug d = None) (ts_depends_on t)"

fun validate_deps :: "string set \<Rightarrow> string set \<Rightarrow> task_story list \<Rightarrow> dag_error option" where
  "validate_deps known satisfied [] = None"
| "validate_deps known satisfied (t # ts) =
     (let missing = missing_deps known satisfied t
      in if missing \<noteq> [] then Some (UnknownDeps (ts_slug t) missing)
         else validate_deps known satisfied ts)"

text \<open>
  The nested function \<^verbatim>\<open>_dfs\<close> and its loop over the dependencies, on the pair of sets it mutates.
  The recursion is bounded by the number of unvisited slugs; the fuel argument counts it down and
  \<open>DfsOutOfFuel\<close> is shown below never to be the result.
\<close>

datatype dfs_result =
    DfsOutOfFuel
  | DfsCycle string string
  | DfsDone "string set" "string set"

fun dfs :: "nat \<Rightarrow> (string \<Rightarrow> string list) \<Rightarrow> string \<Rightarrow> string set \<Rightarrow> string set \<Rightarrow> dfs_result"
  and dfs_deps :: "nat \<Rightarrow> (string \<Rightarrow> string list) \<Rightarrow> string \<Rightarrow> string list \<Rightarrow> string set \<Rightarrow> string set \<Rightarrow> dfs_result"
where
  "dfs 0 deps slug visited in_stack = DfsOutOfFuel"
| "dfs (Suc n) deps slug visited in_stack =
     (case dfs_deps n deps slug (deps slug) (insert slug visited) (insert slug in_stack) of
        DfsDone visited' in_stack' \<Rightarrow> DfsDone visited' (in_stack' - {slug})
      | r \<Rightarrow> r)"
| "dfs_deps n deps slug [] visited in_stack = DfsDone visited in_stack"
| "dfs_deps n deps slug (d # ds) visited in_stack =
     (if d \<in> in_stack then DfsCycle slug d
      else if d \<notin> visited
      then (case dfs n deps d visited in_stack of
              DfsDone visited' in_stack' \<Rightarrow> dfs_deps n deps slug ds visited' in_stack'
            | r \<Rightarrow> r)
      else dfs_deps n deps slug ds visited in_stack)"

fun dfs_all :: "nat \<Rightarrow> (string \<Rightarrow> string list) \<Rightarrow> string list \<Rightarrow> string set \<Rightarrow> string set \<Rightarrow> dfs_result" where
  "dfs_all n deps [] visited in_stack = DfsDone visited in_stack"
| "dfs_all n deps (s # ss) visited in_stack =
     (if s \<notin> visited
      then (case dfs n deps s visited in_stack of
              DfsDone visited' in_stack' \<Rightarrow> dfs_all n deps ss visited' in_stack'
            | r \<Rightarrow> r)
      else dfs_all n deps ss visited in_stack)"

definition dfs_graph :: "task_story list \<Rightarrow> string set \<Rightarrow> string \<Rightarrow> string list" where
  "dfs_graph tasks satisfied = deps_of (dict_of (map (\<lambda>t. (ts_slug t,
     filter (\<lambda>d. d \<notin> satisfied \<and> d \<in> ts_slug ` set tasks) (ts_depends_on t))) tasks))"

definition build_dag :: "task_story list \<Rightarrow> string set \<Rightarrow> dag_error + story_dag" where
  "build_dag tasks satisfied =
     (case validate_deps (ts_slug ` set tasks) satisfied tasks of
        Some e \<Rightarrow> Inl e
      | None \<Rightarrow>
         (case dfs_all (length tasks) (dfs_graph tasks satisfied) (map ts_slug tasks) {} {} of
            DfsCycle a b \<Rightarrow> Inl (CircularDependency a b)
          | _ \<Rightarrow> Inr (new_story_dag tasks satisfied)))"

subsection \<open>Dependencies satisfied outside the manifest\<close>

text \<open>
  \<^verbatim>\<open>_is_issue_closed\<close> on what the \<^verbatim>\<open>gh\<close> process did: it could not be run or timed out, or it exited
  with a code and an output that parses to a JSON value or does not. The attribute access on a
  reply that is no object raises, uncaught.
\<close>

datatype gh_reply =
    GhFailed
  | GhExited int "pyval option"

definition ascii_upper :: "char \<Rightarrow> char" where
  "ascii_upper c = (let n = code_point c in if 97 \<le> n \<and> n \<le> 122 then case_bit False c else c)"

definition is_issue_closed :: "gh_reply \<Rightarrow> bool py_result" where
  "is_issue_closed r =
     (case r of
        GhFailed \<Rightarrow> Inr False
      | GhExited rc out \<Rightarrow>
          if rc \<noteq> 0 then Inr False
          else (case out of
              None \<Rightarrow> Inr False
            | Some (PDict d) \<Rightarrow>
                (case py_get d ''state'' of
                   PStr s \<Rightarrow> Inr (map ascii_upper s \<noteq> ''OPEN'')
                 | _ \<Rightarrow> Inr False)
            | Some v \<Rightarrow> Inl (ValueError ''AttributeError: get'')))"

text \<open>
  The loop over the external dependencies. The answers about branches and issues are arguments:
  \<open>merged\<close> is the boolean face of the branch landing resolver (\<^verbatim>\<open>_is_branch_merged\<close> on the slug's
  branch), \<open>issue_state\<close> the reply about an issue number. The set difference is iterated in the
  order of first mention; the result is shown below not to depend on that order.
\<close>

fun resolve_external ::
    "(string \<Rightarrow> bool) \<Rightarrow> (int \<Rightarrow> gh_reply) \<Rightarrow> string list \<Rightarrow> string set \<Rightarrow> string set py_result" where
  "resolve_external merged issue_state [] sat = Inr sat"
| "resolve_external merged issue_state (d # ds) sat =
     (if d \<in> sat then resolve_external merged issue_state ds sat
      else if merged d then resolve_external merged issue_state ds (insert d sat)
      else (case issue_number_from_slug d of
              None \<Rightarrow> resolve_external merged issue_state ds sat
            | Some n \<Rightarrow> py_bind (is_issue_closed (issue_state n)) (\<lambda>c.
                resolve_external merged issue_state ds (if c then insert d sat else sat))))"

definition external_deps :: "task_story list \<Rightarrow> string list" where
  "external_deps tasks = filter (\<lambda>d. d \<notin> ts_slug ` set tasks) (remdups (concat (map ts_depends_on tasks)))"

definition resolve_satisfied_dependencies ::
    "(string \<Rightarrow> bool) \<Rightarrow> (int \<Rightarrow> gh_reply) \<Rightarrow> task_story list \<Rightarrow> string set \<Rightarrow> string set py_result" where
  "resolve_satisfied_dependencies merged issue_state tasks pre_satisfied =
     resolve_external merged issue_state (external_deps tasks) pre_satisfied"

section \<open>The cycle check decides acyclicity\<close>

text \<open>
  The slugs the search is done with (visited and off the stack) are closed under dependencies and
  carry no cycle; the slugs on the stack all lead to the slug in hand.
\<close>

definition graph_edges :: "(string \<Rightarrow> string list) \<Rightarrow> (string \<times> string) set" where
  "graph_edges deps = {(a, b). b \<in> set (deps a)}"

definition dfs_inv :: "(string \<Rightarrow> string list) \<Rightarrow> string set \<Rightarrow> string set \<Rightarrow> string set \<Rightarrow> bool" where
  "dfs_inv deps nodes visited in_stack \<longleftrightarrow> in_stack \<subseteq> visited \<and> visited \<subseteq> nodes
     \<and> (\<forall>b \<in> visited - in_stack. set (deps b) \<subseteq> visited - in_stack)
     \<and> acyclic (graph_edges deps \<inter> (visited - in_stack) \<times> UNIV)"

lemma graph_edges_iff [simp]: "(a, b) \<in> graph_edges deps \<longleftrightarrow> b \<in> set (deps a)"
  by (simp add: graph_edges_def)

lemma trancl_into_closed:
  assumes "(a, b) \<in> (graph_edges deps \<inter> insert x B \<times> UNIV)\<^sup>+" and "a \<in> B"
    and closed: "\<forall>b \<in> B. set (deps b) \<subseteq> B"
  shows "b \<in> B \<and> (a, b) \<in> (graph_edges deps \<inter> B \<times> UNIV)\<^sup>+"
  using assms(1,2)
proof (induction rule: trancl_induct)
  case (base y)
  with closed show ?case by auto
next
  case (step y z)
  with closed have "(y, z) \<in> graph_edges deps \<inter> B \<times> UNIV" "z \<in> B" by auto
  with step show ?case by (auto intro: trancl_into_trancl)
qed

lemma acyclic_extend:
  assumes acyc: "acyclic (graph_edges deps \<inter> B \<times> UNIV)"
    and closed: "\<forall>b \<in> B. set (deps b) \<subseteq> B"
    and x: "set (deps x) \<subseteq> B" "x \<notin> B"
  shows "acyclic (graph_edges deps \<inter> insert x B \<times> UNIV)"
proof (rule acyclicI, rule allI, rule notI)
  fix a
  let ?R = "graph_edges deps \<inter> insert x B \<times> UNIV"
  assume cyc: "(a, a) \<in> ?R\<^sup>+"
  have notB: "a \<notin> B"
  proof
    assume "a \<in> B"
    from trancl_into_closed [OF cyc this closed] acyc show False
      by (auto simp: acyclic_def)
  qed
  from cyc obtain c where c: "(a, c) \<in> ?R" "c = a \<or> (c, a) \<in> ?R\<^sup>+"
    by (blast elim: converse_tranclE)
  from c(1) notB x have "c \<in> B" by auto
  with c(2) notB trancl_into_closed [OF _ \<open>c \<in> B\<close> closed] show False by blast
qed

text \<open>What a call of \<open>dfs\<close> (respectively its loop) gives back.\<close>

definition dfs_post :: "(string \<Rightarrow> string list) \<Rightarrow> string set \<Rightarrow> string set \<Rightarrow> string set \<Rightarrow> string set \<Rightarrow> dfs_result \<Rightarrow> bool" where
  "dfs_post deps nodes visited in_stack reached r \<longleftrightarrow>
     (case r of
        DfsOutOfFuel \<Rightarrow> False
      | DfsCycle a b \<Rightarrow> b \<in> set (deps a) \<and> (b, a) \<in> (graph_edges deps)\<^sup>*
      | DfsDone visited' in_stack' \<Rightarrow>
          in_stack' = in_stack \<and> visited \<subseteq> visited' \<and> dfs_inv deps nodes visited' in_stack
          \<and> reached \<subseteq> visited' - in_stack)"

lemma dfs_post_leave:
  assumes post: "dfs_post deps nodes (insert s V) (insert s S) (set (deps s)) (DfsDone V' S')"
    and "s \<notin> V" "S \<subseteq> V"
  shows "dfs_post deps nodes V S {s} (DfsDone V' (S' - {s}))"
proof -
  from post have S': "S' = insert s S" and V': "insert s V \<subseteq> V'"
    and inv: "dfs_inv deps nodes V' (insert s S)" and ch: "set (deps s) \<subseteq> V' - insert s S"
    by (auto simp: dfs_post_def)
  from assms S' have S: "S' - {s} = S" by auto
  from assms V' have B: "V' - S = insert s (V' - insert s S)" by auto
  from inv ch have "acyclic (graph_edges deps \<inter> insert s (V' - insert s S) \<times> UNIV)"
    by (intro acyclic_extend) (auto simp: dfs_inv_def)
  moreover from inv have "S \<subseteq> V'" "V' \<subseteq> nodes" by (auto simp: dfs_inv_def)
  moreover from inv ch B have "\<forall>b \<in> V' - S. set (deps b) \<subseteq> V' - S"
    unfolding dfs_inv_def by blast
  ultimately have "dfs_inv deps nodes V' S" by (simp add: dfs_inv_def B)
  with S V' assms show ?thesis by (auto simp: dfs_post_def)
qed

lemma dfs_correct:
  assumes fin: "finite nodes"
  shows "\<forall>a. set (deps a) \<subseteq> nodes \<Longrightarrow> dfs_inv deps nodes V S \<Longrightarrow> s \<in> nodes - V \<Longrightarrow> card (nodes - V) \<le> n \<Longrightarrow>
      \<forall>a \<in> S. (a, s) \<in> (graph_edges deps)\<^sup>* \<Longrightarrow> dfs_post deps nodes V S {s} (dfs n deps s V S)"
    and "\<forall>a. set (deps a) \<subseteq> nodes \<Longrightarrow> dfs_inv deps nodes V S \<Longrightarrow> set ds \<subseteq> set (deps s) \<Longrightarrow> card (nodes - V) \<le> n \<Longrightarrow>
      \<forall>a \<in> S. (a, s) \<in> (graph_edges deps)\<^sup>* \<Longrightarrow> dfs_post deps nodes V S (set ds) (dfs_deps n deps s ds V S)"
proof (induction n deps s V S and n deps s ds V S rule: dfs_dfs_deps.induct)
  case (1 deps s V S)
  then show ?case using fin by (auto simp: card_eq_0_iff)
next
  case (2 n deps s V S)
  have "card (nodes - insert s V) < card (nodes - V)"
    using fin "2.prems"(3) by (intro psubset_card_mono) auto
  with "2.prems" have "card (nodes - insert s V) \<le> n" by simp
  moreover have "dfs_inv deps nodes (insert s V) (insert s S)"
  proof -
    from "2.prems" have "insert s V - insert s S = V - S" by (auto simp: dfs_inv_def)
    with "2.prems" show ?thesis by (auto simp: dfs_inv_def)
  qed
  ultimately have post: "dfs_post deps nodes (insert s V) (insert s S) (set (deps s))
      (dfs_deps n deps s (deps s) (insert s V) (insert s S))"
    using "2.prems" by (intro "2.IH") auto
  from "2.prems" have "S \<subseteq> V" "s \<notin> V" by (auto simp: dfs_inv_def)
  with post show ?case
    by (cases "dfs_deps n deps s (deps s) (insert s V) (insert s S)")
      (auto simp: dfs_post_def [of _ _ _ _ _ DfsOutOfFuel] dfs_post_def [of _ _ _ _ _ "DfsCycle _ _"]
        intro: dfs_post_leave)
next
  case (3 n deps s V S)
  then show ?case by (simp add: dfs_post_def)
next
  case (4 n deps s d ds V S)
  from "4.prems" have d: "d \<in> set (deps s)" "d \<in> nodes" and ds: "set ds \<subseteq> set (deps s)" by auto
  consider "d \<in> S" | "d \<notin> S" "d \<notin> V" | "d \<notin> S" "d \<in> V" by blast
  then show ?case
  proof cases
    case 1
    with d "4.prems" show ?thesis by (auto simp: dfs_post_def)
  next
    case 2
    with d "4.prems" have "dfs_post deps nodes V S {d} (dfs n deps d V S)"
      by (intro "4.IH"(1)) (auto intro: rtrancl_into_rtrancl)
    then show ?thesis
    proof (cases "dfs n deps d V S")
      case (DfsDone V' S')
      with \<open>dfs_post deps nodes V S {d} (dfs n deps d V S)\<close>
      have V': "S' = S" "V \<subseteq> V'" "dfs_inv deps nodes V' S" "d \<in> V' - S"
        by (auto simp: dfs_post_def)
      have "card (nodes - V') \<le> card (nodes - V)"
        using fin V'(2) by (intro card_mono) auto
      with "4.prems" V' ds have "dfs_post deps nodes V' S (set ds) (dfs_deps n deps s ds V' S)"
        using "4.IH"(2) [OF 2(1) 2(2) DfsDone] by simp
      with V' 2 DfsDone show ?thesis
        by (auto simp: dfs_post_def split: dfs_result.splits)
    qed (use 2 in \<open>auto simp: dfs_post_def\<close>)
  next
    case 3
    with "4.prems" ds have "dfs_post deps nodes V S (set ds) (dfs_deps n deps s ds V S)"
      by (intro "4.IH"(3)) auto
    with 3 show ?thesis by (auto simp: dfs_post_def split: dfs_result.splits)
  qed
qed

lemma dfs_all_correct:
  assumes fin: "finite nodes" and deps: "\<forall>a. set (deps a) \<subseteq> nodes"
  shows "dfs_inv deps nodes V {} \<Longrightarrow> set ss \<subseteq> nodes \<Longrightarrow> card nodes \<le> n \<Longrightarrow>
      dfs_post deps nodes V {} (set ss) (dfs_all n deps ss V {})"
proof (induction ss arbitrary: V)
  case Nil
  then show ?case by (simp add: dfs_post_def)
next
  case (Cons s ss)
  show ?case
  proof (cases "s \<in> V")
    case True
    with Cons have "dfs_post deps nodes V {} (set ss) (dfs_all n deps ss V {})" by simp
    with True show ?thesis by (auto simp: dfs_post_def split: dfs_result.splits)
  next
    case False
    have "card (nodes - V) \<le> n" using Cons.prems fin card_mono [of nodes "nodes - V"] by auto
    with False Cons.prems deps have post: "dfs_post deps nodes V {} {s} (dfs n deps s V {})"
      by (intro dfs_correct(1) [OF fin]) auto
    then show ?thesis
    proof (cases "dfs n deps s V {}")
      case (DfsDone V' S')
      with post have V': "S' = {}" "V \<subseteq> V'" "dfs_inv deps nodes V' {}" "s \<in> V'"
        by (auto simp: dfs_post_def)
      with Cons have "dfs_post deps nodes V' {} (set ss) (dfs_all n deps ss V' {})" by simp
      with V' False DfsDone show ?thesis by (auto simp: dfs_post_def split: dfs_result.splits)
    qed (use False in \<open>auto simp: dfs_post_def\<close>)
  qed
qed

lemma dict_get_by_slug:
  "dict_get (dict_of (map (\<lambda>t. (ts_slug t, f t)) tasks)) a = Some v \<Longrightarrow>
    \<exists>t \<in> set tasks. ts_slug t = a \<and> v = f t"
  by (drule map_of_SomeD [of "rev _", unfolded dict_get_of [symmetric]]) auto

lemma dict_get_by_slug_distinct:
  assumes "distinct (map ts_slug tasks)" and "t \<in> set tasks"
  shows "dict_get (dict_of (map (\<lambda>t. (ts_slug t, f t)) tasks)) (ts_slug t) = Some (f t)"
proof -
  have "map_of (rev (map (\<lambda>t. (ts_slug t, f t)) tasks)) (ts_slug t) = Some (f t)"
    using assms by (subst map_of_rev_wf) (auto simp: comp_def)
  then show ?thesis by (simp add: dict_get_of)
qed

lemma dfs_graph_nodes: "set (dfs_graph tasks satisfied a) \<subseteq> ts_slug ` set tasks"
  by (auto simp: dfs_graph_def deps_of_def split: option.splits dest!: dict_get_by_slug [OF sym])

lemma dfs_graph_outside: "a \<notin> ts_slug ` set tasks \<Longrightarrow> dfs_graph tasks satisfied a = []"
proof -
  assume a: "a \<notin> ts_slug ` set tasks"
  have "map_of (rev (map (\<lambda>t. (ts_slug t, f t)) tasks)) a = None" for f :: "task_story \<Rightarrow> string list"
    using a by (auto simp: map_of_eq_None_iff)
  then show ?thesis by (simp add: dfs_graph_def deps_of_def dict_get_of)
qed

lemma dfs_tasks_post:
  "dfs_post (dfs_graph tasks satisfied) (ts_slug ` set tasks) {} {} (ts_slug ` set tasks)
     (dfs_all (length tasks) (dfs_graph tasks satisfied) (map ts_slug tasks) {} {})"
proof -
  have "card (ts_slug ` set tasks) \<le> length tasks"
    by (metis card_length length_map list.set_map)
  then show ?thesis
    using dfs_all_correct [of "ts_slug ` set tasks" "dfs_graph tasks satisfied" "{}" "map ts_slug tasks"]
    by (simp add: dfs_graph_nodes dfs_inv_def acyclic_def)
qed

lemma dfs_result_acyclic:
  assumes post: "dfs_post deps nodes {} {} nodes r" and out: "\<And>a. a \<notin> nodes \<Longrightarrow> deps a = []"
  shows "(\<exists>V S. r = DfsDone V S) \<longleftrightarrow> acyclic (graph_edges deps)"
proof (cases r)
  case DfsOutOfFuel
  with post show ?thesis by (simp add: dfs_post_def)
next
  case (DfsCycle a b)
  with post have "b \<in> set (deps a)" "(b, a) \<in> (graph_edges deps)\<^sup>*" by (auto simp: dfs_post_def)
  then have "(a, a) \<in> (graph_edges deps)\<^sup>+" by (auto intro: rtrancl_into_trancl2)
  with DfsCycle show ?thesis by (auto simp: acyclic_def)
next
  case (DfsDone V S)
  with post have "dfs_inv deps nodes V {}" "nodes \<subseteq> V" by (auto simp: dfs_post_def)
  moreover from this have "V = nodes" by (auto simp: dfs_inv_def)
  moreover have "graph_edges deps \<inter> nodes \<times> UNIV = graph_edges deps"
    using out by (auto simp: graph_edges_def) fastforce
  ultimately show ?thesis using DfsDone by (auto simp: dfs_inv_def)
qed

section \<open>The marks of a run\<close>

datatype dag_op = MarkComplete string | MarkSkipped string

fun dag_step :: "dag_op \<Rightarrow> story_dag \<Rightarrow> story_dag" where
  "dag_step (MarkComplete s) g = mark_complete s g"
| "dag_step (MarkSkipped s) g = mark_skipped s g"

text \<open>
  Every task is filed under its own slug, under distinct slugs; the dependency dictionaries have
  the tasks' slugs as keys; only tasks are ever finished.
\<close>

definition dag_ok :: "story_dag \<Rightarrow> bool" where
  "dag_ok g \<longleftrightarrow> dict_wf (dag_tasks g) \<and> (\<forall>(s, t) \<in> set (dag_tasks g). ts_slug t = s)
     \<and> fst ` set (dag_hard_deps g) = fst ` set (dag_tasks g)
     \<and> fst ` set (dag_soft_deps g) = fst ` set (dag_tasks g)
     \<and> dag_finished g \<subseteq> fst ` set (dag_tasks g)"

definition manifest_slugs :: "story_dag \<Rightarrow> string set" where
  "manifest_slugs g = fst ` set (dag_tasks g)"

lemmas mark_defs = mark_complete_def mark_skipped_def Let_def

lemma dag_step_fields [simp]:
  "dag_tasks (dag_step x g) = dag_tasks g"
  "dag_hard_deps (dag_step x g) = dag_hard_deps g"
  "dag_soft_deps (dag_step x g) = dag_soft_deps g"
  by (cases x; simp add: mark_defs)+

lemma dag_run_fields [simp]:
  "dag_tasks (fold dag_step ops g) = dag_tasks g"
  "dag_hard_deps (fold dag_step ops g) = dag_hard_deps g"
  "dag_soft_deps (fold dag_step ops g) = dag_soft_deps g"
  by (induction ops arbitrary: g) auto

lemma dag_run_completed:
  "dag_completed (fold dag_step ops g) = dag_completed g \<union> {s. MarkComplete s \<in> set ops}"
proof (induction ops arbitrary: g)
  case Nil
  then show ?case by simp
next
  case (Cons x ops)
  then show ?case by (cases x) (auto simp: mark_defs)
qed

lemma dag_run_finished:
  "dag_finished (fold dag_step ops g) = dag_finished g \<union> {s. MarkSkipped s \<in> set ops}
     \<union> {s. MarkComplete s \<in> set ops \<and> s \<in> manifest_slugs g}"
proof (induction ops arbitrary: g)
  case Nil
  then show ?case by simp
next
  case (Cons x ops)
  then show ?case by (cases x) (auto simp: mark_defs manifest_slugs_def map_of_eq_None_iff)
qed

lemma dag_ok_run:
  "dag_ok g \<Longrightarrow> {s. MarkSkipped s \<in> set ops} \<subseteq> manifest_slugs g \<Longrightarrow> dag_ok (fold dag_step ops g)"
proof -
  assume g: "dag_ok g" and ops: "{s. MarkSkipped s \<in> set ops} \<subseteq> manifest_slugs g"
  with g have "dag_finished (fold dag_step ops g) \<subseteq> manifest_slugs g"
    by (auto simp: dag_run_finished dag_ok_def manifest_slugs_def)
  with g show ?thesis by (simp add: dag_ok_def manifest_slugs_def)
qed

lemma keys_by_slug: "fst ` set (dict_of (map (\<lambda>t. (ts_slug t, f t)) tasks)) = ts_slug ` set tasks"
  by (force simp: dict_of_def set_keys_dict_merge [simplified])

lemma dag_ok_new: "dag_ok (new_story_dag tasks sat)"
proof -
  have "ts_slug t = s" if "(s, t) \<in> set (dict_of (map (\<lambda>t. (ts_slug t, t)) tasks))" for s t
    using dict_get_by_slug [of "\<lambda>t. t" tasks s t] that
    by (auto simp: map_of_eq_Some_iff dict_wf_of)
  then show ?thesis
    by (auto simp: dag_ok_def new_story_dag_def dict_wf_of keys_by_slug)
qed

lemma manifest_new [simp]: "manifest_slugs (new_story_dag tasks sat) = ts_slug ` set tasks"
  by (simp add: manifest_slugs_def new_story_dag_def keys_by_slug)

text \<open>Finished stays finished, completed stays completed, whatever marks follow.\<close>

interpretation finished_slug: settling_machine dag_step "\<lambda>_. True" "\<lambda>_. True" "\<lambda>g. s \<in> dag_finished g" for s
proof unfold_locales
  show "s \<in> dag_finished g \<Longrightarrow> s \<in> dag_finished (dag_step x g)" for g x
    by (cases x) (auto simp: mark_defs)
qed simp

lemma dag_ok_slug: "dag_ok g \<Longrightarrow> (s, t) \<in> set (dag_tasks g) \<Longrightarrow> ts_slug t = s"
  by (auto simp: dag_ok_def)

lemma manifest_slugs_iff:
  assumes "dag_ok g"
  shows "s \<in> manifest_slugs g \<longleftrightarrow> (\<exists>t. s = ts_slug t \<and> (ts_slug t, t) \<in> set (dag_tasks g))"
proof
  assume "s \<in> manifest_slugs g"
  then obtain t where "(s, t) \<in> set (dag_tasks g)" by (auto simp: manifest_slugs_def)
  with dag_ok_slug [OF assms this] show "\<exists>t. s = ts_slug t \<and> (ts_slug t, t) \<in> set (dag_tasks g)" by blast
next
  assume "\<exists>t. s = ts_slug t \<and> (ts_slug t, t) \<in> set (dag_tasks g)"
  then show "s \<in> manifest_slugs g" by (auto simp: manifest_slugs_def intro: rev_image_eqI)
qed

lemma ready_iff:
  assumes "dag_ok g"
  shows "t \<in> set (dag_ready g) \<longleftrightarrow> (ts_slug t, t) \<in> set (dag_tasks g) \<and> ts_slug t \<notin> dag_finished g
     \<and> set (deps_of (dag_hard_deps g) (ts_slug t)) \<subseteq> dag_completed g
     \<and> set (deps_of (dag_soft_deps g) (ts_slug t)) \<subseteq> dag_completed g \<union> dag_finished g"
proof -
  have "t \<in> set (dag_ready g) \<longleftrightarrow> (\<exists>s. (s, t) \<in> set (dag_tasks g) \<and> s \<notin> dag_finished g
     \<and> (\<forall>d \<in> set (deps_of (dag_hard_deps g) s). d \<in> dag_completed g)
     \<and> (\<forall>d \<in> set (deps_of (dag_soft_deps g) s). d \<in> dag_completed g \<or> d \<in> dag_finished g))"
    unfolding dag_ready_def by (simp add: image_iff Bex_def)
  with dag_ok_slug [OF assms] show ?thesis by blast
qed

lemma remaining_iff:
  assumes "dag_ok g"
  shows "t \<in> set (dag_remaining g) \<longleftrightarrow> (ts_slug t, t) \<in> set (dag_tasks g) \<and> ts_slug t \<notin> dag_finished g"
proof -
  have "t \<in> set (dag_remaining g) \<longleftrightarrow> (\<exists>s. (s, t) \<in> set (dag_tasks g) \<and> s \<notin> dag_finished g)"
    unfolding dag_remaining_def by (simp add: image_iff Bex_def)
  with dag_ok_slug [OF assms] show ?thesis by blast
qed

lemma is_done_iff:
  assumes "dag_ok g"
  shows "dag_is_done g \<longleftrightarrow> manifest_slugs g \<subseteq> dag_finished g"
proof -
  from assms have wf: "dict_wf (dag_tasks g)" and sub: "dag_finished g \<subseteq> manifest_slugs g"
    by (auto simp: dag_ok_def manifest_slugs_def)
  from wf have len: "length (dag_tasks g) = card (manifest_slugs g)"
    unfolding manifest_slugs_def by (metis distinct_card length_map list.set_map)
  have fin: "finite (manifest_slugs g)" by (simp add: manifest_slugs_def)
  from sub fin card_subset_eq [OF fin sub] show ?thesis
    by (auto simp: dag_is_done_def len)
qed

lemma unmet_deps_known:
  assumes "dag_ok g" and "s \<in> manifest_slugs g"
  shows "\<exists>ds. unmet_deps g s = Inr ds
     \<and> set ds = (set (deps_of (dag_hard_deps g) s) - dag_completed g)
              \<union> (set (deps_of (dag_soft_deps g) s) - dag_completed g - dag_finished g)"
proof -
  from assms obtain h f where "dict_get (dag_hard_deps g) s = Some h" "dict_get (dag_soft_deps g) s = Some f"
    unfolding dag_ok_def manifest_slugs_def by (metis domD dom_map_of_conv_image_fst)
  then show ?thesis by (auto simp: unmet_deps_def deps_of_def)
qed

lemma not_ready_unmet:
  assumes "dag_ok g" and "t \<in> set (dag_remaining g)" and "t \<notin> set (dag_ready g)"
  shows "\<exists>ds. unmet_deps g (ts_slug t) = Inr ds \<and> ds \<noteq> []"
proof -
  from assms(1,2) have "ts_slug t \<in> manifest_slugs g"
    by (force simp: remaining_iff manifest_slugs_def)
  from unmet_deps_known [OF assms(1) this] obtain ds where
    ds: "unmet_deps g (ts_slug t) = Inr ds"
      "set ds = (set (deps_of (dag_hard_deps g) (ts_slug t)) - dag_completed g)
              \<union> (set (deps_of (dag_soft_deps g) (ts_slug t)) - dag_completed g - dag_finished g)"
    by blast
  from assms ds(2) have "set ds \<noteq> {}" by (auto simp: ready_iff remaining_iff)
  with ds(1) show ?thesis by auto
qed

section \<open>Edges of a manifest\<close>

definition dependency_edges :: "task_story list \<Rightarrow> string set \<Rightarrow> (string \<times> string) set" where
  "dependency_edges tasks satisfied =
     {(ts_slug t, d) | t d. t \<in> set tasks \<and> d \<in> set (ts_depends_on t) \<and> d \<notin> satisfied \<and> d \<in> ts_slug ` set tasks}"

definition schedule_edges :: "task_story list \<Rightarrow> (string \<times> string) set" where
  "schedule_edges tasks =
     {(ts_slug t, d) | t d. t \<in> set tasks \<and> (d \<in> set (ts_depends_on t) \<or> d \<in> set (ts_collision_deps t))
        \<and> d \<in> ts_slug ` set tasks}"

lemma dependency_edges_UN:
  "dependency_edges tasks sat =
    (\<Union>t \<in> set tasks. {ts_slug t} \<times> (set (ts_depends_on t) \<inter> ts_slug ` set tasks - sat))"
  by (auto simp: dependency_edges_def)

lemma graph_edges_manifest:
  assumes "distinct (map ts_slug tasks)"
  shows "graph_edges (dfs_graph tasks sat) = dependency_edges tasks sat"
proof (rule set_eqI, clarify)
  fix a b
  let ?f = "\<lambda>t. filter (\<lambda>d. d \<notin> sat \<and> d \<in> ts_slug ` set tasks) (ts_depends_on t)"
  have "(a, b) \<in> graph_edges (dfs_graph tasks sat) \<longleftrightarrow> (\<exists>t \<in> set tasks. ts_slug t = a \<and> b \<in> set (?f t))"
  proof
    assume "(a, b) \<in> graph_edges (dfs_graph tasks sat)"
    then show "\<exists>t \<in> set tasks. ts_slug t = a \<and> b \<in> set (?f t)"
      by (auto simp: dfs_graph_def deps_of_def split: option.splits dest!: dict_get_by_slug [OF sym])
  next
    assume "\<exists>t \<in> set tasks. ts_slug t = a \<and> b \<in> set (?f t)"
    then obtain t where t: "t \<in> set tasks" "ts_slug t = a" "b \<in> set (?f t)" by blast
    with dict_get_by_slug_distinct [OF assms t(1), of ?f] show "(a, b) \<in> graph_edges (dfs_graph tasks sat)"
      by (simp add: dfs_graph_def deps_of_def)
  qed
  then show "(a, b) \<in> graph_edges (dfs_graph tasks sat) \<longleftrightarrow> (a, b) \<in> dependency_edges tasks sat"
    by (auto simp: dependency_edges_def)
qed

lemma validate_deps_None:
  "validate_deps known sat ts = None \<longleftrightarrow> (\<forall>t \<in> set ts. missing_deps known sat t = [])"
  by (induction ts) (auto simp: Let_def)

lemma build_dag_Inr: "build_dag tasks sat = Inr g \<Longrightarrow> g = new_story_dag tasks sat"
  by (auto simp: build_dag_def split: option.splits dfs_result.splits)

lemma hard_deps_new:
  "distinct (map ts_slug tasks) \<Longrightarrow> t \<in> set tasks \<Longrightarrow>
    deps_of (dag_hard_deps (new_story_dag tasks sat)) (ts_slug t) = remdups (ts_depends_on t)"
  by (simp add: new_story_dag_def deps_of_def dict_get_by_slug_distinct)

lemma soft_deps_new:
  "distinct (map ts_slug tasks) \<Longrightarrow> t \<in> set tasks \<Longrightarrow>
    deps_of (dag_soft_deps (new_story_dag tasks sat)) (ts_slug t) = remdups (ts_collision_deps t)"
  by (simp add: new_story_dag_def deps_of_def dict_get_by_slug_distinct)

lemma tasks_new:
  "distinct (map ts_slug tasks) \<Longrightarrow> (ts_slug t, t) \<in> set (dag_tasks (new_story_dag tasks sat)) \<longleftrightarrow> t \<in> set tasks"
  using dict_get_by_slug [of "\<lambda>t. t" tasks "ts_slug t" t] dict_get_by_slug_distinct [of tasks t "\<lambda>t. t"]
  by (auto simp: new_story_dag_def dict_wf_of dest: map_of_SomeD)

lemma new_completed [simp]: "dag_completed (new_story_dag tasks sat) = sat"
  and new_finished [simp]: "dag_finished (new_story_dag tasks sat) = {}"
  by (simp_all add: new_story_dag_def)

lemma build_dag_ok:
  assumes "distinct (map ts_slug tasks)"
  shows "(\<exists>g. build_dag tasks sat = Inr g) \<longleftrightarrow>
     (\<forall>t \<in> set tasks. missing_deps (ts_slug ` set tasks) sat t = []) \<and> acyclic (dependency_edges tasks sat)"
proof -
  let ?r = "dfs_all (length tasks) (dfs_graph tasks sat) (map ts_slug tasks) {} {}"
  have "(\<exists>V S. ?r = DfsDone V S) \<longleftrightarrow> acyclic (dependency_edges tasks sat)"
    using dfs_result_acyclic [OF dfs_tasks_post dfs_graph_outside]
    by (simp add: graph_edges_manifest [OF assms])
  moreover have "?r \<noteq> DfsOutOfFuel"
    using dfs_tasks_post [of tasks sat] by (auto simp: dfs_post_def)
  ultimately show ?thesis
    by (cases ?r) (auto simp: build_dag_def validate_deps_None [symmetric] split: option.splits)
qed

text \<open>What counts as satisfied outside the manifest, and that the loop finds exactly that.\<close>

definition externally_satisfied :: "(string \<Rightarrow> bool) \<Rightarrow> (int \<Rightarrow> gh_reply) \<Rightarrow> string \<Rightarrow> bool" where
  "externally_satisfied merged issue_state d \<longleftrightarrow>
     merged d \<or> (\<exists>n. issue_number_from_slug d = Some n \<and> is_issue_closed (issue_state n) = Inr True)"

lemma resolve_external_sound:
  "resolve_external merged issue_state ds sat = Inr res \<Longrightarrow>
     res = sat \<union> {d \<in> set ds. externally_satisfied merged issue_state d}"
proof (induction ds arbitrary: sat)
  case (Cons d ds)
  show ?case
  proof (cases "d \<in> sat \<or> merged d \<or> issue_number_from_slug d = None")
    case True
    with Cons.prems Cons.IH [of sat] Cons.IH [of "insert d sat"] show ?thesis
      by (auto simp: externally_satisfied_def split: if_splits)
  next
    case False
    then obtain n where n: "issue_number_from_slug d = Some n" by auto
    with False Cons.prems obtain c where c: "is_issue_closed (issue_state n) = Inr c"
      "resolve_external merged issue_state ds (if c then insert d sat else sat) = Inr res"
      by (auto simp: py_bind_eq_Inr)
    from Cons.IH [OF c(2)] c(1) n False show ?thesis
      by (auto simp: externally_satisfied_def split: if_splits)
  qed
qed simp

definition reply_readable :: "gh_reply \<Rightarrow> bool" where
  "reply_readable r \<longleftrightarrow> (case r of GhExited rc (Some v) \<Rightarrow> rc \<noteq> 0 \<or> (\<exists>d. v = PDict d) | _ \<Rightarrow> True)"

lemma reply_readable_closed: "reply_readable r \<Longrightarrow> \<exists>b. is_issue_closed r = Inr b"
  by (auto simp: reply_readable_def is_issue_closed_def split: gh_reply.splits option.splits pyval.splits)

lemma resolve_external_total:
  "\<forall>n. reply_readable (issue_state n) \<Longrightarrow> \<exists>res. resolve_external merged issue_state ds sat = Inr res"
proof (induction ds arbitrary: sat)
  case (Cons d ds)
  show ?case
  proof (cases "issue_number_from_slug d")
    case None
    with Cons show ?thesis by auto
  next
    case (Some n)
    from reply_readable_closed Cons.prems obtain b where "is_issue_closed (issue_state n) = Inr b" by blast
    with Cons Some show ?thesis by auto
  qed
qed simp

lemma resolve_satisfied_eq:
  assumes "\<forall>n. reply_readable (issue_state n)"
  shows "resolve_satisfied_dependencies merged issue_state tasks pre =
     Inr (pre \<union> {d \<in> (\<Union>t \<in> set tasks. set (ts_depends_on t)) - ts_slug ` set tasks. externally_satisfied merged issue_state d})"
proof -
  from resolve_external_total [OF assms] obtain res where
    r: "resolve_satisfied_dependencies merged issue_state tasks pre = Inr res"
    unfolding resolve_satisfied_dependencies_def by blast
  from resolve_external_sound [OF r [unfolded resolve_satisfied_dependencies_def]] r show ?thesis
    by (auto simp: external_deps_def)
qed

text \<open>The marks of a run of a freshly built scheduler.\<close>

lemma ready_run_new:
  fixes sat :: "string set"
  assumes dist: "distinct (map ts_slug tasks)"
    and skip: "{s. MarkSkipped s \<in> set ops} \<subseteq> ts_slug ` set tasks"
  defines "g \<equiv> fold dag_step ops (new_story_dag tasks sat)"
  shows "t \<in> set (dag_ready g) \<longleftrightarrow> t \<in> set tasks \<and> ts_slug t \<notin> dag_finished g
     \<and> set (ts_depends_on t) \<subseteq> dag_completed g \<and> set (ts_collision_deps t) \<subseteq> dag_completed g \<union> dag_finished g"
proof -
  have ok: "dag_ok g" unfolding g_def using skip by (intro dag_ok_run dag_ok_new) simp
  show ?thesis
    unfolding ready_iff [OF ok] using tasks_new [OF dist] dist
    by (auto simp: g_def hard_deps_new soft_deps_new)
qed

lemma minimal_remaining:
  assumes acyc: "acyclic (schedule_edges tasks)"
    and t: "t \<in> set tasks" "ts_slug t \<notin> F"
  shows "\<exists>t \<in> set tasks. ts_slug t \<notin> F \<and>
    (\<forall>d \<in> set (ts_depends_on t) \<union> set (ts_collision_deps t). d \<in> ts_slug ` set tasks \<longrightarrow> d \<in> F)"
proof -
  have fin: "finite (schedule_edges tasks)"
    by (rule finite_subset [of _ "ts_slug ` set tasks \<times> ts_slug ` set tasks"])
      (auto simp: schedule_edges_def)
  from acyc fin have wf: "wf ((schedule_edges tasks)\<inverse>)" by (rule finite_acyclic_wf_converse [rotated])
  let ?Q = "{s. s \<in> ts_slug ` set tasks \<and> s \<notin> F}"
  from t have "ts_slug t \<in> ?Q" by blast
  from wfE_min [OF wf this] obtain z where z: "z \<in> ?Q"
    and min: "\<And>y. (y, z) \<in> (schedule_edges tasks)\<inverse> \<Longrightarrow> y \<notin> ?Q" by blast
  from z obtain u where u: "u \<in> set tasks" "ts_slug u = z" "ts_slug u \<notin> F" by blast
  have "d \<in> F" if "d \<in> set (ts_depends_on u) \<union> set (ts_collision_deps u)" "d \<in> ts_slug ` set tasks" for d
  proof -
    have "(z, d) \<in> schedule_edges tasks" using u that by (auto simp: schedule_edges_def)
    with min [of d] that show ?thesis by auto
  qed
  with u show ?thesis by blast
qed

section \<open>Properties of the scheduler\<close>

text \<open>Small manifests the examples below run on.\<close>

definition two_stories :: "task_story list" where
  "two_stories =
     [\<lparr>ts_name = ''first'', ts_slug = ''issue-1'', ts_story_text = None, ts_depends_on = [],
       ts_collision_deps = [], ts_github_issue = Some 1\<rparr>,
      \<lparr>ts_name = ''second'', ts_slug = ''issue-2'', ts_story_text = None, ts_depends_on = [''issue-1''],
       ts_collision_deps = [], ts_github_issue = Some 2\<rparr>]"

lemma two_stories_schedule: "acyclic (schedule_edges two_stories)"
proof (rule acyclic_subset)
  show "acyclic {(''issue-2'', ''issue-1'')}" by (subst acyclic_insert) (simp add: acyclic_def)
  show "schedule_edges two_stories \<subseteq> {(''issue-2'', ''issue-1'')}"
    by (auto simp: schedule_edges_def two_stories_def)
qed

lemma two_stories_acyclic: "acyclic (dependency_edges two_stories {})"
  by (rule acyclic_subset [OF two_stories_schedule])
    (auto simp: dependency_edges_def schedule_edges_def)

definition cyclic_stories :: "task_story list" where
  "cyclic_stories =
     [\<lparr>ts_name = ''A'', ts_slug = ''a'', ts_story_text = None, ts_depends_on = [''b''],
       ts_collision_deps = [], ts_github_issue = None\<rparr>,
      \<lparr>ts_name = ''B'', ts_slug = ''b'', ts_story_text = None, ts_depends_on = [''a''],
       ts_collision_deps = [], ts_github_issue = None\<rparr>]"

text \<open>C6. \<open>build_dag\<close> accepts a manifest with distinct slugs exactly when every dependency is known,
  satisfied or issue-backed, and the dependencies inside the manifest that are not yet satisfied
  form no cycle; the search for a cycle always finishes.\<close>

theorem build_dag_accepts_iff:
  assumes "distinct (map ts_slug tasks)"
  shows "(\<exists>g. build_dag tasks sat = Inr g) \<longleftrightarrow>
     (\<forall>t \<in> set tasks. missing_deps (ts_slug ` set tasks) sat t = []) \<and> acyclic (dependency_edges tasks sat)"
  by (rule build_dag_ok [OF assms])

theorem build_dag_accepts_iff_witness:
  "distinct (map ts_slug two_stories) \<and> (\<exists>g. build_dag two_stories {} = Inr g)
    \<and> acyclic (dependency_edges two_stories {})"
proof -
  have d: "distinct (map ts_slug two_stories)" by (simp add: two_stories_def)
  have "build_dag two_stories {} = Inr (new_story_dag two_stories {})" by code_simp
  with build_dag_accepts_iff [OF d, of "{}"] d show ?thesis by blast
qed

text \<open>The two errors of \<open>build_dag\<close> are real: a reported cycle names an edge of the manifest that
  closes a path back to its start, and a reported unknown dependency is one that is neither in the
  manifest, nor satisfied, nor an issue slug.\<close>

theorem build_dag_errors_real:
  assumes "distinct (map ts_slug tasks)" and "build_dag tasks sat = Inl e"
  shows "case e of
      CircularDependency a b \<Rightarrow>
        (a, b) \<in> dependency_edges tasks sat \<and> (b, a) \<in> (dependency_edges tasks sat)\<^sup>*
    | UnknownDeps s ds \<Rightarrow> (\<exists>t \<in> set tasks. ts_slug t = s \<and> ds \<noteq> [] \<and> set ds \<subseteq> set (ts_depends_on t))
        \<and> (\<forall>d \<in> set ds. d \<notin> ts_slug ` set tasks \<and> d \<notin> sat \<and> issue_number_from_slug d = None)"
proof -
  have val: "validate_deps known sat ts = Some e \<Longrightarrow>
      \<exists>t \<in> set ts. e = UnknownDeps (ts_slug t) (missing_deps known sat t) \<and> missing_deps known sat t \<noteq> []"
    for known ts by (induction ts) (auto simp: Let_def split: if_splits)
  have post: "dfs_post (dfs_graph tasks sat) (ts_slug ` set tasks) {} {} (ts_slug ` set tasks)
     (dfs_all (length tasks) (dfs_graph tasks sat) (map ts_slug tasks) {} {})"
    by (rule dfs_tasks_post)
  show ?thesis
  proof (cases e)
    case (UnknownDeps s ds)
    with assms(2) have "validate_deps (ts_slug ` set tasks) sat tasks = Some e"
      by (auto simp: build_dag_def split: option.splits dfs_result.splits)
    from val [OF this] UnknownDeps show ?thesis by (auto simp: missing_deps_def)
  next
    case (CircularDependency a b)
    with assms(2) have "dfs_all (length tasks) (dfs_graph tasks sat) (map ts_slug tasks) {} {} = DfsCycle a b"
      using val [of "ts_slug ` set tasks" tasks]
      by (auto simp: build_dag_def split: option.splits dfs_result.splits)
    with post graph_edges_manifest [OF assms(1), of sat] CircularDependency show ?thesis
      by (auto simp: dfs_post_def simp flip: graph_edges_iff)
  qed
qed

theorem build_dag_errors_real_witness:
  "build_dag cyclic_stories {} = Inl (CircularDependency ''b'' ''a'')
    \<and> (''b'', ''a'') \<in> dependency_edges cyclic_stories {}
    \<and> (''a'', ''b'') \<in> (dependency_edges cyclic_stories {})\<^sup>*"
proof -
  have d: "distinct (map ts_slug cyclic_stories)" by (simp add: cyclic_stories_def)
  have e: "build_dag cyclic_stories {} = Inl (CircularDependency ''b'' ''a'')" by code_simp
  from build_dag_errors_real [OF d e] e show ?thesis by simp
qed

text \<open>C1. Dispatch order, exactly: whatever marks a run has made, the scheduler offers the stories of the manifest that
  carry no mark yet, each of whose hard dependencies was satisfied from the start or has been marked complete
  (a skipped one does not release it), and each of whose collision dependencies has been marked one way or
  the other; it offers no other story. A story that runs and is not marked yet is offered again; its caller leaves it out.\<close>

theorem dag_ready_respects_order:
  assumes "distinct (map ts_slug tasks)" and "build_dag tasks sat = Inr g"
    and "{s. MarkSkipped s \<in> set ops} \<subseteq> ts_slug ` set tasks"
  shows "t \<in> set (dag_ready (fold dag_step ops g)) \<longleftrightarrow>
      t \<in> set tasks \<and> MarkComplete (ts_slug t) \<notin> set ops \<and> MarkSkipped (ts_slug t) \<notin> set ops
    \<and> (\<forall>d \<in> set (ts_depends_on t). d \<in> sat \<or> MarkComplete d \<in> set ops)
    \<and> (\<forall>d \<in> set (ts_collision_deps t). d \<in> sat \<or> MarkComplete d \<in> set ops \<or> MarkSkipped d \<in> set ops)"
proof -
  from assms(2) have g: "g = new_story_dag tasks sat" by (rule build_dag_Inr)
  note r = ready_run_new [OF assms(1,3), of t sat, folded g, unfolded dag_run_completed dag_run_finished]
  show ?thesis unfolding r by (auto simp: g)
qed

theorem dag_ready_respects_order_witness:
  "\<exists>t. ts_slug t = ''issue-2'' \<and> ''issue-1'' \<in> set (ts_depends_on t)
    \<and> t \<in> set (dag_ready (fold dag_step [MarkComplete ''issue-1''] (new_story_dag two_stories {})))
    \<and> MarkComplete ''issue-1'' \<in> set [MarkComplete ''issue-1'']"
proof -
  let ?t = "two_stories ! 1"
  have d: "distinct (map ts_slug two_stories)" by (simp add: two_stories_def)
  have b: "build_dag two_stories {} = Inr (new_story_dag two_stories {})" by code_simp
  have k: "{s. MarkSkipped s \<in> set [MarkComplete ''issue-1'']} \<subseteq> ts_slug ` set two_stories" by simp
  have "dag_ready (fold dag_step [MarkComplete ''issue-1''] (new_story_dag two_stories {})) = [?t]"
    by code_simp
  then have r: "?t \<in> set (dag_ready (fold dag_step [MarkComplete ''issue-1''] (new_story_dag two_stories {})))"
    by simp
  have "ts_slug ?t = ''issue-2'' \<and> ''issue-1'' \<in> set (ts_depends_on ?t)" by (simp add: two_stories_def)
  with dag_ready_respects_order [OF d b k, of ?t] r show ?thesis by blast
qed

text \<open>C32. Progress: as long as some story is unfinished and the dependencies and collision edges together
  have no cycle, the scheduler offers a story, unless some unfinished story waits on a hard
  dependency no mark inside the manifest can release any more: one outside the manifest, or one
  that was skipped.\<close>

theorem dag_progress:
  assumes "distinct (map ts_slug tasks)" and "build_dag tasks sat = Inr g"
    and "acyclic (schedule_edges tasks)"
    and "\<forall>t \<in> set tasks. set (ts_collision_deps t) \<subseteq> ts_slug ` set tasks \<union> sat"
    and "{s. MarkSkipped s \<in> set ops} \<subseteq> ts_slug ` set tasks"
    and "\<not> dag_is_done (fold dag_step ops g)"
  shows "dag_ready (fold dag_step ops g) \<noteq> [] \<or>
     (\<exists>t \<in> set tasks. \<exists>d \<in> set (ts_depends_on t). d \<notin> sat \<and> MarkComplete d \<notin> set ops
        \<and> (d \<notin> ts_slug ` set tasks \<or> MarkSkipped d \<in> set ops))"
proof -
  let ?g = "fold dag_step ops (new_story_dag tasks sat)"
  from assms(2) have g: "g = new_story_dag tasks sat" by (rule build_dag_Inr)
  from assms(5) have ok: "dag_ok ?g" by (intro dag_ok_run dag_ok_new) simp
  have "manifest_slugs ?g = ts_slug ` set tasks"
    using manifest_new [of tasks sat] by (simp add: manifest_slugs_def)
  with assms(6) is_done_iff [OF ok] g obtain t0 where "t0 \<in> set tasks" "ts_slug t0 \<notin> dag_finished ?g"
    by auto
  from minimal_remaining [OF assms(3) this] obtain t where t: "t \<in> set tasks" "ts_slug t \<notin> dag_finished ?g"
    and deps: "\<forall>d \<in> set (ts_depends_on t) \<union> set (ts_collision_deps t).
      d \<in> ts_slug ` set tasks \<longrightarrow> d \<in> dag_finished ?g" by blast
  from assms(4) t deps have soft: "set (ts_collision_deps t) \<subseteq> dag_completed ?g \<union> dag_finished ?g"
    by (auto simp: dag_run_completed)
  show ?thesis
  proof (cases "set (ts_depends_on t) \<subseteq> dag_completed ?g")
    case True
    with t soft have "t \<in> set (dag_ready ?g)" by (simp add: ready_run_new [OF assms(1,5)])
    then show ?thesis unfolding g by auto
  next
    case False
    then obtain d where d: "d \<in> set (ts_depends_on t)" "d \<notin> sat" "MarkComplete d \<notin> set ops"
      by (auto simp: dag_run_completed)
    with deps have "d \<notin> ts_slug ` set tasks \<or> MarkSkipped d \<in> set ops"
      by (auto simp: dag_run_finished)
    with t d show ?thesis by blast
  qed
qed

theorem dag_progress_witness:
  "\<not> dag_is_done (fold dag_step [MarkComplete ''issue-1''] (new_story_dag two_stories {}))
    \<and> dag_ready (fold dag_step [MarkComplete ''issue-1''] (new_story_dag two_stories {})) \<noteq> []"
proof -
  have d: "distinct (map ts_slug two_stories)" by (simp add: two_stories_def)
  have b: "build_dag two_stories {} = Inr (new_story_dag two_stories {})" by code_simp
  note a = two_stories_schedule
  have c: "\<forall>t \<in> set two_stories. set (ts_collision_deps t) \<subseteq> ts_slug ` set two_stories \<union> {}"
    by (simp add: two_stories_def)
  have k: "{s. MarkSkipped s \<in> set [MarkComplete ''issue-1'']} \<subseteq> ts_slug ` set two_stories" by simp
  have n: "\<not> dag_is_done (fold dag_step [MarkComplete ''issue-1''] (new_story_dag two_stories {}))"
    by code_simp
  have u: "\<not> (\<exists>t \<in> set two_stories. \<exists>d \<in> set (ts_depends_on t). d \<notin> {} \<and> MarkComplete d \<notin> set [MarkComplete ''issue-1'']
      \<and> (d \<notin> ts_slug ` set two_stories \<or> MarkSkipped d \<in> set [MarkComplete ''issue-1'']))"
    by (simp add: two_stories_def)
  from dag_progress [OF d b a c k n] n u show ?thesis by blast
qed

text \<open>Resolution of dependencies outside the manifest is exact and fails closed: when every reply of the
  issue tracker that parses is an object, it returns the slugs given as satisfied together with
  exactly those external dependencies whose branch has landed or whose issue is not open; a query
  that fails, exits with an error or does not parse satisfies nothing. The order in which the
  dependencies are visited does not matter.\<close>

theorem satisfied_dependencies_exact:
  assumes "\<forall>n. reply_readable (issue_state n)"
  shows "resolve_satisfied_dependencies merged issue_state tasks pre =
     Inr (pre \<union> {d \<in> (\<Union>t \<in> set tasks. set (ts_depends_on t)) - ts_slug ` set tasks. externally_satisfied merged issue_state d})"
  by (rule resolve_satisfied_eq [OF assms])

theorem satisfied_dependencies_exact_witness:
  "resolve_satisfied_dependencies (\<lambda>s. False) (\<lambda>n. if n = 7 then GhExited 0 (Some (PDict [(''state'', PStr ''CLOSED'')])) else GhFailed)
     [(two_stories ! 0)\<lparr>ts_depends_on := [''issue-7'', ''issue-8'']\<rparr>] {} = Inr {''issue-7''}"
proof -
  let ?st = "\<lambda>n :: int. if n = 7 then GhExited 0 (Some (PDict [(''state'', PStr ''CLOSED'')])) else GhFailed"
  have r: "\<forall>n. reply_readable (?st n)" by (simp add: reply_readable_def)
  have "externally_satisfied (\<lambda>s. False) ?st ''issue-7'' = True" "externally_satisfied (\<lambda>s. False) ?st ''issue-8'' = False"
  proof -
    have n: "issue_number_from_slug ''issue-7'' = Some 7" "issue_number_from_slug ''issue-8'' = Some 8" by code_simp+
    have "is_issue_closed (?st 7) = Inr True" "is_issue_closed (?st 8) = Inr False" by code_simp+
    then show "externally_satisfied (\<lambda>s. False) ?st ''issue-7'' = True" "externally_satisfied (\<lambda>s. False) ?st ''issue-8'' = False"
      using n by (simp_all add: externally_satisfied_def)
  qed
  then show ?thesis
    by (subst satisfied_dependencies_exact [OF r]) (auto simp: two_stories_def)
qed

end
