(* ===== verification/Sprint_Plan.thy ===== *)
theory Sprint_Plan
  imports Story_DAG
begin

text \<open>
  The dry-run dependency plan of a sprint query (\<^verbatim>\<open>sprint/query.py\<close>): external dependencies are
  normalised, then the scheduler of \<open>Story_DAG\<close> is driven frontier by frontier, each frontier
  becoming one batch, until it is done or nothing more can become ready.
\<close>

section \<open>Model\<close>

record normalized_plan =
  np_tasks :: "task_story list"
  np_blocked :: "(string, string list) dict"

record batch_plan =
  bp_assignments :: "(string, int) dict"
  bp_blocked :: "(string, string list) dict"

definition normalize_dependency_plan :: "task_story list \<Rightarrow> string set \<Rightarrow> normalized_plan" where
  "normalize_dependency_plan tasks satisfied =
     (let known = ts_slug ` set tasks
      in \<lparr>np_tasks = map (\<lambda>t. t\<lparr>ts_depends_on := filter (\<lambda>d. d \<in> known \<or> d \<in> satisfied
                          \<or> (d \<notin> known \<and> is_issue_slug d)) (ts_depends_on t)\<rparr>) tasks,
          np_blocked = filter (\<lambda>(s, ds). ds \<noteq> []) (dict_of (map (\<lambda>t. (ts_slug t,
              sort (filter (\<lambda>d. d \<notin> known \<and> d \<notin> satisfied \<and> \<not> is_issue_slug d) (ts_depends_on t)))) tasks))\<rparr>)"

datatype plan_error =
    PlanInvalid dag_error
  | PlanKeyError string
  | PlanUnfinished

text \<open>The stories still waiting when no frontier is left, with what they wait for.\<close>

fun block_remaining ::
    "story_dag \<Rightarrow> task_story list \<Rightarrow> (string, string list) dict \<Rightarrow> plan_error + (string, string list) dict" where
  "block_remaining g [] blocked = Inr blocked"
| "block_remaining g (t # ts) blocked =
     (if dict_get blocked (ts_slug t) \<noteq> None then block_remaining g ts blocked
      else (case unmet_deps g (ts_slug t) of
              Inl _ \<Rightarrow> Inl (PlanKeyError (ts_slug t))
            | Inr ds \<Rightarrow> block_remaining g ts (if ds \<noteq> [] then dict_set (ts_slug t) (sort ds) blocked else blocked)))"

text \<open>
  The \<^verbatim>\<open>while\<close> loop. Every round finishes at least one story, so as many rounds as there are stories
  and one more are enough; the bound is the first argument, and \<open>PlanUnfinished\<close> is shown never to be
  the result.
\<close>

fun assign_rounds ::
    "nat \<Rightarrow> (string, string list) dict \<Rightarrow> story_dag \<Rightarrow> (string, int) dict \<Rightarrow> int \<Rightarrow> plan_error + batch_plan" where
  "assign_rounds 0 blocked g assigned batch = Inl PlanUnfinished"
| "assign_rounds (Suc n) blocked g assigned batch =
     (if dag_is_done g then Inr \<lparr>bp_assignments = assigned, bp_blocked = blocked\<rparr>
      else (let ready = filter (\<lambda>t. dict_get assigned (ts_slug t) = None \<and> dict_get blocked (ts_slug t) = None) (dag_ready g)
            in if ready = []
               then (case block_remaining g (dag_remaining g) blocked of
                       Inl e \<Rightarrow> Inl e
                     | Inr blocked' \<Rightarrow> Inr \<lparr>bp_assignments = assigned, bp_blocked = blocked'\<rparr>)
               else assign_rounds n blocked (fold (\<lambda>t. mark_complete (ts_slug t)) ready g)
                      (fold (\<lambda>t. dict_set (ts_slug t) batch) ready assigned) (batch + 1)))"

definition assign_dependency_batches_with_satisfied ::
    "task_story list \<Rightarrow> string set \<Rightarrow> plan_error + batch_plan" where
  "assign_dependency_batches_with_satisfied tasks satisfied =
     (let norm = normalize_dependency_plan tasks satisfied
      in case build_dag (np_tasks norm) satisfied of
           Inl e \<Rightarrow> Inl (PlanInvalid e)
         | Inr g \<Rightarrow> assign_rounds (Suc (length (np_tasks norm))) (np_blocked norm) g [] 0)"

section \<open>The rounds\<close>

lemma fold_mark_complete:
  "fold (\<lambda>t. mark_complete (ts_slug t)) ts g = fold dag_step (map (\<lambda>t. MarkComplete (ts_slug t)) ts) g"
  by (induction ts arbitrary: g) auto

lemma get_fold_assign:
  "dict_get (fold (\<lambda>t. dict_set (ts_slug t) b) ts asg) s = (if s \<in> ts_slug ` set ts then Some b else dict_get asg s)"
  by (induction ts arbitrary: asg) auto

text \<open>
  What holds before every round: the stories marked complete are those already assigned, each to
  an earlier batch than the current one and after everything it depends on.
\<close>

definition plan_inv :: "task_story list \<Rightarrow> string set \<Rightarrow> (string, string list) dict \<Rightarrow> story_dag \<Rightarrow> (string, int) dict \<Rightarrow> int \<Rightarrow> bool" where
  "plan_inv tasks sat blocked g asg b \<longleftrightarrow>
     (\<exists>xs. g = fold dag_step (map MarkComplete xs) (new_story_dag tasks sat) \<and> set xs = dom (map_of asg))
     \<and> dom (map_of asg) \<subseteq> ts_slug ` set tasks \<and> dom (map_of asg) \<inter> dom (map_of blocked) = {}
     \<and> (\<forall>s i. dict_get asg s = Some i \<longrightarrow> i < b)
     \<and> (\<forall>t \<in> set tasks. \<forall>i. dict_get asg (ts_slug t) = Some i \<longrightarrow>
          (\<forall>d \<in> set (ts_depends_on t) \<union> set (ts_collision_deps t). d \<in> sat \<or> (\<exists>j < i. dict_get asg d = Some j)))"

lemma plan_inv_dag:
  assumes "plan_inv tasks sat blocked g asg b"
  shows "dag_ok g" "manifest_slugs g = ts_slug ` set tasks"
    "dag_completed g = sat \<union> dom (map_of asg)" "dag_finished g = dom (map_of asg)"
proof -
  from assms obtain xs where xs: "g = fold dag_step (map MarkComplete xs) (new_story_dag tasks sat)"
    "set xs = dom (map_of asg)" and sub: "dom (map_of asg) \<subseteq> ts_slug ` set tasks"
    by (auto simp: plan_inv_def)
  show "dag_ok g" unfolding xs(1) by (intro dag_ok_run dag_ok_new) auto
  show "manifest_slugs g = ts_slug ` set tasks"
    using manifest_new [of tasks sat] by (simp add: xs(1) manifest_slugs_def)
  show "dag_completed g = sat \<union> dom (map_of asg)"
    using xs(2) by (auto simp: xs(1) dag_run_completed)
  show "dag_finished g = dom (map_of asg)"
    using xs(2) sub by (auto simp: xs(1) dag_run_finished)
qed

lemma plan_ready:
  assumes "distinct (map ts_slug tasks)" and "plan_inv tasks sat blocked g asg b"
  shows "t \<in> set (dag_ready g) \<longleftrightarrow> t \<in> set tasks \<and> dict_get asg (ts_slug t) = None
     \<and> set (ts_depends_on t) \<union> set (ts_collision_deps t) \<subseteq> sat \<union> dom (map_of asg)"
proof -
  from assms(2) obtain xs where xs: "g = fold dag_step (map MarkComplete xs) (new_story_dag tasks sat)"
    by (auto simp: plan_inv_def)
  have "t \<in> set (dag_ready g) \<longleftrightarrow> t \<in> set tasks \<and> ts_slug t \<notin> dag_finished g
     \<and> set (ts_depends_on t) \<subseteq> dag_completed g \<and> set (ts_collision_deps t) \<subseteq> dag_completed g \<union> dag_finished g"
    unfolding xs by (rule ready_run_new [OF assms(1)]) auto
  with plan_inv_dag [OF assms(2)] show ?thesis by auto
qed

lemma plan_inv_round:
  assumes dist: "distinct (map ts_slug tasks)" and inv: "plan_inv tasks sat blocked g asg b"
  defines "ready \<equiv> filter (\<lambda>t. dict_get asg (ts_slug t) = None \<and> dict_get blocked (ts_slug t) = None) (dag_ready g)"
  shows "plan_inv tasks sat blocked (fold (\<lambda>t. mark_complete (ts_slug t)) ready g)
           (fold (\<lambda>t. dict_set (ts_slug t) b) ready asg) (b + 1)"
proof -
  let ?asg = "fold (\<lambda>t. dict_set (ts_slug t) b) ready asg"
  have dom: "dom (map_of ?asg) = ts_slug ` set ready \<union> dom (map_of asg)"
    by (auto simp: get_fold_assign split: if_splits)
  have ready: "t \<in> set tasks" "set (ts_depends_on t) \<union> set (ts_collision_deps t) \<subseteq> sat \<union> dom (map_of asg)"
    if "t \<in> set ready" for t
    using that plan_ready [OF dist inv] by (auto simp: ready_def)
  from inv have lt: "\<And>s i. dict_get asg s = Some i \<Longrightarrow> i < b" by (auto simp: plan_inv_def)
  have new: "\<And>s. s \<in> ts_slug ` set ready \<Longrightarrow> dict_get asg s = None" by (auto simp: ready_def)
  have keep: "dict_get ?asg d = Some j" if "dict_get asg d = Some j" for d j
    using that new [of d] by (auto simp: get_fold_assign)
  have order: "\<exists>j < i. dict_get ?asg d = Some j"
    if t: "t \<in> set tasks" "dict_get ?asg (ts_slug t) = Some i"
      and d: "d \<in> set (ts_depends_on t) \<union> set (ts_collision_deps t)" "d \<notin> sat" for t i d
  proof (cases "ts_slug t \<in> ts_slug ` set ready")
    case True
    with dist t(1) have "t \<in> set ready" using ready(1) by (auto simp: distinct_map dest: inj_onD)
    with ready(2) d obtain j where "dict_get asg d = Some j" by blast
    moreover from True t(2) have "i = b" by (simp add: get_fold_assign)
    ultimately show ?thesis using lt keep by blast
  next
    case False
    with t(2) have "dict_get asg (ts_slug t) = Some i" by (simp add: get_fold_assign)
    with inv t(1) d obtain j where "j < i" "dict_get asg d = Some j"
      unfolding plan_inv_def by blast
    with keep show ?thesis by blast
  qed
  from inv obtain xs where xs: "g = fold dag_step (map MarkComplete xs) (new_story_dag tasks sat)"
    "set xs = dom (map_of asg)" by (auto simp: plan_inv_def)
  have "fold (\<lambda>t. mark_complete (ts_slug t)) ready g =
      fold dag_step (map MarkComplete (xs @ map ts_slug ready)) (new_story_dag tasks sat)"
    by (simp add: fold_mark_complete xs(1) comp_def)
  moreover have "set (xs @ map ts_slug ready) = dom (map_of ?asg)" using xs(2) dom by auto
  moreover have "dom (map_of ?asg) \<inter> dom (map_of blocked) = {}"
    using inv dom by (auto simp: plan_inv_def ready_def)
  moreover have "dom (map_of ?asg) \<subseteq> ts_slug ` set tasks"
    using inv dom ready(1) by (auto simp: plan_inv_def)
  moreover have "\<And>s i. dict_get ?asg s = Some i \<Longrightarrow> i < b + 1"
    using lt by (force simp: get_fold_assign split: if_splits)
  ultimately show ?thesis unfolding plan_inv_def using order by blast
qed

lemma block_remaining_dom:
  assumes "\<forall>t \<in> set ts. dict_get blocked (ts_slug t) = None \<longrightarrow> (\<exists>ds. unmet_deps g (ts_slug t) = Inr ds \<and> ds \<noteq> [])"
  shows "\<exists>b'. block_remaining g ts blocked = Inr b' \<and> dom (map_of b') = dom (map_of blocked) \<union> ts_slug ` set ts"
  using assms
proof (induction ts arbitrary: blocked)
  case Nil
  then show ?case by simp
next
  case (Cons t ts)
  show ?case
  proof (cases "dict_get blocked (ts_slug t) = None")
    case True
    with Cons.prems obtain ds where ds: "unmet_deps g (ts_slug t) = Inr ds" "ds \<noteq> []" by auto
    have "\<exists>b'. block_remaining g ts (dict_set (ts_slug t) (sort ds) blocked) = Inr b'
        \<and> dom (map_of b') = dom (map_of (dict_set (ts_slug t) (sort ds) blocked)) \<union> ts_slug ` set ts"
      using Cons.prems by (intro Cons.IH) auto
    with True ds show ?thesis by (auto split: if_splits)
  next
    case False
    have "\<exists>b'. block_remaining g ts blocked = Inr b' \<and> dom (map_of b') = dom (map_of blocked) \<union> ts_slug ` set ts"
      using Cons.prems by (intro Cons.IH) auto
    moreover from False have "ts_slug t \<in> dom (map_of blocked)" by auto
    ultimately show ?thesis using False by (auto simp: insert_absorb)
  qed
qed

definition plan_complete :: "task_story list \<Rightarrow> string set \<Rightarrow> batch_plan \<Rightarrow> bool" where
  "plan_complete tasks sat p \<longleftrightarrow>
     dom (map_of (bp_assignments p)) \<inter> dom (map_of (bp_blocked p)) = {}
     \<and> dom (map_of (bp_assignments p)) \<union> dom (map_of (bp_blocked p)) = ts_slug ` set tasks
     \<and> (\<forall>t \<in> set tasks. \<forall>i. dict_get (bp_assignments p) (ts_slug t) = Some i \<longrightarrow>
          (\<forall>d \<in> set (ts_depends_on t) \<union> set (ts_collision_deps t).
             d \<in> sat \<or> (\<exists>j < i. dict_get (bp_assignments p) d = Some j)))"

lemma assign_rounds_complete:
  assumes dist: "distinct (map ts_slug tasks)"
    and blk: "dom (map_of blocked) \<subseteq> ts_slug ` set tasks"
    and "plan_inv tasks sat blocked g asg b"
    and "card (ts_slug ` set tasks - dom (map_of asg)) < n"
  shows "\<exists>p. assign_rounds n blocked g asg b = Inr p \<and> plan_complete tasks sat p"
  using assms(3,4)
proof (induction n arbitrary: g asg b)
  case 0
  then show ?case by simp
next
  case (Suc n)
  note inv = Suc.prems(1)
  note dag = plan_inv_dag [OF inv]
  let ?ready = "filter (\<lambda>t. dict_get asg (ts_slug t) = None \<and> dict_get blocked (ts_slug t) = None) (dag_ready g)"
  from inv have disj: "dom (map_of asg) \<inter> dom (map_of blocked) = {}" "dom (map_of asg) \<subseteq> ts_slug ` set tasks"
    by (auto simp: plan_inv_def)
  consider "dag_is_done g" | "\<not> dag_is_done g" "?ready = []" | "\<not> dag_is_done g" "?ready \<noteq> []" by blast
  then show ?case
  proof cases
    case 1
    with is_done_iff [OF dag(1)] dag have "ts_slug ` set tasks \<subseteq> dom (map_of asg)" by simp
    with 1 disj blk inv show ?thesis by (auto simp: plan_complete_def plan_inv_def)
  next
    case 2
    have rem: "t \<in> set (dag_remaining g) \<longleftrightarrow> (ts_slug t, t) \<in> set (dag_tasks g) \<and> dict_get asg (ts_slug t) = None" for t
      using remaining_iff [OF dag(1)] dag(4) by auto
    have "\<forall>t \<in> set (dag_remaining g). dict_get blocked (ts_slug t) = None \<longrightarrow>
        (\<exists>ds. unmet_deps g (ts_slug t) = Inr ds \<and> ds \<noteq> [])"
    proof (intro ballI impI)
      fix t assume t: "t \<in> set (dag_remaining g)" "dict_get blocked (ts_slug t) = None"
      with rem [of t] 2(2) have "t \<notin> set (dag_ready g)" by (auto simp: filter_empty_conv)
      with t(1) show "\<exists>ds. unmet_deps g (ts_slug t) = Inr ds \<and> ds \<noteq> []"
        by (rule not_ready_unmet [OF dag(1)])
    qed
    from block_remaining_dom [OF this] obtain b' where
      b': "block_remaining g (dag_remaining g) blocked = Inr b'"
        "dom (map_of b') = dom (map_of blocked) \<union> ts_slug ` set (dag_remaining g)" by blast
    have "ts_slug ` set (dag_remaining g) = ts_slug ` set tasks - dom (map_of asg)"
    proof -
      have "ts_slug ` set (dag_remaining g) = manifest_slugs g - dom (map_of asg)"
      proof (rule set_eqI)
        fix s
        show "s \<in> ts_slug ` set (dag_remaining g) \<longleftrightarrow> s \<in> manifest_slugs g - dom (map_of asg)"
          unfolding image_iff Bex_def rem manifest_slugs_iff [OF dag(1)] Diff_iff domIff by auto
      qed
      with dag(2) show ?thesis by simp
    qed
    with 2 b' disj blk inv show ?thesis by (auto simp: plan_complete_def plan_inv_def Let_def)
  next
    case 3
    let ?asg = "fold (\<lambda>t. dict_set (ts_slug t) b) ?ready asg"
    from hd_in_set [OF 3(2)] obtain t where t: "t \<in> set ?ready" by blast
    then have "t \<in> set tasks" "dict_get asg (ts_slug t) = None" using plan_ready [OF dist inv] by auto
    with t have "ts_slug ` set tasks - dom (map_of ?asg) \<subset> ts_slug ` set tasks - dom (map_of asg)"
      by (auto simp: get_fold_assign dom_def split: if_splits)
    from psubset_card_mono [OF _ this] have "card (ts_slug ` set tasks - dom (map_of ?asg)) < n"
      using Suc.prems(2) by simp
    from Suc.IH [OF plan_inv_round [OF dist inv] this] 3 show ?thesis by (simp add: Let_def)
  qed
qed

lemma block_remaining_keeps:
  "block_remaining g ts blocked = Inr b' \<Longrightarrow> fst ` set blocked \<subseteq> fst ` set b'"
proof (induction ts arbitrary: blocked)
  case (Cons t ts)
  show ?case
  proof (cases "dict_get blocked (ts_slug t) = None")
    case True
    with Cons.prems obtain ds where "unmet_deps g (ts_slug t) = Inr ds"
      by (cases "unmet_deps g (ts_slug t)") simp_all
    with True Cons.prems Cons.IH [of "if ds \<noteq> [] then dict_set (ts_slug t) (sort ds) blocked else blocked"]
    show ?thesis by (cases "ds = []") simp_all
  qed (use Cons in simp)
qed simp

lemma assign_rounds_blocked:
  "assign_rounds n blocked g asg b = Inr p \<Longrightarrow> dom (map_of blocked) \<subseteq> dom (map_of (bp_blocked p))"
proof (induction n arbitrary: g asg b)
  case (Suc n)
  then show ?case
    using block_remaining_keeps [of g "dag_remaining g" blocked]
    by (cases p) (simp add: Let_def dom_map_of_conv_image_fst split: if_splits sum.splits)
qed simp

section \<open>Normalisation\<close>

abbreviation norm_tasks :: "task_story list \<Rightarrow> string set \<Rightarrow> task_story list" where
  "norm_tasks tasks sat \<equiv> np_tasks (normalize_dependency_plan tasks sat)"

lemma norm_slugs: "map ts_slug (norm_tasks tasks sat) = map ts_slug tasks"
  by (simp add: normalize_dependency_plan_def Let_def comp_def)

lemma norm_slug_set: "ts_slug ` set (norm_tasks tasks sat) = ts_slug ` set tasks"
  using norm_slugs [of tasks sat] by (metis list.set_map)

lemma norm_blocked:
  assumes "distinct (map ts_slug tasks)" and "t \<in> set tasks"
  shows "dict_get (np_blocked (normalize_dependency_plan tasks sat)) (ts_slug t) \<noteq> None \<longleftrightarrow>
     (\<exists>d \<in> set (ts_depends_on t). d \<notin> ts_slug ` set tasks \<and> d \<notin> sat \<and> \<not> is_issue_slug d)"
proof -
  let ?f = "\<lambda>t. sort (filter (\<lambda>d. d \<notin> ts_slug ` set tasks \<and> d \<notin> sat \<and> \<not> is_issue_slug d) (ts_depends_on t))"
  let ?D = "dict_of (map (\<lambda>t. (ts_slug t, ?f t)) tasks)"
  have "dict_get (filter (\<lambda>(s, ds). ds \<noteq> []) ?D) (ts_slug t) = (if ?f t \<noteq> [] then Some (?f t) else None)"
    by (subst dict_get_filter [OF dict_wf_of]) (simp add: dict_get_by_slug_distinct [OF assms])
  then show ?thesis
    by (auto simp: normalize_dependency_plan_def Let_def filter_empty_conv)
qed

lemma norm_blocked_dom: "dom (map_of (np_blocked (normalize_dependency_plan tasks sat))) \<subseteq> ts_slug ` set tasks"
proof
  fix s assume "s \<in> dom (map_of (np_blocked (normalize_dependency_plan tasks sat)))"
  then obtain v where "(s, v) \<in> set (np_blocked (normalize_dependency_plan tasks sat))"
    by (auto dest: map_of_SomeD)
  then show "s \<in> ts_slug ` set tasks"
    using keys_by_slug [of _ tasks] by (force simp: normalize_dependency_plan_def Let_def)
qed

lemma norm_task:
  assumes "t \<in> set tasks"
    and "\<forall>d \<in> set (ts_depends_on t). d \<in> ts_slug ` set tasks \<or> d \<in> sat \<or> is_issue_slug d"
  shows "\<exists>t' \<in> set (norm_tasks tasks sat). ts_slug t' = ts_slug t
     \<and> set (ts_depends_on t') = set (ts_depends_on t) \<and> ts_collision_deps t' = ts_collision_deps t"
  using assms by (auto simp: normalize_dependency_plan_def Let_def intro!: bexI [of _ t])

lemma norm_validates:
  "t \<in> set (norm_tasks tasks sat) \<Longrightarrow> missing_deps (ts_slug ` set (norm_tasks tasks sat)) sat t = []"
  unfolding norm_slug_set
  by (auto simp: missing_deps_def normalize_dependency_plan_def Let_def filter_empty_conv
      is_issue_slug_def issue_number_from_slug_def)

lemma norm_edges: "dependency_edges (norm_tasks tasks sat) sat = dependency_edges tasks sat"
  unfolding dependency_edges_UN norm_slug_set
  by (auto simp: normalize_dependency_plan_def Let_def)

lemma plan_complete_of_dag:
  assumes dist: "distinct (map ts_slug tasks)" and g: "build_dag (norm_tasks tasks sat) sat = Inr g"
  shows "\<exists>p. assign_dependency_batches_with_satisfied tasks sat = Inr p \<and> plan_complete (norm_tasks tasks sat) sat p
     \<and> dom (map_of (np_blocked (normalize_dependency_plan tasks sat))) \<subseteq> dom (map_of (bp_blocked p))"
proof -
  let ?nt = "norm_tasks tasks sat" and ?b = "np_blocked (normalize_dependency_plan tasks sat)"
  have ndist: "distinct (map ts_slug ?nt)" using dist by (simp add: norm_slugs)
  have "plan_inv ?nt sat ?b g [] 0"
    using build_dag_Inr [OF g] by (auto simp: plan_inv_def intro: exI [of _ "[]"])
  moreover have "card (ts_slug ` set ?nt - dom (map_of [])) < Suc (length ?nt)"
    using card_length [of "map ts_slug ?nt"] by simp
  ultimately obtain p where p: "assign_rounds (Suc (length ?nt)) ?b g [] 0 = Inr p" "plan_complete ?nt sat p"
    using assign_rounds_complete [OF ndist, of ?b sat g "[]" 0 "Suc (length ?nt)"] norm_blocked_dom [of tasks sat]
    unfolding norm_slug_set by blast
  have "assign_dependency_batches_with_satisfied tasks sat = Inr p"
    using g p(1) by (simp only: assign_dependency_batches_with_satisfied_def Let_def sum.case)
  with p(2) assign_rounds_blocked [OF p(1)] show ?thesis by blast
qed

lemma batch_plan_exists:
  assumes "distinct (map ts_slug tasks)" and "acyclic (dependency_edges tasks sat)"
  shows "\<exists>p. assign_dependency_batches_with_satisfied tasks sat = Inr p \<and> plan_complete (norm_tasks tasks sat) sat p"
proof -
  let ?nt = "norm_tasks tasks sat"
  have "distinct (map ts_slug ?nt)" using assms by (simp add: norm_slugs)
  from build_dag_ok [OF this, of sat] assms(2) norm_validates [of _ tasks sat]
  obtain g where "build_dag ?nt sat = Inr g" unfolding norm_edges by blast
  from plan_complete_of_dag [OF assms(1) this] show ?thesis by blast
qed

section \<open>Properties\<close>

text \<open>C39. The dry-run plan always comes out when the unsatisfied dependencies inside the manifest have no
  cycle, and then it is a partition: every story of the manifest is either assigned to a batch or
  listed as blocked, never both, and nothing else is listed. The loop that builds it terminates.\<close>

theorem batch_plan_partitions:
  assumes "distinct (map ts_slug tasks)" and "acyclic (dependency_edges tasks sat)"
  shows "\<exists>p. assign_dependency_batches_with_satisfied tasks sat = Inr p
     \<and> dom (map_of (bp_assignments p)) \<inter> dom (map_of (bp_blocked p)) = {}
     \<and> dom (map_of (bp_assignments p)) \<union> dom (map_of (bp_blocked p)) = ts_slug ` set tasks"
  using batch_plan_exists [OF assms] by (auto simp: plan_complete_def norm_slug_set)

theorem batch_plan_partitions_witness:
  "distinct (map ts_slug two_stories) \<and>
    assign_dependency_batches_with_satisfied two_stories {} =
      Inr \<lparr>bp_assignments = [(''issue-1'', 0), (''issue-2'', 1)], bp_blocked = []\<rparr> \<and>
    dom (map_of [(''issue-1'', 0 :: int), (''issue-2'', 1)]) \<union> {} = ts_slug ` set two_stories"
proof -
  have d: "distinct (map ts_slug two_stories)" by (simp add: two_stories_def)
  have e: "assign_dependency_batches_with_satisfied two_stories {} =
      Inr \<lparr>bp_assignments = [(''issue-1'', 0), (''issue-2'', 1)], bp_blocked = []\<rparr>" by code_simp
  from batch_plan_partitions [OF d two_stories_acyclic] d e show ?thesis by auto
qed

text \<open>Batches respect dependencies: in any plan that comes out, a story assigned to a batch has each of
  its dependencies and collision edges satisfied from the start or assigned to a strictly earlier
  batch; in particular a story with an unresolvable dependency outside the manifest is assigned to
  no batch.\<close>

theorem batch_plan_ordered:
  assumes "distinct (map ts_slug tasks)"
    and "assign_dependency_batches_with_satisfied tasks sat = Inr p"
    and "t \<in> set tasks" and "dict_get (bp_assignments p) (ts_slug t) = Some i"
    and "d \<in> set (ts_depends_on t) \<union> set (ts_collision_deps t)"
  shows "d \<in> sat \<or> (\<exists>j < i. dict_get (bp_assignments p) d = Some j)"
proof -
  let ?nt = "norm_tasks tasks sat" and ?b = "np_blocked (normalize_dependency_plan tasks sat)"
  from assms(2) obtain g where "build_dag ?nt sat = Inr g"
    by (cases "build_dag ?nt sat") (simp_all add: assign_dependency_batches_with_satisfied_def Let_def)
  from plan_complete_of_dag [OF assms(1) this] assms(2)
  have pc: "plan_complete ?nt sat p" and bl: "dom (map_of ?b) \<subseteq> dom (map_of (bp_blocked p))" by auto
  from pc assms(4) have "ts_slug t \<notin> dom (map_of (bp_blocked p))" by (auto simp: plan_complete_def)
  with bl have "dict_get ?b (ts_slug t) = None" by auto
  with norm_blocked [OF assms(1,3), of sat]
  have keep: "\<forall>d \<in> set (ts_depends_on t). d \<in> ts_slug ` set tasks \<or> d \<in> sat \<or> is_issue_slug d" by blast
  from norm_task [OF assms(3) keep] obtain t' where t': "t' \<in> set ?nt" "ts_slug t' = ts_slug t"
    and eq: "set (ts_depends_on t') = set (ts_depends_on t)" "ts_collision_deps t' = ts_collision_deps t" by blast
  from pc have "\<forall>i. dict_get (bp_assignments p) (ts_slug t') = Some i \<longrightarrow>
      (\<forall>d \<in> set (ts_depends_on t') \<union> set (ts_collision_deps t').
         d \<in> sat \<or> (\<exists>j < i. dict_get (bp_assignments p) d = Some j))"
    using t'(1) unfolding plan_complete_def by blast
  with assms(4,5) t' show ?thesis by (simp add: eq)
qed

theorem batch_plan_ordered_witness:
  "\<exists>p. assign_dependency_batches_with_satisfied two_stories {} = Inr p
    \<and> dict_get (bp_assignments p) (ts_slug (two_stories ! 1)) = Some 1
    \<and> ''issue-1'' \<in> set (ts_depends_on (two_stories ! 1))
    \<and> (\<exists>j < 1. dict_get (bp_assignments p) ''issue-1'' = Some j)"
proof -
  let ?p = "\<lparr>bp_assignments = [(''issue-1'', 0), (''issue-2'', 1)], bp_blocked = []\<rparr>"
  have d: "distinct (map ts_slug two_stories)" by (simp add: two_stories_def)
  have e: "assign_dependency_batches_with_satisfied two_stories {} = Inr ?p" by code_simp
  have t: "two_stories ! 1 \<in> set two_stories" by (simp add: two_stories_def)
  have i: "dict_get (bp_assignments ?p) (ts_slug (two_stories ! 1)) = Some 1" by (simp add: two_stories_def)
  have m: "''issue-1'' \<in> set (ts_depends_on (two_stories ! 1)) \<union> set (ts_collision_deps (two_stories ! 1))"
    by (simp add: two_stories_def)
  from batch_plan_ordered [OF d e t i m] e i m show ?thesis by (auto simp: two_stories_def)
qed

end
