(* ===== verification/Collision_Edges.thy ===== *)
theory Collision_Edges
  imports Story_DAG
begin

text \<open>
  Collision edges (\<^verbatim>\<open>sprint/collision.py\<close>, \<^verbatim>\<open>compute_synthetic_edges\<close> and \<^verbatim>\<open>inject_synthetic_deps\<close>): stories
  whose preflight claims a common file, or claims no file at all, are put in an order by soft edges
  added to the declared dependencies, each edge only when a search finds the two stories unordered.
  The log lines the loops print are left out.
\<close>

section \<open>Model\<close>

text \<open>The preflight fields of \<^verbatim>\<open>CoordinatorState\<close> the sprint scheduler reads.\<close>

record preflight_state =
  pf_work_type :: "string option"
  pf_complexity :: "string option"
  pf_sufficiency :: "string option"
  pf_likely_files :: "string list option"

definition sys_maxsize :: int where
  "sys_maxsize = 9223372036854775807"

text \<open>\<^verbatim>\<open>_bundle_sort_key\<close>, and the nested \<^verbatim>\<open>_sort_key\<close> that looks the story up by its slug.\<close>

definition bundle_sort_key :: "task_story \<Rightarrow> int \<times> string" where
  "bundle_sort_key t = (case ts_github_issue t of Some n \<Rightarrow> n | None \<Rightarrow> sys_maxsize, ts_slug t)"

definition task_by_slug :: "task_story list \<Rightarrow> (string, task_story) dict" where
  "task_by_slug tasks = dict_of (map (\<lambda>t. (ts_slug t, t)) tasks)"

definition slug_sort_key :: "(string, task_story) dict \<Rightarrow> string \<Rightarrow> int \<times> string" where
  "slug_sort_key by_slug s =
     (case dict_get by_slug s of
        Some t \<Rightarrow> (case ts_github_issue t of Some n \<Rightarrow> n | None \<Rightarrow> sys_maxsize, s)
      | None \<Rightarrow> (sys_maxsize, s))"

text \<open>
  The search \<^verbatim>\<open>_has_dependency_path\<close>; the head of the list is the top of the stack. A set pushed on
  the stack comes in some order, here that of the dictionary's list.
\<close>

function path_search :: "(string, string list) dict \<Rightarrow> string \<Rightarrow> string list \<Rightarrow> string set \<Rightarrow> bool" where
  "path_search deps target [] seen = False"
| "path_search deps target (slug # stack) seen =
     (if slug = target then True
      else if slug \<in> seen then path_search deps target stack seen
      else path_search deps target
             (rev (filter (\<lambda>d. d \<notin> insert slug seen) (deps_of deps slug)) @ stack) (insert slug seen))"
  by pat_completeness auto

termination path_search
proof (relation "measures [\<lambda>(deps, target, stack, seen). card (fst ` set deps - seen),
                           \<lambda>(deps, target, stack, seen). length stack]", goal_cases)
  case (3 deps target slug stack seen)
  show ?case
  proof (cases "slug \<in> fst ` set deps")
    case True
    with 3 have "fst ` set deps - insert slug seen \<subset> fst ` set deps - seen" by auto
    from psubset_card_mono [OF _ this] show ?thesis by simp
  next
    case False
    then have "deps_of deps slug = []" by (simp add: deps_of_def map_of_eq_None_iff [THEN iffD2])
    moreover from False have "fst ` set deps - insert slug seen = fst ` set deps - seen" by auto
    ultimately show ?thesis by simp
  qed
qed auto

definition has_dependency_path :: "(string, string list) dict \<Rightarrow> string \<Rightarrow> string \<Rightarrow> bool" where
  "has_dependency_path deps start target = path_search deps target (rev (deps_of deps start)) {}"

text \<open>The two dictionaries of sets the nested functions share: all edges so far and the added ones.\<close>

record edge_state =
  es_deps :: "(string, string list) dict"
  es_synthetic :: "(string, string list) dict"

definition setdefault_add :: "string \<Rightarrow> string \<Rightarrow> (string, string list) dict \<Rightarrow> (string, string list) dict" where
  "setdefault_add k v d = dict_set k (set_add v (deps_of d k)) d"

definition serialize :: "string \<Rightarrow> string \<Rightarrow> edge_state \<Rightarrow> string option \<times> edge_state" where
  "serialize prev cur st =
     (if has_dependency_path (es_deps st) cur prev
      then (Some (cur @ '' already depends_on '' @ prev), st)
      else if has_dependency_path (es_deps st) prev cur
      then (Some (cur @ '' depends_on '' @ prev @ '' would cycle''), st)
      else (None, st\<lparr>es_synthetic := setdefault_add cur prev (es_synthetic st),
                     es_deps := setdefault_add cur prev (es_deps st)\<rparr>))"

definition file_append :: "string \<Rightarrow> string \<Rightarrow> (string, string list) dict \<Rightarrow> (string, string list) dict" where
  "file_append slug path d = dict_set path (deps_of d path @ [slug]) d"

text \<open>The first loop: claimed files to their claimants, and the stories that claim none.\<close>

fun collect_files ::
    "(string, task_story) dict \<Rightarrow> (string \<times> preflight_state) list
      \<Rightarrow> (string, string list) dict \<Rightarrow> string list \<Rightarrow> (string, string list) dict \<times> string list" where
  "collect_files by_slug [] files unknown = (files, unknown)"
| "collect_files by_slug ((slug, pf) # rest) files unknown =
     (if dict_get by_slug slug = None then collect_files by_slug rest files unknown
      else (case pf_likely_files pf of
              None \<Rightarrow> collect_files by_slug rest files (unknown @ [slug])
            | Some paths \<Rightarrow>
                if paths = [] then collect_files by_slug rest files (unknown @ [slug])
                else collect_files by_slug rest (fold (file_append slug) paths files) unknown))"

text \<open>Consecutive claimants of one file, in key order.\<close>

fun serialize_chain :: "string list \<Rightarrow> edge_state \<Rightarrow> edge_state" where
  "serialize_chain (prev # cur # rest) st = serialize_chain (cur # rest) (snd (serialize prev cur st))"
| "serialize_chain _ st = st"

definition serialize_pair :: "(string \<Rightarrow> int \<times> string) \<Rightarrow> string \<Rightarrow> string \<Rightarrow> edge_state \<Rightarrow> edge_state" where
  "serialize_pair key unknown known st =
     (if known = unknown then st
      else (case sort_key key [unknown, known] of
              [prev, cur] \<Rightarrow> snd (serialize prev cur st)
            | _ \<Rightarrow> st))"

definition synthetic_state :: "(string, preflight_state) dict \<Rightarrow> task_story list \<Rightarrow> edge_state" where
  "synthetic_state preflight_states tasks =
     (let by_slug = task_by_slug tasks;
          key = slug_sort_key by_slug;
          deps = dict_of (map (\<lambda>t. (ts_slug t, remdups (ts_depends_on t))) tasks);
          (files, unknown) = collect_files by_slug preflight_states [] [];
          st1 = fold (\<lambda>(path, slugs). serialize_chain (sort_key key (remdups slugs)))
                  (sort files) \<lparr>es_deps = deps, es_synthetic = []\<rparr>;
          known = sort_key key (map fst (filter (\<lambda>(slug, pf).
                    (case pf_likely_files pf of None \<Rightarrow> False | Some paths \<Rightarrow> paths \<noteq> [])
                    \<and> dict_get by_slug slug \<noteq> None) preflight_states))
      in fold (\<lambda>u. fold (serialize_pair key u) known) (sort_key key (remdups unknown)) st1)"

definition compute_synthetic_edges ::
    "(string, preflight_state) dict \<Rightarrow> task_story list \<Rightarrow> (string, string list) dict" where
  "compute_synthetic_edges preflight_states tasks =
     map (\<lambda>(slug, ds). (slug, sort ds)) (es_synthetic (synthetic_state preflight_states tasks))"

definition inject_synthetic_deps :: "task_story list \<Rightarrow> (string, string list) dict \<Rightarrow> task_story list" where
  "inject_synthetic_deps tasks synthetic =
     map (\<lambda>t. case dict_get synthetic (ts_slug t) of
                 None \<Rightarrow> t
               | Some ds \<Rightarrow> t\<lparr>ts_collision_deps := sort (remdups (ts_collision_deps t @ ds))\<rparr>) tasks"

section \<open>The search decides reachability\<close>

definition dict_edges :: "(string, string list) dict \<Rightarrow> (string \<times> string) set" where
  "dict_edges d = graph_edges (deps_of d)"

lemma dict_edges_iff [simp]: "(a, b) \<in> dict_edges d \<longleftrightarrow> b \<in> set (deps_of d a)"
  by (simp add: dict_edges_def)

lemma dict_edges_Image: "dict_edges d `` {y} = set (deps_of d y)"
  by auto

lemma leave_closed_set:
  assumes "(x, t) \<in> R\<^sup>*" and "x \<in> S" and "t \<notin> S" and "\<forall>y \<in> S. R `` {y} \<subseteq> S \<union> K"
  shows "\<exists>k \<in> K. (k, t) \<in> R\<^sup>*"
  using assms(1,2)
proof (induction rule: converse_rtrancl_induct)
  case base
  with assms(3) show ?case by blast
next
  case (step y z)
  show ?case
  proof (cases "z \<in> S")
    case True
    with step show ?thesis by blast
  next
    case False
    with step.hyps(1) step.prems assms(4) have "z \<in> K" by blast
    with step.hyps(2) show ?thesis by blast
  qed
qed

lemma path_search_reach:
  assumes "\<forall>x \<in> seen. x \<noteq> target \<and> set (deps_of deps x) \<subseteq> seen \<union> set stack"
  shows "path_search deps target stack seen \<longleftrightarrow> (\<exists>s \<in> set stack. (s, target) \<in> (dict_edges deps)\<^sup>*)"
  using assms
proof (induction deps target stack seen rule: path_search.induct)
  case (1 deps target seen)
  then show ?case by simp
next
  case (2 deps target slug stack seen)
  let ?R = "dict_edges deps"
  let ?new = "rev (filter (\<lambda>d. d \<notin> insert slug seen) (deps_of deps slug)) @ stack"
  consider "slug = target" | "slug \<noteq> target" "slug \<in> seen" | "slug \<noteq> target" "slug \<notin> seen" by blast
  then show ?case
  proof cases
    case 1
    then show ?thesis by auto
  next
    case 2
    have inv: "\<forall>x \<in> seen. x \<noteq> target \<and> set (deps_of deps x) \<subseteq> seen \<union> set stack"
      using "2.prems" 2 by auto
    then have out: "\<forall>y \<in> seen. ?R `` {y} \<subseteq> seen \<union> set stack" "target \<notin> seen"
      unfolding dict_edges_Image by blast+
    have "\<exists>k \<in> set stack. (k, target) \<in> ?R\<^sup>*" if "(slug, target) \<in> ?R\<^sup>*"
      using leave_closed_set [OF that 2(2) out(2,1)] .
    with "2.IH"(1) [OF 2 inv] 2 show ?thesis by auto
  next
    case 3
    have inv: "\<forall>x \<in> insert slug seen. x \<noteq> target \<and> set (deps_of deps x) \<subseteq> insert slug seen \<union> set ?new"
      using "2.prems" 3 by auto
    then have out: "\<forall>y \<in> insert slug seen. ?R `` {y} \<subseteq> insert slug seen \<union> set ?new" "target \<notin> insert slug seen"
      unfolding dict_edges_Image by blast+
    have "\<exists>k \<in> set ?new. (k, target) \<in> ?R\<^sup>*" if "(slug, target) \<in> ?R\<^sup>*"
      using leave_closed_set [OF that insertI1 out(2,1)] .
    moreover have "(slug, target) \<in> ?R\<^sup>*" if "d \<in> set (deps_of deps slug)" "(d, target) \<in> ?R\<^sup>*" for d
      using that by (auto intro: converse_rtrancl_into_rtrancl)
    ultimately show ?thesis using "2.IH"(2) [OF 3 inv] 3 by auto
  qed
qed

lemma has_dependency_path_iff:
  "has_dependency_path deps start target \<longleftrightarrow> (start, target) \<in> (dict_edges deps)\<^sup>+"
  unfolding has_dependency_path_def
  by (subst path_search_reach) (auto simp: trancl_unfold_left relcomp_unfold)

section \<open>The loops as one series of calls\<close>

text \<open>
  Both loops only call \<^verbatim>\<open>_serialize\<close>, on pairs that depend on the claims and not on the edges added
  so far; the result is one fold over the list of those pairs.
\<close>

definition serialize_step :: "string \<times> string \<Rightarrow> edge_state \<Rightarrow> edge_state" where
  "serialize_step pc st = snd (serialize (fst pc) (snd pc) st)"

definition key_pair :: "(string \<Rightarrow> int \<times> string) \<Rightarrow> string \<Rightarrow> string \<Rightarrow> (string \<times> string) list" where
  "key_pair key u k = (if k = u then [] else [if key u \<le> key k then (u, k) else (k, u)])"

definition chain_pairs :: "'a list \<Rightarrow> ('a \<times> 'a) list" where
  "chain_pairs xs = zip xs (tl xs)"

definition claimed_paths :: "preflight_state \<Rightarrow> string list" where
  "claimed_paths pf = (case pf_likely_files pf of None \<Rightarrow> [] | Some paths \<Rightarrow> paths)"

lemma claimed_paths_truthy:
  "(case pf_likely_files pf of None \<Rightarrow> False | Some paths \<Rightarrow> paths \<noteq> []) \<longleftrightarrow> claimed_paths pf \<noteq> []"
  by (simp add: claimed_paths_def split: option.splits)

definition collision_pairs :: "(string, preflight_state) dict \<Rightarrow> task_story list \<Rightarrow> (string \<times> string) list" where
  "collision_pairs pfs tasks =
     (let key = slug_sort_key (task_by_slug tasks);
          (files, unknown) = collect_files (task_by_slug tasks) pfs [] [];
          known = sort_key key (map fst (filter (\<lambda>(slug, pf). claimed_paths pf \<noteq> []
                    \<and> dict_get (task_by_slug tasks) slug \<noteq> None) pfs))
      in concat (map (\<lambda>(path, slugs). chain_pairs (sort_key key (remdups slugs))) (sort files))
         @ concat (map (\<lambda>u. concat (map (key_pair key u) known)) (sort_key key (remdups unknown))))"

lemma fold_concat_map: "fold f (concat (map g xs)) st = fold (\<lambda>x. fold f (g x)) xs st"
  by (induction xs arbitrary: st) auto

lemma serialize_chain_fold: "serialize_chain xs st = fold serialize_step (chain_pairs xs) st"
  by (induction xs st rule: serialize_chain.induct) (auto simp: chain_pairs_def serialize_step_def)

lemma serialize_pair_fold: "serialize_pair key u k st = fold serialize_step (key_pair key u k) st"
  by (auto simp: serialize_pair_def key_pair_def serialize_step_def)

definition declared_deps :: "task_story list \<Rightarrow> (string, string list) dict" where
  "declared_deps tasks = dict_of (map (\<lambda>t. (ts_slug t, remdups (ts_depends_on t))) tasks)"

lemma synthetic_state_fold:
  "synthetic_state pfs tasks =
     fold serialize_step (collision_pairs pfs tasks) \<lparr>es_deps = declared_deps tasks, es_synthetic = []\<rparr>"
proof -
  obtain files unknown where c: "collect_files (task_by_slug tasks) pfs [] [] = (files, unknown)" by force
  have chain: "(\<lambda>(path, slugs). serialize_chain (sort_key key (remdups slugs))) =
      (\<lambda>x. fold serialize_step (case x of (path, slugs) \<Rightarrow> chain_pairs (sort_key key (remdups slugs))))"
    for key :: "string \<Rightarrow> int \<times> string" and x :: "string \<times> string list"
    by (rule ext) (auto simp: serialize_chain_fold)
  have pair: "serialize_pair key u = (\<lambda>k. fold serialize_step (key_pair key u k))" for key u
    by (rule ext, rule ext) (rule serialize_pair_fold)
  show ?thesis
    unfolding synthetic_state_def collision_pairs_def Let_def c prod.case declared_deps_def claimed_paths_truthy
      fold_append comp_def fold_concat_map chain pair ..
qed

section \<open>What a series of calls does\<close>

definition pair_ok :: "string set \<Rightarrow> (string \<Rightarrow> int \<times> string) \<Rightarrow> string \<times> string \<Rightarrow> bool" where
  "pair_ok S key pc \<longleftrightarrow> fst pc \<in> S \<and> snd pc \<in> S \<and> key (fst pc) < key (snd pc)"

definition edges_ok :: "string set \<Rightarrow> (string \<Rightarrow> int \<times> string) \<Rightarrow> (string \<times> string) set \<Rightarrow> edge_state \<Rightarrow> bool" where
  "edges_ok S key D st \<longleftrightarrow>
     dict_edges (es_deps st) = D \<union> dict_edges (es_synthetic st)
     \<and> acyclic (dict_edges (es_deps st)) \<and> dict_wf (es_synthetic st)
     \<and> (\<forall>a b. (a, b) \<in> dict_edges (es_synthetic st) \<longrightarrow> a \<in> S \<and> b \<in> S \<and> key b < key a)"

definition ordered_in :: "('a \<times> 'a) set \<Rightarrow> 'a \<times> 'a \<Rightarrow> bool" where
  "ordered_in E pc \<longleftrightarrow> (snd pc, fst pc) \<in> E\<^sup>+ \<or> pc \<in> E\<^sup>+"

lemma ordered_in_mono: "ordered_in E pc \<Longrightarrow> E \<subseteq> F \<Longrightarrow> ordered_in F pc"
  unfolding ordered_in_def using trancl_mono by (metis prod.collapse)

lemma dict_edges_setdefault: "dict_edges (setdefault_add k v d) = insert (k, v) (dict_edges d)"
  by (auto simp: setdefault_add_def deps_of_def split: if_splits option.splits)

lemma serialize_step_ok:
  assumes "edges_ok S key D st" and "pair_ok S key pc"
  shows "edges_ok S key D (serialize_step pc st)"
    and "dict_edges (es_deps st) \<subseteq> dict_edges (es_deps (serialize_step pc st))"
    and "ordered_in (dict_edges (es_deps (serialize_step pc st))) pc"
proof -
  obtain p c where pc: "pc = (p, c)" by force
  let ?E = "dict_edges (es_deps st)"
  consider "(c, p) \<in> ?E\<^sup>+ \<or> (p, c) \<in> ?E\<^sup>+" | "(c, p) \<notin> ?E\<^sup>+" "(p, c) \<notin> ?E\<^sup>+" by blast
  then have "edges_ok S key D (serialize_step pc st) \<and> ?E \<subseteq> dict_edges (es_deps (serialize_step pc st))
     \<and> ordered_in (dict_edges (es_deps (serialize_step pc st))) pc"
  proof cases
    case 1
    then have "serialize_step pc st = st" by (auto simp: pc serialize_step_def serialize_def has_dependency_path_iff)
    with 1 assms show ?thesis by (auto simp: ordered_in_def pc)
  next
    case 2
    let ?st = "serialize_step pc st"
    have st: "?st = st\<lparr>es_synthetic := setdefault_add c p (es_synthetic st),
                       es_deps := setdefault_add c p (es_deps st)\<rparr>"
      using 2 by (simp add: pc serialize_step_def serialize_def has_dependency_path_iff)
    have E: "dict_edges (es_deps ?st) = insert (c, p) ?E"
      "dict_edges (es_synthetic ?st) = insert (c, p) (dict_edges (es_synthetic st))"
      by (simp_all add: st dict_edges_setdefault)
    from assms(2) have ne: "p \<noteq> c" by (auto simp: pair_ok_def pc)
    have "acyclic (dict_edges (es_deps ?st))"
      using assms(1) 2 ne unfolding E(1) by (auto simp: edges_ok_def acyclic_insert rtrancl_eq_or_trancl)
    moreover have "dict_wf (es_synthetic ?st)"
      using assms(1) by (simp add: st edges_ok_def setdefault_add_def)
    ultimately have "edges_ok S key D ?st"
      using assms unfolding edges_ok_def E by (auto simp: pair_ok_def pc)
    moreover have "ordered_in (dict_edges (es_deps ?st)) pc"
      unfolding E by (auto simp: ordered_in_def pc)
    ultimately show ?thesis using E by blast
  qed
  then show "edges_ok S key D (serialize_step pc st)"
    and "dict_edges (es_deps st) \<subseteq> dict_edges (es_deps (serialize_step pc st))"
    and "ordered_in (dict_edges (es_deps (serialize_step pc st))) pc" by blast+
qed

lemma serialize_run_ok:
  assumes "edges_ok S key D st" and "\<forall>pc \<in> set pcs. pair_ok S key pc"
  shows "edges_ok S key D (fold serialize_step pcs st)
     \<and> dict_edges (es_deps st) \<subseteq> dict_edges (es_deps (fold serialize_step pcs st))
     \<and> (\<forall>pc \<in> set pcs. ordered_in (dict_edges (es_deps (fold serialize_step pcs st))) pc)"
  using assms
proof (induction pcs arbitrary: st)
  case Nil
  then show ?case by simp
next
  case (Cons pc pcs)
  let ?st = "serialize_step pc st"
  from Cons.prems have ok: "pair_ok S key pc" by simp
  note step = serialize_step_ok [OF Cons.prems(1) ok]
  have IH: "edges_ok S key D (fold serialize_step pcs ?st)
     \<and> dict_edges (es_deps ?st) \<subseteq> dict_edges (es_deps (fold serialize_step pcs ?st))
     \<and> (\<forall>pc \<in> set pcs. ordered_in (dict_edges (es_deps (fold serialize_step pcs ?st))) pc)"
    using Cons.prems step(1) by (intro Cons.IH) auto
  moreover from IH step(3) have "ordered_in (dict_edges (es_deps (fold serialize_step pcs ?st))) pc"
    by (blast intro: ordered_in_mono)
  ultimately show ?case using step(2) by auto
qed

section \<open>The pairs the claims give\<close>

definition claims :: "(string, preflight_state) dict \<Rightarrow> string \<Rightarrow> string \<Rightarrow> bool" where
  "claims pfs s path \<longleftrightarrow> (\<exists>pf. dict_get pfs s = Some pf \<and> path \<in> set (claimed_paths pf))"

definition unknown_footprint :: "(string, preflight_state) dict \<Rightarrow> string \<Rightarrow> bool" where
  "unknown_footprint pfs s \<longleftrightarrow> (\<exists>pf. dict_get pfs s = Some pf \<and> claimed_paths pf = [])"

lemma task_by_slug_known: "dict_get (task_by_slug tasks) s \<noteq> None \<longleftrightarrow> s \<in> ts_slug ` set tasks"
  using keys_by_slug [of "\<lambda>t. t" tasks] by (simp add: task_by_slug_def dict_get_None)

lemma deps_of_set: "deps_of (dict_set k v d) k' = (if k' = k then v else deps_of d k')"
  by (simp add: deps_of_def)

lemma deps_of_file_append:
  "set (deps_of (fold (file_append slug) paths files) p) =
     set (deps_of files p) \<union> (if p \<in> set paths then {slug} else {})"
  by (induction paths arbitrary: files) (auto simp: file_append_def deps_of_set)

lemma file_append_wf: "dict_wf files \<Longrightarrow> dict_wf (fold (file_append slug) paths files)"
  by (induction paths arbitrary: files) (auto simp: file_append_def)

lemma collect_files_Cons:
  "collect_files by_slug ((slug, pf) # rest) files unknown =
     collect_files by_slug rest
       (if dict_get by_slug slug \<noteq> None then fold (file_append slug) (claimed_paths pf) files else files)
       (if dict_get by_slug slug \<noteq> None \<and> claimed_paths pf = [] then unknown @ [slug] else unknown)"
  by (cases "pf_likely_files pf") (simp_all add: claimed_paths_def)

lemma collect_files_claims:
  "set (deps_of (fst (collect_files by_slug pfs files unknown)) path) = set (deps_of files path) \<union>
     {s. dict_get by_slug s \<noteq> None \<and> (\<exists>pf. (s, pf) \<in> set pfs \<and> path \<in> set (claimed_paths pf))}"
proof (induction pfs arbitrary: files unknown)
  case (Cons p pfs)
  obtain slug pf where p: "p = (slug, pf)" by force
  show ?case unfolding p collect_files_Cons Cons.IH by (auto simp: deps_of_file_append)
qed simp

lemma collect_files_unknown:
  "set (snd (collect_files by_slug pfs files unknown)) = set unknown \<union>
     {s. dict_get by_slug s \<noteq> None \<and> (\<exists>pf. (s, pf) \<in> set pfs \<and> claimed_paths pf = [])}"
proof (induction pfs arbitrary: files unknown)
  case (Cons p pfs)
  obtain slug pf where p: "p = (slug, pf)" by force
  show ?case unfolding p collect_files_Cons Cons.IH by auto
qed simp

lemma collect_files_wf: "dict_wf files \<Longrightarrow> dict_wf (fst (collect_files by_slug pfs files unknown))"
proof (induction pfs arbitrary: files unknown)
  case (Cons p pfs)
  obtain slug pf where p: "p = (slug, pf)" by force
  show ?case unfolding p collect_files_Cons using Cons.prems by (intro Cons.IH) (simp add: file_append_wf)
qed simp

lemma chain_pairs_related: "sorted_wrt R xs \<Longrightarrow> (x, y) \<in> set (chain_pairs xs) \<Longrightarrow> R x y \<and> x \<in> set xs \<and> y \<in> set xs"
proof (induction xs)
  case (Cons a xs)
  then show ?case by (cases xs) (auto simp: chain_pairs_def)
qed (simp add: chain_pairs_def)

lemma chain_pairs_trans:
  assumes "\<forall>(x, y) \<in> set (chain_pairs xs). (y, x) \<in> T" and "trans T"
  shows "sorted_wrt (\<lambda>x y. (y, x) \<in> T) xs"
  using assms(1)
proof (induction xs)
  case (Cons a xs)
  show ?case
  proof (cases xs)
    case (Cons b ys)
    with Cons.prems have ba: "(b, a) \<in> T" and "\<forall>(x, y) \<in> set (chain_pairs xs). (y, x) \<in> T"
      by (auto simp: chain_pairs_def)
    with Cons.IH have srt: "sorted_wrt (\<lambda>x y. (y, x) \<in> T) xs" by blast
    have "(y, a) \<in> T" if "y \<in> set xs" for y
      using that srt ba assms(2) Cons by (auto dest: transD)
    with srt show ?thesis by simp
  qed simp
qed simp

lemma sorted_wrt_key_member:
  fixes key :: "'a \<Rightarrow> 'b :: linorder"
  assumes "sorted_wrt R xs" "sorted_wrt (\<lambda>a b. key a < key b) xs" "x \<in> set xs" "y \<in> set xs" "key x < key y"
  shows "R x y"
  using assms by (induction xs) (auto dest: less_asym)

lemma slug_sort_key_inj: "inj (slug_sort_key by_slug)"
proof (rule injI)
  fix x y assume "slug_sort_key by_slug x = slug_sort_key by_slug y"
  moreover have "snd (slug_sort_key by_slug z) = z" for z
    by (simp add: slug_sort_key_def split: option.splits)
  ultimately show "x = y" by metis
qed

lemma sort_key_strict:
  fixes key :: "'a \<Rightarrow> 'b :: linorder"
  assumes "inj key"
  shows "sorted_wrt (\<lambda>a b. key a < key b) (sort_key key (remdups xs))"
proof -
  have "distinct (map key (sort_key key (remdups xs)))"
    using assms by (auto simp: distinct_map intro: inj_on_subset)
  then have "sorted_wrt (<) (map key (sort_key key (remdups xs)))"
    by (simp add: strict_sorted_iff)
  then show ?thesis by (simp add: sorted_wrt_map)
qed

lemma collision_pairs_ok:
  assumes "pc \<in> set (collision_pairs pfs tasks)"
  shows "pair_ok (ts_slug ` set tasks) (slug_sort_key (task_by_slug tasks)) pc"
proof -
  let ?by = "task_by_slug tasks" and ?key = "slug_sort_key (task_by_slug tasks)"
  let ?F = "fst (collect_files ?by pfs [] [])" and ?U = "snd (collect_files ?by pfs [] [])"
  have U: "s \<in> ts_slug ` set tasks" if "s \<in> set ?U" for s
    using that unfolding collect_files_unknown task_by_slug_known by auto
  have F: "s \<in> ts_slug ` set tasks" if "(p, ss) \<in> set ?F" "s \<in> set ss" for p ss s
  proof -
    from that collect_files_wf [of "[]" ?by pfs "[]"] have "s \<in> set (deps_of ?F p)" by (simp add: deps_of_def)
    then show ?thesis unfolding collect_files_claims task_by_slug_known by (simp add: deps_of_def)
  qed
  from assms consider
      p ss where "(p, ss) \<in> set ?F" "pc \<in> set (chain_pairs (sort_key ?key (remdups ss)))"
    | u k pf where "u \<in> set ?U" "(k, pf) \<in> set pfs" "dict_get ?by k \<noteq> None" "pc \<in> set (key_pair ?key u k)"
    by (auto simp: collision_pairs_def Let_def case_prod_beta)
  then show ?thesis
  proof cases
    case 1
    obtain x y where pc: "pc = (x, y)" by force
    from chain_pairs_related [OF sort_key_strict [OF slug_sort_key_inj] 1(2) [unfolded pc]] F [OF 1(1)]
    show ?thesis by (auto simp: pair_ok_def pc)
  next
    case 2
    from 2(3) have "k \<in> ts_slug ` set tasks" by (simp add: task_by_slug_known [symmetric])
    moreover have "u \<noteq> k \<Longrightarrow> ?key u \<noteq> ?key k" using slug_sort_key_inj by (blast dest: injD)
    ultimately show ?thesis using 2(4) U [OF 2(1)]
      by (auto simp: key_pair_def pair_ok_def split: if_splits)
  qed
qed

lemma chain_pairs_collision:
  assumes "claims pfs s path" and "s \<in> ts_slug ` set tasks"
  shows "\<exists>ss. s \<in> set ss \<and> (path, ss) \<in> set (fst (collect_files (task_by_slug tasks) pfs [] []))"
proof -
  let ?F = "fst (collect_files (task_by_slug tasks) pfs [] [])"
  from assms have "s \<in> set (deps_of ?F path)"
    unfolding collect_files_claims task_by_slug_known by (auto simp: claims_def dest: map_of_SomeD)
  then show ?thesis
    by (cases "dict_get ?F path") (auto simp: deps_of_def dest: map_of_SomeD)
qed

section \<open>The graph the scheduler gets\<close>

abbreviation with_collisions :: "(string, preflight_state) dict \<Rightarrow> task_story list \<Rightarrow> task_story list" where
  "with_collisions pfs tasks \<equiv> inject_synthetic_deps tasks (compute_synthetic_edges pfs tasks)"

abbreviation all_edges :: "(string, preflight_state) dict \<Rightarrow> task_story list \<Rightarrow> (string \<times> string) set" where
  "all_edges pfs tasks \<equiv> dict_edges (es_deps (synthetic_state pfs tasks))"

lemma trancl_inside:
  assumes "(a, b) \<in> E\<^sup>+" and "E \<subseteq> S \<times> UNIV" and "b \<in> S"
  shows "(a, b) \<in> (E \<inter> UNIV \<times> S)\<^sup>+"
  using assms(1,3)
proof (induction rule: trancl_induct)
  case (step y z)
  from step.hyps(2) assms(2) have "y \<in> S" by blast
  with step show ?case by (auto intro: trancl_into_trancl)
qed auto

lemma acyclic_inside: "E \<subseteq> S \<times> UNIV \<Longrightarrow> acyclic (E \<inter> UNIV \<times> S) \<longleftrightarrow> acyclic E"
proof
  assume E: "E \<subseteq> S \<times> UNIV" and ac: "acyclic (E \<inter> UNIV \<times> S)"
  show "acyclic E"
  proof (rule acyclicI, rule allI, rule notI)
    fix a assume aa: "(a, a) \<in> E\<^sup>+"
    with E have "a \<in> S" by (auto dest: tranclD)
    from trancl_inside [OF aa E this] ac show False by (simp add: acyclic_def)
  qed
qed (auto intro: acyclic_subset)

lemma declared_edges:
  "distinct (map ts_slug tasks) \<Longrightarrow>
     dict_edges (declared_deps tasks) = {(ts_slug t, d) | t d. t \<in> set tasks \<and> d \<in> set (ts_depends_on t)}"
proof (intro set_eqI iffI)
  fix e assume e: "e \<in> dict_edges (declared_deps tasks)"
  obtain a d where ad: "e = (a, d)" by force
  with e obtain ds where "dict_get (declared_deps tasks) a = Some ds" "d \<in> set ds"
    by (cases "dict_get (declared_deps tasks) a") (auto simp: deps_of_def)
  with dict_get_by_slug [of "\<lambda>t. remdups (ts_depends_on t)" tasks a]
  show "e \<in> {(ts_slug t, d) | t d. t \<in> set tasks \<and> d \<in> set (ts_depends_on t)}"
    by (force simp: declared_deps_def ad)
next
  fix e assume "distinct (map ts_slug tasks)"
    and "e \<in> {(ts_slug t, d) | t d. t \<in> set tasks \<and> d \<in> set (ts_depends_on t)}"
  then show "e \<in> dict_edges (declared_deps tasks)"
    using dict_get_by_slug_distinct [of tasks _ "\<lambda>t. remdups (ts_depends_on t)"]
    by (auto simp: declared_deps_def deps_of_def)
qed

lemma synthetic_state_ok:
  assumes "acyclic (dict_edges (declared_deps tasks))"
  shows "edges_ok (ts_slug ` set tasks) (slug_sort_key (task_by_slug tasks))
           (dict_edges (declared_deps tasks)) (synthetic_state pfs tasks)"
    and "pc \<in> set (collision_pairs pfs tasks) \<Longrightarrow> ordered_in (all_edges pfs tasks) pc"
proof -
  let ?st = "\<lparr>es_deps = declared_deps tasks, es_synthetic = []\<rparr>"
  have "edges_ok (ts_slug ` set tasks) (slug_sort_key (task_by_slug tasks)) (dict_edges (declared_deps tasks)) ?st"
    using assms by (auto simp: edges_ok_def dict_edges_def graph_edges_def deps_of_def)
  from serialize_run_ok [OF this] collision_pairs_ok
  show "edges_ok (ts_slug ` set tasks) (slug_sort_key (task_by_slug tasks))
           (dict_edges (declared_deps tasks)) (synthetic_state pfs tasks)"
    and "pc \<in> set (collision_pairs pfs tasks) \<Longrightarrow> ordered_in (all_edges pfs tasks) pc"
    unfolding synthetic_state_fold by blast+
qed

lemma synthetic_edges_result:
  "set (deps_of (compute_synthetic_edges pfs tasks) s) = set (deps_of (es_synthetic (synthetic_state pfs tasks)) s)"
  by (simp add: compute_synthetic_edges_def deps_of_def map_of_map split: option.splits)

lemma schedule_edges_UN:
  "schedule_edges tasks = (\<Union>t \<in> set tasks. {ts_slug t} \<times> ((set (ts_depends_on t) \<union> set (ts_collision_deps t)) \<inter> ts_slug ` set tasks))"
  unfolding schedule_edges_def by blast

lemma schedule_edges_map:
  assumes "\<And>t. ts_slug (f t) = ts_slug t" "\<And>t. ts_depends_on (f t) = ts_depends_on t"
    and "\<And>t. set (ts_collision_deps (f t)) = set (ts_collision_deps t) \<union> X (ts_slug t)"
  shows "schedule_edges (map f tasks) =
     schedule_edges tasks \<union> (\<Union>s \<in> ts_slug ` set tasks. {s} \<times> (X s \<inter> ts_slug ` set tasks))"
  unfolding schedule_edges_UN set_map image_image assms by blast

lemma inject_edges:
  "schedule_edges (inject_synthetic_deps tasks syn) = schedule_edges tasks \<union>
     (\<Union>s \<in> ts_slug ` set tasks. {s} \<times> (set (deps_of syn s) \<inter> ts_slug ` set tasks))"
  unfolding inject_synthetic_deps_def
  by (rule schedule_edges_map) (auto simp: deps_of_def split: option.splits)

lemma with_collisions_edges:
  assumes "distinct (map ts_slug tasks)" and "\<forall>t \<in> set tasks. ts_collision_deps t = []"
    and "acyclic (schedule_edges tasks)"
  shows "acyclic (dict_edges (declared_deps tasks))"
    and "all_edges pfs tasks \<subseteq> ts_slug ` set tasks \<times> UNIV"
    and "schedule_edges (with_collisions pfs tasks) = all_edges pfs tasks \<inter> UNIV \<times> ts_slug ` set tasks"
proof -
  have D: "dict_edges (declared_deps tasks) = {(ts_slug t, d) | t d. t \<in> set tasks \<and> d \<in> set (ts_depends_on t)}"
    by (rule declared_edges [OF assms(1)])
  have sched: "schedule_edges tasks = dict_edges (declared_deps tasks) \<inter> UNIV \<times> ts_slug ` set tasks"
    unfolding D schedule_edges_def using assms(2) by auto
  have Dsub: "dict_edges (declared_deps tasks) \<subseteq> ts_slug ` set tasks \<times> UNIV" unfolding D by auto
  show ac: "acyclic (dict_edges (declared_deps tasks))"
    using assms(3) unfolding sched acyclic_inside [OF Dsub] .
  let ?Syn = "dict_edges (es_synthetic (synthetic_state pfs tasks))"
  note ok = synthetic_state_ok(1) [OF ac, of pfs, unfolded edges_ok_def]
  from ok have E: "all_edges pfs tasks = dict_edges (declared_deps tasks) \<union> ?Syn" by blast
  from ok have syn: "?Syn \<subseteq> ts_slug ` set tasks \<times> ts_slug ` set tasks" by (intro subrelI) blast
  from Dsub syn E show "all_edges pfs tasks \<subseteq> ts_slug ` set tasks \<times> UNIV" by blast
  have "(\<Union>s \<in> ts_slug ` set tasks. {s} \<times> (?Syn `` {s} \<inter> ts_slug ` set tasks)) = ?Syn \<inter> UNIV \<times> ts_slug ` set tasks"
    using syn by blast
  then have "(\<Union>s \<in> ts_slug ` set tasks. {s} \<times> (set (deps_of (compute_synthetic_edges pfs tasks) s) \<inter> ts_slug ` set tasks))
      = ?Syn \<inter> UNIV \<times> ts_slug ` set tasks"
    unfolding synthetic_edges_result dict_edges_Image .
  then show "schedule_edges (with_collisions pfs tasks) = all_edges pfs tasks \<inter> UNIV \<times> ts_slug ` set tasks"
    unfolding inject_edges sched E by blast
qed

lemma slug_key_of:
  "distinct (map ts_slug tasks) \<Longrightarrow> t \<in> set tasks \<Longrightarrow>
     slug_sort_key (task_by_slug tasks) (ts_slug t) = bundle_sort_key t"
  using dict_get_by_slug_distinct [of tasks t "\<lambda>t. t"]
  by (simp add: slug_sort_key_def task_by_slug_def bundle_sort_key_def)

lemma trancl_key:
  fixes key :: "'a \<Rightarrow> 'b :: linorder"
  assumes "(a, b) \<in> E\<^sup>+" and "\<And>a b. (a, b) \<in> E \<Longrightarrow> key b < key a"
  shows "key b < key a"
  using assms(1) by (induction rule: trancl_induct) (blast intro: assms(2) less_trans)+

section \<open>Properties\<close>

text \<open>Claims and manifests the examples below run on.\<close>

definition claims_one :: "string \<Rightarrow> preflight_state" where
  "claims_one path = \<lparr>pf_work_type = None, pf_complexity = None, pf_sufficiency = None, pf_likely_files = Some [path]\<rparr>"

definition same_file :: "(string, preflight_state) dict" where
  "same_file = map (\<lambda>s. (s, claims_one ''a.py'')) [''issue-1'', ''issue-2'', ''issue-3'']"

definition issue_story :: "int \<Rightarrow> string \<Rightarrow> string list \<Rightarrow> task_story" where
  "issue_story n slug deps = \<lparr>ts_name = slug, ts_slug = slug, ts_story_text = None, ts_depends_on = deps,
     ts_collision_deps = [], ts_github_issue = Some n\<rparr>"

definition three_stories :: "string list \<Rightarrow> task_story list" where
  "three_stories deps2 = [issue_story 1 ''issue-1'' [], issue_story 2 ''issue-2'' deps2, issue_story 3 ''issue-3'' []]"

text \<open>C5. Adding collision edges never creates a cycle: when the declared dependencies inside the manifest
  have none, neither have the dependencies and collision edges together, whatever the preflight
  claims are. With it the scheduler's progress property applies to the augmented manifest.\<close>

theorem collision_edges_acyclic:
  assumes "distinct (map ts_slug tasks)" and "\<forall>t \<in> set tasks. ts_collision_deps t = []"
    and "acyclic (schedule_edges tasks)"
  shows "acyclic (schedule_edges (inject_synthetic_deps tasks (compute_synthetic_edges pfs tasks)))"
proof -
  note E = with_collisions_edges [OF assms]
  from synthetic_state_ok(1) [OF E(1), of pfs] have "acyclic (all_edges pfs tasks)"
    unfolding edges_ok_def by blast
  then show ?thesis unfolding E(3) by (rule acyclic_subset) auto
qed

theorem collision_edges_acyclic_witness:
  "compute_synthetic_edges same_file (three_stories []) = [(''issue-2'', [''issue-1'']), (''issue-3'', [''issue-2''])] \<and>
    acyclic (schedule_edges (inject_synthetic_deps (three_stories []) (compute_synthetic_edges same_file (three_stories []))))"
proof -
  let ?ts = "three_stories []"
  have d: "distinct (map ts_slug ?ts)" and c: "\<forall>t \<in> set ?ts. ts_collision_deps t = []"
    and e: "schedule_edges ?ts = {}"
    by (simp_all add: three_stories_def issue_story_def schedule_edges_UN)
  have a: "acyclic (schedule_edges ?ts)" unfolding e by (simp add: acyclic_def)
  have "compute_synthetic_edges same_file ?ts = [(''issue-2'', [''issue-1'']), (''issue-3'', [''issue-2''])]"
    by code_simp
  with collision_edges_acyclic [OF d c a, of same_file] show ?thesis by blast
qed

text \<open>C38. Stories that claim the same file are serialised: when the declared dependencies run from later
  to earlier stories in the issue order, any two stories of the manifest whose preflight claims a
  common file are connected by a path, the later one depending on the earlier one, so they are
  never independent in the schedule.\<close>

theorem collisions_serialized:
  assumes "distinct (map ts_slug tasks)" and "\<forall>t \<in> set tasks. ts_collision_deps t = []"
    and "\<forall>t \<in> set tasks. \<forall>u \<in> set tasks. ts_slug u \<in> set (ts_depends_on t) \<longrightarrow> bundle_sort_key u < bundle_sort_key t"
    and "t \<in> set tasks" "u \<in> set tasks" "bundle_sort_key t < bundle_sort_key u"
    and "claims pfs (ts_slug t) path" "claims pfs (ts_slug u) path"
  shows "(ts_slug u, ts_slug t) \<in> (schedule_edges (inject_synthetic_deps tasks (compute_synthetic_edges pfs tasks)))\<^sup>+"
proof -
  let ?key = "slug_sort_key (task_by_slug tasks)" and ?S = "ts_slug ` set tasks"
  let ?F = "fst (collect_files (task_by_slug tasks) pfs [] [])"
  note key = slug_key_of [OF assms(1)]
  have dec: "?key b < ?key a" if "(a, b) \<in> schedule_edges tasks" for a b
    using that assms(2,3) key by (auto simp: schedule_edges_def)
  have "acyclic (schedule_edges tasks)"
    using trancl_key [of _ _ "schedule_edges tasks" ?key, OF _ dec] by (auto simp: acyclic_def)
  note E = with_collisions_edges [OF assms(1,2) this]
  note ok = synthetic_state_ok(1) [OF E(1), of pfs] synthetic_state_ok(2) [OF E(1), where pfs = pfs]
  have dec': "?key b < ?key a" if ab: "(a, b) \<in> all_edges pfs tasks \<inter> UNIV \<times> ?S" for a b
  proof -
    from ab ok(1) [unfolded edges_ok_def] consider "(a, b) \<in> dict_edges (declared_deps tasks)"
      | "(a, b) \<in> dict_edges (es_synthetic (synthetic_state pfs tasks))" by blast
    then show ?thesis
    proof cases
      case 1
      with ab assms(3) show ?thesis unfolding declared_edges [OF assms(1)] by (auto simp: key)
    next
      case 2
      with ok(1) [unfolded edges_ok_def] show ?thesis by blast
    qed
  qed
  from chain_pairs_collision [OF assms(7), of tasks] assms(4) obtain ss where
    ss: "ts_slug t \<in> set ss" "(path, ss) \<in> set ?F" by blast
  from chain_pairs_collision [OF assms(8), of tasks] assms(5) obtain ss' where
    ss': "ts_slug u \<in> set ss'" "(path, ss') \<in> set ?F" by blast
  from ss(2) ss'(2) collect_files_wf [of "[]" "task_by_slug tasks" pfs "[]"] have "ss' = ss"
    by (simp add: eq_key_imp_eq_value)
  let ?xs = "sort_key ?key (remdups ss)" and ?T = "(all_edges pfs tasks \<inter> UNIV \<times> ?S)\<^sup>+"
  have "\<forall>(x, y) \<in> set (chain_pairs ?xs). (y, x) \<in> ?T"
  proof (rule ballI, clarify)
    fix x y assume xy: "(x, y) \<in> set (chain_pairs ?xs)"
    with ss(2) have "(x, y) \<in> set (collision_pairs pfs tasks)"
      by (force simp: collision_pairs_def Let_def case_prod_beta)
    note ord = ok(2) [OF this] and p = collision_pairs_ok [OF this, unfolded pair_ok_def fst_conv snd_conv]
    from p have p: "x \<in> ?S" "y \<in> ?S" "?key x < ?key y" by blast+
    have "(x, y) \<notin> (all_edges pfs tasks)\<^sup>+"
    proof
      assume "(x, y) \<in> (all_edges pfs tasks)\<^sup>+"
      from trancl_key [OF trancl_inside [OF this E(2) p(2)], of ?key] dec' have "?key y < ?key x" by blast
      with p(3) show False by simp
    qed
    with ord trancl_inside [OF _ E(2) p(1)] show "(y, x) \<in> ?T" by (auto simp: ordered_in_def)
  qed
  then have "sorted_wrt (\<lambda>x y. (y, x) \<in> ?T) ?xs" by (rule chain_pairs_trans) simp
  from sorted_wrt_key_member [OF this sort_key_strict [OF slug_sort_key_inj]]
  show ?thesis unfolding E(3) using ss ss' \<open>ss' = ss\<close> assms(4-6) by (simp add: key)
qed

theorem collisions_serialized_witness:
  "claims same_file ''issue-1'' ''a.py'' \<and> claims same_file ''issue-3'' ''a.py'' \<and>
    (''issue-3'', ''issue-1'') \<in>
      (schedule_edges (inject_synthetic_deps (three_stories []) (compute_synthetic_edges same_file (three_stories []))))\<^sup>+"
proof -
  let ?ts = "three_stories []"
  have d: "distinct (map ts_slug ?ts)" and c: "\<forall>t \<in> set ?ts. ts_collision_deps t = []"
    by (simp_all add: three_stories_def issue_story_def)
  have k: "\<forall>t \<in> set ?ts. \<forall>u \<in> set ?ts. ts_slug u \<in> set (ts_depends_on t) \<longrightarrow> bundle_sort_key u < bundle_sort_key t"
    by (simp add: three_stories_def issue_story_def)
  have m: "?ts ! 0 \<in> set ?ts" "?ts ! 2 \<in> set ?ts" "bundle_sort_key (?ts ! 0) < bundle_sort_key (?ts ! 2)"
    by (simp_all add: three_stories_def issue_story_def bundle_sort_key_def)
  have "claims same_file (ts_slug (?ts ! 0)) ''a.py''" "claims same_file (ts_slug (?ts ! 2)) ''a.py''"
    by (simp_all add: claims_def same_file_def claims_one_def claimed_paths_def three_stories_def issue_story_def)
  with collisions_serialized [OF d c k m this] show ?thesis
    by (simp add: three_stories_def issue_story_def)
qed

text \<open>The hypothesis on the direction of declared dependencies cannot be dropped. Edges are added only
  between consecutive claimants, and an edge that would close a cycle is skipped: when the middle
  one of three claimants depends on the last, the first and the last stay unordered, and the
  scheduler offers both at once although both claim the same file.\<close>

theorem collision_gap_when_edge_skipped:
  "claims same_file ''issue-1'' ''a.py'' \<and> claims same_file ''issue-3'' ''a.py'' \<and>
    (\<exists>g. build_dag (inject_synthetic_deps (three_stories [''issue-3'']) (compute_synthetic_edges same_file (three_stories [''issue-3'']))) {} = Inr g
       \<and> map ts_slug (dag_ready g) = [''issue-1'', ''issue-3''])"
proof -
  let ?ts = "inject_synthetic_deps (three_stories [''issue-3'']) (compute_synthetic_edges same_file (three_stories [''issue-3'']))"
  have "build_dag ?ts {} = Inr (new_story_dag ?ts {})" by code_simp
  moreover have "map ts_slug (dag_ready (new_story_dag ?ts {})) = [''issue-1'', ''issue-3'']" by code_simp
  ultimately show ?thesis
    by (auto simp: claims_def same_file_def claims_one_def claimed_paths_def)
qed

text \<open>Nor do edges between consecutive claimants survive the skip of the story in the middle: they are
  soft, so when the middle one of three claimants is marked skipped (a story blocked from outside is,
  before anything runs) the first and the last are offered at once.\<close>

theorem collision_gap_when_middle_skipped:
  "claims same_file ''issue-1'' ''a.py'' \<and> claims same_file ''issue-3'' ''a.py'' \<and>
    (\<exists>g. build_dag (inject_synthetic_deps (three_stories []) (compute_synthetic_edges same_file (three_stories []))) {} = Inr g
       \<and> map ts_slug (dag_ready (mark_skipped ''issue-2'' g)) = [''issue-1'', ''issue-3''])"
proof -
  let ?ts = "inject_synthetic_deps (three_stories []) (compute_synthetic_edges same_file (three_stories []))"
  have "build_dag ?ts {} = Inr (new_story_dag ?ts {})" by code_simp
  moreover have "map ts_slug (dag_ready (mark_skipped ''issue-2'' (new_story_dag ?ts {}))) = [''issue-1'', ''issue-3'']"
    by code_simp
  ultimately show ?thesis
    by (auto simp: claims_def same_file_def claims_one_def claimed_paths_def)
qed

text \<open>A story whose footprint is unknown is never left to race one that claims files: whatever the
  declared dependencies are, as long as they have no cycle, the two are ordered one way or the
  other in the schedule.\<close>

theorem unknown_serialized:
  assumes "distinct (map ts_slug tasks)" and "\<forall>t \<in> set tasks. ts_collision_deps t = []"
    and "acyclic (schedule_edges tasks)"
    and "s \<in> ts_slug ` set tasks" "r \<in> ts_slug ` set tasks"
    and "unknown_footprint pfs s" "claims pfs r path" "s \<noteq> r"
  shows "(s, r) \<in> (schedule_edges (inject_synthetic_deps tasks (compute_synthetic_edges pfs tasks)))\<^sup>+
       \<or> (r, s) \<in> (schedule_edges (inject_synthetic_deps tasks (compute_synthetic_edges pfs tasks)))\<^sup>+"
proof -
  let ?key = "slug_sort_key (task_by_slug tasks)"
  note E = with_collisions_edges [OF assms(1-3)]
  have "s \<in> set (snd (collect_files (task_by_slug tasks) pfs [] []))"
    unfolding collect_files_unknown task_by_slug_known using assms(4,6)
    by (auto simp: unknown_footprint_def dest: map_of_SomeD)
  moreover from assms(7) obtain pf where "(r, pf) \<in> set pfs" "claimed_paths pf \<noteq> []"
    unfolding claims_def by (metis empty_iff empty_set map_of_SomeD)
  moreover from assms(5) have "dict_get (task_by_slug tasks) r \<noteq> None" by (simp only: task_by_slug_known)
  ultimately have "set (key_pair ?key s r) \<subseteq> set (collision_pairs pfs tasks)"
    by (force simp: collision_pairs_def Let_def case_prod_beta)
  then have "(if ?key s \<le> ?key r then (s, r) else (r, s)) \<in> set (collision_pairs pfs tasks)"
    using assms(8) by (simp add: key_pair_def)
  from synthetic_state_ok(2) [OF E(1) this]
  have "(s, r) \<in> (all_edges pfs tasks)\<^sup>+ \<or> (r, s) \<in> (all_edges pfs tasks)\<^sup>+"
    by (auto simp: ordered_in_def split: if_splits)
  then show ?thesis
    unfolding E(3) using trancl_inside [OF _ E(2)] assms(4,5) by blast
qed

theorem unknown_serialized_witness:
  "unknown_footprint [(''issue-1'', claims_one ''a.py''), (''issue-2'', (claims_one ''a.py'')\<lparr>pf_likely_files := None\<rparr>)] ''issue-2'' \<and>
    ((''issue-2'', ''issue-1'') \<in> (schedule_edges (inject_synthetic_deps two_stories (compute_synthetic_edges
        [(''issue-1'', claims_one ''a.py''), (''issue-2'', (claims_one ''a.py'')\<lparr>pf_likely_files := None\<rparr>)] two_stories)))\<^sup>+
     \<or> (''issue-1'', ''issue-2'') \<in> (schedule_edges (inject_synthetic_deps two_stories (compute_synthetic_edges
        [(''issue-1'', claims_one ''a.py''), (''issue-2'', (claims_one ''a.py'')\<lparr>pf_likely_files := None\<rparr>)] two_stories)))\<^sup>+)"
proof -
  let ?p = "[(''issue-1'', claims_one ''a.py''), (''issue-2'', (claims_one ''a.py'')\<lparr>pf_likely_files := None\<rparr>)]"
  have d: "distinct (map ts_slug two_stories)" and c: "\<forall>t \<in> set two_stories. ts_collision_deps t = []"
    and s: "''issue-2'' \<in> ts_slug ` set two_stories" and r: "''issue-1'' \<in> ts_slug ` set two_stories"
    by (simp_all add: two_stories_def)
  have u: "unknown_footprint ?p ''issue-2''" and k: "claims ?p ''issue-1'' ''a.py''"
    by (simp_all add: unknown_footprint_def claims_def claimed_paths_def claims_one_def)
  from unknown_serialized [OF d c two_stories_schedule s r u k] u show ?thesis by simp
qed

end
