(* ===== verification/Story_Grouping.thy ===== *)
theory Story_Grouping
  imports Collision_Edges
begin

text \<open>
  The two ways a sprint runs several stories in one dev pass (\<^verbatim>\<open>sprint/collision.py\<close>): conflict
  bundles (\<^verbatim>\<open>compute_bundle_assignments\<close>, stories that overlap) and cost-aware batch groups
  (\<^verbatim>\<open>compute_batch_groups\<close>, small stories that do not). Both are greedy: a leader is taken in key order
  and the candidates it accepts are added to it.
\<close>

section \<open>Model\<close>

text \<open>What the two hint classes have in common, and each with its own fields.\<close>

record story_hint =
  sh_slug :: string
  sh_work_type :: "string option"
  sh_complexity :: "string option"
  sh_likely_files :: "string list option"
  sh_area :: "string option"

record bundle_hint = story_hint +
  bundle_candidate :: bool

record batch_hint = story_hint +
  bh_sufficiency :: "string option"
  bh_eligible :: bool
  bh_ineligible_reason :: "string option"

definition normalize_area_label :: "string option \<Rightarrow> string option" where
  "normalize_area_label area =
     (case area of
        None \<Rightarrow> None
      | Some a \<Rightarrow> (let n = py_lower (py_strip a) in if n \<noteq> [] then Some n else None))"

fun area_from_lines :: "string list \<Rightarrow> string option" where
  "area_from_lines [] = None"
| "area_from_lines (line # lines) =
     (let stripped = py_strip line
      in if \<not> prefix ''area:'' (py_lower stripped) then area_from_lines lines
         else normalize_area_label (py_split_first (CHR '':'') stripped))"

definition extract_area_label :: "task_story \<Rightarrow> string option" where
  "extract_area_label t = area_from_lines (py_splitlines (case ts_story_text t of None \<Rightarrow> [] | Some s \<Rightarrow> s))"

definition build_bundle_hint :: "task_story \<Rightarrow> preflight_state \<Rightarrow> bundle_hint" where
  "build_bundle_hint t pf =
     \<lparr>sh_slug = ts_slug t, sh_work_type = pf_work_type pf, sh_complexity = pf_complexity pf,
      sh_likely_files = map_option (\<lambda>fs. sort (remdups fs)) (pf_likely_files pf),
      sh_area = extract_area_label t,
      bundle_candidate = (pf_work_type pf \<in> {Some ''bug'', Some ''mechanical''} \<and> pf_complexity pf = Some ''small'')\<rparr>"

definition bundle_overlap :: "'a story_hint_scheme \<Rightarrow> 'b story_hint_scheme \<Rightarrow> bool" where
  "bundle_overlap l r =
     (if sh_area l \<noteq> None \<and> sh_area l = sh_area r then True
      else (case (sh_likely_files l, sh_likely_files r) of
              (Some fs, Some gs) \<Rightarrow> set fs \<inter> set gs \<noteq> {}
            | _ \<Rightarrow> False))"

definition collision_overlap :: "'a story_hint_scheme \<Rightarrow> 'b story_hint_scheme \<Rightarrow> bool" where
  "collision_overlap l r =
     (if sh_area l \<noteq> None \<and> sh_area l = sh_area r then True
      else (case (sh_likely_files l, sh_likely_files r) of
              (Some fs, Some gs) \<Rightarrow> set fs \<inter> set gs \<noteq> {}
            | _ \<Rightarrow> True))"

definition complexity_weight :: "string option \<Rightarrow> int option" where
  "complexity_weight c =
     (if c = Some ''small'' then Some 1 else if c = Some ''medium'' then Some 2
      else if c = Some ''large'' then Some 3 else None)"

text \<open>\<^verbatim>\<open>_complexity_weight(...) or 0\<close>.\<close>

definition weight_or_zero :: "string option \<Rightarrow> int" where
  "weight_or_zero c = (case complexity_weight c of None \<Rightarrow> 0 | Some w \<Rightarrow> w)"

text \<open>
  The greedy loops. The group in hand carries the members, the running total and the combined
  footprint (which only batch groups keep); \<open>accepts\<close> is the conjunction of the negated \<^verbatim>\<open>continue\<close>
  conditions other than the test on \<^verbatim>\<open>used\<close>, and \<open>add\<close> the statements at the end of the loop body.
\<close>

record group_state =
  gs_members :: "string list"
  gs_total :: int
  gs_footprint :: "string set"

fun greedy_fill ::
    "(group_state \<Rightarrow> task_story \<Rightarrow> bool) \<Rightarrow> (task_story \<Rightarrow> group_state \<Rightarrow> group_state)
      \<Rightarrow> task_story list \<Rightarrow> group_state \<Rightarrow> string set \<Rightarrow> group_state \<times> string set" where
  "greedy_fill accepts add [] g used = (g, used)"
| "greedy_fill accepts add (c # cs) g used =
     (if ts_slug c \<in> used \<or> \<not> accepts g c then greedy_fill accepts add cs g used
      else greedy_fill accepts add cs (add c g) (insert (ts_slug c) used))"

fun greedy_groups ::
    "(task_story \<Rightarrow> group_state \<Rightarrow> task_story \<Rightarrow> bool) \<Rightarrow> (task_story \<Rightarrow> group_state \<Rightarrow> group_state)
      \<Rightarrow> (task_story \<Rightarrow> group_state) \<Rightarrow> task_story list \<Rightarrow> task_story list \<Rightarrow> string set \<Rightarrow> string list list" where
  "greedy_groups accepts add start eligible [] used = []"
| "greedy_groups accepts add start eligible (t # ts) used =
     (if ts_slug t \<in> used then greedy_groups accepts add start eligible ts used
      else (case greedy_fill (accepts t) add eligible (start t) (insert (ts_slug t) used) of
              (g, used') \<Rightarrow>
                (if length (gs_members g) > 1 then [gs_members g] else [])
                @ greedy_groups accepts add start eligible ts used'))"

subsection \<open>Conflict bundles\<close>

definition bundle_hints :: "(string, preflight_state) dict \<Rightarrow> task_story list \<Rightarrow> (string, bundle_hint) dict" where
  "bundle_hints preflight_states tasks =
     dict_of (List.map_filter (\<lambda>(slug, pf). map_option (\<lambda>t. (slug, build_bundle_hint t pf))
       (dict_get (task_by_slug tasks) slug)) preflight_states)"

definition bundle_eligible :: "(string, bundle_hint) dict \<Rightarrow> task_story list \<Rightarrow> task_story list" where
  "bundle_eligible hints tasks =
     filter (\<lambda>t. case dict_get hints (ts_slug t) of None \<Rightarrow> False | Some h \<Rightarrow> bundle_candidate h)
       (sort_key bundle_sort_key tasks)"

definition bundle_start :: "(string \<Rightarrow> bundle_hint) \<Rightarrow> task_story \<Rightarrow> group_state" where
  "bundle_start hint t =
     \<lparr>gs_members = [ts_slug t], gs_total = weight_or_zero (sh_complexity (hint (ts_slug t))), gs_footprint = {}\<rparr>"

definition bundle_accepts ::
    "(string \<Rightarrow> bundle_hint) \<Rightarrow> (string \<Rightarrow> task_story) \<Rightarrow> int \<Rightarrow> task_story \<Rightarrow> group_state \<Rightarrow> task_story \<Rightarrow> bool" where
  "bundle_accepts hint story limit t g c =
     (let h = hint (ts_slug t); ch = hint (ts_slug c)
      in sh_work_type ch = sh_work_type h
         \<and> (case complexity_weight (sh_complexity ch) of None \<Rightarrow> False | Some w \<Rightarrow> gs_total g + w \<le> limit)
         \<and> bundle_overlap h ch
         \<and> ts_slug t \<notin> set (ts_depends_on c) \<and> ts_slug c \<notin> set (ts_depends_on t)
         \<and> (\<forall>e \<in> set (gs_members g). e \<notin> set (ts_depends_on c) \<and> ts_slug c \<notin> set (ts_depends_on (story e))))"

definition bundle_add :: "(string \<Rightarrow> bundle_hint) \<Rightarrow> task_story \<Rightarrow> group_state \<Rightarrow> group_state" where
  "bundle_add hint c g = g\<lparr>gs_members := gs_members g @ [ts_slug c],
     gs_total := gs_total g + weight_or_zero (sh_complexity (hint (ts_slug c)))\<rparr>"

text \<open>
  Subscripts \<^verbatim>\<open>hints[slug]\<close> and \<^verbatim>\<open>task_by_slug[slug]\<close> are only evaluated on slugs of eligible stories, which
  are keys of both dictionaries.
\<close>

definition compute_bundle_assignments ::
    "(string, preflight_state) dict \<Rightarrow> task_story list \<Rightarrow> int \<Rightarrow> string list list" where
  "compute_bundle_assignments preflight_states tasks complexity_ceiling =
     (let hints = bundle_hints preflight_states tasks;
          hint = (\<lambda>s. the (dict_get hints s));
          story = (\<lambda>s. the (dict_get (task_by_slug tasks) s));
          eligible = bundle_eligible hints tasks
      in greedy_groups (bundle_accepts hint story complexity_ceiling) (bundle_add hint) (bundle_start hint)
           eligible eligible {})"

subsection \<open>Batch groups\<close>

record sprint_batch_config =
  bc_max_stories :: int
  bc_max_complexity_budget :: int
  bc_max_touched_files :: int

definition or_unknown :: "string option \<Rightarrow> string" where
  "or_unknown s = (case s of None \<Rightarrow> ''unknown'' | Some x \<Rightarrow> if x \<noteq> [] then x else ''unknown'')"

definition batch_ineligible_reason ::
    "string option \<Rightarrow> string option \<Rightarrow> string option \<Rightarrow> string list option \<Rightarrow> int \<Rightarrow> string option" where
  "batch_ineligible_reason complexity work_type sufficiency likely_files max_touched_files =
     (if complexity \<noteq> Some ''small''
      then Some (''complexity='' @ or_unknown complexity @ '' (batching requires small)'')
      else if work_type \<notin> {Some ''bug'', Some ''mechanical''}
      then Some (''work_type='' @ or_unknown work_type @ '' (batching requires bug/mechanical)'')
      else if sufficiency \<noteq> Some ''implementation_ready''
      then Some (''sufficiency='' @ or_unknown sufficiency @ '' (batching requires implementation_ready)'')
      else (case likely_files of
              None \<Rightarrow> Some ''unknown touched-file footprint''
            | Some fs \<Rightarrow>
                if fs = [] then Some ''unknown touched-file footprint''
                else if int (length fs) > max_touched_files
                then Some (''touches '' @ py_str_int (int (length fs)) @ '' files (limit ''
                           @ py_str_int max_touched_files @ '')'')
                else None))"

definition build_batch_hint :: "task_story \<Rightarrow> preflight_state \<Rightarrow> int \<Rightarrow> batch_hint" where
  "build_batch_hint t pf max_touched_files =
     (let likely_files = map_option (\<lambda>fs. sort (remdups fs)) (pf_likely_files pf);
          reason = batch_ineligible_reason (pf_complexity pf) (pf_work_type pf) (pf_sufficiency pf)
                     likely_files max_touched_files
      in \<lparr>sh_slug = ts_slug t, sh_work_type = pf_work_type pf, sh_complexity = pf_complexity pf,
          sh_likely_files = likely_files, sh_area = extract_area_label t,
          bh_sufficiency = pf_sufficiency pf, bh_eligible = (reason = None), bh_ineligible_reason = reason\<rparr>)"

definition batch_group_id :: "string list \<Rightarrow> string py_result" where
  "batch_group_id members = (case members of [] \<Rightarrow> Inl IndexError | m # _ \<Rightarrow> Inr (''batch-'' @ m))"

definition dependency_touched :: "task_story list \<Rightarrow> string set" where
  "dependency_touched tasks =
     fold (\<lambda>t touched. (let edges = ts_depends_on t @ ts_collision_deps t
                        in (if edges \<noteq> [] then insert (ts_slug t) touched else touched) \<union> set edges)) tasks {}"

definition batch_hints ::
    "(string, preflight_state) dict \<Rightarrow> task_story list \<Rightarrow> int \<Rightarrow> (string, batch_hint) dict" where
  "batch_hints preflight_states tasks max_touched_files =
     dict_of (List.map_filter (\<lambda>(slug, pf). map_option (\<lambda>t. (slug, build_batch_hint t pf max_touched_files))
       (dict_get (task_by_slug tasks) slug)) preflight_states)"

definition hint_files :: "batch_hint \<Rightarrow> string set" where
  "hint_files h = (case sh_likely_files h of None \<Rightarrow> {} | Some fs \<Rightarrow> set fs)"

definition batch_start :: "(string \<Rightarrow> batch_hint) \<Rightarrow> task_story \<Rightarrow> group_state" where
  "batch_start hint t =
     \<lparr>gs_members = [ts_slug t], gs_total = weight_or_zero (sh_complexity (hint (ts_slug t))),
      gs_footprint = hint_files (hint (ts_slug t))\<rparr>"

definition batch_accepts ::
    "(string \<Rightarrow> batch_hint) \<Rightarrow> sprint_batch_config \<Rightarrow> task_story \<Rightarrow> group_state \<Rightarrow> task_story \<Rightarrow> bool" where
  "batch_accepts hint cfg t g c =
     (let ch = hint (ts_slug c)
      in int (length (gs_members g)) < bc_max_stories cfg
         \<and> (case complexity_weight (sh_complexity ch) of None \<Rightarrow> False
              | Some w \<Rightarrow> gs_total g + w \<le> bc_max_complexity_budget cfg)
         \<and> int (card (gs_footprint g \<union> hint_files ch)) \<le> bc_max_touched_files cfg
         \<and> (\<forall>m \<in> set (gs_members g). \<not> bundle_overlap (hint m) ch))"

definition batch_add :: "(string \<Rightarrow> batch_hint) \<Rightarrow> task_story \<Rightarrow> group_state \<Rightarrow> group_state" where
  "batch_add hint c g = g\<lparr>gs_members := gs_members g @ [ts_slug c],
     gs_total := gs_total g + weight_or_zero (sh_complexity (hint (ts_slug c))),
     gs_footprint := gs_footprint g \<union> hint_files (hint (ts_slug c))\<rparr>"

definition batch_eligible ::
    "(string, batch_hint) dict \<Rightarrow> string set \<Rightarrow> task_story list \<Rightarrow> task_story list" where
  "batch_eligible hints excluded tasks =
     filter (\<lambda>t. ts_slug t \<notin> excluded \<and> ts_slug t \<notin> dependency_touched tasks
               \<and> (case dict_get hints (ts_slug t) of None \<Rightarrow> False | Some h \<Rightarrow> bh_eligible h))
       (sort_key bundle_sort_key tasks)"

definition compute_batch_groups ::
    "(string, preflight_state) dict \<Rightarrow> task_story list \<Rightarrow> sprint_batch_config option \<Rightarrow> string set \<Rightarrow> string list list" where
  "compute_batch_groups preflight_states tasks batch_config excluded =
     (case batch_config of
        None \<Rightarrow> []
      | Some cfg \<Rightarrow>
          if bc_max_stories cfg < 2 then []
          else (let hints = batch_hints preflight_states tasks (bc_max_touched_files cfg);
                    hint = (\<lambda>s. the (dict_get hints s));
                    eligible = batch_eligible hints excluded tasks
                in greedy_groups (batch_accepts hint cfg) (batch_add hint) (batch_start hint) eligible eligible {}))"

section \<open>The interface of a greedy grouping\<close>

text \<open>
  What the two loops rely on: a leader alone satisfies the group invariant and an accepted candidate
  keeps it. The client lemmas say of every group that it satisfies the invariant of its leader, and
  that no story is in two groups.
\<close>

locale greedy_grouping =
  fixes accepts :: "task_story \<Rightarrow> group_state \<Rightarrow> task_story \<Rightarrow> bool"
    and add :: "task_story \<Rightarrow> group_state \<Rightarrow> group_state"
    and start :: "task_story \<Rightarrow> group_state"
    and ok :: "task_story \<Rightarrow> bool"
    and inv :: "task_story \<Rightarrow> group_state \<Rightarrow> bool"
  assumes members_start: "gs_members (start t) = [ts_slug t]"
    and members_add: "gs_members (add c g) = gs_members g @ [ts_slug c]"
    and start_inv: "ok t \<Longrightarrow> inv t (start t)"
    and add_inv: "ok t \<Longrightarrow> ok c \<Longrightarrow> inv t g \<Longrightarrow> accepts t g c \<Longrightarrow> inv t (add c g)"
begin

lemma fill_result:
  assumes "greedy_fill (accepts t) add cs g used = (g', used')" and "inv t g" and "ok t" and "\<forall>c \<in> set cs. ok c"
  shows "inv t g' \<and> (\<exists>new. gs_members g' = gs_members g @ new \<and> distinct new \<and> set new \<inter> used = {}
     \<and> used' = used \<union> set new \<and> set new \<subseteq> ts_slug ` set cs)"
  using assms(1,2,4)
proof (induction cs arbitrary: g used)
  case (Cons c cs)
  show ?case
  proof (cases "ts_slug c \<in> used \<or> \<not> accepts t g c")
    case True
    with Cons.prems Cons.IH [of g used] show ?thesis by auto
  next
    case False
    with Cons.prems have "greedy_fill (accepts t) add cs (add c g) (insert (ts_slug c) used) = (g', used')" by simp
    moreover have "inv t (add c g)" using False Cons.prems assms(3) by (intro add_inv) auto
    ultimately obtain new where "inv t g'" "gs_members g' = gs_members (add c g) @ new" "distinct new"
      "set new \<inter> insert (ts_slug c) used = {}" "used' = insert (ts_slug c) used \<union> set new"
      "set new \<subseteq> ts_slug ` set cs"
      using Cons.IH Cons.prems(3) by force
    with False show ?thesis by (intro conjI exI [of _ "ts_slug c # new"]) (auto simp: members_add)
  qed
qed auto

lemma groups_result:
  assumes "\<forall>c \<in> set eligible. ok c" and "set ts \<subseteq> set eligible"
  shows "distinct (concat (greedy_groups accepts add start eligible ts used))
     \<and> set (concat (greedy_groups accepts add start eligible ts used)) \<inter> used = {}
     \<and> (\<forall>ms \<in> set (greedy_groups accepts add start eligible ts used).
          length ms > 1 \<and> set ms \<subseteq> ts_slug ` set eligible
          \<and> (\<exists>t \<in> set eligible. \<exists>g. gs_members g = ms \<and> inv t g))"
  using assms(2)
proof (induction ts arbitrary: used)
  case (Cons t ts)
  show ?case
  proof (cases "ts_slug t \<in> used")
    case True
    with Cons show ?thesis by auto
  next
    case False
    obtain g used' where f: "greedy_fill (accepts t) add eligible (start t) (insert (ts_slug t) used) = (g, used')"
      by force
    from Cons.prems assms(1) have t: "t \<in> set eligible" "ok t" by auto
    from fill_result [OF f start_inv [OF t(2)] t(2) assms(1)] obtain new where g: "inv t g"
      "gs_members g = ts_slug t # new" "distinct new" "set new \<inter> insert (ts_slug t) used = {}"
      "used' = insert (ts_slug t) used \<union> set new" "set new \<subseteq> ts_slug ` set eligible"
      by (auto simp: members_start)
    let ?rest = "greedy_groups accepts add start eligible ts used'"
    have IH: "distinct (concat ?rest)" "set (concat ?rest) \<inter> used' = {}"
      "\<forall>ms \<in> set ?rest. length ms > 1 \<and> set ms \<subseteq> ts_slug ` set eligible
          \<and> (\<exists>t \<in> set eligible. \<exists>g. gs_members g = ms \<and> inv t g)"
      using Cons.IH [of used'] Cons.prems by auto
    have res: "greedy_groups accepts add start eligible (t # ts) used =
        (if length (gs_members g) > 1 then [gs_members g] else []) @ ?rest"
      using False f by simp
    have "distinct (gs_members g)" "set (gs_members g) \<subseteq> ts_slug ` set eligible"
      "set (gs_members g) \<inter> used = {}" "set (gs_members g) \<subseteq> used'" "used \<subseteq> used'"
      using g t False by auto
    with IH g(1) t(1) show ?thesis unfolding res by (cases "length (gs_members g) > 1") auto
  qed
qed simp

end

section \<open>Bundles\<close>

definition hint_weight :: "(string \<Rightarrow> 'a story_hint_scheme) \<Rightarrow> string \<Rightarrow> int" where
  "hint_weight hint s = weight_or_zero (sh_complexity (hint s))"

definition bundle_inv ::
    "(string \<Rightarrow> bundle_hint) \<Rightarrow> (string \<Rightarrow> task_story) \<Rightarrow> int \<Rightarrow> task_story \<Rightarrow> group_state \<Rightarrow> bool" where
  "bundle_inv hint story limit t g \<longleftrightarrow>
     (\<exists>new. gs_members g = ts_slug t # new
        \<and> (\<forall>m \<in> set new. sh_work_type (hint m) = sh_work_type (hint (ts_slug t)) \<and> bundle_overlap (hint (ts_slug t)) (hint m)))
     \<and> gs_total g = sum_list (map (hint_weight hint) (gs_members g))
     \<and> (length (gs_members g) > 1 \<longrightarrow> gs_total g \<le> limit)
     \<and> (\<forall>a \<in> set (gs_members g). \<forall>b \<in> set (gs_members g). a \<noteq> b \<longrightarrow> a \<notin> set (ts_depends_on (story b)))"

interpretation bundles: greedy_grouping "bundle_accepts hint story limit" "bundle_add hint" "bundle_start hint"
    "\<lambda>t. story (ts_slug t) = t" "bundle_inv hint story limit" for hint story limit
proof (unfold_locales, goal_cases)
  case (4 t c g)
  then obtain new where new: "gs_members g = ts_slug t # new" by (auto simp: bundle_inv_def)
  have w: "weight_or_zero (sh_complexity (hint (ts_slug c))) + gs_total g \<le> limit"
    using 4(4) by (auto simp: bundle_accepts_def weight_or_zero_def Let_def split: option.splits)
  have acc: "sh_work_type (hint (ts_slug c)) = sh_work_type (hint (ts_slug t))"
    "bundle_overlap (hint (ts_slug t)) (hint (ts_slug c))"
    "\<forall>e \<in> set (gs_members g). e \<notin> set (ts_depends_on c) \<and> ts_slug c \<notin> set (ts_depends_on (story e))"
    using 4(4) by (simp_all add: bundle_accepts_def Let_def)
  with 4 w new show ?case by (auto simp: bundle_inv_def bundle_add_def hint_weight_def)
qed (auto simp: bundle_start_def bundle_add_def bundle_inv_def hint_weight_def)

lemma story_of_slug:
  "distinct (map ts_slug tasks) \<Longrightarrow> t \<in> set tasks \<Longrightarrow> the (dict_get (task_by_slug tasks) (ts_slug t)) = t"
  by (simp add: task_by_slug_def dict_get_by_slug_distinct)

section \<open>Batch groups\<close>

definition batch_inv :: "(string \<Rightarrow> batch_hint) \<Rightarrow> sprint_batch_config \<Rightarrow> task_story \<Rightarrow> group_state \<Rightarrow> bool" where
  "batch_inv hint cfg t g \<longleftrightarrow>
     ts_slug t \<in> set (gs_members g)
     \<and> gs_total g = sum_list (map (hint_weight hint) (gs_members g))
     \<and> gs_footprint g = (\<Union>m \<in> set (gs_members g). hint_files (hint m))
     \<and> (length (gs_members g) > 1 \<longrightarrow> int (length (gs_members g)) \<le> bc_max_stories cfg
          \<and> gs_total g \<le> bc_max_complexity_budget cfg \<and> int (card (gs_footprint g)) \<le> bc_max_touched_files cfg)
     \<and> sorted_wrt (\<lambda>a b. \<not> bundle_overlap (hint a) (hint b)) (gs_members g)"

lemma bundle_overlap_sym: "bundle_overlap l r \<longleftrightarrow> bundle_overlap r l"
  by (auto simp: bundle_overlap_def Int_commute split: option.splits)

interpretation batches: greedy_grouping "batch_accepts hint cfg" "batch_add hint" "batch_start hint"
    "\<lambda>t. True" "batch_inv hint cfg" for hint cfg
proof (unfold_locales, goal_cases)
  case (4 t c g)
  have acc: "int (length (gs_members g)) < bc_max_stories cfg"
    "int (card (gs_footprint g \<union> hint_files (hint (ts_slug c)))) \<le> bc_max_touched_files cfg"
    "\<forall>m \<in> set (gs_members g). \<not> bundle_overlap (hint m) (hint (ts_slug c))"
    using 4(4) by (simp_all add: batch_accepts_def Let_def)
  have w: "gs_total g + weight_or_zero (sh_complexity (hint (ts_slug c))) \<le> bc_max_complexity_budget cfg"
    using 4(4) by (auto simp: batch_accepts_def weight_or_zero_def Let_def split: option.splits)
  from 4(3) acc w show ?case
    by (auto simp: batch_inv_def batch_add_def hint_weight_def sorted_wrt_append Un_commute)
qed (auto simp: batch_start_def batch_add_def batch_inv_def hint_weight_def)

lemma dependency_touched_iff:
  "s \<in> dependency_touched tasks \<longleftrightarrow>
     (\<exists>t \<in> set tasks. (ts_slug t = s \<and> ts_depends_on t @ ts_collision_deps t \<noteq> [])
        \<or> s \<in> set (ts_depends_on t @ ts_collision_deps t))"
proof -
  let ?f = "\<lambda>t touched. (let edges = ts_depends_on t @ ts_collision_deps t
                        in (if edges \<noteq> [] then insert (ts_slug t) touched else touched) \<union> set edges)"
  have "s \<in> fold ?f ts X \<longleftrightarrow> s \<in> X \<or> (\<exists>t \<in> set ts. (ts_slug t = s \<and> ts_depends_on t @ ts_collision_deps t \<noteq> [])
        \<or> s \<in> set (ts_depends_on t @ ts_collision_deps t))" for ts X
    by (induction ts arbitrary: X) (auto simp: Let_def)
  from this [of tasks "{}"] show ?thesis unfolding dependency_touched_def by (simp only: empty_iff simp_thms)
qed

lemma batch_eligible_sub: "set (batch_eligible hints excluded tasks) \<subseteq> set tasks"
  by (auto simp: batch_eligible_def)

lemma batch_hints_Some:
  assumes "dict_get (batch_hints pfs tasks mx) s = Some h"
  shows "\<exists>t pf. (s, pf) \<in> set pfs \<and> h = build_batch_hint t pf mx"
  using map_of_SomeD [OF assms [unfolded batch_hints_def dict_get_of]]
  by (auto simp: map_filter_def) blast

lemma batch_hint_eligible:
  assumes "bh_eligible (build_batch_hint t pf mx)"
  shows "\<exists>fs. pf_likely_files pf = Some fs \<and> pf_complexity pf = Some ''small''
    \<and> pf_work_type pf \<in> {Some ''bug'', Some ''mechanical''} \<and> pf_sufficiency pf = Some ''implementation_ready''
    \<and> 0 < card (set fs) \<and> int (card (set fs)) \<le> mx"
proof (cases "pf_likely_files pf")
  case None
  with assms show ?thesis
    by (auto simp: build_batch_hint_def Let_def batch_ineligible_reason_def split: if_splits)
next
  case (Some fs)
  with assms show ?thesis
    by (auto simp: build_batch_hint_def Let_def batch_ineligible_reason_def length_remdups_card_conv card_gt_0_iff
        split: if_splits)
qed

lemma batch_members_eligible:
  assumes "compute_batch_groups pfs tasks (Some cfg) excluded = groups" and "b \<in> set groups"
  shows "set b \<subseteq> ts_slug ` set (batch_eligible (batch_hints pfs tasks (bc_max_touched_files cfg)) excluded tasks)"
proof -
  let ?h = "\<lambda>s. the (dict_get (batch_hints pfs tasks (bc_max_touched_files cfg)) s)"
  let ?el = "batch_eligible (batch_hints pfs tasks (bc_max_touched_files cfg)) excluded tasks"
  have "groups = [] \<or> groups = greedy_groups (batch_accepts ?h cfg) (batch_add ?h) (batch_start ?h) ?el ?el {}"
    using assms(1) by (auto simp: compute_batch_groups_def Let_def)
  with assms(2) batches.groups_result [of ?el ?el ?h cfg "{}"] show ?thesis by auto
qed

section \<open>Properties\<close>

abbreviation bundle_hint_of :: "(string, preflight_state) dict \<Rightarrow> task_story list \<Rightarrow> string \<Rightarrow> bundle_hint" where
  "bundle_hint_of pfs tasks \<equiv> \<lambda>s. the (dict_get (bundle_hints pfs tasks) s)"

abbreviation batch_hint_of ::
    "(string, preflight_state) dict \<Rightarrow> task_story list \<Rightarrow> sprint_batch_config \<Rightarrow> string \<Rightarrow> batch_hint" where
  "batch_hint_of pfs tasks cfg \<equiv> \<lambda>s. the (dict_get (batch_hints pfs tasks (bc_max_touched_files cfg)) s)"

text \<open>Claims the examples below run on: the first and the third story touch the same file.\<close>

definition ready_bug :: "string \<Rightarrow> preflight_state" where
  "ready_bug path = \<lparr>pf_work_type = Some ''bug'', pf_complexity = Some ''small'',
     pf_sufficiency = Some ''implementation_ready'', pf_likely_files = Some [path]\<rparr>"

definition ready_bugs :: "(string, preflight_state) dict" where
  "ready_bugs = [(''issue-1'', ready_bug ''a.py''), (''issue-2'', ready_bug ''b.py''), (''issue-3'', ready_bug ''a.py'')]"

definition batch_of_three :: sprint_batch_config where
  "batch_of_three = \<lparr>bc_max_stories = 3, bc_max_complexity_budget = 3, bc_max_touched_files = 6\<rparr>"

text \<open>Conflict bundles are sound: no story is in two of them; each has at least two stories of the
  manifest, all small and of the leader's work type, each overlapping the leader; the total weight
  stays within the ceiling; and no member depends on another, so a shared dev pass breaks no
  declared order.\<close>

theorem bundle_assignments_sound:
  fixes pfs :: "(string, preflight_state) dict"
  assumes "distinct (map ts_slug tasks)" and h_def: "h = bundle_hint_of pfs tasks"
  shows "distinct (concat (compute_bundle_assignments pfs tasks limit)) \<and>
    (\<forall>b \<in> set (compute_bundle_assignments pfs tasks limit).
       length b > 1 \<and> set b \<subseteq> ts_slug ` set tasks
       \<and> (\<forall>s \<in> set b. bundle_candidate (h s))
       \<and> (\<forall>s \<in> set (tl b). sh_work_type (h s) = sh_work_type (h (hd b)) \<and> bundle_overlap (h (hd b)) (h s))
       \<and> sum_list (map (hint_weight h) b) \<le> limit
       \<and> (\<forall>t \<in> set tasks. \<forall>u \<in> set tasks. ts_slug t \<in> set b \<and> ts_slug u \<in> set b \<and> t \<noteq> u \<longrightarrow>
            ts_slug u \<notin> set (ts_depends_on t)))"
proof -
  let ?story = "\<lambda>s. the (dict_get (task_by_slug tasks) s)"
  let ?el = "bundle_eligible (bundle_hints pfs tasks) tasks"
  have sub: "set ?el \<subseteq> set tasks" by (auto simp: bundle_eligible_def)
  have cand: "bundle_candidate (h (ts_slug t))" if "t \<in> set ?el" for t
    using that by (auto simp: bundle_eligible_def h_def split: option.splits)
  have ok: "\<forall>c \<in> set ?el. ?story (ts_slug c) = c" using sub story_of_slug [OF assms(1)] by auto
  have comp: "compute_bundle_assignments pfs tasks limit =
      greedy_groups (bundle_accepts h ?story limit) (bundle_add h) (bundle_start h) ?el ?el {}"
    by (simp add: compute_bundle_assignments_def Let_def h_def)
  note res = bundles.groups_result [OF ok subset_refl, of h limit "{}", folded comp]
  moreover have "set b \<subseteq> ts_slug ` set tasks \<and> (\<forall>s \<in> set b. bundle_candidate (h s))
       \<and> (\<forall>s \<in> set (tl b). sh_work_type (h s) = sh_work_type (h (hd b)) \<and> bundle_overlap (h (hd b)) (h s))
       \<and> sum_list (map (hint_weight h) b) \<le> limit
       \<and> (\<forall>t \<in> set tasks. \<forall>u \<in> set tasks. ts_slug t \<in> set b \<and> ts_slug u \<in> set b \<and> t \<noteq> u \<longrightarrow>
            ts_slug u \<notin> set (ts_depends_on t))"
    if b: "b \<in> set (compute_bundle_assignments pfs tasks limit)" for b
  proof -
    from res b obtain t g where g: "length b > 1" "set b \<subseteq> ts_slug ` set ?el" "gs_members g = b"
      "bundle_inv h ?story limit t g" by blast
    from g(3,4) have indep: "\<forall>a \<in> set b. \<forall>c \<in> set b. a \<noteq> c \<longrightarrow> a \<notin> set (ts_depends_on (?story c))"
      unfolding bundle_inv_def by blast
    have dep: "ts_slug u \<notin> set (ts_depends_on v)"
      if "v \<in> set tasks" "u \<in> set tasks" "ts_slug v \<in> set b" "ts_slug u \<in> set b" "v \<noteq> u" for v u
    proof -
      from that assms(1) have "ts_slug u \<noteq> ts_slug v" by (auto simp: distinct_map dest: inj_onD)
      with indep that(3,4) story_of_slug [OF assms(1) that(1)] show ?thesis by metis
    qed
    show ?thesis using g sub cand dep by (auto simp: bundle_inv_def)
  qed
  ultimately show ?thesis by blast
qed

theorem bundle_assignments_sound_witness:
  "compute_bundle_assignments ready_bugs (three_stories []) 5 = [[''issue-1'', ''issue-3'']]
    \<and> bundle_overlap (bundle_hint_of ready_bugs (three_stories []) ''issue-1'')
         (bundle_hint_of ready_bugs (three_stories []) ''issue-3'')"
proof -
  have d: "distinct (map ts_slug (three_stories []))" by (simp add: three_stories_def issue_story_def)
  have e: "compute_bundle_assignments ready_bugs (three_stories []) 5 = [[''issue-1'', ''issue-3'']]" by code_simp
  from bundle_assignments_sound [OF d refl, of ready_bugs 5] show ?thesis unfolding e by simp
qed

text \<open>Batch groups keep every limit: no story is in two groups and none was claimed by a conflict
  bundle; a group has at least two members and at most \<^verbatim>\<open>max_stories\<close>, its weight is within the
  budget, its combined footprint within \<^verbatim>\<open>max_touched_files\<close>, and no two members overlap.\<close>

theorem batch_groups_within_limits:
  assumes "compute_batch_groups pfs tasks (Some cfg) excluded = groups" and h_def: "h = batch_hint_of pfs tasks cfg"
  shows "distinct (concat groups) \<and> set (concat groups) \<subseteq> ts_slug ` set tasks - excluded \<and>
    (\<forall>b \<in> set groups. 1 < length b \<and> int (length b) \<le> bc_max_stories cfg
       \<and> sum_list (map (hint_weight h) b) \<le> bc_max_complexity_budget cfg
       \<and> int (card (\<Union>s \<in> set b. hint_files (h s))) \<le> bc_max_touched_files cfg
       \<and> sorted_wrt (\<lambda>s r. \<not> bundle_overlap (h s) (h r)) b)"
proof (cases "bc_max_stories cfg < 2")
  case True
  with assms(1) show ?thesis by (simp add: compute_batch_groups_def)
next
  case False
  let ?el = "batch_eligible (batch_hints pfs tasks (bc_max_touched_files cfg)) excluded tasks"
  have "groups = greedy_groups (batch_accepts h cfg) (batch_add h) (batch_start h) ?el ?el {}"
    using False assms(1) by (simp add: compute_batch_groups_def Let_def h_def)
  note res = batches.groups_result [of ?el ?el h cfg "{}", folded this, simplified]
  have el: "ts_slug ` set ?el \<subseteq> ts_slug ` set tasks - excluded" by (auto simp: batch_eligible_def)
  have "1 < length b \<and> int (length b) \<le> bc_max_stories cfg
       \<and> sum_list (map (hint_weight h) b) \<le> bc_max_complexity_budget cfg
       \<and> int (card (\<Union>s \<in> set b. hint_files (h s))) \<le> bc_max_touched_files cfg
       \<and> sorted_wrt (\<lambda>s r. \<not> bundle_overlap (h s) (h r)) b" if "b \<in> set groups" for b
  proof -
    from res that obtain t g where "Suc 0 < length b" "gs_members g = b" "batch_inv h cfg t g" by blast
    then show ?thesis by (auto simp: batch_inv_def)
  qed
  moreover have "set (concat groups) \<subseteq> ts_slug ` set tasks - excluded"
    unfolding set_concat UN_subset_iff using res el by blast
  ultimately show ?thesis using res by simp
qed

theorem batch_groups_within_limits_witness:
  "compute_batch_groups ready_bugs (three_stories []) (Some batch_of_three) {} = [[''issue-1'', ''issue-2'']]
    \<and> \<not> bundle_overlap (batch_hint_of ready_bugs (three_stories []) batch_of_three ''issue-1'')
         (batch_hint_of ready_bugs (three_stories []) batch_of_three ''issue-2'')"
proof -
  have e: "compute_batch_groups ready_bugs (three_stories []) (Some batch_of_three) {} = [[''issue-1'', ''issue-2'']]"
    by code_simp
  from batch_groups_within_limits [OF e refl] e show ?thesis by simp
qed

text \<open>Batch groups are subordinate to the dependency order: a member of a group depends on nothing and
  no story of the manifest depends on it, by declaration or by a collision edge, and the preflight
  of each member passed every eligibility gate (small, bug or mechanical, implementation ready,
  a known footprint of at most \<^verbatim>\<open>max_touched_files\<close> files).\<close>

theorem batch_groups_outside_order:
  assumes "compute_batch_groups pfs tasks (Some cfg) excluded = groups"
    and "b \<in> set groups" and "t \<in> set tasks" and "ts_slug t \<in> set b"
  shows "ts_depends_on t = [] \<and> ts_collision_deps t = []
    \<and> (\<forall>u \<in> set tasks. ts_slug t \<notin> set (ts_depends_on u @ ts_collision_deps u))
    \<and> (\<exists>pf fs. (ts_slug t, pf) \<in> set pfs \<and> pf_likely_files pf = Some fs
         \<and> pf_complexity pf = Some ''small'' \<and> pf_work_type pf \<in> {Some ''bug'', Some ''mechanical''}
         \<and> pf_sufficiency pf = Some ''implementation_ready''
         \<and> 0 < card (set fs) \<and> int (card (set fs)) \<le> bc_max_touched_files cfg)"
proof -
  let ?H = "batch_hints pfs tasks (bc_max_touched_files cfg)"
  from batch_members_eligible [OF assms(1,2)] assms(4) obtain u where
    u: "u \<in> set (batch_eligible ?H excluded tasks)" "ts_slug u = ts_slug t" by auto
  then have nt: "ts_slug t \<notin> dependency_touched tasks" by (auto simp: batch_eligible_def)
  from u obtain h where h: "dict_get ?H (ts_slug t) = Some h" "bh_eligible h"
    by (cases "dict_get ?H (ts_slug t)") (auto simp: batch_eligible_def)
  from batch_hints_Some [OF h(1)] obtain v pf where pf: "(ts_slug t, pf) \<in> set pfs"
    "h = build_batch_hint v pf (bc_max_touched_files cfg)" by blast
  from batch_hint_eligible [OF h(2) [unfolded pf(2)]] pf(1) nt assms(3) show ?thesis
    unfolding dependency_touched_iff by auto
qed

theorem batch_groups_outside_order_witness:
  "compute_batch_groups ready_bugs (three_stories []) (Some batch_of_three) {} = [[''issue-1'', ''issue-2'']]
    \<and> ts_depends_on (three_stories [] ! 0) = []
    \<and> (\<exists>pf. (ts_slug (three_stories [] ! 0), pf) \<in> set ready_bugs \<and> pf_complexity pf = Some ''small'')"
proof -
  have e: "compute_batch_groups ready_bugs (three_stories []) (Some batch_of_three) {} = [[''issue-1'', ''issue-2'']]"
    by code_simp
  have b: "[''issue-1'', ''issue-2''] \<in> set [[''issue-1'', ''issue-2'']]" by simp
  have t: "three_stories [] ! 0 \<in> set (three_stories [])"
    and s: "ts_slug (three_stories [] ! 0) \<in> set [''issue-1'', ''issue-2'']"
    by (simp_all add: three_stories_def issue_story_def)
  from batch_groups_outside_order [OF e b t s] e show ?thesis by blast
qed

text \<open>A story that found no partner as a leader is rightly never offered as one: whatever it refused, and
  was refused by budget, footprint or overlap, would refuse it too, alone or with more members.\<close>

theorem lone_leader_stays_alone:
  assumes "batch_inv hint cfg u g"
    and "2 \<le> bc_max_stories cfg"
    and "complexity_weight (sh_complexity (hint (ts_slug t))) = Some 1"
    and "\<forall>m \<in> set (gs_members g). complexity_weight (sh_complexity (hint m)) = Some 1"
    and "finite (gs_footprint g)"
    and "\<not> batch_accepts hint cfg t (batch_start hint t) u"
  shows "\<not> batch_accepts hint cfg u g t"
proof
  assume acc: "batch_accepts hint cfg u g t"
  from assms(1) have u: "ts_slug u \<in> set (gs_members g)"
    and tot: "gs_total g = sum_list (map (hint_weight hint) (gs_members g))"
    and foot: "gs_footprint g = (\<Union>m \<in> set (gs_members g). hint_files (hint m))"
    by (auto simp: batch_inv_def)
  have one: "map (hint_weight hint) (gs_members g) = map (\<lambda>_. 1) (gs_members g)"
    using assms(4) by (auto simp: hint_weight_def weight_or_zero_def)
  have "gs_members g \<noteq> []" using u by auto
  then have "1 \<le> gs_total g" unfolding tot one by (cases "gs_members g") (simp_all add: sum_list_triv)
  moreover have "card (hint_files (hint (ts_slug t)) \<union> hint_files (hint (ts_slug u)))
      \<le> card (gs_footprint g \<union> hint_files (hint (ts_slug t)))"
    using u foot assms(5) by (intro card_mono) (auto simp: hint_files_def split: option.splits)
  ultimately have "batch_accepts hint cfg t (batch_start hint t) u"
    using acc assms(2-4) u bundle_overlap_sym [of "hint (ts_slug t)"]
    by (auto simp: batch_accepts_def batch_start_def Let_def weight_or_zero_def)
  with assms(6) show False by blast
qed

theorem lone_leader_stays_alone_witness:
  "\<exists>t u. \<not> batch_accepts (batch_hint_of ready_bugs (three_stories []) batch_of_three) batch_of_three t
        (batch_start (batch_hint_of ready_bugs (three_stories []) batch_of_three) t) u
    \<and> \<not> batch_accepts (batch_hint_of ready_bugs (three_stories []) batch_of_three) batch_of_three u
        (batch_start (batch_hint_of ready_bugs (three_stories []) batch_of_three) u) t"
proof -
  let ?h = "batch_hint_of ready_bugs (three_stories []) batch_of_three"
  let ?t = "three_stories [] ! 0" and ?u = "three_stories [] ! 2"
  have i: "batch_inv ?h batch_of_three ?u (batch_start ?h ?u)" by (rule batches.start_inv) simp
  have n: "2 \<le> bc_max_stories batch_of_three" by (simp add: batch_of_three_def)
  have w: "complexity_weight (sh_complexity (?h (ts_slug ?t))) = Some 1"
    "complexity_weight (sh_complexity (?h (ts_slug ?u))) = Some 1" by code_simp+
  have m: "\<forall>m \<in> set (gs_members (batch_start ?h ?u)). complexity_weight (sh_complexity (?h m)) = Some 1"
    using w(2) by (simp add: batch_start_def)
  have f: "finite (gs_footprint (batch_start ?h ?u))"
    by (simp add: batch_start_def hint_files_def split: option.splits)
  have r: "\<not> batch_accepts ?h batch_of_three ?t (batch_start ?h ?t) ?u" by code_simp
  from lone_leader_stays_alone [OF i n w(1) m f r] r show ?thesis by blast
qed

end
