(* ===== verification/Story_State.thy ===== *)
theory Story_State
  imports Story_DAG
begin

text \<open>
  The canonical story state of a sprint (\<^verbatim>\<open>sprint/story_state.py\<close>): outcomes, the per-story entry, the
  container with its registrations and transitions, the projections every operator surface reads,
  and the saved form. Values whose type the code does not check are dynamic values. Every method of
  the container runs under its lock, so a history of calls is a sequence.
\<close>

section \<open>Identity of a story\<close>

abbreviation or_empty :: "string option \<Rightarrow> string" where
  "or_empty s \<equiv> (case s of None \<Rightarrow> [] | Some x \<Rightarrow> x)"

definition issue_number_for :: "string option \<Rightarrow> string option \<Rightarrow> string option \<Rightarrow> int option py_result" where
  "issue_number_for canonical_ref slug path =
     (let ref = py_strip (or_empty canonical_ref)
      in if prefix ''issue:'' ref
         then (let number = py_strip (the (py_split_first (CHR '':'') ref))
               in if py_str_isdigit number then py_bind (py_int_of_digits number) (\<lambda>n. Inr (Some n)) else Inr None)
         else if ref \<noteq> [] then Inr None
         else (let number = py_removeprefix ''issue-'' (py_strip (or_empty slug))
               in if py_str_isdigit number then py_bind (py_int_of_digits number) (\<lambda>n. Inr (Some n))
                  else (let legacy = py_strip (or_empty path);
                            rest = py_strip (drop (length ''Issue #'') legacy)
                        in if prefix ''Issue #'' legacy \<and> py_str_isdigit rest
                           then py_bind (py_int_of_digits rest) (\<lambda>n. Inr (Some n))
                           else Inr None)))"

definition issue_reference_label :: "string option \<Rightarrow> string option \<Rightarrow> string option" where
  "issue_reference_label canonical_ref slug =
     (let ref = py_strip (or_empty canonical_ref)
      in if prefix ''issue:'' ref
         then (let number = py_strip (the (py_split_first (CHR '':'') ref))
               in if number \<noteq> [] then Some (''Issue #'' @ number) else None)
         else if ref \<noteq> [] then None
         else (let number = py_removeprefix ''issue-'' (py_strip (or_empty slug))
               in if py_str_isdigit number then Some (''Issue #'' @ number) else None))"

definition story_title :: "string option \<Rightarrow> string option \<Rightarrow> string option \<Rightarrow> string" where
  "story_title title canonical_ref slug =
     (case issue_reference_label canonical_ref slug of
        None \<Rightarrow> (let r = py_strip (or_empty canonical_ref) in if r \<noteq> [] then r else or_empty slug)
      | Some reference \<Rightarrow>
          (let cleaned = py_join '' '' (py_split (or_empty title))
           in if cleaned \<noteq> [] \<and> cleaned \<noteq> reference then cleaned else reference))"

section \<open>Outcomes\<close>

datatype story_outcome =
    WAITING | RUNNING | BLOCKED | DONE | ALREADY_DONE | FAILED | MERGE_FAILED | MERGE_ARMING_FAILED
  | ESCALATED | SKIPPED | PRESERVED | DROPPED | DROPPED_SHAPE | REMEDIATED | DROPPED_AFTER_FIX
  | INTAKE_OPERATOR_REVIEW | OPERATOR_ACTION | DECOMPOSED

fun outcome_value :: "story_outcome \<Rightarrow> string" where
  "outcome_value WAITING = ''waiting''"
| "outcome_value RUNNING = ''running''"
| "outcome_value BLOCKED = ''blocked''"
| "outcome_value DONE = ''done''"
| "outcome_value ALREADY_DONE = ''already_done''"
| "outcome_value FAILED = ''failed''"
| "outcome_value MERGE_FAILED = ''merge_failed''"
| "outcome_value MERGE_ARMING_FAILED = ''merge_arming_failed''"
| "outcome_value ESCALATED = ''escalated''"
| "outcome_value SKIPPED = ''skipped''"
| "outcome_value PRESERVED = ''preserved''"
| "outcome_value DROPPED = ''dropped''"
| "outcome_value DROPPED_SHAPE = ''dropped_shape''"
| "outcome_value REMEDIATED = ''remediated''"
| "outcome_value DROPPED_AFTER_FIX = ''dropped_after_fix''"
| "outcome_value INTAKE_OPERATOR_REVIEW = ''intake_operator_review''"
| "outcome_value OPERATOR_ACTION = ''operator_action''"
| "outcome_value DECOMPOSED = ''decomposed''"

fun outcome_name :: "story_outcome \<Rightarrow> string" where
  "outcome_name WAITING = ''WAITING''"
| "outcome_name RUNNING = ''RUNNING''"
| "outcome_name BLOCKED = ''BLOCKED''"
| "outcome_name DONE = ''DONE''"
| "outcome_name ALREADY_DONE = ''ALREADY_DONE''"
| "outcome_name FAILED = ''FAILED''"
| "outcome_name MERGE_FAILED = ''MERGE_FAILED''"
| "outcome_name MERGE_ARMING_FAILED = ''MERGE_ARMING_FAILED''"
| "outcome_name ESCALATED = ''ESCALATED''"
| "outcome_name SKIPPED = ''SKIPPED''"
| "outcome_name PRESERVED = ''PRESERVED''"
| "outcome_name DROPPED = ''DROPPED''"
| "outcome_name DROPPED_SHAPE = ''DROPPED_SHAPE''"
| "outcome_name REMEDIATED = ''REMEDIATED''"
| "outcome_name DROPPED_AFTER_FIX = ''DROPPED_AFTER_FIX''"
| "outcome_name INTAKE_OPERATOR_REVIEW = ''INTAKE_OPERATOR_REVIEW''"
| "outcome_name OPERATOR_ACTION = ''OPERATOR_ACTION''"
| "outcome_name DECOMPOSED = ''DECOMPOSED''"

definition terminal_outcomes :: "story_outcome list" where
  "terminal_outcomes = [DONE, ALREADY_DONE, FAILED, MERGE_FAILED, MERGE_ARMING_FAILED, ESCALATED, SKIPPED,
     PRESERVED, DROPPED, DROPPED_SHAPE, DROPPED_AFTER_FIX, OPERATOR_ACTION, INTAKE_OPERATOR_REVIEW, DECOMPOSED]"

definition is_terminal :: "story_outcome \<Rightarrow> bool" where
  "is_terminal x = (x \<in> set terminal_outcomes)"

definition is_succeeded :: "story_outcome \<Rightarrow> bool" where
  "is_succeeded x = (x \<in> {DONE, ALREADY_DONE})"

definition is_failed :: "story_outcome \<Rightarrow> bool" where
  "is_failed x = (x \<in> {FAILED, MERGE_FAILED, MERGE_ARMING_FAILED, ESCALATED, DROPPED, DROPPED_SHAPE, DROPPED_AFTER_FIX})"

definition is_skipped :: "story_outcome \<Rightarrow> bool" where
  "is_skipped x = (x \<in> {SKIPPED, PRESERVED, OPERATOR_ACTION, INTAKE_OPERATOR_REVIEW, DECOMPOSED})"

fun legacy_status :: "story_outcome \<Rightarrow> string" where
  "legacy_status WAITING = ''waiting''"
| "legacy_status RUNNING = ''running''"
| "legacy_status BLOCKED = ''blocked''"
| "legacy_status DONE = ''done''"
| "legacy_status ALREADY_DONE = ''done''"
| "legacy_status FAILED = ''failed''"
| "legacy_status MERGE_FAILED = ''failed''"
| "legacy_status MERGE_ARMING_FAILED = ''failed''"
| "legacy_status ESCALATED = ''failed''"
| "legacy_status SKIPPED = ''skipped''"
| "legacy_status PRESERVED = ''preserved''"
| "legacy_status DROPPED = ''failed''"
| "legacy_status DROPPED_SHAPE = ''failed''"
| "legacy_status DROPPED_AFTER_FIX = ''failed''"
| "legacy_status REMEDIATED = ''waiting''"
| "legacy_status OPERATOR_ACTION = ''operator-action''"
| "legacy_status INTAKE_OPERATOR_REVIEW = ''intake-operator-review''"
| "legacy_status DECOMPOSED = ''decomposed''"

definition status_to_outcome :: "(string, story_outcome) dict" where
  "status_to_outcome =
     [(''waiting'', WAITING), (''running'', RUNNING), (''blocked'', BLOCKED), (''done'', DONE),
      (''already_done'', ALREADY_DONE), (''failed'', FAILED), (''merge_failed'', MERGE_FAILED),
      (''merge_arming_failed'', MERGE_ARMING_FAILED), (''escalated'', ESCALATED), (''escalate'', ESCALATED),
      (''skipped'', SKIPPED), (''preserved'', PRESERVED), (''dropped'', DROPPED),
      (''dropped_shape'', DROPPED_SHAPE), (''remediated'', REMEDIATED), (''dropped_after_fix'', DROPPED_AFTER_FIX),
      (''operator_action'', OPERATOR_ACTION), (''operator-action'', OPERATOR_ACTION),
      (''intake_operator_review'', INTAKE_OPERATOR_REVIEW), (''intake-operator-review'', INTAKE_OPERATOR_REVIEW),
      (''decomposed'', DECOMPOSED)]"

text \<open>The argument of \<^verbatim>\<open>coerce_outcome\<close>: a member of the enumeration or any other value.\<close>

datatype outcome_arg =
    OutcomeEnum story_outcome
  | OutcomeValue pyval

definition status_outcome :: "string \<Rightarrow> story_outcome option" where
  "status_outcome s = dict_get status_to_outcome (py_lower (py_strip s))"

definition coerce_outcome :: "outcome_arg \<Rightarrow> story_outcome" where
  "coerce_outcome value =
     (case value of
        OutcomeEnum x \<Rightarrow> x
      | OutcomeValue (PStr s) \<Rightarrow> (case status_outcome s of Some x \<Rightarrow> x | None \<Rightarrow> WAITING)
      | OutcomeValue _ \<Rightarrow> WAITING)"

definition landing_failure_outcome :: "pydict option \<Rightarrow> story_outcome" where
  "landing_failure_outcome merge_info =
     (let m = (case merge_info of None \<Rightarrow> [] | Some d \<Rightarrow> d)
      in if py_truthy (py_get m ''inherited_dev_residue'') then ESCALATED
         else if py_truthy (py_get m ''arming_failed'') then MERGE_ARMING_FAILED
         else MERGE_FAILED)"

section \<open>The entry of a story\<close>

record story_entry =
  se_slug :: string
  se_path :: pyval
  se_outcome :: story_outcome
  se_phase :: pyval
  se_cost_usd :: "rat option"
  se_bundle_candidate :: bool
  se_batch_group :: pyval
  se_blocked_by :: "pyval list"
  se_complexity :: pyval
  se_complexity_score :: pyval
  se_detail :: pydict
  se_reason :: pyval
  se_canonical_ref :: pyval
  se_depends_on :: "pyval list"
  se_extras :: pydict
  se_failure_history :: "pydict list"

definition new_entry :: "string \<Rightarrow> pyval \<Rightarrow> story_outcome \<Rightarrow> story_entry" where
  "new_entry slug path outcome =
     \<lparr>se_slug = slug, se_path = path, se_outcome = outcome, se_phase = PNone, se_cost_usd = Some 0,
      se_bundle_candidate = False, se_batch_group = PNone, se_blocked_by = [], se_complexity = PNone,
      se_complexity_score = PNone, se_detail = [], se_reason = PNone, se_canonical_ref = PNone,
      se_depends_on = [], se_extras = [], se_failure_history = []\<rparr>"

definition same_cause :: "pydict \<Rightarrow> pydict \<Rightarrow> bool" where
  "same_cause existing cause \<longleftrightarrow>
     py_eq (py_get existing ''run_id'') (py_get cause ''run_id'')
     \<and> py_eq (py_get existing ''kind'') (py_get cause ''kind'')
     \<and> py_eq (py_get existing ''cause'') (py_get cause ''cause'')"

definition record_failure_cause :: "pydict \<Rightarrow> story_entry \<Rightarrow> story_entry" where
  "record_failure_cause cause e =
     (if list_ex (\<lambda>existing. same_cause existing cause) (se_failure_history e) then e
      else (let recorded = dict_set ''attempt'' (PInt (int (length (se_failure_history e)) + 1))
                             (filter (\<lambda>(k, v). k \<noteq> ''attempt'') cause)
            in e\<lparr>se_failure_history := se_failure_history e @ [recorded]\<rparr>))"

text \<open>The detail a saved entry shows: \<^verbatim>\<open>merged_detail\<close> of \<^verbatim>\<open>as_dict\<close>.\<close>

definition same_bucket :: "story_outcome \<Rightarrow> story_outcome \<Rightarrow> bool" where
  "same_bucket x y \<longleftrightarrow> is_succeeded x = is_succeeded y \<and> is_failed x = is_failed y \<and> is_skipped x = is_skipped y"

definition final_outcome_detail :: "story_outcome \<Rightarrow> pydict \<Rightarrow> pydict" where
  "final_outcome_detail outcome d =
     (let existing_outcome = (case py_get d ''final_outcome'' of PStr s \<Rightarrow> status_outcome s | _ \<Rightarrow> None)
      in if (case existing_outcome of None \<Rightarrow> False | Some x \<Rightarrow> same_bucket x outcome) then d
         else dict_set ''final_outcome'' (PStr (outcome_name outcome)) d)"

definition merged_detail :: "story_outcome \<Rightarrow> pydict \<Rightarrow> pydict" where
  "merged_detail outcome detail =
     (if is_terminal outcome
      then (let d1 = final_outcome_detail outcome detail;
                d2 = (if is_succeeded outcome then d1
                      else dict_pop ''review_p2'' (dict_pop ''review_p1'' (dict_pop ''review_verdict'' d1)))
            in if py_get d2 ''gate_status'' = PStr ''running''
               then dict_set ''gate_status'' (PStr ''incomplete'') d2 else d2)
      else detail)"

definition cost_value :: "rat option \<Rightarrow> pyval" where
  "cost_value c = (case c of None \<Rightarrow> PNone | Some r \<Rightarrow> PFloat r)"

definition entry_fields :: "story_entry \<Rightarrow> pydict" where
  "entry_fields e =
     [(''slug'', PStr (se_slug e)), (''path'', se_path e), (''status'', PStr (legacy_status (se_outcome e))),
      (''outcome'', PStr (outcome_value (se_outcome e))), (''phase'', se_phase e),
      (''cost_usd'', cost_value (se_cost_usd e)), (''bundle_candidate'', PBool (se_bundle_candidate e)),
      (''batch_group'', se_batch_group e), (''blocked_by'', PList (se_blocked_by e)),
      (''complexity'', se_complexity e), (''complexity_score'', se_complexity_score e),
      (''detail'', PDict (merged_detail (se_outcome e) (se_detail e))), (''reason'', se_reason e),
      (''canonical_ref'', se_canonical_ref e), (''depends_on'', PList (se_depends_on e))]"

definition add_missing :: "string \<times> pyval \<Rightarrow> pydict \<Rightarrow> pydict" where
  "add_missing kv d = (if dict_get d (fst kv) = None then dict_set (fst kv) (snd kv) d else d)"

definition entry_as_dict :: "story_entry \<Rightarrow> pydict" where
  "entry_as_dict e =
     (let d = entry_fields e;
          d1 = (if se_failure_history e \<noteq> []
                then dict_set ''failure_history'' (PList (map PDict (se_failure_history e))) d else d)
      in fold add_missing (se_extras e) d1)"

section \<open>The container\<close>

type_synonym sprint_state = "(string, story_entry) dict"

text \<open>The keyword arguments of \<^verbatim>\<open>register\<close>.\<close>

record register_args =
  ra_outcome :: outcome_arg
  ra_phase :: pyval
  ra_cost_usd :: "rat option"
  ra_bundle_candidate :: bool
  ra_batch_group :: pyval
  ra_blocked_by :: "pyval list option"
  ra_complexity :: pyval
  ra_complexity_score :: pyval
  ra_detail :: "pydict option"
  ra_reason :: pyval
  ra_canonical_ref :: pyval
  ra_depends_on :: "pyval list option"

abbreviation unless_none :: "pyval \<Rightarrow> pyval \<Rightarrow> pyval" where
  "unless_none new old \<equiv> (if new \<noteq> PNone then new else old)"

definition update_registered :: "pyval \<Rightarrow> register_args \<Rightarrow> story_entry \<Rightarrow> story_entry" where
  "update_registered path a e =
     e\<lparr>se_path := path,
       se_phase := unless_none (ra_phase a) (se_phase e),
       se_cost_usd := (case ra_cost_usd a of None \<Rightarrow> None | Some c \<Rightarrow> if c \<noteq> 0 then Some c else se_cost_usd e),
       se_bundle_candidate := ra_bundle_candidate a,
       se_batch_group := unless_none (ra_batch_group a) (se_batch_group e),
       se_blocked_by := (case ra_blocked_by a of None \<Rightarrow> se_blocked_by e | Some xs \<Rightarrow> xs),
       se_complexity := unless_none (ra_complexity a) (se_complexity e),
       se_complexity_score := unless_none (ra_complexity_score a) (se_complexity_score e),
       se_detail := (case ra_detail a of None \<Rightarrow> se_detail e | Some d \<Rightarrow> d),
       se_reason := unless_none (ra_reason a) (se_reason e),
       se_canonical_ref := unless_none (ra_canonical_ref a) (se_canonical_ref e),
       se_depends_on := (case ra_depends_on a of None \<Rightarrow> se_depends_on e | Some xs \<Rightarrow> xs)\<rparr>"

definition register :: "string \<Rightarrow> pyval \<Rightarrow> register_args \<Rightarrow> sprint_state \<Rightarrow> sprint_state" where
  "register slug path a st =
     (let entry = (case dict_get st slug of
                     None \<Rightarrow> new_entry slug path (coerce_outcome (ra_outcome a))
                   | Some e \<Rightarrow>
                       (let new_outcome = coerce_outcome (ra_outcome a)
                        in if \<not> is_terminal (se_outcome e) \<or> new_outcome = se_outcome e
                           then e\<lparr>se_outcome := new_outcome\<rparr> else e))
      in dict_set slug (update_registered path a entry) st)"

definition run_scoped_detail_keys :: "string list" where
  "run_scoped_detail_keys = [''preflight_degraded'', ''preflight_degraded_reason'', ''preflight_failure_action'',
     ''preflight_risk_signals'', ''complexity_source'']"

definition replace_detail :: "pydict \<Rightarrow> pydict \<Rightarrow> pydict" where
  "replace_detail v old =
     dict_merge (filter (\<lambda>(k, x). k \<in> set run_scoped_detail_keys \<and> dict_get v k = None) old) v"

definition record_cause_value :: "pyval \<Rightarrow> story_entry \<Rightarrow> story_entry" where
  "record_cause_value v e =
     (case v of PDict d \<Rightarrow> if d \<noteq> [] then record_failure_cause d e else e | _ \<Rightarrow> e)"

text \<open>One iteration of the loop over \<^verbatim>\<open>fields\<close>; a known key with a value of the wrong type falls through to the extras.\<close>

definition set_extra :: "string \<Rightarrow> pyval \<Rightarrow> story_entry \<Rightarrow> story_entry" where
  "set_extra k v e = e\<lparr>se_extras := dict_set k v (se_extras e)\<rparr>"

definition apply_field :: "string \<times> pyval \<Rightarrow> story_entry \<Rightarrow> story_entry" where
  "apply_field kv e =
     (case kv of (k, v) \<Rightarrow>
       if k = ''phase'' \<and> (case v of PStr _ \<Rightarrow> True | PNone \<Rightarrow> True | _ \<Rightarrow> False) then e\<lparr>se_phase := v\<rparr>
       else if k = ''cost_usd'' then
         (case v of PInt i \<Rightarrow> e\<lparr>se_cost_usd := Some (of_int i)\<rparr> | PFloat r \<Rightarrow> e\<lparr>se_cost_usd := Some r\<rparr>
                  | PNone \<Rightarrow> e\<lparr>se_cost_usd := None\<rparr> | _ \<Rightarrow> e)
       else if k = ''blocked_by'' then (case v of PList xs \<Rightarrow> e\<lparr>se_blocked_by := xs\<rparr> | _ \<Rightarrow> set_extra k v e)
       else if k = ''batch_group'' then e\<lparr>se_batch_group := v\<rparr>
       else if k = ''complexity'' then e\<lparr>se_complexity := v\<rparr>
       else if k = ''complexity_score'' then
         (case v of PInt _ \<Rightarrow> e\<lparr>se_complexity_score := v\<rparr> | PBool _ \<Rightarrow> e\<lparr>se_complexity_score := v\<rparr>
                  | PNone \<Rightarrow> e\<lparr>se_complexity_score := PNone\<rparr> | _ \<Rightarrow> e)
       else if k = ''detail'' then
         (case v of PDict d \<Rightarrow> e\<lparr>se_detail := replace_detail d (se_detail e)\<rparr> | _ \<Rightarrow> set_extra k v e)
       else if k = ''detail_updates'' then
         (case v of PDict d \<Rightarrow> e\<lparr>se_detail := dict_merge (se_detail e) d\<rparr> | _ \<Rightarrow> set_extra k v e)
       else if k = ''failure_cause'' then record_cause_value v e
       else if k = ''failure_history'' then
         (case v of PList xs \<Rightarrow> fold record_cause_value xs e | _ \<Rightarrow> e)
       else if k = ''reason'' then e\<lparr>se_reason := v\<rparr>
       else if k = ''depends_on'' then (case v of PList xs \<Rightarrow> e\<lparr>se_depends_on := xs\<rparr> | _ \<Rightarrow> set_extra k v e)
       else set_extra k v e)"

text \<open>The two guards, on the outcome asked for: the outcome to store and whether it was rejected.\<close>

definition guarded_outcome :: "story_entry \<Rightarrow> story_outcome \<Rightarrow> story_outcome \<times> bool" where
  "guarded_outcome e new_outcome =
     (if is_terminal (se_outcome e) \<and> \<not> is_terminal new_outcome then (se_outcome e, True)
      else if is_terminal (se_outcome e) \<and> py_truthy (py_get (se_extras e) ''landed'') \<and> new_outcome \<noteq> DONE
      then (se_outcome e, True)
      else (new_outcome, False))"

definition transition_entry :: "outcome_arg option \<Rightarrow> pydict \<Rightarrow> story_entry \<Rightarrow> story_entry" where
  "transition_entry outcome kwargs e =
     (case outcome of
        None \<Rightarrow> fold apply_field kwargs e
      | Some a \<Rightarrow>
         (case guarded_outcome e (coerce_outcome a) of (new_outcome, outcome_rejected) \<Rightarrow>
            let e1 = e\<lparr>se_outcome := new_outcome\<rparr>
            in if outcome_rejected then e1 else fold apply_field kwargs e1))"

definition transition :: "string \<Rightarrow> outcome_arg option \<Rightarrow> pydict \<Rightarrow> sprint_state \<Rightarrow> sprint_state" where
  "transition slug outcome kwargs st =
     (case dict_get st slug of
        None \<Rightarrow> st
      | Some e \<Rightarrow> dict_set slug (transition_entry outcome kwargs e) st)"

record story_counts =
  sc_total :: nat
  sc_succeeded :: nat
  sc_failed :: nat
  sc_skipped :: nat

definition count_entry :: "story_entry \<Rightarrow> story_counts \<Rightarrow> story_counts" where
  "count_entry e c =
     (if is_succeeded (se_outcome e) then c\<lparr>sc_succeeded := sc_succeeded c + 1\<rparr>
      else if is_failed (se_outcome e) then c\<lparr>sc_failed := sc_failed c + 1\<rparr>
      else if is_skipped (se_outcome e) then c\<lparr>sc_skipped := sc_skipped c + 1\<rparr>
      else c)"

definition counts :: "sprint_state \<Rightarrow> story_counts" where
  "counts st = fold count_entry (map snd st)
     \<lparr>sc_total = length st, sc_succeeded = 0, sc_failed = 0, sc_skipped = 0\<rparr>"

definition state_as_dict :: "sprint_state \<Rightarrow> pydict list" where
  "state_as_dict st = map (\<lambda>(s, e). entry_as_dict e) st"

subsection \<open>Reading a saved state\<close>

text \<open>
  \<^verbatim>\<open>list(v or [])\<close>: lists, the keys of a dictionary, the characters of a string; other truthy values
  are not iterable. \<^verbatim>\<open>dict(v or {})\<close> is modelled for dictionaries and falsy values; building a
  dictionary from any other iterable is treated as the error it normally is.
\<close>

definition py_list_or_empty :: "pyval \<Rightarrow> pyval list py_result" where
  "py_list_or_empty v =
     (if \<not> py_truthy v then Inr []
      else (case v of
              PList xs \<Rightarrow> Inr xs
            | PStr s \<Rightarrow> Inr (map (\<lambda>c. PStr [c]) s)
            | PDict d \<Rightarrow> Inr (map (\<lambda>(k, x). PStr k) d)
            | _ \<Rightarrow> Inl (ValueError ''object is not iterable'')))"

definition py_dict_or_empty :: "pyval \<Rightarrow> pydict py_result" where
  "py_dict_or_empty v =
     (if \<not> py_truthy v then Inr []
      else (case v of PDict d \<Rightarrow> Inr d | _ \<Rightarrow> Inl (ValueError ''cannot convert to dict'')))"

definition saved_cost :: "pydict \<Rightarrow> rat option" where
  "saved_cost d =
     (case dict_get d ''cost_usd'' of
        Some (PInt i) \<Rightarrow> Some (of_int i)
      | Some (PFloat r) \<Rightarrow> Some r
      | Some _ \<Rightarrow> None
      | None \<Rightarrow> Some 0)"

definition saved_outcome :: "pydict \<Rightarrow> pyval" where
  "saved_outcome d =
     (if py_truthy (py_get d ''outcome'') then py_get d ''outcome''
      else if py_truthy (py_get d ''status'') then py_get d ''status''
      else PStr ''waiting'')"

definition entry_keys :: "string list" where
  "entry_keys = [''failure_history'', ''slug'', ''path'', ''outcome'', ''status'', ''phase'', ''cost_usd'',
     ''bundle_candidate'', ''batch_group'', ''blocked_by'', ''complexity'', ''complexity_score'', ''detail'',
     ''reason'', ''canonical_ref'', ''depends_on'']"

definition saved_args :: "pydict \<Rightarrow> register_args py_result" where
  "saved_args d =
     py_bind (py_list_or_empty (py_get d ''blocked_by'')) (\<lambda>blocked.
     py_bind (py_dict_or_empty (py_get d ''detail'')) (\<lambda>detail.
     py_bind (py_list_or_empty (py_get d ''depends_on'')) (\<lambda>depends.
       Inr \<lparr>ra_outcome = OutcomeValue (saved_outcome d), ra_phase = py_get d ''phase'',
            ra_cost_usd = saved_cost d, ra_bundle_candidate = py_truthy (py_get d ''bundle_candidate''),
            ra_batch_group = py_get d ''batch_group'', ra_blocked_by = Some blocked,
            ra_complexity = py_get d ''complexity'',
            ra_complexity_score = (case py_get d ''complexity_score'' of PInt i \<Rightarrow> PInt i | PBool b \<Rightarrow> PBool b | _ \<Rightarrow> PNone),
            ra_detail = Some detail, ra_reason = py_get d ''reason'',
            ra_canonical_ref = py_get d ''canonical_ref'', ra_depends_on = Some depends\<rparr>)))"

definition record_saved_cause :: "pyval \<Rightarrow> story_entry \<Rightarrow> story_entry" where
  "record_saved_cause v e = (case v of PDict d \<Rightarrow> record_failure_cause d e | _ \<Rightarrow> e)"

definition restore_entry :: "pydict \<Rightarrow> pyval list \<Rightarrow> story_entry \<Rightarrow> story_entry" where
  "restore_entry d causes e =
     fold (\<lambda>(k, v). set_extra k v) (filter (\<lambda>(k, v). k \<notin> set entry_keys) d) (fold record_saved_cause causes e)"

definition load_story :: "pydict \<Rightarrow> sprint_state \<Rightarrow> sprint_state py_result" where
  "load_story d st =
     (case py_get d ''slug'' of
        PStr slug \<Rightarrow>
          if slug = [] then Inr st
          else py_bind (saved_args d) (\<lambda>a.
               py_bind (py_list_or_empty (py_get d ''failure_history'')) (\<lambda>causes.
                 let path = (case dict_get d ''path'' of None \<Rightarrow> PStr slug | Some p \<Rightarrow> p);
                     st1 = register slug path a st
                 in Inr (dict_set slug (restore_entry d causes (the (dict_get st1 slug))) st1)))
      | _ \<Rightarrow> Inr st)"

fun state_from_dict_acc :: "pydict list \<Rightarrow> sprint_state \<Rightarrow> sprint_state py_result" where
  "state_from_dict_acc [] st = Inr st"
| "state_from_dict_acc (d # ds) st = py_bind (load_story d st) (state_from_dict_acc ds)"

text \<open>A record whose slug is neither a string nor falsy is never written by the code and is outside the model.\<close>

definition state_from_dict :: "pydict list \<Rightarrow> sprint_state py_result" where
  "state_from_dict raw = state_from_dict_acc raw []"

section \<open>One call\<close>

text \<open>Outcomes: the buckets partition the terminal outcomes, and the saved forms read back.\<close>

lemma terminal_buckets: "is_terminal x \<longleftrightarrow> is_succeeded x \<or> is_failed x \<or> is_skipped x"
  and buckets_disjoint: "\<not> (is_succeeded x \<and> is_failed x)" "\<not> (is_succeeded x \<and> is_skipped x)" "\<not> (is_failed x \<and> is_skipped x)"
  by (cases x; simp add: is_terminal_def terminal_outcomes_def is_succeeded_def is_failed_def is_skipped_def)+

definition all_outcomes :: "story_outcome list" where
  "all_outcomes = [WAITING, RUNNING, BLOCKED, REMEDIATED] @ terminal_outcomes"

lemma all_outcomes: "x \<in> set all_outcomes"
  by (cases x) (simp_all add: all_outcomes_def terminal_outcomes_def)

lemma value_normal: "py_lower (py_strip (outcome_value x)) = outcome_value x"
proof -
  have "list_all (\<lambda>x. py_lower (py_strip (outcome_value x)) = outcome_value x) all_outcomes" by code_simp
  then show ?thesis using all_outcomes [of x] by (simp add: list_all_iff)
qed

lemma name_normal: "py_lower (py_strip (outcome_name x)) = outcome_value x"
proof -
  have "list_all (\<lambda>x. py_lower (py_strip (outcome_name x)) = outcome_value x) all_outcomes" by code_simp
  then show ?thesis using all_outcomes [of x] by (simp add: list_all_iff)
qed

lemma value_status: "dict_get status_to_outcome (outcome_value x) = Some x"
proof -
  have "list_all (\<lambda>x. dict_get status_to_outcome (outcome_value x) = Some x) all_outcomes" by code_simp
  then show ?thesis using all_outcomes [of x] by (simp add: list_all_iff)
qed

lemma status_outcome_value: "status_outcome (outcome_value x) = Some x"
  and status_outcome_name: "status_outcome (outcome_name x) = Some x"
  by (simp_all only: status_outcome_def value_normal name_normal value_status)

text \<open>What one field of a transition can do to an entry.\<close>

lemma apply_field_cases:
  assumes "P e" and "\<And>v. P (e\<lparr>se_phase := v\<rparr>)" and "\<And>c. P (e\<lparr>se_cost_usd := c\<rparr>)"
    and "\<And>xs. P (e\<lparr>se_blocked_by := xs\<rparr>)" and "\<And>v. P (e\<lparr>se_batch_group := v\<rparr>)"
    and "\<And>v. P (e\<lparr>se_complexity := v\<rparr>)"
    and "\<And>v. v = PNone \<or> (\<exists>i. v = PInt i) \<or> (\<exists>b. v = PBool b) \<Longrightarrow> P (e\<lparr>se_complexity_score := v\<rparr>)"
    and "\<And>d. P (e\<lparr>se_detail := d\<rparr>)" and "\<And>xs. P (fold record_cause_value xs e)"
    and "\<And>v. P (e\<lparr>se_reason := v\<rparr>)" and "\<And>xs. P (e\<lparr>se_depends_on := xs\<rparr>)"
    and "fst kv \<noteq> ''failure_history'' \<Longrightarrow> P (set_extra (fst kv) (snd kv) e)"
  shows "P (apply_field kv e)"
proof -
  obtain k v where kv: "kv = (k, v)" by force
  have one: "P (record_cause_value v e)" for v using assms(9) [of "[v]"] by simp
  have "k \<noteq> ''failure_history'' \<longrightarrow> P (set_extra k v e)" using assms(12) by (simp add: kv)
  then show ?thesis
    unfolding kv apply_field_def prod.case
    apply (cases v)
    apply (simp_all only: pyval.case)
    apply (intro if_intro [where P = P];
        (rule assms(1-6) assms(8-11) one | (rule assms(7), simp; fail) | (erule mp, simp; fail)))+
    done
qed

lemma record_cause_frame [simp]:
  "se_outcome (record_failure_cause c e) = se_outcome e" "se_slug (record_failure_cause c e) = se_slug e"
  "se_extras (record_failure_cause c e) = se_extras e"
  "se_complexity_score (record_failure_cause c e) = se_complexity_score e"
  by (simp_all add: record_failure_cause_def Let_def)

lemma record_value_frame [simp]:
  "se_outcome (record_cause_value v e) = se_outcome e" "se_slug (record_cause_value v e) = se_slug e"
  "se_extras (record_cause_value v e) = se_extras e"
  "se_complexity_score (record_cause_value v e) = se_complexity_score e"
  by (simp_all add: record_cause_value_def split: pyval.split)

lemma record_values_frame [simp]:
  "se_outcome (fold record_cause_value vs e) = se_outcome e" "se_slug (fold record_cause_value vs e) = se_slug e"
  "se_extras (fold record_cause_value vs e) = se_extras e"
  "se_complexity_score (fold record_cause_value vs e) = se_complexity_score e"
  by (induction vs arbitrary: e) simp_all

lemma set_extra_frame [simp]:
  "se_outcome (set_extra k v e) = se_outcome e" "se_slug (set_extra k v e) = se_slug e"
  "se_complexity_score (set_extra k v e) = se_complexity_score e"
  "se_failure_history (set_extra k v e) = se_failure_history e"
  "se_extras (set_extra k v e) = dict_set k v (se_extras e)"
  by (simp_all add: set_extra_def)

lemma apply_field_outcome [simp]: "se_outcome (apply_field kv e) = se_outcome e"
  and apply_field_slug [simp]: "se_slug (apply_field kv e) = se_slug e"
  by (rule apply_field_cases; simp)+

lemma apply_fields_outcome [simp]: "se_outcome (fold apply_field kvs e) = se_outcome e"
  and apply_fields_slug [simp]: "se_slug (fold apply_field kvs e) = se_slug e"
  by (induction kvs arbitrary: e) simp_all

lemma update_registered_frame [simp]:
  "se_outcome (update_registered p a e) = se_outcome e" "se_slug (update_registered p a e) = se_slug e"
  "se_extras (update_registered p a e) = se_extras e"
  "se_failure_history (update_registered p a e) = se_failure_history e"
  by (simp_all add: update_registered_def)

lemma transition_entry_outcome:
  "se_outcome (transition_entry a kvs e) =
     (case a of None \<Rightarrow> se_outcome e | Some x \<Rightarrow> fst (guarded_outcome e (coerce_outcome x)))"
  by (simp add: transition_entry_def Let_def split: option.split prod.split)

lemma guarded_terminal: "is_terminal (se_outcome e) \<Longrightarrow> is_terminal (fst (guarded_outcome e x))"
  by (simp add: guarded_outcome_def)

section \<open>Any sequence of calls\<close>

datatype state_op =
    Register string pyval register_args
  | Transition string "outcome_arg option" pydict

fun state_step :: "state_op \<Rightarrow> sprint_state \<Rightarrow> sprint_state" where
  "state_step (Register s p a) st = register s p a st"
| "state_step (Transition s a kvs) st = transition s a kvs st"

text \<open>
  A call changes at most the entry of its slug; a property of one entry that registering again and
  transitioning keep is a property of every later state.
\<close>

definition registered_entry :: "pyval \<Rightarrow> register_args \<Rightarrow> story_entry \<Rightarrow> story_entry" where
  "registered_entry p a e = update_registered p a
     (let x = coerce_outcome (ra_outcome a)
      in if \<not> is_terminal (se_outcome e) \<or> x = se_outcome e then e\<lparr>se_outcome := x\<rparr> else e)"

fun op_slug :: "state_op \<Rightarrow> string" where
  "op_slug (Register s p a) = s"
| "op_slug (Transition s a kvs) = s"

fun entry_step :: "state_op \<Rightarrow> story_entry \<Rightarrow> story_entry" where
  "entry_step (Register s p a) e = registered_entry p a e"
| "entry_step (Transition s a kvs) e = transition_entry a kvs e"

lemma state_step_get:
  "dict_get st s = Some e \<Longrightarrow> dict_get (state_step x st) s = Some (if op_slug x = s then entry_step x e else e)"
  by (cases x) (auto simp: register_def transition_def registered_entry_def Let_def split: option.split)

lemma state_step_new:
  "dict_get st s = None \<Longrightarrow> dict_get (state_step x st) s =
     (case x of Register r p a \<Rightarrow> if r = s then Some (update_registered p a (new_entry s p (coerce_outcome (ra_outcome a)))) else None
              | Transition r a kvs \<Rightarrow> None)"
  by (cases x) (auto simp: register_def transition_def Let_def split: option.split)

lemma state_step_wf: "dict_wf st \<Longrightarrow> dict_wf (state_step x st)"
  by (cases x) (auto simp: register_def transition_def Let_def split: option.split)

lemma registered_outcome: "is_terminal (se_outcome e) \<Longrightarrow> se_outcome (registered_entry p a e) = se_outcome e"
  by (auto simp: registered_entry_def Let_def)

lemma registered_extras [simp]: "se_extras (registered_entry p a e) = se_extras e"
  by (simp add: registered_entry_def Let_def)

interpretation terminal_story: settling_machine state_step "\<lambda>_. True" "\<lambda>_. True"
    "\<lambda>st. \<exists>e. dict_get st s = Some e \<and> is_terminal (se_outcome e)" for s
proof (unfold_locales, goal_cases)
  case (2 st x)
  then obtain e where e: "dict_get st s = Some e" "is_terminal (se_outcome e)" by blast
  have "is_terminal (se_outcome (entry_step x e))"
    using e(2) by (cases x) (simp_all add: registered_outcome transition_entry_outcome guarded_terminal split: option.split)
  with state_step_get [OF e(1), of x] e(2) show ?case by auto
qed simp

text \<open>A landed story: done, and marked as confirmed on the base branch.\<close>

definition landed_done :: "story_entry \<Rightarrow> bool" where
  "landed_done e \<longleftrightarrow> se_outcome e = DONE \<and> py_truthy (py_get (se_extras e) ''landed'')"

fun keeps_landed :: "string \<Rightarrow> state_op \<Rightarrow> bool" where
  "keeps_landed s (Register r p a) = True"
| "keeps_landed s (Transition r a kvs) = (r = s \<longrightarrow> (\<forall>(k, v) \<in> set kvs. k = ''landed'' \<longrightarrow> py_truthy v))"

lemma apply_field_landed:
  assumes "py_truthy (py_get (se_extras e) ''landed'')" and "fst kv = ''landed'' \<Longrightarrow> py_truthy (snd kv)"
  shows "py_truthy (py_get (se_extras (apply_field kv e)) ''landed'')"
  by (rule apply_field_cases [where P = "\<lambda>e. py_truthy (py_get (se_extras e) ''landed'')"])
    (use assms in \<open>simp_all add: py_get_def\<close>)

lemma apply_fields_landed:
  assumes "py_truthy (py_get (se_extras e) ''landed'')" and "\<forall>(k, v) \<in> set kvs. k = ''landed'' \<longrightarrow> py_truthy v"
  shows "py_truthy (py_get (se_extras (fold apply_field kvs e)) ''landed'')"
  using assms
proof (induction kvs arbitrary: e)
  case (Cons kv kvs)
  then have "py_truthy (py_get (se_extras (apply_field kv e)) ''landed'')"
    by (intro apply_field_landed) auto
  with Cons show ?case by simp
qed simp

interpretation landed_story: settling_machine state_step "keeps_landed s" "\<lambda>_. True"
    "\<lambda>st. \<exists>e. dict_get st s = Some e \<and> landed_done e" for s
proof (unfold_locales, goal_cases)
  case (2 st x)
  then obtain e where e: "dict_get st s = Some e" "landed_done e" by blast
  have dn: "is_terminal DONE" by (simp add: is_terminal_def terminal_outcomes_def)
  have "landed_done (entry_step x e)" if "op_slug x = s"
  proof (cases x)
    case (Register r p a)
    with e(2) show ?thesis using dn by (simp add: landed_done_def registered_outcome)
  next
    case (Transition r a kvs)
    with that 2(2) have k: "\<forall>(k, v) \<in> set kvs. k = ''landed'' \<longrightarrow> py_truthy v" by simp
    have "landed_done (fold apply_field kvs e)"
      using e(2) apply_fields_landed [OF _ k, of e] by (simp add: landed_done_def)
    moreover have same: "e\<lparr>se_outcome := DONE\<rparr> = e" using e(2) by (cases e) (simp add: landed_done_def)
    ultimately show ?thesis
      using e(2) dn Transition
      by (auto simp: transition_entry_def guarded_outcome_def landed_done_def same Let_def split: option.split)
  qed
  with state_step_get [OF e(1), of x] e(2) show ?case by auto
qed simp

section \<open>Failure history\<close>

definition recorded_cause :: "nat \<Rightarrow> pydict \<Rightarrow> pydict" where
  "recorded_cause n cause = dict_set ''attempt'' (PInt (int n + 1)) (filter (\<lambda>(k, v). k \<noteq> ''attempt'') cause)"

text \<open>A history as the code builds it: numbered from one, no cause twice.\<close>

definition history_ok :: "pydict list \<Rightarrow> bool" where
  "history_ok hs \<longleftrightarrow> sorted_wrt (\<lambda>a b. \<not> same_cause a b) hs \<and> (\<forall>i < length hs. hs ! i = recorded_cause i (hs ! i))"

lemma map_of_filter_key: "map_of (filter (\<lambda>(k, v). k \<noteq> a) d) k = (if k = a then None else map_of d k)"
  by (induction d) auto

lemma recorded_get: "k \<noteq> ''attempt'' \<Longrightarrow> py_get (recorded_cause n c) k = py_get c k"
  by (simp add: recorded_cause_def py_get_def map_of_filter_key)

lemma recorded_same_cause [simp]: "same_cause a (recorded_cause n c) = same_cause a c"
  by (simp add: same_cause_def recorded_get)

lemma update_fresh: "k \<notin> fst ` set d \<Longrightarrow> dict_set k v d = d @ [(k, v)]"
  by (induction d) auto

lemma recorded_cause_append: "recorded_cause n c = filter (\<lambda>(k, v). k \<noteq> ''attempt'') c @ [(''attempt'', PInt (int n + 1))]"
  unfolding recorded_cause_def by (rule update_fresh) auto

lemma recorded_cause_idem: "recorded_cause n (recorded_cause m c) = recorded_cause n c"
  by (simp add: recorded_cause_append)

lemma record_failure_cause_history:
  "se_failure_history (record_failure_cause c e) =
     (if list_ex (\<lambda>x. same_cause x c) (se_failure_history e) then se_failure_history e
      else se_failure_history e @ [recorded_cause (length (se_failure_history e)) c])"
  by (simp add: record_failure_cause_def recorded_cause_def Let_def)

lemma history_ok_record: "history_ok (se_failure_history e) \<Longrightarrow> history_ok (se_failure_history (record_failure_cause c e))"
  unfolding record_failure_cause_history history_ok_def
  by (auto simp: sorted_wrt_append list_ex_iff nth_append less_Suc_eq recorded_cause_idem)

lemma history_ok_value: "history_ok (se_failure_history e) \<Longrightarrow> history_ok (se_failure_history (record_cause_value v e))"
  by (simp add: record_cause_value_def history_ok_record split: pyval.split)

lemma history_ok_values: "history_ok (se_failure_history e) \<Longrightarrow> history_ok (se_failure_history (fold record_cause_value vs e))"
  by (induction vs arbitrary: e) (simp_all add: history_ok_value)

text \<open>Calls only ever extend a history.\<close>

lemma record_failure_cause_prefix: "prefix (se_failure_history e) (se_failure_history (record_failure_cause c e))"
  by (simp add: record_failure_cause_history)

lemma record_value_prefix: "prefix (se_failure_history e) (se_failure_history (record_cause_value v e))"
  by (simp add: record_cause_value_def record_failure_cause_prefix split: pyval.split)

lemma record_values_prefix: "prefix (se_failure_history e) (se_failure_history (fold record_cause_value vs e))"
  by (induction vs arbitrary: e) (auto intro: prefix_order.trans record_value_prefix)

lemma apply_field_prefix: "prefix (se_failure_history e) (se_failure_history (apply_field kv e))"
  by (rule apply_field_cases [where P = "\<lambda>e'. prefix (se_failure_history e) (se_failure_history e')"])
    (simp_all add: record_values_prefix)

lemma apply_fields_prefix: "prefix (se_failure_history e) (se_failure_history (fold apply_field kvs e))"
  by (induction kvs arbitrary: e) (auto intro: prefix_order.trans apply_field_prefix)

lemma entry_step_prefix: "prefix (se_failure_history e) (se_failure_history (entry_step x e))"
proof (cases x)
  case (Transition s a kvs)
  show ?thesis
  proof (cases a)
    case None
    with Transition show ?thesis by (simp add: transition_entry_def apply_fields_prefix)
  next
    case (Some b)
    obtain o' r where g: "guarded_outcome e (coerce_outcome b) = (o', r)" by force
    from apply_fields_prefix [of "e\<lparr>se_outcome := o'\<rparr>" kvs] show ?thesis
      by (simp add: Transition Some transition_entry_def g Let_def)
  qed
qed (simp add: registered_entry_def Let_def)

interpretation history: settling_machine state_step "\<lambda>_. True" "\<lambda>_. True"
    "\<lambda>st. \<exists>e. dict_get st s = Some e \<and> prefix hs (se_failure_history e)" for s hs
proof (unfold_locales, goal_cases)
  case (1 st x)
  then obtain e where e: "dict_get st s = Some e" "prefix hs (se_failure_history e)" by blast
  have "prefix hs (se_failure_history (entry_step x e))"
    using e(2) entry_step_prefix [of e x] by (rule prefix_order.trans)
  with state_step_get [OF e(1), of x] e(2) show ?case by auto
qed

section \<open>Well-formed states\<close>

definition score_ok :: "pyval \<Rightarrow> bool" where
  "score_ok v \<longleftrightarrow> v = PNone \<or> (\<exists>i. v = PInt i) \<or> (\<exists>b. v = PBool b)"

definition entry_ok :: "story_entry \<Rightarrow> bool" where
  "entry_ok e \<longleftrightarrow> se_slug e \<noteq> [] \<and> score_ok (se_complexity_score e) \<and> dict_wf (se_extras e)
     \<and> dict_get (se_extras e) ''failure_history'' = None \<and> history_ok (se_failure_history e)"

definition state_ok :: "sprint_state \<Rightarrow> bool" where
  "state_ok st \<longleftrightarrow> dict_wf st \<and> (\<forall>(s, e) \<in> set st. se_slug e = s \<and> entry_ok e)"

text \<open>The calls considered name a story and give a complexity score that is an integer, if any.\<close>

fun call_ok :: "state_op \<Rightarrow> bool" where
  "call_ok (Register s p a) = (s \<noteq> [] \<and> score_ok (ra_complexity_score a))"
| "call_ok (Transition s a kvs) = True"

lemma entry_ok_field: "entry_ok e \<Longrightarrow> entry_ok (apply_field kv e)"
  by (rule apply_field_cases [where P = entry_ok])
    (auto simp: entry_ok_def history_ok_values score_ok_def)

lemma entry_ok_fields: "entry_ok e \<Longrightarrow> entry_ok (fold apply_field kvs e)"
  by (induction kvs arbitrary: e) (simp_all add: entry_ok_field)

lemma entry_ok_outcome [simp]: "entry_ok (e\<lparr>se_outcome := x\<rparr>) = entry_ok e"
  by (simp add: entry_ok_def)

lemma entry_ok_update_registered:
  "entry_ok e \<Longrightarrow> score_ok (ra_complexity_score a) \<Longrightarrow> entry_ok (update_registered p a e)"
  by (simp add: entry_ok_def update_registered_def)

lemma entry_ok_new: "s \<noteq> [] \<Longrightarrow> entry_ok (new_entry s p x)"
  by (simp add: entry_ok_def new_entry_def score_ok_def history_ok_def)

lemma new_entry_slug [simp]: "se_slug (new_entry s p x) = s"
  by (simp add: new_entry_def)

lemma entry_ok_step: "entry_ok e \<Longrightarrow> call_ok x \<Longrightarrow> entry_ok (entry_step x e)"
  by (cases x) (auto simp: registered_entry_def transition_entry_def entry_ok_update_registered
      entry_ok_fields Let_def split: option.split prod.split)

lemma entry_step_slug [simp]: "se_slug (entry_step x e) = se_slug e"
  by (cases x) (simp_all add: registered_entry_def transition_entry_def Let_def split: option.split prod.split)

lemma state_ok_iff: "state_ok st \<longleftrightarrow> dict_wf st \<and> (\<forall>s e. dict_get st s = Some e \<longrightarrow> se_slug e = s \<and> entry_ok e)"
  by (auto simp: state_ok_def map_of_eq_Some_iff)

interpretation well_formed: op_machine state_step call_ok state_ok
proof (unfold_locales, goal_cases)
  case (1 st x)
  have "se_slug e = s \<and> entry_ok e" if g: "dict_get (state_step x st) s = Some e" for s e
  proof (cases "dict_get st s")
    case None
    with state_step_new [OF None, of x] g 1(2) show ?thesis
      by (cases x) (auto simp: entry_ok_update_registered entry_ok_new split: if_splits)
  next
    case (Some e0)
    with 1(1) have "se_slug e0 = s" "entry_ok e0" by (auto simp: state_ok_iff)
    with state_step_get [OF Some, of x] g 1(2) show ?thesis by (auto simp: entry_ok_step)
  qed
  with 1(1) show ?case by (simp add: state_ok_iff state_step_wf)
qed

section \<open>Saving and loading\<close>

subsection \<open>The detail\<close>

lemma py_get_pop: "py_get (dict_pop k d) k' = (if k' = k then PNone else py_get d k')"
  by (simp add: py_get_def)

definition final_outcome_ok :: "story_outcome \<Rightarrow> pydict \<Rightarrow> bool" where
  "final_outcome_ok outcome d \<longleftrightarrow>
     (\<exists>s x. py_get d ''final_outcome'' = PStr s \<and> status_outcome s = Some x \<and> same_bucket x outcome)"

lemma final_outcome_detail_ok: "final_outcome_ok outcome (final_outcome_detail outcome d)"
proof (cases "final_outcome_ok outcome d")
  case True
  then have "final_outcome_detail outcome d = d" by (auto simp: final_outcome_detail_def final_outcome_ok_def)
  with True show ?thesis by simp
next
  case False
  then have "final_outcome_detail outcome d = dict_set ''final_outcome'' (PStr (outcome_name outcome)) d"
    by (auto simp: final_outcome_detail_def final_outcome_ok_def Let_def split: pyval.splits option.splits)
  then show ?thesis by (auto simp: final_outcome_ok_def py_get_set status_outcome_name same_bucket_def)
qed

lemma final_outcome_detail_idem: "final_outcome_ok outcome d \<Longrightarrow> final_outcome_detail outcome d = d"
  by (auto simp: final_outcome_detail_def final_outcome_ok_def)

lemma final_outcome_ok_cong: "py_get d ''final_outcome'' = py_get d' ''final_outcome'' \<Longrightarrow> final_outcome_ok x d = final_outcome_ok x d'"
  by (simp add: final_outcome_ok_def)

definition drop_reviews :: "pydict \<Rightarrow> pydict" where
  "drop_reviews d = dict_pop ''review_p2'' (dict_pop ''review_p1'' (dict_pop ''review_verdict'' d))"

definition settle_gate :: "pydict \<Rightarrow> pydict" where
  "settle_gate d = (if py_get d ''gate_status'' = PStr ''running'' then dict_set ''gate_status'' (PStr ''incomplete'') d else d)"

lemma merged_detail_terminal:
  "is_terminal x \<Longrightarrow> merged_detail x d =
     settle_gate (if is_succeeded x then final_outcome_detail x d else drop_reviews (final_outcome_detail x d))"
  by (simp add: merged_detail_def settle_gate_def drop_reviews_def Let_def)

lemma drop_reviews_get: "py_get (drop_reviews d) k = (if k \<in> {''review_p2'', ''review_p1'', ''review_verdict''} then PNone else py_get d k)"
  by (simp add: drop_reviews_def py_get_pop)

lemma drop_reviews_absent:
  "{''review_p2'', ''review_p1'', ''review_verdict''} \<inter> fst ` set d = {} \<Longrightarrow> drop_reviews d = d"
  by (simp add: drop_reviews_def delete_id)

lemma drop_reviews_keys: "fst ` set (drop_reviews d) = fst ` set d - {''review_p2'', ''review_p1'', ''review_verdict''}"
  by (auto simp: drop_reviews_def)

lemma settle_gate_get: "py_get (settle_gate d) k = (if k = ''gate_status'' \<and> py_get d k = PStr ''running'' then PStr ''incomplete'' else py_get d k)"
  by (auto simp: settle_gate_def py_get_set)

lemma settle_gate_idem: "settle_gate (settle_gate d) = settle_gate d"
  unfolding settle_gate_def by (simp add: py_get_set)

lemma merged_detail_ok:
  assumes "is_terminal x"
  shows "final_outcome_ok x (merged_detail x d)" "py_get (merged_detail x d) ''gate_status'' \<noteq> PStr ''running''"
    "\<not> is_succeeded x \<Longrightarrow> {''review_p2'', ''review_p1'', ''review_verdict''} \<inter> fst ` set (merged_detail x d) = {}"
proof -
  have "py_get (merged_detail x d) ''final_outcome'' = py_get (final_outcome_detail x d) ''final_outcome''"
    by (simp add: merged_detail_terminal [OF assms] settle_gate_get drop_reviews_get)
  then show "final_outcome_ok x (merged_detail x d)"
    using final_outcome_ok_cong final_outcome_detail_ok by blast
  show "py_get (merged_detail x d) ''gate_status'' \<noteq> PStr ''running''"
    by (simp add: merged_detail_terminal [OF assms] settle_gate_get)
  show "{''review_p2'', ''review_p1'', ''review_verdict''} \<inter> fst ` set (merged_detail x d) = {}" if "\<not> is_succeeded x"
    using that by (simp add: merged_detail_terminal [OF assms] settle_gate_def drop_reviews_keys)
qed

lemma merged_detail_idem: "merged_detail x (merged_detail x d) = merged_detail x d"
proof (cases "is_terminal x")
  case True
  note ok = merged_detail_ok [OF True, of d]
  have "settle_gate (merged_detail x d) = merged_detail x d" using ok(2) by (simp add: settle_gate_def)
  moreover have "drop_reviews (merged_detail x d) = merged_detail x d" if "\<not> is_succeeded x"
    using ok(3) [OF that] by (rule drop_reviews_absent)
  ultimately show ?thesis
    by (simp add: merged_detail_terminal [OF True, of "merged_detail x d"] final_outcome_detail_idem [OF ok(1)])
qed (simp add: merged_detail_def)

subsection \<open>The whole entry\<close>

lemma add_missing_fold:
  "dict_wf ex \<Longrightarrow> dict_wf d \<Longrightarrow> fold add_missing ex d = d @ filter (\<lambda>(k, v). k \<notin> fst ` set d) ex"
proof (induction ex arbitrary: d)
  case (Cons kv ex)
  obtain k v where kv: "kv = (k, v)" by force
  have notin: "\<forall>(k', v') \<in> set ex. k' \<noteq> k" using Cons.prems kv by force
  show ?case
  proof (cases "k \<in> fst ` set d")
    case True
    then have "add_missing kv d = d" by (auto simp: add_missing_def kv map_of_eq_None_iff)
    with True Cons show ?thesis by (simp add: kv)
  next
    case False
    then have a: "add_missing kv d = d @ [(k, v)]"
      by (simp add: add_missing_def kv map_of_eq_None_iff [THEN iffD2] update_fresh)
    have "fold add_missing ex (d @ [(k, v)]) = (d @ [(k, v)]) @ filter (\<lambda>(k', v'). k' \<notin> fst ` set (d @ [(k, v)])) ex"
      using Cons.prems False by (intro Cons.IH) (auto simp: kv)
    moreover have "filter (\<lambda>(k', v'). k' \<notin> fst ` set (d @ [(k, v)])) ex = filter (\<lambda>(k', v'). k' \<notin> fst ` set d) ex"
      using notin by (intro filter_cong) auto
    ultimately show ?thesis using False by (simp add: kv a [unfolded kv])
  qed
qed simp

definition saved_fields :: "story_entry \<Rightarrow> pydict" where
  "saved_fields e = entry_fields e @
     (if se_failure_history e \<noteq> [] then [(''failure_history'', PList (map PDict (se_failure_history e)))] else [])"

definition free_extras :: "pydict \<Rightarrow> pydict" where
  "free_extras ex = filter (\<lambda>(k, v). k \<notin> set entry_keys) ex"

lemma entry_fields_keys: "map fst (entry_fields e) = [''slug'', ''path'', ''status'', ''outcome'', ''phase'', ''cost_usd'',
    ''bundle_candidate'', ''batch_group'', ''blocked_by'', ''complexity'', ''complexity_score'', ''detail'', ''reason'',
    ''canonical_ref'', ''depends_on'']"
  by (simp add: entry_fields_def)

lemma entry_keys_fields: "set entry_keys = insert ''failure_history'' (set (map fst (entry_fields e)))"
  unfolding entry_fields_keys entry_keys_def by auto

lemma fields_wf: "dict_wf (entry_fields e)" "''failure_history'' \<notin> set (map fst (entry_fields e))"
  unfolding entry_fields_keys by simp_all

lemma entry_as_dict_split:
  assumes "entry_ok e"
  shows "entry_as_dict e = saved_fields e @ free_extras (se_extras e)"
proof -
  have s: "(if se_failure_history e \<noteq> [] then dict_set ''failure_history'' (PList (map PDict (se_failure_history e))) (entry_fields e)
      else entry_fields e) = saved_fields e"
    using fields_wf(2) [of e] by (simp add: saved_fields_def update_fresh)
  have wf: "dict_wf (saved_fields e)" using fields_wf [of e] by (auto simp: saved_fields_def)
  have nofh: "''failure_history'' \<notin> fst ` set (se_extras e)"
    using assms by (simp add: entry_ok_def map_of_eq_None_iff)
  have keys: "fst ` set (saved_fields e) = set (map fst (entry_fields e))
      \<union> (if se_failure_history e \<noteq> [] then {''failure_history''} else {})"
    by (simp add: saved_fields_def)
  have "k \<in> fst ` set (saved_fields e) \<longleftrightarrow> k \<in> set entry_keys" if "(k, v) \<in> set (se_extras e)" for k v
  proof -
    from that nofh have "k \<noteq> ''failure_history''" by force
    then show ?thesis unfolding keys entry_keys_fields [of e] by simp
  qed
  then have f: "filter (\<lambda>(k, v). k \<notin> fst ` set (saved_fields e)) (se_extras e) = free_extras (se_extras e)"
    unfolding free_extras_def by (intro filter_cong) auto
  show ?thesis
    unfolding entry_as_dict_def Let_def s
    using add_missing_fold [OF _ wf, of "se_extras e"] assms f by (simp add: entry_ok_def)
qed

lemma set_extras_fold:
  "dict_wf kvs \<Longrightarrow> fst ` set kvs \<inter> fst ` set (se_extras e) = {} \<Longrightarrow>
     fold (\<lambda>(k, v). set_extra k v) kvs e = e\<lparr>se_extras := se_extras e @ kvs\<rparr>"
proof (induction kvs arbitrary: e)
  case (Cons kv kvs)
  obtain k v where kv: "kv = (k, v)" by force
  with Cons.prems have "set_extra k v e = e\<lparr>se_extras := se_extras e @ [(k, v)]\<rparr>"
    by (simp add: set_extra_def update_fresh)
  with Cons kv show ?case by auto
qed simp

lemma record_saved_fold:
  assumes "history_ok (se_failure_history e @ hs)"
  shows "fold record_saved_cause (map PDict hs) e = e\<lparr>se_failure_history := se_failure_history e @ hs\<rparr>"
  using assms
proof (induction hs arbitrary: e)
  case (Cons h hs)
  let ?n = "length (se_failure_history e)"
  have num: "\<forall>i < length (se_failure_history e @ h # hs).
      (se_failure_history e @ h # hs) ! i = recorded_cause i ((se_failure_history e @ h # hs) ! i)"
    and new: "\<forall>x \<in> set (se_failure_history e). \<not> same_cause x h"
    using Cons.prems by (auto simp: history_ok_def sorted_wrt_append)
  from num [rule_format, of ?n] have "recorded_cause ?n h = h" by simp
  with new have "record_saved_cause (PDict h) e = e\<lparr>se_failure_history := se_failure_history e @ [h]\<rparr>"
    by (simp add: record_saved_cause_def record_failure_cause_def recorded_cause_def [symmetric] Let_def list_ex_iff)
  with Cons.IH [of "e\<lparr>se_failure_history := se_failure_history e @ [h]\<rparr>"] Cons.prems show ?case by simp
qed simp

text \<open>What loading a saved entry gives: the entry with its detail settled and its hidden extras gone.\<close>

definition settled_entry :: "story_entry \<Rightarrow> story_entry" where
  "settled_entry e = e\<lparr>se_detail := merged_detail (se_outcome e) (se_detail e), se_extras := free_extras (se_extras e)\<rparr>"

lemma saved_fields_get:
  assumes "entry_ok e"
  shows "dict_get (entry_as_dict e) ''slug'' = Some (PStr (se_slug e))"
    "dict_get (entry_as_dict e) ''path'' = Some (se_path e)"
    "dict_get (entry_as_dict e) ''outcome'' = Some (PStr (outcome_value (se_outcome e)))"
    "dict_get (entry_as_dict e) ''phase'' = Some (se_phase e)"
    "dict_get (entry_as_dict e) ''cost_usd'' = Some (cost_value (se_cost_usd e))"
    "dict_get (entry_as_dict e) ''bundle_candidate'' = Some (PBool (se_bundle_candidate e))"
    "dict_get (entry_as_dict e) ''batch_group'' = Some (se_batch_group e)"
    "dict_get (entry_as_dict e) ''blocked_by'' = Some (PList (se_blocked_by e))"
    "dict_get (entry_as_dict e) ''complexity'' = Some (se_complexity e)"
    "dict_get (entry_as_dict e) ''complexity_score'' = Some (se_complexity_score e)"
    "dict_get (entry_as_dict e) ''detail'' = Some (PDict (merged_detail (se_outcome e) (se_detail e)))"
    "dict_get (entry_as_dict e) ''reason'' = Some (se_reason e)"
    "dict_get (entry_as_dict e) ''canonical_ref'' = Some (se_canonical_ref e)"
    "dict_get (entry_as_dict e) ''depends_on'' = Some (PList (se_depends_on e))"
  unfolding entry_as_dict_split [OF assms] saved_fields_def entry_fields_def by simp_all

lemma saved_history_get:
  assumes "entry_ok e"
  shows "py_get (entry_as_dict e) ''failure_history'' =
     (if se_failure_history e \<noteq> [] then PList (map PDict (se_failure_history e)) else PNone)"
proof -
  have "dict_get (entry_fields e) ''failure_history'' = None"
    using fields_wf(2) [of e] by (simp add: map_of_eq_None_iff)
  moreover have "dict_get (free_extras (se_extras e)) ''failure_history'' = None"
    by (auto simp: free_extras_def map_of_eq_None_iff entry_keys_def)
  ultimately show ?thesis
    unfolding entry_as_dict_split [OF assms] saved_fields_def by (simp add: py_get_def map_add_def)
qed

lemma outcome_value_nonempty [simp]: "outcome_value x \<noteq> []"
  by (cases x) simp_all

lemma saved_args_entry:
  assumes "entry_ok e"
  shows "saved_args (entry_as_dict e) = Inr \<lparr>ra_outcome = OutcomeValue (PStr (outcome_value (se_outcome e))),
     ra_phase = se_phase e, ra_cost_usd = se_cost_usd e, ra_bundle_candidate = se_bundle_candidate e,
     ra_batch_group = se_batch_group e, ra_blocked_by = Some (se_blocked_by e), ra_complexity = se_complexity e,
     ra_complexity_score = se_complexity_score e,
     ra_detail = Some (merged_detail (se_outcome e) (se_detail e)), ra_reason = se_reason e,
     ra_canonical_ref = se_canonical_ref e, ra_depends_on = Some (se_depends_on e)\<rparr>"
proof -
  let ?d = "entry_as_dict e"
  note get = saved_fields_get [OF assms]
  have "saved_cost ?d = se_cost_usd e"
    by (simp add: saved_cost_def get cost_value_def split: option.split)
  moreover have "saved_outcome ?d = PStr (outcome_value (se_outcome e))"
    by (simp add: saved_outcome_def py_get_def get)
  moreover have "py_list_or_empty (PList xs) = Inr xs" "py_dict_or_empty (PDict d) = Inr d" for xs d
    by (auto simp: py_list_or_empty_def py_dict_or_empty_def)
  moreover have "(case se_complexity_score e of PInt i \<Rightarrow> PInt i | PBool b \<Rightarrow> PBool b | _ \<Rightarrow> PNone) = se_complexity_score e"
    using assms by (auto simp: entry_ok_def score_ok_def)
  ultimately show ?thesis by (simp add: saved_args_def py_get_def get)
qed

lemma register_new:
  "dict_get st s = None \<Longrightarrow> register s p a st = st @ [(s, update_registered p a (new_entry s p (coerce_outcome (ra_outcome a))))]"
  using update_fresh [of s st] map_of_eq_None_iff [of st s] by (simp add: register_def)

lemma load_story_entry:
  assumes "entry_ok e" and "dict_get st (se_slug e) = None"
  shows "load_story (entry_as_dict e) st = Inr (st @ [(se_slug e, settled_entry e)])"
proof -
  let ?d = "entry_as_dict e"
  let ?e1 = "e\<lparr>se_detail := merged_detail (se_outcome e) (se_detail e), se_extras := [], se_failure_history := []\<rparr>"
  obtain a where a: "saved_args ?d = Inr a"
    and upd: "update_registered (se_path e) a (new_entry (se_slug e) (se_path e) (coerce_outcome (ra_outcome a))) = ?e1"
    unfolding saved_args_entry [OF assms(1)]
    by (cases e) (auto simp: update_registered_def new_entry_def coerce_outcome_def status_outcome_value split: option.split)
  obtain causes where c: "py_list_or_empty (py_get ?d ''failure_history'') = Inr causes"
    and causes: "causes = map PDict (se_failure_history e)"
    unfolding saved_history_get [OF assms(1)] by (auto simp: py_list_or_empty_def)
  have "fold record_saved_cause causes ?e1 = ?e1\<lparr>se_failure_history := se_failure_history e\<rparr>"
    using record_saved_fold [of ?e1 "se_failure_history e"] assms(1) by (simp add: causes entry_ok_def)
  moreover have f: "filter (\<lambda>(k, v). k \<notin> set entry_keys) ?d = free_extras (se_extras e)"
    unfolding entry_as_dict_split [OF assms(1)] saved_fields_def
    using entry_keys_fields [of e] by (force simp: free_extras_def filter_empty_conv)
  moreover have "dict_wf (free_extras (se_extras e))"
    using assms(1) by (simp add: entry_ok_def free_extras_def distinct_map_filter)
  ultimately have "restore_entry ?d causes ?e1 = settled_entry e"
    unfolding restore_entry_def f by (simp add: set_extras_fold settled_entry_def)
  moreover have "dict_set (se_slug e) x (st @ [(se_slug e, y)]) = st @ [(se_slug e, x)]" for x y
    using assms(2) by (induction st) (auto split: if_splits)
  ultimately show ?thesis
    using assms by (simp add: load_story_def py_get_def saved_fields_get [OF assms(1)] a c [unfolded py_get_def]
        register_new upd Let_def entry_ok_def map_add_Some_iff [THEN iffD2])
qed

lemma settled_entry_ok: "entry_ok e \<Longrightarrow> entry_ok (settled_entry e)"
  by (auto simp: entry_ok_def settled_entry_def free_extras_def distinct_map_filter map_of_eq_None_iff)

lemma settled_entry_as_dict: "entry_ok e \<Longrightarrow> entry_as_dict (settled_entry e) = entry_as_dict e"
  unfolding entry_as_dict_split [OF settled_entry_ok] entry_as_dict_split
  by (simp add: settled_entry_def saved_fields_def entry_fields_def merged_detail_idem free_extras_def)

lemma load_saved:
  assumes "state_ok (st @ rest)"
  shows "state_from_dict_acc (state_as_dict rest) (map (\<lambda>(s, e). (s, settled_entry e)) st)
     = Inr (map (\<lambda>(s, e). (s, settled_entry e)) (st @ rest))"
  using assms
proof (induction rest arbitrary: st)
  case (Cons p rest)
  obtain s e where p: "p = (s, e)" by force
  with Cons.prems have ok: "entry_ok e" "se_slug e = s" and wf: "dict_wf (st @ p # rest)" by (auto simp: state_ok_def)
  have "dict_get (map (\<lambda>(s, e). (s, settled_entry e)) st) (se_slug e) = None"
    using wf p ok(2) by (force simp: map_of_eq_None_iff)
  from load_story_entry [OF ok(1) this] Cons.IH [of "st @ [p]"] Cons.prems ok(2) show ?case
    by (simp add: p state_as_dict_def)
qed (simp add: state_as_dict_def)

lemma outcomes_counts: "map (se_outcome \<circ> snd) st = map (se_outcome \<circ> snd) st' \<Longrightarrow> counts st = counts st'"
proof -
  have f: "fold count_entry es c = fold (\<lambda>x. count_entry (new_entry [] PNone x)) (map se_outcome es) c" for es c
    by (induction es arbitrary: c) (simp_all add: count_entry_def new_entry_def)
  assume "map (se_outcome \<circ> snd) st = map (se_outcome \<circ> snd) st'"
  moreover from this have "length st = length st'" by (metis length_map)
  ultimately show ?thesis by (simp add: counts_def f)
qed

lemma counts_fold:
  "fold count_entry es c = c\<lparr>sc_succeeded := sc_succeeded c + length (filter (\<lambda>e. is_succeeded (se_outcome e)) es),
     sc_failed := sc_failed c + length (filter (\<lambda>e. is_failed (se_outcome e)) es),
     sc_skipped := sc_skipped c + length (filter (\<lambda>e. is_skipped (se_outcome e)) es)\<rparr>"
proof (induction es arbitrary: c)
  case (Cons e es)
  then show ?case using buckets_disjoint [of "se_outcome e"] by (auto simp: count_entry_def)
qed simp

lemma bucket_lengths:
  "length (filter (\<lambda>e. is_succeeded (se_outcome e)) es) + length (filter (\<lambda>e. is_failed (se_outcome e)) es)
     + length (filter (\<lambda>e. is_skipped (se_outcome e)) es) + length (filter (\<lambda>e. \<not> is_terminal (se_outcome e)) es) = length es"
proof (induction es)
  case (Cons e es)
  then show ?case using buckets_disjoint [of "se_outcome e"] terminal_buckets [of "se_outcome e"] by auto
qed simp

section \<open>Properties\<close>

text \<open>Calls and entries the examples below run on.\<close>

definition plain_args :: "story_outcome \<Rightarrow> register_args" where
  "plain_args x = \<lparr>ra_outcome = OutcomeEnum x, ra_phase = PNone, ra_cost_usd = Some 0, ra_bundle_candidate = False,
     ra_batch_group = PNone, ra_blocked_by = None, ra_complexity = PNone, ra_complexity_score = PNone, ra_detail = None,
     ra_reason = PNone, ra_canonical_ref = PNone, ra_depends_on = None\<rparr>"

definition landed_entry :: story_entry where
  "landed_entry = (new_entry ''issue-1'' (PStr ''t'') DONE)\<lparr>se_extras := [(''landed'', PBool True)]\<rparr>"

text \<open>C2. Outcomes are monotone: once a story has reached a terminal outcome, no sequence of
  registrations and transitions, with whatever arguments, takes it out of the terminal set or
  removes it.\<close>

theorem terminal_is_final:
  assumes "dict_get st s = Some e" and "is_terminal (se_outcome e)"
  shows "\<exists>e'. dict_get (fold state_step ops st) s = Some e' \<and> is_terminal (se_outcome e')"
  by (rule terminal_story.settled_run) (use assms in auto)

theorem terminal_is_final_witness:
  "\<exists>e'. dict_get (fold state_step [Transition ''issue-1'' (Some (OutcomeEnum RUNNING)) [], Register ''issue-1'' PNone (plain_args WAITING)]
      [(''issue-1'', landed_entry)]) ''issue-1'' = Some e' \<and> is_terminal (se_outcome e')"
proof -
  have g: "dict_get [(''issue-1'', landed_entry)] ''issue-1'' = Some landed_entry" by simp
  have t: "is_terminal (se_outcome landed_entry)"
    by (simp add: landed_entry_def new_entry_def is_terminal_def terminal_outcomes_def)
  show ?thesis by (rule terminal_is_final [OF g t])
qed

text \<open>A confirmed landing is immutable: once a story is done and marked as landed, no sequence of calls
  that does not itself take the mark away changes the outcome.\<close>

theorem landed_done_is_final:
  assumes "dict_get st s = Some e" and "se_outcome e = DONE" and "py_truthy (py_get (se_extras e) ''landed'')"
    and "\<forall>x \<in> set ops. keeps_landed s x"
  shows "\<exists>e'. dict_get (fold state_step ops st) s = Some e' \<and> se_outcome e' = DONE
     \<and> py_truthy (py_get (se_extras e') ''landed'')"
proof -
  have "\<exists>e'. dict_get (fold state_step ops st) s = Some e' \<and> landed_done e'"
    by (rule landed_story.settled_run) (use assms in \<open>auto simp: landed_done_def\<close>)
  then show ?thesis by (simp add: landed_done_def)
qed

theorem landed_done_is_final_witness:
  "\<exists>e'. dict_get (fold state_step [Transition ''issue-1'' (Some (OutcomeEnum FAILED)) [(''cost_usd'', PFloat 0)]]
      [(''issue-1'', landed_entry)]) ''issue-1'' = Some e' \<and> se_outcome e' = DONE"
proof -
  have g: "dict_get [(''issue-1'', landed_entry)] ''issue-1'' = Some landed_entry" by simp
  have d: "se_outcome landed_entry = DONE" "py_truthy (py_get (se_extras landed_entry) ''landed'')"
    by (simp_all add: landed_entry_def new_entry_def py_get_def)
  have k: "\<forall>x \<in> set [Transition ''issue-1'' (Some (OutcomeEnum FAILED)) [(''cost_usd'', PFloat 0)]]. keeps_landed ''issue-1'' x"
    by simp
  from landed_done_is_final [OF g d k] show ?thesis by blast
qed

text \<open>A rejected transition leaves no trace: when a guard refuses the new outcome (leaving the terminal
  set, or overwriting a landed story with anything but done), the whole entry, cost and detail
  included, is what it was.\<close>

theorem rejected_transition_keeps_entry:
  assumes "is_terminal (se_outcome e)"
    and "\<not> is_terminal (coerce_outcome a) \<or> (py_truthy (py_get (se_extras e) ''landed'') \<and> coerce_outcome a \<noteq> DONE)"
  shows "transition_entry (Some a) kvs e = e"
  using assms by (cases e) (auto simp: transition_entry_def guarded_outcome_def Let_def)

theorem rejected_transition_keeps_entry_witness:
  "transition_entry (Some (OutcomeEnum FAILED)) [(''cost_usd'', PFloat 0)] landed_entry = landed_entry"
  by (rule rejected_transition_keeps_entry)
    (simp_all add: landed_entry_def new_entry_def is_terminal_def terminal_outcomes_def py_get_def coerce_outcome_def)

text \<open>The canonical counts partition the stories: each counter is the number of stories in its bucket, no
  story is in two buckets, and what remains of the total is exactly the stories that are not
  terminal yet.\<close>

theorem counts_partition:
  "sc_total (counts st) = length st
    \<and> sc_succeeded (counts st) = length (filter (\<lambda>e. is_succeeded (se_outcome e)) (map snd st))
    \<and> sc_failed (counts st) = length (filter (\<lambda>e. is_failed (se_outcome e)) (map snd st))
    \<and> sc_skipped (counts st) = length (filter (\<lambda>e. is_skipped (se_outcome e)) (map snd st))
    \<and> sc_succeeded (counts st) + sc_failed (counts st) + sc_skipped (counts st)
        + length (filter (\<lambda>e. \<not> is_terminal (se_outcome e)) (map snd st)) = sc_total (counts st)"
  using bucket_lengths [of "map snd st"] by (simp add: counts_def counts_fold)

text \<open>What a terminal story shows is consistent: its saved detail never claims a running gate, its
  \<^verbatim>\<open>final_outcome\<close> names an outcome of the same bucket as the story's own, and a story that did not
  succeed shows no review verdict or findings of an earlier cycle.\<close>

theorem saved_terminal_detail_consistent:
  assumes "entry_ok e" and "is_terminal (se_outcome e)"
  shows "\<exists>d. dict_get (entry_as_dict e) ''detail'' = Some (PDict d)
     \<and> py_get d ''gate_status'' \<noteq> PStr ''running''
     \<and> (\<exists>s x. py_get d ''final_outcome'' = PStr s \<and> status_outcome s = Some x \<and> same_bucket x (se_outcome e))
     \<and> (\<not> is_succeeded (se_outcome e) \<longrightarrow> {''review_p2'', ''review_p1'', ''review_verdict''} \<inter> fst ` set d = {})"
  using saved_fields_get(11) [OF assms(1)] merged_detail_ok [OF assms(2), of "se_detail e"]
  by (auto simp: final_outcome_ok_def)

theorem saved_terminal_detail_consistent_witness:
  "\<exists>d. dict_get (entry_as_dict ((new_entry ''issue-1'' (PStr ''t'') FAILED)\<lparr>se_detail := [(''gate_status'', PStr ''running'')]\<rparr>)) ''detail''
      = Some (PDict d) \<and> py_get d ''gate_status'' \<noteq> PStr ''running''"
proof -
  let ?e = "(new_entry ''issue-1'' (PStr ''t'') FAILED)\<lparr>se_detail := [(''gate_status'', PStr ''running'')]\<rparr>"
  have o: "entry_ok ?e" by (simp add: entry_ok_def new_entry_def score_ok_def history_ok_def)
  have t: "is_terminal (se_outcome ?e)" by (simp add: new_entry_def is_terminal_def terminal_outcomes_def)
  from saved_terminal_detail_consistent [OF o t] show ?thesis by blast
qed

text \<open>Failure causes are never lost: from any state, whatever calls follow, the causes a story has
  recorded stay in place at the front of its history.\<close>

theorem failure_history_append_only:
  assumes "dict_get st s = Some e"
  shows "\<exists>e'. dict_get (fold state_step ops st) s = Some e' \<and> prefix (se_failure_history e) (se_failure_history e')"
  by (rule history.settled_run) (use assms in auto)

theorem failure_history_append_only_witness:
  "\<exists>e'. dict_get (fold state_step [Transition ''issue-1'' None [(''failure_cause'', PDict [(''kind'', PStr ''timeout'')])]]
      [(''issue-1'', landed_entry\<lparr>se_failure_history := [[(''kind'', PStr ''oom'')]]\<rparr>)]) ''issue-1'' = Some e'
    \<and> prefix [[(''kind'', PStr ''oom'')]] (se_failure_history e')"
proof -
  have g: "dict_get [(''issue-1'', landed_entry\<lparr>se_failure_history := [[(''kind'', PStr ''oom'')]]\<rparr>)] ''issue-1''
      = Some (landed_entry\<lparr>se_failure_history := [[(''kind'', PStr ''oom'')]]\<rparr>)" by simp
  from failure_history_append_only [OF g, of "[Transition ''issue-1'' None [(''failure_cause'', PDict [(''kind'', PStr ''timeout'')])]]"]
  show ?thesis by simp
qed

text \<open>In every state reached from an empty sprint by calls that name their story, the failure history of a
  story numbers its attempts from one in order, and no two of its causes agree in run, kind and
  cause.\<close>

theorem failure_history_numbered:
  assumes "\<forall>x \<in> set ops. call_ok x" and "dict_get (fold state_step ops []) s = Some e"
  shows "(\<forall>i < length (se_failure_history e). py_get (se_failure_history e ! i) ''attempt'' = PInt (int i + 1))
     \<and> sorted_wrt (\<lambda>a b. \<not> same_cause a b) (se_failure_history e)"
proof -
  have "state_ok (fold state_step ops [])" by (rule well_formed.run_inv [OF _ assms(1)]) (simp add: state_ok_def)
  with assms(2) have h: "history_ok (se_failure_history e)" by (auto simp: state_ok_iff entry_ok_def)
  have "py_get (recorded_cause i c) ''attempt'' = PInt (int i + 1)" for i c
    by (simp add: recorded_cause_def py_get_def)
  with h show ?thesis unfolding history_ok_def by metis
qed

theorem failure_history_numbered_witness:
  "\<exists>e. dict_get (fold state_step [Register ''issue-1'' PNone (plain_args RUNNING),
       Transition ''issue-1'' None [(''failure_history'', PList [PDict [(''kind'', PStr ''oom'')], PDict [(''kind'', PStr ''oom'')]])]] [])
       ''issue-1'' = Some e \<and> length (se_failure_history e) = 1
       \<and> py_get (se_failure_history e ! 0) ''attempt'' = PInt (int 0 + 1)"
proof -
  let ?ops = "[Register ''issue-1'' PNone (plain_args RUNNING),
       Transition ''issue-1'' None [(''failure_history'', PList [PDict [(''kind'', PStr ''oom'')], PDict [(''kind'', PStr ''oom'')]])]]"
  have k: "\<forall>x \<in> set ?ops. call_ok x" by (simp add: plain_args_def score_ok_def)
  have "map_option (\<lambda>e. length (se_failure_history e)) (dict_get (fold state_step ?ops []) ''issue-1'') = Some 1"
    by code_simp
  then obtain e where e: "dict_get (fold state_step ?ops []) ''issue-1'' = Some e" "length (se_failure_history e) = 1"
    by (auto simp: map_option_eq_Some)
  from failure_history_numbered [OF k e(1)] e show ?thesis by (metis less_numeral_extra(1))
qed

text \<open>C14. Saving and loading agree: in every state reached from an empty sprint by calls that name their
  story, the saved records load without an error, and the loaded state saves to the same records
  and shows the same counts.\<close>

theorem save_load_roundtrip:
  assumes "\<forall>x \<in> set ops. call_ok x"
  shows "\<exists>st'. state_from_dict (state_as_dict (fold state_step ops [])) = Inr st'
     \<and> state_as_dict st' = state_as_dict (fold state_step ops [])
     \<and> counts st' = counts (fold state_step ops [])"
proof -
  let ?st = "fold state_step ops []" and ?f = "\<lambda>(s :: string, e). (s, settled_entry e)"
  have ok: "state_ok ?st" by (rule well_formed.run_inv [OF _ assms]) (simp add: state_ok_def)
  have "state_from_dict (state_as_dict ?st) = Inr (map ?f ?st)"
    using load_saved [of "[]" ?st] ok by (simp add: state_from_dict_def)
  moreover have "state_as_dict (map ?f ?st) = state_as_dict ?st"
    using ok by (auto simp: state_as_dict_def state_ok_def settled_entry_as_dict)
  moreover have "counts (map ?f ?st) = counts ?st"
    by (rule outcomes_counts) (simp add: settled_entry_def case_prod_beta)
  ultimately show ?thesis by blast
qed

theorem save_load_roundtrip_witness:
  "\<exists>st'. state_from_dict (state_as_dict (fold state_step [Register ''issue-1'' PNone (plain_args RUNNING),
       Transition ''issue-1'' (Some (OutcomeEnum FAILED)) [(''failure_cause'', PDict [(''kind'', PStr ''oom'')])]] [])) = Inr st'
    \<and> counts st' = \<lparr>sc_total = 1, sc_succeeded = 0, sc_failed = 1, sc_skipped = 0\<rparr>"
proof -
  let ?ops = "[Register ''issue-1'' PNone (plain_args RUNNING),
       Transition ''issue-1'' (Some (OutcomeEnum FAILED)) [(''failure_cause'', PDict [(''kind'', PStr ''oom'')])]]"
  have k: "\<forall>x \<in> set ?ops. call_ok x" by (simp add: plain_args_def score_ok_def)
  have "counts (fold state_step ?ops []) = \<lparr>sc_total = 1, sc_succeeded = 0, sc_failed = 1, sc_skipped = 0\<rparr>"
    by code_simp
  with save_load_roundtrip [OF k] show ?thesis by metis
qed

text \<open>A phase that replaces the detail replaces exactly its own facts: afterwards a key has the value the
  phase wrote, a run-scoped key the phase did not write keeps its value, and every other key is gone.\<close>

theorem detail_replacement_keeps_run_scope:
  assumes "dict_wf (se_detail e)" and "dict_wf v"
  shows "dict_get (se_detail (transition_entry None [(''detail'', PDict v)] e)) k =
     (case dict_get v k of
        Some x \<Rightarrow> Some x
      | None \<Rightarrow> if k \<in> set run_scoped_detail_keys then dict_get (se_detail e) k else None)"
proof -
  have wf: "dict_wf (filter (\<lambda>(k, x). k \<in> set run_scoped_detail_keys \<and> dict_get v k = None) (se_detail e))"
    using assms(1) by (simp add: distinct_map_filter)
  have "se_detail (transition_entry None [(''detail'', PDict v)] e) = replace_detail v (se_detail e)"
    by (simp add: transition_entry_def apply_field_def)
  then show ?thesis
    by (simp add: replace_detail_def dict_get_merge [OF wf] map_of_rev_wf [OF assms(2)]
        dict_get_filter [OF assms(1)] split: option.split)
qed

theorem detail_replacement_keeps_run_scope_witness:
  "dict_get (se_detail (transition_entry None [(''detail'', PDict [(''iteration'', PInt 1)])]
      (landed_entry\<lparr>se_detail := [(''preflight_degraded'', PBool True), (''iteration'', PInt 0)]\<rparr>))) ''preflight_degraded'' = Some (PBool True)"
  by (subst detail_replacement_keeps_run_scope) (simp_all add: run_scoped_detail_keys_def)

text \<open>The two readers of issue slugs agree: whenever the scheduler reads an issue number off a slug, the
  story record with that slug and no canonical reference resolves to the same number, and is labelled
  with it.\<close>

theorem issue_slug_readers_agree:
  assumes "issue_number_from_slug s = Some n"
  shows "issue_number_for None (Some s) path = Inr (Some n)
     \<and> issue_reference_label None (Some s) = Some (''Issue #'' @ drop 6 s)"
proof -
  from assms have p: "prefix ''issue-'' s" and r: "drop 6 s \<noteq> []" "list_all py_isdecimal (drop 6 s)"
    and n: "n = int (decimal_value (drop 6 s))"
    by (auto simp: issue_number_from_slug_def Let_def split: if_splits)
  have s: "s = ''issue-'' @ drop 6 s" using p by (auto simp: prefix_def)
  have six: "Suc (Suc (Suc (Suc (Suc (Suc 0))))) = 6" by simp
  have "list_all (\<lambda>c. \<not> py_isspace c) s"
    by (subst s) (use r(2) in \<open>auto simp: list_all_iff py_isspace_def code_point_def dest: decimal_not_space
      [unfolded py_isspace_def code_point_def]\<close>)
  then have strip: "py_strip s = s" by (rule py_strip_no_space)
  have rp: "py_removeprefix ''issue-'' s = drop 6 s" using p by (simp add: py_removeprefix_def six)
  have dig: "py_str_isdigit (drop 6 s)"
    using r by (auto simp: py_str_isdigit_def list_all_iff intro: py_isdecimal_isdigit)
  have e: "py_strip [] = []" by (simp add: py_strip_def)
  show ?thesis
    using r(2) by (simp add: issue_number_for_def issue_reference_label_def e strip rp dig py_int_of_digits_def n)
qed

theorem issue_slug_readers_agree_witness:
  "issue_number_from_slug ''issue-42'' = Some 42 \<and> issue_number_for None (Some ''issue-42'') None = Inr (Some 42)"
proof -
  have n: "issue_number_from_slug ''issue-42'' = Some 42" by code_simp
  from issue_slug_readers_agree [OF n, of None] n show ?thesis by simp
qed

text \<open>\<open>issue_number_for\<close> is not total on strings: a slug or reference whose number part has a superscript
  digit passes the \<^verbatim>\<open>isdigit\<close> test and makes the conversion raise, although the function is documented
  to return a number or nothing.\<close>

theorem issue_number_for_raises_on_superscript:
  "issue_number_for None (Some (''issue-'' @ [CHR 0xB2])) None = Inl (ValueError ''invalid literal for int() with base 10'')
    \<and> issue_number_for (Some (''issue:'' @ [CHR 0xB2])) None None = Inl (ValueError ''invalid literal for int() with base 10'')"
  by code_simp

end
