(* ===== verification/Sprint_Runner.thy ===== *)
theory Sprint_Runner
  imports Story_State
begin

text \<open>
  The two places of the sprint loop (\<^verbatim>\<open>sprint/runner.py\<close>) where scheduler and story state meet: the
  classification of a finished story, which marks the scheduler, the set of landed slugs and the
  story's entry together, and the refresh of dependencies satisfied outside the manifest.
\<close>

section \<open>Model\<close>

text \<open>The fields of a coordinator result the classification reads; \<open>cr_cost\<close> is the projected reported cost.\<close>

record coordinator_result =
  cr_success :: bool
  cr_preflight_verdict :: "string option"
  cr_landing_status :: "string option"
  cr_validate_already_complete :: bool
  cr_gate_decision :: "string option"
  cr_application_status :: "string option"
  cr_merge :: "pyval"
  cr_cost :: "rat option"

definition returned_for_decomposition :: "coordinator_result \<Rightarrow> bool" where
  "returned_for_decomposition r =
     (if cr_gate_decision r \<in> {Some ''decompose'', Some ''decline''} then True
      else if cr_gate_decision r = Some ''accept'' then cr_application_status r = Some ''applied''
      else False)"

record sprint_run =
  sr_dag :: story_dag
  sr_merged :: "string set"
  sr_state :: sprint_state

text \<open>The outcome, whether the slug counts as landed, and the mark the scheduler gets.\<close>

definition classify :: "string \<Rightarrow> coordinator_result \<Rightarrow> story_outcome \<times> bool \<times> dag_op" where
  "classify slug r =
     (if returned_for_decomposition r then (DECOMPOSED, False, MarkSkipped slug)
      else if cr_preflight_verdict r = Some ''ALREADY_DONE'' \<and> cr_success r then (ALREADY_DONE, True, MarkComplete slug)
      else if cr_validate_already_complete r \<and> cr_success r then (ALREADY_DONE, True, MarkComplete slug)
      else if cr_landing_status r = Some ''landed'' then (DONE, True, MarkComplete slug)
      else if cr_landing_status r = Some ''failed'' then
        (let merge_info = (if py_truthy (cr_merge r) then cr_merge r else PDict [])
         in (landing_failure_outcome (case merge_info of PDict d \<Rightarrow> Some d | _ \<Rightarrow> None), False, MarkSkipped slug))
      else if cr_landing_status r = Some ''pending_integration'' then (DONE, False, MarkSkipped slug)
      else if cr_success r then (DONE, False, MarkSkipped slug)
      else (FAILED, False, MarkSkipped slug))"

definition transition_fields :: "coordinator_result \<Rightarrow> pydict" where
  "transition_fields r =
     [(''cost_usd'', cost_value (cr_cost r))]
     @ (if cr_landing_status r = Some ''landed'' then [(''landed'', PBool True)] else [])"

definition classify_and_record :: "task_story \<Rightarrow> coordinator_result \<Rightarrow> sprint_run \<Rightarrow> story_outcome \<times> sprint_run" where
  "classify_and_record t r run =
     (case classify (ts_slug t) r of (outcome, landed, mark) \<Rightarrow>
        (outcome,
         \<lparr>sr_dag = dag_step mark (sr_dag run),
          sr_merged = (if landed then insert (ts_slug t) (sr_merged run) else sr_merged run),
          sr_state = transition (ts_slug t) (Some (OutcomeEnum outcome)) (transition_fields r) (sr_state run)\<rparr>))"

text \<open>
  \<^verbatim>\<open>_refresh_external_satisfied\<close>, with the branch and issue answers as arguments; the result is the set of
  newly satisfied slugs and the marked scheduler. A missing key of \<^verbatim>\<open>unmet_deps\<close> cannot occur on the
  scheduler's own remaining stories, but is passed on.
\<close>

fun unmet_of_all :: "story_dag \<Rightarrow> task_story list \<Rightarrow> string list py_result" where
  "unmet_of_all g [] = Inr []"
| "unmet_of_all g (t # ts) =
     py_bind (unmet_deps g (ts_slug t)) (\<lambda>ds. py_bind (unmet_of_all g ts) (\<lambda>rest. Inr (ds @ rest)))"

definition refresh_external_satisfied ::
    "(string \<Rightarrow> bool) \<Rightarrow> (int \<Rightarrow> gh_reply) \<Rightarrow> task_story list \<Rightarrow> story_dag \<Rightarrow> (string list \<times> story_dag) py_result" where
  "refresh_external_satisfied merged issue_state all_tasks g =
     py_bind (unmet_of_all g (dag_remaining g)) (\<lambda>unmet.
       let external = filter (\<lambda>d. d \<notin> ts_slug ` set all_tasks) (remdups unmet)
       in if external = [] then Inr ([], g)
          else (let dependent = filter (\<lambda>t. list_ex (\<lambda>d. d \<in> set external) (ts_depends_on t)) all_tasks
                in py_bind (resolve_satisfied_dependencies merged issue_state dependent {}) (\<lambda>satisfied.
                     let newly = sort (filter (\<lambda>d. d \<in> satisfied \<and> d \<notin> dag_completed g) external)
                     in Inr (newly, fold mark_complete newly g))))"

section \<open>A run of classifications\<close>

abbreviation result_mark :: "task_story \<times> coordinator_result \<Rightarrow> dag_op" where
  "result_mark tr \<equiv> snd (snd (classify (ts_slug (fst tr)) (snd tr)))"

abbreviation record_result :: "task_story \<times> coordinator_result \<Rightarrow> sprint_run \<Rightarrow> sprint_run" where
  "record_result tr run \<equiv> snd (classify_and_record (fst tr) (snd tr) run)"

text \<open>A result that puts the story's work on the base branch.\<close>

definition lands :: "coordinator_result \<Rightarrow> bool" where
  "lands r \<longleftrightarrow> \<not> returned_for_decomposition r
     \<and> (cr_success r \<and> (cr_preflight_verdict r = Some ''ALREADY_DONE'' \<or> cr_validate_already_complete r)
        \<or> cr_landing_status r = Some ''landed'')"

lemma classify_lands:
  "snd (classify s r) = (if lands r then (True, MarkComplete s) else (False, MarkSkipped s))"
  "lands r \<Longrightarrow> is_succeeded (fst (classify s r))"
  by (auto simp: classify_def lands_def is_succeeded_def Let_def)

lemma classify_terminal: "is_terminal (fst (classify s r))"
  by (auto simp: classify_def is_terminal_def terminal_outcomes_def landing_failure_outcome_def Let_def)

lemma classify_and_record_parts:
  "fst (classify_and_record t r run) = fst (classify (ts_slug t) r)"
  "sr_dag (snd (classify_and_record t r run)) = dag_step (result_mark (t, r)) (sr_dag run)"
  "sr_merged (snd (classify_and_record t r run)) = sr_merged run \<union> (if lands r then {ts_slug t} else {})"
  "sr_state (snd (classify_and_record t r run)) =
     transition (ts_slug t) (Some (OutcomeEnum (fst (classify (ts_slug t) r)))) (transition_fields r) (sr_state run)"
  by (auto simp: classify_and_record_def case_prod_beta classify_lands(1) split: if_splits)

section \<open>The refresh\<close>

lemma unmet_of_all_result:
  assumes "\<forall>t \<in> set ts. \<exists>ds. unmet_deps g (ts_slug t) = Inr ds \<and> set ds = F t"
  shows "\<exists>us. unmet_of_all g ts = Inr us \<and> set us = (\<Union>t \<in> set ts. F t)"
  using assms by (induction ts) auto

lemma fold_mark_complete_outside:
  assumes "\<forall>s \<in> set ss. dict_get (dag_tasks g) s = None"
  shows "dag_completed (fold mark_complete ss g) = dag_completed g \<union> set ss
    \<and> dag_finished (fold mark_complete ss g) = dag_finished g"
  using assms by (induction ss arbitrary: g) (auto simp: mark_complete_def Let_def)

lemma unmet_remaining:
  fixes tasks sat ops
  defines "g \<equiv> fold dag_step ops (new_story_dag tasks sat)"
  assumes dist: "distinct (map ts_slug tasks)" and skip: "{s. MarkSkipped s \<in> set ops} \<subseteq> ts_slug ` set tasks"
    and soft: "\<forall>t \<in> set tasks. set (ts_collision_deps t) \<subseteq> ts_slug ` set tasks"
  shows "\<exists>us. unmet_of_all g (dag_remaining g) = Inr us \<and> set us - ts_slug ` set tasks =
     {d. \<exists>t \<in> set (dag_remaining g). d \<in> set (ts_depends_on t)} - dag_completed g - ts_slug ` set tasks"
proof -
  have ok: "dag_ok g" unfolding g_def using skip by (intro dag_ok_run dag_ok_new) simp
  have rem: "t \<in> set tasks" if "t \<in> set (dag_remaining g)" for t
    using that unfolding remaining_iff [OF ok] using tasks_new [OF dist] by (simp add: g_def)
  let ?F = "\<lambda>t. (set (ts_depends_on t) - dag_completed g) \<union> (set (ts_collision_deps t) - dag_completed g - dag_finished g)"
  have "\<forall>t \<in> set (dag_remaining g). \<exists>ds. unmet_deps g (ts_slug t) = Inr ds \<and> set ds = ?F t"
  proof
    fix t assume "t \<in> set (dag_remaining g)"
    then have t: "t \<in> set tasks" by (rule rem)
    then have "ts_slug t \<in> manifest_slugs g"
      using manifest_new [of tasks sat] by (simp add: g_def manifest_slugs_def)
    from unmet_deps_known [OF ok this] show "\<exists>ds. unmet_deps g (ts_slug t) = Inr ds \<and> set ds = ?F t"
      using hard_deps_new [OF dist t, of sat] soft_deps_new [OF dist t, of sat] by (simp add: g_def)
  qed
  from unmet_of_all_result [OF this] obtain us where
    us: "unmet_of_all g (dag_remaining g) = Inr us" "set us = (\<Union>t \<in> set (dag_remaining g). ?F t)" by blast
  from us(2) soft rem have "set us - ts_slug ` set tasks =
     {d. \<exists>t \<in> set (dag_remaining g). d \<in> set (ts_depends_on t)} - dag_completed g - ts_slug ` set tasks" by blast
  with us(1) show ?thesis by blast
qed

section \<open>Properties\<close>

text \<open>A sprint of two stories and the results the examples below record.\<close>

definition two_story_run :: sprint_run where
  "two_story_run = \<lparr>sr_dag = new_story_dag two_stories {}, sr_merged = {}, sr_state = []\<rparr>"

definition landed_result :: coordinator_result where
  "landed_result = \<lparr>cr_success = True, cr_preflight_verdict = None, cr_landing_status = Some ''landed'',
     cr_validate_already_complete = False, cr_gate_decision = None, cr_application_status = None, cr_merge = PNone,
     cr_cost = Some 1\<rparr>"

text \<open>Recording a finished story is consistent across the three places it touches: the scheduler counts the
  slug as completed and the sprint counts it as landed together, exactly when the result put the
  work on the base branch, and then the outcome is a success; in every other case the slug is only
  finished, so no hard dependent is released. The outcome recorded is always terminal.\<close>

theorem classification_consistent:
  assumes "classify_and_record t r run = (x, run')"
  shows "is_terminal x \<and> (lands r \<longrightarrow> is_succeeded x)
    \<and> dag_completed (sr_dag run') = dag_completed (sr_dag run) \<union> (if lands r then {ts_slug t} else {})
    \<and> sr_merged run' = sr_merged run \<union> (if lands r then {ts_slug t} else {})
    \<and> (dict_get (dag_tasks (sr_dag run)) (ts_slug t) \<noteq> None \<longrightarrow> ts_slug t \<in> dag_finished (sr_dag run'))"
proof -
  have x: "x = fst (classify (ts_slug t) r)" and run': "run' = snd (classify_and_record t r run)"
    using assms classify_and_record_parts(1) [of t r run] by auto
  show ?thesis
    using classify_terminal classify_lands(2) [of r "ts_slug t"]
    by (auto simp: x run' classify_and_record_parts classify_lands(1) mark_defs)
qed

theorem classification_consistent_witness:
  "\<exists>run'. classify_and_record (two_stories ! 0) landed_result two_story_run = (DONE, run')
    \<and> is_succeeded DONE \<and> ''issue-1'' \<in> dag_completed (sr_dag run') \<and> ''issue-1'' \<in> sr_merged run'"
proof -
  have "fst (classify_and_record (two_stories ! 0) landed_result two_story_run) = DONE" by code_simp
  then obtain run' where r: "classify_and_record (two_stories ! 0) landed_result two_story_run = (DONE, run')"
    by (metis prod.collapse)
  have "lands landed_result" "ts_slug (two_stories ! 0) = ''issue-1''" by code_simp+
  with classification_consistent [OF r] r show ?thesis by auto
qed

text \<open>
  What happens to the scheduler of a sprint: a finished story is classified, the dependencies outside the manifest are
  looked up again (an exception of the lookup leaves the scheduler), a story is skipped. Landings of queued pull requests, of
  the other members of a batch and of a resumed run, which mark the scheduler elsewhere, are not among these events.
\<close>

datatype run_event = Recorded task_story coordinator_result | Refreshed "string \<Rightarrow> bool" "int \<Rightarrow> gh_reply" | SkippedStory string

fun run_event_step :: "task_story list \<Rightarrow> run_event \<Rightarrow> sprint_run \<Rightarrow> sprint_run" where
  "run_event_step tasks (Recorded t r) run = record_result (t, r) run"
| "run_event_step tasks (Refreshed merged issue_state) run =
     (case refresh_external_satisfied merged issue_state tasks (sr_dag run) of Inl _ \<Rightarrow> run | Inr (newly, g) \<Rightarrow> run\<lparr>sr_dag := g\<rparr>)"
| "run_event_step tasks (SkippedStory s) run = run\<lparr>sr_dag := mark_skipped s (sr_dag run)\<rparr>"

fun in_manifest :: "string set \<Rightarrow> run_event \<Rightarrow> bool" where
  "in_manifest slugs (Recorded t r) = (ts_slug t \<in> slugs)"
| "in_manifest slugs (Refreshed merged issue_state) = True"
| "in_manifest slugs (SkippedStory s) = (s \<in> slugs)"

text \<open>What releases a dependency: a landing, or the lookup of one outside the manifest.\<close>

fun releases :: "string set \<Rightarrow> string \<Rightarrow> run_event \<Rightarrow> bool" where
  "releases slugs d (Recorded t r) = (ts_slug t = d \<and> lands r)"
| "releases slugs d (Refreshed merged issue_state) = (d \<notin> slugs \<and> externally_satisfied merged issue_state d)"
| "releases slugs d (SkippedStory s) = False"

lemma refresh_sound:
  assumes "refresh_external_satisfied merged issue_state tasks g = Inr (newly, g')"
  shows "g' = fold dag_step (map MarkComplete newly) g"
    and "\<forall>d \<in> set newly. d \<notin> ts_slug ` set tasks \<and> externally_satisfied merged issue_state d"
proof -
  from assms obtain unmet where u: "unmet_of_all g (dag_remaining g) = Inr unmet"
    by (auto simp: refresh_external_satisfied_def py_bind_eq_Inr)
  let ?ext = "filter (\<lambda>d. d \<notin> ts_slug ` set tasks) (remdups unmet)"
  let ?dep = "filter (\<lambda>t. list_ex (\<lambda>d. d \<in> set ?ext) (ts_depends_on t)) tasks"
  have fold: "fold mark_complete ss g = fold dag_step (map MarkComplete ss) g" for ss
    by (induction ss arbitrary: g) simp_all
  have "newly = [] \<and> g' = g \<or> (\<exists>sat. resolve_satisfied_dependencies merged issue_state ?dep {} = Inr sat
      \<and> newly = sort (filter (\<lambda>d. d \<in> sat \<and> d \<notin> dag_completed g) ?ext) \<and> g' = fold mark_complete newly g)"
  proof (cases "?ext = []")
    case True
    with assms u show ?thesis by (simp only: refresh_external_satisfied_def py_bind.simps Let_def if_True) simp
  next
    case False
    with assms u show ?thesis
      by (simp only: refresh_external_satisfied_def py_bind.simps Let_def if_False) (auto simp: py_bind_eq_Inr simp del: set_remdups)
  qed
  then show "g' = fold dag_step (map MarkComplete newly) g"
    and "\<forall>d \<in> set newly. d \<notin> ts_slug ` set tasks \<and> externally_satisfied merged issue_state d"
    using resolve_external_sound [of merged issue_state "external_deps ?dep" "{}"]
    by (auto simp: fold resolve_satisfied_dependencies_def)
qed

lemma event_marks:
  assumes "in_manifest (ts_slug ` set tasks) ev"
  shows "\<exists>ops. sr_dag (run_event_step tasks ev run) = fold dag_step ops (sr_dag run)
    \<and> {s. MarkSkipped s \<in> set ops} \<subseteq> ts_slug ` set tasks
    \<and> (\<forall>d. MarkComplete d \<in> set ops \<longrightarrow> releases (ts_slug ` set tasks) d ev)"
proof (cases ev)
  case (Recorded t r)
  with assms show ?thesis
    by (intro exI [of _ "[result_mark (t, r)]"]) (auto simp: classify_and_record_parts classify_lands(1))
next
  case (Refreshed merged issue_state)
  show ?thesis
  proof (cases "refresh_external_satisfied merged issue_state tasks (sr_dag run)")
    case (Inl e)
    with Refreshed show ?thesis by (intro exI [of _ "[]"]) simp
  next
    case (Inr p)
    obtain newly g where p: "p = (newly, g)" by force
    note s = refresh_sound [OF Inr [unfolded p]]
    from s(2) show ?thesis
      by (intro exI [of _ "map MarkComplete newly"]) (auto simp: Refreshed Inr p s(1))
  qed
next
  case (SkippedStory s)
  with assms show ?thesis by (intro exI [of _ "[MarkSkipped s]"]) simp
qed

lemma run_marks:
  assumes "\<forall>ev \<in> set evs. in_manifest (ts_slug ` set tasks) ev"
  shows "\<exists>ops. sr_dag (fold (run_event_step tasks) evs run) = fold dag_step ops (sr_dag run)
    \<and> {s. MarkSkipped s \<in> set ops} \<subseteq> ts_slug ` set tasks
    \<and> (\<forall>d. MarkComplete d \<in> set ops \<longrightarrow> (\<exists>ev \<in> set evs. releases (ts_slug ` set tasks) d ev))"
  using assms
proof (induction evs arbitrary: run)
  case Nil
  show ?case by (rule exI [of _ "[]"]) simp
next
  case (Cons ev evs)
  from Cons.prems have evm: "in_manifest (ts_slug ` set tasks) ev" and rest: "\<forall>ev \<in> set evs. in_manifest (ts_slug ` set tasks) ev" by simp_all
  from event_marks [OF evm] obtain ops where o1: "sr_dag (run_event_step tasks ev run) = fold dag_step ops (sr_dag run)"
    "{s. MarkSkipped s \<in> set ops} \<subseteq> ts_slug ` set tasks" "\<forall>d. MarkComplete d \<in> set ops \<longrightarrow> releases (ts_slug ` set tasks) d ev" by blast
  from Cons.IH [OF rest, of "run_event_step tasks ev run"] obtain ops' where
    o2: "sr_dag (fold (run_event_step tasks) evs (run_event_step tasks ev run)) = fold dag_step ops' (sr_dag (run_event_step tasks ev run))"
    "{s. MarkSkipped s \<in> set ops'} \<subseteq> ts_slug ` set tasks"
    "\<forall>d. MarkComplete d \<in> set ops' \<longrightarrow> (\<exists>ev \<in> set evs. releases (ts_slug ` set tasks) d ev)" by blast
  from o1 o2 show ?case by (intro exI [of _ "ops @ ops'"]) auto
qed

text \<open>C15. Dependents wait for landings: however stories finish, are skipped and dependencies outside the manifest are looked
  up, in any order, the scheduler offers a story only when each of its hard dependencies was satisfied before the run, or some
  recorded result of that dependency put its work on the base branch, or it lies outside the manifest and a
  lookup found its branch merged or its issue closed; approved but unmerged, failed, skipped and
  decomposed stories release nobody.\<close>

theorem dependents_wait_for_landing:
  assumes "distinct (map ts_slug tasks)" and "build_dag tasks sat = Inr (sr_dag run)"
    and "\<forall>ev \<in> set evs. in_manifest (ts_slug ` set tasks) ev"
    and "u \<in> set (dag_ready (sr_dag (fold (run_event_step tasks) evs run)))"
    and "d \<in> set (ts_depends_on u)"
  shows "d \<in> sat \<or> (\<exists>t r. Recorded t r \<in> set evs \<and> ts_slug t = d \<and> lands r)
    \<or> d \<notin> ts_slug ` set tasks \<and> (\<exists>merged issue_state. Refreshed merged issue_state \<in> set evs \<and> externally_satisfied merged issue_state d)"
proof -
  have g: "sr_dag run = new_story_dag tasks sat" by (rule build_dag_Inr [OF assms(2)])
  from run_marks [OF assms(3), of run] obtain ops where ops:
    "sr_dag (fold (run_event_step tasks) evs run) = fold dag_step ops (new_story_dag tasks sat)"
    "{s. MarkSkipped s \<in> set ops} \<subseteq> ts_slug ` set tasks"
    "\<forall>d. MarkComplete d \<in> set ops \<longrightarrow> (\<exists>ev \<in> set evs. releases (ts_slug ` set tasks) d ev)" unfolding g by blast
  from assms(4) have "set (ts_depends_on u) \<subseteq> dag_completed (fold dag_step ops (new_story_dag tasks sat))"
    unfolding ops(1) ready_run_new [OF assms(1) ops(2)] by blast
  with assms(5) have "d \<in> sat \<or> MarkComplete d \<in> set ops" by (auto simp: dag_run_completed)
  moreover have "(\<exists>t r. ev = Recorded t r \<and> ts_slug t = d \<and> lands r)
      \<or> d \<notin> ts_slug ` set tasks \<and> (\<exists>merged issue_state. ev = Refreshed merged issue_state \<and> externally_satisfied merged issue_state d)"
    if "releases (ts_slug ` set tasks) d ev" for ev
    using that by (cases ev) auto
  ultimately show ?thesis using ops(3) by blast
qed

theorem dependents_wait_for_landing_witness:
  "\<exists>u. u \<in> set (dag_ready (sr_dag (fold (run_event_step two_stories) [Recorded (two_stories ! 0) landed_result] two_story_run)))
     \<and> ''issue-1'' \<in> set (ts_depends_on u)
     \<and> (\<exists>t r. Recorded t r \<in> set [Recorded (two_stories ! 0) landed_result] \<and> ts_slug t = ''issue-1'' \<and> lands r)"
proof -
  let ?u = "two_stories ! 1" and ?evs = "[Recorded (two_stories ! 0) landed_result]"
  have d: "distinct (map ts_slug two_stories)" by (simp add: two_stories_def)
  have b: "build_dag two_stories {} = Inr (sr_dag two_story_run)" unfolding two_story_run_def by code_simp
  have m: "\<forall>ev \<in> set ?evs. in_manifest (ts_slug ` set two_stories) ev" by (simp add: two_stories_def)
  have "dag_ready (sr_dag (fold record_result [(two_stories ! 0, landed_result)] two_story_run)) = [?u]" by code_simp
  then have u: "?u \<in> set (dag_ready (sr_dag (fold (run_event_step two_stories) ?evs two_story_run)))" by simp
  have h: "''issue-1'' \<in> set (ts_depends_on ?u)" "''issue-1'' \<in> ts_slug ` set two_stories" by (simp_all add: two_stories_def)
  from dependents_wait_for_landing [OF d b m u h(1)] u h show ?thesis by blast
qed

text \<open>The refresh releases exactly what was satisfied meanwhile: after any marks of a run, it finds the
  unmet hard dependencies of unfinished stories that lie outside the manifest and whose branch has
  landed or whose issue is no longer open, adds those and nothing else to the completed slugs, and
  finishes no story.\<close>

theorem refresh_releases_exactly:
  assumes "distinct (map ts_slug tasks)" and "{s. MarkSkipped s \<in> set ops} \<subseteq> ts_slug ` set tasks"
    and "\<forall>t \<in> set tasks. set (ts_collision_deps t) \<subseteq> ts_slug ` set tasks"
    and "\<forall>n. reply_readable (issue_state n)"
    and "g = fold dag_step ops (new_story_dag tasks sat)"
  shows "\<exists>newly g'. refresh_external_satisfied merged issue_state tasks g = Inr (newly, g')
     \<and> set newly = {d. (\<exists>t \<in> set (dag_remaining g). d \<in> set (ts_depends_on t)) \<and> d \<notin> ts_slug ` set tasks
          \<and> d \<notin> dag_completed g \<and> externally_satisfied merged issue_state d}
     \<and> dag_completed g' = dag_completed g \<union> set newly \<and> dag_finished g' = dag_finished g"
proof -
  have ok: "dag_ok g" unfolding assms(5) using assms(2) by (intro dag_ok_run dag_ok_new) simp
  have rem: "set (dag_remaining g) \<subseteq> set tasks"
    unfolding subset_iff remaining_iff [OF ok] using tasks_new [OF assms(1)] by (simp add: assms(5))
  from unmet_remaining [OF assms(1-3), of sat] obtain us where us: "unmet_of_all g (dag_remaining g) = Inr us"
    "set us - ts_slug ` set tasks =
       {d. \<exists>t \<in> set (dag_remaining g). d \<in> set (ts_depends_on t)} - dag_completed g - ts_slug ` set tasks"
    unfolding assms(5) by blast
  let ?ext = "filter (\<lambda>d. d \<notin> ts_slug ` set tasks) (remdups us)"
  let ?dep = "filter (\<lambda>t. list_ex (\<lambda>d. d \<in> set ?ext) (ts_depends_on t)) tasks"
  let ?S = "{d \<in> (\<Union>t \<in> set ?dep. set (ts_depends_on t)) - ts_slug ` set ?dep. externally_satisfied merged issue_state d}"
  let ?new = "sort (filter (\<lambda>d. d \<in> ?S \<and> d \<notin> dag_completed g) ?ext)"
  have S: "resolve_satisfied_dependencies merged issue_state ?dep {} = Inr ?S"
    unfolding resolve_satisfied_eq [OF assms(4)] by simp
  have ext: "d \<in> set ?ext \<longleftrightarrow> (\<exists>t \<in> set (dag_remaining g). d \<in> set (ts_depends_on t)) \<and> d \<notin> ts_slug ` set tasks
      \<and> d \<notin> dag_completed g" for d
    using us(2) by auto
  have new: "set ?new = {d. (\<exists>t \<in> set (dag_remaining g). d \<in> set (ts_depends_on t)) \<and> d \<notin> ts_slug ` set tasks
          \<and> d \<notin> dag_completed g \<and> externally_satisfied merged issue_state d}" (is "_ = ?R")
  proof (rule set_eqI)
    fix d
    show "d \<in> set ?new \<longleftrightarrow> d \<in> ?R"
    proof (cases "d \<in> set ?ext")
      case True
      with ext obtain t where "t \<in> set (dag_remaining g)" "d \<in> set (ts_depends_on t)" by blast
      with rem True have "t \<in> set ?dep" "d \<in> set (ts_depends_on t)" by (auto simp: list_ex_iff)
      moreover from True ext have "d \<notin> ts_slug ` set ?dep" by auto
      ultimately have "d \<in> ?S \<longleftrightarrow> externally_satisfied merged issue_state d" by blast
      with True ext [of d] show ?thesis by simp
    next
      case False
      with ext [of d] show ?thesis by auto
    qed
  qed
  have res: "refresh_external_satisfied merged issue_state tasks g = Inr (?new, fold mark_complete ?new g)"
  proof (cases "?ext = []")
    case True
    then have "?new = []" by (simp only: filter.simps sort_eq_Nil)
    with True show ?thesis by (simp only: refresh_external_satisfied_def us(1) py_bind.simps Let_def fold_simps if_True simp_thms)
  next
    case False
    then show ?thesis by (simp only: refresh_external_satisfied_def us(1) py_bind.simps Let_def S if_False)
  qed
  have "\<forall>s \<in> set ?new. dict_get (dag_tasks g) s = None"
    using new manifest_new [of tasks sat] by (auto simp: assms(5) map_of_eq_None_iff manifest_slugs_def)
  from fold_mark_complete_outside [OF this] res new show ?thesis by blast
qed

theorem refresh_releases_exactly_witness:
  "\<exists>newly g'. refresh_external_satisfied (\<lambda>s. s = ''lib'') (\<lambda>n. GhFailed) [(two_stories ! 0)\<lparr>ts_depends_on := [''lib'']\<rparr>]
       (fold dag_step [] (new_story_dag [(two_stories ! 0)\<lparr>ts_depends_on := [''lib'']\<rparr>] {})) = Inr (newly, g')
     \<and> ''lib'' \<in> set newly"
proof -
  let ?ts = "[(two_stories ! 0)\<lparr>ts_depends_on := [''lib'']\<rparr>]"
  let ?g = "fold dag_step [] (new_story_dag ?ts {})"
  have d: "distinct (map ts_slug ?ts)" by simp
  have k: "{s. MarkSkipped s \<in> set []} \<subseteq> ts_slug ` set ?ts" by simp
  have c: "\<forall>t \<in> set ?ts. set (ts_collision_deps t) \<subseteq> ts_slug ` set ?ts" by (simp add: two_stories_def)
  have r: "\<forall>n :: int. reply_readable ((\<lambda>n. GhFailed) n)" by (simp add: reply_readable_def)
  have "dag_remaining ?g = ?ts" by code_simp
  then have "\<exists>t \<in> set (dag_remaining ?g). ''lib'' \<in> set (ts_depends_on t)" by simp
  moreover have "''lib'' \<notin> ts_slug ` set ?ts" "''lib'' \<notin> dag_completed ?g" by (simp_all add: two_stories_def)
  ultimately show ?thesis
    using refresh_releases_exactly [OF d k c r refl, of "\<lambda>s. s = ''lib''" "{}"] by (fastforce simp: externally_satisfied_def)
qed

end
