(* ===== verification/Finding_Registry.thy ===== *)
theory Finding_Registry
  imports Forge_Prelude "HOL-Library.Multiset"
begin

text \<open>
  Classification of review findings across cycles (\<^verbatim>\<open>finding_classifier.py\<close>): the findings of a cycle
  are grouped into buckets by reviewers' agreement and line proximity, each bucket is matched
  against the registry of earlier cycles, and the dispositions decide whether a P1 finding blocks.
  The records of the registry are shared objects the code updates in place: here they are the cells
  of a list, and a reference to one is its index.
\<close>

section \<open>Model\<close>

record review_finding =
  rf_severity :: string
  rf_file :: "string option"
  rf_line :: "int option"
  rf_description :: string

record finding_record =
  fr_finding_id :: string
  fr_cycle_first_seen :: int
  fr_cycle_last_seen :: int
  fr_file :: "string option"
  fr_line :: "int option"
  fr_severity :: string
  fr_description :: string
  fr_reporter :: string
  fr_disposition :: string
  fr_recorded_at :: "string option"

text \<open>\<^verbatim>\<open>re.sub(r"[^\w\s]", " ", text)\<close> keeps word characters and white space.\<close>

definition word_or_space :: "char \<Rightarrow> char" where
  "word_or_space c = (if py_isalnum c \<or> c = CHR ''_'' \<or> py_isspace c then c else CHR '' '')"

definition normalize_tokens :: "string \<Rightarrow> string set" where
  "normalize_tokens text = set (filter (\<lambda>t. length t > 2) (py_split (map word_or_space (py_lower text))))"

text \<open>
  The sixteen digits of SHA-256 are a function of the text hashed; the function is an argument.
\<close>

definition fingerprint_text :: "string \<Rightarrow> string option \<Rightarrow> string \<Rightarrow> int option \<Rightarrow> string" where
  "fingerprint_text severity file description line =
     severity @ ''|'' @ (case file of None \<Rightarrow> [] | Some f \<Rightarrow> f) @ ''|''
     @ (case line of None \<Rightarrow> [] | Some n \<Rightarrow> py_str_int n) @ ''|''
     @ py_join '' '' (sorted_list_of_set (normalize_tokens description))"

definition fingerprint :: "(string \<Rightarrow> string) \<Rightarrow> review_finding \<Rightarrow> string" where
  "fingerprint digest f = digest (fingerprint_text (rf_severity f) (rf_file f) (rf_description f) (rf_line f))"

definition jaccard :: "string set \<Rightarrow> string set \<Rightarrow> rat" where
  "jaccard a b = (if a = {} \<and> b = {} then 1 else if a = {} \<or> b = {} then 0
     else of_nat (card (a \<inter> b)) / of_nat (card (a \<union> b)))"

definition jaccard_threshold :: rat where
  "jaccard_threshold = 1 / 2"

definition is_resolution_commentary :: "string \<Rightarrow> bool" where
  "is_resolution_commentary description =
     (let tokens = normalize_tokens description
      in tokens \<inter> {''fixed'', ''resolved'', ''addressed''} \<noteq> {}
         \<and> tokens \<inter> {''prior'', ''previous'', ''cycle'', ''finding'', ''issue''} \<noteq> {})"

definition matches_prior_agnostic :: "review_finding \<Rightarrow> finding_record \<Rightarrow> bool" where
  "matches_prior_agnostic f r =
     (if is_resolution_commentary (rf_description f) then False
      else if rf_file f \<noteq> fr_file r then False
      else jaccard (normalize_tokens (rf_description f)) (normalize_tokens (fr_description r)) \<ge> jaccard_threshold)"

definition matches_prior :: "review_finding \<Rightarrow> finding_record \<Rightarrow> bool" where
  "matches_prior f r =
     (if is_resolution_commentary (rf_description f) then False
      else if rf_file f \<noteq> fr_file r then False
      else if rf_severity f \<noteq> fr_severity r then False
      else jaccard (normalize_tokens (rf_description f)) (normalize_tokens (fr_description r)) \<ge> jaccard_threshold)"

definition matches_fixed_finding_regression_candidate :: "review_finding \<Rightarrow> finding_record \<Rightarrow> bool" where
  "matches_fixed_finding_regression_candidate f r =
     (if fr_disposition r \<noteq> ''fixed'' then False
      else if is_resolution_commentary (rf_description f) then False
      else if matches_prior f r then True
      else rf_file f = fr_file r \<and> rf_severity f = fr_severity r
           \<and> rf_line f \<noteq> None \<and> fr_line r \<noteq> None \<and> rf_line f = fr_line r)"

subsection \<open>Buckets\<close>

type_synonym bucket = "(string \<times> review_finding) list"

definition jaccard_matches_bucket :: "string \<Rightarrow> review_finding \<Rightarrow> bucket \<Rightarrow> bool" where
  "jaccard_matches_bucket reviewer f b =
     (if reviewer \<in> fst ` set b then False
      else list_ex (\<lambda>(r, e). rf_severity e = rf_severity f \<and> rf_file e = rf_file f
             \<and> jaccard (normalize_tokens (rf_description f)) (normalize_tokens (rf_description e)) \<ge> jaccard_threshold) b)"

definition comparable :: "bucket \<Rightarrow> review_finding list" where
  "comparable b = filter (\<lambda>f. rf_file f \<noteq> None \<and> rf_line f \<noteq> None) (map snd b)"

definition should_merge_line_proximity :: "bucket \<Rightarrow> bucket \<Rightarrow> bool" where
  "should_merge_line_proximity a b =
     (if comparable a = [] \<or> comparable b = [] then False
      else list_all (\<lambda>f. list_all (\<lambda>g. rf_severity f = rf_severity g \<and> rf_file f = rf_file g
             \<and> abs (the (rf_line f) - the (rf_line g)) \<le> 3) (comparable b)) (comparable a))"

definition all_findings :: "(string \<times> review_finding list) list \<Rightarrow> (string \<times> review_finding) list" where
  "all_findings cycle_results = concat (map (\<lambda>(reviewer, fs). map (\<lambda>f. (reviewer, f)) fs) cycle_results)"

fun assign_bucket :: "string \<times> review_finding \<Rightarrow> bucket list \<Rightarrow> bucket list" where
  "assign_bucket rf [] = [[rf]]"
| "assign_bucket rf (b # bs) =
     (if jaccard_matches_bucket (fst rf) (snd rf) b then (b @ [rf]) # bs else b # assign_bucket rf bs)"

definition jaccard_buckets :: "(string \<times> review_finding) list \<Rightarrow> bucket list" where
  "jaccard_buckets findings = fold assign_bucket findings []"

text \<open>The inner loop over \<^verbatim>\<open>j\<close>: the bucket in hand with what it absorbed, and the buckets left.\<close>

fun absorb :: "bucket \<Rightarrow> bucket list \<Rightarrow> bucket \<times> bucket list" where
  "absorb b [] = (b, [])"
| "absorb b (c # cs) =
     (if should_merge_line_proximity b c then absorb (b @ c) cs
      else (case absorb b cs of (b', rest) \<Rightarrow> (b', c # rest)))"

lemma absorb_length: "length (snd (absorb b cs)) \<le> length cs"
  by (induction b cs rule: absorb.induct) (auto split: prod.splits)

function merge_buckets :: "bucket list \<Rightarrow> bucket list" where
  "merge_buckets [] = []"
| "merge_buckets (b # bs) = fst (absorb b bs) # merge_buckets (snd (absorb b bs))"
  by pat_completeness auto

termination merge_buckets
  by (relation "measure length") (auto simp: absorb_length le_imp_less_Suc)

definition merged_reports :: "(string \<Rightarrow> string) \<Rightarrow> bucket list \<Rightarrow> (string, bucket) dict" where
  "merged_reports digest buckets = dict_of (map (\<lambda>b. (fingerprint digest (snd (hd b)), b)) buckets)"

subsection \<open>The registry\<close>

fun find_index_from :: "('a \<Rightarrow> bool) \<Rightarrow> nat \<Rightarrow> 'a list \<Rightarrow> nat option" where
  "find_index_from P i [] = None"
| "find_index_from P i (x # xs) = (if P x then Some i else find_index_from P (Suc i) xs)"

text \<open>The two searches for a prior record: the index and whether it is a severity downgrade.\<close>

definition prior_match :: "review_finding \<Rightarrow> finding_record list \<Rightarrow> (nat \<times> bool) option" where
  "prior_match f prior =
     (case find_index_from (matches_prior f) 0 prior of
        Some i \<Rightarrow> Some (i, False)
      | None \<Rightarrow>
         (case find_index_from (matches_prior_agnostic f) 0 prior of
            None \<Rightarrow> None
          | Some i \<Rightarrow> if fr_severity (prior ! i) = ''P1'' \<and> rf_severity f = ''P2'' then Some (i, True) else None))"

definition open_dispositions :: "string list" where
  "open_dispositions = [''unresolved'', ''net_new'', ''corroborated_new'', ''regression'', ''ac_blocking'', ''diff_ungrounded'']"

definition recurrence_disposition :: "bool \<Rightarrow> string \<Rightarrow> string" where
  "recurrence_disposition is_severity_downgrade old =
     (if is_severity_downgrade then ''downgraded''
      else if old \<in> set open_dispositions then ''unresolved''
      else if old = ''fixed'' then ''regression''
      else ''unresolved'')"

record classify_state =
  cs_registry :: "finding_record list"
  cs_classified :: "nat list"

text \<open>
  One iteration of the classification loop; \<open>n\<close> is the length of the registry when the cycle began,
  so the first \<open>n\<close> cells are the snapshot \<^verbatim>\<open>prior_registry\<close>. \<open>now\<close> is the clock reading.
\<close>

definition classify_bucket ::
    "nat \<Rightarrow> int \<Rightarrow> string \<Rightarrow> string \<times> bucket \<Rightarrow> classify_state \<Rightarrow> classify_state" where
  "classify_bucket n cycle_num now fb st =
     (let fp = fst fb; reports = snd fb; first_reviewer = fst (hd reports); f = snd (hd reports);
          prior = take n (cs_registry st)
      in case prior_match f prior of
           Some (i, downgrade) \<Rightarrow>
             (let r = cs_registry st ! i;
                  r' = r\<lparr>fr_cycle_last_seen := cycle_num,
                         fr_disposition := recurrence_disposition downgrade (fr_disposition r)\<rparr>
              in \<lparr>cs_registry = (cs_registry st)[i := r'], cs_classified = cs_classified st @ [i]\<rparr>)
         | None \<Rightarrow>
             (let disposition =
                    (if list_ex (matches_fixed_finding_regression_candidate f) prior then ''regression''
                     else if length (remdups (map fst reports)) \<ge> 2 then ''corroborated_new''
                     else ''net_new'');
                  r = \<lparr>fr_finding_id = fp, fr_cycle_first_seen = cycle_num, fr_cycle_last_seen = cycle_num,
                       fr_file = rf_file f, fr_line = rf_line f, fr_severity = rf_severity f,
                       fr_description = rf_description f, fr_reporter = first_reviewer,
                       fr_disposition = disposition, fr_recorded_at = Some now\<rparr>
              in \<lparr>cs_registry = cs_registry st @ [r],
                  cs_classified = cs_classified st @ [length (cs_registry st)]\<rparr>))"

definition mark_fixed :: "int \<Rightarrow> finding_record \<Rightarrow> finding_record" where
  "mark_fixed cycle_num r =
     (if fr_cycle_last_seen r < cycle_num \<and> fr_severity r = ''P1'' \<and> fr_disposition r \<in> set open_dispositions
      then r\<lparr>fr_disposition := ''fixed''\<rparr> else r)"

definition update_finding_registry ::
    "(string \<Rightarrow> string) \<Rightarrow> string \<Rightarrow> finding_record list \<Rightarrow> (string \<times> review_finding list) list \<Rightarrow> int
      \<Rightarrow> finding_record list \<times> finding_record list" where
  "update_finding_registry digest now registry cycle_results cycle_num =
     (let buckets = merge_buckets (jaccard_buckets (all_findings cycle_results));
          st = fold (classify_bucket (length registry) cycle_num now) (merged_reports digest buckets)
                 \<lparr>cs_registry = registry, cs_classified = []\<rparr>;
          final = map (mark_fixed cycle_num) (cs_registry st)
      in (final, map (\<lambda>i. final ! i) (cs_classified st)))"

definition blocking_dispositions :: "string list" where
  "blocking_dispositions = [''unresolved'', ''regression'', ''corroborated_new'', ''ac_blocking'']"

definition blocks :: "finding_record \<Rightarrow> bool" where
  "blocks r \<longleftrightarrow> fr_severity r = ''P1'' \<and> fr_disposition r \<in> set blocking_dispositions"

definition has_blocking_p1 :: "finding_record list \<Rightarrow> bool" where
  "has_blocking_p1 classified = list_ex blocks classified"

definition net_new_p1s :: "finding_record list \<Rightarrow> finding_record list" where
  "net_new_p1s classified = filter (\<lambda>r. fr_severity r = ''P1'' \<and> fr_disposition r = ''net_new'') classified"

section \<open>No report is lost on the way into the buckets\<close>

lemma assign_bucket_mset: "mset (concat (assign_bucket rf bs)) = add_mset rf (mset (concat bs))"
  by (induction rf bs rule: assign_bucket.induct) auto

lemma jaccard_buckets_mset: "mset (concat (jaccard_buckets fs)) = mset fs"
proof -
  have "mset (concat (fold assign_bucket fs bs)) = mset fs + mset (concat bs)" for bs
    by (induction fs arbitrary: bs) (simp_all add: assign_bucket_mset)
  then show ?thesis by (simp add: jaccard_buckets_def)
qed

lemma absorb_mset: "mset (fst (absorb b cs)) + mset (concat (snd (absorb b cs))) = mset b + mset (concat cs)"
  by (induction b cs rule: absorb.induct) (auto split: prod.splits simp: ac_simps)

lemma merge_buckets_mset: "mset (concat (merge_buckets bs)) = mset (concat bs)"
proof (induction bs rule: merge_buckets.induct)
  case (2 b bs)
  then show ?case using absorb_mset [of b bs] by simp
qed simp

lemma assign_bucket_nonempty: "[] \<notin> set bs \<Longrightarrow> [] \<notin> set (assign_bucket rf bs)"
  by (induction rf bs rule: assign_bucket.induct) auto

lemma jaccard_buckets_nonempty: "[] \<notin> set (jaccard_buckets fs)"
proof -
  have "[] \<notin> set bs \<Longrightarrow> [] \<notin> set (fold assign_bucket fs bs)" for bs
    by (induction fs arbitrary: bs) (simp_all add: assign_bucket_nonempty)
  then show ?thesis by (simp add: jaccard_buckets_def)
qed

lemma absorb_nonempty: "b \<noteq> [] \<Longrightarrow> [] \<notin> set cs \<Longrightarrow> fst (absorb b cs) \<noteq> [] \<and> [] \<notin> set (snd (absorb b cs))"
  by (induction b cs rule: absorb.induct) (auto split: prod.splits)

lemma merge_buckets_nonempty: "[] \<notin> set bs \<Longrightarrow> [] \<notin> set (merge_buckets bs)"
proof (induction bs rule: merge_buckets.induct)
  case (2 b bs)
  then show ?case using absorb_nonempty [of b bs] by auto
qed simp

text \<open>A bucket has at most one report of a reviewer before lines are looked at.\<close>

lemma assign_bucket_reviewers:
  "\<forall>b \<in> set bs. distinct (map fst b) \<Longrightarrow> b \<in> set (assign_bucket rf bs) \<Longrightarrow> distinct (map fst b)"
  by (induction rf bs rule: assign_bucket.induct) (auto simp: jaccard_matches_bucket_def split: if_splits)

lemma jaccard_buckets_reviewers: "b \<in> set (jaccard_buckets fs) \<Longrightarrow> distinct (map fst b)"
proof -
  have "\<forall>b \<in> set bs. distinct (map fst b) \<Longrightarrow> \<forall>b \<in> set (fold assign_bucket fs bs). distinct (map fst b)" for bs
    by (induction fs arbitrary: bs) (auto dest: assign_bucket_reviewers)
  from this [of "[]"] show "b \<in> set (jaccard_buckets fs) \<Longrightarrow> distinct (map fst b)"
    unfolding jaccard_buckets_def by simp
qed

section \<open>What a cycle does to the registry\<close>

definition same_identity :: "finding_record \<Rightarrow> finding_record \<Rightarrow> bool" where
  "same_identity r r' \<longleftrightarrow> fr_finding_id r' = fr_finding_id r \<and> fr_cycle_first_seen r' = fr_cycle_first_seen r
     \<and> fr_file r' = fr_file r \<and> fr_line r' = fr_line r \<and> fr_severity r' = fr_severity r
     \<and> fr_description r' = fr_description r \<and> fr_reporter r' = fr_reporter r \<and> fr_recorded_at r' = fr_recorded_at r"

definition cycle_inv :: "finding_record list \<Rightarrow> int \<Rightarrow> classify_state \<Rightarrow> bool" where
  "cycle_inv R cycle st \<longleftrightarrow> length R \<le> length (cs_registry st)
     \<and> (\<forall>i \<in> set (cs_classified st). i < length (cs_registry st) \<and> fr_cycle_last_seen (cs_registry st ! i) = cycle)
     \<and> (\<forall>i < length (cs_registry st). i \<notin> set (cs_classified st) \<longrightarrow> i < length R \<and> cs_registry st ! i = R ! i)
     \<and> (\<forall>i < length R. same_identity (R ! i) (cs_registry st ! i))"

lemma find_index_bound: "find_index_from P i xs = Some j \<Longrightarrow> i \<le> j \<and> j < i + length xs \<and> P (xs ! (j - i))"
proof (induction P i xs rule: find_index_from.induct)
  case (2 P i x xs)
  show ?case
  proof (cases "P x")
    case False
    with 2 have j: "Suc i \<le> j" "j < Suc i + length xs" "P (xs ! (j - Suc i))" by simp_all
    from j(1) have "j - i = Suc (j - Suc i)" by simp
    with j show ?thesis by simp
  qed (use 2 in auto)
qed simp

lemma prior_match_bound: "prior_match f prior = Some (i, d) \<Longrightarrow> i < length prior"
  by (auto simp: prior_match_def split: option.splits if_splits dest: find_index_bound)

lemma same_identity_refl [simp]: "same_identity r r"
  by (simp add: same_identity_def)

lemma classify_bucket_inv:
  assumes "cycle_inv R cycle st"
  shows "cycle_inv R cycle (classify_bucket (length R) cycle now fb st)"
proof (cases "prior_match (snd (hd (snd fb))) (take (length R) (cs_registry st))")
  case None
  with assms show ?thesis
    by (auto simp: classify_bucket_def Let_def cycle_inv_def nth_append less_Suc_eq)
next
  case (Some p)
  obtain i d where p: "p = (i, d)" by force
  from prior_match_bound [OF Some [unfolded p]] assms have i: "i < length R" "i < length (cs_registry st)"
    by (auto simp: cycle_inv_def)
  with assms Some p show ?thesis
    by (auto simp: classify_bucket_def Let_def cycle_inv_def nth_list_update same_identity_def)
qed

lemma classify_run_inv: "cycle_inv R cycle st \<Longrightarrow> cycle_inv R cycle (fold (classify_bucket (length R) cycle now) fbs st)"
  by (induction fbs arbitrary: st) (simp_all add: classify_bucket_inv)

lemma mark_fixed_identity [simp]: "same_identity r (mark_fixed c r)" "fr_cycle_last_seen (mark_fixed c r) = fr_cycle_last_seen r"
  by (simp_all add: mark_fixed_def same_identity_def)

lemma same_identity_trans: "same_identity a b \<Longrightarrow> same_identity b c \<Longrightarrow> same_identity a c"
  by (simp add: same_identity_def)

lemma mark_fixed_blocks: "fr_cycle_last_seen r < c \<Longrightarrow> \<not> blocks (mark_fixed c r)"
  by (auto simp: mark_fixed_def blocks_def blocking_dispositions_def open_dispositions_def)

lemma mark_fixed_seen: "fr_cycle_last_seen r = c \<Longrightarrow> mark_fixed c r = r"
  by (simp add: mark_fixed_def)

lemma update_result:
  assumes "update_finding_registry digest now R rs cycle = (final, classified)"
  shows "\<exists>st. cycle_inv R cycle st \<and> final = map (mark_fixed cycle) (cs_registry st)
     \<and> classified = map (\<lambda>i. final ! i) (cs_classified st)"
proof -
  let ?st = "fold (classify_bucket (length R) cycle now) (merged_reports digest (merge_buckets (jaccard_buckets (all_findings rs))))
                 \<lparr>cs_registry = R, cs_classified = []\<rparr>"
  have "cycle_inv R cycle ?st" by (rule classify_run_inv) (simp add: cycle_inv_def)
  with assms show ?thesis by (auto simp: update_finding_registry_def Let_def)
qed

section \<open>Properties\<close>

text \<open>Grouping loses nothing: the buckets of a cycle, after the line-proximity pass, hold exactly the
  findings the reviewers reported, each as often as reported, and no bucket is empty; before that
  pass no bucket has two reports of one reviewer, so corroboration counts distinct reviewers.\<close>

theorem buckets_keep_reports:
  "mset (concat (merge_buckets (jaccard_buckets (all_findings rs)))) = mset (all_findings rs)
    \<and> [] \<notin> set (merge_buckets (jaccard_buckets (all_findings rs)))
    \<and> list_all (\<lambda>b. distinct (map fst b)) (jaccard_buckets (all_findings rs))"
  by (simp add: merge_buckets_mset jaccard_buckets_mset merge_buckets_nonempty jaccard_buckets_nonempty
      list_all_iff jaccard_buckets_reviewers)

text \<open>C33. What the exit criterion sees of the registry: a record that was there keeps its identity, and is either among
  the records classified in this cycle, as seen in it, or only marked fixed where it was an open P1 last seen in an
  earlier cycle. So the registry has a blocking P1 exactly when the classified list has one, or a blocking record stayed
  in it that was last seen under the number of this cycle or a later one, which happens only where the count was set back.
  Where every record was last seen before, the classified list and the whole registry agree.\<close>

theorem gate_reads_whole_registry:
  assumes "update_finding_registry digest now registry rs cycle_num = (final, classified)"
  shows "(has_blocking_p1 final
        \<longleftrightarrow> has_blocking_p1 classified
          \<or> list_ex (\<lambda>r. blocks r \<and> cycle_num \<le> fr_cycle_last_seen r \<and> r \<in> set final) registry)
    \<and> ((\<forall>r \<in> set registry. fr_cycle_last_seen r < cycle_num) \<longrightarrow>
        has_blocking_p1 classified = has_blocking_p1 final \<and> (\<forall>r \<in> set final. blocks r \<longrightarrow> fr_cycle_last_seen r = cycle_num))
    \<and> set classified \<subseteq> set final \<and> (\<forall>r \<in> set classified. fr_cycle_last_seen r = cycle_num)
    \<and> length registry \<le> length final
    \<and> (\<forall>i < length registry. same_identity (registry ! i) (final ! i)
        \<and> (final ! i \<in> set classified \<or> final ! i = mark_fixed cycle_num (registry ! i)))
    \<and> (\<forall>i. length registry \<le> i \<and> i < length final \<longrightarrow> final ! i \<in> set classified)"
proof -
  from update_result [OF assms] obtain st where inv: "cycle_inv registry cycle_num st"
    and final: "final = map (mark_fixed cycle_num) (cs_registry st)"
    and cl: "classified = map (\<lambda>i. final ! i) (cs_classified st)" by blast
  have len: "length registry \<le> length final" using inv by (simp add: cycle_inv_def final)
  have bound: "\<forall>i \<in> set (cs_classified st). i < length final \<and> fr_cycle_last_seen (final ! i) = cycle_num"
    using inv by (auto simp: cycle_inv_def final)
  then have sub: "set classified \<subseteq> set final" "\<forall>r \<in> set classified. fr_cycle_last_seen r = cycle_num"
    by (auto simp: cl)
  have place: "final ! i \<in> set classified \<or> i < length registry \<and> final ! i = mark_fixed cycle_num (registry ! i)"
    if "i < length final" for i
  proof (cases "i \<in> set (cs_classified st)")
    case False
    with inv that final show ?thesis by (auto simp: cycle_inv_def)
  qed (simp add: cl)
  have kept: "r \<in> set classified \<or> r \<in> set registry \<and> cycle_num \<le> fr_cycle_last_seen r" if "r \<in> set final" "blocks r" for r
  proof -
    from that(1) obtain i where i: "i < length final" "r = final ! i" by (auto simp: in_set_conv_nth)
    from place [OF i(1)] show ?thesis
    proof
      assume p: "i < length registry \<and> final ! i = mark_fixed cycle_num (registry ! i)"
      with that(2) i(2) have "\<not> fr_cycle_last_seen (registry ! i) < cycle_num" using mark_fixed_blocks by metis
      moreover from this p have "r = registry ! i" by (simp add: i(2) mark_fixed_def)
      ultimately show ?thesis using p by auto
    qed (simp add: i(2))
  qed
  have iff: "has_blocking_p1 final \<longleftrightarrow> has_blocking_p1 classified
      \<or> list_ex (\<lambda>r. blocks r \<and> cycle_num \<le> fr_cycle_last_seen r \<and> r \<in> set final) registry"
    unfolding has_blocking_p1_def list_ex_iff using kept sub(1) by blast
  have early: "has_blocking_p1 classified = has_blocking_p1 final \<and> (\<forall>r \<in> set final. blocks r \<longrightarrow> fr_cycle_last_seen r = cycle_num)"
    if "\<forall>r \<in> set registry. fr_cycle_last_seen r < cycle_num"
    using kept sub that unfolding has_blocking_p1_def list_ex_iff by fastforce
  have "\<forall>i < length registry. same_identity (registry ! i) (final ! i)"
    using inv by (auto simp: cycle_inv_def final intro: same_identity_trans)
  with iff early sub len place show ?thesis by (metis linorder_not_less order_less_le_trans)
qed

text \<open>Findings and a record the examples below run on.\<close>

definition parser_finding :: "string \<Rightarrow> review_finding" where
  "parser_finding severity = \<lparr>rf_severity = severity, rf_file = Some ''p.py'', rf_line = None,
     rf_description = ''drops token''\<rparr>"

definition parser_record :: finding_record where
  "parser_record = \<lparr>fr_finding_id = ''id'', fr_cycle_first_seen = 1, fr_cycle_last_seen = 1, fr_file = Some ''p.py'',
     fr_line = None, fr_severity = ''P1'', fr_description = ''drops token'', fr_reporter = ''a'',
     fr_disposition = ''net_new'', fr_recorded_at = None\<rparr>"

lemma parser_tokens: "normalize_tokens ''drops token'' = {''drops'', ''token''}"
  by code_simp

lemma parser_not_commentary: "\<not> is_resolution_commentary ''drops token''"
  by (simp add: is_resolution_commentary_def parser_tokens)

lemma parser_same_text: "jaccard {''drops'', ''token''} {''drops'', ''token''} = 1"
  by (simp add: jaccard_def)

lemmas parser_example = parser_tokens parser_not_commentary parser_same_text parser_finding_def parser_record_def
  update_finding_registry_def Let_def all_findings_def jaccard_buckets_def jaccard_matches_bucket_def
  jaccard_threshold_def should_merge_line_proximity_def comparable_def merged_reports_def fingerprint_def
  fingerprint_text_def dict_of_def dict_merge_def classify_bucket_def prior_match_def matches_prior_def matches_prior_agnostic_def
  recurrence_disposition_def open_dispositions_def mark_fixed_def has_blocking_p1_def blocks_def blocking_dispositions_def
  matches_fixed_finding_regression_candidate_def

theorem gate_reads_whole_registry_witness:
  "\<exists>final classified. update_finding_registry (\<lambda>s. s) ''now'' [parser_record] [(''a'', [parser_finding ''P1''])] 2 = (final, classified)
     \<and> has_blocking_p1 classified \<and> has_blocking_p1 final"
proof -
  obtain final classified where u:
    "update_finding_registry (\<lambda>s. s) ''now'' [parser_record] [(''a'', [parser_finding ''P1''])] 2 = (final, classified)" by force
  have "has_blocking_p1 (snd (update_finding_registry (\<lambda>s. s) ''now'' [parser_record] [(''a'', [parser_finding ''P1''])] 2))"
    by (simp add: parser_example)
  with gate_reads_whole_registry [OF u] u show ?thesis by auto
qed

text \<open>The count is set back to zero when a human extends the reviews or rejects after the last cycle, while the registry is
  kept: a P1 that blocked in cycle 3 and is reported by nobody in the cycle then numbered 1 is not marked fixed. It stays
  open in the registry and is not among the records the exit criterion reads.\<close>

theorem restarted_count_keeps_fixed_p1_open:
  "has_blocking_p1 (fst (update_finding_registry (\<lambda>s. s) ''now'' [parser_record\<lparr>fr_cycle_last_seen := 3, fr_disposition := ''unresolved''\<rparr>]
       [(''a'', [])] 1))
    \<and> \<not> has_blocking_p1 (snd (update_finding_registry (\<lambda>s. s) ''now'' [parser_record\<lparr>fr_cycle_last_seen := 3, fr_disposition := ''unresolved''\<rparr>]
       [(''a'', [])] 1))"
  by (simp add: parser_example)

text \<open>A duplicated report can hide a corroborated P1. Buckets are keyed by the fingerprint of their first
  report and a later bucket with the same key replaces the earlier one: two reviewers reporting the
  same finding without a line make it corroborated and blocking, but when the second reviewer lists
  it twice, the second copy becomes a bucket of its own under the same key and the finding is
  recorded as seen by one reviewer, which does not block.\<close>

theorem duplicate_report_hides_corroboration:
  "has_blocking_p1 (snd (update_finding_registry (\<lambda>s. s) ''now'' []
       [(''a'', [parser_finding ''P1'']), (''b'', [parser_finding ''P1''])] 1))
    \<and> \<not> has_blocking_p1 (snd (update_finding_registry (\<lambda>s. s) ''now'' []
       [(''a'', [parser_finding ''P1'']), (''b'', [parser_finding ''P1'', parser_finding ''P1''])] 1))"
  by (simp add: parser_example)

text \<open>Whether a recurring P1 blocks can depend on the order of the reviewers: when one reviewer reports it
  again as P1 and another rates the same finding P2, both update the one prior record, the last one
  wins, and a P2 listed second marks the record as downgraded although the P1 was confirmed in the
  same cycle.\<close>

theorem reviewer_order_decides_blocking:
  "\<not> has_blocking_p1 (snd (update_finding_registry (\<lambda>s. s) ''now'' [parser_record]
       [(''a'', [parser_finding ''P1'']), (''b'', [parser_finding ''P2''])] 2))
    \<and> has_blocking_p1 (snd (update_finding_registry (\<lambda>s. s) ''now'' [parser_record]
       [(''b'', [parser_finding ''P2'']), (''a'', [parser_finding ''P1''])] 2))"
  by (simp add: parser_example)

end
