(* ===== verification/Py_Json.thy ===== *)
theory Py_Json
  imports Forge_Prelude
begin

text \<open>
  The text \<^verbatim>\<open>json.dumps\<close> produces for the dynamic values of the prelude, in its default layout
  (separators \<^verbatim>\<open>", "\<close> and \<^verbatim>\<open>": "\<close>, ASCII output), with and without \<^verbatim>\<open>sort_keys\<close>. A float is
  written as its \<^verbatim>\<open>repr\<close>, whose shortest-digits algorithm is the argument \<open>float_repr\<close>.
  Values of the model are always serialisable, so \<^verbatim>\<open>default=\<close> is never consulted and no
  \<^verbatim>\<open>TypeError\<close> arises.
\<close>

section \<open>Strings\<close>

definition hex_digit :: "nat \<Rightarrow> char" where
  "hex_digit n = ''0123456789abcdef'' ! n"

definition json_char :: "char \<Rightarrow> string" where
  "json_char c = (let n = code_point c
     in if n = 34 then [CHR 0x5C, CHR 0x22]
        else if n = 92 then [CHR 0x5C, CHR 0x5C]
        else if n = 10 then [CHR 0x5C, CHR ''n'']
        else if n = 13 then [CHR 0x5C, CHR ''r'']
        else if n = 9 then [CHR 0x5C, CHR ''t'']
        else if n = 12 then [CHR 0x5C, CHR ''f'']
        else if n = 8 then [CHR 0x5C, CHR ''b'']
        else if 32 \<le> n \<and> n \<le> 126 then [c]
        else [CHR 0x5C, CHR ''u'', CHR ''0'', CHR ''0'', hex_digit (n div 16), hex_digit (n mod 16)])"

definition json_string :: "string \<Rightarrow> string" where
  "json_string s = CHR 0x22 # concat (map json_char s) @ [CHR 0x22]"

section \<open>Values\<close>

definition json_members :: "bool \<Rightarrow> (string \<times> string) list \<Rightarrow> string" where
  "json_members sort_keys members =
     ''{'' @ py_join '', '' (map (\<lambda>(k, t). json_string k @ '': '' @ t)
                (if sort_keys then sort_key fst members else members)) @ ''}''"

fun json_dumps :: "(rat \<Rightarrow> string) \<Rightarrow> bool \<Rightarrow> pyval \<Rightarrow> string" where
  "json_dumps float_repr sk PNone = ''null''"
| "json_dumps float_repr sk (PBool b) = (if b then ''true'' else ''false'')"
| "json_dumps float_repr sk (PInt i) = py_str_int i"
| "json_dumps float_repr sk (PFloat r) = float_repr r"
| "json_dumps float_repr sk (PStr s) = json_string s"
| "json_dumps float_repr sk (PList xs) = ''['' @ py_join '', '' (map (json_dumps float_repr sk) xs) @ '']''"
| "json_dumps float_repr sk (PDict d) = json_members sk (map (\<lambda>(k, v). (k, json_dumps float_repr sk v)) d)"

text \<open>With \<^verbatim>\<open>sort_keys\<close> the text depends on the entries of a dictionary, not on their order.\<close>

lemma sort_entries_unique:
  fixes d e :: "(string \<times> 'v) list"
  assumes "set d = set e" "dict_wf d" "dict_wf e"
  shows "sort_key fst d = sort_key fst e"
proof (rule map_sorted_distinct_set_unique [where f = fst])
  have "distinct (map fst (sort_key fst x))" if "dict_wf x" for x :: "(string \<times> 'v) list"
    using that by (simp add: distinct_map)
  with assms show "distinct (map fst (sort_key fst d))" "distinct (map fst (sort_key fst e))" by blast+
  show "inj_on fst (set (sort_key fst d) \<union> set (sort_key fst e))"
    using assms by (simp add: distinct_map)
qed (use assms in simp_all)

lemma json_sorted_order_irrelevant:
  assumes "set d = set e" "dict_wf d" "dict_wf e"
  shows "json_dumps fr True (PDict d) = json_dumps fr True (PDict e)"
proof -
  let ?m = "map (\<lambda>(k, v). (k, json_dumps fr True v))"
  have keys: "fst \<circ> (\<lambda>(k, v). (k, json_dumps fr True v)) = fst" by auto
  from assms have "sort_key fst (?m d) = sort_key fst (?m e)"
    by (intro sort_entries_unique) (simp_all add: keys)
  then show ?thesis by (simp add: json_members_def)
qed

section \<open>\<^verbatim>\<open>repr\<close> and \<^verbatim>\<open>str\<close>\<close>

definition repr_char :: "char \<Rightarrow> char \<Rightarrow> string" where
  "repr_char q c = (let n = code_point c
     in if c = q \<or> n = 92 then [CHR 0x5C, c]
        else if n = 9 then [CHR 0x5C, CHR ''t'']
        else if n = 10 then [CHR 0x5C, CHR ''n'']
        else if n = 13 then [CHR 0x5C, CHR ''r'']
        else if n < 32 \<or> (127 \<le> n \<and> n \<le> 160) \<or> n = 173
        then [CHR 0x5C, CHR ''x'', hex_digit (n div 16), hex_digit (n mod 16)]
        else [c])"

definition repr_string :: "string \<Rightarrow> string" where
  "repr_string s = (let q = (if CHR 0x27 \<in> set s \<and> CHR 0x22 \<notin> set s then CHR 0x22 else CHR 0x27)
     in q # concat (map (repr_char q) s) @ [q])"

fun py_repr :: "(rat \<Rightarrow> string) \<Rightarrow> pyval \<Rightarrow> string" where
  "py_repr float_repr PNone = ''None''"
| "py_repr float_repr (PBool b) = (if b then ''True'' else ''False'')"
| "py_repr float_repr (PInt i) = py_str_int i"
| "py_repr float_repr (PFloat r) = float_repr r"
| "py_repr float_repr (PStr s) = repr_string s"
| "py_repr float_repr (PList xs) = ''['' @ py_join '', '' (map (py_repr float_repr) xs) @ '']''"
| "py_repr float_repr (PDict d) =
     ''{'' @ py_join '', '' (map (\<lambda>(k, v). repr_string k @ '': '' @ py_repr float_repr v) d) @ ''}''"

fun py_str :: "(rat \<Rightarrow> string) \<Rightarrow> pyval \<Rightarrow> string" where
  "py_str float_repr (PStr s) = s"
| "py_str float_repr v = py_repr float_repr v"

text \<open>
  \<^verbatim>\<open>str.upper\<close>. The capitals of U+00B5 and U+00FF lie outside the modelled code points; those two
  characters are left as they are.
\<close>

definition upper_char :: "char \<Rightarrow> string" where
  "upper_char c = (let n = code_point c
     in if (97 \<le> n \<and> n \<le> 122) \<or> (224 \<le> n \<and> n \<le> 254 \<and> n \<noteq> 247) then [case_bit False c]
        else if n = 223 then ''SS'' else [c])"

definition py_upper :: "string \<Rightarrow> string" where
  "py_upper s = concat (map upper_char s)"

end
