(* ===== verification/Stuck_Detection.thy ===== *)
theory Stuck_Detection
  imports Py_Json
begin

text \<open>
  Detection of stuck agents (\<^verbatim>\<open>runners/stuck_detection.py\<close>): what an iteration of the agent loop
  did is distilled into an observation, and a tracker nudges the agent once when it repeats the same
  calls or the same error, and stops the run when the pattern outlives the nudge. The runners call
  \<^verbatim>\<open>observe\<close> once per iteration, so a run is a list of observations.

  The dash U+2014 in the text of the nudge is written as two hyphens here.
\<close>

section \<open>Model\<close>

text \<open>The fields of \<^verbatim>\<open>StuckDetectionConfig\<close> and of the model profile the tracker reads.\<close>

record stuck_config =
  sc_enabled :: bool
  repeat_threshold :: int
  error_threshold :: int
  post_nudge_iterations :: int

record stuck_profile =
  sp_stuck_detection :: "stuck_config option"
  sp_phase :: string
  sp_allowed_tools :: "string list option"

definition modify_tool_names :: "string list" where
  "modify_tool_names = [''write_file'', ''edit_file'', ''Write'', ''Edit'']"

definition exploration_tool_names :: "string list" where
  "exploration_tool_names =
     [''read_file'', ''Read'', ''glob'', ''Glob'', ''grep'', ''Grep'', ''list_dir'', ''ls'']"

definition sensitive_arg_names :: "string list" where
  "sensitive_arg_names = [''content'', ''new_content'', ''old_string'', ''new_string'', ''input'']"

subsection \<open>Signatures and fingerprints of calls\<close>

definition make_signature :: "(rat \<Rightarrow> string) \<Rightarrow> string option \<Rightarrow> pydict option \<Rightarrow> string" where
  "make_signature float_repr name arguments =
     (case name of None \<Rightarrow> [] | Some n \<Rightarrow> n) @ ''|''
     @ json_dumps float_repr True (PDict (case arguments of None \<Rightarrow> [] | Some d \<Rightarrow> d))"

definition redact_arguments :: "pydict option \<Rightarrow> pydict" where
  "redact_arguments arguments =
     (case arguments of None \<Rightarrow> []
      | Some d \<Rightarrow> map (\<lambda>(k, v). (k, if k \<in> set sensitive_arg_names then PStr ''<redacted>'' else v)) d)"

definition call_fingerprint :: "(rat \<Rightarrow> string) \<Rightarrow> string option \<Rightarrow> pydict option \<Rightarrow> string" where
  "call_fingerprint float_repr name arguments =
     (let args_str = json_dumps float_repr True (PDict (redact_arguments arguments));
          args_str = (if length args_str > 200 then take 197 args_str @ ''...'' else args_str)
      in (case name of None \<Rightarrow> [] | Some n \<Rightarrow> n) @ ''('' @ args_str @ '')'')"

subsection \<open>Observations\<close>

text \<open>
  A call as the model sent it: its arguments are None where they are not a dictionary. A result
  entry holds the values its \<^verbatim>\<open>name\<close> and \<^verbatim>\<open>content\<close> keys have, if any.
\<close>

record tool_call =
  tc_name :: "string option"
  tc_arguments :: "pydict option"

record tool_result =
  tr_name :: "string option"
  tr_content :: "string option"

record observation =
  signatures :: "string list"
  successful_modify :: bool
  error_content :: "string option"
  call_fingerprints :: "string list"
  exploration_sigs :: "string list"

definition well_formed_call :: "tool_call \<Rightarrow> bool" where
  "well_formed_call c \<longleftrightarrow> tc_name c \<noteq> None \<and> tc_name c \<noteq> Some [] \<and> tc_arguments c \<noteq> None"

definition observe_call :: "(rat \<Rightarrow> string) \<Rightarrow> tool_call
    \<Rightarrow> string list \<times> string list \<times> string list \<Rightarrow> string list \<times> string list \<times> string list" where
  "observe_call float_repr c acc = (case acc of (sigs, exploration, prints) \<Rightarrow>
     if well_formed_call c
     then (let sig = make_signature float_repr (tc_name c) (tc_arguments c)
           in (set_add sig sigs,
               if the (tc_name c) \<in> set exploration_tool_names then set_add sig exploration else exploration,
               prints @ [call_fingerprint float_repr (tc_name c) (tc_arguments c)]))
     else acc)"

definition result_content :: "tool_result \<Rightarrow> string" where
  "result_content r = (case tr_content r of None \<Rightarrow> [] | Some c \<Rightarrow> c)"

definition observe_result :: "tool_result \<Rightarrow> bool \<times> string option \<Rightarrow> bool \<times> string option" where
  "observe_result r acc = (case acc of (modified, err) \<Rightarrow>
     (let name = (case tr_name r of None \<Rightarrow> [] | Some n \<Rightarrow> n);
          content = result_content r;
          is_error = prefix ''Error'' content
      in (modified \<or> (name \<in> set modify_tool_names \<and> \<not> is_error),
          if err = None \<and> is_error then Some (take 200 content) else err)))"

definition build_observation :: "(rat \<Rightarrow> string) \<Rightarrow> tool_call list \<Rightarrow> tool_result list \<Rightarrow> observation" where
  "build_observation float_repr calls results =
     (case fold (observe_call float_repr) calls ([], [], []) of (sigs, exploration, prints) \<Rightarrow>
      case fold observe_result results (False, None) of (modified, err) \<Rightarrow>
        \<lparr>signatures = sigs, successful_modify = modified, error_content = err,
         call_fingerprints = prints, exploration_sigs = exploration\<rparr>)"

subsection \<open>The tracker\<close>

record history_entry =
  he_iteration :: int
  he_calls :: "string list"
  he_successful_modify :: bool
  he_had_error :: bool

record stuck_tracker =
  st_enabled :: bool
  st_cfg :: "stuck_config option"
  st_has_modify_tools :: bool
  st_iteration :: int
  st_last_sig :: "string list option"
  st_repeat_count :: int
  st_repeat_start_iter :: "int option"
  st_iters_without_mod :: int
  st_distinct_exploration_sigs :: "string list"
  st_exploration_progress_iters :: int
  st_last_error :: "string option"
  st_error_count :: int
  st_error_start_iter :: "int option"
  st_nudge_sent :: bool
  st_nudge_kind :: "string option"
  st_post_nudge_iters :: int
  st_history :: "history_entry list"

definition new_stuck_tracker :: "stuck_profile \<Rightarrow> stuck_tracker" where
  "new_stuck_tracker profile =
     \<lparr>st_enabled = (case sp_stuck_detection profile of None \<Rightarrow> False
                     | Some cfg \<Rightarrow> sc_enabled cfg \<and> sp_phase profile = ''dev''),
      st_cfg = sp_stuck_detection profile,
      st_has_modify_tools = (case sp_allowed_tools profile of None \<Rightarrow> False
                     | Some tools \<Rightarrow> list_ex (\<lambda>t. t \<in> set tools) modify_tool_names),
      st_iteration = 0, st_last_sig = None, st_repeat_count = 0, st_repeat_start_iter = None,
      st_iters_without_mod = 0, st_distinct_exploration_sigs = [], st_exploration_progress_iters = 0,
      st_last_error = None, st_error_count = 0, st_error_start_iter = None,
      st_nudge_sent = False, st_nudge_kind = None, st_post_nudge_iters = 0, st_history = []\<rparr>"

text \<open>The arms of \<^verbatim>\<open>observe\<close>, in the order the code runs them. A string that is absent or empty is falsy.\<close>

definition same_sig :: "string list option \<Rightarrow> string list \<Rightarrow> bool" where
  "same_sig prev sig = (case prev of None \<Rightarrow> False | Some s \<Rightarrow> set s = set sig)"

definition truthy_str :: "string option \<Rightarrow> bool" where
  "truthy_str s = (case s of None \<Rightarrow> False | Some c \<Rightarrow> c \<noteq> [])"

definition repeat_arm :: "observation \<Rightarrow> stuck_tracker \<Rightarrow> stuck_tracker" where
  "repeat_arm obs t =
     (let sig = signatures obs
      in (if same_sig (st_last_sig t) sig \<and> sig \<noteq> []
          then t\<lparr>st_repeat_start_iter := (if st_repeat_count t = 0 then Some (st_iteration t - 1) else st_repeat_start_iter t),
                 st_repeat_count := st_repeat_count t + 1\<rparr>
          else t\<lparr>st_repeat_count := (if sig \<noteq> [] then 1 else 0),
                 st_repeat_start_iter := (if sig \<noteq> [] then Some (st_iteration t) else None)\<rparr>)
         \<lparr>st_last_sig := Some sig\<rparr>)"

definition no_progress_arm :: "observation \<Rightarrow> stuck_tracker \<Rightarrow> stuck_tracker" where
  "no_progress_arm obs t =
     t\<lparr>st_iters_without_mod := (if successful_modify obs \<or> signatures obs = [] then 0 else st_iters_without_mod t + 1)\<rparr>"

definition exploration_arm :: "observation \<Rightarrow> stuck_tracker \<Rightarrow> stuck_tracker" where
  "exploration_arm obs t =
     (let new_exploration = filter (\<lambda>s. s \<notin> set (st_distinct_exploration_sigs t)) (exploration_sigs obs)
      in if new_exploration \<noteq> []
         then t\<lparr>st_exploration_progress_iters := st_exploration_progress_iters t + 1,
                st_distinct_exploration_sigs := fold set_add new_exploration (st_distinct_exploration_sigs t)\<rparr>
         else t)"

definition error_arm :: "observation \<Rightarrow> stuck_tracker \<Rightarrow> stuck_tracker" where
  "error_arm obs t =
     (let cur = error_content obs
      in (if truthy_str cur \<and> cur = st_last_error t
          then t\<lparr>st_error_start_iter := (if st_error_count t \<le> 1 then Some (st_iteration t - 1) else st_error_start_iter t),
                 st_error_count := st_error_count t + 1\<rparr>
          else t\<lparr>st_error_count := (if truthy_str cur then 1 else 0),
                 st_error_start_iter := (if truthy_str cur then Some (st_iteration t) else None)\<rparr>)
         \<lparr>st_last_error := cur\<rparr>)"

definition record_history :: "observation \<Rightarrow> stuck_tracker \<Rightarrow> stuck_tracker" where
  "record_history obs t =
     (let entry = \<lparr>he_iteration = st_iteration t, he_calls = take 8 (call_fingerprints obs),
                   he_successful_modify = successful_modify obs, he_had_error = (error_content obs \<noteq> None)\<rparr>;
          h = st_history t @ [entry]
      in t\<lparr>st_history := drop (length h - 50) h\<rparr>)"

definition active_pattern :: "stuck_tracker \<Rightarrow> (string \<times> string) option" where
  "active_pattern t =
     (case st_cfg t of None \<Rightarrow> None
      | Some cfg \<Rightarrow>
         if st_repeat_count t \<ge> repeat_threshold cfg \<and> st_last_sig t \<noteq> None \<and> the (st_last_sig t) \<noteq> []
         then Some (''repeat'', ''repeated identical tool calls ('' @ py_str_int (st_repeat_count t) @ ''x): ''
                    @ take 120 (hd (the (st_last_sig t))))
         else if st_error_count t \<ge> error_threshold cfg \<and> truthy_str (st_last_error t)
         then Some (''error_loop'', ''error loop ('' @ py_str_int (st_error_count t) @ ''x): ''
                    @ take 120 (the (st_last_error t)))
         else None)"

definition build_nudge :: "string \<Rightarrow> string" where
  "build_nudge pattern_text = ''[SYSTEM] Progress check: you appear to be stuck -- '' @ pattern_text
     @ ''. Try a different approach, gather more information with a different tool, or submit your current best result. ''
     @ ''Continuing the same behavior will cause this run to be terminated.''"

text \<open>\<^verbatim>\<open>self._history[-min(8, n):]\<close> with \<open>n \<ge> 1\<close>.\<close>

definition recent_history :: "stuck_tracker \<Rightarrow> history_entry list" where
  "recent_history t = (let h = st_history t in drop (length h - nat (min 8 (st_iteration t))) h)"

definition build_terminate_reason :: "stuck_tracker \<Rightarrow> string \<Rightarrow> string \<Rightarrow> string" where
  "build_terminate_reason t kind pattern_text =
     (let loop_start = (if kind = ''repeat'' then st_repeat_start_iter t else st_error_start_iter t)
      in py_join [CHR 0x0A]
        ([''stuck pattern persisted for '' @ py_str_int (st_post_nudge_iters t) @ '' iterations after nudge: '' @ pattern_text,
          ''  signal: '' @ kind]
         @ (case loop_start of None \<Rightarrow> []
            | Some i \<Rightarrow> [''  loop began at iteration '' @ py_str_int i @ '' (see dev log)''])
         @ [''  iterations observed: '' @ py_str_int (st_iteration t),
            ''  no-modification streak (telemetry, not termination cause): '' @ py_str_int (st_iters_without_mod t)]
         @ (if recent_history t \<noteq> []
            then ''  recent iteration tool calls:''
                 # map (\<lambda>e. ''    iter '' @ py_str_int (he_iteration e) @ '': ''
                      @ (if he_calls e \<noteq> [] then py_join ''; '' (he_calls e) else ''<no tool calls>'')) (recent_history t)
            else [])))"

record verdict =
  v_nudge :: "string option"
  v_terminate :: "string option"
  v_pattern :: "string option"

definition no_verdict :: verdict where
  "no_verdict = \<lparr>v_nudge = None, v_terminate = None, v_pattern = None\<rparr>"

definition track :: "observation \<Rightarrow> stuck_tracker \<Rightarrow> stuck_tracker" where
  "track obs t = record_history obs (error_arm obs (exploration_arm obs (no_progress_arm obs
     (repeat_arm obs (t\<lparr>st_iteration := st_iteration t + 1\<rparr>)))))"

definition decide :: "stuck_tracker \<Rightarrow> stuck_tracker \<times> verdict" where
  "decide t =
     (if \<not> st_nudge_sent t
      then (case active_pattern t of
              Some (kind, msg) \<Rightarrow>
                (t\<lparr>st_nudge_sent := True, st_nudge_kind := Some kind, st_post_nudge_iters := 0\<rparr>,
                 \<lparr>v_nudge = Some (build_nudge msg), v_terminate = None, v_pattern = Some msg\<rparr>)
            | None \<Rightarrow> (t, no_verdict))
      else (case active_pattern t of
              Some (kind, msg) \<Rightarrow>
                if Some kind = st_nudge_kind t
                then (let t' = t\<lparr>st_post_nudge_iters := st_post_nudge_iters t + 1\<rparr>
                      in if st_post_nudge_iters t' \<ge> post_nudge_iterations (the (st_cfg t))
                         then (t', \<lparr>v_nudge = None, v_terminate = Some (build_terminate_reason t' kind msg),
                                    v_pattern = Some msg\<rparr>)
                         else (t', no_verdict))
                else (t\<lparr>st_post_nudge_iters := 0, st_nudge_sent := False, st_nudge_kind := None\<rparr>, no_verdict)
            | None \<Rightarrow>
                (t\<lparr>st_post_nudge_iters := 0, st_nudge_sent := False, st_nudge_kind := None\<rparr>, no_verdict)))"

definition observe :: "observation \<Rightarrow> stuck_tracker \<Rightarrow> stuck_tracker \<times> verdict" where
  "observe obs t = (if \<not> st_enabled t \<or> st_cfg t = None then (t, no_verdict) else decide (track obs t))"

record stuck_evidence =
  ev_iterations_observed :: int
  ev_iters_without_modification :: int
  ev_distinct_exploration_calls :: int
  ev_exploration_progress_iters :: int
  ev_repeat_count :: int
  ev_error_count :: int
  ev_active_kind :: "string option"
  ev_loop_start_iteration :: "int option"
  ev_history :: "history_entry list"

definition evidence :: "stuck_tracker \<Rightarrow> stuck_evidence" where
  "evidence t =
     (let (kind, start) =
        (case st_cfg t of None \<Rightarrow> (None, None)
         | Some cfg \<Rightarrow> if st_repeat_count t \<ge> repeat_threshold cfg then (Some ''repeat'', st_repeat_start_iter t)
                       else if st_error_count t \<ge> error_threshold cfg then (Some ''error_loop'', st_error_start_iter t)
                       else (None, None))
      in \<lparr>ev_iterations_observed = st_iteration t, ev_iters_without_modification = st_iters_without_mod t,
          ev_distinct_exploration_calls = int (length (st_distinct_exploration_sigs t)),
          ev_exploration_progress_iters = st_exploration_progress_iters t,
          ev_repeat_count = st_repeat_count t, ev_error_count = st_error_count t,
          ev_active_kind = kind, ev_loop_start_iteration = start, ev_history = st_history t\<rparr>)"

text \<open>A run: the tracker after a list of observations.\<close>

definition observe_all :: "observation list \<Rightarrow> stuck_tracker \<Rightarrow> stuck_tracker" where
  "observe_all obss t = fold (\<lambda>obs t. fst (observe obs t)) obss t"

section \<open>Streaks\<close>

text \<open>
  The reference for both counters: how many of the latest observations agree with the last one,
  zero where the last one has nothing to repeat. Histories are newest first.
\<close>

fun streak :: "('a \<Rightarrow> bool) \<Rightarrow> ('a \<Rightarrow> 'b) \<Rightarrow> 'a list \<Rightarrow> nat" where
  "streak live key [] = 0"
| "streak live key (x # xs) = (if live x then Suc (length (takeWhile (\<lambda>y. key y = key x) xs)) else 0)"

definition repeat_streak :: "observation list \<Rightarrow> nat" where
  "repeat_streak h = streak (\<lambda>x. signatures x \<noteq> []) (\<lambda>x. set (signatures x)) h"

definition error_streak :: "observation list \<Rightarrow> nat" where
  "error_streak h = streak (\<lambda>x. truthy_str (error_content x)) error_content h"

lemma streak_step:
  assumes "\<And>x y. key x = key y \<Longrightarrow> live x = live y"
  shows "streak live key (x # h) =
    (if live x then (if h \<noteq> [] \<and> key (hd h) = key x then Suc (streak live key h) else 1) else 0)"
proof (cases h)
  case (Cons y ys)
  then show ?thesis using assms [of y x] by auto
qed simp

lemma repeat_streak_step:
  "repeat_streak (x # h) = (if signatures x \<noteq> []
     then (if h \<noteq> [] \<and> set (signatures (hd h)) = set (signatures x) then Suc (repeat_streak h) else 1) else 0)"
proof -
  have k: "set (signatures y) = set (signatures z) \<Longrightarrow> (signatures y \<noteq> []) = (signatures z \<noteq> [])" for y z
    by (metis set_empty)
  show ?thesis unfolding repeat_streak_def by (rule streak_step) (rule k)
qed

lemma error_streak_step:
  "error_streak (x # h) = (if truthy_str (error_content x)
     then (if h \<noteq> [] \<and> error_content (hd h) = error_content x then Suc (error_streak h) else 1) else 0)"
  unfolding error_streak_def by (rule streak_step) simp

lemma repeat_streak_nil [simp]: "repeat_streak [] = 0" and error_streak_nil [simp]: "error_streak [] = 0"
  by (simp_all add: repeat_streak_def error_streak_def)

section \<open>The invariant of a run\<close>

text \<open>What an arm leaves alone, so that each arm is looked at once.\<close>

lemma exploration_arm_fields [simp]:
  "st_enabled (exploration_arm x t) = st_enabled t" "st_cfg (exploration_arm x t) = st_cfg t"
  "st_iteration (exploration_arm x t) = st_iteration t" "st_last_sig (exploration_arm x t) = st_last_sig t"
  "st_repeat_count (exploration_arm x t) = st_repeat_count t"
  "st_repeat_start_iter (exploration_arm x t) = st_repeat_start_iter t"
  "st_last_error (exploration_arm x t) = st_last_error t" "st_error_count (exploration_arm x t) = st_error_count t"
  "st_error_start_iter (exploration_arm x t) = st_error_start_iter t"
  "st_nudge_sent (exploration_arm x t) = st_nudge_sent t" "st_nudge_kind (exploration_arm x t) = st_nudge_kind t"
  "st_post_nudge_iters (exploration_arm x t) = st_post_nudge_iters t" "st_history (exploration_arm x t) = st_history t"
  by (simp_all add: exploration_arm_def Let_def)

lemma track_fields [simp]:
  "st_enabled (track x t) = st_enabled t" "st_cfg (track x t) = st_cfg t"
  "st_iteration (track x t) = st_iteration t + 1" "st_last_sig (track x t) = Some (signatures x)"
  "st_last_error (track x t) = error_content x"
  "st_nudge_sent (track x t) = st_nudge_sent t" "st_nudge_kind (track x t) = st_nudge_kind t"
  "st_post_nudge_iters (track x t) = st_post_nudge_iters t"
  by (simp_all add: track_def record_history_def error_arm_def no_progress_arm_def repeat_arm_def Let_def)

lemma track_repeat:
  "st_repeat_count (track x t) = (if same_sig (st_last_sig t) (signatures x) \<and> signatures x \<noteq> []
     then st_repeat_count t + 1 else if signatures x \<noteq> [] then 1 else 0)"
  "st_repeat_start_iter (track x t) = (if same_sig (st_last_sig t) (signatures x) \<and> signatures x \<noteq> []
     then (if st_repeat_count t = 0 then Some (st_iteration t) else st_repeat_start_iter t)
     else if signatures x \<noteq> [] then Some (st_iteration t + 1) else None)"
  by (simp_all add: track_def record_history_def error_arm_def no_progress_arm_def repeat_arm_def Let_def)

lemma track_error:
  "st_error_count (track x t) = (if truthy_str (error_content x) \<and> error_content x = st_last_error t
     then st_error_count t + 1 else if truthy_str (error_content x) then 1 else 0)"
  "st_error_start_iter (track x t) = (if truthy_str (error_content x) \<and> error_content x = st_last_error t
     then (if st_error_count t \<le> 1 then Some (st_iteration t) else st_error_start_iter t)
     else if truthy_str (error_content x) then Some (st_iteration t + 1) else None)"
  by (simp_all add: track_def record_history_def error_arm_def no_progress_arm_def repeat_arm_def Let_def)

lemma decide_fields [simp]:
  "st_enabled (fst (decide t)) = st_enabled t" "st_cfg (fst (decide t)) = st_cfg t"
  "st_iteration (fst (decide t)) = st_iteration t" "st_last_sig (fst (decide t)) = st_last_sig t"
  "st_repeat_count (fst (decide t)) = st_repeat_count t"
  "st_repeat_start_iter (fst (decide t)) = st_repeat_start_iter t"
  "st_last_error (fst (decide t)) = st_last_error t" "st_error_count (fst (decide t)) = st_error_count t"
  "st_error_start_iter (fst (decide t)) = st_error_start_iter t" "st_history (fst (decide t)) = st_history t"
  by (simp_all add: decide_def Let_def split: option.splits)

definition start_of :: "int \<Rightarrow> nat \<Rightarrow> int option" where
  "start_of n c = (if c = 0 then None else Some (n - int c + 1))"

definition counters_inv :: "observation list \<Rightarrow> stuck_tracker \<Rightarrow> bool" where
  "counters_inv h t \<longleftrightarrow> st_iteration t = int (length h)
     \<and> st_last_sig t = (if h = [] then None else Some (signatures (hd h)))
     \<and> st_last_error t = (if h = [] then None else error_content (hd h))
     \<and> st_repeat_count t = int (repeat_streak h) \<and> st_error_count t = int (error_streak h)
     \<and> st_repeat_start_iter t = start_of (int (length h)) (repeat_streak h)
     \<and> st_error_start_iter t = start_of (int (length h)) (error_streak h)"

lemma error_streak_zero: "h \<noteq> [] \<Longrightarrow> error_streak h = 0 \<longleftrightarrow> \<not> truthy_str (error_content (hd h))"
  by (cases h) (simp_all add: error_streak_step)

lemma repeat_streak_zero: "h \<noteq> [] \<Longrightarrow> repeat_streak h = 0 \<longleftrightarrow> signatures (hd h) = []"
  by (cases h) (simp_all add: repeat_streak_step)

lemma track_counters:
  assumes "counters_inv h t"
  shows "counters_inv (x # h) (track x t)"
  using assms error_streak_zero [of h] repeat_streak_zero [of h]
  by (cases "h = []")
     (auto simp: counters_inv_def track_repeat track_error repeat_streak_step error_streak_step
        same_sig_def start_of_def truthy_str_def)

lemma streak_grows:
  "2 \<le> repeat_streak (x # h) \<Longrightarrow> repeat_streak (x # h) = Suc (repeat_streak h)"
  "2 \<le> error_streak (x # h) \<Longrightarrow> error_streak (x # h) = Suc (error_streak h)"
  by (auto simp: repeat_streak_step error_streak_step split: if_splits)

lemma active_kind:
  assumes "counters_inv h t" "st_cfg t = Some cfg" "active_pattern t = Some (kind, msg)"
  shows "kind = ''repeat'' \<and> max 1 (repeat_threshold cfg) \<le> int (repeat_streak h)
    \<or> kind = ''error_loop'' \<and> max 1 (error_threshold cfg) \<le> int (error_streak h)"
  using assms repeat_streak_zero [of h] error_streak_zero [of h]
  by (cases h) (auto simp: active_pattern_def counters_inv_def truthy_str_def Suc_le_eq split: if_splits)

text \<open>A pattern that held at each of the latest observations, whatever the threshold.\<close>

definition persisted :: "int \<Rightarrow> (observation list \<Rightarrow> nat) \<Rightarrow> int \<Rightarrow> observation list \<Rightarrow> bool" where
  "persisted threshold f n h \<longleftrightarrow> (\<forall>k. int k < n \<longrightarrow> max 1 threshold \<le> int (f (drop k h)))"

lemma persisted_zero [simp]: "persisted m f 0 h"
  by (simp add: persisted_def)

lemma persisted_step:
  "max 1 m \<le> int (f (x # h)) \<Longrightarrow> persisted m f n h \<Longrightarrow> persisted m f (n + 1) (x # h)"
  unfolding persisted_def
proof (intro allI impI)
  fix k
  assume "max 1 m \<le> int (f (x # h))" "\<forall>k. int k < n \<longrightarrow> max 1 m \<le> int (f (drop k h))" "int k < n + 1"
  then show "max 1 m \<le> int (f (drop k (x # h)))" by (cases k) simp_all
qed

lemma persisted_mono: "persisted m f n h \<Longrightarrow> n' \<le> n \<Longrightarrow> persisted m f n' h"
  by (auto simp: persisted_def)

definition nudge_inv :: "stuck_config \<Rightarrow> observation list \<Rightarrow> stuck_tracker \<Rightarrow> bool" where
  "nudge_inv cfg h t \<longleftrightarrow> 0 \<le> st_post_nudge_iters t \<and> (st_nudge_sent t \<longrightarrow>
       st_nudge_kind t = Some ''repeat'' \<and> persisted (repeat_threshold cfg) repeat_streak (st_post_nudge_iters t + 1) h
         \<and> (2 \<le> repeat_threshold cfg \<longrightarrow> repeat_threshold cfg + st_post_nudge_iters t \<le> int (repeat_streak h))
     \<or> st_nudge_kind t = Some ''error_loop'' \<and> persisted (error_threshold cfg) error_streak (st_post_nudge_iters t + 1) h
         \<and> (2 \<le> error_threshold cfg \<longrightarrow> error_threshold cfg + st_post_nudge_iters t \<le> int (error_streak h)))"

definition run_inv :: "stuck_config \<Rightarrow> observation list \<times> stuck_tracker \<Rightarrow> bool" where
  "run_inv cfg s = (case s of (h, t) \<Rightarrow>
     st_enabled t \<and> st_cfg t = Some cfg \<and> counters_inv h t \<and> nudge_inv cfg h t)"

lemma decide_nudge_inv:
  assumes inv: "run_inv cfg (h, t)"
  shows "nudge_inv cfg (x # h) (fst (decide (track x t)))"
proof (cases "active_pattern (track x t)")
  case None
  with inv show ?thesis by (auto simp: decide_def nudge_inv_def run_inv_def)
next
  case (Some p)
  obtain kind msg where p: "p = (kind, msg)" by force
  from inv have c: "counters_inv (x # h) (track x t)" and cfg: "st_cfg (track x t) = Some cfg"
    and n: "nudge_inv cfg h t" by (auto simp: run_inv_def track_counters)
  note kind = active_kind [OF c cfg Some [unfolded p]]
  note step = persisted_step [of "repeat_threshold cfg" repeat_streak x h] persisted_step [of "error_threshold cfg" error_streak x h]
  show ?thesis
    using n kind streak_grows [of x h] step(1) [of 0] step(2) [of 0]
      step(1) [of "st_post_nudge_iters t + 1"] step(2) [of "st_post_nudge_iters t + 1"]
    by (auto simp: decide_def Some p nudge_inv_def Let_def)
qed

definition tracked_step :: "observation \<Rightarrow> observation list \<times> stuck_tracker \<Rightarrow> observation list \<times> stuck_tracker" where
  "tracked_step x s = (case s of (h, t) \<Rightarrow> (x # h, fst (observe x t)))"

lemma counters_inv_decide [simp]: "counters_inv h (fst (decide t)) = counters_inv h t"
  by (simp add: counters_inv_def)

interpretation tracker_run: op_machine tracked_step "\<lambda>_. True" "run_inv cfg" for cfg
proof
  fix s x
  assume a: "run_inv cfg s"
  obtain h t where s: "s = (h, t)" by force
  from a s decide_nudge_inv [of cfg h t x] track_counters [of h t x] show "run_inv cfg (tracked_step x s)"
    by (auto simp: run_inv_def tracked_step_def observe_def)
qed

lemma tracked_fold: "fold tracked_step obss (h, t) = (rev obss @ h, observe_all obss t)"
  by (induction obss arbitrary: h t) (simp_all add: tracked_step_def observe_all_def)

lemma start_inv:
  assumes "sp_stuck_detection profile = Some cfg" "sc_enabled cfg" "sp_phase profile = ''dev''"
  shows "run_inv cfg ([], new_stuck_tracker profile)"
  using assms by (simp add: run_inv_def new_stuck_tracker_def counters_inv_def nudge_inv_def start_of_def)

lemma reachable_inv:
  assumes "sp_stuck_detection profile = Some cfg" "sc_enabled cfg" "sp_phase profile = ''dev''"
  shows "run_inv cfg (rev obss, observe_all obss (new_stuck_tracker profile))"
  using tracker_run.run_inv [OF start_inv [OF assms], of obss] by (simp add: tracked_fold)

lemma terminate_cases:
  assumes "run_inv cfg (h, t)" "v_terminate (snd (observe x t)) \<noteq> None"
  shows "\<exists>kind msg. active_pattern (track x t) = Some (kind, msg) \<and> st_nudge_sent t \<and> st_nudge_kind t = Some kind
    \<and> post_nudge_iterations cfg \<le> st_post_nudge_iters t + 1"
  using assms
  by (auto simp: observe_def run_inv_def decide_def no_verdict_def Let_def split: if_splits option.splits prod.splits)

lemma observe_all_snoc [simp]: "observe_all (l @ [y]) t = fst (observe y (observe_all l t))"
  and observe_all_append: "observe_all (k @ l) t = observe_all l (observe_all k t)"
  and observe_all_nil [simp]: "observe_all [] t = t"
  and observe_all_one [simp]: "observe_all [y] t = fst (observe y t)"
  by (simp_all add: observe_all_def)

lemma run_inv_all: "run_inv cfg (h, t) \<Longrightarrow> run_inv cfg (rev l @ h, observe_all l t)"
  using tracker_run.run_inv [of cfg "(h, t)" l] by (simp add: tracked_fold)

lemma streak_of_same:
  "\<forall>y \<in> set l. set (signatures y) = S \<Longrightarrow> S \<noteq> {} \<Longrightarrow> length l \<le> repeat_streak (l @ h)"
proof (induction l)
  case (Cons y l)
  then show ?case by (cases l) (auto simp: repeat_streak_step)
qed simp

lemma repeat_active:
  assumes "run_inv cfg (h, t)" "signatures x \<noteq> []" "repeat_threshold cfg \<le> int (repeat_streak (x # h))"
  shows "\<exists>msg. active_pattern (track x t) = Some (''repeat'', msg)"
proof -
  from assms(1) track_counters have "counters_inv (x # h) (track x t)" "st_cfg (track x t) = Some cfg"
    by (auto simp: run_inv_def)
  with assms(2,3) show ?thesis by (simp add: active_pattern_def counters_inv_def)
qed

text \<open>One iteration in which the repeat pattern is active, from each state of the nudge.\<close>

lemma active_step:
  assumes "run_inv cfg (h, t)" "signatures x \<noteq> []" "repeat_threshold cfg \<le> int (repeat_streak (x # h))"
  shows "\<not> st_nudge_sent t \<Longrightarrow> st_nudge_sent (fst (observe x t)) \<and> st_nudge_kind (fst (observe x t)) = Some ''repeat''
            \<and> st_post_nudge_iters (fst (observe x t)) = 0"
    and "st_nudge_sent t \<Longrightarrow> st_nudge_kind t = Some ''repeat'' \<Longrightarrow>
          st_nudge_sent (fst (observe x t)) \<and> st_nudge_kind (fst (observe x t)) = Some ''repeat''
          \<and> st_post_nudge_iters (fst (observe x t)) = st_post_nudge_iters t + 1
          \<and> (post_nudge_iterations cfg \<le> st_post_nudge_iters t + 1 \<longrightarrow> v_terminate (snd (observe x t)) \<noteq> None)"
    and "st_nudge_sent t \<Longrightarrow> st_nudge_kind t \<noteq> Some ''repeat'' \<Longrightarrow> \<not> st_nudge_sent (fst (observe x t))"
proof -
  from repeat_active [OF assms] obtain msg where "active_pattern (track x t) = Some (''repeat'', msg)" by blast
  moreover from assms(1) have "observe x t = decide (track x t)" "st_cfg t = Some cfg"
    by (auto simp: run_inv_def observe_def)
  ultimately show "\<not> st_nudge_sent t \<Longrightarrow> st_nudge_sent (fst (observe x t)) \<and> st_nudge_kind (fst (observe x t)) = Some ''repeat''
            \<and> st_post_nudge_iters (fst (observe x t)) = 0"
    and "st_nudge_sent t \<Longrightarrow> st_nudge_kind t = Some ''repeat'' \<Longrightarrow>
          st_nudge_sent (fst (observe x t)) \<and> st_nudge_kind (fst (observe x t)) = Some ''repeat''
          \<and> st_post_nudge_iters (fst (observe x t)) = st_post_nudge_iters t + 1
          \<and> (post_nudge_iterations cfg \<le> st_post_nudge_iters t + 1 \<longrightarrow> v_terminate (snd (observe x t)) \<noteq> None)"
    and "st_nudge_sent t \<Longrightarrow> st_nudge_kind t \<noteq> Some ''repeat'' \<Longrightarrow> \<not> st_nudge_sent (fst (observe x t))"
    by (auto simp: decide_def Let_def)
qed

lemma stuck_phase:
  assumes "run_inv cfg (h, t)"
    and "\<forall>ys y zs. l = ys @ y # zs \<longrightarrow> signatures y \<noteq> [] \<and> repeat_threshold cfg \<le> int (repeat_streak (y # rev ys @ h))"
  shows "l = [] \<or> length l = 1 \<and> \<not> st_nudge_sent (observe_all l t)
    \<or> st_nudge_sent (observe_all l t) \<and> st_nudge_kind (observe_all l t) = Some ''repeat''
       \<and> int (length l) - 2 \<le> st_post_nudge_iters (observe_all l t)"
  using assms(2)
proof (induction l rule: rev_induct)
  case (snoc y l)
  let ?t = "observe_all l t"
  from run_inv_all [OF assms(1)] have inv: "run_inv cfg (rev l @ h, ?t)" .
  from snoc.prems [rule_format, of l y "[]"]
  have y: "signatures y \<noteq> []" "repeat_threshold cfg \<le> int (repeat_streak (y # rev l @ h))" by simp_all
  note step = active_step [OF inv y]
  have "\<forall>ys z zs. l = ys @ z # zs \<longrightarrow> signatures z \<noteq> [] \<and> repeat_threshold cfg \<le> int (repeat_streak (z # rev ys @ h))"
    using snoc.prems by (metis append_Cons append_assoc)
  note IH = snoc.IH [OF this]
  from inv have "0 \<le> st_post_nudge_iters ?t" by (simp add: run_inv_def nudge_inv_def)
  with IH step show ?case
    by (cases "st_nudge_sent ?t"; cases "st_nudge_kind ?t = Some ''repeat''") auto
qed simp

text \<open>
  The part of the tracker the decisions rest on; the no-modification streak, the exploration
  telemetry and the history are not in it.
\<close>

definition decision_view :: "stuck_tracker \<Rightarrow> stuck_tracker" where
  "decision_view t = t\<lparr>st_has_modify_tools := False, st_iters_without_mod := 0, st_distinct_exploration_sigs := [],
     st_exploration_progress_iters := 0, st_history := []\<rparr>"

lemma decision_view_eq_iff:
  "decision_view t = decision_view u \<longleftrightarrow> st_enabled t = st_enabled u \<and> st_cfg t = st_cfg u
    \<and> st_iteration t = st_iteration u \<and> st_last_sig t = st_last_sig u \<and> st_repeat_count t = st_repeat_count u
    \<and> st_repeat_start_iter t = st_repeat_start_iter u \<and> st_last_error t = st_last_error u
    \<and> st_error_count t = st_error_count u \<and> st_error_start_iter t = st_error_start_iter u
    \<and> st_nudge_sent t = st_nudge_sent u \<and> st_nudge_kind t = st_nudge_kind u
    \<and> st_post_nudge_iters t = st_post_nudge_iters u"
  by (cases t; cases u) (auto simp: decision_view_def)

lemma active_pattern_view: "decision_view t = decision_view u \<Longrightarrow> active_pattern t = active_pattern u"
  by (auto simp: active_pattern_def decision_view_eq_iff split: option.split)

lemma track_view:
  "decision_view t = decision_view u \<Longrightarrow> signatures x = signatures y \<Longrightarrow> error_content x = error_content y
    \<Longrightarrow> decision_view (track x t) = decision_view (track y u)"
  by (auto simp: decision_view_eq_iff track_repeat track_error)

lemma decide_view:
  assumes "decision_view t = decision_view u"
  shows "decision_view (fst (decide t)) = decision_view (fst (decide u))
    \<and> v_nudge (snd (decide t)) = v_nudge (snd (decide u)) \<and> v_pattern (snd (decide t)) = v_pattern (snd (decide u))
    \<and> (v_terminate (snd (decide t)) = None) = (v_terminate (snd (decide u)) = None)"
  using assms active_pattern_view [OF assms]
  by (auto simp: decide_def decision_view_eq_iff no_verdict_def Let_def split: option.splits prod.splits)

lemma observe_view:
  assumes "decision_view t = decision_view u" "signatures x = signatures y" "error_content x = error_content y"
  shows "decision_view (fst (observe x t)) = decision_view (fst (observe y u))
    \<and> v_nudge (snd (observe x t)) = v_nudge (snd (observe y u)) \<and> v_pattern (snd (observe x t)) = v_pattern (snd (observe y u))
    \<and> (v_terminate (snd (observe x t)) = None) = (v_terminate (snd (observe y u)) = None)"
proof (cases "st_enabled t \<and> st_cfg t \<noteq> None")
  case True
  with assms(1) have "st_enabled u \<and> st_cfg u \<noteq> None" by (simp add: decision_view_eq_iff)
  with True decide_view [OF track_view [OF assms]] show ?thesis by (auto simp: observe_def)
next
  case False
  with assms(1) have "\<not> (st_enabled u \<and> st_cfg u \<noteq> None)" by (simp add: decision_view_eq_iff)
  with False assms(1) show ?thesis by (auto simp: observe_def)
qed

lemma observe_all_view:
  "list_all2 (\<lambda>x y. signatures x = signatures y \<and> error_content x = error_content y) xs ys
    \<Longrightarrow> decision_view t = decision_view u \<Longrightarrow> decision_view (observe_all xs t) = decision_view (observe_all ys u)"
proof (induction xs ys arbitrary: t u rule: list_all2_induct)
  case (Cons x xs y ys)
  then show ?case using observe_view [of t u x y] by (simp add: observe_all_def)
qed simp

text \<open>The history holds the latest iterations, at most fifty.\<close>

lemma track_history: "map he_iteration (st_history (track x t))
    = (let h = map he_iteration (st_history t) @ [st_iteration t + 1] in drop (length h - 50) h)"
  by (simp add: track_def record_history_def error_arm_def no_progress_arm_def repeat_arm_def Let_def drop_map)

definition latest :: "nat \<Rightarrow> int list" where
  "latest n = map int [Suc n - min n 50..<Suc n]"

lemma latest_Suc: "(let h = latest n @ [int (Suc n)] in drop (length h - 50) h) = latest (Suc n)"
proof -
  let ?h = "[Suc n - min n 50..<Suc (Suc n)]"
  have h: "latest n @ [int (Suc n)] = map int ?h" by (simp add: latest_def upt_Suc_append del: upt_Suc)
  have len: "length ?h = Suc (min n 50)" by (simp del: upt_Suc)
  have "drop (Suc (min n 50) - 50) ?h = [Suc (Suc n) - min (Suc n) 50..<Suc (Suc n)]"
    unfolding drop_upt by (rule arg_cong [where f = "\<lambda>k. [k..<Suc (Suc n)]"]) (simp add: min_def)
  then show ?thesis unfolding h Let_def length_map len drop_map by (simp only: latest_def)
qed

lemma history_inv:
  assumes "st_enabled t" "st_cfg t \<noteq> None" "st_iteration t = int n" "map he_iteration (st_history t) = latest n"
  shows "st_iteration (observe_all l t) = int (n + length l) \<and> map he_iteration (st_history (observe_all l t)) = latest (n + length l)"
  using assms
proof (induction l arbitrary: t n)
  case (Cons x l)
  let ?u = "fst (observe x t)"
  from Cons.prems have o: "?u = fst (decide (track x t))" by (auto simp: observe_def)
  have "map he_iteration (st_history ?u) = latest (Suc n)"
    using Cons.prems latest_Suc [of n] by (simp add: o track_history add.commute)
  with Cons.IH [of ?u "Suc n"] Cons.prems show ?case by (simp add: o observe_all_def)
qed simp

section \<open>Properties\<close>

text \<open>C11. A run is stopped only for a pattern that was nudged and then persisted. Whatever the thresholds, a termination means
  that at each of the latest observations, the configured number of post-nudge iterations (at least one) and one more, the
  same pattern was active: a streak of at least the threshold of observations with the same non-empty set of calls, or with the
  same error. With a threshold of two or more that is one streak, of threshold plus post-nudge iterations of observations.
  With a threshold of one every observation with a call is a pattern, and the calls need not be the same.\<close>

theorem termination_is_earned:
  assumes "sp_stuck_detection profile = Some cfg" "sc_enabled cfg" "sp_phase profile = ''dev''"
    and "v_terminate (snd (observe x (observe_all obss (new_stuck_tracker profile)))) \<noteq> None"
  shows "persisted (repeat_threshold cfg) repeat_streak (1 + max 1 (post_nudge_iterations cfg)) (x # rev obss)
      \<and> (2 \<le> repeat_threshold cfg \<longrightarrow> repeat_threshold cfg + max 1 (post_nudge_iterations cfg) \<le> int (repeat_streak (x # rev obss)))
    \<or> persisted (error_threshold cfg) error_streak (1 + max 1 (post_nudge_iterations cfg)) (x # rev obss)
      \<and> (2 \<le> error_threshold cfg \<longrightarrow> error_threshold cfg + max 1 (post_nudge_iterations cfg) \<le> int (error_streak (x # rev obss)))"
proof -
  let ?t = "observe_all obss (new_stuck_tracker profile)"
  from reachable_inv [OF assms(1-3)] have inv: "run_inv cfg (rev obss, ?t)" .
  from terminate_cases [OF inv assms(4)] obtain kind msg where
    act: "active_pattern (track x ?t) = Some (kind, msg)" and n: "st_nudge_sent ?t" "st_nudge_kind ?t = Some kind"
      "post_nudge_iterations cfg \<le> st_post_nudge_iters ?t + 1" by blast
  from inv have c: "counters_inv (x # rev obss) (track x ?t)" and cfg: "st_cfg (track x ?t) = Some cfg"
    and ni: "nudge_inv cfg (rev obss) ?t" by (auto simp: run_inv_def track_counters)
  from ni n(3) have le: "1 + max 1 (post_nudge_iterations cfg) \<le> (st_post_nudge_iters ?t + 1) + 1" by (simp add: nudge_inv_def)
  note later = persisted_mono [OF persisted_step le]
  from active_kind [OF c cfg act] n ni streak_grows [of x "rev obss"] show ?thesis
    by (auto simp: nudge_inv_def intro: later)
qed

text \<open>A profile and an observation the examples run on.\<close>

definition dev_profile :: stuck_profile where
  "dev_profile = \<lparr>sp_stuck_detection = Some \<lparr>sc_enabled = True, repeat_threshold = 2, error_threshold = 2,
     post_nudge_iterations = 1\<rparr>, sp_phase = ''dev'', sp_allowed_tools = None\<rparr>"

definition ls_again :: "bool \<Rightarrow> observation" where
  "ls_again modified = \<lparr>signatures = [''ls|{}''], successful_modify = modified, error_content = None,
     call_fingerprints = [''ls({})''], exploration_sigs = [''ls|{}'']\<rparr>"

lemma ls_again_terminates:
  "v_terminate (snd (observe (ls_again False) (observe_all [ls_again False, ls_again False] (new_stuck_tracker dev_profile)))) \<noteq> None"
  by code_simp

theorem termination_is_earned_witness:
  "3 \<le> int (repeat_streak [ls_again False, ls_again False, ls_again False])
    \<or> 3 \<le> int (error_streak [ls_again False, ls_again False, ls_again False])"
  using termination_is_earned [OF _ _ _ ls_again_terminates] by (auto simp: dev_profile_def)

text \<open>With both thresholds at one, which the configuration accepts, two observations with different calls end the run.\<close>

definition hasty_profile :: stuck_profile where
  "hasty_profile = \<lparr>sp_stuck_detection = Some \<lparr>sc_enabled = True, repeat_threshold = 1, error_threshold = 1,
     post_nudge_iterations = 1\<rparr>, sp_phase = ''dev'', sp_allowed_tools = None\<rparr>"

theorem threshold_one_stops_different_calls:
  "v_terminate (snd (observe ((ls_again True)\<lparr>signatures := [''pwd|{}'']\<rparr>) (observe_all [ls_again False] (new_stuck_tracker hasty_profile)))) \<noteq> None"
  by code_simp

text \<open>C37. A run that keeps repeating itself is stopped: whatever happened before, when the agent makes the same
  non-empty set of calls for threshold plus post-nudge iterations plus one (each at least one), the
  last of them returns a termination.\<close>

theorem persistent_repeat_terminates:
  assumes "sp_stuck_detection profile = Some cfg" "sc_enabled cfg" "sp_phase profile = ''dev''"
    and "\<forall>y \<in> set (stuck @ [x]). set (signatures y) = S" "S \<noteq> {}"
    and "nat (max 1 (repeat_threshold cfg)) + nat (max 1 (post_nudge_iterations cfg)) \<le> length stuck"
  shows "v_terminate (snd (observe x (observe_all (before @ stuck) (new_stuck_tracker profile)))) \<noteq> None"
proof -
  let ?k = "nat (max 1 (repeat_threshold cfg)) - 1"
  define A B where "A = take ?k stuck" and "B = drop ?k stuck"
  have AB: "stuck = A @ B" and lA: "length A = ?k" using assms(6) by (simp_all add: A_def B_def)
  have pos: "1 \<le> nat (max 1 (repeat_threshold cfg))" "1 \<le> nat (max 1 (post_nudge_iterations cfg))" by simp_all
  have lB: "1 + nat (max 1 (post_nudge_iterations cfg)) \<le> length B"
    using assms(6) pos(1) lA unfolding AB length_append by linarith
  let ?h = "rev A @ rev before" and ?t = "observe_all (before @ A) (new_stuck_tracker profile)"
  have inv: "run_inv cfg (?h, ?t)" using reachable_inv [OF assms(1-3), of "before @ A"] by simp
  have act: "signatures y \<noteq> [] \<and> repeat_threshold cfg \<le> int (repeat_streak (y # rev ys @ ?h))"
    if "B @ [x] = ys @ y # zs" for ys y zs
  proof -
    have "set (A @ ys @ [y]) \<subseteq> set (stuck @ [x])" using AB arg_cong [OF that, of set] by auto
    with assms(4) have "\<forall>z \<in> set (y # rev ys @ rev A). set (signatures z) = S" by auto
    from streak_of_same [OF this assms(5), of "rev before"] this assms(5) lA show ?thesis by auto
  qed
  have "\<forall>ys y zs. B = ys @ y # zs \<longrightarrow> signatures y \<noteq> [] \<and> repeat_threshold cfg \<le> int (repeat_streak (y # rev ys @ ?h))"
    using act by (metis append_Cons append_assoc)
  from stuck_phase [OF inv this] lB pos(2) have ph: "st_nudge_sent (observe_all B ?t)"
      "st_nudge_kind (observe_all B ?t) = Some ''repeat''" "int (length B) - 2 \<le> st_post_nudge_iters (observe_all B ?t)"
    by auto
  from run_inv_all [OF inv, of B] have inv': "run_inv cfg (rev B @ ?h, observe_all B ?t)" .
  from active_step(2) [OF inv' _ _ ph(1,2)] act [of B x "[]"] ph(3) lB
  have "v_terminate (snd (observe x (observe_all B ?t))) \<noteq> None" by simp
  with AB show ?thesis by (simp add: observe_all_append)
qed

theorem persistent_repeat_terminates_witness:
  "v_terminate (snd (observe (ls_again True) (observe_all ([] @ [ls_again True, ls_again False, ls_again True])
     (new_stuck_tracker dev_profile)))) \<noteq> None"
  by (rule persistent_repeat_terminates [where S = "{''ls|{}''}"
        and cfg = "\<lparr>sc_enabled = True, repeat_threshold = 2, error_threshold = 2, post_nudge_iterations = 1\<rparr>"])
     (simp_all add: dev_profile_def ls_again_def)

text \<open>The counters, and the loop start the evidence reports, are exact: after any run the counters are the
  lengths of the current streaks of equal calls and equal errors, and the start of the loop is the
  iteration where the streak began.\<close>

theorem loop_evidence_exact:
  assumes "sp_stuck_detection profile = Some cfg" "sc_enabled cfg" "sp_phase profile = ''dev''"
    and "t = observe_all obss (new_stuck_tracker profile)"
  shows "ev_iterations_observed (evidence t) = int (length obss)
    \<and> ev_repeat_count (evidence t) = int (repeat_streak (rev obss))
    \<and> ev_error_count (evidence t) = int (error_streak (rev obss))
    \<and> (ev_active_kind (evidence t) = Some ''repeat'' \<longrightarrow>
         ev_loop_start_iteration (evidence t) = start_of (int (length obss)) (repeat_streak (rev obss)))
    \<and> (ev_active_kind (evidence t) = Some ''error_loop'' \<longrightarrow>
         ev_loop_start_iteration (evidence t) = start_of (int (length obss)) (error_streak (rev obss)))"
  using reachable_inv [OF assms(1-3), of obss] assms(4)
  by (auto simp: run_inv_def counters_inv_def evidence_def Let_def)

theorem loop_evidence_exact_witness:
  "ev_repeat_count (evidence (observe_all [ls_again True, ls_again False] (new_stuck_tracker dev_profile))) = 2
    \<and> repeat_streak [ls_again False, ls_again True] = 2"
  using loop_evidence_exact [OF _ _ _ refl, of dev_profile _ "[ls_again True, ls_again False]"]
  by (simp add: dev_profile_def repeat_streak_step ls_again_def)

text \<open>The absence of file modifications never stops or nudges a run: two runs that made the same calls and met
  the same errors get the same nudges and are terminated at the same iteration, whatever they
  modified or explored.\<close>

theorem modifications_do_not_decide:
  assumes "list_all2 (\<lambda>x y. signatures x = signatures y \<and> error_content x = error_content y) (xs @ [x]) (ys @ [y])"
  shows "v_nudge (snd (observe x (observe_all xs (new_stuck_tracker profile))))
       = v_nudge (snd (observe y (observe_all ys (new_stuck_tracker profile))))
    \<and> (v_terminate (snd (observe x (observe_all xs (new_stuck_tracker profile)))) = None)
       = (v_terminate (snd (observe y (observe_all ys (new_stuck_tracker profile)))) = None)"
proof -
  have len: "length xs = length ys" using list_all2_lengthD [OF assms] by simp
  with assms have "list_all2 (\<lambda>x y. signatures x = signatures y \<and> error_content x = error_content y) xs ys"
    and xy: "signatures x = signatures y" "error_content x = error_content y" by (simp_all add: list_all2_append)
  from observe_view [OF observe_all_view [OF this(1) refl] xy] show ?thesis by blast
qed

theorem modifications_do_not_decide_witness:
  "v_terminate (snd (observe (ls_again True) (observe_all [ls_again True, ls_again True] (new_stuck_tracker dev_profile)))) \<noteq> None"
  using modifications_do_not_decide [of "[ls_again False, ls_again False]" "ls_again False"
      "[ls_again True, ls_again True]" "ls_again True" dev_profile] ls_again_terminates
  by (simp add: ls_again_def)

text \<open>The history kept for the audit is bounded and recent: after any run of an enabled tracker it holds
  exactly the last iterations, at most fifty, in order.\<close>

theorem history_is_recent:
  assumes "sp_stuck_detection profile = Some cfg" "sc_enabled cfg" "sp_phase profile = ''dev''"
  shows "map he_iteration (st_history (observe_all obss (new_stuck_tracker profile)))
    = map int [Suc (length obss) - min (length obss) 50..<Suc (length obss)]"
  using history_inv [of "new_stuck_tracker profile" 0 obss] assms
  by (simp add: new_stuck_tracker_def latest_def)

theorem history_is_recent_witness:
  "map he_iteration (st_history (observe_all (replicate 52 (ls_again True)) (new_stuck_tracker dev_profile)))
    = map int [3..<53]"
  using history_is_recent [of dev_profile _ "replicate 52 (ls_again True)"] by (simp add: dev_profile_def del: upt_Suc replicate.simps)

text \<open>Fingerprints do not carry payloads: two calls of a tool whose arguments differ only in the values of
  the sensitive arguments have the same fingerprint in the audit.\<close>

theorem fingerprint_hides_payload:
  assumes "list_all2 (\<lambda>(k, v) (k', v'). k = k' \<and> (k \<in> set sensitive_arg_names \<or> v = v')) d e"
  shows "call_fingerprint float_repr name (Some d) = call_fingerprint float_repr name (Some e)"
proof -
  from assms have "redact_arguments (Some d) = redact_arguments (Some e)"
    by (induction rule: list_all2_induct) (auto simp: redact_arguments_def)
  then show ?thesis by (simp add: call_fingerprint_def)
qed

theorem fingerprint_hides_payload_witness:
  "call_fingerprint (\<lambda>r. []) (Some ''Write'') (Some [(''path'', PStr ''a''), (''content'', PStr ''secret'')])
    = call_fingerprint (\<lambda>r. []) (Some ''Write'') (Some [(''path'', PStr ''a''), (''content'', PStr ''other'')])"
  by (rule fingerprint_hides_payload) (simp add: sensitive_arg_names_def)

end
