(* ===== verification/Exploration_Slots.thy ===== *)
theory Exploration_Slots
  imports Forge_Prelude
begin

text \<open>
  The exploration budget of a sprint (\<^verbatim>\<open>coordinator/exploration_budget.py\<close>): a worker claims one of
  \<open>cap\<close> slots by creating its sentinel file exclusively. The directory of the slots is shared by
  worker processes; every system call is one atomic step, and workers interleave between them.

  A directory is the dictionary of its files, absent until \<^verbatim>\<open>mkdir\<close>. The payload written into a slot
  is the serialised entry. What the file system may refuse is part of the environment: \<^verbatim>\<open>mkdir\<close>,
  an \<^verbatim>\<open>open\<close> that fails for another reason than the file existing, the \<^verbatim>\<open>write\<close>, the listing.
\<close>

section \<open>Model\<close>

record slot_env =
  mkdir_error :: bool
  open_error :: "nat \<Rightarrow> bool"
  write_error :: bool
  list_error :: bool

definition reliable :: slot_env where
  "reliable = \<lparr>mkdir_error = False, open_error = (\<lambda>i. False), write_error = False, list_error = False\<rparr>"

type_synonym slot_directory = "(string, string) dict option"

text \<open>The path of the directory, by its components.\<close>

definition slot_dir :: "string list \<Rightarrow> string \<Rightarrow> string list" where
  "slot_dir project_root sprint_name = project_root @ [''.forge'', ''sprints'', sprint_name, ''exploration_slots'']"

definition slot_name :: "nat \<Rightarrow> string" where
  "slot_name i = ''slot_'' @ show_nat i"

definition consumed_count :: "slot_env \<Rightarrow> slot_directory \<Rightarrow> string option \<Rightarrow> int" where
  "consumed_count env d sprint_name =
     (if sprint_name = None \<or> sprint_name = Some [] then 0
      else case d of None \<Rightarrow> 0
           | Some files \<Rightarrow> if list_error env then 0
                           else int (length (filter (prefix ''slot_'') (dict_keys files))))"

definition remaining_budget :: "slot_env \<Rightarrow> slot_directory \<Rightarrow> string option \<Rightarrow> int \<Rightarrow> int option" where
  "remaining_budget env d sprint_name cap =
     (if cap \<le> 0 \<or> sprint_name = None \<or> sprint_name = Some [] then None
      else Some (max 0 (cap - consumed_count env d sprint_name)))"

text \<open>The loop over the indices, in a directory that exists.\<close>

fun claim_slots :: "slot_env \<Rightarrow> string \<Rightarrow> nat list \<Rightarrow> (string, string) dict \<Rightarrow> bool py_result \<times> (string, string) dict" where
  "claim_slots env payload [] files = (Inr False, files)"
| "claim_slots env payload (i # is) files =
     (if open_error env i then (Inr False, files)
      else if slot_name i \<in> set (dict_keys files) then claim_slots env payload is files
      else if write_error env then (Inl (OSError ''write''), dict_set (slot_name i) [] files)
      else (Inr True, dict_set (slot_name i) payload files))"

definition reserve_slot :: "slot_env \<Rightarrow> string option \<Rightarrow> int \<Rightarrow> string \<Rightarrow> slot_directory \<Rightarrow> bool py_result \<times> slot_directory" where
  "reserve_slot env sprint_name cap payload d =
     (if sprint_name = None \<or> sprint_name = Some [] \<or> cap \<le> 0 then (Inr False, d)
      else if mkdir_error env then (Inr False, d)
      else case claim_slots env payload [0..<nat cap] (case d of None \<Rightarrow> [] | Some files \<Rightarrow> files) of
             (r, files) \<Rightarrow> (r, Some files))"

subsection \<open>Interleaved workers\<close>

text \<open>
  Where a worker stands inside \<^verbatim>\<open>reserve_slot\<close>: before it, about to open index \<open>i\<close>, between creating
  and writing its slot, or returned (or raised).
\<close>

datatype worker_pc = Enter | Try nat | Writing nat | Returned "bool py_result"

record slot_worker =
  w_env :: slot_env
  w_payload :: string
  w_pc :: worker_pc

fun worker_step :: "string option \<Rightarrow> int \<Rightarrow> slot_env \<Rightarrow> string \<Rightarrow> worker_pc \<times> slot_directory \<Rightarrow> worker_pc \<times> slot_directory" where
  "worker_step sprint_name cap env payload (Enter, d) =
     (if sprint_name = None \<or> sprint_name = Some [] \<or> cap \<le> 0 then (Returned (Inr False), d)
      else if mkdir_error env then (Returned (Inr False), d)
      else (Try 0, Some (case d of None \<Rightarrow> [] | Some files \<Rightarrow> files)))"
| "worker_step sprint_name cap env payload (Try i, d) =
     (if cap \<le> int i then (Returned (Inr False), d)
      else if open_error env i then (Returned (Inr False), d)
      else if slot_name i \<in> set (dict_keys (the d)) then (Try (Suc i), d)
      else (Writing i, Some (dict_set (slot_name i) [] (the d))))"
| "worker_step sprint_name cap env payload (Writing i, d) =
     (if write_error env then (Returned (Inl (OSError ''write'')), d)
      else (Returned (Inr True), Some (dict_set (slot_name i) payload (the d))))"
| "worker_step sprint_name cap env payload (Returned r, d) = (Returned r, d)"

record slot_system =
  ss_dir :: slot_directory
  ss_workers :: "slot_worker list"

inductive slots_step :: "string option \<Rightarrow> int \<Rightarrow> slot_system \<Rightarrow> slot_system \<Rightarrow> bool" for sprint_name cap where
  step: "k < length (ss_workers s) \<Longrightarrow> w = ss_workers s ! k \<Longrightarrow> \<forall>r. w_pc w \<noteq> Returned r \<Longrightarrow>
     worker_step sprint_name cap (w_env w) (w_payload w) (w_pc w, ss_dir s) = (pc, d) \<Longrightarrow>
     slots_step sprint_name cap s \<lparr>ss_dir = d, ss_workers = (ss_workers s)[k := w\<lparr>w_pc := pc\<rparr>]\<rparr>"

text \<open>A worker holds a slot from creating its file on, also when writing the record then fails.\<close>

fun holds_slot :: "worker_pc \<Rightarrow> bool" where
  "holds_slot (Writing i) = True"
| "holds_slot (Returned (Inr b)) = b"
| "holds_slot (Returned (Inl e)) = True"
| "holds_slot _ = False"

definition granted :: "slot_system \<Rightarrow> nat" where
  "granted s = length (filter (\<lambda>w. holds_slot (w_pc w)) (ss_workers s))"

text \<open>What the budget promises: a counter that goes up by one, never past the cap.\<close>

definition counter_step :: "int \<Rightarrow> nat \<Rightarrow> nat \<Rightarrow> bool" where
  "counter_step cap g g' \<longleftrightarrow> int g < cap \<and> g' = Suc g"

definition slots_start :: "(slot_env \<times> string) list \<Rightarrow> slot_system" where
  "slots_start ws = \<lparr>ss_dir = None, ss_workers = map (\<lambda>(env, p). \<lparr>w_env = env, w_payload = p, w_pc = Enter\<rparr>) ws\<rparr>"

text \<open>The step relation run along a schedule: which worker makes the next system call.\<close>

fun run_schedule :: "string option \<Rightarrow> int \<Rightarrow> nat list \<Rightarrow> slot_system \<Rightarrow> slot_system" where
  "run_schedule sprint_name cap [] s = s"
| "run_schedule sprint_name cap (k # ks) s =
     (if k < length (ss_workers s)
      then (let w = ss_workers s ! k
            in case w_pc w of Returned r \<Rightarrow> run_schedule sprint_name cap ks s
               | _ \<Rightarrow> (case worker_step sprint_name cap (w_env w) (w_payload w) (w_pc w, ss_dir s) of (pc, d) \<Rightarrow>
                    run_schedule sprint_name cap ks \<lparr>ss_dir = d, ss_workers = (ss_workers s)[k := w\<lparr>w_pc := pc\<rparr>]\<rparr>))
      else run_schedule sprint_name cap ks s)"

lemma run_schedule_step:
  assumes "k < length (ss_workers s)" "\<forall>r. w_pc (ss_workers s ! k) \<noteq> Returned r"
  shows "\<exists>s'. slots_step sprint_name cap s s' \<and> run_schedule sprint_name cap (k # ks) s = run_schedule sprint_name cap ks s'"
proof -
  let ?w = "ss_workers s ! k"
  obtain pc d where w: "worker_step sprint_name cap (w_env ?w) (w_payload ?w) (w_pc ?w, ss_dir s) = (pc, d)" by force
  from slots_step.step [OF assms(1) refl assms(2) w] show ?thesis
    using assms w by (intro exI conjI) (assumption, cases "w_pc ?w", auto simp: Let_def)
qed

lemma run_schedule_reach: "(slots_step sprint_name cap)\<^sup>*\<^sup>* s (run_schedule sprint_name cap ks s)"
proof (induction ks arbitrary: s)
  case (Cons k ks)
  show ?case
  proof (cases "k < length (ss_workers s) \<and> (\<forall>r. w_pc (ss_workers s ! k) \<noteq> Returned r)")
    case True
    with run_schedule_step [of k s sprint_name cap ks] Cons.IH show ?thesis
      by (metis converse_rtranclp_into_rtranclp)
  next
    case False
    then have "run_schedule sprint_name cap (k # ks) s = run_schedule sprint_name cap ks s" by (auto simp: Let_def)
    with Cons.IH show ?thesis by metis
  qed
qed simp

section \<open>The invariant\<close>

definition dir_files :: "slot_directory \<Rightarrow> (string, string) dict" where
  "dir_files d = (case d of None \<Rightarrow> [] | Some files \<Rightarrow> files)"

lemma dir_files_simps [simp]: "dir_files None = []" "dir_files (Some files) = files"
  by (simp_all add: dir_files_def)

lemma slot_name_inject [simp]: "slot_name i = slot_name j \<longleftrightarrow> i = j"
  by (simp add: slot_name_def show_nat_inject)

text \<open>The files are slots below the cap.\<close>

definition slot_files :: "int \<Rightarrow> (string, string) dict \<Rightarrow> bool" where
  "slot_files cap files \<longleftrightarrow> dict_wf files \<and> set (dict_keys files) \<subseteq> slot_name ` {i. int i < cap}"

fun pc_ok :: "string option \<Rightarrow> int \<Rightarrow> slot_env \<Rightarrow> slot_directory \<Rightarrow> worker_pc \<Rightarrow> bool" where
  "pc_ok sprint_name cap env d Enter = True"
| "pc_ok sprint_name cap env d (Try i) = (d \<noteq> None \<and> slot_name ` {..<i} \<subseteq> fst ` set (dir_files d))"
| "pc_ok sprint_name cap env d (Writing i) = (d \<noteq> None \<and> slot_name i \<in> fst ` set (dir_files d))"
| "pc_ok sprint_name cap env d (Returned r) = (r = Inr False \<and> env = reliable \<and> sprint_name \<notin> {None, Some []}
      \<longrightarrow> slot_name ` {..<nat cap} \<subseteq> fst ` set (dir_files d))"

definition slots_inv :: "string option \<Rightarrow> int \<Rightarrow> slot_system \<Rightarrow> bool" where
  "slots_inv sprint_name cap s \<longleftrightarrow> slot_files cap (dir_files (ss_dir s)) \<and> length (dir_files (ss_dir s)) = granted s
     \<and> (\<forall>w \<in> set (ss_workers s). pc_ok sprint_name cap (w_env w) (ss_dir s) (w_pc w))"

lemma slot_files_bound:
  assumes "slot_files cap files"
  shows "int (length files) \<le> max 0 cap"
proof -
  have i: "{i. int i < cap} = {..<nat cap}" by auto
  from assms have "length files = card (set (dict_keys files))" 
    by (metis distinct_card length_map slot_files_def)
  also have "\<dots> \<le> card (slot_name ` {..<nat cap})"
    using assms by (intro card_mono) (auto simp: slot_files_def i)
  also have "\<dots> \<le> nat cap" using card_image_le [of "{..<nat cap}" slot_name] by simp
  finally show ?thesis by simp
qed

lemma slot_files_full:
  assumes "slot_files cap files" "slot_name ` {..<nat cap} \<subseteq> set (dict_keys files)"
  shows "length files = nat cap"
proof -
  have i: "{i. int i < cap} = {..<nat cap}" by auto
  from assms have "set (dict_keys files) = slot_name ` {..<nat cap}" by (auto simp: slot_files_def i)
  moreover have "card (slot_name ` {..<nat cap}) = nat cap" by (simp add: card_image inj_on_def)
  ultimately show ?thesis using assms(1) by (metis distinct_card length_map slot_files_def)
qed

lemma length_filter_update:
  assumes "k < length xs"
  shows "length (filter P (xs[k := y])) + of_bool (P (xs ! k)) = length (filter P xs) + of_bool (P y)"
proof -
  have "filter P xs = filter P (take k xs) @ filter P (xs ! k # drop (Suc k) xs)"
    using assms by (metis filter_append id_take_nth_drop)
  with assms show ?thesis by (simp add: upd_conv_take_nth_drop)
qed

lemma length_filter_mono: "(\<And>x. P x \<Longrightarrow> Q x) \<Longrightarrow> length (filter P xs) \<le> length (filter Q xs)"
  by (induction xs) (auto simp: le_SucI)

lemma pc_ok_mono:
  "pc_ok sprint_name cap env d pc \<Longrightarrow> fst ` set (dir_files d) \<subseteq> fst ` set (dir_files d') \<Longrightarrow> d \<noteq> None \<longrightarrow> d' \<noteq> None
    \<Longrightarrow> pc_ok sprint_name cap env d' pc"
  by (cases pc) (simp_all, blast+)

lemma slot_files_set: "slot_files cap files \<Longrightarrow> int i < cap \<Longrightarrow> slot_files cap (dict_set (slot_name i) v files)"
  by (simp add: slot_files_def)

lemma slot_files_below: "slot_files cap files \<Longrightarrow> slot_name i \<in> fst ` set files \<Longrightarrow> int i < cap"
  by (auto simp: slot_files_def)

text \<open>What one system call of a worker does to the directory and to the worker.\<close>

lemma worker_step_effect:
  assumes "worker_step sprint_name cap env payload (pc, d) = (pc', d')" "\<forall>r. pc \<noteq> Returned r"
    and "pc_ok sprint_name cap env d pc" "slot_files cap (dir_files d)"
  shows "slot_files cap (dir_files d') \<and> pc_ok sprint_name cap env d' pc'
    \<and> fst ` set (dir_files d) \<subseteq> fst ` set (dir_files d') \<and> (d \<noteq> None \<longrightarrow> d' \<noteq> None)
    \<and> length (dir_files d') + of_bool (holds_slot pc) = length (dir_files d) + of_bool (holds_slot pc')
    \<and> (holds_slot pc \<longrightarrow> holds_slot pc')"
proof (cases pc)
  case Enter
  with assms show ?thesis by (cases d) (auto simp: reliable_def split: if_splits)
next
  case (Try i)
  with assms obtain files where d: "d = Some files" and i: "slot_name ` {..<i} \<subseteq> fst ` set files" by (cases d) auto
  consider "cap \<le> int i" | "int i < cap" "open_error env i"
    | "int i < cap" "\<not> open_error env i" "slot_name i \<in> fst ` set files"
    | "int i < cap" "\<not> open_error env i" "slot_name i \<notin> fst ` set files" by linarith
  then show ?thesis
  proof cases
    case 1
    then have "nat cap \<le> i" by simp
    with i have "slot_name ` {..<nat cap} \<subseteq> fst ` set files" by fastforce
    with assms Try d 1 show ?thesis by auto
  next
    case 2
    with assms Try d show ?thesis by (auto simp: reliable_def)
  next
    case 3
    with assms(1) Try d have "pc' = Try (Suc i)" "d' = Some files" by auto
    with assms(4) 3 i Try d show ?thesis by (simp add: lessThan_Suc)
  next
    case 4
    with assms(1) Try d have "pc' = Writing i" "d' = Some (dict_set (slot_name i) [] files)" by auto
    with assms(4) 4 Try d show ?thesis by (simp add: slot_files_set length_dict_set subset_insertI)
  qed
next
  case (Writing i)
  with assms obtain files where d: "d = Some files" and i: "slot_name i \<in> fst ` set files" by (cases d) auto
  from assms(1) Writing d obtain r files' where d': "d' = Some files'" "files' = files \<or> files' = dict_set (slot_name i) payload files"
    and r: "pc' = Returned r" "r \<noteq> Inr False" "holds_slot (Returned r)" by (auto split: if_splits)
  have "slot_files cap files' \<and> fst ` set files' = fst ` set files \<and> length files' = length files"
    using d'(2)
  proof
    assume f: "files' = dict_set (slot_name i) payload files"
    from assms(4) d have "slot_files cap files" by simp
    from slot_files_set [OF this slot_files_below [OF this i]] i show ?thesis
      by (simp only: f length_dict_set set_dict_keys_set insert_absorb if_True simp_thms)
  qed (use assms(4) d in simp)
  with d d' r Writing show ?thesis by simp
qed (use assms in simp)

lemma slots_step_effect:
  assumes "slots_inv sprint_name cap s" "slots_step sprint_name cap s s'"
  shows "slots_inv sprint_name cap s' \<and> (granted s' = granted s \<or> counter_step cap (granted s) (granted s'))"
  using assms(2)
proof (cases rule: slots_step.cases)
  case (step k w pc d)
  let ?pc = "w_pc w"
  from assms(1) step(2,3) have ok: "pc_ok sprint_name cap (w_env w) (ss_dir s) ?pc"
    and files: "slot_files cap (dir_files (ss_dir s))"
    and len: "length (dir_files (ss_dir s)) = granted s" by (auto simp: slots_inv_def)
  note eff = worker_step_effect [OF step(5,4) ok files]
  have g: "granted s' + of_bool (holds_slot ?pc) = granted s + of_bool (holds_slot pc)"
    using length_filter_update [OF step(2), of "\<lambda>w. holds_slot (w_pc w)" "w\<lparr>w_pc := pc\<rparr>"] step(1,3)
    by (simp add: granted_def)
  have pcs: "pc_ok sprint_name cap (w_env v) d (w_pc v)" if "v \<in> set (ss_workers s')" for v
  proof (cases "v \<in> set (ss_workers s)")
    case True
    with assms(1) have "pc_ok sprint_name cap (w_env v) (ss_dir s) (w_pc v)" by (simp add: slots_inv_def)
    from pc_ok_mono [OF this] eff show ?thesis by blast
  next
    case False
    with that step(1) set_update_subset_insert [of "ss_workers s" k] have "v = w\<lparr>w_pc := pc\<rparr>" by auto
    with eff show ?thesis by simp
  qed
  have len': "length (dir_files (ss_dir s')) = granted s'" using eff g len step(1) by simp
  have "slots_inv sprint_name cap s'" using eff pcs len' step(1) by (simp add: slots_inv_def)
  moreover from eff slot_files_bound [of cap "dir_files d"] len' step(1)
  have "int (granted s') \<le> max 0 cap" by simp
  with g eff have "granted s' = granted s \<or> counter_step cap (granted s) (granted s')"
    by (auto simp: counter_step_def of_bool_def split: if_splits)
  ultimately show ?thesis by blast
qed

interpretation slots: simulation "slots_step sprint_name cap" "counter_step cap" granted "slots_inv sprint_name cap" for sprint_name cap
  by unfold_locales (use slots_step_effect in blast)+

lemma slots_start_inv: "slots_inv sprint_name cap (slots_start ws)"
  by (auto simp: slots_inv_def slots_start_def slot_files_def granted_def filter_empty_conv)

lemma slots_start_granted [simp]: "granted (slots_start ws) = 0"
  by (auto simp: slots_start_def granted_def filter_empty_conv)

lemma counter_bound: "(counter_step cap)\<^sup>*\<^sup>* g g' \<Longrightarrow> int g \<le> max 0 cap \<Longrightarrow> int g' \<le> max 0 cap"
  by (induction rule: rtranclp_induct) (auto simp: counter_step_def)

text \<open>One call on its own is its worker run without interruption.\<close>

lemma claim_slots_run:
  "i \<le> nat cap \<Longrightarrow> claim_slots env payload [i..<nat cap] files = (r, files') \<Longrightarrow>
    \<exists>n. ((worker_step sprint_name cap env payload) ^^ n) (Try i, Some files) = (Returned r, Some files')"
proof (induction "nat cap - i" arbitrary: i)
  case 0
  then have "cap \<le> int i" "[i..<nat cap] = []" by simp_all
  with 0 show ?case by (intro exI [of _ 1]) auto
next
  case (Suc k)
  then have i: "int i < cap" "[i..<nat cap] = i # [Suc i..<nat cap]" by (simp_all add: upt_conv_Cons)
  show ?case
  proof (cases "open_error env i")
    case True
    with Suc.prems i show ?thesis by (intro exI [of _ 1]) auto
  next
    case False
    show ?thesis
    proof (cases "slot_name i \<in> fst ` set files")
      case True
      with Suc.prems i False have "claim_slots env payload [Suc i..<nat cap] files = (r, files')" by simp
      moreover from Suc.hyps(2) have "k = nat cap - Suc i" "Suc i \<le> nat cap" by simp_all
      ultimately obtain n where
        "((worker_step sprint_name cap env payload) ^^ n) (Try (Suc i), Some files) = (Returned r, Some files')"
        using Suc.hyps(1) by blast
      with True False i show ?thesis by (intro exI [of _ "Suc n"]) (simp add: funpow_swap1)
    next
      case False
      with \<open>\<not> open_error env i\<close> Suc.prems i show ?thesis
        by (intro exI [of _ 2]) (auto simp: numeral_2_eq_2 update_Some_unfold split: if_splits)
    qed
  qed
qed

lemma claim_slots_reliable:
  "claim_slots reliable p is files =
     (case filter (\<lambda>i. slot_name i \<notin> fst ` set files) is of [] \<Rightarrow> (Inr False, files)
      | i # _ \<Rightarrow> (Inr True, dict_set (slot_name i) p files))"
  by (induction "is") (auto simp: reliable_def)

lemma slot_files_prefix:
  assumes "slot_files cap files"
  shows "filter (prefix ''slot_'') (dict_keys files) = dict_keys files"
proof -
  from assms have "list_all (prefix ''slot_'') (dict_keys files)" by (auto simp: slot_files_def list_all_iff slot_name_def)
  then show ?thesis by (simp add: filter_id_conv list_all_iff)
qed

lemma free_slot_iff:
  assumes "slot_files cap files"
  shows "filter (\<lambda>i. slot_name i \<notin> fst ` set files) [0..<nat cap] = [] \<longleftrightarrow> cap \<le> int (length files)"
proof
  assume "filter (\<lambda>i. slot_name i \<notin> fst ` set files) [0..<nat cap] = []"
  then have "slot_name ` {..<nat cap} \<subseteq> set (dict_keys files)" by (auto simp: filter_empty_conv)
  from slot_files_full [OF assms this] show "cap \<le> int (length files)" by simp
next
  assume "cap \<le> int (length files)"
  then have c: "nat cap \<le> card (fst ` set files)"
    using assms by (metis distinct_card length_map list.set_map nat_le_iff slot_files_def)
  have i: "{i. int i < cap} = {..<nat cap}" by auto
  from assms have "fst ` set files \<subseteq> slot_name ` {..<nat cap}" by (simp add: slot_files_def i)
  moreover have "card (slot_name ` {..<nat cap}) = nat cap" by (simp add: card_image inj_on_def)
  ultimately have "fst ` set files = slot_name ` {..<nat cap}" using c by (intro card_seteq) simp_all
  then show "filter (\<lambda>i. slot_name i \<notin> fst ` set files) [0..<nat cap] = []" by (auto simp: filter_empty_conv)
qed

section \<open>Properties\<close>

text \<open>C10. The slots implement a counter with a cap: however worker processes interleave inside
  \<^verbatim>\<open>reserve_slot\<close> and whatever system calls fail, the number of workers that hold a slot behaves as a
  counter that starts at zero, grows by one and never passes the cap; in particular at most \<open>cap\<close>
  calls return True.\<close>

theorem slots_refine_counter:
  assumes "(slots_step sprint_name cap)\<^sup>*\<^sup>* (slots_start ws) s"
  shows "(counter_step cap)\<^sup>*\<^sup>* 0 (granted s)
    \<and> int (length (filter (\<lambda>w. w_pc w = Returned (Inr True)) (ss_workers s))) \<le> max 0 cap"
proof -
  from slots.reach_sim [OF assms slots_start_inv] have c: "(counter_step cap)\<^sup>*\<^sup>* 0 (granted s)" by simp
  have "length (filter (\<lambda>w. w_pc w = Returned (Inr True)) (ss_workers s)) \<le> granted s"
    unfolding granted_def by (rule length_filter_mono) simp
  with counter_bound [OF c] c show ?thesis by simp
qed

text \<open>Two workers that race for one slot, their system calls alternating.\<close>

definition race :: slot_system where
  "race = run_schedule (Some ''s'') 1 [0, 1, 0, 1, 0, 1] (slots_start [(reliable, ''p''), (reliable, ''q'')])"

lemma race_reach: "(slots_step (Some ''s'') 1)\<^sup>*\<^sup>* (slots_start [(reliable, ''p''), (reliable, ''q'')]) race"
  unfolding race_def by (rule run_schedule_reach)

lemma race_result: "race = \<lparr>ss_dir = Some [(slot_name 0, ''p'')], ss_workers =
    [\<lparr>w_env = reliable, w_payload = ''p'', w_pc = Returned (Inr True)\<rparr>,
     \<lparr>w_env = reliable, w_payload = ''q'', w_pc = Returned (Inr False)\<rparr>]\<rparr>"
  by (simp add: race_def slots_start_def reliable_def)

theorem slots_refine_counter_witness:
  "(counter_step 1)\<^sup>*\<^sup>* 0 (granted race) \<and> granted race = 1"
  using slots_refine_counter [OF race_reach] by (simp add: granted_def race_result)

text \<open>No slot is withheld: a worker that met no file-system error and was refused in a sprint was refused
  because every slot up to the cap is held.\<close>

theorem refusal_means_cap_reached:
  assumes "(slots_step (Some sprint) cap)\<^sup>*\<^sup>* (slots_start ws) s" "sprint \<noteq> []"
    and "w \<in> set (ss_workers s)" "w_env w = reliable" "w_pc w = Returned (Inr False)"
  shows "granted s = nat cap"
proof -
  from slots.reach_inv [OF assms(1) slots_start_inv] have inv: "slots_inv (Some sprint) cap s" .
  with assms(2-5) have "slot_name ` {..<nat cap} \<subseteq> set (dict_keys (dir_files (ss_dir s)))"
    by (fastforce simp: slots_inv_def)
  from slot_files_full [OF _ this] inv show ?thesis by (simp add: slots_inv_def)
qed

theorem refusal_means_cap_reached_witness: "granted race = nat 1"
  by (rule refusal_means_cap_reached [OF race_reach, where w = "ss_workers race ! 1"]) (simp_all add: race_result)

text \<open>\<^verbatim>\<open>reserve_slot\<close> as one call is the worker the interleavings are made of: running the worker alone from
  its entry ends with the result and the directory the call has.\<close>

theorem reserve_slot_is_worker_run:
  "\<exists>n. ((worker_step sprint_name cap env payload) ^^ n) (Enter, d)
     = (Returned (fst (reserve_slot env sprint_name cap payload d)), snd (reserve_slot env sprint_name cap payload d))"
proof (cases "sprint_name = None \<or> sprint_name = Some [] \<or> cap \<le> 0 \<or> mkdir_error env")
  case True
  then show ?thesis by (intro exI [of _ 1]) (auto simp: reserve_slot_def)
next
  case False
  let ?files = "case d of None \<Rightarrow> [] | Some files \<Rightarrow> files"
  obtain r files' where c: "claim_slots env payload [0..<nat cap] ?files = (r, files')" by force
  from claim_slots_run [OF _ c] obtain n where
    "((worker_step sprint_name cap env payload) ^^ n) (Try 0, Some ?files) = (Returned r, Some files')" by blast
  with False c show ?thesis by (intro exI [of _ "Suc n"]) (auto simp: funpow_swap1 reserve_slot_def)
qed

text \<open>The advisory read agrees with the claim: in a directory that holds only slots below the cap, and with a
  reliable file system, \<^verbatim>\<open>reserve_slot\<close> succeeds exactly when \<^verbatim>\<open>remaining_budget\<close> is positive, and the
  count of consumed slots then grows by one and otherwise stays.\<close>

theorem advisory_budget_exact:
  assumes "slot_files cap (dir_files d)" "sprint \<noteq> []"
    and "reserve_slot reliable (Some sprint) cap payload d = (r, d')"
  shows "r = Inr (\<exists>n. remaining_budget reliable d (Some sprint) cap = Some n \<and> 0 < n)
    \<and> consumed_count reliable d' (Some sprint) = consumed_count reliable d (Some sprint) + of_bool (r = Inr True)"
proof (cases "cap \<le> 0")
  case True
  with assms(3) show ?thesis by (auto simp: reserve_slot_def remaining_budget_def)
next
  case False
  have count: "consumed_count reliable e (Some sprint) = int (length (dir_files e))" if "slot_files cap (dir_files e)" for e
    using slot_files_prefix [OF that] arg_cong [OF slot_files_prefix [OF that], of length] assms(2)
    by (cases e) (simp_all add: consumed_count_def reliable_def)
  have files: "(case d of None \<Rightarrow> [] | Some files \<Rightarrow> files) = dir_files d" by (simp add: dir_files_def)
  show ?thesis
  proof (cases "filter (\<lambda>i. slot_name i \<notin> fst ` set (dir_files d)) [0..<nat cap]")
    case Nil
    with assms False have "r = Inr False" "dir_files d' = dir_files d"
      by (auto simp: reserve_slot_def reliable_def [THEN arg_cong, of mkdir_error] files claim_slots_reliable)
    with Nil free_slot_iff [OF assms(1)] assms(1,2) False count [of d] count [of d'] show ?thesis
      by (simp add: remaining_budget_def)
  next
    case (Cons i "is")
    then have "i \<in> set (filter (\<lambda>i. slot_name i \<notin> fst ` set (dir_files d)) [0..<nat cap])" by (simp only: list.set_intros)
    then have i: "slot_name i \<notin> fst ` set (dir_files d)" "int i < cap" 
      by (auto simp only: set_filter set_upt mem_Collect_eq atLeastLessThan_iff zless_nat_eq_int_zless)
    from Cons assms False have r: "r = Inr True" "d' = Some (dict_set (slot_name i) payload (dir_files d))"
      by (auto simp: reserve_slot_def reliable_def [THEN arg_cong, of mkdir_error] files claim_slots_reliable)
    from Cons free_slot_iff [OF assms(1)] have "int (length (dir_files d)) < cap" by force
    with r i slot_files_set [OF assms(1) i(2)] assms(1,2) False count [of d] count [of d'] show ?thesis
      by (simp add: remaining_budget_def length_dict_set)
  qed
qed

theorem advisory_budget_exact_witness:
  "fst (reserve_slot reliable (Some ''s'') 2 ''p'' (Some [(slot_name 0, ''q'')])) = Inr True
    \<and> consumed_count reliable (snd (reserve_slot reliable (Some ''s'') 2 ''p'' (Some [(slot_name 0, ''q'')]))) (Some ''s'') = 2"
proof -
  have f: "slot_files 2 (dir_files (Some [(slot_name 0, ''q'')]))" by (simp add: slot_files_def)
  have "consumed_count reliable (Some [(slot_name 0, ''q'')]) (Some ''s'') = 1"
    by (simp add: consumed_count_def reliable_def slot_name_def)
  with advisory_budget_exact [OF f _ prod.collapse [symmetric], of "''s''" "''p''"] show ?thesis
    by (simp add: remaining_budget_def)
qed

end
