(* ===== verification/Py_Float.thy ===== *)
theory Py_Float
  imports Forge_Prelude "HOL-Library.Log_Nat"
begin

text \<open>
  Finite Python floats (IEEE binary64). A float is the rational it denotes; an operation computes the
  exact result and rounds it to the nearest float, ties to even. Results are assumed to stay below
  the overflow threshold; gradual underflow is modelled, the sign of zero is not. \<^verbatim>\<open>round(x, n)\<close> and
  the \<^verbatim>\<open>.2f\<close> format round the exact value to a decimal, ties to even, and \<^verbatim>\<open>sum\<close> over floats is the
  compensated summation of Python 3.12.
\<close>

section \<open>Rounding to an integer\<close>

definition round_half_even :: "rat \<Rightarrow> int" where
  "round_half_even x =
     (let n = \<lfloor>x\<rfloor>; d = x - of_int n
      in if d < 1 / 2 then n else if d > 1 / 2 then n + 1 else if even n then n else n + 1)"

lemma round_half_even_bounds: "\<lfloor>x\<rfloor> \<le> round_half_even x" "round_half_even x \<le> \<lfloor>x\<rfloor> + 1"
  by (simp_all add: round_half_even_def Let_def)

lemma round_half_even_int [simp]: "round_half_even (of_int n) = n"
  by (simp add: round_half_even_def)

lemma round_half_even_of_numeral [simp]: "round_half_even (numeral n) = numeral n" "round_half_even 0 = 0" "round_half_even 1 = 1"
  using round_half_even_int [of "numeral n"] round_half_even_int [of 0] round_half_even_int [of 1] by simp_all

lemma round_half_even_mono:
  assumes "x \<le> y"
  shows "round_half_even x \<le> round_half_even y"
proof (cases "\<lfloor>x\<rfloor> = \<lfloor>y\<rfloor>")
  case True
  with assms show ?thesis by (auto simp: round_half_even_def Let_def)
next
  case False
  with floor_mono [OF assms] have "\<lfloor>x\<rfloor> + 1 \<le> \<lfloor>y\<rfloor>" by simp
  with round_half_even_bounds(2) [of x] round_half_even_bounds(1) [of y] show ?thesis by linarith
qed

lemma round_half_even_error: "\<bar>of_int (round_half_even x) - x\<bar> \<le> 1 / 2"
proof -
  have "x < of_int \<lfloor>x\<rfloor> + 1" "of_int \<lfloor>x\<rfloor> \<le> x" by linarith+
  then show ?thesis by (auto simp: round_half_even_def Let_def abs_le_iff field_simps)
qed

section \<open>Rounding to a float\<close>

text \<open>The binary exponent of a positive rational, and the spacing of floats around it.\<close>

definition exponent :: "rat \<Rightarrow> int" where
  "exponent x = (let (p, q) = quotient_of x; k = int (floorlog 2 (nat p)) - int (floorlog 2 (nat q))
                 in if 2 powi k \<le> x then k else k - 1)"

definition ulp :: "rat \<Rightarrow> rat" where
  "ulp x = 2 powi (max (exponent \<bar>x\<bar>) (-1022) - 52)"

definition fl :: "rat \<Rightarrow> rat" where
  "fl x = (if x = 0 then 0 else of_int (round_half_even (x / ulp x)) * ulp x)"

lemma pow2_less [simp]: "(2::rat) powi m < 2 powi n \<longleftrightarrow> m < n"
proof
  assume a: "(2::rat) powi m < 2 powi n"
  show "m < n"
  proof (rule ccontr)
    assume "\<not> m < n"
    then have "(2::rat) powi n \<le> 2 powi m" by (intro power_int_increasing) simp_all
    with a show False by simp
  qed
qed (rule power_int_strict_increasing, simp_all)

lemma pow2_le [simp]: "(2::rat) powi m \<le> 2 powi n \<longleftrightarrow> m \<le> n"
  using pow2_less [of n m] by (simp only: not_less [symmetric])

lemma pow2_pos [simp]: "0 < (2::rat) powi n"
  by (simp add: zero_less_power_int)

lemma pow2_nat: "0 \<le> n \<Longrightarrow> (2::rat) powi n = of_int (2 ^ nat n)"
  by (simp add: power_int_nonneg_exp)

lemma floorlog_int_bounds:
  assumes "0 < n"
  shows "2 powi (int (floorlog 2 (nat n)) - 1) \<le> (of_int n :: rat)" "(of_int n :: rat) < 2 powi int (floorlog 2 (nat n))"
proof -
  let ?a = "floorlog 2 (nat n)"
  have nz: "?a \<noteq> 0" using assms by (simp add: floorlog_eq_zero_iff)
  have b: "2 ^ (?a - 1) \<le> nat n" "nat n < 2 ^ ?a" using floorlog_bounds [of "nat n" 2] assms by auto
  have n: "(of_int n :: rat) = of_nat (nat n)" using assms by simp
  have "(2::rat) ^ (?a - 1) \<le> of_int n" unfolding n using b(1) by (metis of_nat_le_iff of_nat_numeral of_nat_power)
  moreover have "(2::rat) powi (int ?a - 1) = 2 ^ (?a - 1)"
    using nz by (metis One_nat_def Suc_pred bot_nat_0.not_eq_extremum diff_add_cancel int_ops(4) of_nat_1 of_nat_Suc power_int_of_nat add_diff_cancel_left' plus_1_eq_Suc of_nat_add)
  ultimately show "2 powi (int ?a - 1) \<le> (of_int n :: rat)" by simp
  have "of_int n < (2::rat) ^ ?a" unfolding n using b(2) by (metis of_nat_less_iff of_nat_numeral of_nat_power)
  then show "(of_int n :: rat) < 2 powi int ?a" by simp
qed

lemma exponent_bounds:
  assumes "0 < x"
  shows "2 powi exponent x \<le> x \<and> x < 2 powi (exponent x + 1)"
proof -
  obtain p q where pq: "quotient_of x = (p, q)" by force
  then have q: "0 < q" by (rule quotient_of_denom_pos)
  have x: "x = of_int p / of_int q" by (rule quotient_of_div [OF pq])
  with assms q have p: "0 < p" by (simp add: zero_less_divide_iff)
  let ?a = "int (floorlog 2 (nat p))" and ?b = "int (floorlog 2 (nat q))"
  let ?k = "?a - ?b"
  note pb = floorlog_int_bounds [OF p] and qb = floorlog_int_bounds [OF q]
  have "2 powi (?k - 1) = 2 powi (?a - 1) / (2 powi ?b :: rat)" by (simp add: power_int_diff)
  also have "\<dots> \<le> x" unfolding x using pb qb p q by (intro frac_le) (simp_all add: less_imp_le)
  finally have lo: "2 powi (?k - 1) \<le> x" .
  have "x < 2 powi ?a / 2 powi (?b - 1)" unfolding x using pb qb p q by (intro frac_less) simp_all
  also have "\<dots> = 2 powi (?k + 1)" by (simp add: power_int_diff power_int_add)
  finally have hi: "x < 2 powi (?k + 1)" .
  from lo hi show ?thesis by (simp add: exponent_def pq Let_def)
qed

lemma exponent_unique:
  assumes "2 powi e \<le> x" "x < 2 powi (e + 1)"
  shows "exponent x = e"
proof -
  have "0 < x" using assms(1) pow2_pos [of e] by (rule less_le_trans [rotated])
  from exponent_bounds [OF this] assms have "2 powi e < (2::rat) powi (exponent x + 1)" "2 powi exponent x < (2::rat) powi (e + 1)"
    by (meson le_less_trans)+
  then show ?thesis by simp
qed

lemma exponent_mono:
  assumes "0 < x" "x \<le> y"
  shows "exponent x \<le> exponent y"
proof -
  have "2 powi exponent x < (2::rat) powi (exponent y + 1)"
    using exponent_bounds [of x] exponent_bounds [of y] assms by (meson less_le_trans le_less_trans)
  then show ?thesis by simp
qed

lemma ulp_pos [simp]: "0 < ulp x"
  by (simp add: ulp_def)

lemma ulp_nonzero [simp]: "ulp x \<noteq> 0"
  using ulp_pos [of x] by linarith

lemma round_half_even_minus: "round_half_even (- x) = - round_half_even x"
proof (cases "x = of_int \<lfloor>x\<rfloor>")
  case True
  then show ?thesis by (metis of_int_minus round_half_even_int)
next
  case False
  then have "of_int \<lfloor>x\<rfloor> < x" "x < of_int \<lfloor>x\<rfloor> + 1" by linarith+
  then have f: "\<lfloor>- x\<rfloor> = - \<lfloor>x\<rfloor> - 1" by (intro floor_unique) simp_all
  show ?thesis unfolding round_half_even_def f Let_def by (auto simp: field_simps)
qed

lemma ulp_minus [simp]: "ulp (- x) = ulp x"
  by (simp add: ulp_def)

lemma fl_minus: "fl (- x) = - fl x"
  by (simp add: fl_def round_half_even_minus)

lemma fl_zero [simp]: "fl 0 = 0"
  by (simp add: fl_def)

text \<open>The significand of a rounded value has at most 53 bits, and at least 53 in the normal range.\<close>

lemma scaled_bounds:
  assumes "0 < x"
  shows "x / ulp x \<le> of_int (2 ^ 53)" "-1022 \<le> exponent x \<Longrightarrow> of_int (2 ^ 52) \<le> x / ulp x"
proof -
  let ?m = "max (exponent x) (-1022)"
  have u: "ulp x = 2 powi (?m - 52)" using assms by (simp add: ulp_def)
  have split: "(2::rat) powi (?m + 1) = of_int (2 ^ 53) * ulp x" "(2::rat) powi ?m = of_int (2 ^ 52) * ulp x"
    unfolding u by (simp_all add: power_int_add power_int_diff)
  have "x < 2 powi (exponent x + 1)" using exponent_bounds [OF assms] by blast
  also have "\<dots> \<le> 2 powi (?m + 1)" by simp
  finally have "x < of_int (2 ^ 53) * ulp x" unfolding split .
  then show "x / ulp x \<le> of_int (2 ^ 53)" by (simp add: divide_le_eq)
  assume "-1022 \<le> exponent x"
  then have "?m = exponent x" by simp
  with exponent_bounds [OF assms] split(2) have "of_int (2 ^ 52) * ulp x \<le> x" by simp
  then show "of_int (2 ^ 52) \<le> x / ulp x" by (simp add: le_divide_eq)
qed

lemma fl_mono_pos:
  assumes "0 < x" "x \<le> y"
  shows "fl x \<le> fl y"
proof -
  let ?m = "\<lambda>x. max (exponent x) (-1022)"
  have y: "0 < y" using assms by simp
  from exponent_mono [OF assms] have m: "?m x \<le> ?m y" by auto
  have flx: "fl x = of_int (round_half_even (x / ulp x)) * ulp x" "fl y = of_int (round_half_even (y / ulp y)) * ulp y"
    using assms y by (simp_all add: fl_def)
  have u: "ulp x = 2 powi (?m x - 52)" "ulp y = 2 powi (?m y - 52)" using assms y by (simp_all add: ulp_def)
  show ?thesis
  proof (cases "?m x = ?m y")
    case True
    with u have "ulp x = ulp y" by simp
    moreover from this assms have "x / ulp x \<le> y / ulp y" by (simp add: divide_right_mono less_imp_le)
    ultimately show ?thesis unfolding flx by (simp add: round_half_even_mono mult_right_mono less_imp_le)
  next
    case False
    with m have lt: "?m x + 1 \<le> ?m y" and ey: "-1022 \<le> exponent y" by auto
    have "round_half_even (x / ulp x) \<le> 2 ^ 53"
      using round_half_even_mono [OF scaled_bounds(1) [OF assms(1)]] by simp
    then have "fl x \<le> of_int (2 ^ 53) * ulp x" unfolding flx by (intro mult_right_mono) (simp_all add: less_imp_le del: of_int_power)
    also have "\<dots> = 2 powi (?m x + 1)" unfolding u by (simp add: power_int_add power_int_diff)
    also have "\<dots> \<le> 2 powi ?m y" using lt by simp
    also have "\<dots> = of_int (2 ^ 52) * ulp y" unfolding u by (simp add: power_int_diff)
    also have "\<dots> \<le> fl y"
      unfolding flx using round_half_even_mono [OF scaled_bounds(2) [OF y ey]]
      by (intro mult_right_mono) (simp_all add: less_imp_le del: of_int_power)
    finally show ?thesis .
  qed
qed

lemma fl_nonneg: "0 \<le> x \<Longrightarrow> 0 \<le> fl x"
  using round_half_even_mono [of 0 "x / ulp x"] by (simp add: fl_def less_imp_le)

lemma fl_mono: "x \<le> y \<Longrightarrow> fl x \<le> fl y"
proof -
  assume xy: "x \<le> y"
  consider "0 < x" | "x \<le> 0" "0 \<le> y" | "y < 0" by linarith
  then show "fl x \<le> fl y"
  proof cases
    case 2
    from 2(1) have "0 \<le> fl (- x)" by (intro fl_nonneg) simp
    with fl_nonneg [OF 2(2)] show ?thesis by (simp add: fl_minus)
  next
    case 3
    with xy fl_mono_pos [of "- y" "- x"] show ?thesis by (simp add: fl_minus)
  qed (use xy fl_mono_pos in simp)
qed

text \<open>A value with a significand of at most 53 bits is a float: rounding leaves it alone.\<close>

lemma fl_scaled: "x = of_int n * ulp x \<Longrightarrow> fl x = x"
proof -
  assume x: "x = of_int n * ulp x"
  then have "x / ulp x = of_int n" by (metis ulp_nonzero nonzero_mult_div_cancel_right)
  with x show "fl x = x" by (simp add: fl_def)
qed

lemma ulp_multiple:
  assumes "x = of_int n * 2 powi k" "max (exponent \<bar>x\<bar>) (-1022) - 52 \<le> k"
  shows "\<exists>j. x = of_int j * ulp x"
proof -
  let ?e = "max (exponent \<bar>x\<bar>) (-1022) - 52"
  have "(2::rat) powi k = of_int (2 ^ nat (k - ?e)) * ulp x"
    using assms(2) by (simp add: ulp_def flip: power_int_add power_int_nonneg_exp)
  with assms(1) have "x = of_int (n * 2 ^ nat (k - ?e)) * ulp x" by simp
  then show ?thesis by blast
qed

lemma fl_exact:
  assumes "x = of_int n * 2 powi k" "\<bar>n\<bar> \<le> 2 ^ 53" "-1074 \<le> k"
  shows "fl x = x"
proof (cases "n = 0")
  case False
  then have x: "0 < \<bar>x\<bar>" using assms(1) by simp
  let ?e = "exponent \<bar>x\<bar>"
  have ab: "\<bar>x\<bar> = of_int \<bar>n\<bar> * 2 powi k" using assms(1) by (simp add: abs_mult)
  have "\<bar>x\<bar> \<le> of_int (2 ^ 53) * 2 powi k"
    unfolding ab using assms(2) by (intro mult_right_mono) (simp_all add: less_imp_le del: of_int_power)
  also have "\<dots> = 2 powi (k + 53)" by (simp add: power_int_add)
  finally have le: "\<bar>x\<bar> \<le> 2 powi (k + 53)" .
  show ?thesis
  proof (cases "max ?e (-1022) - 52 \<le> k")
    case True
    with ulp_multiple [OF assms(1)] fl_scaled show ?thesis by blast
  next
    case big: False
    with assms(3) have "2 powi (k + 53) \<le> (2::rat) powi ?e" by simp
    also have "\<dots> \<le> \<bar>x\<bar>" using exponent_bounds [OF x] by blast
    finally have eq: "\<bar>x\<bar> = 2 powi (k + 53)" using le by simp
    have e: "?e = k + 53" unfolding eq by (rule exponent_unique) simp_all
    have "x = of_int (if 0 < x then 1 else -1) * 2 powi (k + 53)" unfolding eq [symmetric] by simp
    then have "\<exists>j. x = of_int j * ulp x"
      by (rule ulp_multiple) (use e assms(3) in simp)
    with fl_scaled show ?thesis by blast
  qed
qed (use assms in simp)

lemma fl_of_int: "\<bar>n\<bar> \<le> 2 ^ 53 \<Longrightarrow> fl (of_int n) = of_int n"
  by (rule fl_exact [of _ n 0]) simp_all

lemma significand_bound: "\<bar>round_half_even (x / ulp x)\<bar> \<le> 2 ^ 53"
proof -
  have "\<bar>round_half_even (y / ulp y)\<bar> \<le> 2 ^ 53" if "0 \<le> y" for y
  proof (cases "y = 0")
    case False
    with that have "0 < y" by simp
    from round_half_even_mono [OF scaled_bounds(1) [OF this]] round_half_even_mono [of 0 "y / ulp y"] that
    show ?thesis by (simp add: less_imp_le)
  qed simp
  from this [of x] this [of "- x"] show ?thesis
    by (cases "0 \<le> x") (simp_all add: round_half_even_minus)
qed

lemma fl_idem [simp]: "fl (fl x) = fl x"
proof (cases "x = 0")
  case False
  have "fl x = of_int (round_half_even (x / ulp x)) * 2 powi (max (exponent \<bar>x\<bar>) (-1022) - 52)"
    using False by (simp add: fl_def ulp_def)
  then show ?thesis by (rule fl_exact [OF _ significand_bound]) simp
qed simp

lemma fl_error: "\<bar>fl x - x\<bar> \<le> ulp x / 2"
proof (cases "x = 0")
  case False
  let ?q = "x / ulp x"
  have "fl x - x = (of_int (round_half_even ?q) - ?q) * ulp x"
    using False ulp_pos [of x] by (simp add: fl_def field_simps)
  then have "\<bar>fl x - x\<bar> = \<bar>of_int (round_half_even ?q) - ?q\<bar> * ulp x"
    by (simp add: abs_mult less_imp_le)
  also have "\<dots> \<le> 1 / 2 * ulp x"
    by (intro mult_right_mono round_half_even_error) (simp add: less_imp_le)
  finally show ?thesis by simp
qed (simp add: less_imp_le)

lemma ulp_small:
  assumes "x \<noteq> 0" "\<bar>x\<bar> < 2 powi (e + 1)" "-1022 \<le> e"
  shows "ulp x \<le> 2 powi (e - 52)"
proof -
  have "2 powi exponent \<bar>x\<bar> < (2::rat) powi (e + 1)"
    using exponent_bounds [of "\<bar>x\<bar>"] assms by (metis le_less_trans zero_less_abs_iff)
  with assms(3) show ?thesis by (simp add: ulp_def)
qed

lemma ulp_relative:
  assumes "2 powi e \<le> \<bar>x\<bar>" "-1022 \<le> e"
  shows "ulp x * 2 ^ 52 \<le> \<bar>x\<bar>"
proof -
  have x: "0 < \<bar>x\<bar>" using assms(1) pow2_pos [of e] by linarith
  with exponent_bounds [of "\<bar>x\<bar>"] assms(1) have "2 powi e < (2::rat) powi (exponent \<bar>x\<bar> + 1)" by linarith
  with assms(2) have "-1022 \<le> exponent \<bar>x\<bar>" by simp
  from scaled_bounds(2) [OF x this] have "of_int (2 ^ 52) * ulp \<bar>x\<bar> \<le> \<bar>x\<bar>" by (simp add: le_divide_eq)
  then show ?thesis by (simp add: ulp_def mult.commute)
qed

section \<open>Arithmetic\<close>

definition float_add :: "rat \<Rightarrow> rat \<Rightarrow> rat" where
  "float_add x y = fl (x + y)"

definition float_sub :: "rat \<Rightarrow> rat \<Rightarrow> rat" where
  "float_sub x y = fl (x - y)"

definition float_mul :: "rat \<Rightarrow> rat \<Rightarrow> rat" where
  "float_mul x y = fl (x * y)"

text \<open>Division by zero raises in the code; the definition is used where the divisor is not zero.\<close>

definition float_div :: "rat \<Rightarrow> rat \<Rightarrow> rat" where
  "float_div x y = fl (x / y)"

lemma float_add_mono: "x \<le> x' \<Longrightarrow> y \<le> y' \<Longrightarrow> float_add x y \<le> float_add x' y'"
  by (simp add: float_add_def fl_mono)

lemma float_sub_nonpos: "x \<le> y \<Longrightarrow> float_sub x y \<le> 0"
  using fl_mono [of "x - y" 0] by (simp add: float_sub_def)

text \<open>\<^verbatim>\<open>round(x, n)\<close>.\<close>

definition py_round :: "nat \<Rightarrow> rat \<Rightarrow> rat" where
  "py_round n x = fl (of_int (round_half_even (x * 10 ^ n)) / 10 ^ n)"

lemma py_round_mono: "x \<le> y \<Longrightarrow> py_round n x \<le> py_round n y"
  unfolding py_round_def by (intro fl_mono divide_right_mono) (simp_all add: round_half_even_mono mult_right_mono)

lemma py_round_zero [simp]: "py_round n 0 = 0"
  by (simp add: py_round_def)

lemma py_round_nonneg: "0 \<le> x \<Longrightarrow> 0 \<le> py_round n x"
  using py_round_mono [of 0 x n] by simp

lemma round_half_even_unique: "\<bar>of_int k - x\<bar> < 1 / 2 \<Longrightarrow> round_half_even x = k"
proof -
  assume "\<bar>of_int k - x\<bar> < 1 / 2"
  with round_half_even_error [of x] have "\<bar>of_int (round_half_even x) - (of_int k :: rat)\<bar> < 1" by linarith
  then show "round_half_even x = k" by linarith
qed

text \<open>
  Rounding to a decimal and then to the nearest float keeps the decimal recognisable: rounding again
  changes nothing, for values below two to the fiftieth units of the last digit.
\<close>

lemma py_round_idem:
  assumes "\<bar>x\<bar> * 10 ^ n \<le> 2 ^ 50" "n \<le> 6"
  shows "py_round n (py_round n x) = py_round n x"
proof -
  define k where "k = round_half_even (x * 10 ^ n)"
  define d where "d = (of_int k / 10 ^ n :: rat)"
  have d: "py_round n x = fl d" by (simp add: py_round_def d_def k_def)
  show ?thesis
  proof (cases "k = 0")
    case True
    then show ?thesis unfolding d by (simp add: d_def)
  next
    case False
    have "\<bar>of_int k :: rat\<bar> \<le> \<bar>x * 10 ^ n\<bar> + 1 / 2" using round_half_even_error [of "x * 10 ^ n"] unfolding k_def by linarith
    also have "\<dots> \<le> 2 ^ 50 + 1 / 2" using assms(1) by (simp add: abs_mult)
    also have "\<dots> < 2 ^ 51" by simp
    finally have k: "\<bar>of_int k :: rat\<bar> < 2 ^ 51" .
    have dk: "\<bar>d\<bar> * 10 ^ n = \<bar>of_int k\<bar>" by (simp add: d_def abs_divide)
    have "(10::rat) ^ n \<le> 10 ^ 6" using assms(2) by (intro power_increasing) simp_all
    also have "\<dots> \<le> 2 powi 20" by simp
    finally have "1 / 2 powi 20 \<le> (1 / 10 ^ n :: rat)" by (intro frac_le) simp_all
    also have "\<dots> \<le> \<bar>d\<bar>" using False by (simp add: d_def abs_divide divide_right_mono)
    finally have "2 powi (-20) \<le> \<bar>d\<bar>" by simp
    from ulp_relative [OF this] have u: "ulp d * 2 ^ 52 \<le> \<bar>d\<bar>" by simp
    from mult_right_mono [OF u, of "10 ^ n"] have "ulp d * 10 ^ n * 2 ^ 52 \<le> \<bar>of_int k\<bar>"
      unfolding dk [symmetric] by (simp add: mult_ac)
    with k have lt: "ulp d * 10 ^ n < 1 / 2" by simp
    have "of_int k - fl d * 10 ^ n = (d - fl d) * 10 ^ n" by (simp add: d_def left_diff_distrib)
    then have "\<bar>of_int k - fl d * 10 ^ n\<bar> = \<bar>fl d - d\<bar> * 10 ^ n" by (simp add: abs_mult abs_minus_commute)
    also have "\<dots> \<le> ulp d / 2 * 10 ^ n" by (intro mult_right_mono fl_error) simp
    also have "\<dots> = (ulp d * 10 ^ n) / 2" by simp
    also have "\<dots> < 1 / 2" using lt by linarith
    finally have "\<bar>of_int k - fl d * 10 ^ n\<bar> < 1 / 2" .
    then have "round_half_even (fl d * 10 ^ n) = k" by (rule round_half_even_unique)
    then show ?thesis unfolding d by (simp add: py_round_def d_def)
  qed
qed

lemma fl_lower:
  assumes "2 powi (-1022) \<le> x"
  shows "x * (1 - 1 / 2 ^ 53) \<le> fl x"
proof -
  have x: "0 < x" using assms pow2_pos [of "-1022"] by linarith
  have "ulp x * 2 ^ 52 \<le> \<bar>x\<bar>" by (rule ulp_relative [of "-1022"]) (use assms x in simp_all)
  then have "ulp x / 2 \<le> x / 2 ^ 53" using x by simp
  moreover have "x - ulp x / 2 \<le> fl x" using fl_error [of x] by linarith
  ultimately show ?thesis by (simp add: right_diff_distrib)
qed

lemma py_round_lower: "fl (x - 1 / (2 * 10 ^ n)) \<le> py_round n x"
proof -
  have "x * 10 ^ n - 1 / 2 \<le> of_int (round_half_even (x * 10 ^ n))"
    using round_half_even_error [of "x * 10 ^ n"] by linarith
  then have "(x * 10 ^ n - 1 / 2) / 10 ^ n \<le> of_int (round_half_even (x * 10 ^ n)) / 10 ^ n"
    by (rule divide_right_mono) simp
  moreover have "(x * 10 ^ n - 1 / 2) / 10 ^ n = x - 1 / (2 * 10 ^ n)" by (simp add: diff_divide_distrib)
  ultimately show ?thesis unfolding py_round_def by (intro fl_mono) simp
qed

text \<open>\<^verbatim>\<open>f"{x:.2f}"\<close>.\<close>

definition format_2f :: "rat \<Rightarrow> string" where
  "format_2f x = (let n = nat (round_half_even (\<bar>x\<bar> * 100))
     in (if x < 0 then ''-'' else []) @ show_nat (n div 100) @ ''.'' @ [digit_char (n div 10 mod 10), digit_char (n mod 10)])"

text \<open>
  \<^verbatim>\<open>sum\<close> over floats (Neumaier's compensated summation): the running sum and its compensation, which is
  added at the end.
\<close>

fun neumaier :: "rat \<Rightarrow> rat \<Rightarrow> rat list \<Rightarrow> rat" where
  "neumaier f c [] = (if c \<noteq> 0 then float_add f c else f)"
| "neumaier f c (x # xs) =
     (let t = float_add f x
      in neumaier t (if \<bar>x\<bar> \<le> \<bar>f\<bar> then float_add c (float_add (float_sub f t) x)
                     else float_add c (float_add (float_sub x t) f)) xs)"

definition float_sum :: "rat list \<Rightarrow> rat" where
  "float_sum xs = (case xs of [] \<Rightarrow> 0 | x # ys \<Rightarrow> neumaier x 0 ys)"

lemma float_sum_single [simp]: "float_sum [x] = x" "float_sum [] = 0"
  by (simp_all add: float_sum_def)

end
