(* ===== verification/Sprint_Budget.thy ===== *)
theory Sprint_Budget
  imports Py_Float
begin

text \<open>
  The sprint's budget decisions (\<^verbatim>\<open>sprint/budget.py\<close>): whether more work may be dispatched, given what
  was measured, what was carried from an earlier generation, and which spend nobody measured; and how
  a run is reported against its cap. The dash U+2014 in the notification title is written as two
  hyphens.
\<close>

section \<open>Model\<close>

datatype block_kind = Exhausted | Unverifiable

record budget_block =
  bb_kind :: block_kind
  bb_detail :: string

definition story_reason :: "budget_block \<Rightarrow> string" where
  "story_reason b = (case bb_kind b of Exhausted \<Rightarrow> ''budget exhausted'' | Unverifiable \<Rightarrow> ''budget unverifiable'')
     @ '' ('' @ bb_detail b @ '')''"

definition stopped_reason :: "budget_block \<Rightarrow> string" where
  "stopped_reason b = (case bb_kind b of Exhausted \<Rightarrow> ''Budget exhausted'' | Unverifiable \<Rightarrow> ''Budget unverifiable'')
     @ '' ('' @ bb_detail b @ '')''"

definition notification_title :: "budget_block \<Rightarrow> string \<Rightarrow> string" where
  "notification_title b sprint_name =
     ''TheForge: '' @ (case bb_kind b of Exhausted \<Rightarrow> ''budget exceeded'' | Unverifiable \<Rightarrow> ''budget unverifiable'')
     @ '' -- '' @ [CHR 0x22] @ sprint_name @ [CHR 0x22]"

definition describe_unmeasured_spend :: "string list \<Rightarrow> string" where
  "describe_unmeasured_spend sources =
     (let named = take 5 sources; elided = length sources - length named; rendered = py_join '', '' named
      in if elided > 0 then rendered @ '', +'' @ show_nat elided @ '' more'' else rendered)"

definition describe_source_origins :: "string list \<Rightarrow> (string, string) dict option \<Rightarrow> string" where
  "describe_source_origins sources source_details =
     (case source_details of None \<Rightarrow> []
      | Some details \<Rightarrow>
          (let shown = concat (map (\<lambda>src. case dict_get details src of Some t \<Rightarrow> (if t \<noteq> [] then [t] else []) | None \<Rightarrow> [])
                             (take 5 sources))
           in if details = [] \<or> shown = [] then [] else ''unresolved: '' @ py_join ''; '' shown))"

definition describe_unmeasured_spend_acceptance :: "string list option \<Rightarrow> string" where
  "describe_unmeasured_spend_acceptance sources =
     (case sources of None \<Rightarrow> [] | Some [] \<Rightarrow> []
      | Some ss \<Rightarrow> ''to proceed, rerun with '' @ py_join '' '' (map (\<lambda>s. ''--accept-unmeasured-spend '' @ s) ss))"

definition budget_verification_spend :: "rat \<Rightarrow> rat \<Rightarrow> rat \<Rightarrow> rat" where
  "budget_verification_spend accumulated_cost prior_cost accepted_ceiling =
     py_round 6 (float_add (float_add prior_cost accumulated_cost) (max 0 accepted_ceiling))"

record budget_inputs =
  accumulated_cost :: rat
  prior_cost :: rat
  budget_usd :: rat
  unmeasured_spend :: "string list"
  accepted_unmeasured_ceiling_usd :: rat
  source_details :: "(string, string) dict option"
  acceptable_unmeasured_spend_sources :: "string list option"

definition exhausted_detail :: "budget_inputs \<Rightarrow> string" where
  "exhausted_detail i =
     (let accepted = max 0 (accepted_unmeasured_ceiling_usd i);
          cumulative = float_add (prior_cost i) (accumulated_cost i);
          verification = budget_verification_spend (accumulated_cost i) (prior_cost i) accepted
      in if accepted > 0
         then ''sprint $'' @ format_2f (accumulated_cost i) @ '' + carried $'' @ format_2f (prior_cost i)
              @ '' + accepted unmeasured ceiling $'' @ format_2f accepted @ '' = $'' @ format_2f verification
              @ '' >= $'' @ format_2f (budget_usd i)
         else ''sprint $'' @ format_2f (accumulated_cost i) @ '' + carried $'' @ format_2f (prior_cost i)
              @ '' = $'' @ format_2f cumulative @ '' >= $'' @ format_2f (budget_usd i))"

definition unverifiable_detail :: "budget_inputs \<Rightarrow> string" where
  "unverifiable_detail i =
     (let cumulative = float_add (prior_cost i) (accumulated_cost i);
          detail = ''spend unmeasured for '' @ show_nat (length (unmeasured_spend i)) @ '' source(s) ''
            @ ''['' @ describe_unmeasured_spend (unmeasured_spend i) @ '']; ''
            @ ''measured $'' @ format_2f cumulative @ '' of $'' @ format_2f (budget_usd i)
            @ '' cap is a lower bound, so the cap cannot be verified'';
          rendered = describe_source_origins (unmeasured_spend i) (source_details i);
          detail = (if rendered \<noteq> [] then detail @ ''; '' @ rendered else detail);
          remedy = describe_unmeasured_spend_acceptance (acceptable_unmeasured_spend_sources i)
      in if remedy \<noteq> [] then detail @ ''; '' @ remedy else detail)"

definition evaluate_budget :: "budget_inputs \<Rightarrow> budget_block option" where
  "evaluate_budget i =
     (let accepted = max 0 (accepted_unmeasured_ceiling_usd i);
          verification = budget_verification_spend (accumulated_cost i) (prior_cost i) accepted
      in if verification \<ge> budget_usd i then Some \<lparr>bb_kind = Exhausted, bb_detail = exhausted_detail i\<rparr>
         else if unmeasured_spend i \<noteq> [] then Some \<lparr>bb_kind = Unverifiable, bb_detail = unverifiable_detail i\<rparr>
         else None)"

text \<open>The overrun threshold is the float nearest to five thousandths.\<close>

definition overrun_epsilon_usd :: rat where
  "overrun_epsilon_usd = fl (5 / 1000)"

definition budget_overrun_usd :: "rat \<Rightarrow> rat option \<Rightarrow> rat" where
  "budget_overrun_usd budget spend =
     (case spend of None \<Rightarrow> 0
      | Some s \<Rightarrow> if budget \<le> 0 then 0
                  else let overrun = float_sub s budget
                       in if overrun \<le> overrun_epsilon_usd then 0 else py_round 6 overrun)"

definition budget_status :: "rat \<Rightarrow> rat option \<Rightarrow> string" where
  "budget_status budget spend =
     (if budget \<le> 0 then ''unset''
      else if budget_overrun_usd budget spend > 0 then ''over'' else ''within'')"

section \<open>Properties\<close>

lemma verification_mono:
  "a \<le> a' \<Longrightarrow> p \<le> p' \<Longrightarrow> c \<le> c' \<Longrightarrow> budget_verification_spend a p c \<le> budget_verification_spend a' p' c'"
  unfolding budget_verification_spend_def by (intro py_round_mono float_add_mono) auto

lemma evaluate_exhausted:
  "(\<exists>d. evaluate_budget i = Some \<lparr>bb_kind = Exhausted, bb_detail = d\<rparr>) \<longleftrightarrow>
     budget_usd i \<le> budget_verification_spend (accumulated_cost i) (prior_cost i) (accepted_unmeasured_ceiling_usd i)"
  by (simp add: evaluate_budget_def budget_verification_spend_def)

text \<open>Spending or accepting more never buys headroom: once the check answers exhausted it does so for every
  larger measured cost, carried cost and accepted ceiling, and a larger cost or ceiling never turns
  a refusal into a permission.\<close>

theorem budget_never_reopens:
  assumes "accumulated_cost i \<le> accumulated_cost j" "prior_cost i \<le> prior_cost j"
    and "accepted_unmeasured_ceiling_usd i \<le> accepted_unmeasured_ceiling_usd j"
    and "budget_usd i = budget_usd j" "set (unmeasured_spend i) \<subseteq> set (unmeasured_spend j)"
  shows "((\<exists>d. evaluate_budget i = Some \<lparr>bb_kind = Exhausted, bb_detail = d\<rparr>)
          \<longrightarrow> (\<exists>d. evaluate_budget j = Some \<lparr>bb_kind = Exhausted, bb_detail = d\<rparr>))
    \<and> (evaluate_budget i \<noteq> None \<longrightarrow> evaluate_budget j \<noteq> None)"
proof -
  have le: "budget_verification_spend (accumulated_cost i) (prior_cost i) (accepted_unmeasured_ceiling_usd i)
    \<le> budget_verification_spend (accumulated_cost j) (prior_cost j) (accepted_unmeasured_ceiling_usd j)"
    using assms(1-3) by (rule verification_mono)
  then have ex: "(\<exists>d. evaluate_budget i = Some \<lparr>bb_kind = Exhausted, bb_detail = d\<rparr>)
          \<longrightarrow> (\<exists>d. evaluate_budget j = Some \<lparr>bb_kind = Exhausted, bb_detail = d\<rparr>)"
    unfolding evaluate_exhausted using assms(4) by linarith
  have "evaluate_budget j \<noteq> None" if "unmeasured_spend i \<noteq> []"
  proof -
    from that assms(5) have "unmeasured_spend j \<noteq> []" by auto
    then show ?thesis by (simp add: evaluate_budget_def Let_def)
  qed
  moreover have "evaluate_budget i \<noteq> None \<longrightarrow> (\<exists>d. evaluate_budget i = Some \<lparr>bb_kind = Exhausted, bb_detail = d\<rparr>) \<or> unmeasured_spend i \<noteq> []"
    by (simp add: evaluate_budget_def Let_def)
  ultimately show ?thesis using ex by blast
qed

definition sample_budget :: "rat \<Rightarrow> budget_inputs" where
  "sample_budget cost = \<lparr>accumulated_cost = cost, prior_cost = 1, budget_usd = 2, unmeasured_spend = [],
     accepted_unmeasured_ceiling_usd = 0, source_details = None, acceptable_unmeasured_spend_sources = None\<rparr>"

lemma sample_exhausted: "\<exists>d. evaluate_budget (sample_budget 1) = Some \<lparr>bb_kind = Exhausted, bb_detail = d\<rparr>"
  using fl_of_int [of 2] by (simp add: evaluate_exhausted sample_budget_def budget_verification_spend_def
      float_add_def py_round_def)

theorem budget_never_reopens_witness:
  "\<exists>d. evaluate_budget (sample_budget 5) = Some \<lparr>bb_kind = Exhausted, bb_detail = d\<rparr>"
  using budget_never_reopens [of "sample_budget 1" "sample_budget 5"] sample_exhausted
  by (simp add: sample_budget_def)

text \<open>The check proceeds only on spend it can vouch for, and such a run is never reported over: a permission
  means that nothing is unmeasured and that the verified figure is below the cap, and reporting that
  figure gives status within, with no overrun.\<close>

theorem permitted_run_within_budget:
  assumes "evaluate_budget i = None" "0 < budget_usd i"
    and "spend \<le> budget_verification_spend (accumulated_cost i) (prior_cost i) (accepted_unmeasured_ceiling_usd i)"
  shows "unmeasured_spend i = [] \<and> budget_overrun_usd (budget_usd i) (Some spend) = 0
    \<and> budget_status (budget_usd i) (Some spend) = ''within''"
proof -
  from assms(1) have b: "budget_verification_spend (accumulated_cost i) (prior_cost i) (accepted_unmeasured_ceiling_usd i) < budget_usd i"
    and u: "unmeasured_spend i = []"
    by (auto simp: evaluate_budget_def Let_def budget_verification_spend_def split: if_splits)
  have "0 \<le> overrun_epsilon_usd" unfolding overrun_epsilon_usd_def by (rule fl_nonneg) simp
  moreover have "float_sub spend (budget_usd i) \<le> 0" using b assms(3) by (intro float_sub_nonpos) simp
  ultimately have "budget_overrun_usd (budget_usd i) (Some spend) = 0" by (simp add: budget_overrun_usd_def Let_def)
  with u assms(2) show ?thesis by (simp add: budget_status_def)
qed

theorem permitted_run_within_budget_witness:
  "budget_status 2 (Some (budget_verification_spend 0 1 0)) = ''within''"
proof -
  have "budget_verification_spend 0 1 0 = 1"
    using fl_of_int [of 1] by (simp add: budget_verification_spend_def float_add_def py_round_def)
  moreover from this have "evaluate_budget (sample_budget 0) = None"
    by (simp add: evaluate_budget_def sample_budget_def budget_verification_spend_def)
  ultimately show ?thesis
    using permitted_run_within_budget [of "sample_budget 0" 1] by (simp add: sample_budget_def)
qed

end
