(* ===== verification/Unmeasured_Spend.thy ===== *)
theory Unmeasured_Spend
  imports Py_Json Sprint_Budget
begin

text \<open>
  Spend a sprint could not measure (\<^verbatim>\<open>sprint/unmeasured.py\<close>): identities of sources, the origin and the
  ceiling a story's audit record supports, acceptance of a bounded source by an operator and its
  saved form, and the split of the sources of a run into resolved and unresolved ones. Reading the
  audit file is outside; its content is a dynamic value. Ids are strings.

  \<open>float_repr\<close> is \<^verbatim>\<open>repr\<close> of a float and \<open>parse_float\<close> is \<^verbatim>\<open>float\<close> of a string (None where it raises).
\<close>

section \<open>Model\<close>

subsection \<open>Source ids\<close>

definition carried_prefix :: string where
  "carried_prefix = ''carried:''"

function strip_carried :: "string \<Rightarrow> string" where
  "strip_carried t = (if prefix carried_prefix t then strip_carried (py_strip (drop (length carried_prefix) t)) else t)"
  by pat_completeness auto

lemma py_strip_length: "length (py_strip s) \<le> length s"
  using length_dropWhile_le [of py_isspace "rev (dropWhile py_isspace s)"] length_dropWhile_le [of py_isspace s]
  by (simp add: py_strip_def)

termination strip_carried
proof (relation "measure length")
  fix t
  assume "prefix carried_prefix t"
  then have "length carried_prefix \<le> length t" by (rule prefix_length_le)
  then have "length (drop (length carried_prefix) t) < length t" by (simp add: carried_prefix_def)
  with py_strip_length [of "drop (length carried_prefix) t"]
  show "(py_strip (drop (length carried_prefix) t), t) \<in> measure length" by simp
qed simp

declare strip_carried.simps [simp del]

definition normalize_source_id :: "string \<Rightarrow> string" where
  "normalize_source_id raw = strip_carried (py_strip raw)"

definition prior_generation_source :: string where
  "prior_generation_source = ''prior-generation''"

definition source_slug :: "string \<Rightarrow> string option" where
  "source_slug raw =
     (let normalized = normalize_source_id raw
      in if normalized = [] \<or> normalized = prior_generation_source then None
         else if CHR '':'' \<in> set normalized then None
         else Some normalized)"

definition story_attributed_prefixes :: "string list" where
  "story_attributed_prefixes = [''dropped-with-work:'', ''stranded-unmeasured:'']"

definition attributed_story_slug :: "string \<Rightarrow> string option" where
  "attributed_story_slug raw =
     (let normalized = normalize_source_id raw
      in case filter (\<lambda>p. prefix p normalized) story_attributed_prefixes of
           [] \<Rightarrow> None
         | p # _ \<Rightarrow> (let slug = py_strip (drop (length p) normalized) in if slug \<noteq> [] then Some slug else None))"

subsection \<open>Records\<close>

record unmeasured_source =
  us_raw :: string
  us_source :: string
  us_origin :: pydict
  us_measured_lower_bound_usd :: rat
  us_ceiling_usd :: "rat option"
  us_ceiling_basis :: string
  us_ceiling_reason :: string

definition acceptable :: "unmeasured_source \<Rightarrow> bool" where
  "acceptable s \<longleftrightarrow> us_ceiling_usd s \<noteq> None"

definition describe_source :: "(rat \<Rightarrow> string) \<Rightarrow> unmeasured_source \<Rightarrow> string" where
  "describe_source float_repr s =
     (let bits = concat (map (\<lambda>k. if py_truthy (py_get (us_origin s) k) then [k @ ''='' @ py_str float_repr (py_get (us_origin s) k)] else [])
                   [''run_id'', ''phase'', ''role'', ''profile'', ''failure_code'']);
          origin_text = (if bits \<noteq> [] then py_join '', '' bits else ''origin not recorded'')
      in case us_ceiling_usd s of
           None \<Rightarrow> us_raw s @ '': unbounded ('' @ us_ceiling_reason s @ ''; '' @ origin_text @ '')''
         | Some c \<Rightarrow> us_raw s @ '': measured $'' @ format_2f (us_measured_lower_bound_usd s) @ '', at most $'' @ format_2f c
             @ '' more ('' @ us_ceiling_basis s @ ''; '' @ origin_text @ '')'')"

definition source_as_dict :: "unmeasured_source \<Rightarrow> pydict" where
  "source_as_dict s =
     [(''source'', PStr (us_source s)), (''recorded_as'', PStr (us_raw s)), (''origin'', PDict (us_origin s)),
      (''measured_lower_bound_usd'', PFloat (py_round 4 (us_measured_lower_bound_usd s))),
      (''ceiling_usd'', case us_ceiling_usd s of None \<Rightarrow> PNone | Some c \<Rightarrow> PFloat (py_round 4 c)),
      (''ceiling_basis'', PStr (us_ceiling_basis s)), (''ceiling_reason'', PStr (us_ceiling_reason s)),
      (''acceptable'', PBool (acceptable s))]"

record accepted_spend =
  as_source :: string
  as_accepted_ceiling_usd :: rat
  as_measured_lower_bound_usd :: rat
  as_ceiling_basis :: string
  as_origin_run_id :: "string option"
  as_origin_phase :: "string option"
  as_origin_role :: "string option"
  as_origin_profile :: "string option"
  as_origin_failure_code :: "string option"
  as_accepted_at :: "string option"
  as_reason :: "string option"

definition opt_value :: "string option \<Rightarrow> pyval" where
  "opt_value s = (case s of None \<Rightarrow> PNone | Some t \<Rightarrow> PStr t)"

definition accepted_as_dict :: "accepted_spend \<Rightarrow> pydict" where
  "accepted_as_dict r =
     [(''source'', PStr (as_source r)),
      (''accepted_ceiling_usd'', PFloat (py_round 4 (as_accepted_ceiling_usd r))),
      (''measured_lower_bound_usd'', PFloat (py_round 4 (as_measured_lower_bound_usd r))),
      (''ceiling_basis'', PStr (as_ceiling_basis r)),
      (''origin_run_id'', opt_value (as_origin_run_id r)), (''origin_phase'', opt_value (as_origin_phase r)),
      (''origin_role'', opt_value (as_origin_role r)), (''origin_profile'', opt_value (as_origin_profile r)),
      (''origin_failure_code'', opt_value (as_origin_failure_code r)),
      (''accepted_at'', opt_value (as_accepted_at r)), (''reason'', opt_value (as_reason r))]"

definition opt_str :: "(rat \<Rightarrow> string) \<Rightarrow> pyval \<Rightarrow> string option" where
  "opt_str float_repr v =
     (if v = PNone then None
      else let t = py_strip (py_str float_repr v) in if t \<noteq> [] then Some t else None)"

text \<open>\<^verbatim>\<open>float(v)\<close>: None for the \<^verbatim>\<open>TypeError\<close> and the \<^verbatim>\<open>ValueError\<close> the code catches.\<close>

fun to_float :: "(string \<Rightarrow> rat option) \<Rightarrow> pyval \<Rightarrow> rat option" where
  "to_float parse_float (PBool b) = Some (of_bool b)"
| "to_float parse_float (PInt i) = Some (fl (of_int i))"
| "to_float parse_float (PFloat r) = Some r"
| "to_float parse_float (PStr s) = parse_float s"
| "to_float parse_float _ = None"

definition accepted_from_dict :: "(rat \<Rightarrow> string) \<Rightarrow> (string \<Rightarrow> rat option) \<Rightarrow> pyval \<Rightarrow> accepted_spend option" where
  "accepted_from_dict float_repr parse_float v =
     (case v of
        PDict d \<Rightarrow>
          (let src = py_get d ''source''; source = normalize_source_id (if py_truthy src then py_str float_repr src else [])
           in if source = [] then None
              else case to_float parse_float (py_get d ''accepted_ceiling_usd'') of
                None \<Rightarrow> None
              | Some ceiling_usd \<Rightarrow>
                 (let lb = py_get d ''measured_lower_bound_usd'';
                      lower_bound = (case to_float parse_float (if py_truthy lb then lb else PFloat 0) of None \<Rightarrow> 0 | Some x \<Rightarrow> x);
                      basis = py_get d ''ceiling_basis''
                  in Some \<lparr>as_source = source, as_accepted_ceiling_usd = ceiling_usd,
                       as_measured_lower_bound_usd = lower_bound,
                       as_ceiling_basis = (if py_truthy basis then py_str float_repr basis else ''no_recorded_bound''),
                       as_origin_run_id = opt_str float_repr (py_get d ''origin_run_id''),
                       as_origin_phase = opt_str float_repr (py_get d ''origin_phase''),
                       as_origin_role = opt_str float_repr (py_get d ''origin_role''),
                       as_origin_profile = opt_str float_repr (py_get d ''origin_profile''),
                       as_origin_failure_code = opt_str float_repr (py_get d ''origin_failure_code''),
                       as_accepted_at = opt_str float_repr (py_get d ''accepted_at''),
                       as_reason = opt_str float_repr (py_get d ''reason'')\<rparr>))
      | _ \<Rightarrow> None)"

subsection \<open>Reading a story's audit\<close>

definition phase_for_role :: "string option \<Rightarrow> string option" where
  "phase_for_role role =
     (case role of None \<Rightarrow> None | Some [] \<Rightarrow> None
      | Some r \<Rightarrow>
         (let lowered = py_lower r
          in Some (if prefix ''review'' lowered \<or> lowered = ''synthesis'' then ''REVIEW''
                   else if prefix ''dev'' lowered then ''DEV''
                   else if prefix ''plan'' lowered then ''PLAN''
                   else if prefix ''preflight'' lowered then ''PREFLIGHT''
                   else py_upper lowered)))"

definition set_opt :: "string \<Rightarrow> string option \<Rightarrow> pydict \<Rightarrow> pydict" where
  "set_opt k v d = (case v of None \<Rightarrow> d | Some s \<Rightarrow> dict_set k (PStr s) d)"

text \<open>The agents of the record, where it has a list of them, and the first one without a cost.\<close>

definition audit_agents :: "pydict \<Rightarrow> pyval list option" where
  "audit_agents audit = (case py_get audit ''cost'' of
     PDict cost \<Rightarrow> (case py_get cost ''agents'' of PList xs \<Rightarrow> Some xs | _ \<Rightarrow> None) | _ \<Rightarrow> None)"

fun first_unmeasured :: "pyval list \<Rightarrow> pydict option" where
  "first_unmeasured [] = None"
| "first_unmeasured (PDict a # xs) = (if py_get a ''cost_usd'' = PNone then Some a else first_unmeasured xs)"
| "first_unmeasured (_ # xs) = first_unmeasured xs"

definition origin_head :: "(rat \<Rightarrow> string) \<Rightarrow> pydict \<Rightarrow> pydict" where
  "origin_head float_repr audit =
     (let run = set_opt ''run_id'' (opt_str float_repr (py_get audit ''run_id'')) []
      in case py_get audit ''outcome'' of
           PDict outcome \<Rightarrow> set_opt ''final_phase'' (opt_str float_repr (py_get outcome ''final_phase'')) run
         | _ \<Rightarrow> run)"

definition origin_agent :: "(rat \<Rightarrow> string) \<Rightarrow> pydict \<Rightarrow> pydict \<times> string option \<Rightarrow> pydict \<times> string option" where
  "origin_agent float_repr agent acc = (case acc of (origin, failure) \<Rightarrow>
     (let role = opt_str float_repr (py_get agent ''role'');
          with_role = (case role of None \<Rightarrow> origin
                       | Some r \<Rightarrow> set_opt ''phase'' (phase_for_role role) (dict_set ''role'' (PStr r) origin));
          with_profile = set_opt ''profile'' (opt_str float_repr (py_get agent ''profile'')) with_role
      in (with_profile,
          case opt_str float_repr (py_get agent ''failure_code'') of None \<Rightarrow> failure | Some f \<Rightarrow> Some f)))"

definition origin_from_story_audit :: "(rat \<Rightarrow> string) \<Rightarrow> pyval \<Rightarrow> pydict" where
  "origin_from_story_audit float_repr v =
     (case v of
        PDict audit \<Rightarrow>
          (let start = (origin_head float_repr audit, opt_str float_repr (py_get audit ''error_type''));
               (origin, failure) =
                 (case (case audit_agents audit of None \<Rightarrow> None | Some xs \<Rightarrow> first_unmeasured xs) of
                    None \<Rightarrow> start | Some agent \<Rightarrow> origin_agent float_repr agent start);
               with_failure = set_opt ''failure_code'' failure origin
           in if dict_get with_failure ''phase'' = None \<and> py_truthy (py_get with_failure ''final_phase'')
              then dict_set ''phase'' (py_get with_failure ''final_phase'') with_failure else with_failure)
      | _ \<Rightarrow> [])"

text \<open>A figure is an int or a float, not a bool.\<close>

fun figure :: "pyval \<Rightarrow> rat option" where
  "figure (PInt i) = Some (fl (of_int i))"
| "figure (PFloat r) = Some r"
| "figure _ = None"

fun add_agent_cost :: "pyval \<Rightarrow> rat \<Rightarrow> rat" where
  "add_agent_cost (PDict a) m = (case figure (py_get a ''cost_usd'') of None \<Rightarrow> m | Some x \<Rightarrow> float_add m x)"
| "add_agent_cost _ m = m"

definition measured_lower_bound :: "pyval \<Rightarrow> rat" where
  "measured_lower_bound v =
     (case v of
        PDict audit \<Rightarrow>
          (case py_get audit ''cost'' of
             PDict cost \<Rightarrow>
               (case figure (py_get cost ''total_usd'') of
                  Some t \<Rightarrow> max 0 t
                | None \<Rightarrow> (case py_get cost ''agents'' of
                     PList agents \<Rightarrow> max 0 (fold add_agent_cost agents 0) | _ \<Rightarrow> 0))
           | _ \<Rightarrow> 0)
      | _ \<Rightarrow> 0)"

definition usable_figure :: "pyval \<Rightarrow> rat option" where
  "usable_figure v = (case figure v of Some x \<Rightarrow> if x > 0 then Some x else None | None \<Rightarrow> None)"

definition bounded_reason :: "string \<Rightarrow> rat \<Rightarrow> string" where
  "bounded_reason key x = ''bounded by the story's recorded '' @ key @ '' ($'' @ format_2f x @ '')''"

definition allocation_ceiling :: "pyval \<Rightarrow> rat option \<times> string \<times> string" where
  "allocation_ceiling v =
     (case v of
        PDict audit \<Rightarrow>
          (case (case py_get audit ''cost'' of PDict cost \<Rightarrow> py_get cost ''story_allocation'' | _ \<Rightarrow> PNone) of
             PDict allocation \<Rightarrow>
               (case usable_figure (py_get allocation ''allocation_usd'') of
                  Some x \<Rightarrow> (Some x, ''story_allocation'', bounded_reason ''allocation_usd'' x)
                | None \<Rightarrow>
                   (case usable_figure (py_get allocation ''fallback_configured_usd'') of
                      Some x \<Rightarrow> (Some x, ''story_allocation_configured_fallback'', bounded_reason ''fallback_configured_usd'' x)
                    | None \<Rightarrow> (None, ''no_recorded_bound'', ''the recorded allocation carries no usable dollar figure'')))
           | _ \<Rightarrow> (None, ''no_recorded_bound'', ''the per-story audit records no allocation to bound the unmeasured call''))
      | _ \<Rightarrow> (None, ''no_recorded_bound'', ''no per-story audit found for this source''))"

definition build_source :: "(rat \<Rightarrow> string) \<Rightarrow> string \<Rightarrow> pyval \<Rightarrow> unmeasured_source" where
  "build_source float_repr raw story_audit =
     (let origin = origin_from_story_audit float_repr story_audit; lower_bound = measured_lower_bound story_audit
      in case allocation_ceiling story_audit of
           (None, basis, reason) \<Rightarrow>
             \<lparr>us_raw = raw, us_source = normalize_source_id raw, us_origin = origin,
              us_measured_lower_bound_usd = lower_bound, us_ceiling_usd = None,
              us_ceiling_basis = basis, us_ceiling_reason = reason\<rparr>
         | (Some allocation, basis, reason) \<Rightarrow>
             \<lparr>us_raw = raw, us_source = normalize_source_id raw,
              us_origin = dict_set ''allocation_usd'' (PFloat (py_round 4 allocation)) origin,
              us_measured_lower_bound_usd = lower_bound,
              us_ceiling_usd = Some (py_round 4 (max 0 (float_sub allocation lower_bound))),
              us_ceiling_basis = basis, us_ceiling_reason = reason\<rparr>)"

subsection \<open>Acceptance\<close>

text \<open>The origin's entries read here are strings wherever they are present.\<close>

definition origin_str :: "pydict \<Rightarrow> string \<Rightarrow> string option" where
  "origin_str d k = (case dict_get d k of Some (PStr s) \<Rightarrow> Some s | _ \<Rightarrow> None)"

definition accept_source :: "unmeasured_source \<Rightarrow> string \<Rightarrow> string option \<Rightarrow> accepted_spend option" where
  "accept_source s accepted_at reason =
     (case us_ceiling_usd s of None \<Rightarrow> None
      | Some c \<Rightarrow> Some \<lparr>as_source = us_source s, as_accepted_ceiling_usd = c,
          as_measured_lower_bound_usd = us_measured_lower_bound_usd s, as_ceiling_basis = us_ceiling_basis s,
          as_origin_run_id = origin_str (us_origin s) ''run_id'', as_origin_phase = origin_str (us_origin s) ''phase'',
          as_origin_role = origin_str (us_origin s) ''role'', as_origin_profile = origin_str (us_origin s) ''profile'',
          as_origin_failure_code = origin_str (us_origin s) ''failure_code'',
          as_accepted_at = Some accepted_at, as_reason = reason\<rparr>)"

definition same_occurrence :: "accepted_spend \<Rightarrow> string option \<Rightarrow> bool" where
  "same_occurrence r occurrence_id =
     (if as_origin_run_id r \<in> {None, Some []} \<or> occurrence_id \<in> {None, Some []} then True
      else as_origin_run_id r = occurrence_id)"

definition partition_step :: "(string, accepted_spend) dict \<Rightarrow> string list \<Rightarrow> (string, string option) dict
    \<Rightarrow> string \<Rightarrow> string list \<times> (string, accepted_spend) dict \<Rightarrow> string list \<times> (string, accepted_spend) dict" where
  "partition_step accepted fresh ids raw acc = (case acc of (unresolved, applied) \<Rightarrow>
     if raw \<in> set fresh then (unresolved @ [raw], applied)
     else (let normalized = normalize_source_id raw
           in case dict_get accepted normalized of
                None \<Rightarrow> (unresolved @ [raw], applied)
              | Some record \<Rightarrow>
                  if \<not> same_occurrence record (case dict_get ids raw of None \<Rightarrow> None | Some i \<Rightarrow> i)
                  then (unresolved @ [raw], applied)
                  else (unresolved, if normalized \<in> set (dict_keys applied) then applied
                                    else dict_set normalized record applied)))"

definition partition_sources :: "string list \<Rightarrow> (string, accepted_spend) dict \<Rightarrow> string list \<Rightarrow> (string, string option) dict
    \<Rightarrow> string list \<times> accepted_spend list" where
  "partition_sources raw_sources accepted current_generation occurrence_ids =
     (case fold (partition_step accepted current_generation occurrence_ids) raw_sources ([], []) of
        (unresolved, applied) \<Rightarrow> (unresolved, map snd applied))"

definition accepted_ceiling_total :: "accepted_spend list \<Rightarrow> rat" where
  "accepted_ceiling_total records = py_round 4 (float_sum (map (\<lambda>r. max 0 (as_accepted_ceiling_usd r)) records))"

text \<open>A record to index is a typed acceptance or a saved dictionary.\<close>

datatype acceptance_record = Typed accepted_spend | Saved pyval

definition index_acceptance :: "(rat \<Rightarrow> string) \<Rightarrow> (string \<Rightarrow> rat option) \<Rightarrow> acceptance_record
    \<Rightarrow> (string, accepted_spend) dict \<Rightarrow> (string, accepted_spend) dict" where
  "index_acceptance float_repr parse_float record index =
     (case (case record of Typed r \<Rightarrow> Some r | Saved v \<Rightarrow> accepted_from_dict float_repr parse_float v) of
        None \<Rightarrow> index | Some r \<Rightarrow> dict_set (as_source r) r index)"

definition accepted_by_source :: "(rat \<Rightarrow> string) \<Rightarrow> (string \<Rightarrow> rat option) \<Rightarrow> acceptance_record list
    \<Rightarrow> (string, accepted_spend) dict" where
  "accepted_by_source float_repr parse_float records = fold (index_acceptance float_repr parse_float) records []"

fun prior_sources_from :: "string list \<Rightarrow> string list \<Rightarrow> string list" where
  "prior_sources_from seen [] = []"
| "prior_sources_from seen (raw # rest) =
     (let normalized = normalize_source_id raw
      in if normalized = [] \<or> normalized = prior_generation_source \<or> normalized \<in> set seen
         then prior_sources_from seen rest
         else normalized # prior_sources_from (set_add normalized seen) rest)"

definition acceptable_prior_sources :: "string list \<Rightarrow> string list" where
  "acceptable_prior_sources recorded = prior_sources_from [] recorded"

definition all_sources_accepted :: "string list \<Rightarrow> (string, accepted_spend) dict \<Rightarrow> bool" where
  "all_sources_accepted recorded accepted =
     (let usable = acceptable_prior_sources recorded
      in usable \<noteq> [] \<and> list_all (\<lambda>s. s \<in> set (dict_keys accepted)) usable)"

section \<open>Facts about ids\<close>

definition py_rstrip :: "string \<Rightarrow> string" where
  "py_rstrip s = rev (dropWhile py_isspace (rev s))"

lemma py_strip_alt: "py_strip s = py_rstrip (dropWhile py_isspace s)"
  by (simp add: py_strip_def py_rstrip_def)

lemma strip_commute: "dropWhile py_isspace (py_rstrip s) = py_rstrip (dropWhile py_isspace s)"
proof (induction s)
  case (Cons c s)
  then show ?case by (auto simp: py_rstrip_def dropWhile_append dest: set_dropWhileD)
qed (simp add: py_rstrip_def)

lemma rstrip_idem [simp]: "py_rstrip (py_rstrip s) = py_rstrip s"
  by (simp add: py_rstrip_def)

lemma py_strip_rstrip [simp]: "py_strip (py_rstrip s) = py_strip s"
  by (simp add: py_strip_alt strip_commute)

lemma py_strip_idem [simp]: "py_strip (py_strip s) = py_strip s"
proof -
  have "py_strip (py_strip s) = py_rstrip (py_rstrip (dropWhile py_isspace (dropWhile py_isspace s)))"
    unfolding py_strip_alt strip_commute ..
  then show ?thesis by (simp add: py_strip_alt)
qed

lemma py_strip_carried: "py_strip (carried_prefix @ x) = carried_prefix @ py_rstrip x"
proof -
  have "\<not> py_isspace (CHR ''c'')" "\<not> py_isspace (CHR '':'')" by code_simp+
  then show ?thesis by (simp add: py_strip_alt py_rstrip_def carried_prefix_def dropWhile_append)
qed

lemma strip_carried_stripped: "py_strip t = t \<Longrightarrow> py_strip (strip_carried t) = strip_carried t \<and> \<not> prefix carried_prefix (strip_carried t)"
proof (induction t rule: strip_carried.induct)
  case (1 t)
  then show ?case by (cases "prefix carried_prefix t") (simp_all add: strip_carried.simps [of t])
qed

lemma normalize_stripped:
  "py_strip (normalize_source_id raw) = normalize_source_id raw" "\<not> prefix carried_prefix (normalize_source_id raw)"
  using strip_carried_stripped [of "py_strip raw"] by (simp_all add: normalize_source_id_def)

lemma normalize_idem [simp]: "normalize_source_id (normalize_source_id raw) = normalize_source_id raw"
  using normalize_stripped [of raw] strip_carried.simps [of "normalize_source_id raw"]
  by (simp add: normalize_source_id_def)

lemma normalize_carried: "normalize_source_id (carried_prefix @ raw) = normalize_source_id raw"
  using strip_carried.simps [of "carried_prefix @ py_rstrip raw"]
  by (simp add: normalize_source_id_def py_strip_carried)

section \<open>Facts about the split\<close>

definition resolves :: "(string, accepted_spend) dict \<Rightarrow> string list \<Rightarrow> (string, string option) dict \<Rightarrow> string \<Rightarrow> bool" where
  "resolves accepted fresh ids raw \<longleftrightarrow> raw \<notin> set fresh \<and>
     (case dict_get accepted (normalize_source_id raw) of None \<Rightarrow> False
      | Some r \<Rightarrow> same_occurrence r (case dict_get ids raw of None \<Rightarrow> None | Some i \<Rightarrow> i))"

lemma partition_step_unresolved:
  "fst (partition_step accepted fresh ids raw acc) = fst acc @ (if resolves accepted fresh ids raw then [] else [raw])"
  by (cases acc) (simp add: partition_step_def resolves_def Let_def split: option.splits)

lemma partition_step_applied:
  "snd (partition_step accepted fresh ids raw acc) =
     (if resolves accepted fresh ids raw \<and> normalize_source_id raw \<notin> set (dict_keys (snd acc))
      then dict_set (normalize_source_id raw) (the (dict_get accepted (normalize_source_id raw))) (snd acc) else snd acc)"
  by (cases acc) (simp add: partition_step_def resolves_def Let_def split: option.splits)

lemma partition_unresolved:
  "fst (fold (partition_step accepted fresh ids) raws acc) = fst acc @ filter (\<lambda>raw. \<not> resolves accepted fresh ids raw) raws"
  by (induction raws arbitrary: acc) (simp_all add: partition_step_unresolved)

definition applied_ok :: "(string, accepted_spend) dict \<Rightarrow> string list \<Rightarrow> (string, accepted_spend) dict \<Rightarrow> bool" where
  "applied_ok accepted names applied \<longleftrightarrow> dict_wf applied \<and> set (dict_keys applied) = set names
     \<and> (\<forall>k \<in> set names. dict_get applied k = dict_get accepted k \<and> dict_get accepted k \<noteq> None)"

lemma partition_applied:
  "applied_ok accepted names (snd acc) \<Longrightarrow>
    applied_ok accepted (map normalize_source_id (filter (resolves accepted fresh ids) raws) @ names)
      (snd (fold (partition_step accepted fresh ids) raws acc))"
proof (induction raws arbitrary: acc names)
  case (Cons raw raws)
  let ?acc = "partition_step accepted fresh ids raw acc"
  let ?n = "normalize_source_id raw"
  show ?case
  proof (cases "resolves accepted fresh ids raw")
    case True
    then obtain r where r: "dict_get accepted ?n = Some r" by (auto simp: resolves_def split: option.splits)
    have "applied_ok accepted (?n # names) (snd ?acc)"
      using Cons.prems r True 
      by (auto simp: applied_ok_def partition_step_applied insert_absorb simp del: map_of_eq_Some_iff)
    from Cons.IH [OF this] True show ?thesis by (simp add: applied_ok_def insert_commute)
  next
    case False
    with Cons show ?thesis by (simp add: partition_step_applied)
  qed
qed simp

lemma partition_result:
  assumes "partition_sources raws accepted fresh ids = (unresolved, applied)"
  shows "unresolved = filter (\<lambda>raw. \<not> resolves accepted fresh ids raw) raws
    \<and> (\<exists>d. applied = map snd d \<and> applied_ok accepted (map normalize_source_id (filter (resolves accepted fresh ids) raws)) d)"
  using assms partition_unresolved [of accepted fresh ids raws "([], [])"]
    partition_applied [of accepted "[]" "([], [])" fresh ids raws]
  by (auto simp: partition_sources_def applied_ok_def split: prod.splits)

section \<open>Facts about ceilings and saved acceptances\<close>

lemma allocation_positive: "fst (allocation_ceiling v) = Some a \<Longrightarrow> 0 < a"
  by (auto simp: allocation_ceiling_def usable_figure_def split: pyval.splits option.splits if_splits)

lemma lower_bound_nonneg: "0 \<le> measured_lower_bound v"
  by (simp add: measured_lower_bound_def split: pyval.splits option.splits)

definition remainder :: "pyval \<Rightarrow> rat \<Rightarrow> rat" where
  "remainder audit a = max 0 (float_sub a (measured_lower_bound audit))"

lemma remainder_bounds: "0 \<le> remainder audit a" "0 \<le> a \<Longrightarrow> remainder audit a \<le> fl a"
  using lower_bound_nonneg [of audit] fl_mono [of "a - measured_lower_bound audit" a] fl_nonneg [of a]
  by (simp_all add: remainder_def float_sub_def)

lemma build_source_fields:
  "us_source (build_source fr raw audit) = normalize_source_id raw"
  "us_raw (build_source fr raw audit) = raw"
  "us_ceiling_usd (build_source fr raw audit) = map_option (\<lambda>a. py_round 4 (remainder audit a)) (fst (allocation_ceiling audit))"
  "us_ceiling_basis (build_source fr raw audit) = fst (snd (allocation_ceiling audit))"
  "us_measured_lower_bound_usd (build_source fr raw audit) = measured_lower_bound audit"
  by (simp_all add: build_source_def remainder_def Let_def split: prod.splits option.splits)

lemma basis_nonempty: "fst (snd (allocation_ceiling v)) \<noteq> []"
  by (simp add: allocation_ceiling_def split: pyval.splits option.splits)

lemma opt_str_stripped: "opt_str fr v = Some s \<Longrightarrow> py_strip s = s \<and> s \<noteq> []"
  by (auto simp: opt_str_def Let_def split: if_splits)

lemma opt_str_value: "(\<And>t. s = Some t \<Longrightarrow> py_strip t = t \<and> t \<noteq> []) \<Longrightarrow> opt_str fr (opt_value s) = s"
  by (cases s) (auto simp: opt_str_def opt_value_def Let_def)

lemma set_opt_other: "k \<noteq> k' \<Longrightarrow> dict_get (set_opt k v d) k' = dict_get d k'"
  by (simp add: set_opt_def split: option.split)

lemma set_opt_same: "dict_get d k = None \<Longrightarrow> dict_get (set_opt k v d) k = map_option PStr v"
  by (simp add: set_opt_def split: option.split)

lemma origin_head_run_id:
  "dict_get (origin_head fr audit) ''run_id'' = map_option PStr (opt_str fr (py_get audit ''run_id''))"
  by (simp add: origin_head_def Let_def set_opt_other set_opt_same split: pyval.split)

lemma origin_agent_run_id: "dict_get (fst (origin_agent fr agent acc)) ''run_id'' = dict_get (fst acc) ''run_id''"
  by (simp add: origin_agent_def Let_def set_opt_other split: prod.split option.split)

lemma origin_run_id:
  "dict_get (origin_from_story_audit fr (PDict audit)) ''run_id'' = map_option PStr (opt_str fr (py_get audit ''run_id''))"
proof -
  define found where "found = (case audit_agents audit of None \<Rightarrow> None | Some xs \<Rightarrow> first_unmeasured xs)"
  define p where "p = (case found of None \<Rightarrow> (origin_head fr audit, opt_str fr (py_get audit ''error_type''))
     | Some agent \<Rightarrow> origin_agent fr agent (origin_head fr audit, opt_str fr (py_get audit ''error_type'')))"
  have "dict_get (fst p) ''run_id'' = map_option PStr (opt_str fr (py_get audit ''run_id''))"
    unfolding p_def by (simp add: origin_head_run_id origin_agent_run_id split: option.split)
  moreover have "dict_get (origin_from_story_audit fr (PDict audit)) ''run_id'' = dict_get (fst p) ''run_id''"
    unfolding origin_from_story_audit_def found_def [symmetric] p_def [symmetric]
    by (simp add: Let_def found_def [symmetric] p_def [symmetric] set_opt_other split: prod.split)
  ultimately show ?thesis by simp
qed

lemma origin_run_id_other: "\<forall>audit. v \<noteq> PDict audit \<Longrightarrow> origin_from_story_audit fr v = []"
  by (simp add: origin_from_story_audit_def split: pyval.splits)

lemma built_run_id:
  "origin_str (us_origin (build_source fr raw v)) ''run_id'' = Some t \<Longrightarrow> py_strip t = t \<and> t \<noteq> []"
proof -
  have o: "dict_get (us_origin (build_source fr raw v)) ''run_id'' = dict_get (origin_from_story_audit fr v) ''run_id''"
    by (simp add: build_source_def Let_def split: prod.splits option.splits)
  show "origin_str (us_origin (build_source fr raw v)) ''run_id'' = Some t \<Longrightarrow> py_strip t = t \<and> t \<noteq> []"
    by (cases "\<exists>audit. v = PDict audit")
       (auto simp: origin_str_def o origin_run_id origin_run_id_other split: option.splits pyval.splits dest: opt_str_stripped)
qed

lemma prior_sources_set:
  "set (prior_sources_from seen rs) = {n \<in> normalize_source_id ` set rs. n \<noteq> [] \<and> n \<noteq> prior_generation_source \<and> n \<notin> set seen}"
  by (induction rs arbitrary: seen) (auto simp: Let_def set_add_def)

section \<open>Properties\<close>

text \<open>The split loses no source and charges each acceptance once: a source stays unresolved exactly when
  this run produced it, when nobody accepted it, or when the acceptance names another run; the
  acceptances in force are distinct by source, and they are exactly those of the resolved sources.\<close>

theorem partition_exact:
  assumes "partition_sources raws accepted fresh ids = (unresolved, applied)"
  shows "unresolved = filter (\<lambda>raw. \<not> resolves accepted fresh ids raw) raws
    \<and> set applied = {r. \<exists>raw \<in> set raws. raw \<notin> set unresolved \<and> dict_get accepted (normalize_source_id raw) = Some r}
    \<and> length applied = card (normalize_source_id ` {raw \<in> set raws. resolves accepted fresh ids raw})"
proof -
  from partition_result [OF assms] obtain d where un: "unresolved = filter (\<lambda>raw. \<not> resolves accepted fresh ids raw) raws"
    and ap: "applied = map snd d"
    and ok: "applied_ok accepted (map normalize_source_id (filter (resolves accepted fresh ids) raws)) d" by blast
  let ?S = "normalize_source_id ` {raw \<in> set raws. resolves accepted fresh ids raw}"
  from ok have keys: "set (dict_keys d) = ?S" and wf: "dict_wf d"
    and get: "\<And>k. k \<in> ?S \<Longrightarrow> dict_get d k = dict_get accepted k" by (auto simp: applied_ok_def)
  have "length applied = card ?S" using distinct_card [OF wf] keys ap by simp
  moreover have "r \<in> set applied \<longleftrightarrow> (\<exists>raw \<in> set raws. raw \<notin> set unresolved \<and> dict_get accepted (normalize_source_id raw) = Some r)" for r
  proof
    assume "r \<in> set applied"
    with ap obtain k where k: "(k, r) \<in> set d" by auto
    with wf have "dict_get d k = Some r" by simp
    moreover from k keys have "k \<in> ?S" by force
    ultimately show "\<exists>raw \<in> set raws. raw \<notin> set unresolved \<and> dict_get accepted (normalize_source_id raw) = Some r"
      using get un by auto
  next
    assume "\<exists>raw \<in> set raws. raw \<notin> set unresolved \<and> dict_get accepted (normalize_source_id raw) = Some r"
    then obtain raw where raw: "raw \<in> set raws" "resolves accepted fresh ids raw" "dict_get accepted (normalize_source_id raw) = Some r"
      using un by auto
    with get [of "normalize_source_id raw"] have "dict_get d (normalize_source_id raw) = Some r" by auto
    then show "r \<in> set applied" using ap by (force dest: map_of_SomeD)
  qed
  ultimately show ?thesis using un by blast
qed

definition sample_accepted :: accepted_spend where
  "sample_accepted = \<lparr>as_source = ''a'', as_accepted_ceiling_usd = 1, as_measured_lower_bound_usd = 0,
     as_ceiling_basis = ''story_allocation'', as_origin_run_id = Some ''r1'', as_origin_phase = None, as_origin_role = None,
     as_origin_profile = None, as_origin_failure_code = None, as_accepted_at = None, as_reason = None\<rparr>"

theorem partition_exact_witness:
  "partition_sources [''a'', ''b''] [(''a'', sample_accepted)] [] [] = ([''b''], [sample_accepted])
    \<and> filter (\<lambda>raw. \<not> resolves [(''a'', sample_accepted)] [] [] raw) [''a'', ''b''] = [''b'']"
proof -
  have p: "partition_sources [''a'', ''b''] [(''a'', sample_accepted)] [] [] = ([''b''], [sample_accepted])" by code_simp
  from partition_exact [OF p] p show ?thesis by simp
qed

text \<open>What can be accepted is bounded: a source is acceptable only when its audit records a positive
  allocation, and the ceiling charged for it is then between zero and that allocation, to four
  decimals, less what was measured.\<close>

theorem acceptable_is_bounded:
  assumes "accept_source (build_source float_repr raw audit) accepted_at reason = Some r"
  shows "\<exists>a. fst (allocation_ceiling audit) = Some a \<and> 0 < a
    \<and> as_accepted_ceiling_usd r = py_round 4 (max 0 (float_sub a (measured_lower_bound audit)))
    \<and> 0 \<le> as_accepted_ceiling_usd r \<and> as_accepted_ceiling_usd r \<le> py_round 4 (fl a)
    \<and> as_source r = normalize_source_id raw"
proof -
  from assms obtain a where a: "fst (allocation_ceiling audit) = Some a"
    and r: "as_accepted_ceiling_usd r = py_round 4 (remainder audit a)" "as_source r = normalize_source_id raw"
    by (auto simp: accept_source_def build_source_fields split: option.splits)
  from allocation_positive [OF a] have p: "0 < a" .
  with remainder_bounds [where audit = audit and a = a] have "0 \<le> py_round 4 (remainder audit a)" "py_round 4 (remainder audit a) \<le> py_round 4 (fl a)"
    by (simp_all add: py_round_nonneg py_round_mono)
  with a p r show ?thesis by (auto simp: remainder_def)
qed

definition sample_audit :: pyval where
  "sample_audit = PDict [(''run_id'', PStr ''r1''),
     (''cost'', PDict [(''total_usd'', PInt 1), (''story_allocation'', PDict [(''allocation_usd'', PInt 3)])])]"

lemma sample_build:
  "fst (allocation_ceiling sample_audit) = Some 3" "measured_lower_bound sample_audit = 1"
  using fl_of_int [of 3] fl_of_int [of 1]
  by (simp_all add: allocation_ceiling_def measured_lower_bound_def sample_audit_def py_get_def usable_figure_def)

theorem acceptable_is_bounded_witness:
  "\<exists>r. accept_source (build_source (\<lambda>x. []) ''a'' sample_audit) ''now'' None = Some r
     \<and> as_accepted_ceiling_usd r \<le> py_round 4 (fl 3)"
proof -
  obtain r where r: "accept_source (build_source (\<lambda>x. []) ''a'' sample_audit) ''now'' None = Some r"
    by (simp add: accept_source_def build_source_fields sample_build)
  from acceptable_is_bounded [OF this] r sample_build(1) show ?thesis by auto
qed

text \<open>Saving an acceptance and loading it keeps what the budget uses: for allocations up to a billion, the
  loaded record has the same source, ceiling, basis and origin run, so the split and the total are
  the same before and after.\<close>

theorem acceptance_survives_save:
  assumes "accept_source (build_source float_repr raw audit) accepted_at reason = Some r"
    and "normalize_source_id raw \<noteq> []" "fst (allocation_ceiling audit) = Some a" "a \<le> 10 ^ 9"
  shows "\<exists>r'. accepted_from_dict float_repr parse_float (PDict (accepted_as_dict r)) = Some r'
    \<and> as_source r' = as_source r \<and> as_accepted_ceiling_usd r' = as_accepted_ceiling_usd r
    \<and> as_ceiling_basis r' = as_ceiling_basis r \<and> as_origin_run_id r' = as_origin_run_id r"
proof -
  have r: "as_accepted_ceiling_usd r = py_round 4 (remainder audit a)" "as_source r = normalize_source_id raw"
    "as_ceiling_basis r = fst (snd (allocation_ceiling audit))"
    "as_origin_run_id r = origin_str (us_origin (build_source float_repr raw audit)) ''run_id''"
    using assms(1,3) by (auto simp: accept_source_def build_source_fields split: option.splits)
  have id: "opt_str float_repr (opt_value (as_origin_run_id r)) = as_origin_run_id r"
    unfolding r(4) by (rule opt_str_value) (rule built_run_id)
  have "remainder audit a \<le> fl (of_int (10 ^ 9))"
    using remainder_bounds(2) [where audit = audit and a = a] allocation_positive [OF assms(3)] fl_mono [OF assms(4)] by simp
  then have "remainder audit a \<le> 10 ^ 9" using fl_of_int [of "10 ^ 9"] by simp
  with remainder_bounds(1) [where audit = audit and a = a] have "\<bar>remainder audit a\<bar> * 10 ^ 4 \<le> 2 ^ 50" by simp
  from py_round_idem [OF this] have ceil: "py_round 4 (as_accepted_ceiling_usd r) = as_accepted_ceiling_usd r" by (simp add: r)
  show ?thesis
    using assms(2) basis_nonempty [of audit] ceil id
    by (simp add: accepted_from_dict_def accepted_as_dict_def py_get_def r(2,3) Let_def)
qed

theorem acceptance_survives_save_witness:
  "\<exists>r r'. accept_source (build_source (\<lambda>x. []) ''a'' sample_audit) ''now'' None = Some r
     \<and> accepted_from_dict (\<lambda>x. []) (\<lambda>s. None) (PDict (accepted_as_dict r)) = Some r' \<and> as_source r' = as_source r"
proof -
  obtain r where r: "accept_source (build_source (\<lambda>x. []) ''a'' sample_audit) ''now'' None = Some r"
    by (simp add: accept_source_def build_source_fields sample_build)
  have "normalize_source_id ''a'' \<noteq> []" by code_simp
  from acceptance_survives_save [OF r this sample_build(1)] r show ?thesis by auto
qed

text \<open>A prior generation counts as accepted exactly when it named at least one real source and every real
  source it named was accepted, whether it was recorded bare or as carried; the whole-generation
  marker and empty ids neither help nor hinder.\<close>

theorem all_sources_accepted_iff:
  "all_sources_accepted recorded accepted \<longleftrightarrow>
     (let names = {normalize_source_id raw | raw. raw \<in> set recorded} - {[], prior_generation_source}
      in names \<noteq> {} \<and> names \<subseteq> set (dict_keys accepted))"
proof -
  have s: "set (acceptable_prior_sources recorded) = {normalize_source_id raw | raw. raw \<in> set recorded} - {[], prior_generation_source}"
    unfolding acceptable_prior_sources_def prior_sources_set by auto
  have "acceptable_prior_sources recorded \<noteq> [] \<longleftrightarrow> set (acceptable_prior_sources recorded) \<noteq> {}" by simp
  then show ?thesis unfolding all_sources_accepted_def Let_def list_all_iff s by auto
qed

text \<open>The budget opens only on accepted spend: when the check permits more work for the unresolved sources and
  the accepted ceilings of the split, every source of the run, recorded bare or carried, was accepted
  for its occurrence and none of them was produced by this run.\<close>

theorem budget_opens_only_on_accepted_spend:
  assumes "partition_sources raws accepted fresh ids = (unresolved, applied)"
    and "evaluate_budget \<lparr>accumulated_cost = cost, prior_cost = prior, budget_usd = budget, unmeasured_spend = unresolved,
           accepted_unmeasured_ceiling_usd = accepted_ceiling_total applied, source_details = details,
           acceptable_unmeasured_spend_sources = hints\<rparr> = None"
    and "raw \<in> set raws"
  shows "raw \<notin> set fresh \<and> (\<exists>r \<in> set applied. dict_get accepted (normalize_source_id raw) = Some r
    \<and> same_occurrence r (case dict_get ids raw of None \<Rightarrow> None | Some i \<Rightarrow> i))"
proof -
  from assms(2) have u: "unresolved = []" by (simp add: evaluate_budget_def Let_def split: if_splits)
  from partition_result [OF assms(1)] obtain d where d: "unresolved = filter (\<lambda>raw. \<not> resolves accepted fresh ids raw) raws"
    "applied = map snd d" "applied_ok accepted (map normalize_source_id (filter (resolves accepted fresh ids) raws)) d" by blast
  with u assms(3) have res: "resolves accepted fresh ids raw" by (auto simp: filter_empty_conv)
  then obtain r where r: "dict_get accepted (normalize_source_id raw) = Some r"
    "same_occurrence r (case dict_get ids raw of None \<Rightarrow> None | Some i \<Rightarrow> i)" "raw \<notin> set fresh"
    by (auto simp: resolves_def split: option.splits)
  from d(3) res assms(3) r(1) have "dict_get d (normalize_source_id raw) = Some r" by (auto simp: applied_ok_def)
  with d(2) have "r \<in> set applied" by (force dest: map_of_SomeD)
  with r show ?thesis by blast
qed

theorem budget_opens_only_on_accepted_spend_witness:
  "(''a''::string) \<notin> set [] \<and> same_occurrence sample_accepted None"
proof -
  have p: "partition_sources [''a''] [(''a'', sample_accepted)] [] [] = ([], [sample_accepted])" by code_simp
  have t: "accepted_ceiling_total [sample_accepted] = 1"
    using fl_of_int [of 1] by (simp add: accepted_ceiling_total_def sample_accepted_def py_round_def)
  have e: "evaluate_budget \<lparr>accumulated_cost = 0, prior_cost = 0, budget_usd = 5, unmeasured_spend = [],
           accepted_unmeasured_ceiling_usd = accepted_ceiling_total [sample_accepted], source_details = None,
           acceptable_unmeasured_spend_sources = None\<rparr> = None"
    using fl_of_int [of 1] by (simp add: evaluate_budget_def t budget_verification_spend_def float_add_def py_round_def)
  have "normalize_source_id ''a'' = ''a''" by code_simp
  with budget_opens_only_on_accepted_spend [OF p e, of "''a''"] show ?thesis by simp
qed

end
