(* ===== verification/Worker_Budget.thy ===== *)
theory Worker_Budget
  imports Py_Float
begin

text \<open>
  The worker window of a dispatched story (\<^verbatim>\<open>worker_budget.py\<close>): its ceiling, the operator waits banked
  against it, and the pooling of that credit across the stories of a batch group. Budgets are shared
  objects, so they live in a store and are named by their index; the module's registry maps slugs to
  them. Readings of the monotonic clock are arguments: \<open>clock i\<close> is the reading taken for budget \<open>i\<close>
  where the caller gave no time. Each method holds its lock, so a history of calls is a sequence.
\<close>

section \<open>Model\<close>

record worker_budget =
  wb_slug :: string
  wb_worker_timeout_seconds :: rat
  wb_started_at :: rat
  wb_group :: "string option"
  wb_operator_wait_seconds :: rat
  wb_wait_started_at :: "rat option"
  wb_wait_label :: string

record budget_world =
  bw_store :: "worker_budget list"
  bw_registry :: "(string, nat) dict"

definition wait_credit :: "worker_budget \<Rightarrow> rat \<Rightarrow> rat" where
  "wait_credit b now =
     (case wb_wait_started_at b of
        None \<Rightarrow> wb_operator_wait_seconds b
      | Some started \<Rightarrow> float_add (wb_operator_wait_seconds b) (max 0 (float_sub now started)))"

definition is_waiting :: "worker_budget \<Rightarrow> bool" where
  "is_waiting b \<longleftrightarrow> wb_wait_started_at b \<noteq> None"

definition group_peers :: "budget_world \<Rightarrow> nat \<Rightarrow> nat list" where
  "group_peers w i =
     (case wb_group (bw_store w ! i) of None \<Rightarrow> [i]
      | Some g \<Rightarrow>
          (let peers = filter (\<lambda>j. wb_group (bw_store w ! j) = Some g) (map snd (bw_registry w))
           in if i \<in> set peers then peers else peers @ [i]))"

definition pooled_credit :: "budget_world \<Rightarrow> (nat \<Rightarrow> rat) \<Rightarrow> rat option \<Rightarrow> nat \<Rightarrow> rat" where
  "pooled_credit w clock now i =
     float_sum (map (\<lambda>j. wait_credit (bw_store w ! j) (case now of None \<Rightarrow> clock j | Some t \<Rightarrow> t)) (group_peers w i))"

definition remaining_time :: "budget_world \<Rightarrow> rat \<Rightarrow> nat \<Rightarrow> rat" where
  "remaining_time w now i =
     (let b = bw_store w ! i;
          elapsed = float_sub (max 0 (float_sub now (wb_started_at b))) (pooled_credit w (\<lambda>j. now) (Some now) i)
      in float_sub (wb_worker_timeout_seconds b) elapsed)"

definition begin_wait :: "rat \<Rightarrow> string \<Rightarrow> worker_budget \<Rightarrow> worker_budget" where
  "begin_wait now label b =
     (if wb_wait_started_at b = None then b\<lparr>wb_wait_started_at := Some now, wb_wait_label := label\<rparr> else b)"

definition end_wait :: "rat \<Rightarrow> worker_budget \<Rightarrow> rat \<times> worker_budget" where
  "end_wait now b =
     (case wb_wait_started_at b of None \<Rightarrow> (0, b)
      | Some started \<Rightarrow>
          (let waited = max 0 (float_sub now started)
           in (waited, b\<lparr>wb_operator_wait_seconds := float_add (wb_operator_wait_seconds b) waited,
                         wb_wait_started_at := None, wb_wait_label := []\<rparr>)))"

subsection \<open>The registry\<close>

definition register_worker_budget :: "string \<Rightarrow> rat \<Rightarrow> string option \<Rightarrow> rat \<Rightarrow> budget_world \<Rightarrow> nat \<times> budget_world" where
  "register_worker_budget slug timeout grp started_at w =
     (let b = \<lparr>wb_slug = slug, wb_worker_timeout_seconds = timeout, wb_started_at = started_at, wb_group = grp,
               wb_operator_wait_seconds = 0, wb_wait_started_at = None, wb_wait_label = []\<rparr>;
          i = length (bw_store w)
      in (i, \<lparr>bw_store = bw_store w @ [b], bw_registry = dict_set slug i (bw_registry w)\<rparr>))"

definition unregister_worker_budget :: "string \<Rightarrow> budget_world \<Rightarrow> budget_world" where
  "unregister_worker_budget slug w = w\<lparr>bw_registry := dict_pop slug (bw_registry w)\<rparr>"

definition get_worker_budget :: "budget_world \<Rightarrow> string \<Rightarrow> nat option" where
  "get_worker_budget w slug = dict_get (bw_registry w) slug"

text \<open>The slug of the running thread is an argument.\<close>

definition current_worker_budget :: "budget_world \<Rightarrow> string option \<Rightarrow> nat option" where
  "current_worker_budget w worker_slug =
     (case worker_slug of None \<Rightarrow> None | Some s \<Rightarrow> if s = [] then None else get_worker_budget w s)"

definition clear_worker_budgets :: "budget_world \<Rightarrow> budget_world" where
  "clear_worker_budgets w = w\<lparr>bw_registry := []\<rparr>"

definition operator_wait_credit :: "budget_world \<Rightarrow> (nat \<Rightarrow> rat) \<Rightarrow> string \<Rightarrow> rat option \<Rightarrow> rat" where
  "operator_wait_credit w clock slug now =
     (case get_worker_budget w slug of None \<Rightarrow> 0 | Some i \<Rightarrow> pooled_credit w clock now i)"

definition remaining_seconds :: "budget_world \<Rightarrow> string \<Rightarrow> rat \<Rightarrow> rat option" where
  "remaining_seconds w slug now = map_option (remaining_time w now) (get_worker_budget w slug)"

definition waiting_on_operator :: "budget_world \<Rightarrow> rat \<Rightarrow> string \<Rightarrow> bool \<times> string \<times> rat" where
  "waiting_on_operator w now slug =
     (case get_worker_budget w slug of None \<Rightarrow> (False, [], 0)
      | Some i \<Rightarrow>
          (case filter (\<lambda>j. is_waiting (bw_store w ! j)) (group_peers w i) of
             [] \<Rightarrow> (False, [], 0)
           | j # _ \<Rightarrow> (True, wb_wait_label (bw_store w ! j),
                       max 0 (float_sub now (the (wb_wait_started_at (bw_store w ! j)))))))"

text \<open>
  The context manager \<^verbatim>\<open>operator_wait\<close>, as its two halves: what it yields with the wait opened, and
  closing the wait on the way out.
\<close>

definition update_budget :: "nat \<Rightarrow> (worker_budget \<Rightarrow> worker_budget) \<Rightarrow> budget_world \<Rightarrow> budget_world" where
  "update_budget i f w = w\<lparr>bw_store := (bw_store w)[i := f (bw_store w ! i)]\<rparr>"

definition enter_operator_wait :: "(nat \<Rightarrow> rat) \<Rightarrow> rat \<Rightarrow> string \<Rightarrow> nat option \<Rightarrow> string option \<Rightarrow> budget_world
    \<Rightarrow> rat \<times> nat option \<times> budget_world" where
  "enter_operator_wait clock now label budget worker_slug w =
     (case (case budget of Some i \<Rightarrow> Some i | None \<Rightarrow> current_worker_budget w worker_slug) of
        None \<Rightarrow> (0, None, w)
      | Some i \<Rightarrow> (pooled_credit w clock None i, Some i, update_budget i (begin_wait now label) w))"

definition exit_operator_wait :: "rat \<Rightarrow> nat option \<Rightarrow> budget_world \<Rightarrow> budget_world" where
  "exit_operator_wait now budget w =
     (case budget of None \<Rightarrow> w | Some i \<Rightarrow> update_budget i (\<lambda>b. snd (end_wait now b)) w)"

section \<open>Properties\<close>

text \<open>The references of the registry stay inside the store, under any use of the module.\<close>

definition world_ok :: "budget_world \<Rightarrow> bool" where
  "world_ok w \<longleftrightarrow> dict_wf (bw_registry w) \<and> (\<forall>s i. (s, i) \<in> set (bw_registry w) \<longrightarrow> i < length (bw_store w) \<and> wb_slug (bw_store w ! i) = s)"

datatype budget_op =
    Register string rat "string option" rat
  | Unregister string
  | EnterWait "nat \<Rightarrow> rat" rat string "nat option" "string option"
  | ExitWait rat "nat option"
  | ClearAll

fun budget_step :: "budget_op \<Rightarrow> budget_world \<Rightarrow> budget_world" where
  "budget_step (Register s t g a) w = snd (register_worker_budget s t g a w)"
| "budget_step (Unregister s) w = unregister_worker_budget s w"
| "budget_step (EnterWait clock now label b s) w = snd (snd (enter_operator_wait clock now label b s w))"
| "budget_step (ExitWait now b) w = exit_operator_wait now b w"
| "budget_step ClearAll w = clear_worker_budgets w"

lemma update_budget_ok:
  "world_ok w \<Longrightarrow> (\<And>b. wb_slug (f b) = wb_slug b) \<Longrightarrow> world_ok (update_budget i f w)"
  
  by (cases "i < length (bw_store w)") (auto simp: world_ok_def update_budget_def nth_list_update list_update_beyond)

lemma wait_slug [simp]: "wb_slug (begin_wait t l b) = wb_slug b" "wb_slug (snd (end_wait t b)) = wb_slug b"
  by (simp_all add: begin_wait_def end_wait_def Let_def split: option.split)

lemma wf_dict_get_iff: "dict_wf d \<Longrightarrow> (k, v) \<in> set d \<longleftrightarrow> dict_get d k = Some v"
  by simp

lemma register_ok: "world_ok w \<Longrightarrow> world_ok (snd (register_worker_budget s t g a w))"
proof -
  assume ok: "world_ok w"
  let ?w = "snd (register_worker_budget s t g a w)"
  have wf: "dict_wf (bw_registry ?w)" using ok by (simp add: register_worker_budget_def world_ok_def Let_def)
  have "i < length (bw_store ?w) \<and> wb_slug (bw_store ?w ! i) = k" if "(k, i) \<in> set (bw_registry ?w)" for k i
  proof (cases "k = s")
    case True
    with that wf have "i = length (bw_store w)" by (simp only: wf_dict_get_iff) (simp add: register_worker_budget_def Let_def)
    with True show ?thesis by (simp add: register_worker_budget_def Let_def)
  next
    case False
    with that wf have "dict_get (bw_registry w) k = Some i" by (simp only: wf_dict_get_iff) (simp add: register_worker_budget_def Let_def)
    then have "(k, i) \<in> set (bw_registry w)" by (rule map_of_SomeD)
    with ok have "i < length (bw_store w)" "wb_slug (bw_store w ! i) = k" by (auto simp: world_ok_def)
    then show ?thesis by (simp add: register_worker_budget_def Let_def nth_append)
  qed
  with wf show ?thesis by (auto simp: world_ok_def)
qed

lemma clear_ok: "world_ok (clear_worker_budgets w)"
  by (simp add: world_ok_def clear_worker_budgets_def)

lemma unregister_ok: "world_ok w \<Longrightarrow> world_ok (unregister_worker_budget s w)"
  proof -
  assume ok: "world_ok w"
  then have "dict_wf (dict_pop s (bw_registry w))" by (simp add: world_ok_def)
  moreover have "set (dict_pop s (bw_registry w)) \<subseteq> set (bw_registry w)" by (auto simp: dict_pop_filter)
  ultimately show ?thesis using ok by (auto simp: world_ok_def unregister_worker_budget_def)
qed

interpretation budget_module: op_machine budget_step "\<lambda>_. True" world_ok
proof
  fix w x
  assume ok: "world_ok w"
  then show "world_ok (budget_step x w)"
    by (cases x) (auto simp: register_ok unregister_ok update_budget_ok clear_ok enter_operator_wait_def
        exit_operator_wait_def split: option.split)
qed

text \<open>The module's references never dangle: after any sequence of registrations, removals and waits from the
  empty module, each registered slug names a stored budget that carries that slug.\<close>

theorem budget_references_valid:
  assumes "get_worker_budget (fold budget_step ops \<lparr>bw_store = [], bw_registry = []\<rparr>) slug = Some i"
  shows "i < length (bw_store (fold budget_step ops \<lparr>bw_store = [], bw_registry = []\<rparr>))
    \<and> wb_slug (bw_store (fold budget_step ops \<lparr>bw_store = [], bw_registry = []\<rparr>) ! i) = slug"
proof -
  have "world_ok (fold budget_step ops \<lparr>bw_store = [], bw_registry = []\<rparr>)"
    by (rule budget_module.run_inv) (simp_all add: world_ok_def)
  with assms show ?thesis by (auto simp: world_ok_def get_worker_budget_def dest: map_of_SomeD)
qed

lemma peers_of_group:
  assumes "get_worker_budget w s = Some i" "wb_group (bw_store w ! i) = Some g"
  shows "group_peers w i = filter (\<lambda>j. wb_group (bw_store w ! j) = Some g) (map snd (bw_registry w))"
proof -
  from assms(1) have "i \<in> set (map snd (bw_registry w))" by (force simp: get_worker_budget_def dest: map_of_SomeD)
  with assms(2) show ?thesis by (simp add: group_peers_def Let_def)
qed

theorem budget_references_valid_witness:
  "wb_slug (bw_store (fold budget_step [Register ''a'' 9 None 0, ExitWait 1 (Some 0)] \<lparr>bw_store = [], bw_registry = []\<rparr>) ! 0) = ''a''"
proof -
  have "get_worker_budget (fold budget_step [Register ''a'' 9 None 0, ExitWait 1 (Some 0)] \<lparr>bw_store = [], bw_registry = []\<rparr>) ''a'' = Some 0"
    by (simp add: get_worker_budget_def register_worker_budget_def exit_operator_wait_def update_budget_def)
  from budget_references_valid [OF this] show ?thesis by blast
qed

text \<open>The stories of a batch group share one offset: two registered stories of the same group are credited the
  same wait at any moment, and what each has left is its own ceiling less the time since its start
  with exactly that credit taken off, the figure the scheduler adds to their deadline.\<close>

theorem group_shares_one_credit:
  assumes "get_worker_budget w s = Some i" "get_worker_budget w t = Some j"
    and "wb_group (bw_store w ! i) = Some g" "wb_group (bw_store w ! j) = Some g"
  shows "operator_wait_credit w clock s now = operator_wait_credit w clock t now
    \<and> remaining_seconds w s tm = Some (float_sub (wb_worker_timeout_seconds (bw_store w ! i))
         (float_sub (max 0 (float_sub tm (wb_started_at (bw_store w ! i)))) (operator_wait_credit w clock t (Some tm))))"
  using assms peers_of_group [OF assms(1,3)] peers_of_group [OF assms(2,4)]
  by (simp add: operator_wait_credit_def remaining_seconds_def remaining_time_def pooled_credit_def Let_def)

definition batch_world :: budget_world where
  "batch_world = fold budget_step [Register ''a'' 9 (Some ''g'') 0, Register ''b'' 9 (Some ''g'') 0]
     \<lparr>bw_store = [], bw_registry = []\<rparr>"

theorem group_shares_one_credit_witness:
  "operator_wait_credit batch_world (\<lambda>i. 3) ''a'' (Some 4) = operator_wait_credit batch_world (\<lambda>i. 3) ''b'' (Some 4)"
  by (rule group_shares_one_credit [where g = "''g''" and i = 0 and j = 1, THEN conjunct1])
     (simp_all add: batch_world_def get_worker_budget_def register_worker_budget_def)

text \<open>Closing a wait neither creates nor loses credit: at the moment of closing, the banked seconds are what the
  open wait was credited, the credit of an open wait never shrinks as time passes, and a second close
  banks nothing.\<close>

theorem end_wait_conserves_credit:
  assumes "t \<le> u"
  shows "wait_credit (snd (end_wait t b)) v = wait_credit b t
    \<and> wait_credit b t \<le> wait_credit b u
    \<and> end_wait v (snd (end_wait t b)) = (0, snd (end_wait t b))"
proof (cases "wb_wait_started_at b")
  case (Some started)
  have "float_sub t started \<le> float_sub u started" using assms by (simp add: float_sub_def fl_mono)
  then have "float_add (wb_operator_wait_seconds b) (max 0 (float_sub t started))
      \<le> float_add (wb_operator_wait_seconds b) (max 0 (float_sub u started))"
    by (intro float_add_mono) auto
  with Some show ?thesis by (simp add: end_wait_def wait_credit_def Let_def)
qed (simp add: end_wait_def wait_credit_def)

theorem end_wait_conserves_credit_witness:
  "wait_credit (snd (end_wait 2 (begin_wait 1 ''gate'' (bw_store batch_world ! 0)))) 5
     = wait_credit (begin_wait 1 ''gate'' (bw_store batch_world ! 0)) 2"
  using end_wait_conserves_credit [of 2 3 "begin_wait 1 ''gate'' (bw_store batch_world ! 0)" 5] by simp

text \<open>A nested wait cuts the outer one short: opening a wait inside another keeps the outer start, but leaving
  the inner one closes the interval, so what the operator waits on in the outer block afterwards is
  not credited.\<close>

theorem nested_wait_cuts_outer_credit:
  assumes "wb_wait_started_at b = None" "wb_operator_wait_seconds b = 0"
  shows "wait_credit (snd (end_wait 40 (snd (end_wait 20 (begin_wait 10 inner (begin_wait 0 outer b)))))) 40 = 20
    \<and> wait_credit (snd (end_wait 40 (begin_wait 0 outer b))) 40 = 40"
  using assms fl_of_int [of 20] fl_of_int [of 40]
  by (simp add: begin_wait_def end_wait_def wait_credit_def float_add_def float_sub_def)

theorem nested_wait_cuts_outer_credit_witness:
  "wait_credit (snd (end_wait 40 (begin_wait 0 ''o'' (bw_store batch_world ! 0)))) 40 = 40"
  by (rule nested_wait_cuts_outer_credit [THEN conjunct2]) (simp_all add: batch_world_def register_worker_budget_def)

end
