(* ===== verification/Story_Executions.thy ===== *)
theory Story_Executions
  imports Forge_Prelude
begin

text \<open>
  The registry of stories a sprint process is executing (\<^verbatim>\<open>sprint/story_executions.py\<close>): one file per
  owner and story, named after both, that survives the process replacing its own image. The
  registry directory is a dictionary from file names to what reading the file gives: the value
  \<^verbatim>\<open>json.loads\<close> returns, or nothing where reading or parsing fails. Processes are seen through the two
  questions the code asks the system: the start time of a pid and the outcome of signal 0.
\<close>

section \<open>Model\<close>

text \<open>\<^verbatim>\<open>os.kill(pid, 0)\<close>: delivered, no such process, or a process of another user.\<close>

datatype kill_result = Delivered | NoSuchProcess | NotPermitted

record process_view =
  pv_pid :: int
  pv_fingerprint :: "int \<Rightarrow> string option"
  pv_kill0 :: "int \<Rightarrow> kill_result"

definition current_process_fingerprint :: "process_view \<Rightarrow> string option" where
  "current_process_fingerprint w = pv_fingerprint w (pv_pid w)"

definition is_pid_alive :: "process_view \<Rightarrow> int \<Rightarrow> bool" where
  "is_pid_alive w pid = (case pv_kill0 w pid of Delivered \<Rightarrow> True | NoSuchProcess \<Rightarrow> False | NotPermitted \<Rightarrow> False)"

type_synonym registry = "(string, pyval option) dict option"

record execution_record =
  er_slug :: string
  er_owner_pid :: int
  er_owner_fingerprint :: "string option"
  er_worktree :: "string option"
  er_run_id :: "string option"
  er_path :: string

record execution_scan =
  sc_owned :: "execution_record list"
  sc_unverifiable :: "execution_record list"
  sc_failures :: "string list"

definition safe_char :: "char \<Rightarrow> char" where
  "safe_char c = (if py_isalnum c \<or> c \<in> set ''-_.'' then c else CHR ''_'')"

definition record_name :: "int \<Rightarrow> string \<Rightarrow> string" where
  "record_name owner_pid slug = py_str_int owner_pid @ ''-'' @ map safe_char slug @ ''.json''"

definition opt_pystr :: "string option \<Rightarrow> pyval" where
  "opt_pystr s = (case s of None \<Rightarrow> PNone | Some t \<Rightarrow> PStr t)"

definition execution_payload :: "process_view \<Rightarrow> string \<Rightarrow> int \<Rightarrow> string option \<Rightarrow> string option \<Rightarrow> pydict" where
  "execution_payload w slug pid worktree run_id =
     [(''slug'', PStr slug), (''owner_pid'', PInt pid),
      (''owner_fingerprint'', opt_pystr (current_process_fingerprint w)),
      (''worktree'', opt_pystr worktree), (''run_id'', opt_pystr run_id)]"

text \<open>
  How a write can fail: making the directory, or writing the temporary file; in the second case the
  temporary file may be left behind under its own name, which ends in \<^verbatim>\<open>.tmp\<close>.
\<close>

datatype write_outcome = Written | MkdirFailed | WriteFailed "string option"

definition temp_name :: "string \<Rightarrow> string \<Rightarrow> string" where
  "temp_name name random = ''.'' @ name @ ''.'' @ random @ ''.tmp''"

definition files_of :: "registry \<Rightarrow> (string, pyval option) dict" where
  "files_of r = (case r of None \<Rightarrow> [] | Some files \<Rightarrow> files)"

definition register_story_execution :: "process_view \<Rightarrow> write_outcome \<Rightarrow> string \<Rightarrow> string option \<Rightarrow> string option
    \<Rightarrow> int option \<Rightarrow> registry \<Rightarrow> string py_result \<times> registry" where
  "register_story_execution w io slug worktree run_id owner_pid r =
     (let pid = (case owner_pid of None \<Rightarrow> pv_pid w | Some p \<Rightarrow> p);
          payload = execution_payload w slug pid worktree run_id;
          name = record_name pid slug
      in case io of
           MkdirFailed \<Rightarrow> (Inl (OSError ''mkdir''), r)
         | WriteFailed None \<Rightarrow> (Inl (OSError ''write''), Some (files_of r))
         | WriteFailed (Some random) \<Rightarrow> (Inl (OSError ''write''), Some (dict_set (temp_name name random) None (files_of r)))
         | Written \<Rightarrow> (Inr name, Some (dict_set name (Some (PDict payload)) (files_of r))))"

definition clear_story_execution :: "process_view \<Rightarrow> (string \<Rightarrow> bool) \<Rightarrow> string \<Rightarrow> int option \<Rightarrow> registry \<Rightarrow> registry" where
  "clear_story_execution w unlink_fails slug owner_pid r =
     (let name = record_name (case owner_pid of None \<Rightarrow> pv_pid w | Some p \<Rightarrow> p) slug
      in if unlink_fails name then r else map_option (dict_pop name) r)"

definition nonempty_str :: "pyval \<Rightarrow> string option" where
  "nonempty_str v = (case v of PStr s \<Rightarrow> if s \<noteq> [] then Some s else None | _ \<Rightarrow> None)"

text \<open>\<^verbatim>\<open>isinstance(v, int)\<close> holds of the truth values as well.\<close>

fun pid_value :: "pyval \<Rightarrow> int option" where
  "pid_value (PInt i) = Some i"
| "pid_value (PBool b) = Some (of_bool b)"
| "pid_value _ = None"

definition parse_record :: "string \<Rightarrow> pyval option \<Rightarrow> execution_record option" where
  "parse_record path content =
     (case content of
        Some (PDict d) \<Rightarrow>
          (case (nonempty_str (py_get d ''slug''), pid_value (py_get d ''owner_pid'')) of
             (Some slug, Some pid) \<Rightarrow>
               Some \<lparr>er_slug = slug, er_owner_pid = pid, er_owner_fingerprint = nonempty_str (py_get d ''owner_fingerprint''),
                     er_worktree = nonempty_str (py_get d ''worktree''), er_run_id = nonempty_str (py_get d ''run_id''),
                     er_path = path\<rparr>
           | _ \<Rightarrow> None)
      | _ \<Rightarrow> None)"

definition list_records :: "bool \<Rightarrow> registry \<Rightarrow> (string \<times> pyval option) list \<times> string option" where
  "list_records listing_fails r =
     (case r of None \<Rightarrow> ([], None)
      | Some files \<Rightarrow> if listing_fails then ([], Some ''story execution registry could not be listed'')
                      else (sort_key fst (filter (\<lambda>(name, c). suffix ''.json'' name) files), None))"

text \<open>Both owner arguments of the scan may be given; the calls of the program leave the fingerprint out.\<close>

definition scan_record :: "int \<Rightarrow> string option \<Rightarrow> string \<times> pyval option \<Rightarrow> execution_scan \<Rightarrow> execution_scan" where
  "scan_record pid fingerprint file s =
     (case parse_record (fst file) (snd file) of
        None \<Rightarrow> s\<lparr>sc_failures := sc_failures s @ [''story execution record '' @ fst file @ '' is unreadable'']\<rparr>
      | Some record \<Rightarrow>
          if er_owner_pid record \<noteq> pid then s
          else if fingerprint = None \<or> er_owner_fingerprint record = None
          then s\<lparr>sc_unverifiable := sc_unverifiable s @ [record]\<rparr>
          else if er_owner_fingerprint record = fingerprint then s\<lparr>sc_owned := sc_owned s @ [record]\<rparr>
          else s)"

definition scan_story_executions :: "process_view \<Rightarrow> bool \<Rightarrow> int option \<Rightarrow> string option \<Rightarrow> registry \<Rightarrow> execution_scan" where
  "scan_story_executions w listing_fails owner_pid owner_fingerprint r =
     (let pid = (case owner_pid of None \<Rightarrow> pv_pid w | Some p \<Rightarrow> p);
          fingerprint = (case owner_fingerprint of None \<Rightarrow> current_process_fingerprint w | Some f \<Rightarrow> Some f);
          (files, failure) = list_records listing_fails r
      in fold (scan_record pid fingerprint) files
           \<lparr>sc_owned = [], sc_unverifiable = [], sc_failures = (case failure of None \<Rightarrow> [] | Some m \<Rightarrow> [m])\<rparr>)"

definition keeps_record :: "process_view \<Rightarrow> string list \<Rightarrow> execution_record option \<Rightarrow> bool" where
  "keeps_record w exclude_slugs parsed =
     (case parsed of None \<Rightarrow> False
      | Some record \<Rightarrow>
          (if er_slug record \<in> set (filter (\<lambda>s. s \<noteq> []) exclude_slugs) then True
           else if er_owner_pid record = pv_pid w
           then current_process_fingerprint w = None \<or> er_owner_fingerprint record = None
                \<or> er_owner_fingerprint record = current_process_fingerprint w
           else if is_pid_alive w (er_owner_pid record)
           then pv_fingerprint w (er_owner_pid record) = None \<or> er_owner_fingerprint record = None
                \<or> pv_fingerprint w (er_owner_pid record) = er_owner_fingerprint record
           else False))"

definition sweep_file :: "process_view \<Rightarrow> string list \<Rightarrow> (string \<Rightarrow> bool) \<Rightarrow> string \<times> pyval option
    \<Rightarrow> string list \<times> (string, pyval option) dict \<Rightarrow> string list \<times> (string, pyval option) dict" where
  "sweep_file w exclude_slugs unlink_fails file acc = (case acc of (removed, files) \<Rightarrow>
     if keeps_record w exclude_slugs (parse_record (fst file) (snd file)) then acc
     else if unlink_fails (fst file) then acc
     else (removed @ [fst file], dict_pop (fst file) files))"

definition sweep_story_executions :: "process_view \<Rightarrow> bool \<Rightarrow> (string \<Rightarrow> bool) \<Rightarrow> string list \<Rightarrow> registry \<Rightarrow> string list \<times> registry" where
  "sweep_story_executions w listing_fails unlink_fails exclude_slugs r =
     (case r of None \<Rightarrow> ([], None)
      | Some files \<Rightarrow>
          (case fold (sweep_file w exclude_slugs unlink_fails) (fst (list_records listing_fails r)) ([], files) of
             (removed, files') \<Rightarrow> (removed, Some files')))"

section \<open>Scans and sweeps as filters\<close>

definition listed :: "(string, pyval option) dict \<Rightarrow> (string \<times> pyval option) list" where
  "listed files = sort_key fst (filter (\<lambda>(name, c). suffix ''.json'' name) files)"

lemma set_listed: "set (listed files) = {(n, c) \<in> set files. suffix ''.json'' n}"
  by (auto simp: listed_def)

definition classified_file :: "int \<Rightarrow> (execution_record \<Rightarrow> bool) \<Rightarrow> string \<times> pyval option \<Rightarrow> execution_record list" where
  "classified_file pid test f = (case parse_record (fst f) (snd f) of None \<Rightarrow> []
     | Some rec \<Rightarrow> if er_owner_pid rec = pid \<and> test rec then [rec] else [])"

definition classified :: "int \<Rightarrow> (execution_record \<Rightarrow> bool) \<Rightarrow> (string \<times> pyval option) list \<Rightarrow> execution_record list" where
  "classified pid test fs = concat (map (classified_file pid test) fs)"

definition unsure :: "string option \<Rightarrow> execution_record \<Rightarrow> bool" where
  "unsure fp rec \<longleftrightarrow> fp = None \<or> er_owner_fingerprint rec = None"

lemma scan_record_fields:
  "sc_owned (scan_record pid fp f s) = sc_owned s @ classified_file pid (\<lambda>rec. \<not> unsure fp rec \<and> er_owner_fingerprint rec = fp) f"
  "sc_unverifiable (scan_record pid fp f s) = sc_unverifiable s @ classified_file pid (unsure fp) f"
  by (auto simp: scan_record_def classified_file_def unsure_def split: option.split)

lemma scan_fold:
  "sc_owned (fold (scan_record pid fp) fs s) = sc_owned s @ classified pid (\<lambda>rec. \<not> unsure fp rec \<and> er_owner_fingerprint rec = fp) fs"
  "sc_unverifiable (fold (scan_record pid fp) fs s) = sc_unverifiable s @ classified pid (unsure fp) fs"
  by (induction fs arbitrary: s) (simp_all add: scan_record_fields classified_def)

lemma scan_own:
  "sc_owned (scan_story_executions w False None None (Some files)) =
     classified (pv_pid w) (\<lambda>rec. \<not> unsure (current_process_fingerprint w) rec \<and> er_owner_fingerprint rec = current_process_fingerprint w) (listed files)"
  "sc_unverifiable (scan_story_executions w False None None (Some files)) = classified (pv_pid w) (unsure (current_process_fingerprint w)) (listed files)"
  by (simp_all add: scan_story_executions_def list_records_def listed_def scan_fold Let_def)

lemma classified_file_in:
  "rec \<in> set (classified_file pid test f) \<longleftrightarrow> parse_record (fst f) (snd f) = Some rec \<and> er_owner_pid rec = pid \<and> test rec"
  by (auto simp: classified_file_def split: option.split)

lemma classified_in:
  "rec \<in> set (classified pid test fs) \<longleftrightarrow> (\<exists>f \<in> set fs. parse_record (fst f) (snd f) = Some rec \<and> er_owner_pid rec = pid \<and> test rec)"
  by (simp add: classified_def classified_file_in)

definition sweeps :: "process_view \<Rightarrow> string list \<Rightarrow> (string \<Rightarrow> bool) \<Rightarrow> string \<times> pyval option \<Rightarrow> bool" where
  "sweeps w ex uf f \<longleftrightarrow> \<not> keeps_record w ex (parse_record (fst f) (snd f)) \<and> \<not> uf (fst f)"

lemma sweep_file_eq:
  "sweep_file w ex uf f (rm, files) =
     (if sweeps w ex uf f then (rm @ [fst f], filter (\<lambda>g. fst g \<noteq> fst f) files) else (rm, files))"
  by (simp add: sweep_file_def sweeps_def dict_pop_filter)

lemma sweep_fold:
  "fold (sweep_file w ex uf) fs (rm, files) =
     (rm @ map fst (filter (sweeps w ex uf) fs), filter (\<lambda>g. fst g \<notin> fst ` set (filter (sweeps w ex uf) fs)) files)"
  by (induction fs arbitrary: rm files) (auto simp: sweep_file_eq filter_filter intro!: filter_cong)

lemma sweep_eq:
  "sweep_story_executions w False uf ex (Some files) =
     (map fst (filter (sweeps w ex uf) (listed files)),
      Some (filter (\<lambda>g. fst g \<notin> fst ` set (filter (sweeps w ex uf) (listed files))) files))"
  by (simp add: sweep_story_executions_def list_records_def listed_def sweep_fold)

text \<open>With distinct names, what stays is what no file test condemns.\<close>

lemma sweep_files:
  assumes "dict_wf files"
  shows "filter (\<lambda>g. fst g \<notin> fst ` set (filter (sweeps w ex uf) (listed files))) files
    = filter (\<lambda>f. \<not> (suffix ''.json'' (fst f) \<and> sweeps w ex uf f)) files"
proof (rule filter_cong)
  fix f
  assume f: "f \<in> set files"
  have same: "g = f" if "g \<in> set files" "fst g = fst f" for g
    using that f assms by (metis eq_key_imp_eq_value prod.collapse)
  have in_listed: "g \<in> set (listed files) \<longleftrightarrow> g \<in> set files \<and> suffix ''.json'' (fst g)" for g
    by (cases g) (simp add: set_listed)
  have "fst f \<in> fst ` set (filter (sweeps w ex uf) (listed files)) \<longleftrightarrow> (\<exists>g \<in> set (listed files). sweeps w ex uf g \<and> fst g = fst f)"
    unfolding image_iff set_filter by auto
  also have "\<dots> \<longleftrightarrow> suffix ''.json'' (fst f) \<and> sweeps w ex uf f"
    unfolding Bex_def in_listed using same f by blast
  finally show "fst f \<notin> fst ` set (filter (sweeps w ex uf) (listed files)) \<longleftrightarrow> \<not> (suffix ''.json'' (fst f) \<and> sweeps w ex uf f)"
    by simp
qed simp

lemma listed_filter: "listed (filter P files) = filter P (listed files)"
  by (simp add: listed_def filter_sort filter_filter conj_commute)

lemma classified_filter:
  assumes "\<And>n c rec. (n, c) \<in> set fs \<Longrightarrow> parse_record n c = Some rec \<Longrightarrow> er_owner_pid rec = pid \<Longrightarrow> test rec \<Longrightarrow> P (n, c)"
  shows "classified pid test (filter P fs) = classified pid test fs"
  using assms
proof (induction fs)
  case (Cons f fs)
  then have IH: "classified pid test (filter P fs) = classified pid test fs" by simp
  show ?case
  proof (cases "P f")
    case False
    with Cons.prems [of "fst f" "snd f"] have "classified_file pid test f = []"
      by (auto simp: classified_file_def split: option.split)
    with False IH show ?thesis by (simp add: classified_def)
  qed (use IH in \<open>simp add: classified_def\<close>)
qed (simp add: classified_def)

text \<open>The files a scan reports as unreadable.\<close>

definition unreadable :: "(string \<times> pyval option) list \<Rightarrow> (string \<times> pyval option) list" where
  "unreadable fs = filter (\<lambda>(n, c). parse_record n c = None) fs"

definition unreadable_message :: "string \<times> pyval option \<Rightarrow> string" where
  "unreadable_message f = ''story execution record '' @ fst f @ '' is unreadable''"

lemma scan_failures:
  "sc_failures (scan_story_executions w False None None (Some files)) = map unreadable_message (unreadable (listed files))"
proof -
  have "sc_failures (fold (scan_record pid fp) fs s) = sc_failures s @ map unreadable_message (unreadable fs)" for pid fp fs s
  proof (induction fs arbitrary: s)
    case (Cons f fs)
    have "sc_failures (scan_record pid fp f s) = sc_failures s @ map unreadable_message (unreadable [f])"
      by (cases f) (auto simp: scan_record_def unreadable_def unreadable_message_def split: option.split)
    with Cons show ?case by (cases f) (simp add: unreadable_def)
  qed (simp add: unreadable_def)
  then show ?thesis by (simp add: scan_story_executions_def list_records_def listed_def Let_def)
qed

lemma nonempty_str_some: "nonempty_str v = Some s \<Longrightarrow> s \<noteq> []"
  by (cases v) (auto simp: nonempty_str_def split: if_splits)

lemma parsed_slug: "parse_record n c = Some rec \<Longrightarrow> er_slug rec \<noteq> []"
  by (auto simp: parse_record_def dest: nonempty_str_some split: option.splits pyval.splits)

lemma sweep_spares_own:
  assumes "parse_record n c = Some rec" "er_owner_pid rec = pv_pid w"
    and "unsure (current_process_fingerprint w) rec \<or> er_owner_fingerprint rec = current_process_fingerprint w"
  shows "\<not> sweeps w ex uf (n, c)"
  using assms by (auto simp: sweeps_def keeps_record_def unsure_def)

section \<open>Properties\<close>

text \<open>C36. Sweeping never takes this run's ownership away: what the registry says this process owns, and what it
  cannot rule out, is the same after a sweep as before it, in the same order. Of the files a scan reports as
  unreadable a sweep leaves only those it could not remove, so a scan after it reports those and no other: an own record that
  was cut short disappears with its warning. A file it removed was unreadable, or a record of no excluded story and
  not possibly this run's own.\<close>

theorem sweep_keeps_ownership:
  assumes "dict_wf files" and sweep: "sweep_story_executions w False unlink_fails exclude (Some files) = (removed, r')"
  shows "sc_owned (scan_story_executions w False None None r') = sc_owned (scan_story_executions w False None None (Some files))
    \<and> sc_unverifiable (scan_story_executions w False None None r') = sc_unverifiable (scan_story_executions w False None None (Some files))
    \<and> sc_failures (scan_story_executions w False None None (Some files)) = map unreadable_message (unreadable (listed files))
    \<and> sc_failures (scan_story_executions w False None None r')
        = map unreadable_message (filter (\<lambda>(n, c). unlink_fails n) (unreadable (listed files)))
    \<and> list_all (\<lambda>n. \<exists>c. (n, c) \<in> set files \<and> (case parse_record n c of None \<Rightarrow> True
        | Some rec \<Rightarrow> er_slug rec \<notin> set exclude
            \<and> rec \<notin> set (sc_owned (scan_story_executions w False None None (Some files)))
            \<and> rec \<notin> set (sc_unverifiable (scan_story_executions w False None None (Some files))))) removed"
proof -
  let ?P = "\<lambda>f. \<not> (suffix ''.json'' (fst f) \<and> sweeps w exclude unlink_fails f)"
  have s: "r' = Some (filter ?P files)" and rm: "removed = map fst (filter (sweeps w exclude unlink_fails) (listed files))"
    using sweep by (simp_all only: sweep_eq sweep_files [OF assms(1)] prod.inject)
  have own: "classified (pv_pid w) t (listed (filter ?P files)) = classified (pv_pid w) t (listed files)"
    if "\<And>rec. t rec \<Longrightarrow> unsure (current_process_fingerprint w) rec \<or> er_owner_fingerprint rec = current_process_fingerprint w" for t
    unfolding listed_filter by (rule classified_filter) (use sweep_spares_own that in fastforce)
  have "unreadable (filter ?P (listed files)) = filter (\<lambda>(n, c). unlink_fails n) (unreadable (listed files))"
    unfolding unreadable_def filter_filter
    by (rule filter_cong) (auto simp: set_listed sweeps_def keeps_record_def)
  then have "sc_failures (scan_story_executions w False None None r')
      = map unreadable_message (filter (\<lambda>(n, c). unlink_fails n) (unreadable (listed files)))"
    by (simp only: s scan_failures listed_filter)
  moreover have "list_all (\<lambda>n. \<exists>c. (n, c) \<in> set files \<and> (case parse_record n c of None \<Rightarrow> True
        | Some rec \<Rightarrow> er_slug rec \<notin> set exclude
            \<and> rec \<notin> set (sc_owned (scan_story_executions w False None None (Some files)))
            \<and> rec \<notin> set (sc_unverifiable (scan_story_executions w False None None (Some files))))) removed"
    unfolding list_all_iff
  proof
    fix n
    assume "n \<in> set removed"
    then obtain c where c: "(n, c) \<in> set files" "suffix ''.json'' n" "sweeps w exclude unlink_fails (n, c)" by (auto simp: rm set_listed)
    show "\<exists>c. (n, c) \<in> set files \<and> (case parse_record n c of None \<Rightarrow> True
        | Some rec \<Rightarrow> er_slug rec \<notin> set exclude
            \<and> rec \<notin> set (sc_owned (scan_story_executions w False None None (Some files)))
            \<and> rec \<notin> set (sc_unverifiable (scan_story_executions w False None None (Some files))))"
    proof (intro exI [of _ c] conjI c(1))
      show "case parse_record n c of None \<Rightarrow> True
        | Some rec \<Rightarrow> er_slug rec \<notin> set exclude
            \<and> rec \<notin> set (sc_owned (scan_story_executions w False None None (Some files)))
            \<and> rec \<notin> set (sc_unverifiable (scan_story_executions w False None None (Some files)))"
      proof (cases "parse_record n c")
        case (Some rec)
        have "er_slug rec \<notin> set exclude" using c(3) Some parsed_slug [OF Some] by (auto simp: sweeps_def keeps_record_def)
        moreover have "\<not> (er_owner_pid rec = pv_pid w \<and> (unsure (current_process_fingerprint w) rec \<or> er_owner_fingerprint rec = current_process_fingerprint w))"
          using sweep_spares_own [OF Some] c(3) by blast
        ultimately show ?thesis using Some by (auto simp: scan_own classified_in)
      qed simp
    qed
  qed
  moreover have "sc_owned (scan_story_executions w False None None r') = sc_owned (scan_story_executions w False None None (Some files))"
    unfolding s scan_own by (rule own) simp
  moreover have "sc_unverifiable (scan_story_executions w False None None r') = sc_unverifiable (scan_story_executions w False None None (Some files))"
    unfolding s scan_own by (rule own) simp
  ultimately show ?thesis by (intro conjI scan_failures)
qed

definition sample_view :: process_view where
  "sample_view = \<lparr>pv_pid = 7, pv_fingerprint = (\<lambda>p. if p = 7 then Some ''t7'' else if p = 9 then Some ''t9'' else None),
     pv_kill0 = (\<lambda>p. if p = 7 then Delivered else if p = 9 then NotPermitted else NoSuchProcess)\<rparr>"

definition sample_content :: "string \<Rightarrow> int \<Rightarrow> string \<Rightarrow> pyval option" where
  "sample_content slug pid fp = Some (PDict [(''slug'', PStr slug), (''owner_pid'', PInt pid), (''owner_fingerprint'', PStr fp)])"

theorem sweep_keeps_ownership_witness:
  "\<exists>removed r'. sweep_story_executions sample_view False (\<lambda>n. False) []
      (Some [(''7-a.json'', sample_content ''a'' 7 ''t7''), (''7-c.json'', None), (''8-b.json'', sample_content ''b'' 8 ''t8'')]) = (removed, r')
    \<and> map er_slug (sc_owned (scan_story_executions sample_view False None None r')) = [''a'']
    \<and> sc_failures (scan_story_executions sample_view False None None r') = []"
proof -
  let ?files = "[(''7-a.json'', sample_content ''a'' 7 ''t7''), (''7-c.json'', None), (''8-b.json'', sample_content ''b'' 8 ''t8'')]"
  have wf: "dict_wf ?files" by simp
  obtain removed r' where s: "sweep_story_executions sample_view False (\<lambda>n. False) [] (Some ?files) = (removed, r')" by force
  have "map er_slug (sc_owned (scan_story_executions sample_view False None None (Some ?files))) = [''a'']" by code_simp
  with sweep_keeps_ownership [OF wf s] s show ?thesis by simp
qed

lemma record_name_suffix: "suffix ''.json'' (record_name pid slug)"
  unfolding record_name_def by (metis append_assoc suffixI)

definition kept_str :: "string option \<Rightarrow> string option" where
  "kept_str s = (if s = Some [] then None else s)"

lemma nonempty_opt: "nonempty_str (opt_pystr s) = kept_str s"
  by (cases s) (simp_all add: nonempty_str_def opt_pystr_def kept_str_def)

lemma nonempty_PStr: "s \<noteq> [] \<Longrightarrow> nonempty_str (PStr s) = Some s"
  by (simp add: nonempty_str_def)

lemma payload_fields:
  "py_get (execution_payload w slug pid wt run) ''slug'' = PStr slug"
  "py_get (execution_payload w slug pid wt run) ''owner_pid'' = PInt pid"
  "py_get (execution_payload w slug pid wt run) ''owner_fingerprint'' = opt_pystr (current_process_fingerprint w)"
  "py_get (execution_payload w slug pid wt run) ''worktree'' = opt_pystr wt"
  "py_get (execution_payload w slug pid wt run) ''run_id'' = opt_pystr run"
  by (simp_all add: execution_payload_def py_get_def)

lemma parse_payload:
  "slug \<noteq> [] \<Longrightarrow> parse_record n (Some (PDict (execution_payload w slug pid worktree run_id))) =
     Some \<lparr>er_slug = slug, er_owner_pid = pid, er_owner_fingerprint = kept_str (current_process_fingerprint w),
       er_worktree = kept_str worktree, er_run_id = kept_str run_id, er_path = n\<rparr>"
  by (simp add: parse_record_def payload_fields nonempty_opt nonempty_PStr)

text \<open>A registered story is recognised until it is cleared: after a successful registration the scan of the
  same process, whose start time the system reports, owns the story under the name it was written
  to, with its worktree and run id (an empty string counts as absent); and clearing it, when no such
  file was there before, restores the registry.\<close>

theorem register_scan_clear:
  assumes "slug \<noteq> []" "current_process_fingerprint w = Some f" "f \<noteq> []"
    and "register_story_execution w Written slug worktree run_id None r = (Inr name, r')"
  shows "\<lparr>er_slug = slug, er_owner_pid = pv_pid w, er_owner_fingerprint = Some f, er_worktree = kept_str worktree,
      er_run_id = kept_str run_id, er_path = name\<rparr> \<in> set (sc_owned (scan_story_executions w False None None r'))
    \<and> (name \<notin> set (dict_keys (files_of r)) \<longrightarrow> clear_story_execution w (\<lambda>n. False) slug None r' = Some (files_of r))"
    (is "?rec \<in> _ \<and> _")
proof -
  let ?c = "Some (PDict (execution_payload w slug (pv_pid w) worktree run_id))"
  from assms(4) have n: "name = record_name (pv_pid w) slug" and r': "r' = Some (dict_set name ?c (files_of r))"
    by (auto simp: register_story_execution_def Let_def)
  have "dict_get (dict_set name ?c (files_of r)) name = Some ?c" by simp
  then have "(name, ?c) \<in> set (listed (dict_set name ?c (files_of r)))"
    using record_name_suffix [of "pv_pid w" slug] n by (simp add: set_listed map_of_SomeD)
  moreover have "parse_record name ?c = Some ?rec"
    using assms(1-3) by (simp add: parse_payload kept_str_def)
  ultimately have "?rec \<in> set (sc_owned (scan_story_executions w False None None r'))"
    unfolding r' scan_own classified_in using assms(2) by (intro bexI) (auto simp: unsure_def)
  moreover have "clear_story_execution w (\<lambda>n. False) slug None r' = Some (files_of r)" if "name \<notin> set (dict_keys (files_of r))"
    using that n r' by (simp add: clear_story_execution_def dict_pop_set_new)
  ultimately show ?thesis by blast
qed

theorem register_scan_clear_witness:
  "\<exists>name r'. register_story_execution sample_view Written ''a'' None (Some ''run'') None None = (Inr name, r')
     \<and> clear_story_execution sample_view (\<lambda>n. False) ''a'' None r' = Some []"
proof -
  obtain name r' where reg: "register_story_execution sample_view Written ''a'' None (Some ''run'') None None = (Inr name, r')"
    by (simp add: register_story_execution_def Let_def)
  have fp: "current_process_fingerprint sample_view = Some ''t7''" by (simp add: current_process_fingerprint_def sample_view_def)
  from register_scan_clear [OF _ fp _ reg] reg show ?thesis by (auto simp: files_of_def)
qed

text \<open>A failed registration does not disturb the registry's verdicts: when the directory cannot be made or the
  record cannot be written the call raises, and every scan answers as before, also when the
  temporary file is left behind.\<close>

theorem failed_register_changes_no_verdict:
  assumes "io \<noteq> Written" "register_story_execution w io slug worktree run_id owner_pid (Some files) = (res, r')"
    and "dict_wf files" "\<forall>random. temp_name (record_name (case owner_pid of None \<Rightarrow> pv_pid w | Some p \<Rightarrow> p) slug) random \<notin> set (dict_keys files)"
  shows "(\<exists>e. res = Inl e) \<and> scan_story_executions w' False pid fp r' = scan_story_executions w' False pid fp (Some files)"
proof -
  have tmp: "\<not> suffix ''.json'' (temp_name name random)" for name random
    by (auto simp: temp_name_def suffix_def)
  have new: "dict_set k None files = files @ [(k, None)]" if "k \<notin> set (dict_keys files)" for k
    using that by (induction files) auto
  have "filter (\<lambda>(name, c). suffix ''.json'' name) (the r') = filter (\<lambda>(name, c). suffix ''.json'' name) files" "\<exists>fs. r' = Some fs"
    using assms tmp new by (auto simp: register_story_execution_def files_of_def Let_def split: write_outcome.splits option.splits)
  then have "list_records False r' = list_records False (Some files)" by (auto simp: list_records_def)
  then have "scan_story_executions w' False pid fp r' = scan_story_executions w' False pid fp (Some files)"
    by (simp add: scan_story_executions_def)
  moreover have "\<exists>e. res = Inl e" using assms(1,2)
    by (auto simp: register_story_execution_def Let_def split: write_outcome.splits option.splits)
  ultimately show ?thesis by blast
qed

text \<open>Sweeping deletes records it could not read: a record of this very process whose file cannot be read at
  that moment is removed, and with it the only sign that the ownership of its story is unknown.\<close>

theorem sweep_deletes_unreadable_own_record:
  "sc_failures (scan_story_executions sample_view False None None (Some [(record_name 7 ''a'', None)])) \<noteq> []
    \<and> sweep_story_executions sample_view False (\<lambda>n. False) [] (Some [(record_name 7 ''a'', None)]) = ([record_name 7 ''a''], Some [])"
  by (simp add: scan_story_executions_def sweep_eq listed_def list_records_def record_name_suffix scan_record_def
      parse_record_def sweeps_def keeps_record_def Let_def)

text \<open>A live owner under another user is taken for dead: signal 0 is refused for such a process, the refusal is
  read as death, and the sweep removes its record although its start time matches.\<close>

theorem sweep_deletes_record_of_other_user:
  "pv_kill0 sample_view 9 = NotPermitted \<and> pv_fingerprint sample_view 9 = Some ''t9''
    \<and> fst (sweep_story_executions sample_view False (\<lambda>n. False) [] (Some [(record_name 9 ''b'', sample_content ''b'' 9 ''t9'')])) = [record_name 9 ''b'']"
  by (simp add: sweep_eq listed_def record_name_suffix sweeps_def keeps_record_def parse_record_def sample_content_def
      sample_view_def py_get_def nonempty_str_def is_pid_alive_def)

text \<open>Two stories can share a record: slugs that differ only in characters the file name replaces have the same
  record name, so registering the second one drops the ownership of the first.\<close>

theorem slug_records_collide:
  "record_name 7 ''a/b'' = record_name 7 ''a_b''
    \<and> map er_slug (sc_owned (scan_story_executions sample_view False None None
         (snd (register_story_execution sample_view Written ''a_b'' None None None
           (snd (register_story_execution sample_view Written ''a/b'' None None None None)))))) = [''a_b'']"
proof -
  have n: "record_name 7 ''a/b'' = record_name 7 ''a_b''" by (simp add: record_name_def) code_simp
  then show ?thesis
    by (simp add: register_story_execution_def Let_def sample_view_def files_of_def)
       (simp add: scan_own listed_def record_name_suffix classified_def classified_file_def parse_payload unsure_def
          current_process_fingerprint_def kept_str_def)
qed

end
