(* ===== verification/Live_Stories.thy ===== *)
theory Live_Stories
  imports Story_Executions
begin

text \<open>
  Which stories this run still has in flight (\<^verbatim>\<open>sprint/live_stories.py\<close>): agent process groups recorded
  in sidecar files and execution records of the registry, folded into one answer that keeps apart
  what is live, what is not, and what could not be established; waiting for inherited agents and
  reclaiming them.

  What the code asks of the system is an environment: the sidecar directory (file name to the value
  read, or nothing), the registry, the worktree path of a slug, the resolved path of a sandbox, the
  existence of a path (nothing where asking fails), and the probe of a process group (nothing where
  it raises). A path is the list of its components. The text of a caught exception is left out of
  the messages.
\<close>

section \<open>Model\<close>

type_synonym path = "string list"

record liveness_env =
  le_view :: process_view
  le_sidecars :: registry
  le_sidecar_listing_fails :: bool
  le_registry :: registry
  le_registry_listing_fails :: bool
  le_worktree_of :: "string \<Rightarrow> path option"
  le_resolve_sandbox :: "pyval \<Rightarrow> path option"
  le_exists :: "path \<Rightarrow> bool option"
  le_group_alive :: "int \<Rightarrow> bool option"
  le_scan_error :: bool

record inherited_group =
  ig_slug :: string
  ig_pgid :: int
  ig_sidecar :: string

record liveness_resolution =
  lr_live_slugs :: "string set"
  lr_unresolved_slugs :: "string set"
  lr_failures :: "string list"
  lr_registered_slugs :: "string set"

definition resolved :: "liveness_resolution \<Rightarrow> bool" where
  "resolved r \<longleftrightarrow> lr_unresolved_slugs r = {}"

definition deferred_slugs :: "liveness_resolution \<Rightarrow> string set" where
  "deferred_slugs r = lr_live_slugs r \<union> lr_unresolved_slugs r"

definition unresolved_liveness :: "string list \<Rightarrow> string \<Rightarrow> liveness_resolution" where
  "unresolved_liveness slugs reason =
     \<lparr>lr_live_slugs = {}, lr_unresolved_slugs = set (filter (\<lambda>s. s \<noteq> []) slugs), lr_failures = [reason], lr_registered_slugs = {}\<rparr>"

definition agent_sidecars :: "liveness_env \<Rightarrow> (string \<times> pyval option) list \<times> string option" where
  "agent_sidecars e =
     (case le_sidecars e of None \<Rightarrow> ([], None)
      | Some files \<Rightarrow> if le_sidecar_listing_fails e then ([], Some ''agents directory could not be listed'')
                      else (listed files, None))"

text \<open>The sandbox and its parents, from the inside out.\<close>

fun slug_for_sandbox :: "(path, string) dict \<Rightarrow> path \<Rightarrow> nat \<Rightarrow> string option" where
  "slug_for_sandbox index sandbox 0 = dict_get index []"
| "slug_for_sandbox index sandbox (Suc n) =
     (case dict_get index (take (Suc n) sandbox) of Some s \<Rightarrow> Some s | None \<Rightarrow> slug_for_sandbox index sandbox n)"

definition worktree_index :: "liveness_env \<Rightarrow> string list \<Rightarrow> (path, string) dict" where
  "worktree_index e slugs =
     fold (\<lambda>s index. if s = [] then index else (case le_worktree_of e s of None \<Rightarrow> index | Some p \<Rightarrow> dict_set p s index)) slugs []"

type_synonym failure = "string option \<times> string"

definition scan_sidecar :: "liveness_env \<Rightarrow> (path, string) dict \<Rightarrow> int \<Rightarrow> bool \<Rightarrow> string \<times> pyval option
    \<Rightarrow> inherited_group list \<times> failure list \<Rightarrow> inherited_group list \<times> failure list" where
  "scan_sidecar e index my_pid only_live file acc = (case acc of (found, failures) \<Rightarrow>
     (case snd file of
        None \<Rightarrow> (found, failures @ [(None, ''sidecar '' @ fst file @ '' is unreadable'')])
      | Some (PDict d) \<Rightarrow>
          if \<not> py_eq (py_get d ''owner_pid'') (PInt my_pid) then acc
          else (case pid_value (py_get d ''pgid'') of
            None \<Rightarrow> (found, failures @ [(None, ''sidecar '' @ fst file @ '' names no pgid/sandbox'')])
          | Some pgid \<Rightarrow>
              if \<not> py_truthy (py_get d ''sandbox_dir'')
              then (found, failures @ [(None, ''sidecar '' @ fst file @ '' names no pgid/sandbox'')])
              else (case le_resolve_sandbox e (py_get d ''sandbox_dir'') of
                None \<Rightarrow> (found, failures @ [(None, ''sidecar '' @ fst file @ '' sandbox is unresolvable'')])
              | Some sandbox \<Rightarrow>
                  (case slug_for_sandbox index sandbox (length sandbox) of
                     None \<Rightarrow> acc
                   | Some slug \<Rightarrow>
                      (let g = \<lparr>ig_slug = slug, ig_pgid = pgid, ig_sidecar = fst file\<rparr>
                       in if only_live
                          then (case le_group_alive e pgid of
                                  None \<Rightarrow> (found, failures @ [(Some slug, ''liveness probe for pgid '' @ py_str_int pgid @ '' failed'')])
                                | Some alive \<Rightarrow> if alive then (found @ [g], failures) else acc)
                          else (found @ [g], failures)))))
      | Some _ \<Rightarrow> (found, failures @ [(None, ''sidecar '' @ fst file @ '' is not a record'')])))"

definition scan_inherited_agents :: "liveness_env \<Rightarrow> (path, string) dict \<Rightarrow> int option \<Rightarrow> bool \<Rightarrow> inherited_group list \<times> failure list" where
  "scan_inherited_agents e index owner_pid only_live =
     (let (sidecars, listing_failure) = agent_sidecars e;
          my_pid = (case owner_pid of None \<Rightarrow> pv_pid (le_view e) | Some p \<Rightarrow> p)
      in fold (scan_sidecar e index my_pid only_live) sidecars
           ([], case listing_failure of None \<Rightarrow> [] | Some m \<Rightarrow> [(None, m)]))"

definition resolve_inherited_agents :: "liveness_env \<Rightarrow> string list \<Rightarrow> int option \<Rightarrow> bool \<Rightarrow> inherited_group list" where
  "resolve_inherited_agents e slugs owner_pid only_live =
     (let index = worktree_index e slugs
      in if index = [] then [] else fst (scan_inherited_agents e index owner_pid only_live))"

definition existing_worktree_slugs :: "liveness_env \<Rightarrow> (path, string) dict \<Rightarrow> string set" where
  "existing_worktree_slugs e index = set (map snd (filter (\<lambda>(p, s). le_exists e p \<noteq> Some False) index))"

definition scan_executions :: "liveness_env \<Rightarrow> string list \<Rightarrow> int option \<Rightarrow> string set \<times> failure list" where
  "scan_executions e wanted owner_pid =
     (let scan = scan_story_executions (le_view e) (le_registry_listing_fails e) owner_pid None (le_registry e)
      in (set (map er_slug (filter (\<lambda>r. er_slug r \<in> set wanted) (sc_owned scan))),
          map (\<lambda>m. (None, m)) (sc_failures scan)
          @ map (\<lambda>r. (Some (er_slug r), ''story execution record for '' @ er_slug r @ '' carries no comparable process identity''))
                (filter (\<lambda>r. er_slug r \<in> set wanted) (sc_unverifiable scan))))"

definition fold_liveness :: "liveness_env \<Rightarrow> string list \<Rightarrow> (path, string) dict \<Rightarrow> inherited_group list \<Rightarrow> string set \<Rightarrow> failure list
    \<Rightarrow> liveness_resolution" where
  "fold_liveness e wanted index groups registered failures =
     (let live = set (map ig_slug groups) \<union> registered;
          registry_only = registered - set (map ig_slug groups);
          named = set (filter (\<lambda>s. s \<noteq> []) (concat (map (\<lambda>f. case fst f of None \<Rightarrow> [] | Some s \<Rightarrow> [s]) failures)));
          tainted = (if None \<in> set (map fst failures) then existing_worktree_slugs e index \<union> named else named)
      in if failures = []
         then \<lparr>lr_live_slugs = live, lr_unresolved_slugs = {}, lr_failures = [], lr_registered_slugs = registry_only\<rparr>
         else \<lparr>lr_live_slugs = live, lr_unresolved_slugs = (tainted \<inter> set wanted) - live,
               lr_failures = map snd failures, lr_registered_slugs = registry_only\<rparr>)"

definition resolve_liveness :: "liveness_env \<Rightarrow> string list \<Rightarrow> int option \<Rightarrow> bool \<Rightarrow> liveness_resolution" where
  "resolve_liveness e slugs owner_pid include_executions =
     (let wanted = filter (\<lambda>s. s \<noteq> []) slugs
      in if le_scan_error e then unresolved_liveness wanted ''liveness scan failed''
         else (let index = worktree_index e wanted;
                   (groups, failures) = scan_inherited_agents e index owner_pid True;
                   (registered, registry_failures) = (if include_executions then scan_executions e wanted owner_pid else ({}, []))
               in fold_liveness e wanted index groups registered (failures @ registry_failures)))"

definition resolve_live_story_slugs :: "liveness_env \<Rightarrow> string list \<Rightarrow> int option \<Rightarrow> string set" where
  "resolve_live_story_slugs e slugs owner_pid = lr_live_slugs (resolve_liveness e slugs owner_pid True)"

subsection \<open>Waiting and reclaiming\<close>

definition classify_groups :: "liveness_env \<Rightarrow> inherited_group list \<Rightarrow> inherited_group list \<times> inherited_group list \<times> inherited_group list" where
  "classify_groups e groups =
     (filter (\<lambda>g. le_group_alive e (ig_pgid g) = Some True) groups,
      filter (\<lambda>g. le_group_alive e (ig_pgid g) = Some False) groups,
      filter (\<lambda>g. le_group_alive e (ig_pgid g) = None) groups)"

definition discard_records :: "(string \<Rightarrow> bool) \<Rightarrow> inherited_group list \<Rightarrow> registry \<Rightarrow> registry" where
  "discard_records unlink_fails groups d =
     fold (\<lambda>g d. if unlink_fails (ig_sidecar g) then d else map_option (dict_pop (ig_sidecar g)) d) groups d"

text \<open>
  One turn of the waiting loop sees one environment, the stop flag and the time left; the wait ends
  with its answer and the sidecars it discards, or goes on to the next turn. Running out of turns is
  the wait not having returned yet.
\<close>

record wait_turn =
  wt_env :: liveness_env
  wt_stopped :: bool
  wt_remaining :: rat

fun await_inherited_agents :: "string \<Rightarrow> int option \<Rightarrow> wait_turn list \<Rightarrow> (bool \<times> inherited_group list) option" where
  "await_inherited_agents slug owner_pid [] = None"
| "await_inherited_agents slug owner_pid (t # ts) =
     (let e = wt_env t; resolution = resolve_liveness e [slug] owner_pid False
      in if slug \<notin> deferred_slugs resolution then Some (True, resolve_inherited_agents e [slug] owner_pid False)
         else if wt_stopped t then Some (False, [])
         else if wt_remaining t \<le> 0 then Some (False, [])
         else await_inherited_agents slug owner_pid ts)"

definition reclaim_inherited_agents :: "liveness_env \<Rightarrow> (int \<Rightarrow> bool) \<Rightarrow> string \<Rightarrow> int option \<Rightarrow> int list \<times> inherited_group list" where
  "reclaim_inherited_agents e kill_group slug owner_pid =
     (let groups = resolve_inherited_agents e [slug] owner_pid False;
          (live, settled, unresolved) = classify_groups e groups;
          killed = filter (\<lambda>g. kill_group (ig_pgid g)) (live @ unresolved)
      in (map ig_pgid killed, settled @ killed))"

section \<open>What a scan establishes\<close>

text \<open>What one sidecar adds, apart from the accumulator.\<close>

definition sidecar_outcome :: "liveness_env \<Rightarrow> (path, string) dict \<Rightarrow> int \<Rightarrow> bool \<Rightarrow> string \<times> pyval option \<Rightarrow> inherited_group list \<times> failure list" where
  "sidecar_outcome e index my_pid only_live file = scan_sidecar e index my_pid only_live file ([], [])"

lemma scan_sidecar_outcome:
  "scan_sidecar e index my_pid ol file (found, failures) =
     (found @ fst (sidecar_outcome e index my_pid ol file), failures @ snd (sidecar_outcome e index my_pid ol file))"
  by (simp add: sidecar_outcome_def scan_sidecar_def Let_def split: option.split pyval.split)

lemma scan_sidecars:
  "fold (scan_sidecar e index my_pid ol) files (found, failures) =
     (found @ concat (map (\<lambda>f. fst (sidecar_outcome e index my_pid ol f)) files),
      failures @ concat (map (\<lambda>f. snd (sidecar_outcome e index my_pid ol f)) files))"
  by (induction files arbitrary: found failures) (simp_all add: scan_sidecar_outcome)

text \<open>A sidecar that does not rule out a running agent of this process in the story's worktree.\<close>

definition group_may_run :: "liveness_env \<Rightarrow> (path, string) dict \<Rightarrow> int \<Rightarrow> string \<Rightarrow> string \<times> pyval option \<Rightarrow> bool" where
  "group_may_run e index my_pid slug file \<longleftrightarrow>
     (case snd file of
        Some (PDict d) \<Rightarrow> py_eq (py_get d ''owner_pid'') (PInt my_pid) \<and>
          (case (pid_value (py_get d ''pgid''), le_resolve_sandbox e (py_get d ''sandbox_dir'')) of
             (Some pgid, Some sandbox) \<Rightarrow> \<not> py_truthy (py_get d ''sandbox_dir'')
               \<or> slug_for_sandbox index sandbox (length sandbox) = Some slug \<and> le_group_alive e pgid \<noteq> Some False
           | _ \<Rightarrow> True)
      | _ \<Rightarrow> True)"

lemma outcome_of_running:
  assumes "group_may_run e index my_pid slug file"
  shows "(\<exists>g \<in> set (fst (sidecar_outcome e index my_pid True file)). ig_slug g = slug)
    \<or> (\<exists>f \<in> set (snd (sidecar_outcome e index my_pid True file)). fst f = None \<or> fst f = Some slug)"
  using assms
  by (auto simp: group_may_run_def sidecar_outcome_def scan_sidecar_def Let_def split: option.splits pyval.splits if_splits)

text \<open>A sidecar that was read and names a group of this process in the story's worktree that is not known to be dead.\<close>

definition group_named :: "liveness_env \<Rightarrow> (path, string) dict \<Rightarrow> int \<Rightarrow> string \<Rightarrow> string \<times> pyval option \<Rightarrow> bool" where
  "group_named e index my_pid slug file \<longleftrightarrow>
     (case snd file of
        Some (PDict d) \<Rightarrow> py_eq (py_get d ''owner_pid'') (PInt my_pid) \<and> py_truthy (py_get d ''sandbox_dir'') \<and>
          (case (pid_value (py_get d ''pgid''), le_resolve_sandbox e (py_get d ''sandbox_dir'')) of
             (Some pgid, Some sandbox) \<Rightarrow> slug_for_sandbox index sandbox (length sandbox) = Some slug \<and> le_group_alive e pgid \<noteq> Some False
           | _ \<Rightarrow> False)
      | _ \<Rightarrow> False)"

lemma outcome_of_named:
  assumes "group_named e index my_pid slug file"
  shows "(\<exists>g \<in> set (fst (sidecar_outcome e index my_pid True file)). ig_slug g = slug)
    \<or> (\<exists>f \<in> set (snd (sidecar_outcome e index my_pid True file)). fst f = Some slug)"
  using assms
  by (auto simp: group_named_def sidecar_outcome_def scan_sidecar_def Let_def split: option.splits pyval.splits if_splits)

lemma deferred_by_group:
  "slug \<in> set (map ig_slug groups) \<or> slug \<in> registered \<Longrightarrow> slug \<in> deferred_slugs (fold_liveness e wanted index groups registered failures)"
  by (auto simp: fold_liveness_def deferred_slugs_def Let_def)

lemma deferred_by_failure:
  assumes "slug \<in> set wanted" "slug \<noteq> []" "f \<in> set failures"
    and "fst f = Some slug \<or> fst f = None \<and> slug \<in> existing_worktree_slugs e index"
  shows "slug \<in> deferred_slugs (fold_liveness e wanted index groups registered failures)"
proof -
  have "failures \<noteq> []" using assms(3) by auto
  moreover have "slug \<in> set (concat (map (\<lambda>f. case fst f of None \<Rightarrow> [] | Some s \<Rightarrow> [s]) failures))" if "fst f = Some slug"
    using that assms(3) by force
  moreover have "None \<in> set (map fst failures)" if "fst f = None" using that assms(3) by force
  ultimately show ?thesis using assms(1,2,4) by (auto simp: fold_liveness_def deferred_slugs_def Let_def)
qed

text \<open>A group found when liveness is not asked for is found, or its probe reported, when it is.\<close>

lemma outcome_probe:
  assumes "g \<in> set (fst (sidecar_outcome e index my_pid False file))" "le_group_alive e (ig_pgid g) \<noteq> Some False"
  shows "g \<in> set (fst (sidecar_outcome e index my_pid True file))
    \<or> (\<exists>f \<in> set (snd (sidecar_outcome e index my_pid True file)). fst f = Some (ig_slug g))"
  using assms
  by (auto simp: sidecar_outcome_def scan_sidecar_def Let_def split: option.splits pyval.splits if_splits)

lemma slug_for_sandbox_in: "slug_for_sandbox index sandbox n = Some s \<Longrightarrow> s \<in> set (map snd index)"
  by (induction index sandbox n rule: slug_for_sandbox.induct)
     (force dest: map_of_SomeD split: option.splits)+

lemma outcome_slug: "g \<in> set (fst (sidecar_outcome e index my_pid ol file)) \<Longrightarrow> ig_slug g \<in> set (map snd index)"
  by (auto simp: sidecar_outcome_def scan_sidecar_def Let_def dest!: slug_for_sandbox_in split: option.splits pyval.splits if_splits)

lemma worktree_index_single: "s \<in> set (map snd (worktree_index e [slug])) \<Longrightarrow> s = slug"
  by (auto simp: worktree_index_def split: option.splits if_splits)

lemma inherited_groups:
  assumes "g \<in> set (resolve_inherited_agents e [slug] owner_pid False)"
  shows "ig_slug g = slug \<and> (\<exists>sc \<in> set (fst (agent_sidecars e)).
      g \<in> set (fst (sidecar_outcome e (worktree_index e [slug]) (case owner_pid of None \<Rightarrow> pv_pid (le_view e) | Some p \<Rightarrow> p) False sc)))"
proof -
  from assms obtain sc where sc: "sc \<in> set (fst (agent_sidecars e))"
    "g \<in> set (fst (sidecar_outcome e (worktree_index e [slug]) (case owner_pid of None \<Rightarrow> pv_pid (le_view e) | Some p \<Rightarrow> p) False sc))"
    by (auto simp: resolve_inherited_agents_def scan_inherited_agents_def scan_sidecars Let_def split: prod.splits if_splits)
  with worktree_index_single [OF outcome_slug [OF sc(2)]] show ?thesis by blast
qed

lemma settled_groups:
  assumes "slug \<noteq> []" "slug \<notin> deferred_slugs (resolve_liveness e [slug] owner_pid False)"
    and "g \<in> set (resolve_inherited_agents e [slug] owner_pid False)"
  shows "le_group_alive e (ig_pgid g) = Some False"
proof (rule ccontr)
  assume alive: "le_group_alive e (ig_pgid g) \<noteq> Some False"
  let ?index = "worktree_index e [slug]" and ?pid = "case owner_pid of None \<Rightarrow> pv_pid (le_view e) | Some p \<Rightarrow> p"
  from inherited_groups [OF assms(3)] obtain sc where g: "ig_slug g = slug" "sc \<in> set (fst (agent_sidecars e))"
    "g \<in> set (fst (sidecar_outcome e ?index ?pid False sc))" by blast
  obtain groups failures where scan: "scan_inherited_agents e ?index owner_pid True = (groups, failures)" by force
  have incl: "set (fst (sidecar_outcome e ?index ?pid True sc)) \<subseteq> set groups" "set (snd (sidecar_outcome e ?index ?pid True sc)) \<subseteq> set failures"
    using g(2) scan by (auto simp: scan_inherited_agents_def scan_sidecars Let_def split: prod.splits)
  have res: "le_scan_error e \<or> resolve_liveness e [slug] owner_pid False = fold_liveness e [slug] ?index groups {} failures"
    using assms(1) scan by (simp add: resolve_liveness_def Let_def)
  from outcome_probe [OF g(3) alive] have "slug \<in> deferred_slugs (fold_liveness e [slug] ?index groups {} failures)"
  proof
    assume "g \<in> set (fst (sidecar_outcome e ?index ?pid True sc))"
    with incl g(1) show ?thesis by (intro deferred_by_group) auto
  next
    assume "\<exists>f \<in> set (snd (sidecar_outcome e ?index ?pid True sc)). fst f = Some (ig_slug g)"
    with incl g(1) assms(1) show ?thesis by (auto intro: deferred_by_failure)
  qed
  with res assms(1,2) show False
    by (auto simp: resolve_liveness_def unresolved_liveness_def deferred_slugs_def split: if_splits)
qed

section \<open>Properties\<close>

text \<open>C12. Fail-closed liveness. A story is left out of the deferred ones only when the scan itself went through, no sidecar that could be
  read names a group of this process in its worktree that is not known to be dead, and the registry
  holds no readable record by which this process owns the story or might. For a story whose worktree may exist, also
  nothing unreadable is tolerated: both directories were listed, every sidecar was read and rules out a running agent, and every
  record of the registry was read. A story without a worktree is not deferred for what could not be read.\<close>

theorem not_deferred_means_not_running:
  assumes "slug \<in> set slugs" "slug \<noteq> []" "slug \<notin> deferred_slugs (resolve_liveness e slugs owner_pid True)"
    and "index = worktree_index e (filter (\<lambda>s. s \<noteq> []) slugs)"
    and "scan = scan_story_executions (le_view e) (le_registry_listing_fails e) owner_pid None (le_registry e)"
    and "agent_sidecars e = (sidecars, listing_failure)"
    and pid: "my_pid = (case owner_pid of None \<Rightarrow> pv_pid (le_view e) | Some p \<Rightarrow> p)"
  shows "\<not> le_scan_error e \<and> list_all (\<lambda>file. \<not> group_named e index my_pid slug file) sidecars
    \<and> slug \<notin> er_slug ` set (sc_owned scan @ sc_unverifiable scan)
    \<and> (slug \<in> existing_worktree_slugs e index \<longrightarrow> listing_failure = None \<and> sc_failures scan = []
         \<and> list_all (\<lambda>file. \<not> group_may_run e index my_pid slug file) sidecars)"
proof -
  let ?wanted = "filter (\<lambda>s. s \<noteq> []) slugs" and ?pid = my_pid
  have w: "slug \<in> set ?wanted" using assms(1,2) by simp
  have err: "\<not> le_scan_error e" using assms(3) w
    by (auto simp: resolve_liveness_def unresolved_liveness_def deferred_slugs_def)
  define groups where "groups = concat (map (\<lambda>f. fst (sidecar_outcome e index ?pid True f)) sidecars)"
  define failures where "failures = (case listing_failure of None \<Rightarrow> [] | Some m \<Rightarrow> [(None, m)])
     @ concat (map (\<lambda>f. snd (sidecar_outcome e index ?pid True f)) sidecars)"
  define registered where "registered = set (map er_slug (filter (\<lambda>r. er_slug r \<in> set ?wanted) (sc_owned scan)))"
  define rfail where "rfail = map (\<lambda>m. (None, m)) (sc_failures scan)
     @ map (\<lambda>r. (Some (er_slug r), ''story execution record for '' @ er_slug r @ '' carries no comparable process identity''))
           (filter (\<lambda>r. er_slug r \<in> set ?wanted) (sc_unverifiable scan))"
  have res: "resolve_liveness e slugs owner_pid True = fold_liveness e ?wanted index groups registered (failures @ rfail)"
    by (simp add: resolve_liveness_def err scan_inherited_agents_def assms(4-6) pid scan_sidecars Let_def scan_executions_def
        groups_def failures_def registered_def rfail_def)
  note nd = assms(3) [unfolded res]
  have named: "fst f \<noteq> Some slug" if "f \<in> set (failures @ rfail)" for f
    using deferred_by_failure [OF w assms(2) that, of e index groups registered] nd by metis
  have unread: "fst f \<noteq> None" if "f \<in> set (failures @ rfail)" "slug \<in> existing_worktree_slugs e index" for f
    using deferred_by_failure [OF w assms(2) that(1), of e index groups registered] nd that(2) by metis
  have ng: "slug \<notin> set (map ig_slug groups)" "slug \<notin> registered" using deferred_by_group nd by blast+
  have sound: "set (fst (sidecar_outcome e index ?pid True sc)) \<subseteq> set groups"
      "set (snd (sidecar_outcome e index ?pid True sc)) \<subseteq> set (failures @ rfail)" if "sc \<in> set sidecars" for sc
    using that by (auto simp: groups_def failures_def)
  have "\<not> group_named e index ?pid slug sc" if "sc \<in> set sidecars" for sc
    using outcome_of_named [of e index ?pid slug sc] sound [OF that] ng(1) named by fastforce
  moreover have "\<not> group_may_run e index ?pid slug sc" if "sc \<in> set sidecars" "slug \<in> existing_worktree_slugs e index" for sc
    using outcome_of_running [of e index ?pid slug sc] sound [OF that(1)] ng(1) named unread [OF _ that(2)] by fastforce
  moreover have "listing_failure = None" if "slug \<in> existing_worktree_slugs e index"
    using unread [OF _ that, of "(None, the listing_failure)"] unfolding failures_def by (cases listing_failure) auto
  moreover have "sc_failures scan = []" if "slug \<in> existing_worktree_slugs e index"
    using unread [OF _ that, of "(None, hd (sc_failures scan))"] unfolding rfail_def by (cases "sc_failures scan") auto
  moreover have "slug \<notin> er_slug ` set (sc_owned scan)" using ng(2) w unfolding registered_def by auto
  moreover have "slug \<notin> er_slug ` set (sc_unverifiable scan)"
  proof
    assume "slug \<in> er_slug ` set (sc_unverifiable scan)"
    then obtain r where r: "r \<in> set (filter (\<lambda>r. er_slug r \<in> set ?wanted) (sc_unverifiable scan))" "er_slug r = slug"
      using w by auto
    then obtain m where "(Some slug, m) \<in> set (failures @ rfail)" unfolding rfail_def by fastforce
    with named show False by force
  qed
  ultimately show ?thesis using err by (auto simp: list_all_iff)
qed

text \<open>An environment with one dead group recorded for a story and another story's record in the registry.\<close>

definition idle_env :: liveness_env where
  "idle_env = \<lparr>le_view = sample_view,
     le_sidecars = Some [(''7-5.json'', Some (PDict [(''owner_pid'', PInt 7), (''pgid'', PInt 5), (''sandbox_dir'', PStr ''a'')]))],
     le_sidecar_listing_fails = False, le_registry = Some [(''7-b.json'', sample_content ''b'' 7 ''t7'')],
     le_registry_listing_fails = False, le_worktree_of = (\<lambda>s. Some [s]),
     le_resolve_sandbox = (\<lambda>v. case v of PStr s \<Rightarrow> Some [s] | _ \<Rightarrow> None),
     le_exists = (\<lambda>p. Some True), le_group_alive = (\<lambda>g. Some False), le_scan_error = False\<rparr>"

theorem not_deferred_means_not_running_witness:
  "list_all (\<lambda>file. \<not> group_may_run idle_env (worktree_index idle_env [''a'']) 7 ''a'' file) (fst (agent_sidecars idle_env))
    \<and> ''a'' \<notin> er_slug ` set (sc_owned (scan_story_executions sample_view False None None (le_registry idle_env))
      @ sc_unverifiable (scan_story_executions sample_view False None None (le_registry idle_env)))"
proof -
  have nd: "''a'' \<notin> deferred_slugs (resolve_liveness idle_env [''a''] None True)" by code_simp
  have ex: "''a'' \<in> existing_worktree_slugs idle_env (worktree_index idle_env (filter (\<lambda>s. s \<noteq> []) [''a'']))" by code_simp
  have v: "le_view idle_env = sample_view" "le_registry_listing_fails idle_env = False" "pv_pid sample_view = 7"
    by (simp_all add: idle_env_def sample_view_def)
  from not_deferred_means_not_running [OF _ _ nd refl refl prod.collapse [symmetric] refl] ex show ?thesis by (simp add: v)
qed

text \<open>A wait for inherited agents that succeeds saw the story idle: in the turn where it returned True the story
  was not deferred, and every sidecar it discards belongs to a group the probe reported dead in that
  turn; a wait that fails discards nothing.\<close>

theorem await_discards_only_dead_groups:
  assumes "slug \<noteq> []" "await_inherited_agents slug owner_pid turns = Some (ok, discarded)"
  shows "if ok then \<exists>t \<in> set turns. slug \<notin> deferred_slugs (resolve_liveness (wt_env t) [slug] owner_pid False)
           \<and> list_all (\<lambda>g. le_group_alive (wt_env t) (ig_pgid g) = Some False) discarded
         else discarded = []"
  using assms(2)
proof (induction turns)
  case (Cons t turns)
  show ?case
  proof (cases "slug \<notin> deferred_slugs (resolve_liveness (wt_env t) [slug] owner_pid False)")
    case True
    with Cons.prems have "ok" "discarded = resolve_inherited_agents (wt_env t) [slug] owner_pid False" by (simp_all add: Let_def)
    with True settled_groups [OF assms(1) True] show ?thesis by (auto simp: list_all_iff)
  next
    case False
    with Cons show ?thesis by (auto simp: Let_def split: if_splits)
  qed
qed simp

theorem await_discards_only_dead_groups_witness:
  "\<exists>discarded. await_inherited_agents ''a'' None [\<lparr>wt_env = idle_env, wt_stopped = False, wt_remaining = 1\<rparr>] = Some (True, discarded)
     \<and> list_all (\<lambda>g. le_group_alive idle_env (ig_pgid g) = Some False) discarded \<and> discarded \<noteq> []"
proof -
  have e: "await_inherited_agents ''a'' None [\<lparr>wt_env = idle_env, wt_stopped = False, wt_remaining = 1\<rparr>]
      = Some (True, [\<lparr>ig_slug = ''a'', ig_pgid = 5, ig_sidecar = ''7-5.json''\<rparr>])" by code_simp
  from await_discards_only_dead_groups [OF _ e] e show ?thesis by auto
qed

text \<open>Reclaiming never forgets a group that may still run: each sidecar it discards is of a group the probe
  reported dead or the kill reported gone, and every group of the story that was neither keeps its
  sidecar.\<close>

theorem reclaim_keeps_survivors:
  assumes "g \<in> set (resolve_inherited_agents e [slug] owner_pid False)"
  shows "g \<in> set (snd (reclaim_inherited_agents e kill_group slug owner_pid)) \<longleftrightarrow>
    le_group_alive e (ig_pgid g) = Some False \<or> kill_group (ig_pgid g)"
  using assms by (cases "le_group_alive e (ig_pgid g)") (auto simp: reclaim_inherited_agents_def classify_groups_def Let_def)

theorem reclaim_keeps_survivors_witness:
  "\<lparr>ig_slug = ''a'', ig_pgid = 5, ig_sidecar = ''7-5.json''\<rparr> \<in> set (snd (reclaim_inherited_agents idle_env (\<lambda>g. False) ''a'' None))"
proof -
  have "\<lparr>ig_slug = ''a'', ig_pgid = 5, ig_sidecar = ''7-5.json''\<rparr> \<in> set (resolve_inherited_agents idle_env [''a''] None False)" by code_simp
  from reclaim_keeps_survivors [OF this, of "\<lambda>g. False"] show ?thesis by (simp add: idle_env_def)
qed

end
