(* ===== verification/Review_Schema.thy ===== *)
theory Review_Schema
  imports Py_Json
begin

text \<open>
  Mechanical validation of what agents hand in (\<^verbatim>\<open>schemas.py\<close>): the repair and the validation of a
  review, and the validation of a dev handoff. The validators return the list of errors in the order
  in which the code appends them; an empty list accepts the document. The dash U+2014 in the messages
  is written as two hyphens, and \<open>fr\<close> is the \<^verbatim>\<open>repr\<close> of a float.
\<close>

section \<open>Reviews\<close>

record parse_error =
  pe_stage :: string
  pe_message :: string

definition valid_verdicts :: "string list" where
  "valid_verdicts = [''APPROVE'', ''REQUEST_CHANGES'']"

definition valid_severities :: "string list" where
  "valid_severities = [''P1'', ''P2'']"

definition valid_ac_verification_statuses :: "string list" where
  "valid_ac_verification_statuses = [''VERIFIED'', ''PARTIAL'', ''NOT_VERIFIED'']"

definition schema_error :: "string \<Rightarrow> parse_error" where
  "schema_error msg = \<lparr>pe_stage = ''SCHEMA_VALIDATION'', pe_message = msg\<rparr>"

definition cross_error :: "string \<Rightarrow> parse_error" where
  "cross_error msg = \<lparr>pe_stage = ''CONTRACT_CROSS_VALIDATION'', pe_message = msg\<rparr>"

text \<open>The \<^verbatim>\<open>repr\<close> of a tuple of strings, and \<^verbatim>\<open>isinstance(v, str) and v.strip()\<close>.\<close>

definition tuple_repr :: "string list \<Rightarrow> string" where
  "tuple_repr xs = ''('' @ py_join '', '' (map repr_string xs) @ '')''"

fun non_empty_string :: "pyval \<Rightarrow> bool" where
  "non_empty_string (PStr s) = (py_strip s \<noteq> [])"
| "non_empty_string _ = False"

definition one_of :: "pyval \<Rightarrow> string list \<Rightarrow> bool" where
  "one_of v xs = (v \<in> PStr ` set xs)"

definition indexed :: "string \<Rightarrow> nat \<Rightarrow> string" where
  "indexed name i = name @ ''['' @ show_nat i @ '']''"

definition py_or :: "pyval \<Rightarrow> pyval \<Rightarrow> pyval" where
  "py_or v w = (if py_truthy v then v else w)"

subsection \<open>Repair\<close>

definition repair_findings :: "pydict \<Rightarrow> pydict" where
  "repair_findings d =
     (case py_get d ''findings'' of
        PStr s \<Rightarrow> dict_set ''findings'' (PList []) d
      | PNone \<Rightarrow> dict_set ''findings'' (PList []) d
      | _ \<Rightarrow> d)"

definition repair_compliance :: "pydict \<Rightarrow> pydict" where
  "repair_compliance d =
     (if ''story_compliance'' \<notin> set (dict_keys d) \<and> ''spec_compliance'' \<notin> set (dict_keys d)
      then dict_set ''story_compliance''
             (PDict [(''matches_spec'', PBool (py_get d ''verdict'' = PStr ''APPROVE'')), (''mismatches'', PList [])]) d
      else d)"

definition repair_coverage :: "pydict \<Rightarrow> pydict" where
  "repair_coverage d =
     (if ''test_coverage'' \<notin> set (dict_keys d)
      then dict_set ''test_coverage'' (PDict [(''adequate'', PBool True), (''gaps'', PList [])]) d
      else d)"

definition repair_ac_verification :: "pydict \<Rightarrow> pydict" where
  "repair_ac_verification d =
     (case py_get d ''ac_verification'' of
        PList xs \<Rightarrow> d
      | _ \<Rightarrow> dict_set ''ac_verification'' (PList []) d)"

definition repair_review_yaml :: "pydict \<Rightarrow> pydict" where
  "repair_review_yaml d = repair_ac_verification (repair_coverage (repair_compliance (repair_findings d)))"

subsection \<open>Validation\<close>

fun is_p1 :: "pyval \<Rightarrow> bool" where
  "is_p1 (PDict f) = (py_get f ''severity'' = PStr ''P1'')"
| "is_p1 _ = False"

definition prose_errors :: "nat \<Rightarrow> pydict \<Rightarrow> parse_error list" where
  "prose_errors i f =
     map (\<lambda>k. schema_error (indexed ''findings'' i @ ''.'' @ k @ '' must be a non-empty string''))
       (filter (\<lambda>k. \<not> non_empty_string (py_get f k)) [''observed'', ''expected'', ''evidence''])"

fun finding_errors :: "(rat \<Rightarrow> string) \<Rightarrow> nat \<times> pyval \<Rightarrow> parse_error list" where
  "finding_errors fr (i, PDict f) =
     (let severity = py_get f ''severity''; file_val = py_get f ''file''
      in (if \<not> one_of severity valid_severities
          then [schema_error (indexed ''findings'' i @ ''.severity must be one of '' @ tuple_repr valid_severities
                  @ '', got: '' @ py_repr fr severity)] else [])
       @ (if severity = PStr ''P1'' \<and> file_val \<noteq> PNone \<and> \<not> py_truthy file_val
          then [schema_error (indexed ''findings'' i @ ''.file must be non-empty for P1 findings'')] else [])
       @ prose_errors i f)"
| "finding_errors fr (i, _) = [schema_error (indexed ''findings'' i @ '' must be a mapping'')]"

text \<open>The list a section is read as, and the error when it is no list; a missing section is empty.\<close>

fun list_section :: "string \<Rightarrow> pyval \<Rightarrow> pyval list \<times> parse_error list" where
  "list_section name PNone = ([], [])"
| "list_section name (PList xs) = (xs, [])"
| "list_section name _ = ([], [schema_error (name @ '' must be a list'')])"

fun mapping_section :: "string \<Rightarrow> string \<Rightarrow> pyval \<Rightarrow> parse_error list" where
  "mapping_section name key PNone = [schema_error (name @ '' section is required'')]"
| "mapping_section name key (PDict m) =
     (if key \<notin> set (dict_keys m) then [schema_error (name @ ''.'' @ key @ '' is required (true/false)'')] else [])"
| "mapping_section name key _ = [schema_error (name @ '' must be a mapping'')]"

fun ac_entry_errors :: "(rat \<Rightarrow> string) \<Rightarrow> nat \<times> pyval \<Rightarrow> parse_error list" where
  "ac_entry_errors fr (i, PDict e) =
     (if \<not> non_empty_string (py_get e ''criterion'')
      then [schema_error (indexed ''ac_verification'' i @ ''.criterion must be a non-empty string'')] else [])
     @ (if \<not> one_of (py_get e ''status'') valid_ac_verification_statuses
        then [schema_error (indexed ''ac_verification'' i @ ''.status must be one of ''
                @ tuple_repr valid_ac_verification_statuses @ '', got: '' @ py_repr fr (py_get e ''status''))] else [])
     @ (if \<not> non_empty_string (py_get e ''evidence'')
        then [schema_error (indexed ''ac_verification'' i @ ''.evidence must be a non-empty string ''
                @ ''(diff hunks + test pointers for VERIFIED, reason otherwise)'')] else [])"
| "ac_entry_errors fr (i, _) = [schema_error (indexed ''ac_verification'' i @ '' must be a mapping'')]"

fun is_non_verified :: "pyval \<Rightarrow> bool" where
  "is_non_verified (PDict e) = one_of (py_get e ''status'') [''PARTIAL'', ''NOT_VERIFIED'']"
| "is_non_verified _ = False"

text \<open>The escape valve: the flag with its default, and the rationale, each with the error it raises.\<close>

definition criteria_flag :: "pydict \<Rightarrow> bool \<times> parse_error list" where
  "criteria_flag d =
     (case dict_get d ''criteria_enumerable'' of
        None \<Rightarrow> (True, [])
      | Some (PBool b) \<Rightarrow> (b, [])
      | Some _ \<Rightarrow> (True, [schema_error ''criteria_enumerable must be a boolean when provided (true/false)'']))"

fun rationale_of :: "pyval \<Rightarrow> pyval \<times> parse_error list" where
  "rationale_of PNone = (PNone, [])"
| "rationale_of (PStr s) = (PStr s, [])"
| "rationale_of _ = (PNone, [schema_error ''criteria_enumerable_rationale must be a string when provided''])"

definition approval_errors :: "pyval list \<Rightarrow> bool \<Rightarrow> pyval \<Rightarrow> parse_error list" where
  "approval_errors ac_v criteria_enumerable rationale =
     (let non_verified_count = length (filter is_non_verified ac_v)
      in if ac_v = []
         then (if \<not> criteria_enumerable
               then (if \<not> non_empty_string rationale
                     then [cross_error (''verdict is APPROVE with criteria_enumerable: false but ''
                             @ ''criteria_enumerable_rationale is empty -- the reviewer must ''
                             @ ''state why the issue has no enumerable acceptance criteria'')]
                     else [])
               else [cross_error (''verdict is APPROVE but ac_verification is empty -- ''
                       @ ''reviewers must enumerate each acceptance criterion (or symptom for bugs) ''
                       @ ''and mark it VERIFIED with evidence pointers, or set ''
                       @ ''criteria_enumerable: false with a rationale if the issue has none'')])
         else if non_verified_count > 0
         then [cross_error (''verdict is APPROVE but '' @ show_nat non_verified_count @ '' ac_verification entry(ies) ''
                 @ ''are PARTIAL or NOT_VERIFIED -- cannot approve when any acceptance ''
                 @ ''criterion is unverified'')]
         else [])"

definition verdict_vs_findings :: "pyval \<Rightarrow> nat \<Rightarrow> parse_error list" where
  "verdict_vs_findings verdict p1_count =
     (if verdict = PStr ''APPROVE'' \<and> p1_count > 0
      then [cross_error (''verdict is APPROVE but '' @ show_nat p1_count @ '' P1 finding(s) exist -- ''
              @ ''cannot approve with blocking findings'')] else [])
     @ (if verdict = PStr ''REQUEST_CHANGES'' \<and> p1_count = 0
        then [cross_error (''verdict is REQUEST_CHANGES but no P1 findings exist -- ''
                @ ''must have at least one P1 to justify REQUEST_CHANGES'')] else [])"

definition validate_review_yaml :: "(rat \<Rightarrow> string) \<Rightarrow> pydict \<Rightarrow> parse_error list" where
  "validate_review_yaml fr d =
     (let verdict = py_get d ''verdict'';
          (findings, findings_errors) = list_section ''findings'' (py_get d ''findings'');
          (ac_v, ac_errors) = list_section ''ac_verification'' (py_get d ''ac_verification'');
          (criteria_enumerable, flag_errors) = criteria_flag d;
          (rationale, rationale_errors) = rationale_of (py_get d ''criteria_enumerable_rationale'')
      in (if \<not> one_of verdict valid_verdicts
          then [schema_error (''verdict must be one of '' @ tuple_repr valid_verdicts @ '', got: '' @ py_repr fr verdict)]
          else [])
       @ (if \<not> non_empty_string (py_get d ''summary'') then [schema_error ''summary must be a non-empty string''] else [])
       @ findings_errors
       @ concat (map (finding_errors fr) (enumerate 0 findings))
       @ verdict_vs_findings verdict (length (filter is_p1 findings))
       @ mapping_section ''story_compliance'' ''matches_spec''
           (py_or (py_get d ''story_compliance'') (py_get d ''spec_compliance''))
       @ mapping_section ''test_coverage'' ''adequate'' (py_get d ''test_coverage'')
       @ ac_errors
       @ concat (map (ac_entry_errors fr) (enumerate 0 ac_v))
       @ flag_errors
       @ rationale_errors
       @ (if verdict = PStr ''APPROVE'' then approval_errors ac_v criteria_enumerable rationale else []))"

text \<open>A document whose root is no mapping is rejected before any section is read.\<close>

fun validate_review_root :: "(rat \<Rightarrow> string) \<Rightarrow> pyval \<Rightarrow> parse_error list" where
  "validate_review_root fr (PDict d) = validate_review_yaml fr d"
| "validate_review_root fr _ = [\<lparr>pe_stage = ''STRUCTURE'', pe_message = ''review output root must be a YAML mapping''\<rparr>]"

section \<open>Dev handoffs\<close>

definition valid_ac_statuses :: "string list" where
  "valid_ac_statuses = [''MET'', ''PARTIAL'', ''NOT_MET'']"

definition valid_gate_results :: "string list" where
  "valid_gate_results = [''PASS'', ''FAIL'', ''BLOCKED'']"

fun claims_met :: "pyval \<Rightarrow> bool" where
  "claims_met (PDict ac) = (py_get ac ''status'' = PStr ''MET'')"
| "claims_met _ = False"

definition dev_handoff_claims_unproven_completion :: "bool \<Rightarrow> pyval \<Rightarrow> bool" where
  "dev_handoff_claims_unproven_completion honor_gate_delegation data =
     (case data of
        PDict d \<Rightarrow>
          (case py_get d ''acceptance_criteria'' of
             PList criteria \<Rightarrow>
               (if \<not> list_ex claims_met criteria then False
                else if py_get d ''gate_result'' = PStr ''PASS'' then False
                else if honor_gate_delegation \<and> py_get d ''gate_delegated'' = PBool True then False
                else True)
           | _ \<Rightarrow> False)
      | _ \<Rightarrow> False)"

text \<open>An entry of a list section: each of its keys must hold a non-empty string.\<close>

definition text_key_errors :: "string \<Rightarrow> nat \<Rightarrow> string list \<Rightarrow> pydict \<Rightarrow> string list" where
  "text_key_errors name i ks e =
     map (\<lambda>k. indexed name i @ ''.'' @ k @ '' must be a non-empty string'')
       (filter (\<lambda>k. \<not> non_empty_string (py_get e k)) ks)"

fun mapping_entry_errors :: "string \<Rightarrow> string list \<Rightarrow> nat \<times> pyval \<Rightarrow> string list" where
  "mapping_entry_errors name ks (i, PDict e) = text_key_errors name i ks e"
| "mapping_entry_errors name ks (i, _) = [indexed name i @ '' must be a mapping'']"

fun criterion_errors :: "(rat \<Rightarrow> string) \<Rightarrow> nat \<times> pyval \<Rightarrow> string list" where
  "criterion_errors fr (i, PDict ac) =
     text_key_errors ''acceptance_criteria'' i [''criterion''] ac
     @ (if \<not> one_of (py_get ac ''status'') valid_ac_statuses
        then [indexed ''acceptance_criteria'' i @ ''.status must be one of '' @ tuple_repr valid_ac_statuses
                @ '', got: '' @ py_repr fr (py_get ac ''status'')] else [])
     @ text_key_errors ''acceptance_criteria'' i [''notes''] ac"
| "criterion_errors fr (i, _) = [indexed ''acceptance_criteria'' i @ '' must be a mapping'']"

text \<open>\<^verbatim>\<open>commits\<close> and \<^verbatim>\<open>acceptance_criteria\<close>: required non-empty lists.\<close>

fun required_list :: "string \<Rightarrow> string \<Rightarrow> (nat \<times> pyval \<Rightarrow> string list) \<Rightarrow> pyval \<Rightarrow> string list" where
  "required_list name shape entry PNone = [name @ '' is required (non-empty list of '' @ shape @ '')'']"
| "required_list name shape entry (PList xs) =
     (if xs = [] then [name @ '' must be non-empty''] else concat (map entry (enumerate 0 xs)))"
| "required_list name shape entry _ = [name @ '' must be a list'']"

text \<open>\<^verbatim>\<open>story_deviations\<close> and \<^verbatim>\<open>deferred_items\<close>: a list, or the word none.\<close>

fun list_or_none :: "string \<Rightarrow> string \<Rightarrow> string list \<Rightarrow> pyval \<Rightarrow> string list" where
  "list_or_none name shape ks PNone = [name @ '' is required (list of '' @ shape @ '' or '' @ repr_string ''none'' @ '')'']"
| "list_or_none name shape ks (PStr s) =
     (if py_lower (py_strip s) \<noteq> ''none'' then [name @ '' must be a list or the string '' @ repr_string ''none''] else [])"
| "list_or_none name shape ks (PList xs) = concat (map (mapping_entry_errors name ks) (enumerate 0 xs))"
| "list_or_none name shape ks _ = [name @ '' must be a list or the string '' @ repr_string ''none'']"

definition validate_dev_handoff :: "(rat \<Rightarrow> string) \<Rightarrow> pyval \<Rightarrow> string list" where
  "validate_dev_handoff fr data =
     (case data of
        PDict d \<Rightarrow>
          (let gate_result = py_get d ''gate_result'';
               deviations = (if ''story_deviations'' \<in> set (dict_keys d) then py_get d ''story_deviations''
                             else py_get d ''spec_deviations'')
           in (if \<not> non_empty_string (py_get d ''summary'') then [''summary must be a non-empty string''] else [])
            @ required_list ''commits'' ''{sha, message}'' (mapping_entry_errors ''commits'' [''sha'', ''message''])
                (py_get d ''commits'')
            @ required_list ''acceptance_criteria'' ''{criterion, status, notes}'' (criterion_errors fr)
                (py_get d ''acceptance_criteria'')
            @ (if gate_result \<noteq> PNone \<and> \<not> one_of gate_result valid_gate_results
               then [''gate_result must be one of '' @ tuple_repr valid_gate_results @ '' when provided, got: ''
                       @ py_repr fr gate_result] else [])
            @ (if dev_handoff_claims_unproven_completion True data
               then [''acceptance_criteria mark MET but gate_result is not PASS -- a completion ''
                       @ ''claim requires gate evidence (set gate_result: PASS after the gate passes, ''
                       @ ''or gate_result: BLOCKED and do not mark criteria MET if the gate could not ''
                       @ ''be run)''] else [])
            @ list_or_none ''story_deviations'' ''deviations'' [''description'', ''justification''] deviations
            @ list_or_none ''deferred_items'' ''items'' [''description'', ''reason''] (py_get d ''deferred_items''))
      | _ \<Rightarrow> [''dev handoff must be a YAML mapping''])"

section \<open>What an accepted review says\<close>

text \<open>
  The contract of a review, stated without the order of the checks: the sections are there and well
  formed, and the verdict is the one its findings and its verification table allow.
\<close>

fun good_finding :: "pyval \<Rightarrow> bool" where
  "good_finding (PDict f) \<longleftrightarrow> one_of (py_get f ''severity'') valid_severities
     \<and> (py_get f ''severity'' = PStr ''P1'' \<longrightarrow> py_get f ''file'' = PNone \<or> py_truthy (py_get f ''file''))
     \<and> list_all (\<lambda>k. non_empty_string (py_get f k)) [''observed'', ''expected'', ''evidence'']"
| "good_finding _ \<longleftrightarrow> False"

fun good_ac_entry :: "pyval \<Rightarrow> bool" where
  "good_ac_entry (PDict e) \<longleftrightarrow> one_of (py_get e ''status'') valid_ac_verification_statuses
     \<and> non_empty_string (py_get e ''criterion'') \<and> non_empty_string (py_get e ''evidence'')"
| "good_ac_entry _ \<longleftrightarrow> False"

fun is_verified :: "pyval \<Rightarrow> bool" where
  "is_verified (PDict e) \<longleftrightarrow> py_get e ''status'' = PStr ''VERIFIED''"
| "is_verified _ \<longleftrightarrow> False"

fun list_of :: "pyval \<Rightarrow> pyval list option" where
  "list_of PNone = Some []"
| "list_of (PList xs) = Some xs"
| "list_of _ = None"

fun has_key :: "string \<Rightarrow> pyval \<Rightarrow> bool" where
  "has_key k (PDict m) \<longleftrightarrow> k \<in> set (dict_keys m)"
| "has_key k _ \<longleftrightarrow> False"

definition approval_allowed :: "pydict \<Rightarrow> pyval list \<Rightarrow> pyval list \<Rightarrow> bool" where
  "approval_allowed d findings acs \<longleftrightarrow> \<not> list_ex is_p1 findings \<and> list_all is_verified acs
     \<and> (acs = [] \<longrightarrow> dict_get d ''criteria_enumerable'' = Some (PBool False)
                   \<and> non_empty_string (py_get d ''criteria_enumerable_rationale''))"

definition optional_kinds :: "pydict \<Rightarrow> bool" where
  "optional_kinds d \<longleftrightarrow> (case dict_get d ''criteria_enumerable'' of None \<Rightarrow> True | Some v \<Rightarrow> v \<in> range PBool)
     \<and> (py_get d ''criteria_enumerable_rationale'' = PNone \<or> py_get d ''criteria_enumerable_rationale'' \<in> range PStr)"

definition review_contract :: "pydict \<Rightarrow> bool" where
  "review_contract d \<longleftrightarrow>
     non_empty_string (py_get d ''summary'')
     \<and> has_key ''matches_spec'' (py_or (py_get d ''story_compliance'') (py_get d ''spec_compliance''))
     \<and> has_key ''adequate'' (py_get d ''test_coverage'')
     \<and> optional_kinds d
     \<and> (\<exists>findings acs. list_of (py_get d ''findings'') = Some findings
          \<and> list_of (py_get d ''ac_verification'') = Some acs
          \<and> list_all good_finding findings \<and> list_all good_ac_entry acs
          \<and> (py_get d ''verdict'' = PStr ''APPROVE'' \<and> approval_allowed d findings acs
             \<or> py_get d ''verdict'' = PStr ''REQUEST_CHANGES'' \<and> list_ex is_p1 findings))"

lemma all_enumerate: "(\<forall>x \<in> set (enumerate 0 xs). P (snd x)) \<longleftrightarrow> list_all P xs"
  by (metis (mono_tags, lifting) list.pred_set list_all_length map_snd_enumerate list.set_map image_iff imageI)

lemma finding_errors_Nil: "finding_errors fr x = [] \<longleftrightarrow> good_finding (snd x)"
  by (cases x; cases "snd x") (auto simp: prose_errors_def Let_def)

lemma ac_entry_errors_Nil: "ac_entry_errors fr x = [] \<longleftrightarrow> good_ac_entry (snd x)"
  by (cases x; cases "snd x") auto

lemma list_section_Nil: "snd (list_section name v) = [] \<longleftrightarrow> list_of v \<noteq> None"
  by (cases v) auto

lemma list_section_list: "list_of v = Some xs \<Longrightarrow> list_section name v = (xs, [])"
  by (cases v) auto

lemma mapping_section_Nil: "mapping_section name k v = [] \<longleftrightarrow> has_key k v"
  by (cases v) auto

lemma good_entry_verified: "good_ac_entry v \<Longrightarrow> is_verified v \<longleftrightarrow> \<not> is_non_verified v"
  by (cases v) (auto simp: one_of_def valid_ac_verification_statuses_def)

lemma optional_kinds_Nil:
  "snd (criteria_flag d) = [] \<and> snd (rationale_of (py_get d ''criteria_enumerable_rationale'')) = [] \<longleftrightarrow> optional_kinds d"
  by (cases "py_get d ''criteria_enumerable_rationale''")
    (auto simp: optional_kinds_def criteria_flag_def split: option.splits pyval.splits)

lemma rationale_kept:
  "snd (rationale_of v) = [] \<Longrightarrow> fst (rationale_of v) = v"
  by (cases v) auto

lemma flag_false: "\<not> fst (criteria_flag d) \<longleftrightarrow> dict_get d ''criteria_enumerable'' = Some (PBool False)"
  by (auto simp: criteria_flag_def split: option.splits pyval.splits)

lemma approval_errors_Nil:
  assumes "list_all good_ac_entry acs" "optional_kinds d"
  shows "approval_errors acs (fst (criteria_flag d)) (fst (rationale_of (py_get d ''criteria_enumerable_rationale''))) = []
    \<longleftrightarrow> list_all is_verified acs \<and> (acs = [] \<longrightarrow> dict_get d ''criteria_enumerable'' = Some (PBool False)
                   \<and> non_empty_string (py_get d ''criteria_enumerable_rationale''))"
proof -
  from assms(2) have r: "fst (rationale_of (py_get d ''criteria_enumerable_rationale'')) = py_get d ''criteria_enumerable_rationale''"
    by (simp add: optional_kinds_Nil [symmetric] rationale_kept)
  have v: "list_all is_verified acs \<longleftrightarrow> filter is_non_verified acs = []"
    using assms(1) by (auto simp: list_all_iff filter_empty_conv good_entry_verified)
  show ?thesis unfolding r v flag_false [symmetric] by (auto simp: approval_errors_def Let_def)
qed

lemma validate_review_exact: "validate_review_yaml fr d = [] \<longleftrightarrow> review_contract d"
proof (cases "list_of (py_get d ''findings'') = None \<or> list_of (py_get d ''ac_verification'') = None")
  case True
  then have "snd (list_section ''findings'' (py_get d ''findings'')) \<noteq> []
      \<or> snd (list_section ''ac_verification'' (py_get d ''ac_verification'')) \<noteq> []" by (simp add: list_section_Nil)
  then have "validate_review_yaml fr d \<noteq> []" by (auto simp: validate_review_yaml_def Let_def split: prod.splits)
  with True show ?thesis by (auto simp: review_contract_def)
next
  case False
  then obtain findings acs where l: "list_of (py_get d ''findings'') = Some findings"
      "list_of (py_get d ''ac_verification'') = Some acs" by auto
  have v: "one_of v valid_verdicts \<longleftrightarrow> v = PStr ''APPROVE'' \<or> v = PStr ''REQUEST_CHANGES''" for v
    by (auto simp: one_of_def valid_verdicts_def)
  have p: "filter is_p1 findings = [] \<longleftrightarrow> \<not> list_ex is_p1 findings" by (auto simp: list_ex_iff filter_empty_conv)
  have e: "concat (map (finding_errors fr) (enumerate 0 findings)) = [] \<longleftrightarrow> list_all good_finding findings"
      "concat (map (ac_entry_errors fr) (enumerate 0 acs)) = [] \<longleftrightarrow> list_all good_ac_entry acs"
    by (simp_all add: finding_errors_Nil ac_entry_errors_Nil all_enumerate)
  have "validate_review_yaml fr d = [] \<longleftrightarrow>
      (py_get d ''verdict'' = PStr ''APPROVE'' \<or> py_get d ''verdict'' = PStr ''REQUEST_CHANGES'')
      \<and> non_empty_string (py_get d ''summary'') \<and> list_all good_finding findings
      \<and> verdict_vs_findings (py_get d ''verdict'') (length (filter is_p1 findings)) = []
      \<and> has_key ''matches_spec'' (py_or (py_get d ''story_compliance'') (py_get d ''spec_compliance''))
      \<and> has_key ''adequate'' (py_get d ''test_coverage'') \<and> list_all good_ac_entry acs \<and> optional_kinds d
      \<and> (py_get d ''verdict'' = PStr ''APPROVE'' \<longrightarrow> approval_errors acs (fst (criteria_flag d))
             (fst (rationale_of (py_get d ''criteria_enumerable_rationale''))) = [])"
    unfolding validate_review_yaml_def Let_def list_section_list [OF l(1)] list_section_list [OF l(2)] prod.case
      case_prod_beta append_is_Nil_conv e mapping_section_Nil v [symmetric] optional_kinds_Nil [symmetric]
    by (auto simp: finding_errors_Nil ac_entry_errors_Nil all_enumerate)
  also have "\<dots> \<longleftrightarrow> review_contract d"
    unfolding review_contract_def l option.inject using approval_errors_Nil [of acs d] p
    by (auto simp: verdict_vs_findings_def approval_allowed_def)
  finally show ?thesis .
qed

text \<open>C13. 
  Validation accepts exactly the reviews that keep the contract: the errors are those of a review that
  breaks it, whatever the order of the checks.
\<close>

theorem review_accepted_iff: "validate_review_yaml fr d = [] \<longleftrightarrow> review_contract d"
  by (rule validate_review_exact)

section \<open>What the repair changes\<close>

definition repaired_keys :: "string list" where
  "repaired_keys = [''findings'', ''story_compliance'', ''test_coverage'', ''ac_verification'']"

declare py_get_set [simp]

lemma py_get_repair_findings:
  "py_get (repair_findings d) k =
     (if k = ''findings'' then (case py_get d ''findings'' of PStr s \<Rightarrow> PList [] | PNone \<Rightarrow> PList [] | v \<Rightarrow> v) else py_get d k)"
  by (cases "py_get d ''findings''") (simp_all add: repair_findings_def)

lemma py_get_repair_compliance: "k \<noteq> ''story_compliance'' \<Longrightarrow> py_get (repair_compliance d) k = py_get d k"
  by (simp add: repair_compliance_def)

lemma py_get_repair_coverage: "k \<noteq> ''test_coverage'' \<Longrightarrow> py_get (repair_coverage d) k = py_get d k"
  by (simp add: repair_coverage_def)

lemma py_get_repair_ac:
  "py_get (repair_ac_verification d) k =
     (if k = ''ac_verification'' then (case py_get d k of PList xs \<Rightarrow> PList xs | _ \<Rightarrow> PList []) else py_get d k)"
  by (cases "py_get d ''ac_verification''") (simp_all add: repair_ac_verification_def)

lemmas py_get_repair = py_get_repair_findings py_get_repair_compliance py_get_repair_coverage py_get_repair_ac

lemma py_get_repair_other: "k \<notin> set repaired_keys \<Longrightarrow> py_get (repair_review_yaml d) k = py_get d k"
  by (simp add: repair_review_yaml_def repaired_keys_def py_get_repair)

lemma repair_findings_value:
  "py_get (repair_review_yaml d) ''findings'' =
     (case py_get d ''findings'' of PStr s \<Rightarrow> PList [] | PNone \<Rightarrow> PList [] | v \<Rightarrow> v)"
  by (simp add: repair_review_yaml_def py_get_repair)

lemma repair_ac_value:
  "py_get (repair_review_yaml d) ''ac_verification'' =
     (case py_get d ''ac_verification'' of PList xs \<Rightarrow> PList xs | _ \<Rightarrow> PList [])"
  by (simp add: repair_review_yaml_def py_get_repair)

lemma repair_fixpoint:
  assumes "py_get d ''findings'' \<notin> insert PNone (range PStr)"
    and "''story_compliance'' \<in> set (dict_keys d) \<or> ''spec_compliance'' \<in> set (dict_keys d)"
    and "''test_coverage'' \<in> set (dict_keys d)" "py_get d ''ac_verification'' \<in> range PList"
  shows "repair_review_yaml d = d"
proof -
  from assms(1) have "repair_findings d = d" by (auto simp: repair_findings_def split: pyval.splits)
  moreover from assms(2) have "repair_compliance d = d" by (auto simp: repair_compliance_def)
  moreover from assms(3) have "repair_coverage d = d" by (simp add: repair_coverage_def)
  moreover from assms(4) have "repair_ac_verification d = d" by (auto simp: repair_ac_verification_def)
  ultimately show ?thesis by (simp add: repair_review_yaml_def)
qed

lemma keys_repair_ac: "k \<in> set (dict_keys d) \<Longrightarrow> k \<in> set (dict_keys (repair_ac_verification d))"
  by (cases "py_get d ''ac_verification''") (simp_all add: repair_ac_verification_def)

lemma keys_repair_coverage: "k = ''test_coverage'' \<or> k \<in> set (dict_keys d) \<Longrightarrow> k \<in> set (dict_keys (repair_coverage d))"
  by (auto simp: repair_coverage_def)

lemma keys_repair_compliance:
  "''story_compliance'' \<in> set (dict_keys (repair_compliance d)) \<or> ''spec_compliance'' \<in> set (dict_keys (repair_compliance d))"
  by (auto simp: repair_compliance_def)

text \<open>
  The repair fills what is missing and touches nothing else: verdict, summary and every other section
  keep their values, lists of findings and verification tables are kept as they are, so that a verdict
  that contradicts them still reaches validation; and repairing twice is repairing once.
\<close>

theorem repair_is_conservative:
  "repair_review_yaml (repair_review_yaml d) = repair_review_yaml d
    \<and> (\<forall>k. k \<notin> set repaired_keys \<longrightarrow> py_get (repair_review_yaml d) k = py_get d k)
    \<and> (\<forall>xs. py_get d ''findings'' = PList xs \<longrightarrow> py_get (repair_review_yaml d) ''findings'' = PList xs)
    \<and> (\<forall>xs. py_get d ''ac_verification'' = PList xs \<longrightarrow> py_get (repair_review_yaml d) ''ac_verification'' = PList xs)"
proof -
  have "repair_review_yaml (repair_review_yaml d) = repair_review_yaml d"
  proof (rule repair_fixpoint)
    show "py_get (repair_review_yaml d) ''findings'' \<notin> insert PNone (range PStr)"
      unfolding repair_findings_value by (cases "py_get d ''findings''") auto
    show "py_get (repair_review_yaml d) ''ac_verification'' \<in> range PList"
      unfolding repair_ac_value by (cases "py_get d ''ac_verification''") auto
    show "''test_coverage'' \<in> set (dict_keys (repair_review_yaml d))"
      unfolding repair_review_yaml_def by (intro keys_repair_ac keys_repair_coverage disjI1 refl)
    show "''story_compliance'' \<in> set (dict_keys (repair_review_yaml d)) \<or> ''spec_compliance'' \<in> set (dict_keys (repair_review_yaml d))"
      unfolding repair_review_yaml_def
      using keys_repair_compliance [of "repair_findings d"] by (metis keys_repair_ac keys_repair_coverage)
  qed
  then show ?thesis by (simp add: py_get_repair_other repair_findings_value repair_ac_value)
qed

section \<open>What an accepted handoff says\<close>

fun good_criterion :: "pyval \<Rightarrow> bool" where
  "good_criterion (PDict ac) \<longleftrightarrow> one_of (py_get ac ''status'') valid_ac_statuses
     \<and> non_empty_string (py_get ac ''criterion'') \<and> non_empty_string (py_get ac ''notes'')"
| "good_criterion _ \<longleftrightarrow> False"

fun good_entry :: "string list \<Rightarrow> pyval \<Rightarrow> bool" where
  "good_entry ks (PDict e) \<longleftrightarrow> list_all (\<lambda>k. non_empty_string (py_get e k)) ks"
| "good_entry ks _ \<longleftrightarrow> False"

fun good_optional_list :: "string list \<Rightarrow> pyval \<Rightarrow> bool" where
  "good_optional_list ks (PList xs) \<longleftrightarrow> list_all (good_entry ks) xs"
| "good_optional_list ks (PStr s) \<longleftrightarrow> py_lower (py_strip s) = ''none''"
| "good_optional_list ks _ \<longleftrightarrow> False"

definition handoff_contract :: "pydict \<Rightarrow> bool" where
  "handoff_contract d \<longleftrightarrow>
     non_empty_string (py_get d ''summary'')
     \<and> (\<exists>commits. py_get d ''commits'' = PList commits \<and> commits \<noteq> [] \<and> list_all (good_entry [''sha'', ''message'']) commits)
     \<and> (\<exists>criteria. py_get d ''acceptance_criteria'' = PList criteria \<and> criteria \<noteq> [] \<and> list_all good_criterion criteria
          \<and> (list_ex claims_met criteria \<longrightarrow>
               py_get d ''gate_result'' = PStr ''PASS'' \<or> py_get d ''gate_delegated'' = PBool True))
     \<and> (py_get d ''gate_result'' = PNone \<or> one_of (py_get d ''gate_result'') valid_gate_results)
     \<and> good_optional_list [''description'', ''justification'']
         (if ''story_deviations'' \<in> set (dict_keys d) then py_get d ''story_deviations'' else py_get d ''spec_deviations'')
     \<and> good_optional_list [''description'', ''reason''] (py_get d ''deferred_items'')"

lemma mapping_entry_errors_Nil: "mapping_entry_errors name ks x = [] \<longleftrightarrow> good_entry ks (snd x)"
  by (cases x; cases "snd x") (auto simp: text_key_errors_def list_all_iff filter_empty_conv)

lemma criterion_errors_Nil: "criterion_errors fr x = [] \<longleftrightarrow> good_criterion (snd x)"
  by (cases x; cases "snd x") (auto simp: text_key_errors_def)

lemma required_list_Nil:
  assumes "\<And>x. entry x = [] \<longleftrightarrow> good (snd x)"
  shows "required_list name shape entry v = [] \<longleftrightarrow> (\<exists>xs. v = PList xs \<and> xs \<noteq> [] \<and> list_all good xs)"
  by (cases v) (auto simp: assms all_enumerate)

lemma list_or_none_Nil: "list_or_none name shape ks v = [] \<longleftrightarrow> good_optional_list ks v"
  by (cases v) (auto simp: mapping_entry_errors_Nil all_enumerate)

text \<open>C18. 
  A handoff is accepted exactly when it keeps its contract; in particular a criterion reported as met
  needs a gate that passed, or one the handoff says was left to the coordinator.
\<close>

theorem handoff_accepted_iff:
  "validate_dev_handoff fr data = [] \<longleftrightarrow> (\<exists>d. data = PDict d \<and> handoff_contract d)"
proof (cases data)
  case (PDict d)
  have g: "dev_handoff_claims_unproven_completion True (PDict d) \<longleftrightarrow>
      (\<exists>criteria. py_get d ''acceptance_criteria'' = PList criteria \<and> list_ex claims_met criteria
         \<and> py_get d ''gate_result'' \<noteq> PStr ''PASS'' \<and> py_get d ''gate_delegated'' \<noteq> PBool True)"
    by (auto simp: dev_handoff_claims_unproven_completion_def split: pyval.splits)
  show ?thesis unfolding PDict validate_dev_handoff_def handoff_contract_def pyval.case pyval.inject
    by (auto simp: Let_def g list_or_none_Nil 
      required_list_Nil [where good = "good_entry [''sha'', ''message'']", OF mapping_entry_errors_Nil]
      required_list_Nil [where good = good_criterion, OF criterion_errors_Nil])
qed (simp_all add: validate_dev_handoff_def)

end
