(* ===== verification/Py_Regex.thy ===== *)
theory Py_Regex
  imports Forge_Prelude
begin

text \<open>
  The part of Python's \<^verbatim>\<open>re\<close> the modelled code uses. A pattern is matched at a position by
  backtracking: \<open>ends\<close> lists the positions where a match can stop, in the order in which the engine
  tries them, so its first element is where the match ends. \<^verbatim>\<open>re.search\<close> takes the leftmost position
  with a match, \<^verbatim>\<open>finditer\<close> continues behind each match, \<^verbatim>\<open>sub\<close> replaces the spans. No pattern of the
  modelled code matches the empty text.
\<close>

section \<open>Patterns\<close>

datatype regex =
    Cls "char \<Rightarrow> bool"
  | Seq regex regex
  | Alt regex regex
  | Many regex
  | Lazy regex
  | WordEdge
  | TextStart
  | LineStart

definition is_word :: "char \<Rightarrow> bool" where
  "is_word c = (py_isalnum c \<or> c = CHR ''_'')"

abbreviation Lit :: "char \<Rightarrow> regex" where
  "Lit c \<equiv> Cls (\<lambda>x. x = c)"

text \<open>\<^verbatim>\<open>r+\<close>, \<^verbatim>\<open>r?\<close> and a literal text.\<close>

definition Many1 :: "regex \<Rightarrow> regex" where
  "Many1 r = Seq r (Many r)"

definition nothing :: regex where
  "nothing = Many (Cls (\<lambda>_. False))"

definition Opt :: "regex \<Rightarrow> regex" where
  "Opt r = Alt r nothing"

fun lits :: "string \<Rightarrow> regex" where
  "lits [] = nothing"
| "lits [c] = Lit c"
| "lits (c # d # cs) = Seq (Lit c) (lits (d # cs))"

text \<open>
  Repetition: every iteration consumes text, so the length of what is left bounds their number.
  The greedy form tries another iteration first, the lazy form stops first.
\<close>

fun many_ends :: "nat \<Rightarrow> (nat \<Rightarrow> nat list) \<Rightarrow> nat \<Rightarrow> nat list" where
  "many_ends 0 m i = [i]"
| "many_ends (Suc n) m i = concat (map (\<lambda>j. if i < j then many_ends n m j else []) (m i)) @ [i]"

fun lazy_ends :: "nat \<Rightarrow> (nat \<Rightarrow> nat list) \<Rightarrow> nat \<Rightarrow> nat list" where
  "lazy_ends 0 m i = [i]"
| "lazy_ends (Suc n) m i = i # concat (map (\<lambda>j. if i < j then lazy_ends n m j else []) (m i))"

definition at_word_edge :: "string \<Rightarrow> nat \<Rightarrow> bool" where
  "at_word_edge s i = ((0 < i \<and> is_word (s ! (i - 1))) \<noteq> (i < length s \<and> is_word (s ! i)))"

primrec ends :: "regex \<Rightarrow> string \<Rightarrow> nat \<Rightarrow> nat list" where
  "ends (Cls p) s i = (if i < length s \<and> p (s ! i) then [Suc i] else [])"
| "ends (Seq r q) s i = concat (map (ends q s) (ends r s i))"
| "ends (Alt r q) s i = ends r s i @ ends q s i"
| "ends (Many r) s i = many_ends (length s - i) (ends r s) i"
| "ends (Lazy r) s i = lazy_ends (length s - i) (ends r s) i"
| "ends WordEdge s i = (if at_word_edge s i then [i] else [])"
| "ends TextStart s i = (if i = 0 then [i] else [])"
| "ends LineStart s i = (if i = 0 \<or> s ! (i - 1) = CHR 0x0A then [i] else [])"

section \<open>Searching\<close>

text \<open>The span of the leftmost match that starts at \<open>i\<close> or later.\<close>

definition find_match :: "regex \<Rightarrow> string \<Rightarrow> nat \<Rightarrow> (nat \<times> nat) option" where
  "find_match r s i =
     (case find (\<lambda>k. ends r s k \<noteq> []) [i..<Suc (length s)] of
        None \<Rightarrow> None
      | Some k \<Rightarrow> Some (k, hd (ends r s k)))"

lemma find_match_bound: "find_match r s i = Some (k, e) \<Longrightarrow> i \<le> k \<and> k \<le> length s"
  by (auto simp: find_match_def find_Some_iff split: option.splits simp del: upt_Suc)

function spans :: "regex \<Rightarrow> string \<Rightarrow> nat \<Rightarrow> (nat \<times> nat) list" where
  "spans r s i = (case find_match r s i of None \<Rightarrow> [] | Some (k, e) \<Rightarrow> (k, e) # spans r s (max (Suc k) e))"
  by pat_completeness auto
termination
  by (relation "measure (\<lambda>(r, s, i). Suc (length s) - i)") (auto dest!: find_match_bound)

declare spans.simps [simp del]

definition slice :: "nat \<Rightarrow> nat \<Rightarrow> string \<Rightarrow> string" where
  "slice i j s = take (j - i) (drop i s)"

fun splice :: "(nat \<times> nat \<Rightarrow> string) \<Rightarrow> string \<Rightarrow> nat \<Rightarrow> (nat \<times> nat) list \<Rightarrow> string" where
  "splice f s i [] = drop i s"
| "splice f s i ((k, e) # ms) = slice i k s @ f (k, e) @ splice f s e ms"

definition re_sub :: "regex \<Rightarrow> (nat \<times> nat \<Rightarrow> string) \<Rightarrow> string \<Rightarrow> string" where
  "re_sub r f s = splice f s 0 (spans r s 0)"

text \<open>
  The group in the middle of a pattern: of the leftmost match at \<open>k\<close>, where the part before the group
  ends and where the group ends.
\<close>

definition group_span :: "regex \<Rightarrow> regex \<Rightarrow> regex \<Rightarrow> string \<Rightarrow> nat \<Rightarrow> (nat \<times> nat) option" where
  "group_span pre mid post s k =
     (case find (\<lambda>p. ends (Seq mid post) s p \<noteq> []) (ends pre s k) of
        None \<Rightarrow> None
      | Some p \<Rightarrow> (case find (\<lambda>q. ends post s q \<noteq> []) (ends mid s p) of
                    None \<Rightarrow> None | Some q \<Rightarrow> Some (p, q)))"

text \<open>\<^verbatim>\<open>s.replace(old, new)\<close> for a non-empty \<^verbatim>\<open>old\<close>.\<close>

function py_replace :: "string \<Rightarrow> string \<Rightarrow> string \<Rightarrow> string" where
  "py_replace old new [] = []"
| "py_replace old new (c # cs) =
     (if old \<noteq> [] \<and> prefix old (c # cs) then new @ py_replace old new (drop (length old - 1) cs)
      else c # py_replace old new cs)"
  by pat_completeness auto
termination
  by (relation "measure (\<lambda>(p, n, s). length s)") auto

section \<open>A match consumes what its pattern allows\<close>

lemma repeat_bound:
  assumes step: "\<And>k e. k \<le> n \<Longrightarrow> e \<in> set (m k) \<Longrightarrow> k \<le> e \<and> e \<le> n"
    and i: "i \<le> n" and j: "j \<in> set (many_ends c m i) \<or> j \<in> set (lazy_ends c m i)"
  shows "i \<le> j \<and> j \<le> n"
  using i j
proof (induction c arbitrary: i)
  case (Suc c)
  from Suc.prems(2) consider "j = i"
    | k where "k \<in> set (m i)" "i < k" "j \<in> set (many_ends c m k) \<or> j \<in> set (lazy_ends c m k)"
    by (auto split: if_splits)
  then show ?case
  proof cases
    case 1
    with Suc.prems(1) show ?thesis by simp
  next
    case 2
    from step [OF Suc.prems(1) 2(1)] have "k \<le> n" by simp
    from Suc.IH [OF this 2(3)] 2(2) show ?thesis by simp
  qed
qed simp

lemma ends_bound: "i \<le> length s \<Longrightarrow> j \<in> set (ends r s i) \<Longrightarrow> i \<le> j \<and> j \<le> length s"
proof (induction r arbitrary: i j)
  case (Seq r q)
  from Seq.prems(2) obtain k where k: "k \<in> set (ends r s i)" "j \<in> set (ends q s k)" by auto
  from Seq.IH(1) [OF Seq.prems(1) k(1)] have "i \<le> k" "k \<le> length s" by simp_all
  with Seq.IH(2) [OF _ k(2)] show ?case by simp
next
  case (Many r)
  from Many.prems(2) show ?case by (intro repeat_bound [where m = "ends r s", OF Many.IH Many.prems(1)]) auto
next
  case (Lazy r)
  from Lazy.prems(2) show ?case by (intro repeat_bound [where m = "ends r s", OF Lazy.IH Lazy.prems(1)]) auto
next
  case (Alt r q)
  from Alt.prems(2) have "j \<in> set (ends r s i) \<or> j \<in> set (ends q s i)" by simp
  with Alt.IH [OF Alt.prems(1)] show ?case by blast
qed (simp_all split: if_splits)

lemma spans_bound: "(k, e) \<in> set (spans r s i) \<Longrightarrow> i \<le> k \<and> k \<le> e \<and> e \<le> length s"
proof (induction r s i rule: spans.induct)
  case (1 r s i)
  show ?case
  proof (cases "find_match r s i")
    case None
    with "1.prems" show ?thesis by (simp add: spans.simps [of r s i])
  next
    case (Some ke)
    obtain k0 e0 where ke: "ke = (k0, e0)" by force
    with Some have b: "i \<le> k0" "k0 \<le> length s" by (auto dest: find_match_bound)
    from Some ke have "e0 \<in> set (ends r s k0)"
      by (auto simp: find_match_def find_Some_iff split: option.splits simp del: upt_Suc)
    with b have e0: "k0 \<le> e0" "e0 \<le> length s" by (auto dest: ends_bound)
    from "1.prems" Some ke consider "(k, e) = (k0, e0)" | "(k, e) \<in> set (spans r s (max (Suc k0) e0))"
      by (auto simp: spans.simps [of r s i])
    then show ?thesis
    proof cases
      case 1
      with b e0 show ?thesis by simp
    next
      case 2
      with "1.IH" [OF Some ke [symmetric]] b show ?thesis by (fastforce simp: ke)
    qed
  qed
qed

end
