(* ===== verification/Review_Parse.thy ===== *)
theory Review_Parse
  imports Review_Schema Py_Regex
begin

text \<open>
  From what a reviewer wrote to a review result (\<^verbatim>\<open>review.py\<close>): the text is cleaned, parsed as YAML,
  repaired, validated and read into findings and a verification table. \<^verbatim>\<open>yaml.safe_load\<close> is an argument
  (an error message or a value, whose mappings have string keys), and so is the \<^verbatim>\<open>repr\<close> of a float.
  A value of the wrong kind where the code iterates or calls a method is the exception Python raises.
\<close>

section \<open>Data\<close>

record ac_verification =
  ac_criterion :: string
  ac_status :: string
  ac_evidence :: string

record parsed_finding =
  pf_severity :: pyval
  pf_file :: pyval
  pf_line :: "int option"
  pf_observed :: string
  pf_suggestion :: "string option"
  pf_expected :: string
  pf_evidence :: string
  pf_reviewers :: "string list"
  pf_reporter :: string

text \<open>A sanitization audit maps a field to its \<^verbatim>\<open>sanitized_chars\<close>, the only entry of the inner dictionary.\<close>

type_synonym sanitization_audit = "(string, int) dict"

record review_result =
  rv_verdict :: pyval
  rv_summary :: string
  rv_findings :: "parsed_finding list"
  rv_story_matches :: pyval
  rv_story_mismatches :: "pyval list"
  rv_test_adequate :: pyval
  rv_test_gaps :: "pyval list"
  rv_parse_errors :: "parse_error list"
  rv_raw_yaml :: pydict
  rv_ac_verification :: "ac_verification list"
  rv_criteria_enumerable :: bool
  rv_criteria_enumerable_rationale :: string
  rv_sanitization_audit :: sanitization_audit

text \<open>\<^verbatim>\<open>d.get(k, default)\<close> and the elements \<^verbatim>\<open>for x in v\<close> visits.\<close>

definition py_get_default :: "pydict \<Rightarrow> string \<Rightarrow> pyval \<Rightarrow> pyval" where
  "py_get_default d k v = (case dict_get d k of None \<Rightarrow> v | Some w \<Rightarrow> w)"

fun py_iter :: "pyval \<Rightarrow> pyval list py_result" where
  "py_iter (PList xs) = Inr xs"
| "py_iter (PDict d) = Inr (map PStr (dict_keys d))"
| "py_iter (PStr s) = Inr (map (\<lambda>c. PStr [c]) s)"
| "py_iter _ = Inl (TypeError ''object is not iterable'')"

section \<open>Line numbers\<close>

text \<open>
  \<^verbatim>\<open>int(value)\<close>. The text of an integer may have surrounding white space (only the ASCII kind when the
  text is ASCII), a sign, and single underscores between digits; more than 4300 digits are refused.
\<close>

definition int_space :: "string \<Rightarrow> char \<Rightarrow> bool" where
  "int_space s c = (if list_all (\<lambda>x. code_point x < 128) s
     then (9 \<le> code_point c \<and> code_point c \<le> 13) \<or> code_point c = 32 else py_isspace c)"

fun digit_groups :: "string \<Rightarrow> bool" where
  "digit_groups [] = False"
| "digit_groups [c] = py_isdecimal c"
| "digit_groups (c # d # cs) = (py_isdecimal c \<and> (if d = CHR ''_'' then digit_groups cs else digit_groups (d # cs)))"

definition int_literal :: "string \<Rightarrow> int option" where
  "int_literal s =
     (let t = rev (dropWhile (int_space s) (rev (dropWhile (int_space s) s)));
          u = (case t of c # cs \<Rightarrow> if c = CHR ''-'' \<or> c = CHR ''+'' then cs else t | [] \<Rightarrow> []);
          digits = filter py_isdecimal u
      in if digit_groups u \<and> length digits \<le> 4300
         then Some (if prefix ''-'' t then - int (decimal_value digits) else int (decimal_value digits))
         else None)"

fun coerce_line :: "pyval \<Rightarrow> int option" where
  "coerce_line (PInt i) = Some i"
| "coerce_line (PBool b) = Some (if b then 1 else 0)"
| "coerce_line (PFloat r) = Some (if r < 0 then - \<lfloor>- r\<rfloor> else \<lfloor>r\<rfloor>)"
| "coerce_line (PStr s) = int_literal s"
| "coerce_line _ = None"

section \<open>Cleaning\<close>

definition keep_char :: "char \<Rightarrow> bool" where
  "keep_char c = (let n = code_point c in \<not> ((n < 32 \<and> n \<notin> {9, 10, 13}) \<or> n = 127))"

definition sanitize_llm_text :: "(rat \<Rightarrow> string) \<Rightarrow> pyval \<Rightarrow> string \<Rightarrow> string \<times> sanitization_audit" where
  "sanitize_llm_text fr v field_name =
     (let s = (case v of PNone \<Rightarrow> [] | _ \<Rightarrow> py_str fr v);
          removed = length (filter (\<lambda>c. \<not> keep_char c) s);
          sanitized = filter keep_char s
      in if removed = 0 then (sanitized, []) else (sanitized, [(field_name, int removed)]))"

definition merge_audit_entry :: "string \<times> int \<Rightarrow> sanitization_audit \<Rightarrow> sanitization_audit" where
  "merge_audit_entry kn merged =
     dict_set (fst kn) ((case dict_get merged (fst kn) of None \<Rightarrow> 0 | Some m \<Rightarrow> m) + snd kn) merged"

definition merge_sanitization_audits :: "sanitization_audit list \<Rightarrow> sanitization_audit" where
  "merge_sanitization_audits audits = fold merge_audit_entry (concat audits) []"

text \<open>
  \<^verbatim>\<open>_sanitize_yaml_text\<close>: escaped quotes, inline code in backticks, and apostrophes inside
  single-quoted scalars.
\<close>

definition backtick_code :: regex where
  "backtick_code = Seq (Lit CHR 0x60) (Seq (Many1 (Cls (\<lambda>c. c \<noteq> CHR 0x60 \<and> c \<noteq> CHR 0x0A))) (Lit CHR 0x60))"

definition space :: regex where
  "space = Cls py_isspace"

definition scalar_prefix :: regex where
  "scalar_prefix = Seq LineStart (Seq (Many space) (Seq (Opt (Seq (Lit CHR ''-'') (Many1 space)))
     (Seq (Many1 (Cls (\<lambda>c. is_word c \<or> c = CHR ''-''))) (Seq (Lit CHR '':'') (Many1 space)))))"

definition quote_mark :: regex where
  "quote_mark = Lit CHR 0x27"

definition rest_of_line :: regex where
  "rest_of_line = Many (Cls (\<lambda>c. c \<noteq> CHR 0x0A))"

definition fix_single_quoted_apostrophe :: "string \<Rightarrow> string \<Rightarrow> string" where
  "fix_single_quoted_apostrophe pre content =
     (let whole = pre @ [CHR 0x27] @ content @ [CHR 0x27]; two = [CHR 0x27, CHR 0x27]
      in if CHR 0x27 \<notin> set content then whole
         else if CHR 0x27 \<notin> set (py_replace two [] content) then whole
         else pre @ [CHR 0x22] @ py_replace [CHR 0x22] [CHR 0x5C, CHR 0x22] (py_replace two [CHR 0x27] content) @ [CHR 0x22])"

definition sanitize_yaml_text :: "string \<Rightarrow> string" where
  "sanitize_yaml_text yaml_text =
     (let t = py_replace [CHR 0x5C, CHR 0x22] [CHR 0x27] yaml_text;
          u = re_sub backtick_code (\<lambda>(k, e). slice (Suc k) (e - 1) t) t;
          opening = Seq scalar_prefix quote_mark
      in re_sub (Seq opening (Seq rest_of_line quote_mark))
           (\<lambda>(k, e). case group_span opening rest_of_line quote_mark u k of
                       None \<Rightarrow> slice k e u
                     | Some (p, q) \<Rightarrow> fix_single_quoted_apostrophe (slice k (p - 1) u) (slice p q u)) u)"

section \<open>Reading the sections\<close>

definition extract_finding :: "(rat \<Rightarrow> string) \<Rightarrow> string \<Rightarrow> nat \<Rightarrow> pydict \<Rightarrow> parsed_finding \<times> sanitization_audit list" where
  "extract_finding fr reporter i f =
     (let name = (\<lambda>k. indexed ''findings'' i @ ''.'' @ k);
          (observed, a1) = sanitize_llm_text fr (py_get_default f ''observed'' (PStr [])) (name ''observed'');
          (expected, a2) = sanitize_llm_text fr (py_get_default f ''expected'' (PStr [])) (name ''expected'');
          (evidence, a3) = sanitize_llm_text fr (py_get_default f ''evidence'' (PStr [])) (name ''evidence'');
          (suggestion, a4) = (case py_get f ''suggestion'' of
                                PNone \<Rightarrow> (None, [])
                              | v \<Rightarrow> map_prod Some id (sanitize_llm_text fr v (name ''suggestion'')))
      in (\<lparr>pf_severity = py_get_default f ''severity'' (PStr ''P2''), pf_file = py_get_default f ''file'' (PStr ''unknown''),
           pf_line = coerce_line (py_get f ''line''), pf_observed = observed, pf_suggestion = suggestion,
           pf_expected = expected, pf_evidence = evidence, pf_reviewers = [], pf_reporter = reporter\<rparr>,
          [a1, a2, a3, a4]))"

fun payload_step :: "(rat \<Rightarrow> string) \<Rightarrow> string \<Rightarrow> nat \<times> pyval \<Rightarrow> parsed_finding list \<times> sanitization_audit
    \<Rightarrow> parsed_finding list \<times> sanitization_audit" where
  "payload_step fr reporter (i, PDict f) (findings, audit) =
     (let (finding, audits) = extract_finding fr reporter i f
      in (findings @ [finding], merge_sanitization_audits (audit # audits)))"
| "payload_step fr reporter (i, _) (findings, audit) = (findings, audit)"

definition extract_review_payload ::
    "(rat \<Rightarrow> string) \<Rightarrow> pydict \<Rightarrow> string \<Rightarrow> (string \<times> parsed_finding list \<times> sanitization_audit) py_result" where
  "extract_review_payload fr d reporter =
     (let (summary, summary_audit) = sanitize_llm_text fr (py_get_default d ''summary'' (PStr ''(no summary)'')) ''summary''
      in py_bind (py_iter (py_get_default d ''findings'' (PList [])))
           (\<lambda>xs. let (findings, audit) = fold (payload_step fr reporter) (enumerate 0 xs) ([], summary_audit)
                 in Inr (summary, findings, audit)))"

fun ac_entry :: "pyval \<Rightarrow> ac_verification list" where
  "ac_entry (PDict e) =
     (case (py_get e ''criterion'', py_get e ''status'') of
        (PStr criterion, PStr status) \<Rightarrow>
          [\<lparr>ac_criterion = criterion, ac_status = status,
            ac_evidence = (case py_get e ''evidence'' of PStr s \<Rightarrow> s | _ \<Rightarrow> [])\<rparr>]
      | _ \<Rightarrow> [])"
| "ac_entry _ = []"

definition extract_ac_verification :: "pydict \<Rightarrow> ac_verification list" where
  "extract_ac_verification d =
     (case py_get d ''ac_verification'' of PList xs \<Rightarrow> concat (map ac_entry xs) | _ \<Rightarrow> [])"

definition extract_criteria_enumerable :: "pydict \<Rightarrow> bool \<times> string" where
  "extract_criteria_enumerable d =
     ((case py_get_default d ''criteria_enumerable'' (PBool True) of PBool b \<Rightarrow> b | _ \<Rightarrow> True),
      (case py_get d ''criteria_enumerable_rationale'' of PStr s \<Rightarrow> s | _ \<Rightarrow> []))"

text \<open>A flag and a list of a section that may be no mapping.\<close>

fun section_flag :: "string \<Rightarrow> pyval \<Rightarrow> pyval" where
  "section_flag k (PDict m) = py_get_default m k (PBool False)"
| "section_flag k _ = PBool False"

fun section_list :: "string \<Rightarrow> pyval \<Rightarrow> pyval list" where
  "section_list k (PDict m) = (case py_get_default m k (PList []) of PList xs \<Rightarrow> xs | _ \<Rightarrow> [])"
| "section_list k _ = []"

definition parse_review_json :: "(rat \<Rightarrow> string) \<Rightarrow> pydict \<Rightarrow> string \<Rightarrow> review_result py_result" where
  "parse_review_json fr data reporter =
     (let d = repair_review_yaml data;
          schema_errors = validate_review_yaml fr d
      in py_bind (extract_review_payload fr d reporter)
           (\<lambda>(summary, findings, audit).
              let spec = py_or (py_or (py_get d ''story_compliance'') (py_get d ''spec_compliance'')) (PDict []);
                  tests = py_get_default d ''test_coverage'' (PDict []);
                  (enumerable, rationale) = extract_criteria_enumerable d
              in Inr \<lparr>rv_verdict = py_get_default d ''verdict'' (PStr ''REQUEST_CHANGES''), rv_summary = summary,
                      rv_findings = findings, rv_story_matches = section_flag ''matches_spec'' spec,
                      rv_story_mismatches = section_list ''mismatches'' spec,
                      rv_test_adequate = section_flag ''adequate'' tests, rv_test_gaps = section_list ''gaps'' tests,
                      rv_parse_errors = schema_errors, rv_raw_yaml = d,
                      rv_ac_verification = extract_ac_verification d, rv_criteria_enumerable = enumerable,
                      rv_criteria_enumerable_rationale = rationale, rv_sanitization_audit = audit\<rparr>))"

section \<open>Parsing a reply\<close>

definition fence_open :: regex where
  "fence_open = Seq (lits [CHR 0x60, CHR 0x60, CHR 0x60]) (Seq (Lit CHR ''y'') (Seq (Opt (Lit CHR ''a''))
     (Seq (lits ''ml'') (Many space))))"

definition fence_close :: regex where
  "fence_close = lits [CHR 0x60, CHR 0x60, CHR 0x60]"

definition any_text :: regex where
  "any_text = Lazy (Cls (\<lambda>_. True))"

definition yaml_block :: "string \<Rightarrow> string" where
  "yaml_block agent_output =
     (case find_match (Seq fence_open (Seq any_text fence_close)) agent_output 0 of
        None \<Rightarrow> agent_output
      | Some (k, e) \<Rightarrow>
          (case group_span fence_open any_text fence_close agent_output k of
             None \<Rightarrow> agent_output
           | Some (p, q) \<Rightarrow> slice p q agent_output))"

definition failed_review :: "string \<Rightarrow> parse_error \<Rightarrow> review_result" where
  "failed_review summary err =
     \<lparr>rv_verdict = PStr ''REQUEST_CHANGES'', rv_summary = summary, rv_findings = [],
      rv_story_matches = PBool False, rv_story_mismatches = [], rv_test_adequate = PBool False, rv_test_gaps = [],
      rv_parse_errors = [err], rv_raw_yaml = [], rv_ac_verification = [], rv_criteria_enumerable = True,
      rv_criteria_enumerable_rationale = [], rv_sanitization_audit = []\<rparr>"

definition parse_review_output ::
    "(rat \<Rightarrow> string) \<Rightarrow> (string \<Rightarrow> string + pyval) \<Rightarrow> string \<Rightarrow> string \<Rightarrow> review_result py_result" where
  "parse_review_output fr safe_load agent_output reporter =
     (case safe_load (sanitize_yaml_text (yaml_block agent_output)) of
        Inl e \<Rightarrow> Inr (failed_review ''PARSE ERROR: Could not parse review output as YAML''
                       \<lparr>pe_stage = ''YAML_SYNTAX'', pe_message = e\<rparr>)
      | Inr (PDict data) \<Rightarrow> parse_review_json fr data reporter
      | Inr _ \<Rightarrow> Inr (failed_review ''PARSE ERROR: Review output root is not a YAML mapping''
                       \<lparr>pe_stage = ''STRUCTURE'', pe_message = ''Root element is not a mapping''\<rparr>))"

definition try_parse_review ::
    "(rat \<Rightarrow> string) \<Rightarrow> (string \<Rightarrow> string + pyval) \<Rightarrow> string \<Rightarrow> pydict option \<Rightarrow> string \<Rightarrow> review_result option py_result" where
  "try_parse_review fr safe_load output structured_data reporter =
     py_bind (case structured_data of
                Some (x # xs) \<Rightarrow> parse_review_json fr (x # xs) reporter
              | _ \<Rightarrow> parse_review_output fr safe_load output reporter)
       (\<lambda>r. Inr (if rv_parse_errors r \<noteq> [] then None else Some r))"

definition best_individual_result :: "review_result list \<Rightarrow> review_result option" where
  "best_individual_result results =
     (if results = [] then None
      else case find (\<lambda>r. list_ex (\<lambda>f. pf_severity f = PStr ''P1'') (rv_findings r)) results of
             Some r \<Rightarrow> Some r
           | None \<Rightarrow> (case find (\<lambda>r. rv_verdict r = PStr ''APPROVE'') results of
                        Some r \<Rightarrow> Some r
                      | None \<Rightarrow> Some (hd results)))"

section \<open>What a parsed review says\<close>

abbreviation is_p1_finding :: "parsed_finding \<Rightarrow> bool" where
  "is_p1_finding f \<equiv> pf_severity f = PStr ''P1''"

fun finding_of :: "(rat \<Rightarrow> string) \<Rightarrow> string \<Rightarrow> nat \<times> pyval \<Rightarrow> parsed_finding list" where
  "finding_of fr reporter (i, PDict f) = [fst (extract_finding fr reporter i f)]"
| "finding_of fr reporter (i, _) = []"

lemma payload_findings:
  "fst (fold (payload_step fr reporter) ixs acc) = fst acc @ concat (map (finding_of fr reporter) ixs)"
proof (induction ixs arbitrary: acc)
  case (Cons ix ixs)
  have "fst (payload_step fr reporter ix acc) = fst acc @ finding_of fr reporter ix"
    by (cases acc; cases ix; cases "snd ix") (auto split: prod.splits)
  with Cons.IH [of "payload_step fr reporter ix acc"] show ?case by simp
qed simp

lemma extracted_severity: "pf_severity (fst (extract_finding fr reporter i f)) = py_get_default f ''severity'' (PStr ''P2'')"
  by (simp add: extract_finding_def case_prod_beta)

lemma py_get_default_present: "py_get d k \<noteq> PNone \<Longrightarrow> py_get_default d k v = py_get d k"
  by (auto simp: py_get_default_def py_get_def split: option.splits)

lemma good_finding_extracted:
  "good_finding (snd ix) \<Longrightarrow> \<exists>f. finding_of fr reporter ix = [f] \<and> (is_p1_finding f \<longleftrightarrow> is_p1 (snd ix))
     \<and> pf_severity f \<in> PStr ` set valid_severities"
  by (cases ix; cases "snd ix") (auto simp: extracted_severity one_of_def valid_severities_def py_get_default_present)

lemma good_findings_extracted:
  assumes "list_all good_finding xs"
  shows "list_ex is_p1_finding (concat (map (finding_of fr reporter) (enumerate n xs))) \<longleftrightarrow> list_ex is_p1 xs"
    and "list_all (\<lambda>f. pf_severity f \<in> PStr ` set valid_severities) (concat (map (finding_of fr reporter) (enumerate n xs)))"
proof -
  have "(list_ex is_p1_finding (concat (map (finding_of fr reporter) (enumerate n xs))) \<longleftrightarrow> list_ex is_p1 xs)
      \<and> list_all (\<lambda>f. pf_severity f \<in> PStr ` set valid_severities) (concat (map (finding_of fr reporter) (enumerate n xs)))"
    using assms
  proof (induction xs arbitrary: n)
    case (Cons x xs)
    from Cons.prems have "good_finding (snd (n, x))" by simp
    from good_finding_extracted [OF this, of fr reporter] obtain f where
      "finding_of fr reporter (n, x) = [f]" "is_p1_finding f \<longleftrightarrow> is_p1 x" "pf_severity f \<in> PStr ` set valid_severities" by auto
    with Cons.IH [of "Suc n"] Cons.prems show ?case by simp
  qed simp
  then show "list_ex is_p1_finding (concat (map (finding_of fr reporter) (enumerate n xs))) \<longleftrightarrow> list_ex is_p1 xs"
    "list_all (\<lambda>f. pf_severity f \<in> PStr ` set valid_severities) (concat (map (finding_of fr reporter) (enumerate n xs)))"
    by blast+
qed

lemma good_ac_extracted: "good_ac_entry v \<Longrightarrow> \<exists>a. ac_entry v = [a] \<and> (ac_status a = ''VERIFIED'' \<longleftrightarrow> is_verified v)"
  by (cases v) (auto simp: one_of_def split: pyval.splits elim!: non_empty_string.elims)

lemma good_acs_extracted:
  "list_all good_ac_entry acs \<Longrightarrow> length (concat (map ac_entry acs)) = length acs
     \<and> (list_all (\<lambda>a. ac_status a = ''VERIFIED'') (concat (map ac_entry acs)) \<longleftrightarrow> list_all is_verified acs)"
proof (induction acs)
  case (Cons v acs)
  from good_ac_extracted [of v] Cons.prems obtain a where "ac_entry v = [a]" "ac_status a = ''VERIFIED'' \<longleftrightarrow> is_verified v" by auto
  with Cons show ?case by simp
qed simp

lemma parse_review_json_Inr:
  assumes "parse_review_json fr data reporter = Inr r"
  defines "d \<equiv> repair_review_yaml data"
  shows "\<exists>xs. py_iter (py_get_default d ''findings'' (PList [])) = Inr xs
    \<and> rv_findings r = concat (map (finding_of fr reporter) (enumerate 0 xs))
    \<and> rv_verdict r = py_get_default d ''verdict'' (PStr ''REQUEST_CHANGES'')
    \<and> rv_parse_errors r = validate_review_yaml fr d \<and> rv_ac_verification r = extract_ac_verification d
    \<and> (rv_criteria_enumerable r, rv_criteria_enumerable_rationale r) = extract_criteria_enumerable d"
  using assms(1) unfolding parse_review_json_def Let_def d_def [symmetric] py_bind_eq_Inr extract_review_payload_def
  by (auto simp: case_prod_beta payload_findings py_bind_eq_Inr Let_def)

text \<open>The justification a review carries with its verdict.\<close>

definition justified :: "review_result \<Rightarrow> bool" where
  "justified r \<longleftrightarrow>
     list_all (\<lambda>f. pf_severity f \<in> PStr ` set valid_severities) (rv_findings r)
     \<and> (rv_verdict r = PStr ''APPROVE'' \<and> \<not> list_ex is_p1_finding (rv_findings r)
          \<and> list_all (\<lambda>a. ac_status a = ''VERIFIED'') (rv_ac_verification r)
          \<and> (rv_ac_verification r = [] \<longrightarrow> \<not> rv_criteria_enumerable r \<and> py_strip (rv_criteria_enumerable_rationale r) \<noteq> [])
        \<or> rv_verdict r = PStr ''REQUEST_CHANGES'' \<and> list_ex is_p1_finding (rv_findings r))"

lemma json_review_justified:
  assumes parse: "parse_review_json fr data reporter = Inr r" and ok: "rv_parse_errors r = []"
  shows "justified r"
proof -
  define d where "d = repair_review_yaml data"
  from parse_review_json_Inr [OF parse] obtain xs where
    xs: "py_iter (py_get_default d ''findings'' (PList [])) = Inr xs"
    and f: "rv_findings r = concat (map (finding_of fr reporter) (enumerate 0 xs))"
    and v: "rv_verdict r = py_get_default d ''verdict'' (PStr ''REQUEST_CHANGES'')"
    and e: "rv_parse_errors r = validate_review_yaml fr d" and ac: "rv_ac_verification r = extract_ac_verification d"
    and c: "(rv_criteria_enumerable r, rv_criteria_enumerable_rationale r) = extract_criteria_enumerable d"
    unfolding d_def by blast
  from ok e have "review_contract d" by (simp add: validate_review_exact)
  then obtain findings acs where l: "list_of (py_get d ''findings'') = Some findings"
      "list_of (py_get d ''ac_verification'') = Some acs"
    and good: "list_all good_finding findings" "list_all good_ac_entry acs"
    and verdict: "py_get d ''verdict'' = PStr ''APPROVE'' \<and> approval_allowed d findings acs
       \<or> py_get d ''verdict'' = PStr ''REQUEST_CHANGES'' \<and> list_ex is_p1 findings"
    unfolding review_contract_def by blast
  have fl: "py_get d ''findings'' = PList findings" "py_get d ''ac_verification'' = PList acs"
    using l by (auto simp: d_def repair_findings_value repair_ac_value elim!: list_of.elims split: pyval.splits)
  with xs have xs': "xs = findings" by (simp add: py_get_default_present)
  have verdict': "rv_verdict r = py_get d ''verdict''" unfolding v by (rule py_get_default_present) (use verdict in auto)
  have acs: "rv_ac_verification r = concat (map ac_entry acs)" by (simp add: ac extract_ac_verification_def fl)
  have flag: "dict_get d ''criteria_enumerable'' = Some (PBool False) \<Longrightarrow> \<not> rv_criteria_enumerable r"
    using c by (simp add: extract_criteria_enumerable_def py_get_default_def)
  have rat: "non_empty_string (py_get d ''criteria_enumerable_rationale'') \<Longrightarrow> py_strip (rv_criteria_enumerable_rationale r) \<noteq> []"
    using c by (auto simp: extract_criteria_enumerable_def elim!: non_empty_string.elims)
  note found = good_findings_extracted [OF good(1), of fr reporter 0, folded f [unfolded xs']]
  note table = good_acs_extracted [OF good(2), folded acs]
  show ?thesis unfolding justified_def verdict'
    using verdict found table flag rat by (auto simp: approval_allowed_def)
qed

text \<open>
  A review that parses without errors is justified: an approval has no P1 finding, every criterion of
  its table is verified, and an empty table comes with a reason; a request for changes has a P1 finding.
\<close>

theorem parsed_review_justified:
  assumes "try_parse_review fr safe_load output structured_data reporter = Inr (Some r)"
  shows "justified r"
proof -
  from assms have ok: "rv_parse_errors r = []"
    by (auto simp: try_parse_review_def py_bind_eq_Inr split: if_splits)
  from assms obtain data where "parse_review_json fr data reporter = Inr r"
    by (auto simp: try_parse_review_def py_bind_eq_Inr parse_review_output_def failed_review_def
        split: if_splits option.splits list.splits sum.splits pyval.splits)
  from json_review_justified [OF this ok] show ?thesis .
qed

definition approving_review :: pydict where
  "approving_review = [(''verdict'', PStr ''APPROVE''), (''summary'', PStr ''ok''),
     (''ac_verification'', PList [PDict [(''criterion'', PStr ''c''), (''status'', PStr ''VERIFIED''), (''evidence'', PStr ''e'')]])]"

lemma approving_review_contract: "review_contract (repair_review_yaml approving_review)"
  by (simp add: approving_review_def repair_review_yaml_def repair_findings_def repair_compliance_def repair_coverage_def
      repair_ac_verification_def review_contract_def py_get_def py_strip_def py_isspace_def code_point_def py_or_def
      optional_kinds_def approval_allowed_def one_of_def valid_ac_verification_statuses_def)

lemma approving_review_accepted:
  "\<exists>r. try_parse_review fr safe_load output (Some approving_review) reporter = Inr (Some r)"
proof -
  have "py_iter (py_get_default (repair_review_yaml approving_review) ''findings'' (PList [])) = Inr []"
    by (simp add: approving_review_def repair_review_yaml_def repair_findings_def repair_compliance_def repair_coverage_def
        repair_ac_verification_def py_get_def py_get_default_def)
  then have "\<exists>r. parse_review_json fr approving_review reporter = Inr r"
    by (simp add: parse_review_json_def extract_review_payload_def Let_def case_prod_beta)
  then obtain r where r: "parse_review_json fr approving_review reporter = Inr r" ..
  with parse_review_json_Inr [OF r] approving_review_contract have "rv_parse_errors r = []" by (metis validate_review_exact)
  with r show ?thesis by (simp add: try_parse_review_def approving_review_def)
qed

theorem parsed_review_justified_witness:
  "\<exists>r. try_parse_review (\<lambda>_. []) (\<lambda>_. Inl []) [] (Some approving_review) ''a'' = Inr (Some r) \<and> justified r"
proof -
  obtain r where r: "try_parse_review (\<lambda>_. []) (\<lambda>_. Inl []) [] (Some approving_review) ''a'' = Inr (Some r)"
    using approving_review_accepted by blast
  from parsed_review_justified [OF r] r show ?thesis by blast
qed

text \<open>
  Reading a review fails with an exception exactly when its findings are a number or a boolean: the
  validator reports such a value, but the findings are read from the same value afterwards and the
  loop over it raises.
\<close>

theorem parse_raises_iff:
  "(\<exists>e. parse_review_json fr data reporter = Inl e) \<longleftrightarrow> py_number (py_get data ''findings'') \<noteq> None"
proof -
  have iter: "py_get_default (repair_review_yaml data) ''findings'' (PList []) = py_get (repair_review_yaml data) ''findings''"
    by (rule py_get_default_present) (auto simp: repair_findings_value split: pyval.splits)
  have "(\<exists>e. parse_review_json fr data reporter = Inl e) \<longleftrightarrow> (\<exists>e. py_iter (py_get (repair_review_yaml data) ''findings'') = Inl e)"
    unfolding parse_review_json_def Let_def extract_review_payload_def iter
    by (auto simp: py_bind_eq_Inl py_bind_eq_Inr case_prod_beta Let_def)
  also have "\<dots> \<longleftrightarrow> py_number (py_get data ''findings'') \<noteq> None"
    unfolding repair_findings_value by (cases "py_get data ''findings''") auto
  finally show ?thesis .
qed

text \<open>Cleaning a text removes exactly the control characters, counts them, and is done after one pass.\<close>

theorem sanitize_exact:
  assumes "sanitize_llm_text fr (PStr s) name = (t, audit)"
  shows "list_all keep_char t \<and> sanitize_llm_text fr (PStr t) name = (t, [])
    \<and> int (length s) = int (length t) + (case dict_get audit name of None \<Rightarrow> 0 | Some n \<Rightarrow> n)
    \<and> (audit = [] \<longleftrightarrow> t = s)"
proof -
  from assms have t: "t = filter keep_char s" by (auto simp: sanitize_llm_text_def Let_def split: if_splits)
  have l: "length s = length t + length (filter (\<lambda>c. \<not> keep_char c) s)" unfolding t by (rule sum_length_filter_compl [symmetric])
  have k: "filter (\<lambda>c. \<not> keep_char c) t = []" by (simp add: t filter_empty_conv)
  have e: "filter (\<lambda>c. \<not> keep_char c) s = [] \<longleftrightarrow> t = s"
    unfolding t by (metis (no_types, lifting) filter_True filter_empty_conv filter_id_conv)
  show ?thesis using assms l k e by (auto simp: sanitize_llm_text_def Let_def t list_all_iff split: if_splits)
qed

end
