(* ===== verification/Review_Merge.thy ===== *)
theory Review_Merge
  imports Review_Parse
begin

text \<open>
  Merging the reviews of several reviewers without another model call (\<^verbatim>\<open>review.py\<close>): reviewers whose
  output did not parse are left out, the verdicts and flags are combined, equal findings are merged with
  their reviewers, and the verification tables are combined to the worst status per criterion. And the
  text a dev agent gets from a review. Log lines have no counterpart.
\<close>

section \<open>Findings\<close>

text \<open>
  The key of a finding in a dictionary: Python compares numbers and booleans by value, and refuses a
  list or a mapping as part of a key.
\<close>

type_synonym finding_key = "(rat + pyval) \<times> int option \<times> string"

fun unhashable :: "pyval \<Rightarrow> bool" where
  "unhashable (PList xs) = True"
| "unhashable (PDict d) = True"
| "unhashable _ = False"

definition hash_key :: "pyval \<Rightarrow> rat + pyval" where
  "hash_key v = (case py_number v of Some x \<Rightarrow> Inl x | None \<Rightarrow> Inr v)"

definition normalize_description :: "string \<Rightarrow> string" where
  "normalize_description description = py_lower (py_strip description)"

definition finding_key :: "parsed_finding \<Rightarrow> finding_key" where
  "finding_key f = (hash_key (pf_file f), pf_line f, normalize_description (pf_observed f))"

record dedup_state =
  dd_canonical :: "(finding_key, parsed_finding) dict"
  dd_seen_reviewers :: "(finding_key, string list) dict"

definition dedup_step :: "string \<times> parsed_finding \<Rightarrow> dedup_state \<Rightarrow> dedup_state" where
  "dedup_step nf st =
     (let key = finding_key (snd nf);
          st' = (if key \<notin> set (dict_keys (dd_canonical st))
                 then \<lparr>dd_canonical = dict_set key (snd nf) (dd_canonical st),
                       dd_seen_reviewers = dict_set key [] (dd_seen_reviewers st)\<rparr>
                 else st)
      in st'\<lparr>dd_seen_reviewers := dict_set key (the (dict_get (dd_seen_reviewers st') key) @ [fst nf]) (dd_seen_reviewers st')\<rparr>)"

definition dedup_findings :: "(string \<times> parsed_finding) list \<Rightarrow> parsed_finding list py_result" where
  "dedup_findings reviewer_findings =
     (if list_ex (\<lambda>nf. unhashable (pf_file (snd nf))) reviewer_findings then Inl (TypeError ''unhashable type'')
      else (let st = fold dedup_step reviewer_findings \<lparr>dd_canonical = [], dd_seen_reviewers = []\<rparr>
            in Inr (map (\<lambda>(key, f). f\<lparr>pf_reviewers := the (dict_get (dd_seen_reviewers st) key)\<rparr>) (dd_canonical st))))"

section \<open>Verification tables\<close>

definition ac_rank :: "string \<Rightarrow> nat" where
  "ac_rank status = (if status = ''PARTIAL'' then 1 else if status = ''NOT_VERIFIED'' then 2 else 0)"

definition ac_key :: "ac_verification \<Rightarrow> string" where
  "ac_key entry = py_lower (py_strip (ac_criterion entry))"

definition merge_ac_entry :: "ac_verification \<Rightarrow> ac_verification \<Rightarrow> ac_verification" where
  "merge_ac_entry existing entry =
     (let worse = ac_rank (ac_status entry) > ac_rank (ac_status existing);
          merged_evidence = (if worse then ac_evidence entry else ac_evidence existing);
          merged_evidence = (if ac_evidence existing \<noteq> [] \<and> ac_evidence entry \<noteq> [] \<and> ac_evidence existing \<noteq> ac_evidence entry
                             then ac_evidence existing @ ''; '' @ ac_evidence entry else merged_evidence)
      in \<lparr>ac_criterion = ac_criterion existing, ac_status = (if worse then ac_status entry else ac_status existing),
          ac_evidence = merged_evidence\<rparr>)"

text \<open>The keys of the dictionary are in the order of first appearance, which the code keeps in a list of its own.\<close>

definition merge_ac_step :: "ac_verification \<Rightarrow> (string, ac_verification) dict \<Rightarrow> (string, ac_verification) dict" where
  "merge_ac_step entry by_key =
     (case dict_get by_key (ac_key entry) of
        None \<Rightarrow> dict_set (ac_key entry) entry by_key
      | Some existing \<Rightarrow> dict_set (ac_key entry) (merge_ac_entry existing entry) by_key)"

definition merge_ac_verification :: "ac_verification list list \<Rightarrow> ac_verification list" where
  "merge_ac_verification per_reviewer = map snd (fold merge_ac_step (concat per_reviewer) [])"

section \<open>Merging the reviews\<close>

definition valid_reviews :: "string list \<Rightarrow> review_result list \<Rightarrow> (string \<times> review_result) list" where
  "valid_reviews names results = filter (\<lambda>(name, r). rv_parse_errors r = []) (zip names results)"

definition excluded_errors :: "string list \<Rightarrow> review_result list \<Rightarrow> parse_error list" where
  "excluded_errors names results =
     concat (map (\<lambda>(name, r). map (\<lambda>e. \<lparr>pe_stage = pe_stage e, pe_message = ''['' @ name @ ''] '' @ pe_message e\<rparr>)
                                   (rv_parse_errors r)) (zip names results))"

definition labelled :: "string \<Rightarrow> string \<Rightarrow> string" where
  "labelled name t = ''['' @ name @ ''] '' @ t"

definition merge_review_results ::
    "(rat \<Rightarrow> string) \<Rightarrow> review_result list \<Rightarrow> string list \<Rightarrow> review_result py_result" where
  "merge_review_results fr results names =
     (let valid = valid_reviews names results; errors = excluded_errors names results
      in if valid = [] then
           Inr \<lparr>rv_verdict = PStr ''REQUEST_CHANGES'', rv_summary = ''All reviewers produced unparseable output'',
                rv_findings = [], rv_story_matches = PBool True, rv_story_mismatches = [],
                rv_test_adequate = PBool True, rv_test_gaps = [],
                rv_parse_errors = (if errors \<noteq> [] then errors
                  else [\<lparr>pe_stage = ''STRUCTURE'', pe_message = ''All reviewers failed to produce valid output''\<rparr>]),
                rv_raw_yaml = [], rv_ac_verification = [], rv_criteria_enumerable = True,
                rv_criteria_enumerable_rationale = [], rv_sanitization_audit = []\<rparr>
         else
           (let verdict = (if list_ex (\<lambda>(n, r). rv_verdict r = PStr ''REQUEST_CHANGES'') valid
                           then ''REQUEST_CHANGES'' else ''APPROVE'');
                summary = py_join '' | '' (map (\<lambda>(name, r). labelled name (rv_summary r)) valid);
                reviewer_findings = concat (map (\<lambda>(name, r). map (\<lambda>f. (name, f)) (rv_findings r)) valid);
                story_mismatches = concat (map (\<lambda>(name, r). map (\<lambda>m. PStr (labelled name (py_str fr m))) (rv_story_mismatches r)) valid);
                test_gaps = concat (map (\<lambda>(name, r). map (\<lambda>g. PStr (labelled name (py_str fr g))) (rv_test_gaps r)) valid);
                merged_enumerable = list_ex (\<lambda>(n, r). rv_criteria_enumerable r) valid
            in py_bind (dedup_findings reviewer_findings) (\<lambda>all_findings.
                 Inr \<lparr>rv_verdict = PStr verdict, rv_summary = summary, rv_findings = all_findings,
                      rv_story_matches = PBool (list_all (\<lambda>(n, r). py_truthy (rv_story_matches r)) valid),
                      rv_story_mismatches = story_mismatches,
                      rv_test_adequate = PBool (list_all (\<lambda>(n, r). py_truthy (rv_test_adequate r)) valid),
                      rv_test_gaps = test_gaps, rv_parse_errors = [], rv_raw_yaml = [],
                      rv_ac_verification = merge_ac_verification (map (\<lambda>(n, r). rv_ac_verification r) valid),
                      rv_criteria_enumerable = merged_enumerable,
                      rv_criteria_enumerable_rationale =
                        (if \<not> merged_enumerable
                         then py_join '' | '' (map (\<lambda>(name, r). labelled name (rv_criteria_enumerable_rationale r))
                                (filter (\<lambda>(n, r). \<not> rv_criteria_enumerable r \<and> py_strip (rv_criteria_enumerable_rationale r) \<noteq> []) valid))
                         else []),
                      rv_sanitization_audit = merge_sanitization_audits (map (\<lambda>(n, r). rv_sanitization_audit r) valid)\<rparr>)))"

section \<open>Text for the dev agent\<close>

definition newline :: string where
  "newline = [CHR 0x0A]"

definition code_span :: "string \<Rightarrow> string" where
  "code_span s = [CHR 0x60] @ s @ [CHR 0x60]"

definition finding_heading :: "(rat \<Rightarrow> string) \<Rightarrow> (int \<Rightarrow> bool) \<Rightarrow> parsed_finding \<Rightarrow> string" where
  "finding_heading fr shown f =
     ''### ['' @ py_str fr (pf_severity f) @ ''] '' @ code_span (py_str fr (pf_file f))
     @ (case pf_line f of None \<Rightarrow> [] | Some n \<Rightarrow> if shown n then '' (line '' @ py_str_int n @ '')'' else [])"

definition fix_lines :: "parsed_finding \<Rightarrow> string list" where
  "fix_lines f = (case pf_suggestion f of None \<Rightarrow> [] | Some s \<Rightarrow> if s = [] then [] else [''**Fix:** '' @ s])"

definition findings_to_markdown :: "(rat \<Rightarrow> string) \<Rightarrow> parsed_finding list \<Rightarrow> string" where
  "findings_to_markdown fr findings =
     (if findings = [] then ''No findings.''
      else py_join newline (concat (map (\<lambda>f.
             [finding_heading fr (\<lambda>n. n \<noteq> 0) f, ''**Issue:** '' @ pf_observed f] @ fix_lines f @ [[]]) findings)))"

definition bullets :: "(rat \<Rightarrow> string) \<Rightarrow> pyval list \<Rightarrow> string" where
  "bullets fr xs = py_join newline (map (\<lambda>m. ''- '' @ py_str fr m) xs)"

definition review_to_dev_handoff :: "(rat \<Rightarrow> string) \<Rightarrow> review_result \<Rightarrow> string" where
  "review_to_dev_handoff fr r =
     py_join (newline @ newline)
       ([''## Review Summary'' @ newline @ rv_summary r]
        @ (if \<not> py_truthy (rv_story_matches r) \<and> rv_story_mismatches r \<noteq> []
           then [''## Spec Compliance Issues'' @ newline @ bullets fr (rv_story_mismatches r)] else [])
        @ (if \<not> py_truthy (rv_test_adequate r) \<and> rv_test_gaps r \<noteq> []
           then [''## Missing Test Coverage'' @ newline @ bullets fr (rv_test_gaps r)] else [])
        @ (if rv_findings r = [] then [''## Findings'' @ newline @ newline @ ''No findings.'']
           else [py_join newline (''## Findings'' # concat (map (\<lambda>f.
                   [newline @ finding_heading fr (\<lambda>_. True) f, ''**Issue:** '' @ pf_observed f] @ fix_lines f) (rv_findings r)))]))"

definition text_or :: "(rat \<Rightarrow> string) \<Rightarrow> pyval \<Rightarrow> string \<Rightarrow> string" where
  "text_or fr v alternative = (if py_truthy v then py_str fr v else alternative)"

definition convention_finding :: "(rat \<Rightarrow> string) \<Rightarrow> pydict \<Rightarrow> parsed_finding" where
  "convention_finding fr violation =
     (let path = text_or fr (py_get violation ''file'') ''unknown'';
          rule = text_or fr (py_get violation ''rule'') ''unknown'';
          detail = text_or fr (py_get violation ''detail'') ''No details recorded.''
      in \<lparr>pf_severity = PStr ''P1'', pf_file = PStr path, pf_line = None,
          pf_observed = ''Hard convention violation ['' @ rule @ ''] in '' @ path @ '': '' @ detail,
          pf_suggestion = Some (''Resolve the ['' @ rule @ ''] convention violation in '' @ path @ ''.''),
          pf_expected = ''Code merged to main must conform to the project'' @ [CHR 0x27] @ ''s hard conventions; ''
            @ ''any violation flagged as blocking must be resolved before approval, ''
            @ ''regardless of the originating rule.'',
          pf_evidence = path @ '' (rule: '' @ rule @ '')'', pf_reviewers = [], pf_reporter = []\<rparr>)"

definition convention_violations_to_review_findings :: "(rat \<Rightarrow> string) \<Rightarrow> pydict list option \<Rightarrow> parsed_finding list" where
  "convention_violations_to_review_findings fr violations =
     map (convention_finding fr)
       (filter (\<lambda>v. py_truthy (py_get_default v ''blocking'' (PBool False)))
          (case violations of None \<Rightarrow> [] | Some vs \<Rightarrow> vs))"

definition append_convention_retry_findings ::
    "(rat \<Rightarrow> string) \<Rightarrow> string option \<Rightarrow> pydict list option \<Rightarrow> string option" where
  "append_convention_retry_findings fr existing_feedback violations =
     (let convention_findings = convention_violations_to_review_findings fr violations;
          convention_block = py_join newline [''## Blocking Convention Violations'', [], findings_to_markdown fr convention_findings]
      in if convention_findings = [] then existing_feedback
         else case existing_feedback of
                Some (c # cs) \<Rightarrow> Some ((c # cs) @ newline @ newline @ convention_block)
              | _ \<Rightarrow> Some convention_block)"

section \<open>Merged findings\<close>

abbreviation same_finding :: "finding_key \<Rightarrow> (string \<times> parsed_finding) list \<Rightarrow> (string \<times> parsed_finding) list" where
  "same_finding key nfs \<equiv> filter (\<lambda>nf. finding_key (snd nf) = key) nfs"

definition dedup_inv :: "(string \<times> parsed_finding) list \<Rightarrow> dedup_state \<Rightarrow> bool" where
  "dedup_inv nfs st \<longleftrightarrow> dict_wf (dd_canonical st)
     \<and> (\<forall>key. dict_get (dd_canonical st) key =
            (if same_finding key nfs = [] then None else Some (snd (hd (same_finding key nfs)))))
     \<and> (\<forall>key. dict_get (dd_seen_reviewers st) key =
            (if same_finding key nfs = [] then None else Some (map fst (same_finding key nfs))))"

lemma dedup_invD:
  assumes "dedup_inv nfs st"
  shows "dict_wf (dd_canonical st)"
    and "dict_get (dd_canonical st) key = (if same_finding key nfs = [] then None else Some (snd (hd (same_finding key nfs))))"
    and "dict_get (dd_seen_reviewers st) key = (if same_finding key nfs = [] then None else Some (map fst (same_finding key nfs)))"
  using assms unfolding dedup_inv_def by blast+

lemma dedup_step_inv:
  assumes "dedup_inv nfs st"
  shows "dedup_inv (nfs @ [nf]) (dedup_step nf st)"
proof -
  note inv = dedup_invD [OF assms]
  have new: "finding_key (snd nf) \<notin> set (dict_keys (dd_canonical st)) \<longleftrightarrow> same_finding (finding_key (snd nf)) nfs = []"
    unfolding dict_get_None [symmetric] by (simp add: inv(2))
  show ?thesis unfolding dedup_inv_def
    by (intro conjI allI) (use new in \<open>auto simp: dedup_step_def Let_def inv simp del: split_paired_All split_paired_Ex map_of_eq_Some_iff\<close>)
qed

lemma dedup_fold_inv: "dedup_inv nfs (fold dedup_step nfs \<lparr>dd_canonical = [], dd_seen_reviewers = []\<rparr>)"
proof (induction nfs rule: rev_induct)
  case Nil
  show ?case by (simp add: dedup_inv_def)
next
  case (snoc nf nfs)
  then show ?case by (simp add: dedup_step_inv)
qed

lemma finding_key_reviewers [simp]: "finding_key (f\<lparr>pf_reviewers := rs\<rparr>) = finding_key f"
  by (simp add: finding_key_def)

lemma dedup_output:
  assumes "dedup_findings nfs = Inr out"
  shows "distinct (map finding_key out)" "set (map finding_key out) = (finding_key \<circ> snd) ` set nfs"
    and "f \<in> set out \<Longrightarrow> \<exists>nf. same_finding (finding_key f) nfs \<noteq> [] \<and> nf = hd (same_finding (finding_key f) nfs)
           \<and> f = (snd nf)\<lparr>pf_reviewers := map fst (same_finding (finding_key f) nfs)\<rparr>"
proof -
  define st where "st = fold dedup_step nfs \<lparr>dd_canonical = [], dd_seen_reviewers = []\<rparr>"
  have inv: "dedup_inv nfs st" unfolding st_def by (rule dedup_fold_inv)
  have out: "out = map (\<lambda>(key, f). f\<lparr>pf_reviewers := the (dict_get (dd_seen_reviewers st) key)\<rparr>) (dd_canonical st)"
    using assms by (auto simp: dedup_findings_def Let_def st_def split: if_splits)
  have entry: "same_finding key nfs \<noteq> [] \<and> f = snd (hd (same_finding key nfs)) \<and> finding_key f = key
      \<and> dict_get (dd_seen_reviewers st) key = Some (map fst (same_finding key nfs))"
    if "(key, f) \<in> set (dd_canonical st)" for key f
  proof -
    from that dedup_invD(1) [OF inv] have "dict_get (dd_canonical st) key = Some f" by simp
    with dedup_invD(2) [OF inv, of key] have ne: "same_finding key nfs \<noteq> []" and f: "f = snd (hd (same_finding key nfs))"
      by (simp_all del: map_of_eq_Some_iff split: if_splits)
    from ne have "hd (same_finding key nfs) \<in> set (same_finding key nfs)" by (rule hd_in_set)
    with ne f show ?thesis by (simp add: dedup_invD(3) [OF inv])
  qed
  have keys: "map finding_key out = dict_keys (dd_canonical st)"
    unfolding out using entry by (auto simp: case_prod_beta)
  show "distinct (map finding_key out)" unfolding keys by (rule dedup_invD(1) [OF inv])
  have "key \<in> set (dict_keys (dd_canonical st)) \<longleftrightarrow> same_finding key nfs \<noteq> []" for key
    using dict_get_None [of "dd_canonical st" key] dedup_invD(2) [OF inv, of key] by (metis option.distinct(1))
  moreover have "same_finding key nfs \<noteq> [] \<longleftrightarrow> key \<in> (finding_key \<circ> snd) ` set nfs" for key
    by (auto simp: filter_empty_conv image_iff)
  ultimately show "set (map finding_key out) = (finding_key \<circ> snd) ` set nfs"
    unfolding keys by (intro set_eqI) metis
  assume "f \<in> set out"
  then obtain key f0 where "(key, f0) \<in> set (dd_canonical st)"
      "f = f0\<lparr>pf_reviewers := the (dict_get (dd_seen_reviewers st) key)\<rparr>" by (auto simp: out)
  with entry [of key f0] show "\<exists>nf. same_finding (finding_key f) nfs \<noteq> [] \<and> nf = hd (same_finding (finding_key f) nfs)
           \<and> f = (snd nf)\<lparr>pf_reviewers := map fst (same_finding (finding_key f) nfs)\<rparr>" by auto
qed

text \<open>
  Merging equal findings loses none and credits every reviewer: one finding is kept per file, line and
  text, it is the first reported one, and its reviewers are those who reported it, in order.
\<close>

theorem dedup_exact:
  assumes "dedup_findings nfs = Inr out"
  shows "distinct (map finding_key out) \<and> set (map finding_key out) = (finding_key \<circ> snd) ` set nfs
    \<and> (\<forall>f \<in> set out. \<exists>first rest. same_finding (finding_key f) nfs = first # rest
          \<and> f = (snd first)\<lparr>pf_reviewers := map fst (first # rest)\<rparr>)"
  using dedup_output [OF assms] by (metis list.collapse)

section \<open>Merged verification tables\<close>

abbreviation same_criterion :: "string \<Rightarrow> ac_verification list \<Rightarrow> ac_verification set" where
  "same_criterion key es \<equiv> {e \<in> set es. ac_key e = key}"

definition ac_inv :: "ac_verification list \<Rightarrow> (string, ac_verification) dict \<Rightarrow> bool" where
  "ac_inv es d \<longleftrightarrow> dict_wf d \<and> set (dict_keys d) = ac_key ` set es
     \<and> (\<forall>key v. dict_get d key = Some v \<longrightarrow> ac_key v = key \<and> ac_status v \<in> ac_status ` same_criterion key es
           \<and> (\<forall>e \<in> same_criterion key es. ac_rank (ac_status e) \<le> ac_rank (ac_status v)))"

lemma ac_key_merge: "ac_key (merge_ac_entry v e) = ac_key v"
  by (simp add: merge_ac_entry_def ac_key_def Let_def)

lemma ac_status_merge: "ac_status (merge_ac_entry v e) = (if ac_rank (ac_status e) > ac_rank (ac_status v) then ac_status e else ac_status v)"
  by (simp add: merge_ac_entry_def Let_def)

lemma ac_inv_set:
  assumes inv: "ac_inv es d" and v: "ac_key v = ac_key e" "ac_status v \<in> ac_status ` same_criterion (ac_key e) (es @ [e])"
      "\<forall>x \<in> same_criterion (ac_key e) (es @ [e]). ac_rank (ac_status x) \<le> ac_rank (ac_status v)"
  shows "ac_inv (es @ [e]) (dict_set (ac_key e) v d)"
proof -
  have "same_criterion key (es @ [e]) = same_criterion key es" if "key \<noteq> ac_key e" for key using that by auto
  with inv v show ?thesis by (simp add: ac_inv_def del: set_append map_of_eq_Some_iff) auto
qed

lemma merge_ac_step_inv:
  assumes inv: "ac_inv es d"
  shows "ac_inv (es @ [e]) (merge_ac_step e d)"
proof (cases "dict_get d (ac_key e)")
  case None
  then have "ac_key e \<notin> ac_key ` set es" using inv unfolding dict_get_None by (simp add: ac_inv_def)
  then have "same_criterion (ac_key e) (es @ [e]) = {e}" by (auto simp: image_iff)
  then have "ac_inv (es @ [e]) (dict_set (ac_key e) e d)" by (intro ac_inv_set [OF inv]) simp_all
  then show ?thesis by (simp add: merge_ac_step_def None)
next
  case (Some v)
  with inv have v: "ac_key v = ac_key e" "ac_status v \<in> ac_status ` same_criterion (ac_key e) es"
      "\<forall>x \<in> same_criterion (ac_key e) es. ac_rank (ac_status x) \<le> ac_rank (ac_status v)" unfolding ac_inv_def by metis+
  have "ac_inv (es @ [e]) (dict_set (ac_key e) (merge_ac_entry v e) d)"
    using v by (intro ac_inv_set [OF inv]) (auto simp: ac_key_merge ac_status_merge)
  then show ?thesis by (simp add: merge_ac_step_def Some)
qed

lemma merge_ac_fold_inv: "ac_inv es (fold merge_ac_step es [])"
proof (induction es rule: rev_induct)
  case Nil
  show ?case by (simp add: ac_inv_def)
next
  case (snoc e es)
  then show ?case by (simp add: merge_ac_step_inv)
qed

lemma ac_inv_Nil: "ac_inv es [] \<Longrightarrow> es = []"
  by (simp add: ac_inv_def)

lemma merged_entry:
  assumes "v \<in> set (merge_ac_verification tables)"
  shows "ac_status v \<in> ac_status ` same_criterion (ac_key v) (concat tables)
    \<and> (\<forall>e \<in> same_criterion (ac_key v) (concat tables). ac_rank (ac_status e) \<le> ac_rank (ac_status v))"
proof -
  from assms obtain key where "(key, v) \<in> set (fold merge_ac_step (concat tables) [])"
    by (auto simp: merge_ac_verification_def)
  moreover have inv: "ac_inv (concat tables) (fold merge_ac_step (concat tables) [])" by (rule merge_ac_fold_inv)
  ultimately have "dict_get (fold merge_ac_step (concat tables) []) key = Some v" by (simp add: ac_inv_def)
  with inv show ?thesis by (auto simp: ac_inv_def)
qed

lemma merged_keys:
  "map ac_key (merge_ac_verification tables) = dict_keys (fold merge_ac_step (concat tables) [])"
proof -
  have inv: "ac_inv (concat tables) (fold merge_ac_step (concat tables) [])" by (rule merge_ac_fold_inv)
  then have "ac_key v = key" if "(key, v) \<in> set (fold merge_ac_step (concat tables) [])" for key v
    using that by (auto simp: ac_inv_def)
  then show ?thesis by (auto simp: merge_ac_verification_def)
qed

text \<open>
  The merged table has each criterion once, and its status is the worst any reviewer gave it: no
  reviewer's doubt about a criterion is lost.
\<close>

theorem ac_merge_takes_worst:
  "distinct (map ac_key (merge_ac_verification tables))
    \<and> ac_key ` set (merge_ac_verification tables) = ac_key ` set (concat tables)
    \<and> list_all (\<lambda>v. ac_rank (ac_status v) = Max ((ac_rank \<circ> ac_status) ` same_criterion (ac_key v) (concat tables)))
        (merge_ac_verification tables)"
proof -
  have inv: "ac_inv (concat tables) (fold merge_ac_step (concat tables) [])" by (rule merge_ac_fold_inv)
  then have "distinct (map ac_key (merge_ac_verification tables))" unfolding merged_keys by (simp add: ac_inv_def)
  moreover from inv have "ac_key ` set (merge_ac_verification tables) = ac_key ` set (concat tables)"
    using arg_cong [OF merged_keys [of tables], of set] by (simp add: ac_inv_def)
  moreover have "ac_rank (ac_status v) = Max ((ac_rank \<circ> ac_status) ` same_criterion (ac_key v) (concat tables))"
    if "v \<in> set (merge_ac_verification tables)" for v
    using merged_entry [OF that] by (intro Max_eqI [symmetric]) auto
  ultimately show ?thesis by (simp add: list_all_iff)
qed

section \<open>The merged verdict\<close>

lemma merge_Inr:
  assumes "merge_review_results fr results names = Inr m" "rv_parse_errors m = []"
  defines "valid \<equiv> valid_reviews names results"
  shows "valid \<noteq> [] \<and> (rv_verdict m = PStr ''REQUEST_CHANGES'' \<longleftrightarrow> (\<exists>(n, r) \<in> set valid. rv_verdict r = PStr ''REQUEST_CHANGES''))
    \<and> rv_verdict m \<in> {PStr ''APPROVE'', PStr ''REQUEST_CHANGES''}
    \<and> dedup_findings (concat (map (\<lambda>(name, r). map (\<lambda>f. (name, f)) (rv_findings r)) valid)) = Inr (rv_findings m)
    \<and> rv_ac_verification m = merge_ac_verification (map (\<lambda>(n, r). rv_ac_verification r) valid)
    \<and> rv_criteria_enumerable m = list_ex (\<lambda>(n, r). rv_criteria_enumerable r) valid
    \<and> (\<not> rv_criteria_enumerable m \<longrightarrow> rv_criteria_enumerable_rationale m =
         py_join '' | '' (map (\<lambda>(name, r). labelled name (rv_criteria_enumerable_rationale r))
            (filter (\<lambda>(n, r). \<not> rv_criteria_enumerable r \<and> py_strip (rv_criteria_enumerable_rationale r) \<noteq> []) valid)))"
  using assms(1,2) unfolding merge_review_results_def Let_def valid_def [symmetric]
  by (auto simp: py_bind_eq_Inr list_ex_iff case_prod_beta split: if_splits)

lemma valid_reviews_ok: "(n, r) \<in> set (valid_reviews names results) \<Longrightarrow> r \<in> set results \<and> rv_parse_errors r = []"
  by (auto simp: valid_reviews_def dest: set_zip_rightD)

lemma strip_non_space: "\<not> py_isspace c \<Longrightarrow> py_strip (c # cs) \<noteq> []"
  by (auto simp: py_strip_def)

lemma labelled_join_not_blank:
  assumes "xs \<noteq> []"
  shows "py_strip (py_join sep (map (\<lambda>(name, r). labelled name (g r)) xs)) \<noteq> []"
proof -
  from assms have "\<exists>cs. py_join sep (map (\<lambda>(name, r). labelled name (g r)) xs) = CHR ''['' # cs"
    by (cases xs; cases "tl xs") (auto simp: labelled_def)
  moreover have "\<not> py_isspace CHR ''[''" by (simp add: py_isspace_def code_point_def)
  ultimately show ?thesis using strip_non_space by metis
qed

text \<open>A property of severities that holds of every report holds of every merged finding.\<close>

lemma merged_findings_keep:
  assumes "dedup_findings (concat (map (\<lambda>(name, r). map (\<lambda>f. (name, f)) (rv_findings r)) valid)) = Inr out"
    and "\<And>n r f. (n, r) \<in> set valid \<Longrightarrow> f \<in> set (rv_findings r) \<Longrightarrow> P (pf_severity f)" "f \<in> set out"
  shows "P (pf_severity f)"
proof -
  let ?nfs = "concat (map (\<lambda>(name, r). map (\<lambda>f. (name, f)) (rv_findings r)) valid)"
  from dedup_output(3) [OF assms(1,3)] obtain nf rs where nf: "same_finding (finding_key f) ?nfs \<noteq> []"
      "nf = hd (same_finding (finding_key f) ?nfs)" and f: "f = (snd nf)\<lparr>pf_reviewers := rs\<rparr>" by blast
  from arg_cong [OF f, of pf_severity] have sev: "pf_severity f = pf_severity (snd nf)" by simp
  from hd_in_set [OF nf(1), folded nf(2)] have "nf \<in> set ?nfs" by (rule subsetD [OF filter_is_subset])
  then obtain n r where "(n, r) \<in> set valid" "snd nf \<in> set (rv_findings r)" by auto
  from assms(2) [OF this] show ?thesis by (simp only: sev)
qed

lemma merged_table_empty:
  assumes "merge_ac_verification (map (\<lambda>(n, r). rv_ac_verification r) valid) = []" "(n, r) \<in> set valid"
  shows "rv_ac_verification r = []"
proof -
  let ?tables = "map (\<lambda>(n, r). rv_ac_verification r) valid"
  from assms(1) have "map ac_key (merge_ac_verification ?tables) = []" by simp
  then have "fold merge_ac_step (concat ?tables) [] = []" unfolding merged_keys by simp
  with merge_ac_fold_inv [of "concat ?tables"] have "concat ?tables = []" by (metis ac_inv_Nil)
  with assms(2) show ?thesis by force
qed

lemma merged_table_keeps:
  assumes "v \<in> set (merge_ac_verification (map (\<lambda>(n, r). rv_ac_verification r) valid))"
    and "\<And>n r e. (n, r) \<in> set valid \<Longrightarrow> e \<in> set (rv_ac_verification r) \<Longrightarrow> P (ac_status e)"
  shows "P (ac_status v)"
proof -
  from merged_entry [OF assms(1)] obtain e where e: "e \<in> set (concat (map (\<lambda>(n, r). rv_ac_verification r) valid))"
      "ac_status v = ac_status e" by auto
  then obtain n r where "(n, r) \<in> set valid" "e \<in> set (rv_ac_verification r)" by auto
  with assms(2) e(2) show ?thesis by metis
qed

lemma merged_approval:
  assumes merge: "merge_review_results fr results names = Inr m" "rv_parse_errors m = []" "rv_verdict m = PStr ''APPROVE''"
    and just: "\<And>r. r \<in> set results \<Longrightarrow> rv_parse_errors r = [] \<Longrightarrow> justified r"
  shows "valid_reviews names results \<noteq> [] \<and> list_all (\<lambda>(n, r). rv_verdict r = PStr ''APPROVE'') (valid_reviews names results)
    \<and> justified m"
proof -
  let ?valid = "valid_reviews names results"
  note m = merge_Inr [OF merge(1,2)]
  have ok: "justified r" if "(n, r) \<in> set ?valid" for n r using valid_reviews_ok [OF that] just by blast
  from m merge(3) have "\<not> (\<exists>(n, r) \<in> set ?valid. rv_verdict r = PStr ''REQUEST_CHANGES'')" by auto
  with ok have app: "rv_verdict r = PStr ''APPROVE''" if "(n, r) \<in> set ?valid" for n r
    using that by (fastforce simp: justified_def)
  from m have "dedup_findings (concat (map (\<lambda>(name, r). map (\<lambda>f. (name, f)) (rv_findings r)) ?valid)) = Inr (rv_findings m)" by blast
  note keep = merged_findings_keep [OF this]
  have each: "pf_severity f \<noteq> PStr ''P1'' \<and> pf_severity f \<in> PStr ` set valid_severities"
    if "(n, r) \<in> set ?valid" "f \<in> set (rv_findings r)" for n r f
    using ok [OF that(1)] app [OF that(1)] that(2) by (auto simp: justified_def list_all_iff list_ex_iff)
  have found: "pf_severity f \<noteq> PStr ''P1'' \<and> pf_severity f \<in> PStr ` set valid_severities" if "f \<in> set (rv_findings m)" for f
    by (rule keep [where P = "\<lambda>v. v \<noteq> PStr ''P1'' \<and> v \<in> PStr ` set valid_severities", OF each that])
  have status: "ac_status e = ''VERIFIED''" if "(n, r) \<in> set ?valid" "e \<in> set (rv_ac_verification r)" for n r e
    using ok [OF that(1)] app [OF that(1)] that(2) by (auto simp: justified_def list_all_iff)
  have verified: "ac_status v = ''VERIFIED''" if "v \<in> set (rv_ac_verification m)" for v
    by (rule merged_table_keeps [where P = "\<lambda>s. s = ''VERIFIED''" and valid = ?valid]) (use that m status in auto)
  have blank: "\<not> rv_criteria_enumerable m \<and> py_strip (rv_criteria_enumerable_rationale m) \<noteq> []" if "rv_ac_verification m = []"
  proof -
    from that m have "merge_ac_verification (map (\<lambda>(n, r). rv_ac_verification r) ?valid) = []" by simp
    from merged_table_empty [OF this] ok app
    have enum: "\<not> rv_criteria_enumerable r \<and> py_strip (rv_criteria_enumerable_rationale r) \<noteq> []"
      if "(n, r) \<in> set ?valid" for n r using that by (fastforce simp: justified_def)
    then have f: "filter (\<lambda>(n, r). \<not> rv_criteria_enumerable r \<and> py_strip (rv_criteria_enumerable_rationale r) \<noteq> []) ?valid = ?valid"
      by (auto simp: filter_id_conv)
    from enum m have ne: "\<not> rv_criteria_enumerable m" by (auto simp: list_ex_iff)
    with m have "rv_criteria_enumerable_rationale m =
        py_join '' | '' (map (\<lambda>(name, r). labelled name (rv_criteria_enumerable_rationale r)) ?valid)" unfolding f by blast
    moreover from m have "?valid \<noteq> []" by blast
    ultimately show ?thesis using ne by (simp only: labelled_join_not_blank not_False_eq_True simp_thms)
  qed
  from m app merge(3) found verified blank show ?thesis by (auto simp: justified_def list_all_iff list_ex_iff)
qed

lemma read_review_justified:
  assumes "parse_review_output fr safe_load agent_output reporter = Inr r" "rv_parse_errors r = []"
  shows "justified r"
proof -
  from assms obtain data where "parse_review_json fr data reporter = Inr r"
    by (auto simp: parse_review_output_def failed_review_def split: sum.splits pyval.splits)
  from json_review_justified [OF this assms(2)] show ?thesis .
qed

text \<open>C3. 
  A merged approval is justified by every reviewer whose output could be read: there is at least one,
  each of them approves, no P1 finding of anyone is in the merged list, and each criterion of the
  merged table is verified; an empty table still comes with a reason.
\<close>

theorem merged_approval_justified:
  assumes "\<forall>r \<in> set results. (\<exists>data reporter. parse_review_json fr data reporter = Inr r)
      \<or> (\<exists>agent_output reporter. parse_review_output fr safe_load agent_output reporter = Inr r)"
    and "merge_review_results fr results names = Inr m" "rv_parse_errors m = []" "rv_verdict m = PStr ''APPROVE''"
  shows "valid_reviews names results \<noteq> [] \<and> list_all (\<lambda>(n, r). rv_verdict r = PStr ''APPROVE'') (valid_reviews names results)
    \<and> justified m"
  using assms(1) json_review_justified read_review_justified by (intro merged_approval [OF assms(2-4)]) blast

lemma single_approval:
  assumes "parse_review_json fr approving_review reporter = Inr r"
  shows "rv_parse_errors r = [] \<and> rv_verdict r = PStr ''APPROVE'' \<and> rv_findings r = []"
proof -
  from parse_review_json_Inr [OF assms] approving_review_contract have e: "rv_parse_errors r = []"
    by (metis validate_review_exact)
  from parse_review_json_Inr [OF assms] have "rv_verdict r = PStr ''APPROVE''" "rv_findings r = []"
    by (auto simp: approving_review_def repair_review_yaml_def repair_findings_def repair_compliance_def repair_coverage_def
        repair_ac_verification_def py_get_def py_get_default_def)
  with e show ?thesis by simp
qed

theorem merged_approval_justified_witness:
  "\<exists>r m. parse_review_json (\<lambda>_. []) approving_review ''a'' = Inr r \<and> merge_review_results (\<lambda>_. []) [r] [''a''] = Inr m
     \<and> rv_verdict m = PStr ''APPROVE'' \<and> justified m"
proof -
  have "\<exists>r. parse_review_json (\<lambda>_. []) approving_review ''a'' = Inr r"
    using approving_review_accepted [of "\<lambda>_. []" "\<lambda>_. Inl []" "[]" "''a''"]
    by (auto simp: try_parse_review_def py_bind_eq_Inr approving_review_def)
  then obtain r where r: "parse_review_json (\<lambda>_. []) approving_review ''a'' = Inr r" ..
  note one = single_approval [OF r]
  then have "\<exists>m. merge_review_results (\<lambda>_. []) [r] [''a''] = Inr m \<and> rv_parse_errors m = [] \<and> rv_verdict m = PStr ''APPROVE''"
    by (simp add: merge_review_results_def valid_reviews_def dedup_findings_def Let_def)
  then obtain m where m: "merge_review_results (\<lambda>_. []) [r] [''a''] = Inr m" "rv_parse_errors m = []" "rv_verdict m = PStr ''APPROVE''"
    by blast
  from r have "\<forall>r' \<in> set [r]. (\<exists>data reporter. parse_review_json (\<lambda>_. []) data reporter = Inr r')
      \<or> (\<exists>agent_output reporter. parse_review_output (\<lambda>_. []) (\<lambda>_. Inl []) agent_output reporter = Inr r')" by auto
  from merged_approval_justified [OF this m] r m show ?thesis by blast
qed

section \<open>Violated conventions\<close>

text \<open>
  Feedback for a retry gains a section exactly when some violation is blocking; every blocking violation
  is in it as a P1 finding, and the feedback that was there stays in front of it.
\<close>

theorem retry_feedback_grows:
  "(append_convention_retry_findings fr existing violations = existing \<longleftrightarrow>
       convention_violations_to_review_findings fr violations = [])
    \<and> list_all is_p1_finding (convention_violations_to_review_findings fr violations)
    \<and> length (convention_violations_to_review_findings fr violations) =
        length (filter (\<lambda>v. py_truthy (py_get_default v ''blocking'' (PBool False))) (case violations of None \<Rightarrow> [] | Some vs \<Rightarrow> vs))
    \<and> (\<forall>t. existing = Some t \<longrightarrow>
          (\<exists>u. append_convention_retry_findings fr existing violations = Some u \<and> prefix t u))"
proof -
  let ?block = "py_join newline [''## Blocking Convention Violations'', [],
      findings_to_markdown fr (convention_violations_to_review_findings fr violations)]"
  have "?block \<noteq> []" by simp
  then have "append_convention_retry_findings fr existing violations = existing \<longleftrightarrow>
       convention_violations_to_review_findings fr violations = []"
    by (auto simp: append_convention_retry_findings_def Let_def newline_def split: option.splits list.splits)
  moreover have "\<exists>u. append_convention_retry_findings fr existing violations = Some u \<and> prefix t u" if "existing = Some t" for t
    using that by (cases t) (auto simp: append_convention_retry_findings_def Let_def)
  ultimately show ?thesis
    by (auto simp: convention_violations_to_review_findings_def convention_finding_def list_all_iff Let_def)
qed

section \<open>Where merging goes wrong\<close>

definition finding_at :: "string \<Rightarrow> parsed_finding" where
  "finding_at severity = \<lparr>pf_severity = PStr severity, pf_file = PStr ''a.py'', pf_line = Some 7, pf_observed = ''leak'',
     pf_suggestion = None, pf_expected = ''no leak'', pf_evidence = ''a.py:7'', pf_reviewers = [], pf_reporter = []\<rparr>"

definition sample_review :: "string \<Rightarrow> string \<Rightarrow> review_result" where
  "sample_review verdict severity = \<lparr>rv_verdict = PStr verdict, rv_summary = ''s'', rv_findings = [finding_at severity],
     rv_story_matches = PBool True, rv_story_mismatches = [], rv_test_adequate = PBool True, rv_test_gaps = [],
     rv_parse_errors = [], rv_raw_yaml = [],
     rv_ac_verification = [\<lparr>ac_criterion = ''c'', ac_status = ''VERIFIED'', ac_evidence = ''e''\<rparr>],
     rv_criteria_enumerable = True, rv_criteria_enumerable_rationale = [], rv_sanitization_audit = []\<rparr>"

theorem dedup_exact_witness:
  "\<exists>out. dedup_findings [(''x'', finding_at ''P2''), (''y'', finding_at ''P1'')] = Inr out \<and> distinct (map finding_key out)"
proof -
  obtain out where out: "dedup_findings [(''x'', finding_at ''P2''), (''y'', finding_at ''P1'')] = Inr out"
    by (simp add: dedup_findings_def finding_at_def Let_def)
  from dedup_exact [OF out] out show ?thesis by blast
qed

text \<open>
  The first report of a finding decides its severity: when one reviewer reports a defect as P2 and
  approves and the next reports it at the same place as P1 and requests changes, both reviews are
  justified, yet the merged review requests changes and names no P1 finding.
\<close>

theorem merge_can_drop_p1:
  "justified (sample_review ''APPROVE'' ''P2'') \<and> justified (sample_review ''REQUEST_CHANGES'' ''P1'')
    \<and> (\<exists>m. merge_review_results fr [sample_review ''APPROVE'' ''P2'', sample_review ''REQUEST_CHANGES'' ''P1''] [''x'', ''y''] = Inr m
          \<and> rv_verdict m = PStr ''REQUEST_CHANGES'' \<and> \<not> list_ex is_p1_finding (rv_findings m))"
  by (simp add: sample_review_def justified_def finding_at_def valid_severities_def merge_review_results_def valid_reviews_def
      dedup_findings_def dedup_step_def finding_key_def Let_def)

text \<open>
  A review whose P1 finding names its file as a list is accepted by validation, and merging it raises a
  type error: the file is part of a dictionary key.
\<close>

definition list_file_review :: pydict where
  "list_file_review = [(''verdict'', PStr ''REQUEST_CHANGES''), (''summary'', PStr ''s''),
     (''findings'', PList [PDict [(''severity'', PStr ''P1''), (''file'', PList [PStr ''a.py'']),
        (''observed'', PStr ''x''), (''expected'', PStr ''y''), (''evidence'', PStr ''z'')]])]"

theorem list_file_breaks_merge:
  "\<exists>r. parse_review_json fr list_file_review ''x'' = Inr r \<and> rv_parse_errors r = []
     \<and> merge_review_results fr [r] [''x''] = Inl (TypeError ''unhashable type'')"
proof -
  let ?d = "repair_review_yaml list_file_review"
  note defs = list_file_review_def repair_review_yaml_def repair_findings_def repair_compliance_def repair_coverage_def
    repair_ac_verification_def py_get_def py_get_default_def
  have f: "py_iter (py_get_default ?d ''findings'' (PList [])) = Inr [PDict [(''severity'', PStr ''P1''), (''file'', PList [PStr ''a.py'']),
        (''observed'', PStr ''x''), (''expected'', PStr ''y''), (''evidence'', PStr ''z'')]]" by (simp add: defs)
  then have "\<exists>r. parse_review_json fr list_file_review ''x'' = Inr r"
    by (simp add: parse_review_json_def extract_review_payload_def Let_def case_prod_beta)
  then obtain r where r: "parse_review_json fr list_file_review ''x'' = Inr r" ..
  have "review_contract ?d"
    by (simp add: defs review_contract_def py_strip_def py_isspace_def code_point_def py_or_def
        optional_kinds_def one_of_def valid_severities_def)
  with parse_review_json_Inr [OF r] have e: "rv_parse_errors r = []" by (metis validate_review_exact)
  from parse_review_json_Inr [OF r] f obtain g where g: "rv_findings r = [g]" "pf_file g = PList [PStr ''a.py'']"
    by (auto simp: extract_finding_def case_prod_beta py_get_default_def)
  from e g have "merge_review_results fr [r] [''x''] = Inl (TypeError ''unhashable type'')"
    by (simp add: merge_review_results_def valid_reviews_def dedup_findings_def Let_def)
  with r e show ?thesis by blast
qed

end
