(* ===== verification/Plan_Review.thy ===== *)
theory Plan_Review
  imports Review_Parse Finding_Registry
begin

text \<open>
  Review of plans (\<^verbatim>\<open>review.py\<close> and \<^verbatim>\<open>plan_finding_classifier.py\<close>): a reviewer's reply is parsed to a
  verdict with findings, the findings of all reviewers are merged, and a P1 finding only counts when it
  is corroborated: by a second reviewer, through a chain of findings that share a structural anchor, or
  by a finding of an earlier attempt. Log lines have no counterpart.
\<close>

section \<open>Parsing\<close>

text \<open>The description is whatever value the reply had; merged findings have a text.\<close>

record 'd plan_finding =
  pl_severity :: pyval
  pl_description :: 'd
  pl_suggestion :: pyval

record 'd plan_review =
  pr_verdict :: string
  pr_findings :: "'d plan_finding list"
  pr_parse_errors :: "string list"

fun type_name :: "pyval \<Rightarrow> string" where
  "type_name PNone = ''NoneType''"
| "type_name (PBool b) = ''bool''"
| "type_name (PInt i) = ''int''"
| "type_name (PFloat r) = ''float''"
| "type_name (PStr s) = ''str''"
| "type_name (PList xs) = ''list''"
| "type_name (PDict d) = ''dict''"

fun plan_entry :: "nat \<times> pyval \<Rightarrow> pyval plan_finding list \<times> string list" where
  "plan_entry (i, PDict f) =
     (let desc = py_get_default f ''description'' (PStr [])
      in ([\<lparr>pl_severity = py_get_default f ''severity'' (PStr ''P1''), pl_description = desc, pl_suggestion = py_get f ''suggestion''\<rparr>],
          if \<not> py_truthy desc then [indexed ''findings'' i @ ''.description must be non-empty''] else []))"
| "plan_entry (i, _) = ([], [indexed ''findings'' i @ '' must be a mapping''])"

definition read_plan_findings :: "pydict \<Rightarrow> pyval plan_finding list \<times> string list" where
  "read_plan_findings d =
     (let (xs, errors) = (case py_get d ''findings'' of
                PNone \<Rightarrow> ([], [])
              | PList xs \<Rightarrow> (xs, [])
              | v \<Rightarrow> ([], [''findings must be a list, got: '' @ type_name v]));
          entries = map plan_entry (enumerate 0 xs)
      in (concat (map fst entries), errors @ concat (map snd entries)))"

definition plan_rejection :: "string \<Rightarrow> 'd plan_review" where
  "plan_rejection err = \<lparr>pr_verdict = ''REJECT'', pr_findings = [], pr_parse_errors = [err]\<rparr>"

definition plan_review_of :: "pydict \<Rightarrow> pyval plan_review py_result" where
  "plan_review_of d =
     (case py_get_default d ''verdict'' (PStr []) of
        PStr s \<Rightarrow>
          (let upper = py_upper s;
               verdict = (if upper = ''REQUEST_CHANGES'' then ''REJECT'' else upper)
           in if verdict \<notin> {''APPROVE'', ''REJECT''}
              then Inr (plan_rejection (''verdict must be APPROVE or REJECT, got: '' @ repr_string verdict))
              else (let (findings, entry_errors) = read_plan_findings d;
                        errors = entry_errors
                          @ (if verdict = ''REJECT'' \<and> findings = []
                             then [''REJECT verdict without findings -- cannot justify rejection''] else [])
                    in Inr \<lparr>pr_verdict = (if verdict = ''APPROVE'' \<and> errors \<noteq> [] then ''REJECT'' else verdict),
                            pr_findings = findings, pr_parse_errors = errors\<rparr>))
      | v \<Rightarrow> Inl (AttributeError ''upper''))"

definition parse_plan_review_output :: "(string \<Rightarrow> string + pyval) \<Rightarrow> string \<Rightarrow> pyval plan_review py_result" where
  "parse_plan_review_output safe_load agent_output =
     (case safe_load (sanitize_yaml_text (yaml_block agent_output)) of
        Inl e \<Rightarrow> Inr (plan_rejection (''YAML parse error: '' @ e))
      | Inr (PDict d) \<Rightarrow> plan_review_of d
      | Inr _ \<Rightarrow> Inr (plan_rejection ''Plan review output root is not a YAML mapping''))"

section \<open>Anchors\<close>

datatype anchor_kind = FilePath | SnakeIdent | CamelIdent | DottedPath

record anchor =
  an_value :: string
  an_kind :: anchor_kind

definition abbreviation_roots :: "string list" where
  "abbreviation_roots = [''e.g'', ''i.e'', ''etc'', ''vs'']"

definition known_extensions :: "string list" where
  "known_extensions = [''py'', ''pyi'', ''pyc'', ''yaml'', ''yml'', ''json'', ''toml'', ''ini'', ''cfg'', ''env'',
     ''md'', ''txt'', ''rst'', ''js'', ''ts'', ''jsx'', ''tsx'', ''html'', ''css'', ''scss'', ''go'', ''rs'', ''rb'', ''java'',
     ''kt'', ''swift'', ''c'', ''cpp'', ''h'', ''cs'', ''php'', ''sh'', ''bash'', ''zsh'', ''lock'', ''log'', ''sql'', ''db'',
     ''csv'', ''xml'', ''pdf'', ''png'', ''jpg'', ''jpeg'', ''gif'', ''svg'', ''ico'', ''gz'', ''zip'', ''out'', ''in'']"

definition word :: regex where
  "word = Cls is_word"

fun up_to :: "nat \<Rightarrow> regex \<Rightarrow> regex" where
  "up_to 0 r = nothing"
| "up_to (Suc n) r = Opt (Seq r (up_to n r))"

definition between :: "char \<Rightarrow> char \<Rightarrow> char \<Rightarrow> bool" where
  "between lo hi c = (code_point lo \<le> code_point c \<and> code_point c \<le> code_point hi)"

definition lower_letter :: "char \<Rightarrow> bool" where
  "lower_letter c = between CHR ''a'' CHR ''z'' c"

definition lower_alnum :: "char \<Rightarrow> bool" where
  "lower_alnum c = (lower_letter c \<or> between CHR ''0'' CHR ''9'' c)"

text \<open>A literal with \<^verbatim>\<open>re.IGNORECASE\<close>, given in small letters.\<close>

fun nocase :: "string \<Rightarrow> regex" where
  "nocase [] = nothing"
| "nocase (c # cs) = Seq (Cls (\<lambda>x. lower_char x = c)) (nocase cs)"

definition plan_step_re :: regex where
  "plan_step_re = Seq WordEdge (Seq (Alt (nocase ''step'') (nocase ''phase''))
     (Seq (Many1 space) (Seq (Many1 (Cls py_isdecimal)) WordEdge)))"

definition file_path_re :: regex where
  "file_path_re = Seq WordEdge (Seq (Many1 (Cls (\<lambda>c. is_word c \<or> c = CHR ''/''))) (Seq (Lit CHR ''.'')
     (Seq (Seq word (up_to 4 word)) WordEdge)))"

definition snake_re :: regex where
  "snake_re = Seq WordEdge (Seq (Cls lower_letter) (Seq (Many (Cls lower_alnum))
     (Seq (Many1 (Seq (Lit CHR ''_'') (Many1 (Cls lower_alnum)))) WordEdge)))"

definition camel_re :: regex where
  "camel_re = Seq WordEdge (Seq (Many1 (Cls lower_letter))
     (Seq (Many1 (Seq (Cls (between CHR ''A'' CHR ''Z'')) (Many1 (Cls lower_alnum)))) WordEdge))"

definition dotted_re :: regex where
  "dotted_re = Seq WordEdge (Seq (Many1 word) (Seq (Many1 (Seq (Lit CHR ''.'') (Many1 word))) WordEdge))"

definition prefix_open :: regex where
  "prefix_open = Seq TextStart (Lit CHR ''['')"

definition prefix_name :: regex where
  "prefix_name = Many1 (Cls (\<lambda>c. c \<noteq> CHR '']''))"

definition prefix_close :: regex where
  "prefix_close = Seq (Lit CHR '']'') (Many space)"

definition strip_reviewer_prefix :: "string \<Rightarrow> string" where
  "strip_reviewer_prefix description = re_sub (Seq prefix_open (Seq prefix_name prefix_close)) (\<lambda>_. []) description"

definition extract_reviewer_name :: "string \<Rightarrow> string option" where
  "extract_reviewer_name description =
     (case group_span prefix_open prefix_name prefix_close description 0 of
        None \<Rightarrow> None | Some (p, q) \<Rightarrow> Some (slice p q description))"

fun split_on :: "char \<Rightarrow> string \<Rightarrow> string list" where
  "split_on c [] = [[]]"
| "split_on c (x # xs) = (if x = c then [] # split_on c xs
     else case split_on c xs of w # ws \<Rightarrow> (x # w) # ws | [] \<Rightarrow> [[x]])"

definition is_version_like :: "string \<Rightarrow> bool" where
  "is_version_like value_text =
     (let parts = split_on CHR ''.'' value_text in length parts \<ge> 2 \<and> list_all py_str_isdigit (tl parts))"

definition is_abbreviation :: "string \<Rightarrow> bool" where
  "is_abbreviation value_text =
     (rev (dropWhile (\<lambda>c. c = CHR ''.'') (rev (py_lower value_text))) \<in> set abbreviation_roots)"

definition has_single_char_non_first_segment :: "string \<Rightarrow> bool" where
  "has_single_char_non_first_segment value_text = list_ex (\<lambda>p. length p = 1) (tl (split_on CHR ''.'' value_text))"

definition file_spans :: "string \<Rightarrow> (nat \<times> nat) list" where
  "file_spans clean =
     filter (\<lambda>(k, e). let val = slice k e clean
                     in py_lower (List.last (split_on CHR ''.'' val)) \<in> set known_extensions
                        \<and> \<not> (is_abbreviation val \<or> is_version_like val))
       (spans file_path_re clean 0)"

definition overlaps_file_path :: "(nat \<times> nat) list \<Rightarrow> nat \<times> nat \<Rightarrow> bool" where
  "overlaps_file_path fp_spans m = list_ex (\<lambda>(fs, fe). fst m < fe \<and> snd m > fs) fp_spans"

definition anchors_at :: "string \<Rightarrow> anchor_kind \<Rightarrow> (nat \<times> nat) list \<Rightarrow> anchor list" where
  "anchors_at clean kind ms = map (\<lambda>(k, e). \<lparr>an_value = slice k e clean, an_kind = kind\<rparr>) ms"

definition extract_anchors :: "string \<Rightarrow> anchor set" where
  "extract_anchors descr =
     (let clean = re_sub plan_step_re (\<lambda>_. []) descr;
          fp_spans = file_spans clean;
          outside = (\<lambda>r. filter (\<lambda>m. \<not> overlaps_file_path fp_spans m) (spans r clean 0));
          dotted = filter (\<lambda>(k, e). let val = slice k e clean
                     in \<not> (is_abbreviation val \<or> is_version_like val) \<and> \<not> has_single_char_non_first_segment val) (outside dotted_re)
      in set (anchors_at clean FilePath fp_spans @ anchors_at clean DottedPath dotted
              @ anchors_at clean SnakeIdent (outside snake_re) @ anchors_at clean CamelIdent (outside camel_re)))"

definition share_anchor :: "anchor set \<Rightarrow> anchor set \<Rightarrow> bool" where
  "share_anchor a b = (\<exists>x \<in> a. x \<in> b \<and> an_kind x \<noteq> FilePath)"

section \<open>Corroboration\<close>

record downgrade =
  dg_original_severity :: string
  dg_effective_severity :: string
  dg_description :: string

text \<open>
  The loop that labels P1 findings with groups: \<open>i\<close> takes the label of the first earlier finding it
  shares an anchor with, and the groups of further ones are relabelled to it.
\<close>

type_synonym labels = "(nat, nat) dict"

definition link_step :: "(nat \<Rightarrow> anchor set) \<Rightarrow> nat \<Rightarrow> nat \<Rightarrow> labels \<times> nat option \<Rightarrow> labels \<times> nat option" where
  "link_step anchors i j st = (case st of (groups, merged_into) \<Rightarrow>
     (case dict_get groups j of
        None \<Rightarrow> st
      | Some gj \<Rightarrow>
          (if \<not> share_anchor (anchors i) (anchors j) then st
           else case merged_into of
                  None \<Rightarrow> (dict_set i gj groups, Some gj)
                | Some g \<Rightarrow> (if gj \<noteq> g then (map (\<lambda>(k, v). (k, if v = gj then g else v)) groups, Some g) else st))))"

definition group_step :: "(nat \<Rightarrow> anchor set) \<Rightarrow> nat list \<Rightarrow> nat \<Rightarrow> labels \<times> nat \<Rightarrow> labels \<times> nat" where
  "group_step anchors p1 i st =
     (let (groups, merged_into) = fold (link_step anchors i) (takeWhile (\<lambda>j. j < i) p1) (fst st, None)
      in case merged_into of
           None \<Rightarrow> (dict_set i (snd st) groups, snd st + 1)
         | Some g \<Rightarrow> (groups, snd st))"

definition plan_groups :: "(nat \<Rightarrow> anchor set) \<Rightarrow> nat list \<Rightarrow> labels" where
  "plan_groups anchors p1 = fst (fold (group_step anchors p1) p1 ([], 0))"

definition plan_anchors :: "string plan_finding list \<Rightarrow> nat \<Rightarrow> anchor set" where
  "plan_anchors findings i = extract_anchors (strip_reviewer_prefix (pl_description (findings ! i)))"

definition p1_indices :: "string plan_finding list \<Rightarrow> nat list" where
  "p1_indices findings = filter (\<lambda>i. pl_severity (findings ! i) = PStr ''P1'') [0..<length findings]"

definition group_reviewers :: "string plan_finding list \<Rightarrow> labels \<Rightarrow> nat option \<Rightarrow> string list" where
  "group_reviewers findings groups gid =
     remdups (concat (map (\<lambda>i. case extract_reviewer_name (pl_description (findings ! i)) of None \<Rightarrow> [] | Some r \<Rightarrow> [r])
       (filter (\<lambda>i. dict_get groups i = gid) (p1_indices findings))))"

definition recurring :: "string plan_finding list \<Rightarrow> finding_record list \<Rightarrow> int \<Rightarrow> nat \<Rightarrow> bool" where
  "recurring findings prior_registry current_attempt i =
     (prior_registry \<noteq> [] \<and> current_attempt > 0
      \<and> list_ex (\<lambda>r. fr_cycle_first_seen r < current_attempt
             \<and> share_anchor (plan_anchors findings i) (extract_anchors (strip_reviewer_prefix (fr_description r)))) prior_registry)"

definition apply_plan_corroboration ::
    "string plan_finding list \<Rightarrow> finding_record list option \<Rightarrow> int \<Rightarrow> string plan_finding list \<times> downgrade list" where
  "apply_plan_corroboration findings prior_registry current_attempt =
     (let prior = (case prior_registry of None \<Rightarrow> [] | Some rs \<Rightarrow> rs); p1 = p1_indices findings
      in if p1 = [] then (findings, [])
         else (let groups = plan_groups (plan_anchors findings) p1;
                   downgraded = filter (\<lambda>i. \<not> length (group_reviewers findings groups (dict_get groups i)) \<ge> 2
                                           \<and> \<not> recurring findings prior current_attempt i) p1
               in (map (\<lambda>(i, f). if i \<in> set downgraded then f\<lparr>pl_severity := PStr ''P1-impl''\<rparr> else f) (enumerate 0 findings),
                   map (\<lambda>(i, f). \<lparr>dg_original_severity = ''P1'', dg_effective_severity = ''P1-impl'', dg_description = pl_description f\<rparr>)
                     (filter (\<lambda>(i, f). i \<in> set downgraded) (enumerate 0 findings)))))"

section \<open>Merging\<close>

definition valid_plan_reviews :: "string list \<Rightarrow> pyval plan_review list \<Rightarrow> (string \<times> pyval plan_review) list" where
  "valid_plan_reviews names results = filter (\<lambda>(name, r). pr_parse_errors r = []) (zip names results)"

definition labelled_findings :: "(rat \<Rightarrow> string) \<Rightarrow> (string \<times> pyval plan_review) list \<Rightarrow> string plan_finding list" where
  "labelled_findings fr valid =
     concat (map (\<lambda>(name, r). map (\<lambda>f. \<lparr>pl_severity = pl_severity f,
         pl_description = ''['' @ name @ ''] '' @ py_str fr (pl_description f), pl_suggestion = pl_suggestion f\<rparr>) (pr_findings r)) valid)"

definition merge_plan_review_results ::
    "(rat \<Rightarrow> string) \<Rightarrow> pyval plan_review list \<Rightarrow> string list \<Rightarrow> finding_record list option \<Rightarrow> int
      \<Rightarrow> string plan_review \<times> downgrade list" where
  "merge_plan_review_results fr results names prior_registry current_attempt =
     (let valid = valid_plan_reviews names results;
          parse_error_parts = concat (map (\<lambda>(name, r). map (\<lambda>e. ''['' @ name @ ''] '' @ e) (pr_parse_errors r)) (zip names results))
      in if valid = []
         then (\<lparr>pr_verdict = ''REJECT'', pr_findings = [],
                pr_parse_errors = (if parse_error_parts \<noteq> [] then parse_error_parts
                                   else [''All plan reviewers failed or produced parse errors''])\<rparr>, [])
         else (let (corroborated, downgrades) = apply_plan_corroboration (labelled_findings fr valid) prior_registry current_attempt
               in (\<lparr>pr_verdict = (if list_ex (\<lambda>f. one_of (pl_severity f) [''P0'', ''P1'']) corroborated then ''REJECT'' else ''APPROVE''),
                    pr_findings = corroborated, pr_parse_errors = []\<rparr>, downgrades)))"

definition plan_review_findings_to_text :: "(rat \<Rightarrow> string) \<Rightarrow> string plan_review \<Rightarrow> string" where
  "plan_review_findings_to_text fr r =
     (if pr_findings r = [] then ''No specific findings provided.''
      else py_join [CHR 0x0A] (concat (map (\<lambda>f.
             [''- ['' @ py_str fr (pl_severity f) @ ''] '' @ pl_description f]
             @ (if py_truthy (pl_suggestion f) then [''  Suggestion: '' @ py_str fr (pl_suggestion f)] else [])) (pr_findings r))))"

section \<open>The groups are the connected components\<close>

lemma share_anchor_sym: "share_anchor a b = share_anchor b a"
  by (auto simp: share_anchor_def)

text \<open>A labelling represents the connectedness of a relation on the labelled findings.\<close>

definition lab_inv :: "nat set \<Rightarrow> (nat \<times> nat) set \<Rightarrow> (nat \<rightharpoonup> nat) \<Rightarrow> bool" where
  "lab_inv V R l \<longleftrightarrow> dom l = V \<and> sym R \<and> R \<subseteq> V \<times> V \<and> (\<forall>x \<in> V. \<forall>y \<in> V. l x = l y \<longleftrightarrow> (x, y) \<in> R\<^sup>*)"

lemma lab_invD:
  assumes "lab_inv V R l"
  shows "dom l = V" "sym R" "R \<subseteq> V \<times> V" "x \<in> V \<Longrightarrow> y \<in> V \<Longrightarrow> l x = l y \<longleftrightarrow> (x, y) \<in> R\<^sup>*"
  using assms unfolding lab_inv_def by blast+

lemma lab_invI:
  "dom l = V \<Longrightarrow> sym R \<Longrightarrow> R \<subseteq> V \<times> V \<Longrightarrow> (\<And>x y. x \<in> V \<Longrightarrow> y \<in> V \<Longrightarrow> l x = l y \<longleftrightarrow> (x, y) \<in> R\<^sup>*) \<Longrightarrow> lab_inv V R l"
  unfolding lab_inv_def by blast

lemma rtrancl_add_edge:
  assumes "sym R"
  shows "(x, y) \<in> (R \<union> {(i, j), (j, i)})\<^sup>* \<longleftrightarrow>
    (x, y) \<in> R\<^sup>* \<or> ((x, i) \<in> R\<^sup>* \<and> (j, y) \<in> R\<^sup>*) \<or> ((x, j) \<in> R\<^sup>* \<and> (i, y) \<in> R\<^sup>*)"
    (is "_ \<longleftrightarrow> ?rhs y")
proof
  assume "(x, y) \<in> (R \<union> {(i, j), (j, i)})\<^sup>*"
  then show "?rhs y"
  proof (induction rule: rtrancl_induct)
    case (step y z)
    from step.hyps(2) consider "(y, z) \<in> R" | "y = i" "z = j" | "y = j" "z = i" by auto
    then show ?case using step.IH by cases (auto intro: rtrancl_into_rtrancl)
  qed simp
next
  assume r: "?rhs y"
  have mono: "(a, b) \<in> R\<^sup>* \<Longrightarrow> (a, b) \<in> (R \<union> {(i, j), (j, i)})\<^sup>*" for a b
    by (rule subsetD [OF rtrancl_mono]) auto
  have edge: "(i, j) \<in> (R \<union> {(i, j), (j, i)})\<^sup>*" "(j, i) \<in> (R \<union> {(i, j), (j, i)})\<^sup>*" by auto
  from r show "(x, y) \<in> (R \<union> {(i, j), (j, i)})\<^sup>*"
    by (elim disjE conjE) (blast intro: mono edge rtrancl_trans)+
qed

lemma rtrancl_outside: "R \<subseteq> V \<times> V \<Longrightarrow> i \<notin> V \<Longrightarrow> (i, y) \<in> R\<^sup>* \<longleftrightarrow> y = i"
  by (auto elim: converse_rtranclE)

lemma rtrancl_outside_right: "R \<subseteq> V \<times> V \<Longrightarrow> i \<notin> V \<Longrightarrow> (y, i) \<in> R\<^sup>* \<longleftrightarrow> y = i"
  by (auto elim: rtranclE)

lemma sym_add_edge: "sym R \<Longrightarrow> sym (R \<union> {(i, j), (j, i)})"
  by (auto simp: sym_def)

lemma add_edge_subset: "R \<subseteq> V \<times> V \<Longrightarrow> i \<in> W \<Longrightarrow> j \<in> W \<Longrightarrow> V \<subseteq> W \<Longrightarrow> R \<union> {(i, j), (j, i)} \<subseteq> W \<times> W"
  by blast

lemma lab_fresh:
  assumes inv: "lab_inv V R l" and i: "i \<notin> V" and g: "g \<notin> ran l"
  shows "lab_inv (insert i V) R (l(i \<mapsto> g))"
proof -
  note D = lab_invD [OF inv]
  note out = rtrancl_outside [OF D(3) i] rtrancl_outside_right [OF D(3) i]
  have "(l(i \<mapsto> g)) x = (l(i \<mapsto> g)) y \<longleftrightarrow> (x, y) \<in> R\<^sup>*" if "x \<in> insert i V" "y \<in> insert i V" for x y
  proof (cases "x = i \<or> y = i")
    case True
    have "l z \<noteq> Some g" for z using g by (auto simp: ran_def)
    with True show ?thesis by (auto simp: out) metis
  next
    case False
    with that D(4) show ?thesis by simp
  qed
  with D(1-3) show ?thesis unfolding lab_inv_def by auto
qed

lemma lab_attach:
  assumes inv: "lab_inv V R l" and i: "i \<notin> V" and j: "l j = Some g"
  shows "lab_inv (insert i V) (R \<union> {(i, j), (j, i)}) (l(i \<mapsto> g))"
proof -
  note D = lab_invD [OF inv]
  note out = rtrancl_outside [OF D(3) i] rtrancl_outside_right [OF D(3) i]
  from j D(1) have jV: "j \<in> V" by auto
  have "(l(i \<mapsto> g)) x = (l(i \<mapsto> g)) y \<longleftrightarrow> (x, y) \<in> (R \<union> {(i, j), (j, i)})\<^sup>*"
    if "x \<in> insert i V" "y \<in> insert i V" for x y
    unfolding rtrancl_add_edge [OF D(2)] out
  proof (cases "x = i"; cases "y = i")
    assume "x = i" "y \<noteq> i"
    with that have "y \<in> V" by simp
    with D(4) [OF jV this] j \<open>x = i\<close> \<open>y \<noteq> i\<close> i jV show "(l(i \<mapsto> g)) x = (l(i \<mapsto> g)) y \<longleftrightarrow>
        (x, y) \<in> R\<^sup>* \<or> x = i \<and> (j, y) \<in> R\<^sup>* \<or> (x, j) \<in> R\<^sup>* \<and> y = i" by (auto simp: out)
  next
    assume "x \<noteq> i" "y = i"
    with that have "x \<in> V" by simp
    with D(4) [OF this jV] j \<open>x \<noteq> i\<close> \<open>y = i\<close> i jV show "(l(i \<mapsto> g)) x = (l(i \<mapsto> g)) y \<longleftrightarrow>
        (x, y) \<in> R\<^sup>* \<or> x = i \<and> (j, y) \<in> R\<^sup>* \<or> (x, j) \<in> R\<^sup>* \<and> y = i" by (auto simp: out)
  qed (use that D(4) in auto)
  note eq = this
  have d: "dom (l(i \<mapsto> g)) = insert i V" using D(1) by simp
  have "R \<union> {(i, j), (j, i)} \<subseteq> insert i V \<times> insert i V" using jV by (intro add_edge_subset [OF D(3)]) auto
  from lab_invI [OF d sym_add_edge [OF D(2)] this eq] show ?thesis .
qed

lemma lab_merge:
  assumes inv: "lab_inv V R l" and ij: "l i = Some g" "l j = Some h"
  shows "lab_inv V (R \<union> {(i, j), (j, i)}) (map_option (\<lambda>v. if v = h then g else v) \<circ> l)"
proof -
  note D = lab_invD [OF inv]
  from ij D(1) have V: "i \<in> V" "j \<in> V" by auto
  have "(map_option (\<lambda>v. if v = h then g else v) \<circ> l) x = (map_option (\<lambda>v. if v = h then g else v) \<circ> l) y
      \<longleftrightarrow> (x, y) \<in> (R \<union> {(i, j), (j, i)})\<^sup>*" if xy: "x \<in> V" "y \<in> V" for x y
  proof -
    from xy D(1) obtain v w where vw: "l x = Some v" "l y = Some w" by blast
    have "(x, y) \<in> (R \<union> {(i, j), (j, i)})\<^sup>* \<longleftrightarrow> v = w \<or> (v = g \<and> w = h) \<or> (v = h \<and> w = g)"
      unfolding rtrancl_add_edge [OF D(2)] D(4) [OF xy, symmetric] D(4) [OF xy(1) V(1), symmetric] D(4) [OF V(2) xy(2), symmetric]
        D(4) [OF xy(1) V(2), symmetric] D(4) [OF V(1) xy(2), symmetric] vw ij by auto
    then show ?thesis by (auto simp: vw)
  qed
  note eq = this
  have d: "dom (map_option (\<lambda>v. if v = h then g else v) \<circ> l) = V" using D(1) by auto
  from lab_invI [OF d sym_add_edge [OF D(2)] add_edge_subset [OF D(3) V subset_refl] eq] show ?thesis .
qed

lemma dict_get_relabel: "dict_get (map (\<lambda>(k, v). (k, f v)) L) = map_option f \<circ> dict_get L"
  by (rule ext, induction L) auto

lemma dict_get_set_fun: "dict_get (dict_set i g L) = (dict_get L)(i \<mapsto> g)"
  by (rule ext) simp

definition links :: "(nat \<Rightarrow> anchor set) \<Rightarrow> nat \<Rightarrow> nat set \<Rightarrow> (nat \<times> nat) set" where
  "links anchors i J = {(x, y). (x = i \<and> y \<in> J \<or> y = i \<and> x \<in> J) \<and> share_anchor (anchors x) (anchors y)}"

lemma links_insert:
  "links anchors i (insert j J) = links anchors i J \<union> (if share_anchor (anchors i) (anchors j) then {(i, j), (j, i)} else {})"
  by (auto simp: links_def share_anchor_sym)

definition link_inv :: "(nat \<Rightarrow> anchor set) \<Rightarrow> nat set \<Rightarrow> (nat \<times> nat) set \<Rightarrow> nat \<Rightarrow> nat \<Rightarrow> nat set \<Rightarrow> labels \<times> nat option \<Rightarrow> bool" where
  "link_inv anchors V R n i J st \<longleftrightarrow> ran (dict_get (fst st)) \<subseteq> {..<n} \<and>
     (case snd st of
        None \<Rightarrow> lab_inv V R (dict_get (fst st)) \<and> links anchors i J = {}
      | Some g \<Rightarrow> lab_inv (insert i V) (R \<union> links anchors i J) (dict_get (fst st)) \<and> dict_get (fst st) i = Some g)"

lemma ran_relabel: "ran l \<subseteq> A \<Longrightarrow> g \<in> A \<Longrightarrow> ran (map_option (\<lambda>v. if v = h then g else v) \<circ> l) \<subseteq> A"
  by (auto simp: ran_def split: if_splits)

lemma link_step_inv:
  assumes inv: "link_inv anchors V R n i J (L, m)" and i: "i \<notin> V" and j: "j \<in> V"
  shows "link_inv anchors V R n i (insert j J) (link_step anchors i j (L, m))"
proof (cases "share_anchor (anchors i) (anchors j)")
  case False
  with inv show ?thesis
    by (cases "dict_get L j"; cases m) (simp_all add: link_step_def link_inv_def links_insert del: map_of_eq_Some_iff)
next
  case True
  from inv have ran: "ran (dict_get L) \<subseteq> {..<n}" by (simp add: link_inv_def)
  from inv j have "j \<in> dom (dict_get L)" by (cases m) (auto simp: link_inv_def lab_inv_def)
  then obtain gj where gj: "dict_get L j = Some gj" by blast
  with ran have gjn: "gj < n" by (auto simp: ran_def)
  show ?thesis
  proof (cases m)
    case None
    with inv have lab: "lab_inv V R (dict_get L)" "links anchors i J = {}" by (simp_all add: link_inv_def)
    from lab_attach [OF lab(1) i gj] have "lab_inv (insert i V) (R \<union> links anchors i (insert j J)) (dict_get (dict_set i gj L))"
      by (simp only: links_insert True lab(2) dict_get_set_fun if_True Un_empty_left)
    moreover have "ran (dict_get (dict_set i gj L)) \<subseteq> {..<n}"
      unfolding dict_get_set_fun using ran gjn by (auto simp: ran_def)
    moreover have "link_step anchors i j (L, m) = (dict_set i gj L, Some gj)" using True gj None by (simp add: link_step_def)
    ultimately show ?thesis by (simp add: link_inv_def dict_get_set_fun fun_upd_def)
  next
    case (Some g)
    with inv have lab: "lab_inv (insert i V) (R \<union> links anchors i J) (dict_get L)" and g: "dict_get L i = Some g"
      by (simp_all add: link_inv_def)
    from ran g have gn: "g < n" by (auto simp: ran_def)
    let ?L = "map (\<lambda>(k, v). (k, if v = gj then g else v)) L"
    have rel: "link_step anchors i j (L, m) = (?L, Some g)"
    proof (cases "gj = g")
      case True
      then have "?L = L" by (induction L) auto
      with True \<open>share_anchor (anchors i) (anchors j)\<close> gj Some show ?thesis by (simp add: link_step_def)
    next
      case False
      with \<open>share_anchor (anchors i) (anchors j)\<close> gj Some show ?thesis by (simp add: link_step_def)
    qed
    have eq: "dict_get ?L = map_option (\<lambda>v. if v = gj then g else v) \<circ> dict_get L" by (rule dict_get_relabel)
    from lab_merge [OF lab g gj] have "lab_inv (insert i V) (R \<union> links anchors i (insert j J)) (dict_get ?L)"
      unfolding eq links_insert using True by (simp add: Un_assoc comp_def)
    moreover have "ran (dict_get ?L) \<subseteq> {..<n}" unfolding eq using ran gn by (intro ran_relabel) auto
    moreover have "dict_get ?L i = Some g" unfolding eq using g by simp
    ultimately show ?thesis unfolding rel by (simp add: link_inv_def del: map_of_eq_Some_iff)
  qed
qed

lemma link_fold_inv:
  assumes "link_inv anchors V R n i J st" "i \<notin> V" "set js \<subseteq> V"
  shows "link_inv anchors V R n i (J \<union> set js) (fold (link_step anchors i) js st)"
  using assms(1,3)
proof (induction js arbitrary: st J)
  case (Cons j js)
  from link_step_inv [of anchors V R n i J "fst st" "snd st" j] Cons.prems assms(2)
  have "link_inv anchors V R n i (insert j J) (link_step anchors i j st)" by simp
  from Cons.IH [OF this] Cons.prems(2) show ?case by simp
qed simp

text \<open>The relation of findings that share an anchor.\<close>

definition overlap :: "(nat \<Rightarrow> anchor set) \<Rightarrow> nat set \<Rightarrow> (nat \<times> nat) set" where
  "overlap anchors V = {(x, y). x \<in> V \<and> y \<in> V \<and> x \<noteq> y \<and> share_anchor (anchors x) (anchors y)}"

lemma overlap_insert: "i \<notin> V \<Longrightarrow> overlap anchors (insert i V) = overlap anchors V \<union> links anchors i V"
  by (auto simp: overlap_def links_def)

definition group_inv :: "(nat \<Rightarrow> anchor set) \<Rightarrow> nat set \<Rightarrow> labels \<times> nat \<Rightarrow> bool" where
  "group_inv anchors V st \<longleftrightarrow> lab_inv V (overlap anchors V) (dict_get (fst st)) \<and> ran (dict_get (fst st)) \<subseteq> {..<snd st}"

lemma group_step_inv:
  assumes inv: "group_inv anchors (set ps) st" and i: "i \<notin> set ps" and ps: "takeWhile (\<lambda>j. j < i) p1 = ps"
  shows "group_inv anchors (insert i (set ps)) (group_step anchors p1 i st)"
proof -
  let ?R = "overlap anchors (set ps)"
  obtain L m where f: "fold (link_step anchors i) ps (fst st, None) = (L, m)" by force
  have "link_inv anchors (set ps) ?R (snd st) i {} (fst st, None)"
    using inv by (simp add: link_inv_def group_inv_def links_def)
  from link_fold_inv [OF this i subset_refl] have l: "link_inv anchors (set ps) ?R (snd st) i (set ps) (L, m)" by (simp add: f)
  have step: "group_step anchors p1 i st = (case m of None \<Rightarrow> (dict_set i (snd st) L, snd st + 1) | Some g \<Rightarrow> (L, snd st))"
    by (cases m) (simp_all add: group_step_def ps f)
  show ?thesis
  proof (cases m)
    case None
    with l have lab: "lab_inv (set ps) ?R (dict_get L)" "ran (dict_get L) \<subseteq> {..<snd st}" "links anchors i (set ps) = {}"
      by (simp_all add: link_inv_def)
    from lab(2) have "snd st \<notin> ran (dict_get L)" by auto
    from lab_fresh [OF lab(1) i this] have "lab_inv (insert i (set ps)) (overlap anchors (insert i (set ps))) ((dict_get L)(i \<mapsto> snd st))"
      by (simp add: overlap_insert [OF i] lab(3))
    moreover have "ran ((dict_get L)(i \<mapsto> snd st)) \<subseteq> {..<snd st + 1}"
      using lab(2) by (auto simp: ran_def split: if_splits)
    ultimately show ?thesis by (simp add: step None group_inv_def dict_get_set_fun fun_upd_def)
  next
    case (Some g)
    with l show ?thesis by (simp add: step link_inv_def group_inv_def overlap_insert [OF i])
  qed
qed

lemma takeWhile_sorted: "sorted_wrt (<) (ps @ i # rest) \<Longrightarrow> takeWhile (\<lambda>j. j < i) (ps @ i # rest) = (ps :: nat list)"
  by (auto simp: sorted_wrt_append takeWhile_append2)

lemma group_fold_inv:
  assumes "sorted_wrt (<) p1" "p1 = ps @ rest"
  shows "group_inv anchors (set ps) (fold (group_step anchors p1) ps ([], 0))"
  using assms(2)
proof (induction ps arbitrary: rest rule: rev_induct)
  case Nil
  show ?case by (simp add: group_inv_def lab_inv_def overlap_def)
next
  case (snoc i ps)
  from snoc.prems have p1: "p1 = ps @ i # rest" by simp
  with assms(1) have i: "i \<notin> set ps" and tw: "takeWhile (\<lambda>j. j < i) p1 = ps"
    by (auto simp: takeWhile_sorted sorted_wrt_append)
  from group_step_inv [OF snoc.IH [OF p1] i tw] show ?case by simp
qed

lemma groups_are_components:
  assumes "sorted_wrt (<) p1" "x \<in> set p1" "y \<in> set p1"
  shows "dict_get (plan_groups anchors p1) x = dict_get (plan_groups anchors p1) y \<longleftrightarrow> (x, y) \<in> (overlap anchors (set p1))\<^sup>*"
  using group_fold_inv [OF assms(1), of p1 "[]" anchors] assms(2,3)
  by (simp add: group_inv_def lab_inv_def plan_groups_def)

section \<open>When a P1 finding counts\<close>

definition component :: "string plan_finding list \<Rightarrow> nat \<Rightarrow> nat set" where
  "component findings i = {j \<in> set (p1_indices findings). (i, j) \<in> (overlap (plan_anchors findings) (set (p1_indices findings)))\<^sup>*}"

definition reviewers_of :: "string plan_finding list \<Rightarrow> nat set \<Rightarrow> string set" where
  "reviewers_of findings J = {r. \<exists>j \<in> J. extract_reviewer_name (pl_description (findings ! j)) = Some r}"

definition corroborated :: "string plan_finding list \<Rightarrow> finding_record list option \<Rightarrow> int \<Rightarrow> nat \<Rightarrow> bool" where
  "corroborated findings prior attempt i \<longleftrightarrow> 2 \<le> card (reviewers_of findings (component findings i))
     \<or> recurring findings (case prior of None \<Rightarrow> [] | Some rs \<Rightarrow> rs) attempt i"

lemma p1_sorted: "sorted_wrt (<) (p1_indices findings)"
  by (simp add: p1_indices_def sorted_wrt_filter)

lemma group_reviewers_component:
  assumes "i \<in> set (p1_indices findings)"
  defines "groups \<equiv> plan_groups (plan_anchors findings) (p1_indices findings)"
  shows "length (group_reviewers findings groups (dict_get groups i)) = card (reviewers_of findings (component findings i))"
proof -
  let ?p1 = "p1_indices findings"
  have "dict_get groups j = dict_get groups i \<longleftrightarrow> j \<in> component findings i" if "j \<in> set ?p1" for j
    using groups_are_components [OF p1_sorted assms(1) that, of "plan_anchors findings"] that
    by (auto simp: component_def groups_def)
  then have "set (filter (\<lambda>j. dict_get groups j = dict_get groups i) ?p1) = component findings i"
    by (auto simp: component_def)
  then have "set (group_reviewers findings groups (dict_get groups i)) = reviewers_of findings (component findings i)"
    unfolding group_reviewers_def reviewers_of_def set_remdups set_concat set_map
    by (auto split: option.splits)
  then show ?thesis by (metis distinct_card distinct_remdups group_reviewers_def)
qed

lemma corroboration_result:
  assumes "apply_plan_corroboration findings prior attempt = (out, downs)"
  shows "length out = length findings"
    and "i < length findings \<Longrightarrow> out ! i = (if pl_severity (findings ! i) = PStr ''P1'' \<and> \<not> corroborated findings prior attempt i
           then (findings ! i)\<lparr>pl_severity := PStr ''P1-impl''\<rparr> else findings ! i)"
    and "length downs = length (filter (\<lambda>i. \<not> corroborated findings prior attempt i) (p1_indices findings))"
proof -
  let ?p1 = "p1_indices findings"
  let ?down = "filter (\<lambda>i. \<not> corroborated findings prior attempt i) ?p1"
  let ?mark = "\<lambda>(i, f). if i \<in> set ?down then f\<lparr>pl_severity := PStr ''P1-impl''\<rparr> else f"
  have down: "filter (\<lambda>i. \<not> 2 \<le> length (group_reviewers findings (plan_groups (plan_anchors findings) ?p1)
        (dict_get (plan_groups (plan_anchors findings) ?p1) i))
      \<and> \<not> recurring findings (case prior of None \<Rightarrow> [] | Some rs \<Rightarrow> rs) attempt i) ?p1 = ?down"
    by (rule filter_cong) (simp_all add: group_reviewers_component corroborated_def)
  have out: "out = map ?mark (enumerate 0 findings)
      \<and> length downs = length (filter (\<lambda>(i, f). i \<in> set ?down) (enumerate 0 findings))"
  proof (cases "?p1 = []")
    case True
    moreover have "map (\<lambda>(i :: nat, f). f) (enumerate 0 findings) = findings"
      by (rule nth_equalityI) (simp_all add: nth_enumerate_eq)
    ultimately show ?thesis using assms by (simp add: apply_plan_corroboration_def)
  next
    case False
    with assms show ?thesis unfolding apply_plan_corroboration_def Let_def down by auto
  qed
  then show "length out = length findings" by simp
  show "out ! i = (if pl_severity (findings ! i) = PStr ''P1'' \<and> \<not> corroborated findings prior attempt i
      then (findings ! i)\<lparr>pl_severity := PStr ''P1-impl''\<rparr> else findings ! i)" if "i < length findings"
    using out that by (simp add: nth_enumerate_eq p1_indices_def)
  have en: "enumerate 0 findings = map (\<lambda>i. (i, findings ! i)) [0..<length findings]"
    by (rule nth_equalityI) (simp_all add: nth_enumerate_eq)
  have "filter (\<lambda>(i, f). i \<in> set ?down) (enumerate 0 findings) = map (\<lambda>i. (i, findings ! i)) (filter (\<lambda>i. i \<in> set ?down) [0..<length findings])"
    by (simp only: en filter_map o_def prod.case)
  moreover have "filter (\<lambda>i. i \<in> set ?down) [0..<length findings] = ?down"
    unfolding p1_indices_def filter_filter by (rule filter_cong) auto
  ultimately show "length downs = length ?down" using out by simp
qed

text \<open>C7. 
  Corroboration keeps every finding and changes exactly the P1 findings nobody confirms: a P1 stays a
  P1 when the findings connected to it by shared anchors, however long the chain, name two reviewers,
  or when it shares an anchor with a finding of an earlier attempt; otherwise it becomes advisory, with
  one audit entry for each.
\<close>

theorem corroboration_exact:
  assumes "apply_plan_corroboration findings prior attempt = (out, downs)"
  shows "length out = length findings
    \<and> (\<forall>i < length findings. out ! i = (if pl_severity (findings ! i) = PStr ''P1'' \<and> \<not> corroborated findings prior attempt i
           then (findings ! i)\<lparr>pl_severity := PStr ''P1-impl''\<rparr> else findings ! i))
    \<and> length downs = card {i. i < length findings \<and> pl_severity (findings ! i) = PStr ''P1'' \<and> \<not> corroborated findings prior attempt i}"
proof -
  have "distinct (filter (\<lambda>i. \<not> corroborated findings prior attempt i) (p1_indices findings))" by (simp add: p1_indices_def)
  from distinct_card [OF this] have "length downs = card (set (filter (\<lambda>i. \<not> corroborated findings prior attempt i) (p1_indices findings)))"
    by (simp add: corroboration_result(3) [OF assms])
  also have "set (filter (\<lambda>i. \<not> corroborated findings prior attempt i) (p1_indices findings)) =
      {i. i < length findings \<and> pl_severity (findings ! i) = PStr ''P1'' \<and> \<not> corroborated findings prior attempt i}"
    by (auto simp: p1_indices_def)
  finally show ?thesis using corroboration_result(1,2) [OF assms] by blast
qed

definition sample_plan_findings :: "string plan_finding list" where
  "sample_plan_findings = [\<lparr>pl_severity = PStr ''P1'', pl_description = ''[a] x'', pl_suggestion = PNone\<rparr>]"

theorem corroboration_exact_witness:
  "\<exists>out downs. apply_plan_corroboration sample_plan_findings None 0 = (out, downs) \<and> length out = 1"
proof -
  obtain out downs where r: "apply_plan_corroboration sample_plan_findings None 0 = (out, downs)" by force
  from corroboration_exact [OF r] r show ?thesis by (auto simp: sample_plan_findings_def)
qed

lemma merged_severities:
  assumes "apply_plan_corroboration findings prior attempt = (out, downs)"
  shows "list_ex (\<lambda>f. one_of (pl_severity f) [''P0'', ''P1'']) out \<longleftrightarrow>
    (\<exists>i < length findings. pl_severity (findings ! i) = PStr ''P0''
       \<or> pl_severity (findings ! i) = PStr ''P1'' \<and> corroborated findings prior attempt i)"
proof -
  have "list_ex (\<lambda>f. one_of (pl_severity f) [''P0'', ''P1'']) out \<longleftrightarrow>
      (\<exists>i < length findings. pl_severity (out ! i) = PStr ''P0'' \<or> pl_severity (out ! i) = PStr ''P1'')"
    by (auto simp: list_ex_length corroboration_result(1) [OF assms] one_of_def)
  also have "\<dots> \<longleftrightarrow> (\<exists>i < length findings. pl_severity (findings ! i) = PStr ''P0''
       \<or> pl_severity (findings ! i) = PStr ''P1'' \<and> corroborated findings prior attempt i)"
    by (intro ex_cong1 conj_cong refl) (auto simp: corroboration_result(2) [OF assms])
  finally show ?thesis .
qed

lemma merged_plan_verdict:
  assumes "merge_plan_review_results fr results names prior attempt = (m, downs)"
  defines "valid \<equiv> valid_plan_reviews names results"
  shows "pr_verdict m = (if valid = [] \<or> (\<exists>i < length (labelled_findings fr valid).
             pl_severity (labelled_findings fr valid ! i) = PStr ''P0''
             \<or> pl_severity (labelled_findings fr valid ! i) = PStr ''P1'' \<and> corroborated (labelled_findings fr valid) prior attempt i)
           then ''REJECT'' else ''APPROVE'')
    \<and> (pr_parse_errors m = [] \<longleftrightarrow> valid \<noteq> [])"
proof -
  obtain out downs' where r: "apply_plan_corroboration (labelled_findings fr valid) prior attempt = (out, downs')" by force
  show ?thesis using assms(1) unfolding merge_plan_review_results_def Let_def valid_def [symmetric] r prod.case merged_severities [OF r]
    by (auto split: if_splits)
qed

text \<open>
  A plan is rejected exactly when no reviewer's reply could be read, or a reader found it impossible
  (P0), or a P1 finding is corroborated; the verdicts the reviewers wrote do not matter.
\<close>

theorem plan_verdict_exact:
  assumes "merge_plan_review_results fr results names prior attempt = (m, downs)"
  defines "valid \<equiv> valid_plan_reviews names results"
  shows "pr_verdict m = (if valid = [] \<or> (\<exists>i < length (labelled_findings fr valid).
             pl_severity (labelled_findings fr valid ! i) = PStr ''P0''
             \<or> pl_severity (labelled_findings fr valid ! i) = PStr ''P1'' \<and> corroborated (labelled_findings fr valid) prior attempt i)
           then ''REJECT'' else ''APPROVE'')
    \<and> (pr_parse_errors m = [] \<longleftrightarrow> valid \<noteq> [])"
  unfolding valid_def by (rule merged_plan_verdict [OF assms(1)])

definition sample_plan_review :: "pyval plan_review" where
  "sample_plan_review = \<lparr>pr_verdict = ''REJECT'',
     pr_findings = [\<lparr>pl_severity = PStr ''P1'', pl_description = PStr ''x'', pl_suggestion = PNone\<rparr>], pr_parse_errors = []\<rparr>"

theorem plan_verdict_exact_witness:
  "\<exists>m downs. merge_plan_review_results (\<lambda>_. []) [sample_plan_review] [''a''] None 0 = (m, downs) \<and> pr_parse_errors m = []"
proof -
  obtain m downs where r: "merge_plan_review_results (\<lambda>_. []) [sample_plan_review] [''a''] None 0 = (m, downs)" by force
  from plan_verdict_exact [OF r] r show ?thesis by (simp add: valid_plan_reviews_def sample_plan_review_def)
qed

lemma lone_finding_uncorroborated: "\<not> corroborated [f] None attempt 0"
proof -
  have "reviewers_of [f] (component [f] 0) \<subseteq> set_option (extract_reviewer_name (pl_description f))"
    by (auto simp: reviewers_of_def component_def p1_indices_def split: if_splits)
  from card_mono [OF _ this] have "card (reviewers_of [f] (component [f] 0)) \<le> 1"
    by (cases "extract_reviewer_name (pl_description f)") auto
  then show ?thesis by (simp add: corroborated_def recurring_def)
qed

text \<open>
  The rejection of the only reviewer is turned into an approval: its single P1 finding has nobody to
  confirm it, also on a first attempt where no registry of earlier findings is passed.
\<close>

theorem lone_rejection_is_approved:
  "pr_verdict (fst (merge_plan_review_results fr
       [\<lparr>pr_verdict = ''REJECT'', pr_findings = [\<lparr>pl_severity = PStr ''P1'', pl_description = descr, pl_suggestion = sug\<rparr>],
         pr_parse_errors = []\<rparr>] [name] None attempt)) = ''APPROVE''"
proof -
  let ?f = "\<lparr>pl_severity = PStr ''P1'', pl_description = ''['' @ name @ ''] '' @ py_str fr descr, pl_suggestion = sug\<rparr>"
  obtain out downs where r: "apply_plan_corroboration [?f] None attempt = (out, downs)" by force
  have "\<not> list_ex (\<lambda>f. one_of (pl_severity f) [''P0'', ''P1'']) out"
    unfolding merged_severities [OF r] using lone_finding_uncorroborated by simp
  with r show ?thesis by (simp add: merge_plan_review_results_def valid_plan_reviews_def labelled_findings_def)
qed

section \<open>What a parsed plan review says\<close>

text \<open>
  A parsed plan review approves or rejects; an approval has no errors, and a rejection without errors
  names at least one finding. Parsing raises exactly when the reply is a mapping whose verdict is there
  and no text.
\<close>

theorem plan_parse_sound:
  "case parse_plan_review_output safe_load agent_output of
     Inr r \<Rightarrow> pr_verdict r \<in> {''APPROVE'', ''REJECT''} \<and> (pr_verdict r = ''APPROVE'' \<longrightarrow> pr_parse_errors r = [])
        \<and> (pr_verdict r = ''REJECT'' \<and> pr_parse_errors r = [] \<longrightarrow> pr_findings r \<noteq> [])
   | Inl e \<Rightarrow> (\<exists>d v. safe_load (sanitize_yaml_text (yaml_block agent_output)) = Inr (PDict d)
        \<and> dict_get d ''verdict'' = Some v \<and> v \<notin> range PStr)"
proof -
  show ?thesis
  proof (cases "\<exists>d. safe_load (sanitize_yaml_text (yaml_block agent_output)) = Inr (PDict d)")
    case False
    then show ?thesis by (auto simp: parse_plan_review_output_def plan_rejection_def split: sum.splits pyval.splits)
  next
    case True
    then obtain d where d: "safe_load (sanitize_yaml_text (yaml_block agent_output)) = Inr (PDict d)" ..
    show ?thesis
    proof (cases "py_get_default d ''verdict'' (PStr []) \<in> range PStr")
      case True
      then obtain s where "py_get_default d ''verdict'' (PStr []) = PStr s" by blast
      then show ?thesis
        by (auto simp: parse_plan_review_output_def d plan_review_of_def plan_rejection_def Let_def split: prod.splits)
    next
      case False
      then have "\<exists>v. dict_get d ''verdict'' = Some v \<and> v \<notin> range PStr"
        by (auto simp: py_get_default_def split: option.splits)
      moreover have "plan_review_of d = Inl (AttributeError ''upper'')"
        using False by (auto simp: plan_review_of_def split: pyval.splits)
      ultimately show ?thesis by (simp add: parse_plan_review_output_def d)
    qed
  qed
qed

end
