(* ===== verification/Plan_Registry.thy ===== *)
theory Plan_Registry
  imports Plan_Review Py_Float
begin

text \<open>
  The findings of a plan review across attempts (\<^verbatim>\<open>plan_finding_classifier.py\<close>, \<^verbatim>\<open>coordinator/plan_flow.py\<close>,
  \<^verbatim>\<open>coordinator/plan_trajectory.py\<close>): each finding is matched with the registry by structural anchors, the registry is
  brought up to date, and the text for the next plan is filtered so that recurring blockers come first.
  The records of the registry are objects the code mutates in place; the registry is their list in order, updated. Dashes and
  arrows of messages are written in ASCII.
\<close>

section \<open>Model\<close>

subsection \<open>Matching\<close>

record match_result =
  mt_current_index :: nat
  mt_prior_index :: "nat option"
  mt_shared_anchors :: "anchor list"
  mt_prose_similarity_used :: bool
  mt_abstain_reason :: "string option"

definition words_of :: "string \<Rightarrow> string set" where
  "words_of s = set (map (\<lambda>(k, e). slice k e s) (spans (Many1 word) s 0))"

definition jaccard_str :: "string \<Rightarrow> string \<Rightarrow> rat" where
  "jaccard_str a b =
     (let ta = words_of (py_lower a); tb = words_of (py_lower b)
      in if ta = {} \<and> tb = {} then 1 else if ta = {} \<or> tb = {} then 0
         else float_div (of_nat (card (ta \<inter> tb))) (of_nat (card (ta \<union> tb))))"

text \<open>\<^verbatim>\<open>max(candidates, key=...)\<close>: the first of the greatest.\<close>

fun first_max :: "('a \<Rightarrow> rat) \<Rightarrow> 'a \<Rightarrow> 'a list \<Rightarrow> 'a" where
  "first_max f best [] = best"
| "first_max f best (x # xs) = first_max f (if f x > f best then x else best) xs"

fun kind_text :: "anchor_kind \<Rightarrow> string" where
  "kind_text FilePath = ''file_path''"
| "kind_text SnakeIdent = ''snake_ident''"
| "kind_text CamelIdent = ''camel_ident''"
| "kind_text DottedPath = ''dotted_path''"

fun kind_of_text :: "string \<Rightarrow> anchor_kind" where
  "kind_of_text s = (if s = ''file_path'' then FilePath else if s = ''snake_ident'' then SnakeIdent
     else if s = ''camel_ident'' then CamelIdent else DottedPath)"

text \<open>The shared anchors sorted by kind and value.\<close>

definition sorted_anchors :: "anchor set \<Rightarrow> anchor list" where
  "sorted_anchors shared =
     map (\<lambda>(k, v). \<lparr>an_value = v, an_kind = kind_of_text k\<rparr>) (sorted_list_of_set ((\<lambda>a. (kind_text (an_kind a), an_value a)) ` shared))"

definition abstained :: "nat \<Rightarrow> string \<Rightarrow> match_result" where
  "abstained ci reason =
     \<lparr>mt_current_index = ci, mt_prior_index = None, mt_shared_anchors = [], mt_prose_similarity_used = False, mt_abstain_reason = Some reason\<rparr>"

text \<open>One finding against the prior ones, given by their stripped descriptions.\<close>

definition match_candidates :: "anchor set \<Rightarrow> string list \<Rightarrow> nat list" where
  "match_candidates ca prior = filter (\<lambda>p. share_anchor ca (extract_anchors (prior ! p))) [0..<length prior]"

definition file_only_priors :: "anchor set \<Rightarrow> string list \<Rightarrow> nat list" where
  "file_only_priors ca prior =
     filter (\<lambda>p. ca \<inter> extract_anchors (prior ! p) \<noteq> {} \<and> \<not> share_anchor ca (extract_anchors (prior ! p))) [0..<length prior]"

definition match_finding :: "string list \<Rightarrow> nat \<times> string \<Rightarrow> match_result" where
  "match_finding prior cf =
     (let ca = extract_anchors (snd cf); candidates = match_candidates ca prior
      in case candidates of
           [] \<Rightarrow> abstained (fst cf)
             (if ca = {} then ''no extractable structural anchors in current finding''
              else if file_only_priors ca prior \<noteq> [] then ''file-path-only overlap -- no shared non-file anchor''
              else ''no shared structural anchors'')
         | p # rest \<Rightarrow>
             (let best = (if rest = [] then p else first_max (\<lambda>k. jaccard_str (snd cf) (prior ! k)) p rest)
              in \<lparr>mt_current_index = fst cf, mt_prior_index = Some best, mt_shared_anchors = sorted_anchors (ca \<inter> extract_anchors (prior ! best)),
                  mt_prose_similarity_used = (rest \<noteq> []), mt_abstain_reason = None\<rparr>))"

definition match_plan_findings :: "string list \<Rightarrow> string list \<Rightarrow> match_result list" where
  "match_plan_findings current prior =
     (if prior = [] then map (\<lambda>i. abstained i ''no prior findings to match against'') [0..<length current]
      else map (match_finding (map strip_reviewer_prefix prior)) (enumerate 0 (map strip_reviewer_prefix current)))"

definition provenance_line :: "match_result \<Rightarrow> string" where
  "provenance_line r =
     (case mt_prior_index r of
        None \<Rightarrow> ''  finding['' @ show_nat (mt_current_index r) @ '']: UNMATCHED -- ''
          @ (case mt_abstain_reason r of None \<Rightarrow> ''None'' | Some reason \<Rightarrow> reason)
      | Some p \<Rightarrow> ''  finding['' @ show_nat (mt_current_index r) @ ''] -> prior['' @ show_nat p @ '']: matched on [''
          @ py_join '', '' (map (\<lambda>a. kind_text (an_kind a) @ '':'' @ an_value a) (mt_shared_anchors r)) @ '']''
          @ (if mt_prose_similarity_used r then '' (prose similarity used for tie-breaking)'' else []))"

definition format_provenance :: "match_result list \<Rightarrow> string" where
  "format_provenance results = py_join [CHR 0x0A] (map provenance_line results)"

subsection \<open>The registry\<close>

datatype plan_disposition = Unresolved | Fixed | New

record plan_record =
  pn_description :: string
  pn_severity :: pyval
  pn_cycle_first_seen :: int
  pn_cycle_last_seen :: int
  pn_disposition :: plan_disposition
  pn_original_severity :: "string option"

definition seen_again :: "int \<Rightarrow> pyval \<Rightarrow> plan_record \<Rightarrow> plan_record" where
  "seen_again attempt severity r = r\<lparr>pn_cycle_last_seen := attempt, pn_disposition := Unresolved, pn_severity := severity\<rparr>"

definition new_record :: "int \<Rightarrow> downgrade list \<Rightarrow> string plan_finding \<Rightarrow> plan_record" where
  "new_record attempt downgrades f =
     \<lparr>pn_description = strip_reviewer_prefix (pl_description f), pn_severity = pl_severity f, pn_cycle_first_seen = attempt,
      pn_cycle_last_seen = attempt, pn_disposition = New,
      pn_original_severity = map_option dg_original_severity (find (\<lambda>d. dg_description d = pl_description f) (rev downgrades))\<rparr>"

text \<open>One match: the prior record is marked, or a record appended.\<close>

definition track_match :: "int \<Rightarrow> downgrade list \<Rightarrow> string plan_finding list \<Rightarrow> match_result \<Rightarrow> plan_record list \<Rightarrow> plan_record list" where
  "track_match attempt downgrades findings m registry =
     (let f = findings ! mt_current_index m
      in case mt_prior_index m of
           Some p \<Rightarrow> registry[p := seen_again attempt (pl_severity f) (registry ! p)]
         | None \<Rightarrow> registry @ [new_record attempt downgrades f])"

definition settle_record :: "int \<Rightarrow> nat \<Rightarrow> nat set \<Rightarrow> nat \<times> plan_record \<Rightarrow> plan_record" where
  "settle_record attempt prior_count matched ir =
     (if fst ir < prior_count \<and> fst ir \<notin> matched \<and> pn_cycle_last_seen (snd ir) < attempt then (snd ir)\<lparr>pn_disposition := Fixed\<rparr> else snd ir)"

definition matched_indices :: "match_result list \<Rightarrow> nat set" where
  "matched_indices ms = set (concat (map (\<lambda>m. case mt_prior_index m of None \<Rightarrow> [] | Some p \<Rightarrow> [p]) ms))"

definition plan_matches :: "string plan_finding list \<Rightarrow> plan_record list \<Rightarrow> match_result list" where
  "plan_matches findings registry = match_plan_findings (map pl_description findings) (map pn_description registry)"

definition track_plan_findings :: "int \<Rightarrow> string plan_finding list \<Rightarrow> downgrade list \<Rightarrow> plan_record list \<Rightarrow> plan_record list" where
  "track_plan_findings attempt findings downgrades registry =
     (let ms = plan_matches findings registry
      in map (settle_record attempt (length registry) (matched_indices ms))
           (enumerate 0 (fold (track_match attempt downgrades findings) ms registry)))"

subsection \<open>The text for the next plan\<close>

definition blocking :: "pyval \<Rightarrow> bool" where
  "blocking severity = (severity = PStr ''P0'' \<or> severity = PStr ''P1'')"

text \<open>Of the recurring blockers the one with the longest streak, the least description first; the dispositions are those before the update.\<close>

definition recurring_record :: "int \<Rightarrow> plan_disposition list option \<Rightarrow> nat \<times> plan_record \<Rightarrow> bool" where
  "recurring_record attempt prior ir =
     (blocking (pn_severity (snd ir)) \<and> pn_disposition (snd ir) \<noteq> Fixed \<and> pn_cycle_first_seen (snd ir) < attempt
      \<and> \<not> (case prior of None \<Rightarrow> False | Some ds \<Rightarrow> fst ir < length ds \<and> ds ! fst ir = Fixed))"

definition streak_of :: "int \<Rightarrow> plan_record \<Rightarrow> int" where
  "streak_of attempt r = attempt - pn_cycle_first_seen r + 1"

definition streak_step :: "int \<Rightarrow> plan_disposition list option \<Rightarrow> nat \<times> plan_record \<Rightarrow> string \<times> int \<Rightarrow> string \<times> int" where
  "streak_step attempt prior ir best =
     (if recurring_record attempt prior ir
         \<and> (streak_of attempt (snd ir) > snd best \<or> streak_of attempt (snd ir) = snd best \<and> pn_description (snd ir) < fst best)
      then (pn_description (snd ir), streak_of attempt (snd ir)) else best)"

definition consecutive_streak_dominant_theme :: "plan_record list \<Rightarrow> int \<Rightarrow> plan_disposition list option \<Rightarrow> string" where
  "consecutive_streak_dominant_theme registry attempt prior = fst (fold (streak_step attempt prior) (enumerate 0 registry) ([], 0))"

text \<open>The streak reported with it: that of the first record with this description that is not fixed now and was not before.\<close>

definition reported_streak :: "plan_record list \<Rightarrow> int \<Rightarrow> plan_disposition list option \<Rightarrow> string \<Rightarrow> int" where
  "reported_streak registry attempt prior theme =
     (case find (\<lambda>ir. pn_description (snd ir) = theme \<and> pn_disposition (snd ir) \<noteq> Fixed
             \<and> \<not> (case prior of None \<Rightarrow> False | Some ds \<Rightarrow> fst ir < length ds \<and> ds ! fst ir = Fixed)) (enumerate 0 registry) of
        None \<Rightarrow> 0 | Some ir \<Rightarrow> streak_of attempt (snd ir))"

definition finding_lines :: "(rat \<Rightarrow> string) \<Rightarrow> string plan_finding \<Rightarrow> string list" where
  "finding_lines fr f =
     [''- ['' @ py_str fr (pl_severity f) @ ''] '' @ pl_description f]
     @ (if py_truthy (pl_suggestion f) then [''  Suggestion: '' @ py_str fr (pl_suggestion f)] else [])"

definition unfiltered_lines :: "(rat \<Rightarrow> string) \<Rightarrow> string plan_finding list \<Rightarrow> string list" where
  "unfiltered_lines fr findings =
     (if findings = [] then [''No specific findings provided.''] else concat (map (finding_lines fr) findings))"

text \<open>The audit of the filter; the counts (recurring, new, omitted) are only there when the text was filtered.\<close>

record regen_filter =
  gf_attempt :: int
  gf_filtering_applied :: bool
  gf_reason :: string
  gf_counts :: "(nat \<times> nat \<times> nat) option"
  gf_dominant_theme :: "string option"
  gf_highlighted :: "string list"
  gf_filtered_out :: "string list"

definition unfiltered_record :: "int \<Rightarrow> string \<Rightarrow> regen_filter" where
  "unfiltered_record attempt reason =
     \<lparr>gf_attempt = attempt, gf_filtering_applied = False, gf_reason = reason, gf_counts = None, gf_dominant_theme = None,
      gf_highlighted = [], gf_filtered_out = []\<rparr>"

definition genuinely_recurring :: "plan_disposition list option \<Rightarrow> match_result \<Rightarrow> bool" where
  "genuinely_recurring prior m =
     (case mt_prior_index m of None \<Rightarrow> False
      | Some p \<Rightarrow> (case prior of None \<Rightarrow> True | Some ds \<Rightarrow> \<not> (p < length ds \<and> ds ! p = Fixed)))"

definition blockers :: "bool \<Rightarrow> plan_disposition list option \<Rightarrow> match_result list \<Rightarrow> string plan_finding list \<Rightarrow> string plan_finding list" where
  "blockers again prior ms findings =
     map snd (filter (\<lambda>(m, f). genuinely_recurring prior m = again \<and> blocking (pl_severity f)) (zip ms findings))"

definition advisory_findings :: "string plan_finding list \<Rightarrow> string plan_finding list" where
  "advisory_findings findings = filter (\<lambda>f. pl_severity f = PStr ''P2'') findings"

definition filtered_lines :: "(rat \<Rightarrow> string) \<Rightarrow> string plan_finding list \<Rightarrow> string plan_finding list \<Rightarrow> nat \<Rightarrow> string \<Rightarrow> int \<Rightarrow> string list" where
  "filtered_lines fr recurring_p1s new_p1s omitted theme streak =
     [''### Recurring findings (address first -- survived previous attempts)''] @ concat (map (finding_lines fr) recurring_p1s)
     @ (if new_p1s = [] then []
        else [[], ''### New findings (address after recurring P1s are resolved)''] @ concat (map (finding_lines fr) new_p1s))
     @ (if omitted = 0 then []
        else [[], ''*'' @ show_nat omitted @ '' P2 finding(s) omitted -- resolve the recurring P1s above first.*''])
     @ (if theme = [] then []
        else [[], ''### Dominant recurring theme'',
              ''The most persistent unresolved issue ('' @ py_str_int streak @ '' consecutive attempt(s)):'', ''> '' @ theme])"

definition regen_lines :: "(rat \<Rightarrow> string) \<Rightarrow> string plan_finding list \<Rightarrow> match_result list \<Rightarrow> int \<Rightarrow> plan_record list \<Rightarrow> plan_disposition list option
    \<Rightarrow> string list \<times> regen_filter" where
  "regen_lines fr findings ms attempt registry prior =
     (if attempt = 0 then (unfiltered_lines fr findings, unfiltered_record attempt ''first_attempt'')
      else
        (let recurring_p1s = blockers True prior ms findings; new_p1s = blockers False prior ms findings;
             all_p2s = advisory_findings findings; theme = consecutive_streak_dominant_theme registry attempt prior
         in if recurring_p1s = [] then (unfiltered_lines fr findings, unfiltered_record attempt ''no_recurring_p1s'')
            else
              (filtered_lines fr recurring_p1s new_p1s (length all_p2s) theme (reported_streak registry attempt prior theme),
               \<lparr>gf_attempt = attempt, gf_filtering_applied = True, gf_reason = ''recurring_p1s_present'',
                gf_counts = Some (length recurring_p1s, length new_p1s, length all_p2s),
                gf_dominant_theme = (if theme = [] then None else Some theme),
                gf_highlighted = map pl_description recurring_p1s, gf_filtered_out = map pl_description all_p2s\<rparr>)))"

definition build_filtered_regen_findings :: "(rat \<Rightarrow> string) \<Rightarrow> string plan_finding list \<Rightarrow> match_result list \<Rightarrow> int \<Rightarrow> plan_record list
    \<Rightarrow> plan_disposition list option \<Rightarrow> string \<times> regen_filter" where
  "build_filtered_regen_findings fr findings ms attempt registry prior =
     (let (text_lines, audit) = regen_lines fr findings ms attempt registry prior in (py_join [CHR 0x0A] text_lines, audit))"

text \<open>The tracking of one attempt: the registry after it and the text for the next plan.\<close>

definition plan_review_step :: "(rat \<Rightarrow> string) \<Rightarrow> int \<Rightarrow> string plan_finding list \<Rightarrow> downgrade list \<Rightarrow> plan_record list
    \<Rightarrow> plan_record list \<times> string \<times> regen_filter" where
  "plan_review_step fr attempt findings downgrades registry =
     (let ms = plan_matches findings registry; registry' = track_plan_findings attempt findings downgrades registry
      in (registry', build_filtered_regen_findings fr findings ms attempt registry' (Some (map pn_disposition registry))))"

section \<open>The registry after an attempt\<close>

lemma match_finding_index [simp]: "mt_current_index (match_finding prior cf) = fst cf"
  by (simp add: match_finding_def abstained_def Let_def split: list.split)

lemma map_mt_current_index: "map mt_current_index (match_plan_findings current prior) = [0..<length current]"
  by (simp add: match_plan_findings_def abstained_def comp_def map_fst_enumerate)

lemma first_max_in: "first_max f b xs \<in> set (b # xs)"
  by (induction xs arbitrary: b) (auto split: if_splits)

lemma match_finding_prior:
  assumes "mt_prior_index (match_finding prior cf) = Some p"
  shows "p < length prior" and "share_anchor (extract_anchors (snd cf)) (extract_anchors (prior ! p))"
proof -
  from assms obtain k ks where c: "match_candidates (extract_anchors (snd cf)) prior = k # ks"
    by (cases "match_candidates (extract_anchors (snd cf)) prior") (auto simp: match_finding_def abstained_def Let_def)
  with assms first_max_in [of "\<lambda>i. jaccard_str (snd cf) (prior ! i)" k ks]
  have "p \<in> set (match_candidates (extract_anchors (snd cf)) prior)"
    by (auto simp: match_finding_def Let_def split: if_splits)
  then show "p < length prior" and "share_anchor (extract_anchors (snd cf)) (extract_anchors (prior ! p))"
    by (auto simp: match_candidates_def)
qed

lemma plan_matches_index: "map mt_current_index (plan_matches findings registry) = [0..<length findings]"
  by (simp add: plan_matches_def map_mt_current_index)

lemma plan_matches_prior:
  assumes "m \<in> set (plan_matches findings registry)" "mt_prior_index m = Some p"
  shows "p < length registry"
proof (cases "registry = []")
  case True
  with assms show ?thesis by (auto simp: plan_matches_def match_plan_findings_def abstained_def)
next
  case False
  with assms obtain cf where "m = match_finding (map (strip_reviewer_prefix \<circ> pn_description) registry) cf"
    by (auto simp: plan_matches_def match_plan_findings_def)
  with match_finding_prior(1) [of "map (strip_reviewer_prefix \<circ> pn_description) registry" cf p] assms(2) show ?thesis by simp
qed

text \<open>What is promised of one attempt: every earlier record is the one of its last match, or fixed; the others are appended.\<close>

definition last_match :: "match_result list \<Rightarrow> nat \<Rightarrow> match_result option" where
  "last_match ms i = find (\<lambda>m. mt_prior_index m = Some i) (rev ms)"

definition updated_record :: "int \<Rightarrow> string plan_finding list \<Rightarrow> match_result list \<Rightarrow> nat \<times> plan_record \<Rightarrow> plan_record" where
  "updated_record attempt findings ms ir =
     (case last_match ms (fst ir) of
        None \<Rightarrow> (snd ir)\<lparr>pn_disposition := Fixed\<rparr>
      | Some m \<Rightarrow> seen_again attempt (pl_severity (findings ! mt_current_index m)) (snd ir))"

definition unmatched_findings :: "string plan_finding list \<Rightarrow> match_result list \<Rightarrow> string plan_finding list" where
  "unmatched_findings findings ms = map (\<lambda>m. findings ! mt_current_index m) (filter (\<lambda>m. mt_prior_index m = None) ms)"

lemma seen_again_twice [simp]: "seen_again a s (seen_again a s' r) = seen_again a s r"
  by (simp add: seen_again_def)

definition marked_record :: "int \<Rightarrow> string plan_finding list \<Rightarrow> match_result list \<Rightarrow> nat \<times> plan_record \<Rightarrow> plan_record" where
  "marked_record attempt findings ms ir =
     (case last_match ms (fst ir) of
        None \<Rightarrow> snd ir | Some m \<Rightarrow> seen_again attempt (pl_severity (findings ! mt_current_index m)) (snd ir))"

lemma marked_record_snoc:
  "marked_record a fs (ms @ [m]) (i, r) =
     (if mt_prior_index m = Some i then seen_again a (pl_severity (fs ! mt_current_index m)) r else marked_record a fs ms (i, r))"
  by (simp add: marked_record_def last_match_def)

lemma fold_track_match:
  assumes "\<forall>m \<in> set ms. \<forall>p. mt_prior_index m = Some p \<longrightarrow> p < length reg"
  shows "fold (track_match a ds fs) ms reg =
     map (marked_record a fs ms) (enumerate 0 reg) @ map (new_record a ds) (unmatched_findings fs ms)"
  using assms
proof (induction ms rule: rev_induct)
  case Nil
  show ?case by (simp add: marked_record_def last_match_def unmatched_findings_def)
next
  case (snoc m ms)
  show ?case
  proof (cases "mt_prior_index m")
    case None
    with snoc show ?thesis
      by (simp add: track_match_def unmatched_findings_def marked_record_def last_match_def Let_def)
  next
    case (Some p)
    with snoc.prems have p: "p < length reg" by simp
    with Some snoc show ?thesis
      by (auto simp: track_match_def unmatched_findings_def Let_def list_update_append nth_append nth_enumerate_eq
          intro!: nth_equalityI simp: nth_list_update marked_record_snoc)
         (auto simp: marked_record_def split: option.split)
  qed
qed

lemma option_list: "set (case v of None \<Rightarrow> [] | Some x \<Rightarrow> [x]) = set_option v"
  by (cases v) auto

lemma matched_indices_iff: "i \<in> matched_indices ms \<longleftrightarrow> last_match ms i \<noteq> None"
  proof -
  have "last_match ms i = None \<longleftrightarrow> (\<forall>m \<in> set ms. mt_prior_index m \<noteq> Some i)" by (auto simp: last_match_def find_None_iff)
  moreover have "i \<in> matched_indices ms \<longleftrightarrow> (\<exists>m \<in> set ms. mt_prior_index m = Some i)" by (auto simp: matched_indices_def option_list)
  ultimately show ?thesis by auto
qed

definition settled :: "int \<Rightarrow> plan_record \<Rightarrow> bool" where
  "settled attempt r \<longleftrightarrow> pn_cycle_first_seen r \<le> pn_cycle_last_seen r \<and> pn_cycle_last_seen r \<le> attempt
     \<and> pn_disposition r = (if pn_cycle_last_seen r < attempt then Fixed else if pn_cycle_first_seen r < attempt then Unresolved else New)"

lemma track_plan_findings_eq:
  assumes "\<forall>r \<in> set registry. pn_cycle_last_seen r < attempt"
  shows "track_plan_findings attempt findings downgrades registry =
     map (updated_record attempt findings (plan_matches findings registry)) (enumerate 0 registry)
     @ map (new_record attempt downgrades) (unmatched_findings findings (plan_matches findings registry))"
proof -
  let ?ms = "plan_matches findings registry"
  have *: "\<forall>m \<in> set ?ms. \<forall>p. mt_prior_index m = Some p \<longrightarrow> p < length registry" by (blast intro: plan_matches_prior)
  show ?thesis unfolding track_plan_findings_def Let_def fold_track_match [OF *]
    using assms
    by (auto simp: nth_append nth_enumerate_eq settle_record_def matched_indices_iff updated_record_def marked_record_def
        split: option.split intro!: nth_equalityI)
qed

lemma updated_record_settled:
  "settled before r \<Longrightarrow> before < attempt \<Longrightarrow> settled attempt (updated_record attempt findings ms (i, r))"
  by (cases "last_match ms i") (auto simp: updated_record_def settled_def seen_again_def)

lemma new_record_settled: "settled attempt (new_record attempt downgrades f)"
  by (simp add: new_record_def settled_def)

lemma settled_seen: "\<forall>r \<in> set registry. settled before r \<Longrightarrow> before < attempt \<Longrightarrow> \<forall>r \<in> set registry. pn_cycle_last_seen r < attempt"
  by (auto simp: settled_def)

lemma track_keeps_settled:
  assumes "\<forall>r \<in> set registry. settled before r" and "before < attempt"
  shows "\<forall>r \<in> set (track_plan_findings attempt findings downgrades registry). settled attempt r"
proof -
  have "settled before r" if "(i, r) \<in> set (enumerate 0 registry)" for i r
    using that assms(1) by (auto simp: in_set_enumerate_eq)
  then show ?thesis unfolding track_plan_findings_eq [OF settled_seen [OF assms]]
    by (auto intro: updated_record_settled [OF _ assms(2)] new_record_settled)
qed

definition record_identity :: "plan_record \<Rightarrow> string \<times> int \<times> string option" where
  "record_identity r = (pn_description r, pn_cycle_first_seen r, pn_original_severity r)"

lemma updated_record_identity [simp]: "record_identity (updated_record attempt findings ms ir) = record_identity (snd ir)"
  by (simp add: record_identity_def updated_record_def seen_again_def split: option.split)

lemma record_identities: "map (\<lambda>x. record_identity (snd x)) (enumerate 0 registry) = map record_identity registry"
  by (simp add: list_eq_iff_nth_eq nth_enumerate_eq)

lemma track_keeps_identity:
  assumes "\<forall>r \<in> set registry. pn_cycle_last_seen r < attempt"
  shows "prefix (map record_identity registry) (map record_identity (track_plan_findings attempt findings downgrades registry))"
  unfolding track_plan_findings_eq [OF assms]
  by (simp add: comp_def record_identities)

text \<open>The attempts of a plan one after the other, each with the findings of its merged review.\<close>

type_synonym plan_attempt = "int \<times> string plan_finding list \<times> downgrade list"

definition track_attempt :: "plan_attempt \<Rightarrow> plan_record list \<Rightarrow> plan_record list" where
  "track_attempt a registry = track_plan_findings (fst a) (fst (snd a)) (snd (snd a)) registry"

lemma track_attempts_settled:
  assumes "\<forall>r \<in> set registry. settled before r" and "sorted_wrt (<) (before # map fst attempts)"
  shows "\<forall>r \<in> set (fold track_attempt attempts registry). settled (List.last (before # map fst attempts)) r"
  using assms
proof (induction attempts arbitrary: registry before)
  case (Cons a attempts)
  from Cons.prems have "\<forall>r \<in> set (track_attempt a registry). settled (fst a) r"
    unfolding track_attempt_def by (intro track_keeps_settled) auto
  with Cons.IH [of "track_attempt a registry" "fst a"] Cons.prems show ?case by simp
qed simp

lemma track_attempts_identity:
  assumes "\<forall>r \<in> set registry. settled before r" and "sorted_wrt (<) (before # map fst attempts)"
  shows "prefix (map record_identity registry) (map record_identity (fold track_attempt attempts registry))"
  using assms
proof (induction attempts arbitrary: registry before)
  case (Cons a attempts)
  from Cons.prems have "before < fst a" by simp
  note seen = settled_seen [OF Cons.prems(1) this]
  from Cons.prems have "\<forall>r \<in> set (track_attempt a registry). settled (fst a) r"
    unfolding track_attempt_def by (intro track_keeps_settled) auto
  then have "prefix (map record_identity (track_attempt a registry)) (map record_identity (fold track_attempt attempts (track_attempt a registry)))"
    using Cons.prems by (intro Cons.IH [of _ "fst a"]) auto
  moreover have "prefix (map record_identity registry) (map record_identity (track_attempt a registry))"
    unfolding track_attempt_def by (rule track_keeps_identity [OF seen])
  ultimately show ?case by (simp add: prefix_order.trans)
qed simp

lemma track_attempts_from_empty:
  assumes "sorted_wrt (<) (map fst attempts)" and "attempts \<noteq> []"
  shows "\<forall>r \<in> set (fold track_attempt attempts []). settled (List.last (map fst attempts)) r"
proof -
  from assms(2) obtain a as where a: "attempts = a # as" by (cases attempts) auto
  have "\<forall>r \<in> set (track_attempt a []). settled (fst a) r"
    using track_keeps_settled [of "[]" "fst a - 1" "fst a"] by (simp add: track_attempt_def)
  from track_attempts_settled [OF this, of as] assms(1) a show ?thesis by simp
qed

text \<open>C34. 
  After any attempts in increasing order, the disposition of every record is what its dates say: fixed when the last attempt
  did not report it, new when only that attempt did, unresolved when it and an earlier one did; and the records of the
  earlier attempts are all there, in order, with their description, their first attempt and the severity before a downgrade.
\<close>
theorem plan_registry_history:
  assumes "sorted_wrt (<) (map fst (before @ [a] @ after))"
  shows "(\<forall>r \<in> set (fold track_attempt (before @ [a] @ after) []). settled (List.last (map fst ([a] @ after))) r)
    \<and> prefix (map record_identity (fold track_attempt (before @ [a]) [])) (map record_identity (fold track_attempt (before @ [a] @ after) []))"
proof -
  have 1: "\<forall>r \<in> set (fold track_attempt (before @ [a]) []). settled (fst a) r"
    using track_attempts_from_empty [of "before @ [a]"] assms by (simp add: sorted_wrt_append)
  have 2: "sorted_wrt (<) (fst a # map fst after)" using assms by (simp add: sorted_wrt_append)
  from track_attempts_settled [OF 1 2] track_attempts_identity [OF 1 2] show ?thesis by simp
qed

section \<open>The text for the next plan\<close>

lemma concat_map_sublist: "x \<in> set xs \<Longrightarrow> sublist (f x) (concat (map f xs))"
  by (metis concat.simps(2) concat_append list.simps(9) map_append split_list sublist_appendI)

lemma plan_matches_length [simp]: "length (plan_matches findings registry) = length findings"
  by (metis length_map length_upt minus_nat.diff_0 plan_matches_index)

lemma blocker_listed:
  "length ms = length findings \<Longrightarrow> f \<in> set findings \<Longrightarrow> blocking (pl_severity f) \<Longrightarrow>
     f \<in> set (blockers True prior ms findings) \<or> f \<in> set (blockers False prior ms findings)"
  by (force simp: blockers_def set_zip in_set_conv_nth)

lemma sublist_left: "sublist xs ys \<Longrightarrow> sublist xs (ps @ ys)"
  by (meson sublist_append_leftI sublist_order.order.trans)

lemma sublist_right: "sublist xs ys \<Longrightarrow> sublist xs (ys @ ss)"
  by (meson sublist_append_rightI sublist_order.order.trans)

lemma filtered_lines_sublist:
  assumes "f \<in> set recs \<or> f \<in> set news"
  shows "sublist (finding_lines fr f) (filtered_lines fr recs news n theme streak)"
  using assms
proof
  assume "f \<in> set recs"
  then show ?thesis unfolding filtered_lines_def by (intro sublist_left [OF sublist_right] concat_map_sublist)
next
  assume f: "f \<in> set news"
  then have "news \<noteq> []" by auto
  from concat_map_sublist [OF f] show ?thesis unfolding filtered_lines_def if_not_P [OF \<open>news \<noteq> []\<close>]
    by (intro sublist_left [OF sublist_left [OF sublist_right [OF sublist_left]]])
qed

lemma unfiltered_lines_sublist: "f \<in> set findings \<Longrightarrow> sublist (finding_lines fr f) (unfiltered_lines fr findings)"
  by (auto simp: unfiltered_lines_def intro: concat_map_sublist)

lemma filtering_needs_blocker:
  assumes "gf_filtering_applied (snd (regen_lines fr findings ms attempt registry prior))"
  obtains m f where "(m, f) \<in> set (zip ms findings)" "genuinely_recurring prior m" "blocking (pl_severity f)"
proof -
  from assms have "blockers True prior ms findings \<noteq> []" by (auto simp: regen_lines_def unfiltered_record_def Let_def split: if_splits)
  then have "\<exists>x \<in> set (zip ms findings). genuinely_recurring prior (fst x) \<and> blocking (pl_severity (snd x))"
    by (force simp: blockers_def filter_empty_conv)
  then obtain x where "x \<in> set (zip ms findings)" "genuinely_recurring prior (fst x)" "blocking (pl_severity (snd x))" by blast
  then show ?thesis by (intro that [of "fst x" "snd x"]) simp_all
qed

text \<open>C35. 
  The text for the next plan has the lines of every P0 and P1 finding of the review, whether it is filtered or not, and
  those of every finding when it is not; it is filtered only when one of the blockers matches a record that was not
  fixed before this attempt. Filtered, it says how many P2 findings there are when there is one, and the audit has their
  number and names each of them as left out.
\<close>
theorem regen_keeps_blockers:
  assumes f: "f \<in> set findings"
    and eq: "regen_lines fr findings (plan_matches findings registry) attempt registry' (Some (map pn_disposition registry)) = (text_lines, audit)"
  shows "(blocking (pl_severity f) \<or> \<not> gf_filtering_applied audit \<longrightarrow> sublist (finding_lines fr f) text_lines)
    \<and> (gf_filtering_applied audit \<longrightarrow> gf_filtered_out audit = map pl_description (advisory_findings findings)
        \<and> (\<exists>again new. gf_counts audit = Some (again, new, length (advisory_findings findings)))
        \<and> (advisory_findings findings \<noteq> [] \<longrightarrow>
             ''*'' @ show_nat (length (advisory_findings findings)) @ '' P2 finding(s) omitted -- resolve the recurring P1s above first.*'' \<in> set text_lines)
        \<and> (\<exists>i p. i < length findings \<and> blocking (pl_severity (findings ! i)) \<and> mt_prior_index (plan_matches findings registry ! i) = Some p
             \<and> p < length registry \<and> pn_disposition (registry ! p) \<noteq> Fixed))"
proof (intro conjI impI)
  let ?ms = "plan_matches findings registry" and ?prior = "Some (map pn_disposition registry)"
  assume "blocking (pl_severity f) \<or> \<not> gf_filtering_applied audit"
  moreover have "blocking (pl_severity f) \<Longrightarrow> sublist (finding_lines fr f)
      (filtered_lines fr (blockers True ?prior ?ms findings) (blockers False ?prior ?ms findings) n theme streak)" for n theme streak
    by (rule filtered_lines_sublist, rule blocker_listed [OF _ f]) simp_all
  ultimately show "sublist (finding_lines fr f) text_lines"
    using eq unfiltered_lines_sublist [OF f, of fr] by (auto simp: regen_lines_def Let_def split: if_splits)
next
  assume applied: "gf_filtering_applied audit"
  with eq show "gf_filtered_out audit = map pl_description (advisory_findings findings)"
    by (auto simp: regen_lines_def unfiltered_record_def Let_def split: if_splits)
  from applied eq show "\<exists>again new. gf_counts audit = Some (again, new, length (advisory_findings findings))"
    by (auto simp: regen_lines_def unfiltered_record_def Let_def split: if_splits)
  from applied eq obtain m g where m: "(m, g) \<in> set (zip (plan_matches findings registry) findings)"
      "genuinely_recurring (Some (map pn_disposition registry)) m" "blocking (pl_severity g)"
    by (metis filtering_needs_blocker snd_conv)
  then obtain p where p: "mt_prior_index m = Some p" by (auto simp: genuinely_recurring_def split: option.splits)
  have "p < length registry" using m(1) p by (blast dest: set_zip_leftD intro: plan_matches_prior)
  with m p show "\<exists>i p. i < length findings \<and> blocking (pl_severity (findings ! i)) \<and> mt_prior_index (plan_matches findings registry ! i) = Some p
      \<and> p < length registry \<and> pn_disposition (registry ! p) \<noteq> Fixed"
    by (auto simp: set_zip genuinely_recurring_def)
next
  assume "gf_filtering_applied audit" "advisory_findings findings \<noteq> []"
  with eq show "''*'' @ show_nat (length (advisory_findings findings)) @ '' P2 finding(s) omitted -- resolve the recurring P1s above first.*'' \<in> set text_lines"
    by (auto simp: regen_lines_def unfiltered_record_def Let_def filtered_lines_def split: if_splits)
qed

section \<open>Examples\<close>

definition load_finding :: "string plan_finding" where
  "load_finding = \<lparr>pl_severity = PStr ''P1'', pl_description = ''a_b'', pl_suggestion = PNone\<rparr>"

definition impl_finding :: "string plan_finding" where
  "impl_finding = \<lparr>pl_severity = PStr ''P1-impl'', pl_description = ''x'', pl_suggestion = PNone\<rparr>"

lemma example_texts:
  "extract_anchors ''a_b'' = {\<lparr>an_value = ''a_b'', an_kind = SnakeIdent\<rparr>}" "extract_anchors ''x'' = {}"
  "strip_reviewer_prefix ''a_b'' = ''a_b''" "strip_reviewer_prefix ''x'' = ''x''"
  by (code_simp, code_simp, code_simp, code_simp)

lemmas example_simps = load_finding_def impl_finding_def example_texts track_attempt_def track_plan_findings_def plan_matches_def
  match_plan_findings_def match_finding_def match_candidates_def file_only_priors_def share_anchor_def track_match_def new_record_def
  settle_record_def matched_indices_def seen_again_def abstained_def Let_def upt_rec

text \<open>
  A finding that was seen, fixed and came back is left out of the dominant theme in the attempt where it came back, and
  in the next one counted from the first attempt on.
\<close>

definition revived :: "plan_record list" where
  "revived = fold track_attempt [(0, [load_finding], []), (1, [], []), (2, [load_finding], [])] []"

lemma revived_eq:
  "revived = [\<lparr>pn_description = ''a_b'', pn_severity = PStr ''P1'', pn_cycle_first_seen = 0, pn_cycle_last_seen = 2,
     pn_disposition = Unresolved, pn_original_severity = None\<rparr>]"
  by (simp add: revived_def example_simps)

theorem interrupted_streak_is_counted:
  "consecutive_streak_dominant_theme (track_attempt (3, [load_finding], []) revived) 3 (Some (map pn_disposition revived)) = ''a_b''"
  "reported_streak (track_attempt (3, [load_finding], []) revived) 3 (Some (map pn_disposition revived)) ''a_b'' = 4"
  by (simp_all add: revived_eq example_simps consecutive_streak_dominant_theme_def reported_streak_def streak_step_def
      recurring_record_def blocking_def streak_of_def)

text \<open>
  A finding that corroboration turned into \<^verbatim>\<open>P1-impl\<close> is neither listed nor counted once the text is filtered.
\<close>

lemma example_regen:
  "regen_lines fr [load_finding, impl_finding] (plan_matches [load_finding, impl_finding] revived) 3 registry' (Some (map pn_disposition revived))
     = (filtered_lines fr [load_finding] [] 0 theme (reported_streak registry' 3 (Some [Unresolved]) theme),
        \<lparr>gf_attempt = 3, gf_filtering_applied = True, gf_reason = ''recurring_p1s_present'', gf_counts = Some (1, 0, 0),
         gf_dominant_theme = (if theme = [] then None else Some theme), gf_highlighted = [''a_b''], gf_filtered_out = []\<rparr>)"
  if "theme = consecutive_streak_dominant_theme registry' 3 (Some [Unresolved])"
  using that by (simp add: regen_lines_def revived_eq example_simps blockers_def advisory_findings_def genuinely_recurring_def blocking_def)

theorem filtered_text_forgets_impl_findings:
  "fst (regen_lines fr [load_finding, impl_finding] (plan_matches [load_finding, impl_finding] revived) 3 [] (Some (map pn_disposition revived)))
     = [''### Recurring findings (address first -- survived previous attempts)'', ''- [P1] a_b'']"
  by (subst example_regen [OF refl])
     (simp add: filtered_lines_def consecutive_streak_dominant_theme_def finding_lines_def load_finding_def)

theorem regen_keeps_blockers_witness:
  "sublist [''- [P1] a_b''] (fst (regen_lines (\<lambda>_. []) [load_finding, impl_finding] (plan_matches [load_finding, impl_finding] revived) 3
     [] (Some (map pn_disposition revived))))"
proof -
  from regen_keeps_blockers [where f = load_finding and fr = "\<lambda>_. []" and registry' = "[]", OF _ example_regen [OF refl]]
  show ?thesis by (subst example_regen [OF refl]) (simp add: finding_lines_def load_finding_def blocking_def)
qed

theorem plan_registry_history_witness:
  "\<exists>registry. registry = fold track_attempt [(0, [load_finding], []), (1, [], []), (2, [load_finding], [])] [] \<and> list_all (settled 2) registry"
proof -
  from plan_registry_history [of "[(0, [load_finding], [])]" "(1, [], [])" "[(2, [load_finding], [])]"]
  show ?thesis by (simp add: list_all_iff)
qed

end
