(* ===== verification/Plan_Trajectory.thy ===== *)
theory Plan_Trajectory
  imports Plan_Registry
begin

text \<open>
  The course of a plan over its attempts (\<^verbatim>\<open>coordinator/plan_trajectory.py\<close>): every attempt leaves its counts and the themes
  of its findings; from them the next plan is patched, started over, or given up. The entries are the dicts
  \<^verbatim>\<open>record_plan_attempt\<close> makes, with all their keys. Dashes of messages are written in ASCII.
\<close>

section \<open>Themes\<close>

definition between_any :: "(char \<times> char) list \<Rightarrow> char \<Rightarrow> bool" where
  "between_any rs c = list_ex (\<lambda>(lo, hi). between lo hi c) rs"

definition ascii_letter :: "char \<Rightarrow> bool" where
  "ascii_letter = between_any [(CHR ''a'', CHR ''z''), (CHR ''A'', CHR ''Z'')]"

definition ascii_alnum :: "char \<Rightarrow> bool" where
  "ascii_alnum = between_any [(CHR ''a'', CHR ''z''), (CHR ''A'', CHR ''Z''), (CHR ''0'', CHR ''9'')]"

definition theme_snake_re :: regex where
  "theme_snake_re = Seq WordEdge (Seq (Opt (Lit CHR ''_'')) (Seq (Cls lower_letter) (Seq (Many (Cls lower_alnum))
     (Seq (Many1 (Seq (Lit CHR ''_'') (Many1 (Cls lower_alnum)))) WordEdge))))"

definition theme_camel_re :: regex where
  "theme_camel_re = Seq WordEdge (Seq (Many1 (Cls lower_letter)) (Seq (Cls (between CHR ''A'' CHR ''Z''))
     (Seq (Many (Cls ascii_alnum)) WordEdge)))"

definition name_re :: regex where
  "name_re = Seq (Cls (\<lambda>c. ascii_letter c \<or> c = CHR ''_'')) (Many (Cls (\<lambda>c. ascii_alnum c \<or> c = CHR ''_'')))"

definition theme_dotted_re :: regex where
  "theme_dotted_re = Seq WordEdge (Seq name_re (Seq (Many1 (Seq (Lit CHR ''.'') name_re)) WordEdge))"

definition code_extensions :: "string list" where
  "code_extensions = [''py'', ''ts'', ''js'', ''go'', ''rs'', ''java'', ''rb'', ''c'', ''cpp'', ''h'', ''yaml'', ''yml'', ''toml'', ''json'']"

text \<open>The pattern of a file path, cut at its group: what stands before the extension, the extension, the edge behind it.\<close>

definition path_stem_re :: regex where
  "path_stem_re = Seq WordEdge (Seq (Opt (Seq (Many1 (Cls (\<lambda>c. is_word c \<or> c = CHR ''.'' \<or> c = CHR ''/''))) (Lit CHR ''/'')))
     (Seq (Many1 (Cls (\<lambda>c. is_word c \<or> c = CHR ''.'' \<or> c = CHR ''-''))) (Lit CHR ''.'')))"

definition path_ext_re :: regex where
  "path_ext_re = Seq word (up_to 3 word)"

definition theme_path_re :: regex where
  "theme_path_re = Seq path_stem_re (Seq path_ext_re WordEdge)"

definition full_extension :: "string \<Rightarrow> string option" where
  "full_extension s =
     map_option (\<lambda>p. slice p (length s) s)
       (find (\<lambda>p. list_ex (\<lambda>q. q = length s \<and> ends WordEdge s q \<noteq> []) (ends path_ext_re s p)) (ends path_stem_re s 0))"

definition is_code_file_path :: "string \<Rightarrow> bool" where
  "is_code_file_path s = (case full_extension s of None \<Rightarrow> False | Some ext \<Rightarrow> py_lower ext \<in> set code_extensions)"

definition is_file_path_anchor :: "string \<Rightarrow> bool" where
  "is_file_path_anchor theme = is_code_file_path theme"

definition path_extension :: "string \<Rightarrow> nat \<Rightarrow> string" where
  "path_extension s k = (case group_span path_stem_re path_ext_re WordEdge s k of None \<Rightarrow> [] | Some (p, q) \<Rightarrow> slice p q s)"

definition text_themes :: "string \<Rightarrow> string list" where
  "text_themes descr =
     concat (map (\<lambda>r. map (\<lambda>(k, e). slice k e descr) (spans r descr 0)) [theme_snake_re, theme_camel_re, theme_dotted_re])
     @ map (\<lambda>(k, e). slice k e descr) (filter (\<lambda>(k, e). py_lower (path_extension descr k) \<in> set code_extensions) (spans theme_path_re descr 0))"

definition sorted_set :: "string list \<Rightarrow> string list" where
  "sorted_set xs = sort (remdups xs)"

definition extract_finding_themes :: "string plan_finding list \<Rightarrow> string list" where
  "extract_finding_themes findings = sorted_set (concat (map (\<lambda>f. text_themes (pl_description f)) findings))"

section \<open>The assessment\<close>

record attempt_meta =
  am_files_touched :: nat
  am_p1_count :: nat
  am_p2_count :: nat
  am_finding_themes :: "string list"
  am_trajectory_assessable :: bool

datatype surface_trend = Unassessed | Shrinking | Growing | Flat

datatype regen_disposition = Patch | Backtrack | Escalate

record history_pair =
  hp_attempts :: "nat \<times> nat"
  hp_shared_themes :: "string list"
  hp_surface_trend :: surface_trend

record assessment =
  ta_disposition :: regen_disposition
  ta_attempt_count :: nat
  ta_recorded_attempt_count :: nat
  ta_reason_code :: string
  ta_min_attempts_for_stop :: int
  ta_qualifying_historical_pairs :: "history_pair list"
  ta_qualifying_pair_count :: nat
  ta_comparable_pair_count :: nat
  ta_surface_trend :: surface_trend
  ta_majority_recurring_themes :: "string list"
  ta_comparable_theme_evidence :: "(string \<times> nat) list"
  ta_latest_pair_comparable :: bool
  ta_latest_pair_qualifies_backtrack :: bool

definition has_sufficient_overlap :: "string list \<Rightarrow> string list \<Rightarrow> bool" where
  "has_sufficient_overlap prev_themes curr_themes = list_ex (\<lambda>t. t \<in> set curr_themes \<and> \<not> is_file_path_anchor t) prev_themes"

definition surface_trend_of :: "attempt_meta \<Rightarrow> attempt_meta \<Rightarrow> surface_trend" where
  "surface_trend_of prev cur =
     (let prev_count = am_p1_count prev + am_p2_count prev; curr_count = am_p1_count cur + am_p2_count cur
      in if curr_count < prev_count \<or> am_files_touched cur < am_files_touched prev then Shrinking
         else if curr_count > prev_count \<or> am_files_touched cur > am_files_touched prev then Growing else Flat)"

definition shared_non_file_themes :: "attempt_meta \<Rightarrow> attempt_meta \<Rightarrow> string list" where
  "shared_non_file_themes prev cur =
     sorted_set (filter (\<lambda>t. t \<in> set (am_finding_themes cur) \<and> \<not> is_file_path_anchor t) (am_finding_themes prev))"

definition history_pairs :: "attempt_meta list \<Rightarrow> (attempt_meta \<times> attempt_meta) list" where
  "history_pairs h = zip h (tl h)"

definition qualifies_backtrack :: "attempt_meta \<times> attempt_meta \<Rightarrow> bool" where
  "qualifies_backtrack pc = (shared_non_file_themes (fst pc) (snd pc) \<noteq> [] \<and> surface_trend_of (fst pc) (snd pc) \<noteq> Shrinking)"

definition qualifying_pairs :: "attempt_meta list \<Rightarrow> history_pair list" where
  "qualifying_pairs h =
     map (\<lambda>(i, p, c). \<lparr>hp_attempts = (i, i + 1), hp_shared_themes = shared_non_file_themes p c, hp_surface_trend = surface_trend_of p c\<rparr>)
       (filter (\<lambda>(i, pc). qualifies_backtrack pc) (enumerate 1 (history_pairs h)))"

definition comparable_pairs :: "attempt_meta list \<Rightarrow> (attempt_meta \<times> attempt_meta) list" where
  "comparable_pairs h = filter (\<lambda>(p, c). shared_non_file_themes p c \<noteq> []) (history_pairs h)"

text \<open>\<^verbatim>\<open>theme_counts\<close>, sorted: in how many entries of the lists a theme stands.\<close>

definition theme_counts :: "attempt_meta list \<Rightarrow> (string \<times> nat) list" where
  "theme_counts h =
     (let themes = filter (\<lambda>t. \<not> is_file_path_anchor t) (concat (map am_finding_themes h))
      in map (\<lambda>t. (t, count_list themes t)) (sorted_set themes))"

text \<open>More than half, \<^verbatim>\<open>count > (attempt_count / 2)\<close>, without the division.\<close>

definition majority_themes :: "attempt_meta list \<Rightarrow> string list" where
  "majority_themes h = map fst (filter (\<lambda>(t, n). 2 * n > length h) (theme_counts h))"

definition min_attempts_for_stop :: "int \<Rightarrow> int" where
  "min_attempts_for_stop max_plan_regen_attempts = max 3 (min 4 (max_plan_regen_attempts + 1))"

text \<open>The disposition with its reason, once there are two attempts to compare.\<close>

definition trajectory_decision :: "attempt_meta list \<Rightarrow> int \<Rightarrow> regen_disposition \<times> string" where
  "trajectory_decision h max_plan_regen_attempts =
     (let prev = h ! (length h - 2); cur = h ! (length h - 1);
          comparable = has_sufficient_overlap (am_finding_themes prev) (am_finding_themes cur);
          recurs = (comparable \<and> surface_trend_of prev cur \<noteq> Shrinking);
          accumulated = (length (qualifying_pairs h) \<ge> 2 \<or> length h \<ge> 4 \<and> majority_themes h \<noteq> [])
      in if surface_trend_of prev cur = Shrinking then (Patch, ''surface_shrinking'')
         else if int (length h) < min_attempts_for_stop max_plan_regen_attempts
         then if recurs then (Backtrack, ''latest_pair_recurs'')
              else (Patch, if \<not> comparable then ''latest_pair_not_comparable'' else ''too_few_attempts'')
         else if accumulated then (Escalate, ''accumulated_non_convergence'')
         else if comparable_pairs h = [] then (Escalate, ''unassessable_no_comparable_structure'')
         else if recurs then (Backtrack, ''latest_pair_recurs'')
         else (Patch, ''latest_pair_fresh_without_accumulation''))"

definition assess_plan_trajectory :: "attempt_meta list \<Rightarrow> int \<Rightarrow> assessment" where
  "assess_plan_trajectory metadata_history max_plan_regen_attempts =
     (let h = filter am_trajectory_assessable metadata_history; start =
        \<lparr>ta_disposition = Patch, ta_attempt_count = length h, ta_recorded_attempt_count = length metadata_history,
         ta_reason_code = ''too_few_attempts'', ta_min_attempts_for_stop = min_attempts_for_stop max_plan_regen_attempts,
         ta_qualifying_historical_pairs = [], ta_qualifying_pair_count = 0, ta_comparable_pair_count = 0,
         ta_surface_trend = Unassessed, ta_majority_recurring_themes = [], ta_comparable_theme_evidence = [],
         ta_latest_pair_comparable = False, ta_latest_pair_qualifies_backtrack = False\<rparr>
      in if length h < 2 then start
         else (let prev = h ! (length h - 2); cur = h ! (length h - 1);
                   comparable = has_sufficient_overlap (am_finding_themes prev) (am_finding_themes cur);
                   (disposition, reason) = trajectory_decision h max_plan_regen_attempts
               in start\<lparr>ta_disposition := disposition, ta_reason_code := reason, ta_qualifying_historical_pairs := qualifying_pairs h,
                    ta_qualifying_pair_count := length (qualifying_pairs h), ta_comparable_pair_count := length (comparable_pairs h),
                    ta_surface_trend := surface_trend_of prev cur, ta_majority_recurring_themes := majority_themes h,
                    ta_comparable_theme_evidence := theme_counts h, ta_latest_pair_comparable := comparable,
                    ta_latest_pair_qualifies_backtrack := (comparable \<and> surface_trend_of prev cur \<noteq> Shrinking)\<rparr>))"

definition classify_disposition :: "attempt_meta list \<Rightarrow> int \<Rightarrow> regen_disposition" where
  "classify_disposition metadata_history max_plan_regen_attempts = ta_disposition (assess_plan_trajectory metadata_history max_plan_regen_attempts)"

text \<open>The entry of one attempt; \<open>steps\<close> are the files of the steps of the structured plan.\<close>

definition attempt_entry :: "string list list \<Rightarrow> string plan_finding list \<Rightarrow> bool \<Rightarrow> attempt_meta" where
  "attempt_entry steps findings assessable =
     \<lparr>am_files_touched = length (remdups (concat steps)),
      am_p1_count = length (filter (\<lambda>f. blocking (pl_severity f)) findings),
      am_p2_count = length (advisory_findings findings),
      am_finding_themes = extract_finding_themes findings, am_trajectory_assessable = assessable\<rparr>"

record trajectory_state =
  tr_metadata :: "attempt_meta list"
  tr_assessment :: "assessment option"
  tr_disposition :: "regen_disposition option"

definition record_plan_attempt :: "string list list \<Rightarrow> string plan_finding list \<Rightarrow> int \<Rightarrow> bool \<Rightarrow> trajectory_state \<Rightarrow> trajectory_state" where
  "record_plan_attempt steps findings max_plan_regen_attempts assessable st =
     (let metadata = tr_metadata st @ [attempt_entry steps findings assessable];
          assessed = assess_plan_trajectory metadata max_plan_regen_attempts
      in \<lparr>tr_metadata = metadata, tr_assessment = Some assessed, tr_disposition = Some (ta_disposition assessed)\<rparr>)"

section \<open>What the planner is told\<close>

definition collect_all_surviving_themes :: "attempt_meta list \<Rightarrow> string list" where
  "collect_all_surviving_themes metadata =
     sorted_set (filter (\<lambda>t. \<not> is_file_path_anchor t) (concat (map am_finding_themes metadata)))"

definition in_pair :: "string \<Rightarrow> attempt_meta \<times> attempt_meta \<Rightarrow> bool" where
  "in_pair t pc = (t \<in> set (am_finding_themes (fst pc)) \<and> t \<in> set (am_finding_themes (snd pc)))"

definition pair_survivals :: "attempt_meta list \<Rightarrow> string \<Rightarrow> nat" where
  "pair_survivals metadata t = length (filter (in_pair t) (history_pairs metadata))"

definition latest_candidates :: "attempt_meta list \<Rightarrow> string list" where
  "latest_candidates metadata =
     shared_non_file_themes (metadata ! (length metadata - 2)) (metadata ! (length metadata - 1))"

text \<open>The candidates are sorted, so the first of the best is the least.\<close>

definition dominant_surviving_theme :: "attempt_meta list \<Rightarrow> string" where
  "dominant_surviving_theme metadata =
     (if length metadata < 2 then []
      else (let counted = filter (\<lambda>t. pair_survivals metadata t > 0) (latest_candidates metadata);
                best = Max (set (0 # map (pair_survivals metadata) counted))
            in case filter (\<lambda>t. pair_survivals metadata t = best) counted of [] \<Rightarrow> [] | t # _ \<Rightarrow> t))"

definition nl :: string where
  "nl = [CHR 0x0A]"

definition backtrack_context :: "attempt_meta list \<Rightarrow> string" where
  "backtrack_context metadata =
     (let themes = collect_all_surviving_themes metadata; theme = dominant_surviving_theme metadata;
          constraints = (if themes = [] then ''- (none identified)'' else py_join nl (map (\<lambda>t. ''- '' @ t) themes));
          rejected = (if theme = [] then ''- (none identified)''
            else ''- threading `'' @ theme @ ''` -- this approach has been flagged in '' @ show_nat (pair_survivals metadata theme)
              @ '' consecutive reviews.'')
      in ''## Trajectory Analysis'' @ nl @ nl @ ''Your plan has been rejected '' @ show_nat (length metadata)
         @ '' times. The current approach is not converging.'' @ nl @ nl @ ''### Learned constraints'' @ nl @ nl
         @ ''Validated truths from reviewer findings across all attempts:'' @ nl @ nl @ constraints @ nl @ nl
         @ ''### Rejected strategy'' @ nl @ nl @ rejected @ nl @ nl
         @ ''Do not patch the current plan. Do not repeat the rejected strategy. Produce a new plan that satisfies the learned constraints''
         @ '' using a different approach. Prefer the smallest design that works.'')"

definition or_dash :: "string list \<Rightarrow> string" where
  "or_dash themes = (let joined = py_join '', '' themes in if joined = [] then ''--'' else joined)"

definition table_row :: "nat \<times> attempt_meta option \<times> attempt_meta \<Rightarrow> string" where
  "table_row row = (case row of (i, prev, entry) \<Rightarrow>
     ''| '' @ show_nat i @ '' | '' @ show_nat (am_files_touched entry) @ '' | '' @ show_nat (am_p1_count entry) @ '' | ''
     @ show_nat (am_p2_count entry) @ '' | ''
     @ or_dash (case prev of None \<Rightarrow> am_finding_themes entry
                | Some p \<Rightarrow> sorted_set (filter (\<lambda>t. t \<in> set (am_finding_themes entry)) (am_finding_themes p))) @ '' |'')"

definition patch_context :: "attempt_meta list \<Rightarrow> string" where
  "patch_context metadata =
     ''## Trajectory Analysis'' @ nl @ nl @ ''Disposition: **patch**'' @ nl @ nl
     @ py_join nl ([''| Attempt | Files Touched | P1 | P2 | Surviving Themes |'', ''|---------|--------------|----|----|-----------------|'']
         @ map table_row (enumerate 1 (zip (None # map Some metadata) metadata))) @ nl @ nl
     @ ''Prior themes were resolved. Focus on the new findings only.''"

definition build_disposition_context :: "trajectory_state \<Rightarrow> string" where
  "build_disposition_context st =
     (if length (tr_metadata st) < 2 then []
      else case tr_disposition st of
             Some Escalate \<Rightarrow> []
           | Some Backtrack \<Rightarrow> backtrack_context (tr_metadata st)
           | _ \<Rightarrow> patch_context (tr_metadata st))"

section \<open>When a plan is given up\<close>

lemma set_sorted_set [simp]: "set (sorted_set xs) = set xs"
  by (simp add: sorted_set_def)

lemma sorted_set_Nil_iff [simp]: "sorted_set xs = [] \<longleftrightarrow> xs = []"
  by (metis set_empty set_sorted_set)

lemma sorted_sorted_set [simp]: "sorted (sorted_set xs)" "distinct (sorted_set xs)"
  by (simp_all add: sorted_set_def)

text \<open>An identifier of attempt \<open>i\<close> is still there in the next one.\<close>

definition identifier_survives :: "attempt_meta list \<Rightarrow> nat \<Rightarrow> bool" where
  "identifier_survives h i \<longleftrightarrow>
     (\<exists>t. t \<in> set (am_finding_themes (h ! i)) \<and> t \<in> set (am_finding_themes (h ! Suc i)) \<and> \<not> is_file_path_anchor t)"

lemma shared_iff: "shared_non_file_themes (h ! i) (h ! Suc i) \<noteq> [] \<longleftrightarrow> identifier_survives h i"
  by (auto simp: shared_non_file_themes_def identifier_survives_def filter_empty_conv)

lemma shared_Nil_iff: "shared_non_file_themes (h ! i) (h ! Suc i) = [] \<longleftrightarrow> \<not> identifier_survives h i"
  using shared_iff by blast

lemma history_pairs_nth: "i < length h - 1 \<Longrightarrow> history_pairs h ! i = (h ! i, h ! Suc i)"
  by (simp add: history_pairs_def nth_tl)

lemma length_history_pairs [simp]: "length (history_pairs h) = length h - 1"
  by (simp add: history_pairs_def)

lemma comparable_pairs_Nil_iff: "comparable_pairs h = [] \<longleftrightarrow> (\<forall>i. Suc i < length h \<longrightarrow> \<not> identifier_survives h i)"
proof -
  have "comparable_pairs h = [] \<longleftrightarrow> (\<forall>i < length h - 1. shared_non_file_themes (h ! i) (h ! Suc i) = [])"
    unfolding comparable_pairs_def filter_empty_conv all_set_conv_all_nth by (auto simp: history_pairs_nth)
  then show ?thesis unfolding shared_iff [symmetric] by (auto simp: less_diff_conv)
qed

definition stuck_pair :: "attempt_meta list \<Rightarrow> nat \<Rightarrow> bool" where
  "stuck_pair h i \<longleftrightarrow> Suc i < length h \<and> identifier_survives h i \<and> surface_trend_of (h ! i) (h ! Suc i) \<noteq> Shrinking"

lemma length_qualifying_pairs: "length (qualifying_pairs h) = card {i. stuck_pair h i}"
proof -
  have "length (qualifying_pairs h) = card {i. i < length (history_pairs h) \<and> qualifies_backtrack (history_pairs h ! i)}"
    by (simp add: qualifying_pairs_def length_filter_conv_card nth_enumerate_eq cong: conj_cong)
  also have "{i. i < length (history_pairs h) \<and> qualifies_backtrack (history_pairs h ! i)} = {i. stuck_pair h i}"
    by (auto simp: qualifies_backtrack_def stuck_pair_def history_pairs_nth shared_Nil_iff)
  finally show ?thesis .
qed

text \<open>In how many places of the attempts a theme stands.\<close>

definition theme_occurrences :: "attempt_meta list \<Rightarrow> string \<Rightarrow> nat" where
  "theme_occurrences h t = sum_list (map (\<lambda>e. count_list (am_finding_themes e) t) h)"

lemma count_list_concat: "count_list (concat xss) t = sum_list (map (\<lambda>xs. count_list xs t) xss)"
  by (induction xss) simp_all

lemma count_list_filter_true: "P t \<Longrightarrow> count_list (filter P xs) t = count_list xs t"
  by (induction xs) auto

lemma majority_themes_Nil_iff:
  "majority_themes h \<noteq> [] \<longleftrightarrow> (\<exists>t. \<not> is_file_path_anchor t \<and> 2 * theme_occurrences h t > length h)"
proof -
  have occ: "count_list (filter (\<lambda>t. \<not> is_file_path_anchor t) (concat (map am_finding_themes h))) t = theme_occurrences h t"
    if "\<not> is_file_path_anchor t" for t
    using that by (simp add: count_list_filter_true count_list_concat theme_occurrences_def comp_def)
  have pos: "t \<in> set (concat (map am_finding_themes h))" if "theme_occurrences h t > 0" for t
    using that unfolding theme_occurrences_def
    by (auto simp: sum_list_eq_0_iff count_list_0_iff neq0_conv [symmetric])
  have "majority_themes h \<noteq> [] \<longleftrightarrow> (\<exists>t \<in> set (concat (map am_finding_themes h)). \<not> is_file_path_anchor t \<and> 2 * theme_occurrences h t > length h)"
    by (auto simp: majority_themes_def theme_counts_def Let_def filter_empty_conv occ)
  with pos show ?thesis by (metis gr_zeroI mult_0_right not_less_zero)
qed

lemma overlap_iff: "length h \<ge> 2 \<Longrightarrow>
    has_sufficient_overlap (am_finding_themes (h ! (length h - 2))) (am_finding_themes (h ! (length h - 1)))
      \<longleftrightarrow> identifier_survives h (length h - 2)"
  by (auto simp: has_sufficient_overlap_def identifier_survives_def list_ex_iff Suc_diff_le numeral_2_eq_2 Suc_diff_Suc)

text \<open>C8. 
  A plan is given up exactly when at least three attempts can be compared (four, unless the limit of regenerations is
  lower), the last one did not shrink, and either two steps from an attempt to the next kept an identifier without
  shrinking, or of four or more attempts more than half name one identifier, or no step kept any identifier.
\<close>
theorem plan_given_up_iff:
  fixes metadata_history :: "attempt_meta list"
  shows "let h = filter am_trajectory_assessable metadata_history; n = length h in
    classify_disposition metadata_history limit = Escalate \<longleftrightarrow>
      int n \<ge> max 3 (min 4 (limit + 1)) \<and> surface_trend_of (h ! (n - 2)) (h ! (n - 1)) \<noteq> Shrinking
      \<and> (card {i. stuck_pair h i} \<ge> 2
         \<or> n \<ge> 4 \<and> (\<exists>t. \<not> is_file_path_anchor t \<and> 2 * theme_occurrences h t > n)
         \<or> (\<forall>i. Suc i < n \<longrightarrow> \<not> identifier_survives h i))"
proof -
  define h where "h = filter am_trajectory_assessable metadata_history"
  show ?thesis
  proof (cases "length h < 2")
    case True
    then show ?thesis by (auto simp: classify_disposition_def assess_plan_trajectory_def Let_def h_def [symmetric])
  next
    case False
    then have "classify_disposition metadata_history limit = fst (trajectory_decision h limit)"
      by (simp add: classify_disposition_def assess_plan_trajectory_def Let_def h_def [symmetric] split: prod.split)
    moreover have "fst (trajectory_decision h limit) = Escalate \<longleftrightarrow>
        int (length h) \<ge> min_attempts_for_stop limit \<and> surface_trend_of (h ! (length h - 2)) (h ! (length h - 1)) \<noteq> Shrinking
        \<and> (length (qualifying_pairs h) \<ge> 2 \<or> length h \<ge> 4 \<and> majority_themes h \<noteq> [] \<or> comparable_pairs h = [])"
      by (auto simp: trajectory_decision_def Let_def)
    ultimately show ?thesis
      unfolding Let_def h_def [symmetric] length_qualifying_pairs majority_themes_Nil_iff comparable_pairs_Nil_iff min_attempts_for_stop_def
      by simp
  qed
qed

lemma latest_in_pair:
  assumes "length metadata \<ge> 2" "t \<in> set (latest_candidates metadata)"
  shows "pair_survivals metadata t > 0"
proof -
  from assms(1) have l: "length metadata - 2 < length (history_pairs metadata)" and s: "Suc (length metadata - 2) = length metadata - 1" by simp_all
  have "history_pairs metadata ! (length metadata - 2) = (metadata ! (length metadata - 2), metadata ! (length metadata - 1))"
    using l s by (simp add: history_pairs_nth)
  with nth_mem [OF l] assms(2) have "history_pairs metadata ! (length metadata - 2) \<in> set (filter (in_pair t) (history_pairs metadata))"
    by (simp add: in_pair_def latest_candidates_def shared_non_file_themes_def)
  then show ?thesis unfolding pair_survivals_def by (meson length_pos_if_in_set)
qed

lemma dominant_cases:
  assumes two: "length metadata \<ge> 2"
  shows "(latest_candidates metadata = [] \<and> dominant_surviving_theme metadata = [])
    \<or> (\<exists>t. dominant_surviving_theme metadata = t \<and> t \<in> set (latest_candidates metadata)
        \<and> (\<forall>u \<in> set (latest_candidates metadata). pair_survivals metadata u < pair_survivals metadata t
            \<or> pair_survivals metadata u = pair_survivals metadata t \<and> t \<le> u))"
proof (cases "latest_candidates metadata = []")
  case False
  let ?c = "latest_candidates metadata" and ?f = "pair_survivals metadata"
  define best where "best = Max (set (0 # map ?f ?c))"
  have counted: "filter (\<lambda>t. ?f t > 0) ?c = ?c" using latest_in_pair [OF two] by simp
  have le: "?f u \<le> best" if "u \<in> set ?c" for u using that by (simp add: best_def)
  have "best \<in> set (0 # map ?f ?c)" unfolding best_def by (rule Max_in) simp_all
  moreover have "best \<noteq> 0" using False le latest_in_pair [OF two] by (metis list.set_intros(1) neq_Nil_conv not_less_zero le_zero_eq)
  ultimately have "filter (\<lambda>t. ?f t = best) ?c \<noteq> []" by (auto simp: filter_empty_conv)
  then obtain t ts where t: "filter (\<lambda>t. ?f t = best) ?c = t # ts" by (cases "filter (\<lambda>t. ?f t = best) ?c") auto
  have "sorted (filter (\<lambda>t. ?f t = best) ?c)" by (simp add: sorted_wrt_filter latest_candidates_def shared_non_file_themes_def)
  with t have least: "\<forall>u \<in> set (filter (\<lambda>t. ?f t = best) ?c). t \<le> u" by auto
  have dom: "dominant_surviving_theme metadata = t"
    using two t by (simp add: dominant_surviving_theme_def Let_def counted best_def)
  from t have "t \<in> set (filter (\<lambda>t. ?f t = best) ?c)" by simp
  then have "t \<in> set ?c" "?f t = best" by simp_all
  with least le dom show ?thesis by (intro disjI2 exI [of _ t]) (auto simp: le_less)
qed (use two in \<open>simp add: dominant_surviving_theme_def\<close>)


text \<open>
  The dominant theme is an identifier of both last attempts that survived the most steps, the least of those; there is
  none exactly when the last two attempts share no identifier.
\<close>
theorem dominant_theme_exact:
  assumes two: "length metadata \<ge> 2"
    and dom: "dominant_surviving_theme metadata = t"
  shows "if identifier_survives metadata (length metadata - 2)
    then t \<in> set (latest_candidates metadata)
      \<and> (\<forall>u \<in> set (latest_candidates metadata). pair_survivals metadata u < pair_survivals metadata t
          \<or> pair_survivals metadata u = pair_survivals metadata t \<and> t \<le> u)
    else t = []"
proof -
  have "identifier_survives metadata (length metadata - 2) \<longleftrightarrow> latest_candidates metadata \<noteq> []"
    using two by (simp add: shared_iff [symmetric] latest_candidates_def Suc_diff_le numeral_2_eq_2 Suc_diff_Suc)
  with dominant_cases [OF two] dom show ?thesis by auto
qed

section \<open>Examples\<close>

definition sample_entry :: "nat \<Rightarrow> string list \<Rightarrow> attempt_meta" where
  "sample_entry n themes =
     \<lparr>am_files_touched = 1, am_p1_count = n, am_p2_count = 0, am_finding_themes = themes, am_trajectory_assessable = True\<rparr>"

lemma example_themes: "is_file_path_anchor ''a_b'' = False" "is_file_path_anchor ''c_d'' = False"
  by (code_simp, code_simp)

lemma example_extracted: "extract_finding_themes [load_finding] = [''a_b'']" "extract_finding_themes [load_finding\<lparr>pl_severity := s\<rparr>] = [''a_b'']"
proof -
  have "text_themes ''a_b'' = [''a_b'']" by code_simp
  then show "extract_finding_themes [load_finding] = [''a_b'']" "extract_finding_themes [load_finding\<lparr>pl_severity := s\<rparr>] = [''a_b'']"
    by (simp_all add: extract_finding_themes_def load_finding_def sorted_set_def)
qed

theorem dominant_theme_exact_witness:
  "dominant_surviving_theme [sample_entry 1 [''a_b''], sample_entry 1 [''a_b'']] = ''a_b''"
proof -
  have "identifier_survives [sample_entry 1 [''a_b''], sample_entry 1 [''a_b'']] 0"
    by (simp add: identifier_survives_def sample_entry_def example_themes)
  with dominant_theme_exact [of "[sample_entry 1 [''a_b''], sample_entry 1 [''a_b'']]", OF _ refl] show ?thesis
    by (simp add: latest_candidates_def shared_non_file_themes_def sample_entry_def example_themes)
qed

text \<open>The text counts the steps that kept the theme, wherever they lie; it calls them consecutive reviews.\<close>

theorem survivals_need_not_be_consecutive:
  "pair_survivals [sample_entry 1 [''a_b''], sample_entry 1 [''a_b''], sample_entry 1 [''c_d''], sample_entry 1 [''a_b''],
     sample_entry 1 [''a_b'']] ''a_b'' = 2"
  "dominant_surviving_theme [sample_entry 1 [''a_b''], sample_entry 1 [''a_b''], sample_entry 1 [''c_d''], sample_entry 1 [''a_b''],
     sample_entry 1 [''a_b'']] = ''a_b''"
  by (simp_all add: dominant_surviving_theme_def pair_survivals_def history_pairs_def in_pair_def sample_entry_def
      latest_candidates_def shared_non_file_themes_def example_themes sorted_set_def numeral_eq_Suc)

text \<open>
  Findings that corroboration turned into \<^verbatim>\<open>P1-impl\<close> count neither as P1 nor as P2: when a plan with one P1 finding is
  reviewed again and the finding is only labelled anew, the surface counts as shrinking.
\<close>

theorem relabelled_findings_shrink:
  "surface_trend_of (attempt_entry steps [load_finding] True) (attempt_entry steps [load_finding\<lparr>pl_severity := PStr ''P1-impl''\<rparr>] True)
     = Shrinking"
  by (simp add: surface_trend_of_def attempt_entry_def load_finding_def blocking_def advisory_findings_def Let_def)

theorem stuck_plan_is_given_up:
  "classify_disposition [sample_entry 1 [''a_b''], sample_entry 1 [''a_b''], sample_entry 1 [''a_b''], sample_entry 1 [''a_b'']] 3 = Escalate"
proof -
  let ?h = "[sample_entry 1 [''a_b''], sample_entry 1 [''a_b''], sample_entry 1 [''a_b''], sample_entry 1 [''a_b'']]"
  have f: "filter am_trajectory_assessable ?h = ?h" by (simp add: sample_entry_def)
  have "theme_occurrences ?h ''a_b'' = 4" by (simp add: theme_occurrences_def sample_entry_def)
  with example_themes(1) have "\<exists>t. \<not> is_file_path_anchor t \<and> 2 * theme_occurrences ?h t > length ?h"
    by (intro exI [of _ "''a_b''"]) simp
  with plan_given_up_iff [of ?h 3] show ?thesis unfolding Let_def f
    by (simp add: surface_trend_of_def sample_entry_def)
qed

end
