(* ===== verification/Plan_Loop.thy ===== *)
theory Plan_Loop
  imports Plan_Trajectory
begin

text \<open>
  The loop of the agent review of a plan (\<^verbatim>\<open>_run_plan_agent_review\<close> of \<^verbatim>\<open>coordinator/plan_flow.py\<close>): the reviewers are asked,
  their replies merged, the registry and the trajectory brought up to date, and the plan goes to development, is written
  anew or is given up. The replies of the pool after its retries, the planner and the YAML parser are arguments. Not here:
  prompts beyond the two texts they carry, sessions, artifacts, logs, telemetry of the reviewers, and the change of the planner's model.
\<close>

section \<open>Model\<close>

text \<open>What came of one reviewer: an output, a failed call, or a call in which no model spoke, with the summary of the failure.\<close>

datatype reviewer_reply = Answered string | Failed_Call string | No_Judgment string

record plan_limits =
  pc_max_plan_regen_attempts :: int
  pc_min_reviewers :: int
  pc_pool_names :: "string list"
  pc_advisory :: bool

record plan_loop_state =
  ls_registry :: "plan_record list"
  ls_trajectory :: trajectory_state
  ls_steps :: "string list list"
  ls_match_provenance :: "string list"
  ls_filter_audit :: "regen_filter list"
  ls_review_findings :: "string option"
  ls_regen_count :: int
  ls_backtrack_used :: bool
  ls_decision :: "string option"
  ls_error :: "string option"

text \<open>\<open>To_Dev\<close> is the result \<^verbatim>\<open>None\<close>; a stop says whether it is an infrastructure failure.\<close>

datatype plan_outcome = To_Dev | Stop bool

definition transport_failure :: "string \<Rightarrow> pyval plan_review" where
  "transport_failure summary = \<lparr>pr_verdict = ''NO_JUDGMENT'', pr_findings = [], pr_parse_errors = [''Transport failure: '' @ summary]\<rparr>"

fun parse_reply :: "(string \<Rightarrow> string + pyval) \<Rightarrow> reviewer_reply \<Rightarrow> pyval plan_review py_result" where
  "parse_reply safe_load (Answered out) = parse_plan_review_output safe_load (if py_strip out = [] then [] else out)"
| "parse_reply safe_load (Failed_Call summary) = Inr (transport_failure summary)"
| "parse_reply safe_load (No_Judgment summary) = Inr (transport_failure summary)"

fun parse_replies :: "(string \<Rightarrow> string + pyval) \<Rightarrow> reviewer_reply list \<Rightarrow> pyval plan_review list py_result" where
  "parse_replies safe_load [] = Inr []"
| "parse_replies safe_load (r # rs) =
     (case parse_reply safe_load r of Inl e \<Rightarrow> Inl e
      | Inr p \<Rightarrow> (case parse_replies safe_load rs of Inl e \<Rightarrow> Inl e | Inr ps \<Rightarrow> Inr (p # ps)))"

definition no_judgment_names :: "string list \<Rightarrow> reviewer_reply list \<Rightarrow> string list" where
  "no_judgment_names names replies = map fst (filter (\<lambda>(n, r). case r of No_Judgment _ \<Rightarrow> True | _ \<Rightarrow> False) (zip names replies))"

definition failed_reviews :: "pyval plan_review list \<Rightarrow> nat" where
  "failed_reviews parsed = length (filter (\<lambda>p. pr_parse_errors p \<noteq> []) parsed)"

text \<open>Too few readable reviews: an infrastructure failure when every missing reviewer never spoke.\<close>

definition too_few_reviews :: "plan_limits \<Rightarrow> reviewer_reply list \<Rightarrow> nat \<Rightarrow> plan_loop_state \<Rightarrow> plan_outcome \<times> plan_loop_state" where
  "too_few_reviews cfg replies failed st =
     (let names = pc_pool_names cfg; silent = no_judgment_names names replies
      in if silent \<noteq> [] \<and> length silent \<ge> failed
         then (Stop True, st\<lparr>ls_error := Some (show_nat (length silent) @ ''/'' @ show_nat (length names)
                @ '' plan reviewer(s) produced no model output ('' @ py_join '', '' silent @ ''); fewer than the required ''
                @ py_str_int (pc_min_reviewers cfg) @ '' reviewer(s) judged the plan -- aborting as an infrastructure failure, not a plan rejection.'')\<rparr>)
         else (Stop False, st\<lparr>ls_decision := Some ''reject'', ls_error := Some (''Only '' @ py_str_int (int (length names) - int failed) @ ''/''
                @ show_nat (length names) @ '' plan reviewer(s) produced parseable output; minimum required is ''
                @ py_str_int (pc_min_reviewers cfg) @ ''.'')\<rparr>))"

text \<open>The merge only reads the description and the first attempt of a registered finding.\<close>

definition registry_view :: "plan_record \<Rightarrow> finding_record" where
  "registry_view r =
     \<lparr>fr_finding_id = [], fr_cycle_first_seen = pn_cycle_first_seen r, fr_cycle_last_seen = pn_cycle_last_seen r, fr_file = None,
      fr_line = None, fr_severity = [], fr_description = pn_description r, fr_reporter = [], fr_disposition = [], fr_recorded_at = None\<rparr>"

definition merged_review :: "(rat \<Rightarrow> string) \<Rightarrow> plan_limits \<Rightarrow> int \<Rightarrow> pyval plan_review list \<Rightarrow> plan_loop_state
    \<Rightarrow> string plan_review \<times> downgrade list" where
  "merged_review fr cfg attempt parsed st =
     merge_plan_review_results fr parsed (pc_pool_names cfg) (Some (map registry_view (ls_registry st))) attempt"

text \<open>What every merged review leaves behind, and the filtered text with its audit.\<close>

definition track_review :: "(rat \<Rightarrow> string) \<Rightarrow> plan_limits \<Rightarrow> int \<Rightarrow> string plan_finding list \<Rightarrow> downgrade list \<Rightarrow> plan_loop_state
    \<Rightarrow> plan_loop_state \<times> string \<times> regen_filter" where
  "track_review fr cfg attempt findings downgrades st =
     (let ms = plan_matches findings (ls_registry st);
          (registry, filtered, audit) = plan_review_step fr attempt findings downgrades (ls_registry st)
      in (st\<lparr>ls_registry := registry, ls_match_provenance := ls_match_provenance st @ [format_provenance ms],
             ls_trajectory := record_plan_attempt (ls_steps st) findings (pc_max_plan_regen_attempts cfg) True (ls_trajectory st)\<rparr>, filtered, audit))"

definition disposition_now :: "plan_loop_state \<Rightarrow> regen_disposition" where
  "disposition_now st = (case tr_disposition (ls_trajectory st) of None \<Rightarrow> Patch | Some d \<Rightarrow> d)"

text \<open>The backtrack does not count against the limit of regenerations.\<close>

definition patch_regen_count :: "plan_loop_state \<Rightarrow> int" where
  "patch_regen_count st = ls_regen_count st - (if ls_backtrack_used st then 1 else 0)"

definition limit_reached :: "plan_limits \<Rightarrow> plan_loop_state \<Rightarrow> bool" where
  "limit_reached cfg st =
     (patch_regen_count st > pc_max_plan_regen_attempts cfg \<and> disposition_now st \<noteq> Escalate
      \<and> (disposition_now st \<noteq> Backtrack \<or> ls_backtrack_used st))"

definition reason_suffix :: "plan_loop_state \<Rightarrow> string" where
  "reason_suffix st =
     (case tr_assessment (ls_trajectory st) of None \<Rightarrow> []
      | Some a \<Rightarrow> (if ta_reason_code a \<in> {''unassessable_no_comparable_structure'', ''too_few_attempts''}
                   then '' Trajectory assessment: '' @ ta_reason_code a @ ''.'' else []))"

definition give_up :: "string \<Rightarrow> plan_loop_state \<Rightarrow> plan_outcome option \<times> plan_loop_state" where
  "give_up message st = (Some (Stop False), st\<lparr>ls_decision := Some ''reject'', ls_error := Some message\<rparr>)"

text \<open>A rejected plan is given up or written anew; the planner gets the filtered findings and the trajectory.\<close>

definition reject_plan :: "plan_limits \<Rightarrow> (int \<Rightarrow> string \<Rightarrow> string \<Rightarrow> string list list option) \<Rightarrow> int \<Rightarrow> string \<Rightarrow> string \<Rightarrow> regen_filter
    \<Rightarrow> plan_loop_state \<Rightarrow> plan_outcome option \<times> plan_loop_state" where
  "reject_plan cfg planner attempt findings_text filtered audit st0 =
     (let st = st0\<lparr>ls_review_findings := Some findings_text, ls_filter_audit := ls_filter_audit st0 @ [audit], ls_regen_count := ls_regen_count st0 + 1\<rparr>;
          times = ''Plan rejected '' @ py_str_int (ls_regen_count st) @ '' time(s) by agent reviewer''
      in if limit_reached cfg st
         then give_up (times @ '' (max_plan_regen_attempts='' @ py_str_int (pc_max_plan_regen_attempts cfg) @ ''). Findings:'' @ nl @ findings_text) st
         else if tr_disposition (ls_trajectory st) = Some Escalate
         then give_up (times @ '' -- backtrack attempt failed to converge.'' @ reason_suffix st @ '' Findings:'' @ nl @ findings_text) st
         else (let st' = st\<lparr>ls_decision := Some ''regenerate'', ls_backtrack_used := (ls_backtrack_used st \<or> disposition_now st = Backtrack)\<rparr>
               in case planner attempt filtered (build_disposition_context (ls_trajectory st)) of
                    None \<Rightarrow> (Some (Stop False), st'\<lparr>ls_error := Some ''PLAN regeneration failed after agent review REJECT''\<rparr>)
                  | Some steps \<Rightarrow> (None, st'\<lparr>ls_steps := steps\<rparr>)))"

definition judge_plan :: "(rat \<Rightarrow> string) \<Rightarrow> plan_limits \<Rightarrow> (int \<Rightarrow> string \<Rightarrow> string \<Rightarrow> string list list option) \<Rightarrow> int \<Rightarrow> pyval plan_review list
    \<Rightarrow> plan_loop_state \<Rightarrow> plan_outcome option \<times> plan_loop_state" where
  "judge_plan fr cfg planner attempt parsed st0 =
     (let (merged, downgrades) = merged_review fr cfg attempt parsed st0;
          (st, filtered, audit) = track_review fr cfg attempt (pr_findings merged) downgrades st0;
          findings_text = plan_review_findings_to_text fr merged
      in if pr_verdict merged = ''APPROVE''
         then (Some To_Dev, st\<lparr>ls_decision := Some ''approve'',
                 ls_review_findings := (if pr_findings merged \<noteq> [] then Some findings_text else ls_review_findings st)\<rparr>)
         else if pc_advisory cfg then (Some To_Dev, st\<lparr>ls_review_findings := Some findings_text\<rparr>)
         else reject_plan cfg planner attempt findings_text filtered audit st)"

definition review_attempt :: "(string \<Rightarrow> string + pyval) \<Rightarrow> (rat \<Rightarrow> string) \<Rightarrow> plan_limits \<Rightarrow> (int \<Rightarrow> plan_loop_state \<Rightarrow> reviewer_reply list)
    \<Rightarrow> (int \<Rightarrow> string \<Rightarrow> string \<Rightarrow> string list list option) \<Rightarrow> int \<Rightarrow> plan_loop_state \<Rightarrow> (plan_outcome option \<times> plan_loop_state) py_result" where
  "review_attempt safe_load fr cfg reviewers planner attempt st =
     (let replies = reviewers attempt st
      in case parse_replies safe_load replies of Inl e \<Rightarrow> Inl e
         | Inr parsed \<Rightarrow>
             (if int (length (pc_pool_names cfg)) - int (failed_reviews parsed) < pc_min_reviewers cfg
              then (case too_few_reviews cfg replies (failed_reviews parsed) st of (out, st') \<Rightarrow> Inr (Some out, st'))
              else Inr (judge_plan fr cfg planner attempt parsed st)))"

fun review_attempts :: "(string \<Rightarrow> string + pyval) \<Rightarrow> (rat \<Rightarrow> string) \<Rightarrow> plan_limits \<Rightarrow> (int \<Rightarrow> plan_loop_state \<Rightarrow> reviewer_reply list)
    \<Rightarrow> (int \<Rightarrow> string \<Rightarrow> string \<Rightarrow> string list list option) \<Rightarrow> int list \<Rightarrow> plan_loop_state \<Rightarrow> (plan_outcome \<times> plan_loop_state) py_result" where
  "review_attempts safe_load fr cfg reviewers planner [] st = Inr (To_Dev, st)"
| "review_attempts safe_load fr cfg reviewers planner (a # as) st =
     (case review_attempt safe_load fr cfg reviewers planner a st of
        Inl e \<Rightarrow> Inl e
      | Inr (Some out, st') \<Rightarrow> Inr (out, st')
      | Inr (None, st') \<Rightarrow> review_attempts safe_load fr cfg reviewers planner as st')"

definition plan_agent_review :: "(string \<Rightarrow> string + pyval) \<Rightarrow> (rat \<Rightarrow> string) \<Rightarrow> plan_limits \<Rightarrow> (int \<Rightarrow> plan_loop_state \<Rightarrow> reviewer_reply list)
    \<Rightarrow> (int \<Rightarrow> string \<Rightarrow> string \<Rightarrow> string list list option) \<Rightarrow> plan_loop_state \<Rightarrow> (plan_outcome \<times> plan_loop_state) py_result" where
  "plan_agent_review safe_load fr cfg reviewers planner st =
     review_attempts safe_load fr cfg reviewers planner (map int [0..<nat (pc_max_plan_regen_attempts cfg + 2)]) st"

section \<open>A rejected plan is never passed on\<close>

lemma track_review_keeps [simp]:
  assumes "track_review fr cfg attempt findings downgrades st = (st', filtered, audit)"
  shows "ls_regen_count st' = ls_regen_count st" "ls_backtrack_used st' = ls_backtrack_used st"
  using assms by (auto simp: track_review_def Let_def split: prod.splits)

lemma disposition_escalate: "disposition_now st = Escalate \<longleftrightarrow> tr_disposition (ls_trajectory st) = Some Escalate"
  by (simp add: disposition_now_def split: option.split)

text \<open>When the loop goes on after attempt \<open>a\<close>: the count is one higher, and past the limit the backtrack has just been used.\<close>

definition loop_inv :: "plan_limits \<Rightarrow> int \<Rightarrow> plan_loop_state \<Rightarrow> bool" where
  "loop_inv cfg a st \<longleftrightarrow> ls_regen_count st \<ge> a \<and> (a > pc_max_plan_regen_attempts cfg \<longrightarrow> ls_backtrack_used st)"

lemma reject_plan_continues:
  assumes "reject_plan cfg planner attempt findings_text filtered audit st = (None, st')" and "loop_inv cfg attempt st"
  shows "loop_inv cfg (attempt + 1) st' \<and> attempt \<le> pc_max_plan_regen_attempts cfg"
proof -
  define s where "s = st\<lparr>ls_review_findings := Some findings_text, ls_filter_audit := ls_filter_audit st @ [audit], ls_regen_count := ls_regen_count st + 1\<rparr>"
  have s: "ls_regen_count s = ls_regen_count st + 1" "ls_backtrack_used s = ls_backtrack_used st" by (simp_all add: s_def)
  note eq = assms(1) [unfolded reject_plan_def Let_def s_def [symmetric]]
  from eq have lim: "\<not> limit_reached cfg s" by (cases "limit_reached cfg s") (simp_all only: if_True give_up_def prod.inject option.distinct simp_thms)
  from eq have esc: "disposition_now s \<noteq> Escalate" unfolding disposition_escalate
    by (cases "tr_disposition (ls_trajectory s) = Some Escalate") (simp_all only: lim if_True if_False give_up_def prod.inject option.distinct simp_thms)
  with eq lim have "(None, st') = (case planner attempt filtered (build_disposition_context (ls_trajectory s)) of
      None \<Rightarrow> (Some (Stop False), s\<lparr>ls_decision := Some ''regenerate'', ls_backtrack_used := (ls_backtrack_used s \<or> disposition_now s = Backtrack),
          ls_error := Some ''PLAN regeneration failed after agent review REJECT''\<rparr>)
    | Some steps \<Rightarrow> (None, s\<lparr>ls_decision := Some ''regenerate'', ls_backtrack_used := (ls_backtrack_used s \<or> disposition_now s = Backtrack), ls_steps := steps\<rparr>))"
    unfolding disposition_escalate by (simp only: if_False)
  then have st': "ls_regen_count st' = ls_regen_count st + 1" "ls_backtrack_used st' \<longleftrightarrow> ls_backtrack_used st \<or> disposition_now s = Backtrack"
    by (simp_all add: s split: option.split_asm)
  from lim esc have "patch_regen_count s \<le> pc_max_plan_regen_attempts cfg \<or> disposition_now s = Backtrack \<and> \<not> ls_backtrack_used st"
    unfolding limit_reached_def s(2) by (meson not_le)
  then have "ls_regen_count st + 1 - (if ls_backtrack_used st then 1 else 0) \<le> pc_max_plan_regen_attempts cfg \<or> ls_backtrack_used st' \<and> \<not> ls_backtrack_used st"
    using st'(2) unfolding patch_regen_count_def s by blast
  moreover have "ls_regen_count st \<ge> attempt" "attempt \<le> pc_max_plan_regen_attempts cfg \<or> ls_backtrack_used st"
    using assms(2) by (auto simp: loop_inv_def)
  ultimately show ?thesis unfolding loop_inv_def st'(1) using st'(2) by (cases "ls_backtrack_used st") auto
qed

lemma review_attempt_cases:
  assumes "review_attempt safe_load fr cfg reviewers planner a st = Inr (out, st')"
  obtains (few) parsed oc where "parse_replies safe_load (reviewers a st) = Inr parsed"
      "int (length (pc_pool_names cfg)) - int (failed_reviews parsed) < pc_min_reviewers cfg"
      "too_few_reviews cfg (reviewers a st) (failed_reviews parsed) st = (oc, st')" "out = Some oc"
    | (judged) parsed where "parse_replies safe_load (reviewers a st) = Inr parsed"
      "int (length (pc_pool_names cfg)) - int (failed_reviews parsed) \<ge> pc_min_reviewers cfg"
      "judge_plan fr cfg planner a parsed st = (out, st')"
  using assms by (auto simp: review_attempt_def Let_def split: sum.splits if_splits prod.splits)

lemma judge_plan_continues:
  assumes "judge_plan fr cfg planner a parsed st = (None, st')" and "loop_inv cfg a st"
  shows "loop_inv cfg (a + 1) st' \<and> a \<le> pc_max_plan_regen_attempts cfg"
proof -
  obtain merged downgrades where m: "merged_review fr cfg a parsed st = (merged, downgrades)" by force
  obtain st1 filtered audit where t: "track_review fr cfg a (pr_findings merged) downgrades st = (st1, filtered, audit)"
    by (cases "track_review fr cfg a (pr_findings merged) downgrades st") auto
  from assms(2) track_review_keeps [OF t] have "loop_inv cfg a st1" by (simp add: loop_inv_def)
  moreover from assms(1) have "reject_plan cfg planner a (plan_review_findings_to_text fr merged) filtered audit st1 = (None, st')"
    by (auto simp: judge_plan_def m t Let_def split: if_splits)
  ultimately show ?thesis by (rule reject_plan_continues [rotated])
qed

lemma review_attempt_continues:
  assumes "review_attempt safe_load fr cfg reviewers planner a st = Inr (None, st')" and "loop_inv cfg a st"
  shows "loop_inv cfg (a + 1) st' \<and> a \<le> pc_max_plan_regen_attempts cfg"
  using assms(1)
proof (cases rule: review_attempt_cases)
  case (judged parsed)
  from judge_plan_continues [OF judged(3) assms(2)] show ?thesis .
qed simp

lemma review_attempts_last:
  assumes "review_attempts safe_load fr cfg reviewers planner (map int [k..<nat (pc_max_plan_regen_attempts cfg + 2)]) st = Inr (out, st')"
    and "loop_inv cfg (int k) st" and "int k \<le> pc_max_plan_regen_attempts cfg + 1"
  shows "\<exists>a before. int k \<le> a \<and> a \<le> pc_max_plan_regen_attempts cfg + 1
    \<and> review_attempt safe_load fr cfg reviewers planner a before = Inr (Some out, st')"
  using assms
proof (induction "nat (pc_max_plan_regen_attempts cfg + 2) - k" arbitrary: k st)
  case 0
  from "0.hyps" have "nat (pc_max_plan_regen_attempts cfg + 2) \<le> k" by simp
  then have "pc_max_plan_regen_attempts cfg + 2 \<le> int k" by (simp only: nat_le_iff)
  with "0.prems"(3) show ?case by linarith
next
  case (Suc n)
  let ?r = "review_attempt safe_load fr cfg reviewers planner (int k) st"
  from Suc.hyps(2) have "[k..<nat (pc_max_plan_regen_attempts cfg + 2)] = k # [Suc k..<nat (pc_max_plan_regen_attempts cfg + 2)]"
    by (simp add: upt_rec)
  with Suc.prems(1) consider "?r = Inr (Some out, st')"
    | st1 where "?r = Inr (None, st1)"
        "review_attempts safe_load fr cfg reviewers planner (map int [Suc k..<nat (pc_max_plan_regen_attempts cfg + 2)]) st1 = Inr (out, st')"
    by (auto split: sum.splits option.splits prod.splits)
  then show ?case
  proof cases
    case 1
    with Suc.prems(3) show ?thesis by blast
  next
    case (2 st1)
    from review_attempt_continues [OF 2(1) Suc.prems(2)] have inv: "loop_inv cfg (int (Suc k)) st1" and le: "int (Suc k) \<le> pc_max_plan_regen_attempts cfg + 1"
      by (simp_all add: add.commute)
    have "n = nat (pc_max_plan_regen_attempts cfg + 2) - Suc k" using Suc.hyps(2) by simp
    from Suc.hyps(1) [OF this 2(2) inv le] show ?thesis by (meson int_ops(4) less_imp_le order.trans le_add_same_cancel1 of_nat_Suc of_nat_mono lessI)
  qed
qed

lemma judge_plan_to_dev:
  assumes "judge_plan fr cfg planner a parsed st = (Some To_Dev, st')" and "\<not> pc_advisory cfg"
  shows "ls_decision st' = Some ''approve'' \<and> pr_verdict (fst (merged_review fr cfg a parsed st)) = ''APPROVE''"
  using assms by (auto simp: judge_plan_def reject_plan_def give_up_def Let_def split: if_splits prod.splits option.splits)

text \<open>What approval means: enough reviews were readable, none found the plan impossible and no P1 is corroborated.\<close>

definition approved_by :: "(rat \<Rightarrow> string) \<Rightarrow> plan_limits \<Rightarrow> plan_record list \<Rightarrow> int \<Rightarrow> pyval plan_review list \<Rightarrow> bool" where
  "approved_by fr cfg registry a parsed \<longleftrightarrow>
     int (length (pc_pool_names cfg)) - int (failed_reviews parsed) \<ge> pc_min_reviewers cfg
     \<and> valid_plan_reviews (pc_pool_names cfg) parsed \<noteq> []
     \<and> (\<forall>i < length (labelled_findings fr (valid_plan_reviews (pc_pool_names cfg) parsed)).
          pl_severity (labelled_findings fr (valid_plan_reviews (pc_pool_names cfg) parsed) ! i) \<noteq> PStr ''P0''
          \<and> (pl_severity (labelled_findings fr (valid_plan_reviews (pc_pool_names cfg) parsed) ! i) = PStr ''P1''
             \<longrightarrow> \<not> corroborated (labelled_findings fr (valid_plan_reviews (pc_pool_names cfg) parsed)) (Some (map registry_view registry)) a i))"

text \<open>C4. 
  Without advisory mode a plan reaches development only in an attempt whose review approved it: enough reviewers answered
  readably, at least one review counted, and it has no P0 and no corroborated P1 finding. The loop never runs out of
  attempts with a rejected plan, whatever the reviewers and the planner answer and wherever the count of regenerations starts.
\<close>
theorem plan_reaches_dev_only_approved:
  assumes "plan_agent_review safe_load fr cfg reviewers planner st = Inr (To_Dev, st')"
    and "\<not> pc_advisory cfg" and "pc_max_plan_regen_attempts cfg \<ge> 0" and "ls_regen_count st \<ge> 0"
  shows "ls_decision st' = Some ''approve''
    \<and> (\<exists>a before parsed. 0 \<le> a \<and> a \<le> pc_max_plan_regen_attempts cfg + 1 \<and> parse_replies safe_load (reviewers a before) = Inr parsed
         \<and> judge_plan fr cfg planner a parsed before = (Some To_Dev, st') \<and> approved_by fr cfg (ls_registry before) a parsed)"
proof -
  have "loop_inv cfg (int 0) st" using assms(3,4) by (simp add: loop_inv_def)
  moreover have "int 0 \<le> pc_max_plan_regen_attempts cfg + 1" using assms(3) by simp
  ultimately obtain a before where a: "0 \<le> a" "a \<le> pc_max_plan_regen_attempts cfg + 1"
      "review_attempt safe_load fr cfg reviewers planner a before = Inr (Some To_Dev, st')"
    using review_attempts_last [OF assms(1) [unfolded plan_agent_review_def]] by auto
  from a(3) show ?thesis
  proof (cases rule: review_attempt_cases)
    case (few parsed oc)
    then show ?thesis by (auto simp: too_few_reviews_def Let_def split: if_splits)
  next
    case (judged parsed)
    note dev = judge_plan_to_dev [OF judged(3) assms(2)]
    obtain m downs where m: "merge_plan_review_results fr parsed (pc_pool_names cfg) (Some (map registry_view (ls_registry before))) a = (m, downs)"
      by force
    with dev have "pr_verdict m = ''APPROVE''" by (simp add: merged_review_def)
    with merged_plan_verdict [OF m] judged(2) have "approved_by fr cfg (ls_registry before) a parsed"
      by (auto simp: approved_by_def split: if_splits)
    with a dev judged show ?thesis by blast
  qed
qed

section \<open>The registry through the loop\<close>

definition registry_settled :: "int \<Rightarrow> plan_loop_state \<Rightarrow> bool" where
  "registry_settled b st \<longleftrightarrow> (\<forall>r \<in> set (ls_registry st). settled b r)"

lemma reject_plan_registry: "ls_registry (snd (reject_plan cfg planner a findings_text filtered audit st)) = ls_registry st"
  by (simp add: reject_plan_def give_up_def Let_def split: option.split)

lemma judge_plan_settled:
  assumes "judge_plan fr cfg planner a parsed st = (out, st')" and "registry_settled b st" and "b < a"
  shows "registry_settled a st'"
proof -
  obtain merged downgrades where m: "merged_review fr cfg a parsed st = (merged, downgrades)" by force
  obtain st1 filtered audit where t: "track_review fr cfg a (pr_findings merged) downgrades st = (st1, filtered, audit)"
    by (cases "track_review fr cfg a (pr_findings merged) downgrades st") auto
  have "ls_registry st1 = track_plan_findings a (pr_findings merged) downgrades (ls_registry st)"
    using t by (auto simp: track_review_def plan_review_step_def Let_def split: prod.splits)
  moreover have "ls_registry st' = ls_registry st1"
    using assms(1) reject_plan_registry [of cfg planner a "plan_review_findings_to_text fr merged" filtered audit st1]
    by (auto simp: judge_plan_def m t Let_def split: if_splits)
  ultimately show ?thesis using track_keeps_settled [OF _ assms(3)] assms(2) by (simp add: registry_settled_def)
qed

lemma review_attempt_settled:
  assumes "review_attempt safe_load fr cfg reviewers planner a st = Inr (out, st')" and "registry_settled b st" and "b < a"
  shows "\<exists>b' \<le> a. registry_settled b' st'"
  using assms(1)
proof (cases rule: review_attempt_cases)
  case (few parsed oc)
  then have "ls_registry st' = ls_registry st" by (auto simp: too_few_reviews_def Let_def split: if_splits)
  with assms(2,3) show ?thesis by (auto simp: registry_settled_def intro: exI [of _ b])
next
  case (judged parsed)
  from judge_plan_settled [OF judged(3) assms(2,3)] show ?thesis by blast
qed

lemma review_attempts_Cons:
  assumes "review_attempts safe_load fr cfg reviewers planner (a # as) st = Inr (out, st')"
  obtains "review_attempt safe_load fr cfg reviewers planner a st = Inr (Some out, st')"
    | st1 where "review_attempt safe_load fr cfg reviewers planner a st = Inr (None, st1)"
        "review_attempts safe_load fr cfg reviewers planner as st1 = Inr (out, st')"
  using assms by (auto split: sum.splits option.splits prod.splits)

lemma review_attempts_settled:
  assumes "review_attempts safe_load fr cfg reviewers planner as st = Inr (out, st')"
    and "registry_settled b st" and "sorted_wrt (<) (b # as)"
  shows "\<exists>b'. registry_settled b' st' \<and> b' \<le> List.last (b # as)"
  using assms
proof (induction as arbitrary: st b)
  case (Cons a as)
  have ba: "b < a" and le: "a \<le> List.last (a # as)" using Cons.prems(3) by (auto dest: less_imp_le last_in_set)
  from Cons.prems(1) show ?case
  proof (cases rule: review_attempts_Cons)
    case 1
    from review_attempt_settled [OF 1 Cons.prems(2) ba] le show ?thesis by (auto intro: order.trans)
  next
    case (2 st1)
    from review_attempt_settled [OF 2(1) Cons.prems(2) ba] obtain b' where b': "b' \<le> a" "registry_settled b' st1" by blast
    from b'(1) Cons.prems(3) have "sorted_wrt (<) (b' # as)" by auto
    from Cons.IH [OF 2(2) b'(2) this] b'(1) le show ?thesis by (cases as) (auto intro: order.trans)
  qed
qed auto

text \<open>
  The loop asks for attempts in increasing order, so after it the dates of every record of a registry that began empty
  still say what its disposition is.
\<close>
theorem loop_keeps_registry:
  assumes "plan_agent_review safe_load fr cfg reviewers planner st = Inr (out, st')" and "ls_registry st = []"
  shows "\<exists>b. \<forall>r \<in> set (ls_registry st'). settled b r"
proof -
  have "sorted_wrt (<) (-1 # map int [0..<n])" for n by (auto simp: sorted_wrt_map sorted_wrt_upt)
  from review_attempts_settled [OF assms(1) [unfolded plan_agent_review_def] _ this] assms(2) show ?thesis
    by (auto simp: registry_settled_def)
qed

text \<open>A limit below minus one leaves no attempt: the plan goes to development without a review.\<close>

theorem negative_limit_skips_review:
  "pc_max_plan_regen_attempts cfg \<le> -2 \<Longrightarrow> plan_agent_review safe_load fr cfg reviewers planner st = Inr (To_Dev, st)"
  by (simp add: plan_agent_review_def)

definition sample_limits :: plan_limits where
  "sample_limits = \<lparr>pc_max_plan_regen_attempts = 0, pc_min_reviewers = 1, pc_pool_names = [''r''], pc_advisory = False\<rparr>"

definition fresh_plan :: plan_loop_state where
  "fresh_plan = \<lparr>ls_registry = [], ls_trajectory = \<lparr>tr_metadata = [], tr_assessment = None, tr_disposition = None\<rparr>, ls_steps = [],
     ls_match_provenance = [], ls_filter_audit = [], ls_review_findings = None, ls_regen_count = 0, ls_backtrack_used = False,
     ls_decision = None, ls_error = None\<rparr>"

definition approving :: "string \<Rightarrow> string + pyval" where
  "approving reply = Inr (PDict [(''verdict'', PStr ''APPROVE'')])"

lemma approving_review:
  "parse_replies approving [Answered ''x''] = Inr [\<lparr>pr_verdict = ''APPROVE'', pr_findings = [], pr_parse_errors = []\<rparr>]"
proof -
  have "plan_review_of [(''verdict'', PStr ''APPROVE'')] = Inr \<lparr>pr_verdict = ''APPROVE'', pr_findings = [], pr_parse_errors = []\<rparr>" by code_simp
  then show ?thesis by (simp add: parse_plan_review_output_def approving_def)
qed

theorem plan_reaches_dev_only_approved_witness:
  "\<exists>st'. plan_agent_review approving (\<lambda>_. []) sample_limits (\<lambda>_ _. [Answered ''x'']) (\<lambda>_ _ _. None) fresh_plan = Inr (To_Dev, st')
     \<and> ls_decision st' = Some ''approve''"
proof -
  have "\<exists>st'. plan_agent_review approving (\<lambda>_. []) sample_limits (\<lambda>_ _. [Answered ''x'']) (\<lambda>_ _ _. None) fresh_plan = Inr (To_Dev, st')"
    by (simp add: plan_agent_review_def sample_limits_def review_attempt_def approving_review failed_reviews_def judge_plan_def merged_review_def
        merge_plan_review_results_def valid_plan_reviews_def labelled_findings_def apply_plan_corroboration_def p1_indices_def upt_rec
        split: prod.split del: parse_replies.simps)
  then obtain st' where r: "plan_agent_review approving (\<lambda>_. []) sample_limits (\<lambda>_ _. [Answered ''x'']) (\<lambda>_ _ _. None) fresh_plan = Inr (To_Dev, st')" ..
  from plan_reaches_dev_only_approved [OF r] r show ?thesis by (auto simp: sample_limits_def fresh_plan_def)
qed

end
