(* ===== verification/Cost_Ledger.thy ===== *)
theory Cost_Ledger
  imports Unmeasured_Spend
begin

text \<open>
  The ledger of a sprint's spend (\<^verbatim>\<open>SprintCostLedger\<close> and its reads, \<^verbatim>\<open>sprint/budget_runtime.py\<close>): what this
  generation measured, what it inherited, which sources nobody measured, and what the stories still
  running have reported. Every method runs under the ledger's lock, so a concurrent run is a sequence
  of method calls. The section on histories gives the ledger's meaning as functions of that sequence
  alone, and the last section shows that the ledger computes them.
\<close>

section \<open>Model\<close>

text \<open>\<^verbatim>\<open>optional_cost\<close> is the same reading of a persisted number as the one used for story audits.\<close>

definition optional_cost :: "pyval \<Rightarrow> rat option" where
  "optional_cost raw =
     (case raw of PInt i \<Rightarrow> Some (fl (of_int i)) | PFloat r \<Rightarrow> Some r | _ \<Rightarrow> None)"

record cost_observation =
  ob_amount :: rat
  ob_measured :: bool

text \<open>
  A live state update: its JSON-like entries, and the coordinator state object when the update carries
  one, as the dictionary of its attributes.
\<close>

record state_update =
  up_fields :: pydict
  up_coordinator_state :: "pydict option"

definition checkpoint_cost :: "state_update \<Rightarrow> cost_observation option" where
  "checkpoint_cost u =
     (case optional_cost (py_get (up_fields u) ''cost_usd'') of
        Some reported \<Rightarrow> Some \<lparr>ob_amount = reported, ob_measured = True\<rparr>
      | None \<Rightarrow>
         (case (case py_get (up_fields u) ''detail'' of
                  PDict d \<Rightarrow> optional_cost (py_get d ''cost_measured_lower_bound_usd'') | _ \<Rightarrow> None) of
            Some lower_bound \<Rightarrow> Some \<lparr>ob_amount = lower_bound, ob_measured = False\<rparr>
          | None \<Rightarrow>
             (case up_coordinator_state u of
                None \<Rightarrow> None
              | Some cs \<Rightarrow>
                 (case optional_cost (py_get cs ''total_cost_measured'') of
                    Some m \<Rightarrow> Some \<lparr>ob_amount = m, ob_measured = True\<rparr>
                  | None \<Rightarrow>
                     (case optional_cost (py_get cs ''total_cost'') of
                        None \<Rightarrow> None
                      | Some lower_bound \<Rightarrow> Some \<lparr>ob_amount = lower_bound, ob_measured = False\<rparr>)))))"

record cost_snapshot =
  cs_accumulated :: rat
  cs_prior :: rat
  cs_unmeasured :: "string list"
  cs_current_generation_unmeasured :: "string list"
  cs_in_flight :: rat

definition spent :: "cost_snapshot \<Rightarrow> rat" where
  "spent s = float_add (cs_accumulated s) (cs_prior s)"

definition spent_including_in_flight :: "cost_snapshot \<Rightarrow> rat" where
  "spent_including_in_flight s = float_add (spent s) (cs_in_flight s)"

definition snapshot_measured :: "cost_snapshot \<Rightarrow> bool" where
  "snapshot_measured s \<longleftrightarrow> cs_unmeasured s = []"

record cost_ledger =
  cl_accumulated :: rat
  cl_prior :: rat
  cl_unmeasured :: "string list"
  cl_current_generation :: "string list"
  cl_in_flight :: "(string, cost_observation) dict"
  cl_non_story :: "(string, rat) dict"

definition new_ledger :: "rat \<Rightarrow> rat \<Rightarrow> cost_ledger" where
  "new_ledger accumulated prior =
     \<lparr>cl_accumulated = accumulated, cl_prior = prior, cl_unmeasured = [], cl_current_generation = [],
      cl_in_flight = [], cl_non_story = []\<rparr>"

definition snapshot :: "cost_ledger \<Rightarrow> cost_snapshot" where
  "snapshot l =
     \<lparr>cs_accumulated = cl_accumulated l, cs_prior = cl_prior l, cs_unmeasured = cl_unmeasured l,
      cs_current_generation_unmeasured = cl_current_generation l,
      cs_in_flight = float_sum (map (\<lambda>(slug, observation). ob_amount observation) (cl_in_flight l))\<rparr>"

text \<open>The methods return their result with the updated ledger.\<close>

definition ledger_add :: "rat \<Rightarrow> cost_ledger \<Rightarrow> rat \<times> cost_ledger" where
  "ledger_add amount l =
     (let a = float_add (cl_accumulated l) amount in (a, l\<lparr>cl_accumulated := a\<rparr>))"

definition note_non_story :: "string \<Rightarrow> rat \<Rightarrow> cost_ledger \<Rightarrow> cost_ledger" where
  "note_non_story slug amount l =
     (if amount \<le> 0 then l
      else l\<lparr>cl_non_story :=
        dict_set slug (float_add (case dict_get (cl_non_story l) slug of None \<Rightarrow> 0 | Some a \<Rightarrow> a) amount) (cl_non_story l)\<rparr>)"

definition non_story_spend :: "string list \<Rightarrow> cost_ledger \<Rightarrow> rat" where
  "non_story_spend story_slugs l =
     py_round 4 (float_sum (map snd (filter (\<lambda>(slug, amount). slug \<notin> set story_slugs) (cl_non_story l))))"

definition set_prior :: "rat \<Rightarrow> cost_ledger \<Rightarrow> cost_ledger" where
  "set_prior amount l = l\<lparr>cl_prior := amount\<rparr>"

definition note_unmeasured :: "string \<Rightarrow> bool \<Rightarrow> cost_ledger \<Rightarrow> cost_ledger" where
  "note_unmeasured source current_generation l =
     (let l1 = (if source \<notin> set (cl_unmeasured l) then l\<lparr>cl_unmeasured := cl_unmeasured l @ [source]\<rparr> else l)
      in if current_generation then l1\<lparr>cl_current_generation := set_add source (cl_current_generation l1)\<rparr> else l1)"

definition flag_unmeasured_here :: "string \<Rightarrow> cost_ledger \<Rightarrow> cost_ledger" where
  "flag_unmeasured_here source l = note_unmeasured source True l"

definition note_carried_unmeasured :: "string \<Rightarrow> cost_ledger \<Rightarrow> cost_ledger" where
  "note_carried_unmeasured source l = note_unmeasured source False l"

definition checkpoint_in_flight_cost ::
    "string \<Rightarrow> rat option \<Rightarrow> bool \<Rightarrow> cost_ledger \<Rightarrow> cost_snapshot \<times> cost_ledger" where
  "checkpoint_in_flight_cost slug cost measured l =
     (let l1 = (case cost of None \<Rightarrow> l
                | Some c \<Rightarrow> l\<lparr>cl_in_flight := dict_set slug \<lparr>ob_amount = max 0 c, ob_measured = measured\<rparr> (cl_in_flight l)\<rparr>)
      in (snapshot l1, l1))"

definition record_in_flight_cost :: "string \<Rightarrow> rat \<Rightarrow> bool \<Rightarrow> cost_ledger \<Rightarrow> cost_snapshot \<times> cost_ledger" where
  "record_in_flight_cost slug cost measured l = checkpoint_in_flight_cost slug (Some cost) measured l"

definition has_in_flight_cost :: "string \<Rightarrow> cost_ledger \<Rightarrow> bool" where
  "has_in_flight_cost slug l \<longleftrightarrow> dict_get (cl_in_flight l) slug \<noteq> None"

definition drop_in_flight_cost :: "string \<Rightarrow> cost_ledger \<Rightarrow> cost_ledger" where
  "drop_in_flight_cost slug l = l\<lparr>cl_in_flight := dict_pop slug (cl_in_flight l)\<rparr>"

definition recover_in_flight_cost ::
    "string \<Rightarrow> rat option \<Rightarrow> bool \<Rightarrow> cost_ledger \<Rightarrow> cost_snapshot \<times> cost_ledger" where
  "recover_in_flight_cost slug fallback_cost fallback_measured l =
     (let popped = dict_get (cl_in_flight l) slug;
          l1 = l\<lparr>cl_in_flight := dict_pop slug (cl_in_flight l)\<rparr>;
          recovered = (case popped of
              Some ob \<Rightarrow> Some ob
            | None \<Rightarrow> (case fallback_cost of None \<Rightarrow> None
                       | Some c \<Rightarrow> Some \<lparr>ob_amount = max 0 c, ob_measured = fallback_measured\<rparr>));
          l2 = (case recovered of
              None \<Rightarrow> l1
            | Some ob \<Rightarrow>
                (let l' = l1\<lparr>cl_accumulated := float_add (cl_accumulated l1) (ob_amount ob)\<rparr>
                 in if \<not> ob_measured ob then note_unmeasured slug True l' else l'))
      in (snapshot l2, l2))"

definition record_story_cost :: "string \<Rightarrow> rat \<Rightarrow> rat option \<Rightarrow> cost_ledger \<Rightarrow> rat \<times> cost_ledger" where
  "record_story_cost slug cost measured l =
     (let l1 = l\<lparr>cl_in_flight := dict_pop slug (cl_in_flight l)\<rparr>;
          l2 = (if measured = None then note_unmeasured slug True l1 else l1);
          a = float_add (cl_accumulated l2) cost
      in (a, l2\<lparr>cl_accumulated := a\<rparr>))"

text \<open>The method calls that change the ledger, and the effect of one.\<close>

datatype ledger_op =
    Add rat
  | NoteNonStory string rat
  | SetPrior rat
  | FlagHere string
  | NoteCarried string
  | Checkpoint string "rat option" bool
  | Drop string
  | Recover string "rat option" bool
  | RecordStory string rat "rat option"

fun ledger_step :: "ledger_op \<Rightarrow> cost_ledger \<Rightarrow> cost_ledger" where
  "ledger_step (Add a) l = snd (ledger_add a l)"
| "ledger_step (NoteNonStory s a) l = note_non_story s a l"
| "ledger_step (SetPrior a) l = set_prior a l"
| "ledger_step (FlagHere s) l = flag_unmeasured_here s l"
| "ledger_step (NoteCarried s) l = note_carried_unmeasured s l"
| "ledger_step (Checkpoint s c m) l = snd (checkpoint_in_flight_cost s c m l)"
| "ledger_step (Drop s) l = drop_in_flight_cost s l"
| "ledger_step (Recover s c m) l = snd (recover_in_flight_cost s c m l)"
| "ledger_step (RecordStory s c m) l = snd (record_story_cost s c m l)"

section \<open>The history a ledger stands for\<close>

text \<open>
  Functions of the calls made so far, the latest first: the live report of a story is its last
  checkpoint since the story was last settled, and each call charges a list of amounts to the total.
\<close>

fun live_report :: "string \<Rightarrow> ledger_op list \<Rightarrow> cost_observation option" where
  "live_report s [] = None"
| "live_report s (Checkpoint t (Some c) m # h) =
     (if t = s then Some \<lparr>ob_amount = max 0 c, ob_measured = m\<rparr> else live_report s h)"
| "live_report s (Drop t # h) = (if t = s then None else live_report s h)"
| "live_report s (Recover t c m # h) = (if t = s then None else live_report s h)"
| "live_report s (RecordStory t c m # h) = (if t = s then None else live_report s h)"
| "live_report s (x # h) = live_report s h"

definition recovered_report :: "string \<Rightarrow> rat option \<Rightarrow> bool \<Rightarrow> ledger_op list \<Rightarrow> cost_observation option" where
  "recovered_report s c m h =
     (case live_report s h of Some ob \<Rightarrow> Some ob
      | None \<Rightarrow> map_option (\<lambda>x. \<lparr>ob_amount = max 0 x, ob_measured = m\<rparr>) c)"

fun charged :: "ledger_op list \<Rightarrow> rat list" where
  "charged [] = []"
| "charged (Add a # h) = charged h @ [a]"
| "charged (RecordStory s c m # h) = charged h @ [c]"
| "charged (Recover s c m # h) =
     charged h @ (case recovered_report s c m h of None \<Rightarrow> [] | Some ob \<Rightarrow> [ob_amount ob])"
| "charged (x # h) = charged h"

text \<open>The sources a call marks as unmeasured, and those it marks as produced by this generation.\<close>

fun marks_here :: "ledger_op \<Rightarrow> ledger_op list \<Rightarrow> string set" where
  "marks_here (FlagHere s) h = {s}"
| "marks_here (RecordStory s c m) h = (if m = None then {s} else {})"
| "marks_here (Recover s c m) h =
     (case recovered_report s c m h of None \<Rightarrow> {} | Some ob \<Rightarrow> if ob_measured ob then {} else {s})"
| "marks_here x h = {}"

fun unmeasured_here :: "ledger_op list \<Rightarrow> string set" where
  "unmeasured_here [] = {}"
| "unmeasured_here (x # h) = marks_here x h \<union> unmeasured_here h"

definition carried_in :: "ledger_op list \<Rightarrow> string set" where
  "carried_in h = {s. NoteCarried s \<in> set h}"

text \<open>The spend inherited, and what was noted for a slug outside the stories.\<close>

fun inherited :: "rat \<Rightarrow> ledger_op list \<Rightarrow> rat" where
  "inherited start [] = start"
| "inherited start (SetPrior a # h) = a"
| "inherited start (x # h) = inherited start h"

fun noted :: "string \<Rightarrow> ledger_op list \<Rightarrow> rat list" where
  "noted s [] = []"
| "noted s (NoteNonStory t a # h) = noted s h @ (if t = s \<and> 0 < a then [a] else [])"
| "noted s (x # h) = noted s h"

section \<open>The ledger computes its history\<close>

lemmas ledger_defs = ledger_add_def note_non_story_def set_prior_def flag_unmeasured_here_def
  note_carried_unmeasured_def checkpoint_in_flight_cost_def drop_in_flight_cost_def
  recover_in_flight_cost_def record_story_cost_def Let_def

lemma note_unmeasured_parts [simp]:
  "cl_accumulated (note_unmeasured s b l) = cl_accumulated l"
  "cl_prior (note_unmeasured s b l) = cl_prior l"
  "cl_in_flight (note_unmeasured s b l) = cl_in_flight l"
  "cl_non_story (note_unmeasured s b l) = cl_non_story l"
  "cl_unmeasured (note_unmeasured s b l) = set_add s (cl_unmeasured l)"
  "cl_current_generation (note_unmeasured s b l) =
     (if b then set_add s (cl_current_generation l) else cl_current_generation l)"
  by (simp_all add: note_unmeasured_def set_add_def Let_def)

definition cost_ledger_ok :: "cost_ledger \<Rightarrow> bool" where
  "cost_ledger_ok l \<longleftrightarrow> distinct (cl_unmeasured l) \<and> distinct (cl_current_generation l)
     \<and> set (cl_current_generation l) \<subseteq> set (cl_unmeasured l) \<and> dict_wf (cl_in_flight l)
     \<and> list_all (\<lambda>(s, ob). 0 \<le> ob_amount ob) (cl_in_flight l)
     \<and> dict_wf (cl_non_story l)"

lemma list_all_values_set:
  "list_all (\<lambda>(k, v). P v) d \<Longrightarrow> P v \<Longrightarrow> list_all (\<lambda>(k, v). P v) (dict_set k v d)"
  by (induction d) auto

lemma list_all_pop: "list_all P d \<Longrightarrow> list_all P (dict_pop k d)"
  by (induction d) auto

lemma set_add_subset: "set a \<subseteq> set b \<Longrightarrow> set a \<subseteq> set (set_add x b)"
  by auto

lemma cost_ledger_ok_note: "cost_ledger_ok l \<Longrightarrow> cost_ledger_ok (note_unmeasured s b l)"
  by (auto simp: cost_ledger_ok_def)

lemma cost_ledger_ok_frame [simp]:
  "cost_ledger_ok (l\<lparr>cl_accumulated := a\<rparr>) = cost_ledger_ok l" "cost_ledger_ok (l\<lparr>cl_prior := a\<rparr>) = cost_ledger_ok l"
  by (simp_all add: cost_ledger_ok_def)

lemma cost_ledger_ok_pop: "cost_ledger_ok l \<Longrightarrow> cost_ledger_ok (l\<lparr>cl_in_flight := dict_pop s (cl_in_flight l)\<rparr>)"
  by (simp add: cost_ledger_ok_def list_all_pop)

lemma cost_ledger_ok_report:
  "cost_ledger_ok l \<Longrightarrow> cost_ledger_ok (l\<lparr>cl_in_flight := dict_set s \<lparr>ob_amount = max 0 c, ob_measured = m\<rparr> (cl_in_flight l)\<rparr>)"
  by (simp add: cost_ledger_ok_def list_all_values_set)

lemma cost_ledger_ok_step: "cost_ledger_ok l \<Longrightarrow> cost_ledger_ok (ledger_step x l)"
proof (cases x)
  case (Recover s c m)
  assume "cost_ledger_ok l"
  then have "cost_ledger_ok (l\<lparr>cl_in_flight := dict_pop s (cl_in_flight l)\<rparr>)" by (rule cost_ledger_ok_pop)
  then show ?thesis by (simp add: Recover recover_in_flight_cost_def Let_def cost_ledger_ok_note split: option.split)
next
  case (RecordStory s c m)
  assume "cost_ledger_ok l"
  then have "cost_ledger_ok (l\<lparr>cl_in_flight := dict_pop s (cl_in_flight l)\<rparr>)" by (rule cost_ledger_ok_pop)
  then show ?thesis by (simp add: RecordStory record_story_cost_def Let_def cost_ledger_ok_note)
next
  case (NoteNonStory s a)
  assume "cost_ledger_ok l"
  then show ?thesis by (simp add: NoteNonStory note_non_story_def cost_ledger_ok_def)
qed (simp_all add: ledger_defs cost_ledger_ok_note cost_ledger_ok_pop cost_ledger_ok_report split: option.split)

interpretation ledger: op_machine ledger_step "\<lambda>_. True" cost_ledger_ok
  by unfold_locales (rule cost_ledger_ok_step)

interpretation ledger_marks: settling_machine ledger_step "\<lambda>_. True" cost_ledger_ok "\<lambda>l. s \<in> set (cl_unmeasured l)"
proof unfold_locales
  fix l :: cost_ledger and x assume "s \<in> set (cl_unmeasured l)"
  then show "s \<in> set (cl_unmeasured (ledger_step x l))"
    by (cases x) (simp_all add: ledger_defs split: option.split)
qed

definition ledger_matches :: "rat \<Rightarrow> rat \<Rightarrow> ledger_op list \<Rightarrow> cost_ledger \<Rightarrow> bool" where
  "ledger_matches start prior h l \<longleftrightarrow>
     cl_accumulated l = foldl float_add start (charged h)
     \<and> cl_prior l = inherited prior h
     \<and> (\<forall>s. dict_get (cl_in_flight l) s = live_report s h)
     \<and> (\<forall>s. dict_get (cl_non_story l) s = (if noted s h = [] then None else Some (foldl float_add 0 (noted s h))))
     \<and> set (cl_current_generation l) = unmeasured_here h
     \<and> set (cl_unmeasured l) = unmeasured_here h \<union> carried_in h"

lemma carried_in_Cons: "carried_in (x # h) = (case x of NoteCarried s \<Rightarrow> {s} | _ \<Rightarrow> {}) \<union> carried_in h"
  by (auto simp: carried_in_def split: ledger_op.splits)

lemma ledger_matches_step:
  assumes "ledger_matches start prior h l"
  shows "ledger_matches start prior (x # h) (ledger_step x l)"
proof -
  from assms have acc: "cl_accumulated l = foldl float_add start (charged h)" "cl_prior l = inherited prior h"
    and live: "\<And>s. dict_get (cl_in_flight l) s = live_report s h"
    and other: "\<And>s. dict_get (cl_non_story l) s = (if noted s h = [] then None else Some (foldl float_add 0 (noted s h)))"
    and marks: "set (cl_current_generation l) = unmeasured_here h" "set (cl_unmeasured l) = unmeasured_here h \<union> carried_in h"
    by (simp_all add: ledger_matches_def)
  show ?thesis
  proof (cases x)
    case (Checkpoint s c m)
    show ?thesis
      by (cases c) (simp_all add: Checkpoint ledger_matches_def checkpoint_in_flight_cost_def Let_def acc live other marks carried_in_Cons)
  next
    case (Recover s c m)
    show ?thesis
      by (cases "live_report s h"; cases c)
        (auto simp: Recover ledger_matches_def recover_in_flight_cost_def recovered_report_def Let_def acc live other marks carried_in_Cons)
  next
    case (NoteNonStory s a)
    show ?thesis
      by (simp add: NoteNonStory ledger_matches_def note_non_story_def acc live other marks carried_in_Cons)
  qed (auto simp: ledger_matches_def ledger_defs acc live other marks carried_in_Cons)
qed

lemma ledger_matches_run:
  "ledger_matches start prior h l \<Longrightarrow> ledger_matches start prior (rev ops @ h) (fold ledger_step ops l)"
proof (induction ops arbitrary: h l)
  case (Cons x ops)
  from ledger_matches_step [OF Cons.prems] show ?case by (simp add: Cons.IH)
qed simp

lemma ledger_matches_new: "ledger_matches start prior [] (new_ledger start prior)"
  by (simp add: ledger_matches_def new_ledger_def carried_in_def)

lemma cost_ledger_ok_new: "cost_ledger_ok (new_ledger start prior)"
  by (simp add: cost_ledger_ok_def new_ledger_def)

section \<open>Properties\<close>

text \<open>C28. The ledger is exactly its history: after any sequence of calls, from any number of workers, the total
  is the sum, in the order charged, of the plain additions, the terminal cost of each finished story,
  and for each crashed worker its last report since the story was last settled (the caller's fallback
  when there is none); the inherited figure is the last one set; a story is in flight with its last such report, and with no other;
  the spend noted for a slug outside the stories is the sum of its positive notes; the sources of this generation are
  those some call marked here, and the unmeasured sources are these and the carried ones, by name, each listed once.\<close>

theorem ledger_is_its_history:
  fixes ops start prior
  defines "l \<equiv> fold ledger_step ops (new_ledger start prior)"
  shows "cl_accumulated l = foldl float_add start (charged (rev ops))
    \<and> cl_prior l = inherited prior (rev ops)
    \<and> (\<forall>s. dict_get (cl_in_flight l) s = live_report s (rev ops))
    \<and> (\<forall>s. dict_get (cl_non_story l) s = (if noted s (rev ops) = [] then None else Some (foldl float_add 0 (noted s (rev ops)))))
    \<and> set (cl_current_generation l) = unmeasured_here (rev ops) \<and> distinct (cl_current_generation l)
    \<and> cs_unmeasured (snapshot l) = cl_unmeasured l
    \<and> set (cl_unmeasured l) = unmeasured_here (rev ops) \<union> carried_in (rev ops) \<and> distinct (cl_unmeasured l)
    \<and> (snapshot_measured (snapshot l) \<longleftrightarrow> unmeasured_here (rev ops) \<union> carried_in (rev ops) = {})"
proof -
  have m: "ledger_matches start prior (rev ops) l"
    using ledger_matches_run [OF ledger_matches_new, of start prior ops] by (simp add: l_def)
  have "cost_ledger_ok l" unfolding l_def by (rule ledger.run_inv [OF cost_ledger_ok_new]) simp
  then have d: "distinct (cl_unmeasured l)" "distinct (cl_current_generation l)" by (simp_all add: cost_ledger_ok_def)
  from m have u: "set (cl_unmeasured l) = unmeasured_here (rev ops) \<union> carried_in (rev ops)" by (simp add: ledger_matches_def)
  then have "snapshot_measured (snapshot l) \<longleftrightarrow> unmeasured_here (rev ops) \<union> carried_in (rev ops) = {}"
    by (simp add: snapshot_measured_def snapshot_def flip: set_empty)
  with m d u show ?thesis by (simp add: ledger_matches_def snapshot_def)
qed

text \<open>C40. The ledger stays well formed and never forgets an unknown: after any sequence of calls each source is
  listed once, those of this generation are among them, every provisional figure is nonnegative, and
  a source once unmeasured is unmeasured after every later call.\<close>

theorem ledger_keeps_unknowns:
  "cost_ledger_ok (fold ledger_step ops (new_ledger start prior))
    \<and> set (cl_unmeasured (fold ledger_step ops (new_ledger start prior)))
      \<subseteq> set (cl_unmeasured (fold ledger_step later (fold ledger_step ops (new_ledger start prior))))"
proof -
  let ?l = "fold ledger_step ops (new_ledger start prior)"
  have ok: "cost_ledger_ok ?l" by (rule ledger.run_inv [OF cost_ledger_ok_new]) simp
  moreover have "s \<in> set (cl_unmeasured (fold ledger_step later ?l))" if "s \<in> set (cl_unmeasured ?l)" for s
    by (rule ledger_marks.settled_run [OF ok _ that]) simp
  ultimately show ?thesis by blast
qed

text \<open>A worker that lands replaces its provisional figure in one step: after a terminal cost is recorded the
  story is no longer in flight, the total grew by that cost alone, and the spend of every other running
  story is what it was.\<close>

theorem landing_replaces_provisional:
  assumes "record_story_cost slug cost m l = (a, l')"
  shows "a = float_add (cl_accumulated l) cost \<and> cl_accumulated l' = a \<and> \<not> has_in_flight_cost slug l'
    \<and> (\<forall>s. s \<noteq> slug \<longrightarrow> dict_get (cl_in_flight l') s = dict_get (cl_in_flight l) s)
    \<and> (m = None \<longrightarrow> \<not> snapshot_measured (snapshot l'))"
  using assms by (auto simp: record_story_cost_def Let_def has_in_flight_cost_def snapshot_measured_def snapshot_def set_add_def split: if_splits)

end
