(* ===== verification/State_Writer.thy ===== *)
theory State_Writer
  imports Story_State Py_Json Py_Float
begin

text \<open>
  The live state file of a sprint run (\<^verbatim>\<open>sprint/state_writer.py\<close>): the writer that projects the canonical
  story state to disk on every change, the spend high-water mark it keeps, and the functions that
  read and patch the file while no writer exists. The file is the value it parses to; dumping and
  loading YAML is outside, and so is the clock. Writing is atomic and its failure is swallowed by the
  code: each write takes a flag saying whether the disk accepted it. \<open>float_repr\<close> is \<^verbatim>\<open>repr\<close> of a float.
\<close>

section \<open>Model\<close>

definition terminal_sprint_phases :: "string list" where
  "terminal_sprint_phases = [''done'', ''failed'', ''stopped'']"

definition is_terminal_sprint_phase :: "pyval \<Rightarrow> bool" where
  "is_terminal_sprint_phase phase =
     (case phase of PStr s \<Rightarrow> py_lower (py_strip s) \<in> set terminal_sprint_phases | _ \<Rightarrow> False)"

text \<open>\<^verbatim>\<open>float(v)\<close> under \<^verbatim>\<open>isinstance(v, (int, float))\<close>, which holds of booleans too.\<close>

fun numeric_float :: "pyval \<Rightarrow> rat option" where
  "numeric_float (PBool b) = Some (of_bool b)"
| "numeric_float (PInt i) = Some (fl (of_int i))"
| "numeric_float (PFloat r) = Some r"
| "numeric_float _ = None"

text \<open>The same with booleans excluded.\<close>

fun strict_float :: "pyval \<Rightarrow> rat option" where
  "strict_float (PInt i) = Some (fl (of_int i))"
| "strict_float (PFloat r) = Some r"
| "strict_float _ = None"

subsection \<open>The writer\<close>

record state_writer =
  sw_sprint_name :: string
  sw_sprint_id :: "string option"
  sw_story_state :: sprint_state
  sw_sprint_phase :: "string option"
  sw_base_branch :: "string option"
  sw_budget_usd :: "rat option"
  sw_max_parallel :: "int option"
  sw_budget_status :: "string option"
  sw_budget_overrun_usd :: rat
  sw_budget_spend_usd :: "rat option"
  sw_file :: "pyval option"

definition opt_str_value :: "string option \<Rightarrow> pyval" where
  "opt_str_value s = (case s of None \<Rightarrow> PNone | Some t \<Rightarrow> PStr t)"

definition opt_int_value :: "int option \<Rightarrow> pyval" where
  "opt_int_value i = (case i of None \<Rightarrow> PNone | Some n \<Rightarrow> PInt n)"

definition writer_data :: "state_writer \<Rightarrow> pydict" where
  "writer_data w =
     [(''sprint_name'', PStr (sw_sprint_name w)),
      (''sprint_id'', opt_str_value (sw_sprint_id w)),
      (''sprint_phase'', opt_str_value (sw_sprint_phase w)),
      (''base_branch'', opt_str_value (sw_base_branch w)),
      (''budget_usd'', cost_value (sw_budget_usd w)),
      (''budget_status'', opt_str_value (sw_budget_status w)),
      (''budget_overrun_usd'', PFloat (py_round 4 (sw_budget_overrun_usd w))),
      (''budget_spend_usd'', cost_value (map_option (py_round 4) (sw_budget_spend_usd w))),
      (''max_parallel'', opt_int_value (sw_max_parallel w)),
      (''stories'', PList (map PDict (state_as_dict (sw_story_state w))))]"

definition write_locked :: "bool \<Rightarrow> state_writer \<Rightarrow> state_writer" where
  "write_locked disk_ok w = (if disk_ok then w\<lparr>sw_file := Some (PDict (writer_data w))\<rparr> else w)"

text \<open>\<^verbatim>\<open>_load_existing_state\<close>: an absent or unreadable file and one that is no mapping read as None.\<close>

definition load_existing_state :: "pyval option \<Rightarrow> pydict option" where
  "load_existing_state content = (case content of Some (PDict d) \<Rightarrow> Some d | _ \<Rightarrow> None)"

definition inherit_str :: "pydict \<Rightarrow> string \<Rightarrow> string option \<Rightarrow> string option" where
  "inherit_str data k own = (case own of Some s \<Rightarrow> Some s
     | None \<Rightarrow> (case py_get data k of PStr s \<Rightarrow> Some s | _ \<Rightarrow> None))"

fun int_instance :: "pyval \<Rightarrow> int option" where
  "int_instance (PInt i) = Some i"
| "int_instance (PBool b) = Some (of_bool b)"
| "int_instance _ = None"

definition inherit_budget :: "pydict \<Rightarrow> state_writer \<Rightarrow> state_writer" where
  "inherit_budget data w =
     (case (sw_budget_status w, py_get data ''budget_status'') of
        (None, PStr s) \<Rightarrow>
          w\<lparr>sw_budget_status := Some s,
            sw_budget_overrun_usd := (case numeric_float (py_get data ''budget_overrun_usd'') of
              Some x \<Rightarrow> x | None \<Rightarrow> sw_budget_overrun_usd w),
            sw_budget_spend_usd := (case numeric_float (py_get data ''budget_spend_usd'') of
              Some x \<Rightarrow> Some x | None \<Rightarrow> sw_budget_spend_usd w)\<rparr>
      | _ \<Rightarrow> w)"

definition inherit_existing_metadata :: "state_writer \<Rightarrow> state_writer" where
  "inherit_existing_metadata w =
     (case load_existing_state (sw_file w) of None \<Rightarrow> w
      | Some data \<Rightarrow>
          inherit_budget data
            (w\<lparr>sw_sprint_phase := inherit_str data ''sprint_phase'' (sw_sprint_phase w),
               sw_base_branch := inherit_str data ''base_branch'' (sw_base_branch w),
               sw_budget_usd := (case sw_budget_usd w of Some b \<Rightarrow> Some b
                  | None \<Rightarrow> numeric_float (py_get data ''budget_usd'')),
               sw_max_parallel := (case sw_max_parallel w of Some n \<Rightarrow> Some n
                  | None \<Rightarrow> int_instance (py_get data ''max_parallel''))\<rparr>))"

text \<open>The constructor's arguments; the file is what the run's state path holds when it is called.\<close>

record writer_args =
  wa_sprint_name :: string
  wa_sprint_id :: "string option"
  wa_story_state :: "sprint_state option"
  wa_sprint_phase :: "string option"
  wa_base_branch :: "string option"
  wa_budget_usd :: "rat option"
  wa_max_parallel :: "int option"

definition new_writer :: "writer_args \<Rightarrow> pyval option \<Rightarrow> state_writer" where
  "new_writer a content = inherit_existing_metadata
     \<lparr>sw_sprint_name = wa_sprint_name a, sw_sprint_id = wa_sprint_id a,
      sw_story_state = (case wa_story_state a of None \<Rightarrow> [] | Some st \<Rightarrow> st),
      sw_sprint_phase = wa_sprint_phase a, sw_base_branch = wa_base_branch a,
      sw_budget_usd = wa_budget_usd a, sw_max_parallel = wa_max_parallel a,
      sw_budget_status = None, sw_budget_overrun_usd = 0, sw_budget_spend_usd = None, sw_file = content\<rparr>"

definition story_cost :: "pydict \<Rightarrow> rat option" where
  "story_cost story =
     (case dict_get story ''cost_usd'' of
        None \<Rightarrow> Some 0
      | Some raw \<Rightarrow> (case strict_float raw of Some x \<Rightarrow> Some x
                    | None \<Rightarrow> if raw = PNone then None else Some 0))"

definition init_args :: "pydict \<Rightarrow> register_args py_result" where
  "init_args story =
     py_bind (py_list_or_empty (py_get story ''blocked_by'')) (\<lambda>blocked.
     py_bind (py_dict_or_empty (py_get story ''detail'')) (\<lambda>detail.
     py_bind (py_list_or_empty (py_get story ''depends_on'')) (\<lambda>depends.
       Inr \<lparr>ra_outcome = OutcomeValue (if py_truthy (py_get story ''status'') then py_get story ''status''
              else if py_truthy (py_get story ''outcome'') then py_get story ''outcome'' else PStr ''waiting''),
            ra_phase = py_get story ''phase'', ra_cost_usd = story_cost story,
            ra_bundle_candidate = py_truthy (py_get story ''bundle_candidate''),
            ra_batch_group = py_get story ''batch_group'', ra_blocked_by = Some blocked,
            ra_complexity = py_get story ''complexity'', ra_complexity_score = PNone,
            ra_detail = Some detail, ra_reason = py_get story ''reason'',
            ra_canonical_ref = py_get story ''canonical_ref'', ra_depends_on = Some depends\<rparr>)))"

text \<open>A story whose slug is neither a string nor falsy is outside the model, as in the story state.\<close>

fun init_stories :: "pydict list \<Rightarrow> sprint_state \<Rightarrow> sprint_state py_result" where
  "init_stories [] st = Inr st"
| "init_stories (story # rest) st =
     (case py_get story ''slug'' of
        PStr slug \<Rightarrow>
          if slug = [] then init_stories rest st
          else py_bind (init_args story) (\<lambda>a.
                 init_stories rest
                   (register slug (case dict_get story ''path'' of None \<Rightarrow> PStr slug | Some p \<Rightarrow> p) a st))
      | _ \<Rightarrow> init_stories rest st)"

definition writer_init :: "bool \<Rightarrow> pydict list \<Rightarrow> state_writer \<Rightarrow> state_writer py_result" where
  "writer_init disk_ok stories w =
     py_bind (init_stories stories (sw_story_state w)) (\<lambda>st.
       Inr (write_locked disk_ok (w\<lparr>sw_story_state := st\<rparr>)))"

definition writer_register :: "bool \<Rightarrow> string \<Rightarrow> pyval \<Rightarrow> register_args \<Rightarrow> state_writer \<Rightarrow> state_writer" where
  "writer_register disk_ok slug path a w =
     write_locked disk_ok (w\<lparr>sw_story_state := register slug path a (sw_story_state w)\<rparr>)"

text \<open>The defaults of \<^verbatim>\<open>SprintStoryState.register\<close>.\<close>

definition outcome_only :: "outcome_arg \<Rightarrow> register_args" where
  "outcome_only x = \<lparr>ra_outcome = x, ra_phase = PNone, ra_cost_usd = Some 0, ra_bundle_candidate = False,
     ra_batch_group = PNone, ra_blocked_by = None, ra_complexity = PNone, ra_complexity_score = PNone, ra_detail = None,
     ra_reason = PNone, ra_canonical_ref = PNone, ra_depends_on = None\<rparr>"

fun arg_truthy :: "outcome_arg \<Rightarrow> bool" where
  "arg_truthy (OutcomeEnum x) = True"
| "arg_truthy (OutcomeValue v) = py_truthy v"

text \<open>
  \<^verbatim>\<open>update\<close> with the keywords \<^verbatim>\<open>status\<close> and \<^verbatim>\<open>outcome\<close> apart from the others. A truthy status leaves
  \<^verbatim>\<open>outcome\<close> among the keywords, and passing it on beside the explicit argument is a TypeError, raised
  after a late registration and before the file is written.
\<close>

definition writer_update :: "(rat \<Rightarrow> string) \<Rightarrow> bool \<Rightarrow> string \<Rightarrow> outcome_arg option \<Rightarrow> outcome_arg option \<Rightarrow> pydict
    \<Rightarrow> state_writer \<Rightarrow> py_error option \<times> state_writer" where
  "writer_update float_repr disk_ok slug status_kw outcome_kw kwargs w =
     (let status_given = (case status_kw of None \<Rightarrow> False | Some a \<Rightarrow> arg_truthy a);
          outcome = (if status_given then status_kw
                     else (case outcome_kw of Some (OutcomeValue PNone) \<Rightarrow> None | _ \<Rightarrow> outcome_kw));
          st = sw_story_state w;
          st1 = (case outcome of
                   Some a \<Rightarrow> if dict_get st slug = None
                     then register slug (PStr (case dict_get kwargs ''path'' of None \<Rightarrow> slug | Some p \<Rightarrow> py_str float_repr p))
                            (outcome_only a) st
                     else st
                 | None \<Rightarrow> st)
      in if status_given \<and> outcome_kw \<noteq> None
         then (Some (TypeError ''multiple values for keyword argument outcome''), w\<lparr>sw_story_state := st1\<rparr>)
         else (None, write_locked disk_ok (w\<lparr>sw_story_state := transition slug outcome kwargs st1\<rparr>)))"

definition set_budget_status :: "bool \<Rightarrow> string \<Rightarrow> rat \<Rightarrow> rat option \<Rightarrow> state_writer \<Rightarrow> state_writer" where
  "set_budget_status disk_ok status overrun_usd spend_usd w =
     (let raised = (case spend_usd of None \<Rightarrow> False
            | Some incoming \<Rightarrow> (case sw_budget_spend_usd w of None \<Rightarrow> True | Some old \<Rightarrow> incoming > old));
          unchanged = (sw_budget_status w = Some status
            \<and> py_round 4 (sw_budget_overrun_usd w) = py_round 4 overrun_usd \<and> \<not> raised)
      in if unchanged then w
         else write_locked disk_ok
           (w\<lparr>sw_budget_status := Some status, sw_budget_overrun_usd := overrun_usd,
              sw_budget_spend_usd := (if raised then spend_usd else sw_budget_spend_usd w)\<rparr>))"

definition recorded_spend_usd :: "state_writer \<Rightarrow> rat option" where
  "recorded_spend_usd w = sw_budget_spend_usd w"

definition set_phase :: "bool \<Rightarrow> string \<Rightarrow> state_writer \<Rightarrow> state_writer" where
  "set_phase disk_ok phase w = write_locked disk_ok (w\<lparr>sw_sprint_phase := Some phase\<rparr>)"

text \<open>The fields both terminalizing functions give a stranded story; \<open>now\<close> is the clock's reading.\<close>

definition stranded_fields :: "string \<Rightarrow> string \<Rightarrow> string option \<Rightarrow> string option \<Rightarrow> pydict" where
  "stranded_fields gate_status now phase reason =
     [(''detail_updates'', PDict [(''gate_status'', PStr gate_status)]), (''finished_at'', PStr now)]
     @ (case phase of None \<Rightarrow> [] | Some p \<Rightarrow> [(''phase'', PStr p)])
     @ (case reason of None \<Rightarrow> [] | Some r \<Rightarrow> [(''reason'', PStr r)])"

definition strand_step :: "outcome_arg \<Rightarrow> pydict \<Rightarrow> story_entry \<Rightarrow> sprint_state \<times> string list \<Rightarrow> sprint_state \<times> string list" where
  "strand_step outcome kwargs entry acc =
     (if is_terminal (se_outcome entry) then acc
      else (transition (se_slug entry) (Some outcome) kwargs (fst acc), snd acc @ [se_slug entry]))"

definition strand_all :: "outcome_arg \<Rightarrow> pydict \<Rightarrow> sprint_state \<Rightarrow> sprint_state \<times> string list" where
  "strand_all outcome kwargs st = fold (strand_step outcome kwargs) (map snd st) (st, [])"

definition terminalize_stories :: "bool \<Rightarrow> string \<Rightarrow> outcome_arg \<Rightarrow> string option \<Rightarrow> string option \<Rightarrow> string
    \<Rightarrow> state_writer \<Rightarrow> string list \<times> state_writer" where
  "terminalize_stories disk_ok now outcome phase reason gate_status w =
     (case strand_all outcome (stranded_fields gate_status now phase reason) (sw_story_state w) of
        (st, stranded) \<Rightarrow>
          let w1 = w\<lparr>sw_story_state := st\<rparr>
          in (stranded, if stranded \<noteq> [] then write_locked disk_ok w1 else w1))"

subsection \<open>The file without a writer\<close>

definition read_recorded_spend_usd :: "pyval option \<Rightarrow> rat option" where
  "read_recorded_spend_usd content =
     (case load_existing_state content of None \<Rightarrow> None
      | Some data \<Rightarrow> strict_float (py_get data ''budget_spend_usd''))"

definition row_advanced :: "pydict \<Rightarrow> bool" where
  "row_advanced story =
     (let outcome = (case dict_get story ''outcome'' of Some v \<Rightarrow> v | None \<Rightarrow> py_get story ''status'');
          cost = py_get story ''cost_usd''
      in outcome \<notin> {PStr ''waiting'', PStr ''skipped''}
         \<or> cost = PNone \<and> dict_get story ''cost_usd'' \<noteq> None
         \<or> (case numeric_float cost of Some x \<Rightarrow> x > 0 | None \<Rightarrow> False))"

definition has_accumulated_live_state :: "pydict option \<Rightarrow> bool" where
  "has_accumulated_live_state data =
     (case data of None \<Rightarrow> False
      | Some d \<Rightarrow>
          if py_get d ''sprint_id'' \<noteq> PNone then True
          else (case py_get d ''stories'' of
                  PList stories \<Rightarrow> list_ex (\<lambda>v. case v of PDict story \<Rightarrow> row_advanced story | _ \<Rightarrow> False) stories
                | _ \<Rightarrow> False))"

definition write_state_data :: "bool \<Rightarrow> pydict \<Rightarrow> pyval option \<Rightarrow> pyval option" where
  "write_state_data disk_ok data content = (if disk_ok then Some (PDict data) else content)"

definition seed_row :: "pyval \<Rightarrow> pyval \<Rightarrow> string \<Rightarrow> pydict \<Rightarrow> pyval \<Rightarrow> pyval \<Rightarrow> pydict" where
  "seed_row slug path status detail reason canonical_ref =
     [(''slug'', slug), (''path'', path), (''status'', PStr status), (''outcome'', PStr status), (''phase'', PNone),
      (''cost_usd'', PFloat 0), (''bundle_candidate'', PBool False), (''batch_group'', PNone),
      (''blocked_by'', PList []), (''complexity'', PNone), (''complexity_score'', PNone), (''detail'', PDict detail),
      (''reason'', reason), (''canonical_ref'', canonical_ref), (''depends_on'', PList [])]"

text \<open>\<^verbatim>\<open>str(v or "")\<close> inside the title helper: a falsy value counts as absent.\<close>

definition title_arg :: "(rat \<Rightarrow> string) \<Rightarrow> pyval \<Rightarrow> string option" where
  "title_arg float_repr v = (if py_truthy v then Some (py_str float_repr v) else None)"

definition issue_slug :: "(rat \<Rightarrow> string) \<Rightarrow> pydict \<Rightarrow> pyval" where
  "issue_slug float_repr issue =
     (if py_truthy (py_get issue ''slug'') then py_get issue ''slug''
      else if py_get issue ''number'' \<noteq> PNone then PStr (''issue-'' @ py_str float_repr (py_get issue ''number''))
      else PNone)"

definition seed_issue :: "(rat \<Rightarrow> string) \<Rightarrow> pydict \<Rightarrow> pydict list \<times> pyval list \<Rightarrow> pydict list \<times> pyval list" where
  "seed_issue float_repr issue acc =
     (let slug = issue_slug float_repr issue;
          number = py_get issue ''number'';
          ref = (if py_get issue ''canonical_ref'' = PNone \<and> int_instance number \<noteq> None
                 then PStr (''issue:'' @ py_str float_repr number) else py_get issue ''canonical_ref'');
          path = (if py_truthy (py_get issue ''path'') then py_get issue ''path''
                  else PStr (story_title (title_arg float_repr (py_get issue ''title'')) (title_arg float_repr ref) (title_arg float_repr slug)))
      in if \<not> py_truthy slug \<or> slug \<in> set (snd acc) then acc
         else (fst acc @ [seed_row slug path ''waiting'' [] PNone ref], snd acc @ [slug]))"

text \<open>An issue the shape gate refused (\<^verbatim>\<open>SkippedIssue\<close>), and how it is shown.\<close>

record skipped_issue =
  sk_issue_number :: int
  sk_reason_codes :: "string list"
  sk_source :: string
  sk_title :: string
  sk_detail :: string
  sk_verdict :: string
  sk_verdict_description :: string

definition skipped_issue_state_fields :: "skipped_issue \<Rightarrow> string \<times> pydict" where
  "skipped_issue_state_fields sk =
     ((if sk_verdict sk \<noteq> [] then sk_verdict sk
       else if sk_reason_codes sk \<noteq> [] then py_join '', '' (sk_reason_codes sk)
       else if sk_detail sk \<noteq> [] then sk_detail sk
       else if sk_source sk \<noteq> [] then sk_source sk
       else ''shape-gate''),
      [(''shape_gate_source'', PStr (sk_source sk)), (''shape_gate_codes'', PList (map PStr (sk_reason_codes sk))),
       (''shape_verdict'', PStr (sk_verdict sk)), (''shape_verdict_description'', PStr (sk_verdict_description sk)),
       (''final_outcome'', PStr ''SKIPPED'')])"

definition seed_skipped :: "skipped_issue \<Rightarrow> pydict list \<times> pyval list \<Rightarrow> pydict list \<times> pyval list" where
  "seed_skipped sk acc =
     (let number = py_str_int (sk_issue_number sk); slug = PStr (''issue-'' @ number)
      in if slug \<in> set (snd acc) then acc
         else (case skipped_issue_state_fields sk of (reason, detail) \<Rightarrow>
           (fst acc @ [seed_row slug (PStr (story_title (Some (sk_title sk)) (Some (''issue:'' @ number)) None)) ''skipped''
                         detail (PStr reason) (PStr (''issue:'' @ number))],
            snd acc @ [slug])))"

definition seed_rows :: "(rat \<Rightarrow> string) \<Rightarrow> pydict list \<Rightarrow> skipped_issue list \<Rightarrow> pydict list" where
  "seed_rows float_repr issues skipped = fst (fold seed_skipped skipped (fold (seed_issue float_repr) issues ([], [])))"

record bootstrap_args =
  ba_sprint_name :: string
  ba_sprint_phase :: string
  ba_base_branch :: "string option"
  ba_budget_usd :: "rat option"
  ba_max_parallel :: "int option"
  ba_issues :: "pydict list"
  ba_skipped :: "skipped_issue list"

definition write_bootstrap_state :: "(rat \<Rightarrow> string) \<Rightarrow> bool \<Rightarrow> bootstrap_args \<Rightarrow> pyval option \<Rightarrow> pyval option" where
  "write_bootstrap_state float_repr disk_ok a content =
     (if has_accumulated_live_state (load_existing_state content) then content
      else write_state_data disk_ok
        [(''sprint_name'', PStr (ba_sprint_name a)), (''sprint_id'', PNone), (''sprint_phase'', PStr (ba_sprint_phase a)),
         (''base_branch'', opt_str_value (ba_base_branch a)), (''budget_usd'', cost_value (ba_budget_usd a)),
         (''max_parallel'', opt_int_value (ba_max_parallel a)),
         (''stories'', PList (map PDict (seed_rows float_repr (ba_issues a) (ba_skipped a))))] content)"

text \<open>The saved rows of a file, where they are a list of mappings; other content raises in the code.\<close>

definition saved_rows :: "pyval \<Rightarrow> pydict list py_result" where
  "saved_rows v =
     (if \<not> py_truthy v then Inr []
      else (case v of
              PList xs \<Rightarrow> if list_all (\<lambda>x. case x of PDict d \<Rightarrow> True | _ \<Rightarrow> False) xs
                          then Inr (map (\<lambda>x. case x of PDict d \<Rightarrow> d | _ \<Rightarrow> []) xs)
                          else Inl (AttributeError ''get'')
            | PDict d \<Rightarrow> Inl (AttributeError ''get'')
            | PStr s \<Rightarrow> Inl (AttributeError ''get'')
            | _ \<Rightarrow> Inl (TypeError ''object is not iterable'')))"

definition terminalize_state_file :: "bool \<Rightarrow> string \<Rightarrow> string \<Rightarrow> outcome_arg \<Rightarrow> string option \<Rightarrow> string option \<Rightarrow> string
    \<Rightarrow> pyval option \<Rightarrow> (string list \<times> pyval option) py_result" where
  "terminalize_state_file disk_ok now sprint_phase outcome phase reason gate_status content =
     (case load_existing_state content of None \<Rightarrow> Inr ([], content)
      | Some data \<Rightarrow>
          py_bind (saved_rows (py_get data ''stories'')) (\<lambda>rows.
          py_bind (state_from_dict rows) (\<lambda>st0.
            case strand_all outcome (stranded_fields gate_status now phase reason) st0 of (st, stranded) \<Rightarrow>
              Inr (stranded,
                   write_state_data disk_ok
                     (dict_set ''stories'' (PList (map PDict (state_as_dict st)))
                       (dict_set ''sprint_phase'' (PStr sprint_phase) data)) content))))"

definition update_state_phase :: "bool \<Rightarrow> string \<Rightarrow> string option \<Rightarrow> string option \<Rightarrow> pyval option \<Rightarrow> pyval option" where
  "update_state_phase disk_ok sprint_phase detail started_at content =
     (case load_existing_state content of None \<Rightarrow> content
      | Some data \<Rightarrow>
          if py_get data ''sprint_phase'' = PStr sprint_phase \<and> py_get data ''sprint_phase_detail'' = opt_str_value detail
             \<and> py_get data ''sprint_phase_started_at'' = opt_str_value started_at
          then content
          else write_state_data disk_ok
            (dict_set ''sprint_phase_started_at'' (opt_str_value started_at)
              (dict_set ''sprint_phase_detail'' (opt_str_value detail)
                (dict_set ''sprint_phase'' (PStr sprint_phase) data))) content)"

definition merge_detail :: "pydict \<Rightarrow> pydict \<Rightarrow> pydict" where
  "merge_detail updates existing =
     fold (\<lambda>(k, v) d. if v = PNone then dict_pop k d else dict_set k v d) updates existing"

definition update_row :: "pydict \<Rightarrow> pydict \<Rightarrow> pydict" where
  "update_row kwargs story =
     (let detail_updates = py_get kwargs ''detail_updates'';
          rest = dict_pop ''detail_updates'' kwargs;
          rest1 = (case dict_get rest ''status'' of
                     Some s \<Rightarrow> if dict_get rest ''outcome'' = None then dict_set ''outcome'' s rest else rest
                   | None \<Rightarrow> rest);
          story1 = dict_merge story rest1
      in case detail_updates of
           PDict us \<Rightarrow> dict_set ''detail''
             (PDict (merge_detail us (case py_get story1 ''detail'' of PDict d \<Rightarrow> d | _ \<Rightarrow> []))) story1
         | _ \<Rightarrow> story1)"

fun update_first_row :: "string \<Rightarrow> pydict \<Rightarrow> pyval list \<Rightarrow> pyval list option" where
  "update_first_row slug kwargs [] = None"
| "update_first_row slug kwargs (v # vs) =
     (case v of
        PDict story \<Rightarrow>
          if py_get story ''slug'' = PStr slug then Some (PDict (update_row kwargs story) # vs)
          else map_option ((#) v) (update_first_row slug kwargs vs)
      | _ \<Rightarrow> map_option ((#) v) (update_first_row slug kwargs vs))"

definition update_state_story :: "bool \<Rightarrow> string \<Rightarrow> pydict \<Rightarrow> pyval option \<Rightarrow> pyval option" where
  "update_state_story disk_ok slug kwargs content =
     (case load_existing_state content of None \<Rightarrow> content
      | Some data \<Rightarrow>
          (case py_get data ''stories'' of
             PList stories \<Rightarrow>
               (case update_first_row slug kwargs stories of None \<Rightarrow> content
                | Some stories' \<Rightarrow> write_state_data disk_ok (dict_set ''stories'' (PList stories') data) content)
           | _ \<Rightarrow> content))"

section \<open>Calls on a writer\<close>

text \<open>
  One call that returns, with the disk accepting the write or not as the flag says; the rules leave
  out calls that raise, after which the sprint does not go on.
\<close>

inductive writer_step :: "bool \<Rightarrow> state_writer \<Rightarrow> state_writer \<Rightarrow> bool" for disk_ok where
  call_init: "writer_init disk_ok stories w = Inr w' \<Longrightarrow> writer_step disk_ok w w'"
| call_register: "writer_step disk_ok w (writer_register disk_ok slug path a w)"
| call_update: "writer_update float_repr disk_ok slug status_kw outcome_kw kwargs w = (None, w') \<Longrightarrow> writer_step disk_ok w w'"
| call_budget: "writer_step disk_ok w (set_budget_status disk_ok status overrun spend w)"
| call_phase: "writer_step disk_ok w (set_phase disk_ok phase w)"
| call_terminalize: "writer_step disk_ok w (snd (terminalize_stories disk_ok now outcome phase reason gate_status w))"

definition projected :: "state_writer \<Rightarrow> bool" where
  "projected w \<longleftrightarrow> sw_file w = Some (PDict (writer_data w))"

lemma writer_data_file [simp]: "writer_data (w\<lparr>sw_file := c\<rparr>) = writer_data w"
  by (simp add: writer_data_def)

lemma projected_write [simp]: "projected (write_locked True w)"
  by (simp add: projected_def write_locked_def)

lemma write_locked_parts [simp]:
  "sw_budget_spend_usd (write_locked b w) = sw_budget_spend_usd w"
  "sw_story_state (write_locked b w) = sw_story_state w"
  "sw_sprint_id (write_locked b w) = sw_sprint_id w"
  by (simp_all add: write_locked_def)

lemma strand_fold_slugs:
  "snd (fold (strand_step x kvs) es acc) = snd acc @ map se_slug (filter (\<lambda>e. \<not> is_terminal (se_outcome e)) es)"
  by (induction es arbitrary: acc) (simp_all add: strand_step_def)

lemma strand_fold_settled:
  "list_all (\<lambda>e. is_terminal (se_outcome e)) es \<Longrightarrow> fold (strand_step x kvs) es acc = acc"
  by (induction es) (simp_all add: strand_step_def)

lemma strand_step_none:
  assumes "snd (fold (strand_step x kvs) es acc) = []"
  shows "fold (strand_step x kvs) es acc = acc"
proof -
  have "filter (\<lambda>e. \<not> is_terminal (se_outcome e)) es = []" using assms by (simp add: strand_fold_slugs)
  then have "list_all (\<lambda>e. is_terminal (se_outcome e)) es" by (simp add: filter_empty_conv list_all_iff)
  then show ?thesis by (rule strand_fold_settled)
qed

lemma projected_step: "writer_step True w w' \<Longrightarrow> projected w \<Longrightarrow> projected w'"
proof (induction rule: writer_step.induct)
  case (call_init stories w w')
  then show ?case by (auto simp: writer_init_def py_bind_eq_Inr)
next
  case (call_register w slug path a)
  then show ?case by (simp add: writer_register_def)
next
  case (call_update float_repr slug status_kw outcome_kw kwargs w w')
  then show ?case by (auto simp: writer_update_def Let_def split: if_splits)
next
  case (call_budget w status overrun spend)
  then show ?case by (simp add: set_budget_status_def Let_def)
next
  case (call_phase w phase)
  then show ?case by (simp add: set_phase_def)
next
  case (call_terminalize w now x phase reason gate_status)
  obtain st ss where s: "strand_all x (stranded_fields gate_status now phase reason) (sw_story_state w) = (st, ss)" by force
  show ?case
  proof (cases "ss = []")
    case True
    with s strand_step_none [of x "stranded_fields gate_status now phase reason" "map snd (sw_story_state w)" "(sw_story_state w, [])"]
    have "st = sw_story_state w" by (simp add: strand_all_def)
    with s True call_terminalize show ?thesis by (simp add: terminalize_stories_def)
  qed (simp add: terminalize_stories_def s Let_def)
qed

lemma spend_step:
  "writer_step ok w w' \<Longrightarrow> recorded_spend_usd w = Some x \<Longrightarrow> \<exists>y \<ge> x. recorded_spend_usd w' = Some y"
proof (induction rule: writer_step.induct)
  case (call_init stories w w')
  then show ?case by (auto simp: writer_init_def py_bind_eq_Inr recorded_spend_usd_def)
next
  case (call_update float_repr slug status_kw outcome_kw kwargs w w')
  then show ?case by (auto simp: writer_update_def recorded_spend_usd_def Let_def split: if_splits)
next
  case (call_budget w status overrun spend)
  then show ?case
    by (cases spend) (auto simp: set_budget_status_def recorded_spend_usd_def Let_def)
qed (auto simp: writer_register_def set_phase_def terminalize_stories_def recorded_spend_usd_def Let_def split: prod.splits)

interpretation writer_spend: simulation "writer_step ok" "\<lambda>x y. x \<le> y" "\<lambda>w. the (recorded_spend_usd w)"
    "\<lambda>w. recorded_spend_usd w \<noteq> None" for ok
proof unfold_locales
  fix w w' assume "recorded_spend_usd w \<noteq> None" and s: "writer_step ok w w'"
  then obtain x where x: "recorded_spend_usd w = Some x" by blast
  from spend_step [OF s x] x show "recorded_spend_usd w' \<noteq> None"
    "the (recorded_spend_usd w') = the (recorded_spend_usd w) \<or> the (recorded_spend_usd w) \<le> the (recorded_spend_usd w')"
    by auto
qed

section \<open>Terminalizing\<close>

lemma transition_get:
  "dict_get (transition slug x kvs st) s =
     (if s = slug then map_option (transition_entry x kvs) (dict_get st s) else dict_get st s)"
  by (auto simp: transition_def split: option.splits)

lemma transition_keys: "dict_keys (transition slug x kvs st) = dict_keys st"
proof (cases "dict_get st slug")
  case (Some e)
  then have "slug \<in> set (dict_keys st)" using dict_get_None [of st slug] by auto
  with Some show ?thesis by (simp add: transition_def dict_keys_set)
qed (simp add: transition_def)

lemma strand_get:
  "dict_wf es \<Longrightarrow> list_all (\<lambda>(s, e). se_slug e = s) es \<Longrightarrow>
    dict_get (fst (fold (strand_step x kvs) (map snd es) acc)) s =
      (case dict_get es s of
         Some e \<Rightarrow> if is_terminal (se_outcome e) then dict_get (fst acc) s
                   else map_option (transition_entry (Some x) kvs) (dict_get (fst acc) s)
       | None \<Rightarrow> dict_get (fst acc) s)"
proof (induction es arbitrary: acc)
  case (Cons p es)
  obtain s0 e0 where p: "p = (s0, e0)" by force
  from Cons.prems p have k: "se_slug e0 = s0" and new: "dict_get es s0 = None"
    by (auto simp: map_of_eq_None_iff)
  from Cons.IH [of "strand_step x kvs e0 acc"] Cons.prems p k new show ?case
    by (auto simp: strand_step_def transition_get split: option.splits)
qed simp

lemma strand_keys: "dict_keys (fst (fold (strand_step x kvs) es acc)) = dict_keys (fst acc)"
  by (induction es arbitrary: acc) (simp_all add: strand_step_def transition_keys)

lemma strand_all_get:
  assumes "state_ok st"
  shows "dict_get (fst (strand_all x kvs st)) s =
      map_option (\<lambda>e. if is_terminal (se_outcome e) then e else transition_entry (Some x) kvs e) (dict_get st s)"
    and "snd (strand_all x kvs st) = map fst (filter (\<lambda>(s, e). \<not> is_terminal (se_outcome e)) st)"
    and "dict_keys (fst (strand_all x kvs st)) = dict_keys st"
proof -
  from assms have st: "dict_wf st" "list_all (\<lambda>(s, e). se_slug e = s) st" by (auto simp: state_ok_def list_all_iff)
  from strand_get [OF st, of x kvs "(st, [])" s] show "dict_get (fst (strand_all x kvs st)) s =
      map_option (\<lambda>e. if is_terminal (se_outcome e) then e else transition_entry (Some x) kvs e) (dict_get st s)"
    by (simp add: strand_all_def split: option.splits)
  have "map se_slug (filter P (map snd es)) = map fst (filter (\<lambda>(s, e). P e) es)"
    if "list_all (\<lambda>(s, e). se_slug e = s) es" for P and es :: sprint_state
    using that by (induction es) auto
  from this [OF st(2)] show "snd (strand_all x kvs st) = map fst (filter (\<lambda>(s, e). \<not> is_terminal (se_outcome e)) st)"
    by (simp add: strand_all_def strand_fold_slugs)
  show "dict_keys (fst (strand_all x kvs st)) = dict_keys st" by (simp add: strand_all_def strand_keys)
qed

lemma transition_open: "\<not> is_terminal (se_outcome e) \<Longrightarrow> se_outcome (transition_entry (Some x) kvs e) = coerce_outcome x"
  by (simp add: transition_entry_outcome guarded_outcome_def)

lemma strand_all_terminal:
  assumes "state_ok st" "is_terminal (coerce_outcome x)" "dict_get (fst (strand_all x kvs st)) s = Some e"
  shows "is_terminal (se_outcome e)"
proof -
  from assms(3) obtain e0 where "e = (if is_terminal (se_outcome e0) then e0 else transition_entry (Some x) kvs e0)"
    unfolding strand_all_get(1) [OF assms(1)] by (auto simp del: map_of_eq_Some_iff)
  with assms(2) transition_open [of e0 x kvs] show ?thesis by (cases "is_terminal (se_outcome e0)") simp_all
qed

section \<open>What the file says\<close>

lemma writer_data_get:
  "py_get (writer_data w) ''sprint_id'' = opt_str_value (sw_sprint_id w)"
  "py_get (writer_data w) ''budget_spend_usd'' = cost_value (map_option (py_round 4) (sw_budget_spend_usd w))"
  "py_get (writer_data w) ''stories'' = PList (map PDict (state_as_dict (sw_story_state w)))"
  "py_get (writer_data w) ''sprint_phase'' = opt_str_value (sw_sprint_phase w)"
  by (simp_all add: writer_data_def py_get_def)

lemma projected_load: "projected w \<Longrightarrow> load_existing_state (sw_file w) = Some (writer_data w)"
  by (simp add: projected_def load_existing_state_def)

lemma saved_rows_written: "saved_rows (PList (map PDict rows)) = Inr rows"
  by (simp add: saved_rows_def list_all_iff comp_def)

lemma settled_keys: "dict_keys (map (\<lambda>(s, e). (s, settled_entry e)) st) = dict_keys st"
  by (induction st) auto

lemma settled_slug [simp]: "se_slug (settled_entry e) = se_slug e"
  by (simp add: settled_entry_def)

lemma state_ok_settled: "state_ok st \<Longrightarrow> state_ok (map (\<lambda>(s, e). (s, settled_entry e)) st)"
  unfolding state_ok_def settled_keys by (auto simp: settled_entry_ok)

lemma settled_get: "dict_get (map (\<lambda>(s, e). (s, settled_entry e)) st) s = map_option settled_entry (dict_get st s)"
  by (induction st) auto

lemma settled_outcome [simp]: "se_outcome (settled_entry e) = se_outcome e"
  by (simp add: settled_entry_def)

lemma settled_open:
  "map fst (filter (\<lambda>(s, e). \<not> is_terminal (se_outcome e)) (map (\<lambda>(s, e). (s, settled_entry e)) st)) =
    map fst (filter (\<lambda>(s, e). \<not> is_terminal (se_outcome e)) st)"
  by (induction st) auto

lemma load_written: "state_ok st \<Longrightarrow> state_from_dict (state_as_dict st) = Inr (map (\<lambda>(s, e). (s, settled_entry e)) st)"
  using load_saved [of "[]" st] by (simp add: state_from_dict_def)

text \<open>An entry that has advanced beyond the seed of a fresh sprint.\<close>

definition entry_advanced :: "story_entry \<Rightarrow> bool" where
  "entry_advanced e \<longleftrightarrow> se_outcome e \<notin> {WAITING, SKIPPED} \<or> (case se_cost_usd e of None \<Rightarrow> True | Some c \<Rightarrow> c > 0)"

lemma seed_outcome_value:
  "outcome_value x = ''waiting'' \<longleftrightarrow> x = WAITING" "outcome_value x = ''skipped'' \<longleftrightarrow> x = SKIPPED"
  by (cases x, simp_all)+

lemma row_advanced_entry: "entry_ok e \<Longrightarrow> row_advanced (entry_as_dict e) \<longleftrightarrow> entry_advanced e"
  by (cases "se_cost_usd e")
    (simp_all add: row_advanced_def entry_advanced_def saved_fields_get py_get_def cost_value_def seed_outcome_value Let_def)

lemma rows_advanced:
  "list_all (\<lambda>(s, e). entry_ok e) st \<Longrightarrow>
    list_ex (\<lambda>v. case v of PDict story \<Rightarrow> row_advanced story | _ \<Rightarrow> False) (map PDict (state_as_dict st))
      \<longleftrightarrow> list_ex (\<lambda>(s, e). entry_advanced e) st"
  by (induction st) (auto simp: state_as_dict_def row_advanced_entry)

lemma accumulated_written:
  assumes "projected w" "state_ok (sw_story_state w)"
  shows "has_accumulated_live_state (load_existing_state (sw_file w)) \<longleftrightarrow>
    sw_sprint_id w \<noteq> None \<or> list_ex (\<lambda>(s, e). entry_advanced e) (sw_story_state w)"
proof -
  have "list_all (\<lambda>(s, e). entry_ok e) (sw_story_state w)" using assms(2) by (auto simp: state_ok_def list_all_iff)
  note rows_advanced [OF this]
  then show ?thesis
    unfolding projected_load [OF assms(1)]
    by (simp add: has_accumulated_live_state_def writer_data_get opt_str_value_def split: option.split)
qed

lemma seed_rows_slugs:
  "map (\<lambda>r. py_get r ''slug'') (fst acc) = snd acc \<Longrightarrow> distinct (snd acc) \<Longrightarrow>
    map (\<lambda>r. py_get r ''slug'') (fst (seed_issue fr i acc)) = snd (seed_issue fr i acc) \<and> distinct (snd (seed_issue fr i acc))"
  "map (\<lambda>r. py_get r ''slug'') (fst acc) = snd acc \<Longrightarrow> distinct (snd acc) \<Longrightarrow>
    map (\<lambda>r. py_get r ''slug'') (fst (seed_skipped sk acc)) = snd (seed_skipped sk acc) \<and> distinct (snd (seed_skipped sk acc))"
  by (auto simp: seed_issue_def seed_skipped_def seed_row_def py_get_def Let_def split: prod.split)

interpretation seeding: op_machine "seed_issue fr" "\<lambda>_. True"
    "\<lambda>acc. map (\<lambda>r. py_get r ''slug'') (fst acc) = snd acc \<and> distinct (snd acc)" for fr
  by unfold_locales (use seed_rows_slugs(1) in blast)

interpretation seeding_skipped: op_machine seed_skipped "\<lambda>_. True"
    "\<lambda>acc. map (\<lambda>r. py_get r ''slug'') (fst acc) = snd acc \<and> distinct (snd acc)"
  by unfold_locales (use seed_rows_slugs(2) in blast)

lemma seed_rows_distinct: "distinct (map (\<lambda>r. py_get r ''slug'') (seed_rows fr issues skipped))"
  using seeding_skipped.run_inv [OF seeding.run_inv [of "([], [])" issues fr], of skipped]
  by (simp add: seed_rows_def)

lemma seed_row_quiet: "status \<in> {''waiting'', ''skipped''} \<Longrightarrow> \<not> row_advanced (seed_row slug path status d r ref)"
  by (auto simp: row_advanced_def seed_row_def py_get_def)

lemma seed_rows_quiet: "list_all (\<lambda>r. \<not> row_advanced r) (seed_rows fr issues skipped)"
proof -
  have "list_all (\<lambda>r. \<not> row_advanced r) (fst (fold (seed_issue fr) issues acc))"
    if "list_all (\<lambda>r. \<not> row_advanced r) (fst acc)" for acc
    using that by (induction issues arbitrary: acc) (simp_all add: seed_issue_def seed_row_quiet Let_def)
  moreover have "list_all (\<lambda>r. \<not> row_advanced r) (fst (fold seed_skipped skipped acc))"
    if "list_all (\<lambda>r. \<not> row_advanced r) (fst acc)" for acc
    using that by (induction skipped arbitrary: acc) (simp_all add: seed_skipped_def seed_row_quiet Let_def split: prod.split)
  ultimately show ?thesis unfolding seed_rows_def by simp
qed

section \<open>Properties\<close>

text \<open>A writer in the middle of a sprint, and one that is about to register its stories.\<close>

definition sample_writer :: state_writer where
  "sample_writer = new_writer \<lparr>wa_sprint_name = ''s'', wa_sprint_id = Some ''id'', wa_story_state = None,
     wa_sprint_phase = None, wa_base_branch = None, wa_budget_usd = None, wa_max_parallel = None\<rparr> None"

definition live_writer :: state_writer where
  "live_writer = write_locked True (sample_writer\<lparr>sw_story_state := [(''issue-1'', new_entry ''issue-1'' (PStr ''t'') RUNNING),
     (''issue-2'', new_entry ''issue-2'' (PStr ''u'') DONE)]\<rparr>)"

lemma live_writer_ok: "projected live_writer" "state_ok (sw_story_state live_writer)"
  by (simp_all add: live_writer_def state_ok_def entry_ok_new)

text \<open>C30. The state file is the memory: from the initial registration on, after any sequence of calls that return
  and whose writes the disk accepts, the file holds exactly the projection of the writer's metadata
  and story state, the calls that skip the write included.\<close>

theorem state_file_is_projection:
  assumes "writer_init True stories w0 = Inr w1" "(writer_step True)\<^sup>*\<^sup>* w1 w2"
  shows "load_existing_state (sw_file w2) = Some (writer_data w2)"
proof -
  have "projected w1" using assms(1) by (auto simp: writer_init_def py_bind_eq_Inr)
  with assms(2) have "projected w2" by (induction rule: rtranclp_induct) (auto intro: projected_step)
  then show ?thesis by (rule projected_load)
qed

theorem state_file_is_projection_witness:
  "\<exists>w1 d. writer_init True [[(''slug'', PStr ''issue-1'')]] sample_writer = Inr w1
    \<and> load_existing_state (sw_file (set_phase True ''done'' w1)) = Some d \<and> py_get d ''sprint_phase'' = PStr ''done''"
proof -
  obtain w1 where w1: "writer_init True [[(''slug'', PStr ''issue-1'')]] sample_writer = Inr w1"
    by (simp add: writer_init_def init_args_def py_get_def py_list_or_empty_def py_dict_or_empty_def)
  have "(writer_step True)\<^sup>*\<^sup>* w1 (set_phase True ''done'' w1)" by (blast intro: call_phase)
  from state_file_is_projection [OF w1 this] w1 show ?thesis
    by (simp add: writer_data_get set_phase_def write_locked_def opt_str_value_def)
qed

text \<open>C29. Spend once published is never taken back: after a publication of a figure, and after any sequence of
  later calls on the writer, whatever they report and whether or not the disk accepts them, the recorded
  spend is at least that figure and at least what was recorded before.\<close>

theorem published_spend_is_kept:
  assumes "(writer_step ok)\<^sup>*\<^sup>* (set_budget_status ok status overrun (Some s) w) w'"
  shows "\<exists>y. recorded_spend_usd w' = Some y \<and> s \<le> y \<and> (\<forall>x. recorded_spend_usd w = Some x \<longrightarrow> x \<le> y)"
proof -
  let ?w = "set_budget_status ok status overrun (Some s) w"
  have "\<exists>z. recorded_spend_usd ?w = Some z \<and> s \<le> z \<and> (\<forall>x. recorded_spend_usd w = Some x \<longrightarrow> x \<le> z)"
    by (auto simp: set_budget_status_def recorded_spend_usd_def Let_def split: option.splits)
  then obtain z where z: "recorded_spend_usd ?w = Some z" "s \<le> z" "\<forall>x. recorded_spend_usd w = Some x \<longrightarrow> x \<le> z" by blast
  have ne: "recorded_spend_usd ?w \<noteq> None" using z(1) by simp
  have le: "a \<le> b" if "(\<lambda>x y. x \<le> y)\<^sup>*\<^sup>* a b" for a b :: rat
    using that by (induction rule: rtranclp_induct) auto
  from le [OF writer_spend.reach_sim [OF assms ne]] writer_spend.reach_inv [OF assms ne] z show ?thesis
    by (auto intro: order_trans)
qed

theorem published_spend_is_kept_witness:
  "\<exists>y. recorded_spend_usd (set_budget_status False ''within'' 0 (Some 1) (set_budget_status False ''within'' 0 (Some 3) sample_writer)) = Some y
    \<and> 3 \<le> y"
proof -
  have "(writer_step False)\<^sup>*\<^sup>* (set_budget_status False ''within'' 0 (Some 3) sample_writer)
      (set_budget_status False ''within'' 0 (Some 1) (set_budget_status False ''within'' 0 (Some 3) sample_writer))"
    by (blast intro: call_budget)
  from published_spend_is_kept [OF this] show ?thesis by blast
qed

text \<open>C31. Stopping a run settles its file: rewriting a state file the writer left behind, with a terminal
  outcome, reports exactly the stories that were not terminal, and leaves a file with the given sprint
  phase in which every story is terminal, every story that was already terminal has the outcome it
  had, and no story is missing.\<close>

theorem stop_settles_state_file:
  assumes "projected w" "state_ok (sw_story_state w)" "is_terminal (coerce_outcome x)"
  shows "\<exists>data st. terminalize_state_file True now sprint_phase x phase reason gate_status (sw_file w) =
       Inr (map fst (filter (\<lambda>(s, e). \<not> is_terminal (se_outcome e)) (sw_story_state w)), Some (PDict data))
     \<and> py_get data ''sprint_phase'' = PStr sprint_phase \<and> py_get data ''stories'' = PList (map PDict (state_as_dict st))
     \<and> dict_keys st = dict_keys (sw_story_state w)
     \<and> (\<forall>s e. dict_get st s = Some e \<longrightarrow> is_terminal (se_outcome e) \<and>
          (\<forall>e0. dict_get (sw_story_state w) s = Some e0 \<longrightarrow> is_terminal (se_outcome e0) \<longrightarrow> se_outcome e = se_outcome e0))"
proof -
  let ?kvs = "stranded_fields gate_status now phase reason"
  let ?st0 = "map (\<lambda>(s, e). (s, settled_entry e)) (sw_story_state w)"
  have ok: "state_ok ?st0" by (rule state_ok_settled [OF assms(2)])
  obtain st ss where s: "strand_all x ?kvs ?st0 = (st, ss)" by force
  let ?data = "dict_set ''stories'' (PList (map PDict (state_as_dict st))) (dict_set ''sprint_phase'' (PStr sprint_phase) (writer_data w))"
  have ss: "ss = map fst (filter (\<lambda>(s, e). \<not> is_terminal (se_outcome e)) (sw_story_state w))"
    using strand_all_get(2) [OF ok, of x ?kvs] unfolding s settled_open by simp
  have keys: "dict_keys st = dict_keys (sw_story_state w)"
    using strand_all_get(3) [OF ok, of x ?kvs] unfolding s settled_keys by simp
  have run: "terminalize_state_file True now sprint_phase x phase reason gate_status (sw_file w) = Inr (ss, Some (PDict ?data))"
    by (simp add: terminalize_state_file_def projected_load [OF assms(1)] writer_data_get saved_rows_written
        load_written [OF assms(2)] s write_state_data_def)
  have final: "is_terminal (se_outcome e) \<and>
      (\<forall>e0. dict_get (sw_story_state w) t = Some e0 \<longrightarrow> is_terminal (se_outcome e0) \<longrightarrow> se_outcome e = se_outcome e0)"
    if e: "dict_get st t = Some e" for t e
  proof -
    have "is_terminal (se_outcome e)" using strand_all_terminal [OF ok assms(3), of ?kvs t e] s e by simp
    moreover have "dict_get st t = map_option (\<lambda>e. if is_terminal (se_outcome e) then e else transition_entry (Some x) ?kvs e)
        (map_option settled_entry (dict_get (sw_story_state w) t))"
      using strand_all_get(1) [OF ok, of x ?kvs t] unfolding s settled_get by simp
    ultimately show ?thesis using e by (cases "dict_get (sw_story_state w) t") (auto simp del: map_of_eq_Some_iff)
  qed
  show ?thesis
    by (rule exI [of _ ?data], rule exI [of _ st]) (use run ss keys final in \<open>simp add: py_get_set del: map_of_eq_Some_iff\<close>)
qed

theorem stop_settles_state_file_witness:
  "\<exists>content. terminalize_state_file True ''t0'' ''stopped'' (OutcomeEnum FAILED) (Some ''STOPPED'') (Some ''stopped'') ''stopped''
     (sw_file live_writer) = Inr ([''issue-1''], content)"
proof -
  have "is_terminal (coerce_outcome (OutcomeEnum FAILED))"
    "map fst (filter (\<lambda>(s, e). \<not> is_terminal (se_outcome e)) (sw_story_state live_writer)) = [''issue-1'']"
    by (simp_all add: coerce_outcome_def is_terminal_def terminal_outcomes_def live_writer_def new_entry_def)
  with stop_settles_state_file [OF live_writer_ok, of "OutcomeEnum FAILED" "''t0''" "''stopped''" "Some ''STOPPED''"
      "Some ''stopped''" "''stopped''"] show ?thesis by auto
qed

text \<open>A late bootstrap is inert: it leaves a file the live writer left behind untouched once the
  sprint has its id or some story has advanced beyond the seed (a started or settled outcome, spend, or
  spend that is unknown); the rows it seeds have distinct slugs and never count as live state
  themselves.\<close>

theorem bootstrap_inert_once_live:
  assumes "projected w" "state_ok (sw_story_state w)"
  shows "((sw_sprint_id w \<noteq> None \<or> list_ex (\<lambda>(s, e). entry_advanced e) (sw_story_state w))
      \<longrightarrow> write_bootstrap_state fr ok a (sw_file w) = sw_file w)
    \<and> distinct (map (\<lambda>r. py_get r ''slug'') (seed_rows fr (ba_issues a) (ba_skipped a)))
    \<and> \<not> has_accumulated_live_state (load_existing_state (write_bootstrap_state fr ok a None))"
proof -
  have "\<not> has_accumulated_live_state (load_existing_state (write_bootstrap_state fr ok a None))"
    using seed_rows_quiet [of fr "ba_issues a" "ba_skipped a"]
    by (auto simp: write_bootstrap_state_def has_accumulated_live_state_def load_existing_state_def write_state_data_def
        py_get_def list_all_iff list_ex_iff)
  with accumulated_written [OF assms] seed_rows_distinct show ?thesis by (auto simp: write_bootstrap_state_def)
qed

theorem bootstrap_inert_once_live_witness:
  "\<forall>fr ok a. write_bootstrap_state fr ok a (sw_file live_writer) = sw_file live_writer"
proof -
  have "sw_sprint_id live_writer \<noteq> None"
    by (simp add: live_writer_def sample_writer_def new_writer_def inherit_existing_metadata_def load_existing_state_def)
  with bootstrap_inert_once_live [OF live_writer_ok] show ?thesis by blast
qed

text \<open>A restart reads back the published spend as the file holds it, rounded to four places.\<close>

theorem restart_reads_rounded_spend:
  assumes "projected w"
  shows "read_recorded_spend_usd (sw_file w) = map_option (py_round 4) (recorded_spend_usd w)"
  by (simp add: read_recorded_spend_usd_def projected_load [OF assms] writer_data_get recorded_spend_usd_def cost_value_def
      split: option.split)

end
