(* ===== verification/Sprint_Carry.thy ===== *)
theory Sprint_Carry
  imports Unmeasured_Spend
begin

text \<open>
  What a sprint inherits from its earlier generations (\<^verbatim>\<open>sprint/carry.py\<close>): the carried cost, the unmeasured
  sources that came with it, and the headroom left before anything is dispatched. The files read are
  arguments: the sprint-id file, the parsed sprint audit (None when it is absent or does not parse), the
  accumulated story rows, the saved acceptances, and the per-story audit of a slug. \<open>float_repr\<close> and
  \<open>parse_float\<close> are as for unmeasured spend. The start time recovered next to the cost is left out.
\<close>

section \<open>Model\<close>

record carry_snapshot =
  cb_sprint_id :: "string option"
  cb_carried_cost_usd :: rat
  cb_unresolved :: "string list"
  cb_accepted :: "accepted_spend list"
  cb_accepted_ceiling_usd :: rat
  cb_verification_spend_usd :: rat

definition headroom_is_lower_bound :: "carry_snapshot \<Rightarrow> bool" where
  "headroom_is_lower_bound c \<longleftrightarrow> cb_unresolved c \<noteq> []"

definition remaining_headroom_usd :: "rat \<Rightarrow> carry_snapshot \<Rightarrow> rat" where
  "remaining_headroom_usd budget c = py_round 4 (float_sub budget (cb_verification_spend_usd c))"

definition floored_at :: "rat \<Rightarrow> carry_snapshot \<Rightarrow> carry_snapshot" where
  "floored_at carried c =
     (if carried \<le> cb_carried_cost_usd c then c
      else c\<lparr>cb_carried_cost_usd := carried,
             cb_verification_spend_usd := budget_verification_spend 0 carried (cb_accepted_ceiling_usd c)\<rparr>)"

text \<open>\<^verbatim>\<open>_existing_sprint_id\<close> on the content of the id file, None where it is absent or unreadable.\<close>

definition existing_sprint_id :: "string option \<Rightarrow> string option" where
  "existing_sprint_id content =
     (case content of None \<Rightarrow> None
      | Some c \<Rightarrow> (let sprint_id = py_strip c in if sprint_id \<noteq> [] then Some sprint_id else None))"

definition sprint_invocation_carries_prior_spend :: "bool \<Rightarrow> bool \<Rightarrow> bool" where
  "sprint_invocation_carries_prior_spend resume reexec \<longleftrightarrow> resume \<or> reexec"

definition previous_run_marker_present :: "(string, string) dict \<Rightarrow> bool" where
  "previous_run_marker_present environ \<longleftrightarrow>
     (case dict_get environ ''FORGE_PREV_RUN_ID'' of None \<Rightarrow> False | Some v \<Rightarrow> v \<noteq> [])"

text \<open>A document that is no mapping has no \<^verbatim>\<open>get\<close>, which the code catches.\<close>

definition prior_sprint_block :: "pyval option \<Rightarrow> string option \<Rightarrow> pydict" where
  "prior_sprint_block audit sprint_id =
     (case (sprint_id, audit) of
        (Some i, Some (PDict data)) \<Rightarrow>
          if i = [] then []
          else (case py_get data ''sprint'' of
                  PDict block \<Rightarrow> if py_eq (py_get block ''sprint_id'') (PStr i) then block else []
                | _ \<Rightarrow> [])
      | _ \<Rightarrow> [])"

definition recorded_sources :: "(rat \<Rightarrow> string) \<Rightarrow> pydict \<Rightarrow> string list option" where
  "recorded_sources float_repr block =
     (let recorded = py_get block ''unmeasured_spend_sources''
      in if \<not> py_truthy recorded then Some []
         else (case recorded of PList xs \<Rightarrow> Some (map (py_str float_repr) (filter py_truthy xs)) | _ \<Rightarrow> None))"

definition prior_unmeasured_spend_sources :: "(rat \<Rightarrow> string) \<Rightarrow> pyval option \<Rightarrow> string option \<Rightarrow> string list" where
  "prior_unmeasured_spend_sources float_repr audit sprint_id =
     (case recorded_sources float_repr (prior_sprint_block audit sprint_id) of Some ss \<Rightarrow> ss | None \<Rightarrow> [])"

definition prior_sprint_cost_incomplete :: "(rat \<Rightarrow> string) \<Rightarrow> pyval option \<Rightarrow> string option
    \<Rightarrow> (string, accepted_spend) dict \<Rightarrow> bool" where
  "prior_sprint_cost_incomplete float_repr audit sprint_id accepted =
     (let block = prior_sprint_block audit sprint_id
      in if py_get block ''cost_complete'' \<noteq> PBool False then False
         else if accepted \<noteq> []
              \<and> (case recorded_sources float_repr block of None \<Rightarrow> False | Some ss \<Rightarrow> all_sources_accepted ss accepted)
         then False else True)"

text \<open>
  \<^verbatim>\<open>read_prior_sprint_accounting\<close>: the cost of the usable rows and the rows by canonical reference; a cost
  that is no number is skipped.
\<close>

definition accounting_step :: "(string \<Rightarrow> rat option) \<Rightarrow> pyval \<Rightarrow> rat \<times> (string, pydict) dict \<Rightarrow> rat \<times> (string, pydict) dict" where
  "accounting_step parse_float row acc =
     (case row of
        PDict entry \<Rightarrow>
          (case py_get entry ''canonical_ref'' of
             PStr ref \<Rightarrow>
               if ref = [] then acc
               else (let raw = (case dict_get entry ''cost_usd'' of None \<Rightarrow> PFloat 0 | Some v \<Rightarrow> if py_truthy v then v else PFloat 0)
                     in ((case to_float parse_float raw of None \<Rightarrow> fst acc | Some x \<Rightarrow> float_add (fst acc) x),
                         dict_set ref entry (snd acc)))
           | _ \<Rightarrow> acc)
      | _ \<Rightarrow> acc)"

definition read_prior_sprint_accounting :: "(string \<Rightarrow> rat option) \<Rightarrow> string option \<Rightarrow> pyval list \<Rightarrow> rat \<times> (string, pydict) dict" where
  "read_prior_sprint_accounting parse_float sprint_id rows =
     (if sprint_id = None \<or> sprint_id = Some [] then (0, [])
      else (case fold (accounting_step parse_float) rows (0, []) of (cost, entries) \<Rightarrow> (py_round 4 cost, entries)))"

definition read_prior_sprint_audit_cost :: "(string \<Rightarrow> rat option) \<Rightarrow> pyval option \<Rightarrow> string option \<Rightarrow> rat" where
  "read_prior_sprint_audit_cost parse_float audit sprint_id =
     (let block = prior_sprint_block audit sprint_id;
          total_cost = (if py_get block ''total_cost_usd'' \<noteq> PNone then py_get block ''total_cost_usd''
                   else (case dict_get block ''total_cost_measured_usd'' of None \<Rightarrow> PFloat 0 | Some v \<Rightarrow> v))
      in case to_float parse_float (if py_truthy total_cost then total_cost else PFloat 0) of None \<Rightarrow> 0 | Some x \<Rightarrow> x)"

text \<open>
  What the loader reads from its surroundings; \<open>cw_accepted\<close> is the index the caller passes, and
  \<open>cw_saved\<close> the saved acceptances it falls back to.
\<close>

record carry_world =
  cw_id_file :: "string option"
  cw_audit :: "pyval option"
  cw_rows :: "pyval list"
  cw_accepted :: "(string, accepted_spend) dict option"
  cw_saved :: "pyval list"
  cw_story_audit :: "string \<Rightarrow> pyval"
  cw_resume :: bool
  cw_reexec :: bool
  cw_previous_run :: bool

definition unmeasured_rows :: "(string, pydict) dict \<Rightarrow> string list" where
  "unmeasured_rows entries =
     concat (map (\<lambda>(ref, entry). case py_get entry ''slug'' of
         PStr slug \<Rightarrow> if slug \<noteq> [] \<and> dict_get entry ''cost_usd'' = Some PNone then [slug] else []
       | _ \<Rightarrow> []) entries)"

definition row_occurrences :: "(rat \<Rightarrow> string) \<Rightarrow> (string \<Rightarrow> pyval) \<Rightarrow> string list \<Rightarrow> (string, string option) dict" where
  "row_occurrences float_repr story_audit slugs =
     dict_of (map (\<lambda>slug. (''carried:'' @ slug,
       origin_str (us_origin (build_source float_repr (''carried:'' @ slug) (story_audit slug))) ''run_id'')) slugs)"

definition accepted_index :: "(rat \<Rightarrow> string) \<Rightarrow> (string \<Rightarrow> rat option) \<Rightarrow> carry_world \<Rightarrow> (string, accepted_spend) dict" where
  "accepted_index float_repr parse_float w =
     (case cw_accepted w of Some a \<Rightarrow> a | None \<Rightarrow> accepted_by_source float_repr parse_float (map Saved (cw_saved w)))"

definition carried_cost :: "(string \<Rightarrow> rat option) \<Rightarrow> string option \<Rightarrow> carry_world \<Rightarrow> rat" where
  "carried_cost parse_float resolved_id w =
     (let accounting = read_prior_sprint_accounting parse_float resolved_id (cw_rows w)
      in if sprint_invocation_carries_prior_spend (cw_resume w) (cw_reexec w)
         then (if snd accounting \<noteq> [] then fst accounting
               else if cw_previous_run w then read_prior_sprint_audit_cost parse_float (cw_audit w) resolved_id
               else 0)
         else 0)"

definition carried_slugs :: "(string \<Rightarrow> rat option) \<Rightarrow> string option \<Rightarrow> carry_world \<Rightarrow> string list" where
  "carried_slugs parse_float resolved_id w =
     unmeasured_rows (snd (read_prior_sprint_accounting parse_float resolved_id (cw_rows w)))"

definition carried_raws :: "(rat \<Rightarrow> string) \<Rightarrow> (string \<Rightarrow> rat option) \<Rightarrow> string option \<Rightarrow> carry_world \<Rightarrow> string list" where
  "carried_raws float_repr parse_float resolved_id w =
     map (\<lambda>s. ''carried:'' @ s) (carried_slugs parse_float resolved_id w)
     @ (if sprint_invocation_carries_prior_spend (cw_resume w) (cw_reexec w)
           \<and> prior_sprint_cost_incomplete float_repr (cw_audit w) resolved_id (accepted_index float_repr parse_float w)
        then [''carried:prior-generation''] else [])"

definition load_sprint_carry_budget_snapshot :: "(rat \<Rightarrow> string) \<Rightarrow> (string \<Rightarrow> rat option) \<Rightarrow> string option \<Rightarrow> carry_world
    \<Rightarrow> carry_snapshot" where
  "load_sprint_carry_budget_snapshot float_repr parse_float sprint_id w =
     (let resolved_id = (if sprint_id \<in> {None, Some []} then existing_sprint_id (cw_id_file w) else sprint_id)
      in if resolved_id = None
         then \<lparr>cb_sprint_id = None, cb_carried_cost_usd = 0, cb_unresolved = [], cb_accepted = [],
               cb_accepted_ceiling_usd = 0, cb_verification_spend_usd = 0\<rparr>
         else
           (let carried = carried_cost parse_float resolved_id w;
                occurrence_ids = row_occurrences float_repr (cw_story_audit w) (carried_slugs parse_float resolved_id w);
                (unresolved, applied) = partition_sources (carried_raws float_repr parse_float resolved_id w)
                  (accepted_index float_repr parse_float w) [] occurrence_ids;
                accepted_total = accepted_ceiling_total applied
            in \<lparr>cb_sprint_id = resolved_id, cb_carried_cost_usd = carried, cb_unresolved = unresolved,
                cb_accepted = applied, cb_accepted_ceiling_usd = accepted_total,
                cb_verification_spend_usd = budget_verification_spend 0 carried accepted_total\<rparr>))"

section \<open>Facts\<close>

text \<open>A snapshot whose verified figure is the one of its own carried cost and ceiling.\<close>

definition carry_ok :: "carry_snapshot \<Rightarrow> bool" where
  "carry_ok c \<longleftrightarrow> cb_verification_spend_usd c = budget_verification_spend 0 (cb_carried_cost_usd c) (cb_accepted_ceiling_usd c)"

lemma carry_ok_load: "carry_ok (load_sprint_carry_budget_snapshot fr pf i w)"
  by (simp add: load_sprint_carry_budget_snapshot_def carry_ok_def Let_def budget_verification_spend_def float_add_def
      split: prod.split)

lemma carry_ok_floored: "carry_ok c \<Longrightarrow> carry_ok (floored_at p c)"
  by (simp add: carry_ok_def floored_at_def)

lemma floored_carried: "cb_carried_cost_usd (floored_at p c) = max p (cb_carried_cost_usd c)"
  by (simp add: floored_at_def)

lemma floored_frame [simp]:
  "cb_unresolved (floored_at p c) = cb_unresolved c" "cb_accepted (floored_at p c) = cb_accepted c"
  "cb_accepted_ceiling_usd (floored_at p c) = cb_accepted_ceiling_usd c"
  by (simp_all add: floored_at_def)

text \<open>Raising the carried cost never buys headroom.\<close>

lemma floored_headroom:
  assumes "carry_ok c"
  shows "remaining_headroom_usd b (floored_at p c) \<le> remaining_headroom_usd b c"
proof -
  have "cb_verification_spend_usd c \<le> cb_verification_spend_usd (floored_at p c)"
    using assms carry_ok_floored [OF assms, of p]
    by (simp add: carry_ok_def floored_carried verification_mono)
  then show ?thesis unfolding remaining_headroom_usd_def float_sub_def by (intro py_round_mono fl_mono) simp
qed

lemma load_unresolved:
  assumes "c = load_sprint_carry_budget_snapshot fr pf i w" "cb_sprint_id c = Some sid"
  shows "cb_unresolved c = filter (\<lambda>raw. \<not> resolves (accepted_index fr pf w) []
      (row_occurrences fr (cw_story_audit w) (carried_slugs pf (Some sid) w)) raw) (carried_raws fr pf (Some sid) w)"
proof -
  obtain u a where p: "partition_sources (carried_raws fr pf (Some sid) w) (accepted_index fr pf w) []
      (row_occurrences fr (cw_story_audit w) (carried_slugs pf (Some sid) w)) = (u, a)" by force
  have "(if i \<in> {None, Some []} then existing_sprint_id (cw_id_file w) else i) = Some sid"
    using assms unfolding load_sprint_carry_budget_snapshot_def Let_def by (auto split: if_splits prod.splits)
  then have "cb_unresolved c = u" unfolding assms(1) load_sprint_carry_budget_snapshot_def Let_def by (simp add: p)
  with partition_result [OF p] show ?thesis by simp
qed

text \<open>
  What a sprint inherits is disclosed in full: when nothing is left unresolved, every carried story row
  without a cost has an accepted record.
\<close>

theorem carried_unknowns_accepted:
  assumes "c = load_sprint_carry_budget_snapshot fr pf i w" "cb_sprint_id c = Some sid" "\<not> headroom_is_lower_bound c"
    and "slug \<in> set (carried_slugs pf (Some sid) w)"
  shows "dict_get (accepted_index fr pf w) (normalize_source_id (''carried:'' @ slug)) \<noteq> None"
proof -
  have "''carried:'' @ slug \<in> set (carried_raws fr pf (Some sid) w)" using assms(4) by (simp add: carried_raws_def)
  with load_unresolved [OF assms(1,2)] assms(3) have "resolves (accepted_index fr pf w) []
      (row_occurrences fr (cw_story_audit w) (carried_slugs pf (Some sid) w)) (''carried:'' @ slug)"
    by (simp add: headroom_is_lower_bound_def filter_empty_conv)
  then show ?thesis by (auto simp: resolves_def split: option.splits)
qed

end
