(* ===== verification/Budget_Runtime.thy ===== *)
theory Budget_Runtime
  imports Cost_Ledger State_Writer Sprint_Carry Story_DAG
begin

text \<open>
  The enforcement of a sprint's budget (\<^verbatim>\<open>SprintBudgetRuntime\<close> of \<^verbatim>\<open>sprint/budget_runtime.py\<close>): the acceptances in
  force, the description of unmeasured sources with its cache, the refusal at startup, the decision
  before a dispatch and at a running story's phase boundary, the halt that cancels running stories, and
  the skipping of stories the cap refuses. With it the stop condition of the sprint (\<^verbatim>\<open>sprint/runner.py\<close>),
  the cancellation signal (\<^verbatim>\<open>coordinator/cancellation.py\<close>) and the recovery command shown to the operator
  (\<^verbatim>\<open>sprint/preserved_resume.py\<close>). Log lines are left out; notifications and the accumulated entries
  the runner writes through its injected callable are recorded as lists. The per-story audits are a
  function of the slug, a new one at each call, since a running story rewrites its file. The dash U+2014
  in notifications is written as two hyphens.
\<close>

section \<open>Model\<close>

subsection \<open>The recovery command\<close>

text \<open>\<^verbatim>\<open>(\d+)$\<close>: a final line feed may follow the digits.\<close>

definition digits_to_end :: "string \<Rightarrow> string option" where
  "digits_to_end s =
     (let t = (if s \<noteq> [] \<and> code_point (last s) = 10 then butlast s else s)
      in if t \<noteq> [] \<and> list_all py_isdecimal t then Some t else None)"

definition match_digits :: "string \<Rightarrow> string \<Rightarrow> string option" where
  "match_digits p s = (if prefix p s then digits_to_end (drop (length p) s) else None)"

definition preserved_issue_number :: "string option \<Rightarrow> string option \<Rightarrow> string option \<Rightarrow> string option" where
  "preserved_issue_number canonical_ref path slug =
     (let from_ref = (case canonical_ref of
              Some r \<Rightarrow> if prefix ''issue:'' r
                then (let number = py_strip (the (py_split_first (CHR '':'') r)) in if py_str_isdigit number then Some number else None)
                else None
            | None \<Rightarrow> None)
      in case from_ref of Some n \<Rightarrow> Some n
         | None \<Rightarrow> (case Option.bind path (match_digits ''Issue #'') of Some n \<Rightarrow> Some n
                    | None \<Rightarrow> Option.bind slug (match_digits ''issue-'')))"

text \<open>\<^verbatim>\<open>shlex.quote\<close>.\<close>

definition shell_safe :: "char \<Rightarrow> bool" where
  "shell_safe c = (let n = code_point c
     in (48 \<le> n \<and> n \<le> 57) \<or> (65 \<le> n \<and> n \<le> 90) \<or> (97 \<le> n \<and> n \<le> 122) \<or> c \<in> set ''_@%+=:,./-'')"

definition shell_quote :: "string \<Rightarrow> string" where
  "shell_quote s =
     (if s = [] then [CHR 0x27, CHR 0x27]
      else if list_all shell_safe s then s
      else [CHR 0x27] @ concat (map (\<lambda>c. if c = CHR 0x27 then [CHR 0x27, CHR 0x22, CHR 0x27, CHR 0x22, CHR 0x27] else [c]) s) @ [CHR 0x27])"

definition preserved_review_command :: "string option \<Rightarrow> string option \<Rightarrow> string option \<Rightarrow> string" where
  "preserved_review_command canonical_ref path slug =
     (case preserved_issue_number canonical_ref path slug of
        Some n \<Rightarrow> ''forge review --issue '' @ n
      | None \<Rightarrow>
         (case (case path of Some p \<Rightarrow> Some p
                | None \<Rightarrow> (case canonical_ref of Some r \<Rightarrow> if r \<noteq> [] \<and> \<not> prefix ''issue:'' r then Some r else None | None \<Rightarrow> None)) of
            Some p \<Rightarrow> ''forge review '' @ shell_quote p
          | None \<Rightarrow> ''forge review <story-file>''))"

subsection \<open>Stop condition and signals\<close>

record sprint_stop =
  ss_reason :: string
  ss_halt_slug :: "string option"

definition stop_sprint :: "string \<Rightarrow> string option \<Rightarrow> sprint_stop option \<Rightarrow> sprint_stop option" where
  "stop_sprint reason halt_slug st = Some \<lparr>ss_reason = reason, ss_halt_slug = halt_slug\<rparr>"

definition stop_if_unset :: "string \<Rightarrow> string option \<Rightarrow> sprint_stop option \<Rightarrow> bool \<times> sprint_stop option" where
  "stop_if_unset reason halt_slug st =
     (if st \<noteq> None then (False, st) else (True, Some \<lparr>ss_reason = reason, ss_halt_slug = halt_slug\<rparr>))"

text \<open>A worker's event: a plain \<^verbatim>\<open>threading.Event\<close>, or a stop signal that says why it was set.\<close>

datatype worker_event =
    PlainEvent bool
  | StopSignal bool string string

definition new_stop_signal :: worker_event where
  "new_stop_signal = StopSignal False ''Story cancelled by sprint timeout'' ''StoryCancelled''"

fun event_set :: "worker_event \<Rightarrow> bool" where
  "event_set (PlainEvent b) = b"
| "event_set (StopSignal b r t) = b"

fun event_stop :: "string \<Rightarrow> string \<Rightarrow> worker_event \<Rightarrow> worker_event" where
  "event_stop reason error_type (PlainEvent b) = PlainEvent True"
| "event_stop reason error_type (StopSignal b r t) = StopSignal True reason error_type"

fun cancel_cause :: "worker_event option \<Rightarrow> string \<times> string" where
  "cancel_cause (Some (StopSignal b r t)) =
     ((if r \<noteq> [] then r else ''Story cancelled by sprint timeout''), (if t \<noteq> [] then t else ''StoryCancelled''))"
| "cancel_cause _ = (''Story cancelled by sprint timeout'', ''StoryCancelled'')"

text \<open>
  Copying a map another thread may be changing: each of the three attempts can fail, as the flags say;
  when all fail the copy is empty.
\<close>

definition copy_worker_signals :: "bool list \<Rightarrow> ('k, 'v) dict \<Rightarrow> ('k, 'v) dict" where
  "copy_worker_signals raced signals = (if length (takeWhile id (take 3 raced)) = 3 then [] else signals)"

subsection \<open>State\<close>

text \<open>What is fixed for a run; \<open>rx_notify\<close> says that notifications are on and go through the sender.\<close>

record story_context =
  sx_title :: "string option"
  sx_ref :: "string option"

record run_context =
  rx_sprint_name :: string
  rx_sprint_id :: "string option"
  rx_budget_usd :: rat
  rx_accept :: "string list"
  rx_accept_reason :: "string option"
  rx_notify :: bool
  rx_contexts :: "(string, story_context) dict"

text \<open>
  Stories of one batch share a signal object, so a slug maps to the address of its signal. The writer,
  when there is one, holds the story state itself.
\<close>

datatype occurrence = Carried | Current

record budget_runtime =
  br_cost :: cost_ledger
  br_stop :: "sprint_stop option"
  br_stop_events :: "(string, nat) dict"
  br_signals :: "nat \<Rightarrow> worker_event"
  br_plan_gates :: "(string, bool) dict"
  br_cancelled :: "string list"
  br_dag :: story_dag
  br_stories :: sprint_state
  br_writer :: "state_writer option"
  br_entries :: "(string \<times> string \<times> string) list"
  br_notifications :: "(string \<times> string) list"
  br_accepted :: "(string, accepted_spend) dict"
  br_cache :: "(occurrence \<times> string, unmeasured_source) dict"
  br_carried_ids :: "(string, string option) dict"
  br_persisted :: "pydict list option"

definition run_stories :: "budget_runtime \<Rightarrow> sprint_state" where
  "run_stories r = (case br_writer r of Some w \<Rightarrow> sw_story_state w | None \<Rightarrow> br_stories r)"

definition set_run_stories :: "sprint_state \<Rightarrow> budget_runtime \<Rightarrow> budget_runtime" where
  "set_run_stories st r =
     (case br_writer r of Some w \<Rightarrow> r\<lparr>br_writer := Some (w\<lparr>sw_story_state := st\<rparr>)\<rparr> | None \<Rightarrow> r\<lparr>br_stories := st\<rparr>)"

subsection \<open>Sources\<close>

type_synonym audits = "string \<Rightarrow> pyval"

definition describe_raw_source :: "(rat \<Rightarrow> string) \<Rightarrow> audits \<Rightarrow> occurrence option \<Rightarrow> string \<Rightarrow> budget_runtime
    \<Rightarrow> unmeasured_source \<times> budget_runtime" where
  "describe_raw_source float_repr audits occ raw r =
     (let o1 = (case occ of Some x \<Rightarrow> x | None \<Rightarrow> if raw \<in> set (cl_current_generation (br_cost r)) then Current else Carried);
          key = (o1, normalize_source_id raw)
      in case dict_get (br_cache r) key of
           Some cached \<Rightarrow> (cached, r)
         | None \<Rightarrow>
             (let story_audit = (case source_slug raw of None \<Rightarrow> PNone | Some slug \<Rightarrow> audits slug);
                  built = build_source float_repr raw story_audit
              in (built, r\<lparr>br_cache := dict_set key built (br_cache r)\<rparr>)))"

definition source_detail :: "(rat \<Rightarrow> string) \<Rightarrow> run_context \<Rightarrow> audits \<Rightarrow> occurrence option \<Rightarrow> string \<Rightarrow> budget_runtime
    \<Rightarrow> string \<times> budget_runtime" where
  "source_detail float_repr ctx audits occ raw r =
     (case describe_raw_source float_repr audits occ raw r of (source, r1) \<Rightarrow>
        let detail = describe_source float_repr source
        in case attributed_story_slug raw of
             None \<Rightarrow> (detail, r1)
           | Some slug \<Rightarrow>
               if acceptable source then (detail, r1)
               else (let canonical_ref = (case dict_get (rx_contexts ctx) slug of None \<Rightarrow> None | Some sx \<Rightarrow> sx_ref sx);
                         command = preserved_review_command canonical_ref None (Some slug)
                     in (detail @ ''; recovery: resolve '' @ slug @ '''s preserved work with `'' @ command
                         @ ''`, then rerun the sprint'', r1)))"

definition terminal_story_source_for_other_story :: "string \<Rightarrow> string \<Rightarrow> budget_runtime \<Rightarrow> bool" where
  "terminal_story_source_for_other_story raw dispatch_slug r =
     (case attributed_story_slug raw of None \<Rightarrow> False
      | Some slug \<Rightarrow> if slug = dispatch_slug then False
          else (case dict_get (run_stories r) slug of None \<Rightarrow> False | Some e \<Rightarrow> is_terminal (se_outcome e)))"

text \<open>A call for each element of a list, in order, threading the runtime.\<close>

fun map_state :: "('a \<Rightarrow> 's \<Rightarrow> 'b \<times> 's) \<Rightarrow> 'a list \<Rightarrow> 's \<Rightarrow> 'b list \<times> 's" where
  "map_state f [] s = ([], s)"
| "map_state f (x # xs) s = (case f x s of (y, s1) \<Rightarrow> case map_state f xs s1 of (ys, s2) \<Rightarrow> (y # ys, s2))"

subsection \<open>Startup\<close>

definition restore_acceptances :: "(rat \<Rightarrow> string) \<Rightarrow> (string \<Rightarrow> rat option) \<Rightarrow> run_context \<Rightarrow> pyval list \<Rightarrow> budget_runtime
    \<Rightarrow> budget_runtime" where
  "restore_acceptances float_repr parse_float ctx persisted r =
     (if rx_sprint_id ctx = None then r
      else r\<lparr>br_accepted := fold (\<lambda>v d. case accepted_from_dict float_repr parse_float v of
               None \<Rightarrow> d | Some a \<Rightarrow> dict_set (as_source a) a d) persisted (br_accepted r)\<rparr>)"

definition accept_step :: "(rat \<Rightarrow> string) \<Rightarrow> run_context \<Rightarrow> audits \<Rightarrow> string list \<Rightarrow> string \<Rightarrow> string
    \<Rightarrow> bool \<times> budget_runtime \<Rightarrow> bool \<times> budget_runtime" where
  "accept_step float_repr ctx audits known now raw acc =
     (let normalized = normalize_source_id raw
      in if normalized = [] \<or> normalized \<notin> set known then acc
         else (case describe_raw_source float_repr audits (Some Carried) raw (snd acc) of (source, r1) \<Rightarrow>
           (case accept_source source now (rx_accept_reason ctx) of
              None \<Rightarrow> (fst acc, r1)
            | Some a \<Rightarrow> (True, r1\<lparr>br_accepted := dict_set (as_source a) a (br_accepted r1)\<rparr>))))"

definition load_operator_acceptances :: "(rat \<Rightarrow> string) \<Rightarrow> (string \<Rightarrow> rat option) \<Rightarrow> run_context \<Rightarrow> audits \<Rightarrow> pyval list
    \<Rightarrow> string list \<Rightarrow> string \<Rightarrow> bool \<Rightarrow> budget_runtime \<Rightarrow> budget_runtime" where
  "load_operator_acceptances float_repr parse_float ctx audits persisted prior_sources now disk_ok r =
     (let r0 = restore_acceptances float_repr parse_float ctx persisted r;
          known = map normalize_source_id (cl_unmeasured (br_cost r0)) @ map normalize_source_id prior_sources
      in case fold (accept_step float_repr ctx audits known now) (rx_accept ctx) (False, r0) of
           (newly_accepted, r1) \<Rightarrow>
             if newly_accepted \<and> disk_ok
             then r1\<lparr>br_persisted := Some (map (accepted_as_dict \<circ> snd) (br_accepted r1))\<rparr> else r1)"

definition pin_step :: "(rat \<Rightarrow> string) \<Rightarrow> audits \<Rightarrow> string list \<Rightarrow> string \<Rightarrow> budget_runtime \<Rightarrow> budget_runtime" where
  "pin_step float_repr audits fresh raw r =
     (if raw \<in> set fresh then r
      else (case describe_raw_source float_repr audits (Some Carried) raw r of (source, r1) \<Rightarrow>
        r1\<lparr>br_carried_ids := dict_set raw (origin_str (us_origin source) ''run_id'') (br_carried_ids r1)\<rparr>))"

definition pin_carried_occurrences :: "(rat \<Rightarrow> string) \<Rightarrow> audits \<Rightarrow> budget_runtime \<Rightarrow> budget_runtime" where
  "pin_carried_occurrences float_repr audits r =
     fold (pin_step float_repr audits (cl_current_generation (br_cost r))) (cl_unmeasured (br_cost r)) r"

definition startup_decision :: "(rat \<Rightarrow> string) \<Rightarrow> run_context \<Rightarrow> audits \<Rightarrow> string list \<Rightarrow> carry_snapshot \<Rightarrow> budget_runtime
    \<Rightarrow> budget_block option \<times> budget_runtime" where
  "startup_decision float_repr ctx audits prior_sources carry r =
     (let unresolved = cb_unresolved carry
      in case map_state (source_detail float_repr ctx audits (Some Carried)) unresolved r of (details, r1) \<Rightarrow>
         case map_state (describe_raw_source float_repr audits (Some Carried)) unresolved r1 of (sources, r2) \<Rightarrow>
         let named = map us_source (filter acceptable (map snd (dict_of (zip unresolved sources))));
             named' = (if ''carried:prior-generation'' \<in> set unresolved
                       then fold set_add (acceptable_prior_sources prior_sources) named else named)
         in (evaluate_budget \<lparr>accumulated_cost = 0, prior_cost = cb_carried_cost_usd carry, budget_usd = rx_budget_usd ctx,
               unmeasured_spend = unresolved, accepted_unmeasured_ceiling_usd = cb_accepted_ceiling_usd carry,
               source_details = (if unresolved \<noteq> [] then Some (dict_of (zip unresolved details)) else None),
               acceptable_unmeasured_spend_sources = Some named'\<rparr>, r2))"

definition evaluate_startup_headroom :: "(rat \<Rightarrow> string) \<Rightarrow> (string \<Rightarrow> rat option) \<Rightarrow> run_context \<Rightarrow> carry_world
    \<Rightarrow> budget_runtime \<Rightarrow> budget_block option \<times> budget_runtime" where
  "evaluate_startup_headroom float_repr parse_float ctx w r =
     (if rx_budget_usd ctx \<le> 0 then (None, r)
      else (let w1 = w\<lparr>cw_accepted := Some (br_accepted r)\<rparr>;
                carry = floored_at (cs_prior (snapshot (br_cost r)))
                  (load_sprint_carry_budget_snapshot float_repr parse_float (rx_sprint_id ctx) w1)
            in startup_decision float_repr ctx (cw_story_audit w)
                 (prior_unmeasured_spend_sources float_repr (cw_audit w) (rx_sprint_id ctx)) carry r))"

subsection \<open>Enforcement\<close>

definition decision_for :: "(rat \<Rightarrow> string) \<Rightarrow> run_context \<Rightarrow> audits \<Rightarrow> cost_snapshot \<Rightarrow> string option \<Rightarrow> budget_runtime
    \<Rightarrow> budget_block option \<times> budget_runtime" where
  "decision_for float_repr ctx audits snap dispatch_slug r =
     (case partition_sources (cs_unmeasured snap) (br_accepted r) (cs_current_generation_unmeasured snap) (br_carried_ids r) of
        (unresolved0, applied) \<Rightarrow>
          let unresolved = (case dispatch_slug of None \<Rightarrow> unresolved0
                | Some slug \<Rightarrow> filter (\<lambda>raw. \<not> terminal_story_source_for_other_story raw slug r) unresolved0)
          in case map_state (source_detail float_repr ctx audits None) unresolved r of (details, r1) \<Rightarrow>
             case map_state (describe_raw_source float_repr audits None) unresolved r1 of (sources, r2) \<Rightarrow>
             (evaluate_budget
                \<lparr>accumulated_cost = float_add (cs_accumulated snap) (cs_in_flight snap), prior_cost = cs_prior snap,
                 budget_usd = rx_budget_usd ctx, unmeasured_spend = unresolved,
                 accepted_unmeasured_ceiling_usd = accepted_ceiling_total applied,
                 source_details = (if unresolved \<noteq> [] then Some (dict_of (zip unresolved details)) else None),
                 acceptable_unmeasured_spend_sources =
                   Some (map us_source (filter acceptable (map snd (dict_of (zip unresolved sources)))))\<rparr>, r2))"

definition decision_before_dispatch :: "(rat \<Rightarrow> string) \<Rightarrow> run_context \<Rightarrow> audits \<Rightarrow> string option \<Rightarrow> budget_runtime
    \<Rightarrow> budget_block option \<times> budget_runtime" where
  "decision_before_dispatch float_repr ctx audits slug r =
     decision_for float_repr ctx audits (snapshot (br_cost r)) slug r"

definition publish_live_status :: "run_context \<Rightarrow> bool \<Rightarrow> rat \<Rightarrow> budget_runtime \<Rightarrow> budget_runtime" where
  "publish_live_status ctx disk_ok spend r =
     (case br_writer r of None \<Rightarrow> r
      | Some w \<Rightarrow> r\<lparr>br_writer := Some (set_budget_status disk_ok (budget_status (rx_budget_usd ctx) (Some spend))
                     (budget_overrun_usd (rx_budget_usd ctx) (Some spend)) (Some spend) w)\<rparr>)"

definition notify :: "run_context \<Rightarrow> budget_block \<Rightarrow> string \<Rightarrow> budget_runtime \<Rightarrow> budget_runtime" where
  "notify ctx decision tail r =
     (if rx_notify ctx
      then r\<lparr>br_notifications := br_notifications r @ [(notification_title decision (rx_sprint_name ctx), bb_detail decision @ tail)]\<rparr>
      else r)"

definition cancel_worker :: "string \<Rightarrow> string \<times> nat \<Rightarrow> budget_runtime \<Rightarrow> budget_runtime" where
  "cancel_worker reason pending r =
     r\<lparr>br_cancelled := set_add (fst pending) (br_cancelled r),
       br_signals := (br_signals r)(snd pending := event_stop reason ''SprintBudgetExhausted'' (br_signals r (snd pending)))\<rparr>"

definition release_gate :: "string \<times> bool \<Rightarrow> budget_runtime \<Rightarrow> budget_runtime" where
  "release_gate pending r = r\<lparr>br_plan_gates := dict_set (fst pending) True (br_plan_gates r)\<rparr>"

text \<open>The two lists of flags say which attempts at copying the signals and the gates were raced.\<close>

definition halt :: "run_context \<Rightarrow> bool list \<Rightarrow> bool list \<Rightarrow> string \<Rightarrow> budget_block \<Rightarrow> budget_runtime \<Rightarrow> budget_runtime" where
  "halt ctx raced_events raced_gates slug decision r =
     (case stop_if_unset (stopped_reason decision) (Some slug) (br_stop r) of
        (False, st) \<Rightarrow> r
      | (True, st) \<Rightarrow>
          (let cancel_reason = ''sprint budget exhausted while running ('' @ bb_detail decision @ '')'';
               r1 = r\<lparr>br_stop := st\<rparr>;
               r2 = fold (cancel_worker cancel_reason) (copy_worker_signals raced_events (br_stop_events r1)) r1;
               r3 = fold release_gate (copy_worker_signals raced_gates (br_plan_gates r2)) r2
           in notify ctx decision '' -- running stories cancelled, remaining stories skipped'' r3))"

definition checkpoint :: "(rat \<Rightarrow> string) \<Rightarrow> run_context \<Rightarrow> audits \<Rightarrow> bool \<Rightarrow> bool list \<Rightarrow> bool list \<Rightarrow> string
    \<Rightarrow> cost_observation option \<Rightarrow> budget_runtime \<Rightarrow> budget_runtime" where
  "checkpoint float_repr ctx audits disk_ok raced_events raced_gates slug measured_cost r =
     (if rx_budget_usd ctx \<le> 0 then r
      else (case checkpoint_in_flight_cost slug (map_option ob_amount measured_cost)
                   (case measured_cost of None \<Rightarrow> True | Some ob \<Rightarrow> ob_measured ob) (br_cost r) of
        (snap, cost) \<Rightarrow>
          let r1 = publish_live_status ctx disk_ok (spent_including_in_flight snap) (r\<lparr>br_cost := cost\<rparr>)
          in if br_stop r1 \<noteq> None then r1
             else (case decision_for float_repr ctx audits snap None r1 of
                     (None, r2) \<Rightarrow> r2
                   | (Some decision, r2) \<Rightarrow>
                       if bb_kind decision \<noteq> Exhausted then r2
                       else halt ctx raced_events raced_gates slug decision r2)))"

text \<open>
  The runner's two callables. Setting an outcome registers a story the state does not know yet and
  transitions it, through the writer when there is one; an entry is recorded for the stories the run knows.
\<close>

definition ensure_registered :: "run_context \<Rightarrow> string \<Rightarrow> budget_runtime \<Rightarrow> budget_runtime" where
  "ensure_registered ctx slug r =
     (if dict_get (run_stories r) slug \<noteq> None then r
      else (case dict_get (rx_contexts ctx) slug of
              Some sx \<Rightarrow> set_run_stories (register slug (PStr (story_title (sx_title sx) (sx_ref sx) (Some slug)))
                  ((outcome_only (OutcomeEnum WAITING))\<lparr>ra_canonical_ref := opt_str_value (sx_ref sx)\<rparr>) (run_stories r)) r
            | None \<Rightarrow> set_run_stories (register slug (PStr slug) (outcome_only (OutcomeEnum WAITING)) (run_stories r)) r))"

definition set_outcome :: "(rat \<Rightarrow> string) \<Rightarrow> run_context \<Rightarrow> bool \<Rightarrow> string \<Rightarrow> string \<Rightarrow> story_outcome \<Rightarrow> string \<Rightarrow> budget_runtime
    \<Rightarrow> budget_runtime" where
  "set_outcome float_repr ctx disk_ok now slug outcome reason r =
     (let r1 = ensure_registered ctx slug r;
          kwargs = [(''reason'', PStr reason)] @ (if is_terminal outcome then [(''finished_at'', PStr now)] else [])
      in case br_writer r1 of
           Some w \<Rightarrow> r1\<lparr>br_writer := Some (snd (writer_update float_repr disk_ok slug (Some (OutcomeEnum outcome)) None kwargs w))\<rparr>
         | None \<Rightarrow> r1\<lparr>br_stories := transition slug (Some (OutcomeEnum outcome)) kwargs (br_stories r1)\<rparr>)"

definition record_story_entry :: "run_context \<Rightarrow> string \<Rightarrow> string \<Rightarrow> string \<Rightarrow> budget_runtime \<Rightarrow> budget_runtime" where
  "record_story_entry ctx slug outcome err r =
     (if dict_get (rx_contexts ctx) slug = None then r else r\<lparr>br_entries := br_entries r @ [(slug, outcome, err)]\<rparr>)"

definition skip_story :: "(rat \<Rightarrow> string) \<Rightarrow> run_context \<Rightarrow> bool \<Rightarrow> string \<Rightarrow> budget_block \<Rightarrow> string \<Rightarrow> budget_runtime
    \<Rightarrow> budget_runtime" where
  "skip_story float_repr ctx disk_ok now decision slug r =
     (let r1 = r\<lparr>br_dag := mark_skipped slug (br_dag r)\<rparr>;
          r2 = set_outcome float_repr ctx disk_ok now slug SKIPPED (story_reason decision) r1;
          r3 = (case stop_if_unset (stopped_reason decision) None (br_stop r2) of
                  (True, st) \<Rightarrow> notify ctx decision '' -- remaining stories skipped'' (r2\<lparr>br_stop := st\<rparr>)
                | (False, st) \<Rightarrow> r2);
          r4 = record_story_entry ctx slug ''SKIPPED'' (story_reason decision) r3
      in case br_writer r4 of
           Some w \<Rightarrow> r4\<lparr>br_writer := Some (snd (writer_update float_repr disk_ok slug (Some (OutcomeValue (PStr ''skipped''))) None [] w))\<rparr>
         | None \<Rightarrow> r4)"

definition skip_remaining_stories :: "(rat \<Rightarrow> string) \<Rightarrow> run_context \<Rightarrow> bool \<Rightarrow> string \<Rightarrow> budget_block \<Rightarrow> budget_runtime
    \<Rightarrow> budget_runtime" where
  "skip_remaining_stories float_repr ctx disk_ok now decision r =
     fold (skip_story float_repr ctx disk_ok now decision) (map ts_slug (dag_remaining (br_dag r))) r"

record budget_verification =
  bv_unresolved :: "string list"
  bv_accepted :: "accepted_spend list"
  bv_accepted_ceiling_usd :: rat
  bv_verification_spend_usd :: rat

definition verification :: "cost_snapshot \<Rightarrow> budget_runtime \<Rightarrow> budget_verification" where
  "verification snap r =
     (case partition_sources (cs_unmeasured snap) (br_accepted r) (cs_current_generation_unmeasured snap) (br_carried_ids r) of
        (unresolved, accepted) \<Rightarrow>
          let accepted_total = accepted_ceiling_total accepted
          in \<lparr>bv_unresolved = unresolved, bv_accepted = accepted, bv_accepted_ceiling_usd = accepted_total,
              bv_verification_spend_usd = budget_verification_spend (cs_accumulated snap) (cs_prior snap) accepted_total\<rparr>)"

section \<open>Describing sources touches the cache alone\<close>

definition cache_grows :: "budget_runtime \<Rightarrow> budget_runtime \<Rightarrow> bool" where
  "cache_grows r r' \<longleftrightarrow> r' = r\<lparr>br_cache := br_cache r'\<rparr>
     \<and> (\<forall>k v. dict_get (br_cache r) k = Some v \<longrightarrow> dict_get (br_cache r') k = Some v)"

lemma cache_grows_refl [simp]: "cache_grows r r"
  by (simp add: cache_grows_def)

lemma cache_grows_trans: "cache_grows r r' \<Longrightarrow> cache_grows r' r'' \<Longrightarrow> cache_grows r r''"
  unfolding cache_grows_def by (metis budget_runtime.surjective budget_runtime.update_convs(13))

lemma cache_grows_parts:
  assumes "cache_grows r r'"
  shows "br_cost r' = br_cost r" "br_stop r' = br_stop r" "br_accepted r' = br_accepted r" "br_carried_ids r' = br_carried_ids r"
    "br_stop_events r' = br_stop_events r" "br_signals r' = br_signals r" "br_plan_gates r' = br_plan_gates r"
    "br_cancelled r' = br_cancelled r" "br_dag r' = br_dag r" "run_stories r' = run_stories r" "br_persisted r' = br_persisted r"
proof -
  from assms obtain c where r': "r' = r\<lparr>br_cache := c\<rparr>" unfolding cache_grows_def by blast
  show "br_cost r' = br_cost r" "br_stop r' = br_stop r" "br_accepted r' = br_accepted r" "br_carried_ids r' = br_carried_ids r"
    "br_stop_events r' = br_stop_events r" "br_signals r' = br_signals r" "br_plan_gates r' = br_plan_gates r"
    "br_cancelled r' = br_cancelled r" "br_dag r' = br_dag r" "run_stories r' = run_stories r" "br_persisted r' = br_persisted r"
    by (simp_all add: r' run_stories_def split: option.split)
qed

lemma describe_cache:
  assumes "describe_raw_source fr audits occ raw r = (src, r')"
  shows "cache_grows r r'"
    and "dict_get (br_cache r') (case occ of Some x \<Rightarrow> x | None \<Rightarrow> if raw \<in> set (cl_current_generation (br_cost r)) then Current else Carried,
       normalize_source_id raw) = Some src"
  using assms by (auto simp: describe_raw_source_def cache_grows_def Let_def simp del: map_of_eq_Some_iff split: option.splits if_splits)

lemma detail_cache: "source_detail fr ctx audits occ raw r = (d, r') \<Longrightarrow> cache_grows r r'"
  by (auto simp: source_detail_def Let_def dest: describe_cache(1) split: prod.splits option.splits if_splits)

lemma map_state_cache:
  assumes "\<And>x s y s'. f x s = (y, s') \<Longrightarrow> cache_grows s s'"
  shows "map_state f xs r = (ys, r') \<Longrightarrow> cache_grows r r'"
proof (induction xs arbitrary: r ys r')
  case (Cons x xs)
  obtain y s1 where f: "f x r = (y, s1)" by force
  obtain zs s2 where m: "map_state f xs s1 = (zs, s2)" by force
  from Cons.prems f m have "r' = s2" by simp
  with cache_grows_trans [OF assms [OF f] Cons.IH [OF m]] show ?case by simp
qed simp

lemma map_states_cache:
  assumes "map_state (source_detail fr ctx audits occ) xs r = (ds, r1)" "map_state (describe_raw_source fr audits occ) xs r1 = (ss, r2)"
  shows "cache_grows r r2"
  by (rule cache_grows_trans [OF map_state_cache [OF _ assms(1)] map_state_cache [OF _ assms(2)]])
    (blast intro: detail_cache describe_cache(1))+

lemma decision_cache: "decision_for fr ctx audits snap slug r = (d, r') \<Longrightarrow> cache_grows r r'"
  by (auto simp: decision_for_def Let_def intro: map_states_cache split: prod.splits)

lemma startup_cache: "startup_decision fr ctx audits prior carry r = (d, r') \<Longrightarrow> cache_grows r r'"
  by (auto simp: startup_decision_def Let_def intro: map_states_cache split: prod.splits)

section \<open>Decisions\<close>

lemma evaluate_None:
  "evaluate_budget i = None \<longleftrightarrow> budget_verification_spend (accumulated_cost i) (prior_cost i) (accepted_unmeasured_ceiling_usd i) < budget_usd i
     \<and> unmeasured_spend i = []"
  by (auto simp: evaluate_budget_def Let_def budget_verification_spend_def)

text \<open>The sources a decision for a story leaves open, and the ceiling it charges.\<close>

definition open_sources :: "cost_snapshot \<Rightarrow> string option \<Rightarrow> budget_runtime \<Rightarrow> string list" where
  "open_sources snap slug r =
     filter (\<lambda>raw. \<not> resolves (br_accepted r) (cs_current_generation_unmeasured snap) (br_carried_ids r) raw
       \<and> (case slug of None \<Rightarrow> True | Some s \<Rightarrow> \<not> terminal_story_source_for_other_story raw s r)) (cs_unmeasured snap)"

definition charged_ceiling :: "cost_snapshot \<Rightarrow> budget_runtime \<Rightarrow> rat" where
  "charged_ceiling snap r = accepted_ceiling_total
     (snd (partition_sources (cs_unmeasured snap) (br_accepted r) (cs_current_generation_unmeasured snap) (br_carried_ids r)))"

lemma decision_None:
  "fst (decision_for fr ctx audits snap slug r) = None \<longleftrightarrow>
     budget_verification_spend (float_add (cs_accumulated snap) (cs_in_flight snap)) (cs_prior snap) (charged_ceiling snap r)
       < rx_budget_usd ctx \<and> open_sources snap slug r = []"
proof -
  obtain u a where p: "partition_sources (cs_unmeasured snap) (br_accepted r) (cs_current_generation_unmeasured snap) (br_carried_ids r) = (u, a)"
    by force
  from partition_result [OF p] have u: "u = filter (\<lambda>raw. \<not> resolves (br_accepted r) (cs_current_generation_unmeasured snap) (br_carried_ids r) raw)
      (cs_unmeasured snap)" by simp
  have "(case slug of None \<Rightarrow> u | Some s \<Rightarrow> filter (\<lambda>raw. \<not> terminal_story_source_for_other_story raw s r) u) = open_sources snap slug r"
    by (cases slug) (simp_all add: u open_sources_def conj_commute)
  then show ?thesis
    by (cases slug) (simp_all add: decision_for_def p charged_ceiling_def Let_def case_prod_beta evaluate_None)
qed

lemma decision_exhausted:
  assumes "decision_for fr ctx audits snap slug r = (Some d, r')"
  shows "bb_kind d = Exhausted \<longleftrightarrow> rx_budget_usd ctx \<le>
    budget_verification_spend (float_add (cs_accumulated snap) (cs_in_flight snap)) (cs_prior snap) (charged_ceiling snap r)"
proof -
  have ev: "evaluate_budget i = Some d \<Longrightarrow> bb_kind d = Exhausted \<longleftrightarrow>
      budget_usd i \<le> budget_verification_spend (accumulated_cost i) (prior_cost i) (accepted_unmeasured_ceiling_usd i)" for i
    by (auto simp: evaluate_budget_def Let_def budget_verification_spend_def split: if_splits)
  from assms show ?thesis
    by (auto simp: decision_for_def charged_ceiling_def Let_def dest!: ev split: prod.splits)
qed

section \<open>Halting\<close>

lemma cancel_parts:
  "br_cancelled (fold (cancel_worker reason) ps r) = fold set_add (map fst ps) (br_cancelled r)"
  "br_plan_gates (fold (cancel_worker reason) ps r) = br_plan_gates r"
  "br_stop (fold (cancel_worker reason) ps r) = br_stop r"
  "br_stop_events (fold (cancel_worker reason) ps r) = br_stop_events r"
  "br_cache (fold (cancel_worker reason) ps r) = br_cache r"
  by (induction ps arbitrary: r) (simp_all add: cancel_worker_def)

lemma event_stop_idem: "event_stop a b (event_stop a b e) = event_stop a b e"
  by (cases e) simp_all

lemma cancel_signals:
  "br_signals (fold (cancel_worker reason) ps r) x =
     (if x \<in> snd ` set ps then event_stop reason ''SprintBudgetExhausted'' (br_signals r x) else br_signals r x)"
  by (induction ps arbitrary: r) (auto simp: cancel_worker_def event_stop_idem)

lemma set_fold_set_add: "set (fold set_add xs s) = set xs \<union> set s"
  by (induction xs arbitrary: s) auto

lemma release_parts:
  "br_cancelled (fold release_gate ps r) = br_cancelled r"
  "br_signals (fold release_gate ps r) = br_signals r"
  "br_stop (fold release_gate ps r) = br_stop r"
  "br_stop_events (fold release_gate ps r) = br_stop_events r"
  "br_cache (fold release_gate ps r) = br_cache r"
  "br_plan_gates (fold release_gate ps r) = fold (\<lambda>(k, v). dict_set k True) ps (br_plan_gates r)"
  by (induction ps arbitrary: r) (simp_all add: release_gate_def case_prod_beta)

lemma released_all:
  assumes "dict_wf d" "dict_get d g = Some b"
  shows "dict_get (fold (\<lambda>(k, v). dict_set k True) d d) g = Some True"
proof -
  have f: "dict_get (fold (\<lambda>(k, v). dict_set k True) ps e) g = (if g \<in> fst ` set ps then Some True else dict_get e g)" for ps e
    by (induction ps arbitrary: e) (auto split: prod.splits)
  from assms(2) have "g \<in> fst ` set d" by (force dest: map_of_SomeD)
  then show ?thesis unfolding f by simp
qed

lemma notify_parts [simp]:
  "br_stop (notify ctx d t r) = br_stop r" "br_signals (notify ctx d t r) = br_signals r"
  "br_cancelled (notify ctx d t r) = br_cancelled r" "br_plan_gates (notify ctx d t r) = br_plan_gates r"
  "br_cache (notify ctx d t r) = br_cache r" "br_dag (notify ctx d t r) = br_dag r"
  "br_writer (notify ctx d t r) = br_writer r" "br_stories (notify ctx d t r) = br_stories r"
  "br_stop_events (notify ctx d t r) = br_stop_events r"
  by (simp_all add: notify_def)

lemma halt_stopped: "br_stop r \<noteq> None \<Longrightarrow> halt ctx re rg slug d r = r"
  by (simp add: halt_def stop_if_unset_def)

lemma halt_stop: "br_stop r = None \<Longrightarrow> br_stop (halt ctx re rg slug d r) = Some \<lparr>ss_reason = stopped_reason d, ss_halt_slug = Some slug\<rparr>"
  by (simp add: halt_def stop_if_unset_def Let_def cancel_parts release_parts)

lemma halt_cache: "br_cache (halt ctx re rg slug d r) = br_cache r"
  by (simp add: halt_def stop_if_unset_def Let_def cancel_parts release_parts)

section \<open>Skipping\<close>

lemma register_get:
  "\<exists>e. dict_get (register slug p a st) slug = Some e"
  "s \<noteq> slug \<Longrightarrow> dict_get (register slug p a st) s = dict_get st s"
  by (simp_all add: register_def Let_def)

lemma run_stories_set [simp]: "run_stories (set_run_stories st r) = st"
  by (simp add: run_stories_def set_run_stories_def split: option.split)

lemma set_run_stories_parts [simp]:
  "br_dag (set_run_stories st r) = br_dag r" "br_stop (set_run_stories st r) = br_stop r" "br_cache (set_run_stories st r) = br_cache r"
  by (simp_all add: set_run_stories_def split: option.split)

lemma ensure_registered_stories:
  "\<exists>e. dict_get (run_stories (ensure_registered ctx slug r)) slug = Some e"
  "s \<noteq> slug \<Longrightarrow> dict_get (run_stories (ensure_registered ctx slug r)) s = dict_get (run_stories r) s"
  using register_get
  by (auto simp: ensure_registered_def simp del: map_of_eq_Some_iff split: option.split)

lemma ensure_registered_parts [simp]:
  "br_dag (ensure_registered ctx slug r) = br_dag r" "br_stop (ensure_registered ctx slug r) = br_stop r"
  "br_cache (ensure_registered ctx slug r) = br_cache r"
  by (simp_all add: ensure_registered_def split: option.split)

text \<open>An update with a status of a story the writer knows is a transition of its story state.\<close>

lemma writer_update_stories:
  "arg_truthy a \<Longrightarrow> dict_get (sw_story_state w) slug \<noteq> None \<Longrightarrow>
    sw_story_state (snd (writer_update fr ok slug (Some a) None kvs w)) = transition slug (Some a) kvs (sw_story_state w)"
  by (auto simp: writer_update_def Let_def)

lemma set_outcome_stories:
  "run_stories (set_outcome fr ctx ok now slug x reason r) =
     transition slug (Some (OutcomeEnum x)) ([(''reason'', PStr reason)] @ (if is_terminal x then [(''finished_at'', PStr now)] else []))
       (run_stories (ensure_registered ctx slug r))"
proof -
  obtain e where e: "dict_get (run_stories (ensure_registered ctx slug r)) slug = Some e" using ensure_registered_stories(1) by blast
  show ?thesis
  proof (cases "br_writer (ensure_registered ctx slug r)")
    case None
    then show ?thesis by (simp add: set_outcome_def run_stories_def Let_def)
  next
    case (Some w)
    with e have "dict_get (sw_story_state w) slug \<noteq> None" by (simp add: run_stories_def)
    with Some show ?thesis by (simp add: set_outcome_def run_stories_def writer_update_stories Let_def)
  qed
qed

lemma set_outcome_parts [simp]:
  "br_dag (set_outcome fr ctx ok now slug x reason r) = br_dag r" "br_stop (set_outcome fr ctx ok now slug x reason r) = br_stop r"
  "br_cache (set_outcome fr ctx ok now slug x reason r) = br_cache r"
  by (simp_all add: set_outcome_def Let_def split: option.split)

lemma record_entry_parts [simp]:
  "br_dag (record_story_entry ctx slug x err r) = br_dag r" "br_stop (record_story_entry ctx slug x err r) = br_stop r"
  "br_cache (record_story_entry ctx slug x err r) = br_cache r" "br_writer (record_story_entry ctx slug x err r) = br_writer r"
  "br_stories (record_story_entry ctx slug x err r) = br_stories r"
  by (simp_all add: record_story_entry_def)

text \<open>A story the cap refused: skipped, unless it had already landed.\<close>

definition refused :: "story_entry \<Rightarrow> bool" where
  "refused e \<longleftrightarrow> se_outcome e = SKIPPED \<or> py_truthy (py_get (se_extras e) ''landed'')"

lemma skip_transition_refused:
  assumes "coerce_outcome x = SKIPPED" "set kvs \<subseteq> {(''reason'', PStr a), (''finished_at'', PStr b)}"
  shows "refused (transition_entry (Some x) kvs e)"
proof (cases "snd (guarded_outcome e SKIPPED)")
  case True
  then have "transition_entry (Some x) kvs e = e\<lparr>se_outcome := fst (guarded_outcome e SKIPPED)\<rparr>"
    by (simp add: transition_entry_def assms(1) Let_def case_prod_beta)
  with True show ?thesis
    by (auto simp: refused_def guarded_outcome_def is_terminal_def terminal_outcomes_def split: if_splits)
next
  case False
  then have "fst (guarded_outcome e SKIPPED) = SKIPPED" by (auto simp: guarded_outcome_def split: if_splits)
  then show ?thesis by (simp add: refused_def transition_entry_outcome assms(1))
qed

lemma skip_story_stories:
  fixes fr ctx ok now d slug r
  defines "st1 \<equiv> transition slug (Some (OutcomeEnum SKIPPED))
      ([(''reason'', PStr (story_reason d))] @ (if is_terminal SKIPPED then [(''finished_at'', PStr now)] else []))
      (run_stories (ensure_registered ctx slug (r\<lparr>br_dag := mark_skipped slug (br_dag r)\<rparr>)))"
  shows "run_stories (skip_story fr ctx ok now d slug r) \<in> {st1, transition slug (Some (OutcomeValue (PStr ''skipped''))) [] st1}"
proof -
  let ?r2 = "set_outcome fr ctx ok now slug SKIPPED (story_reason d) (r\<lparr>br_dag := mark_skipped slug (br_dag r)\<rparr>)"
  have s2: "run_stories ?r2 = st1" unfolding st1_def by (rule set_outcome_stories)
  obtain e where "dict_get st1 slug = Some e"
    using ensure_registered_stories(1) [of ctx slug "r\<lparr>br_dag := mark_skipped slug (br_dag r)\<rparr>"]
    by (auto simp: st1_def transition_get simp del: map_of_eq_Some_iff)
  then have known: "br_writer ?r2 = Some w \<Longrightarrow> dict_get (sw_story_state w) slug \<noteq> None" for w
    using s2 by (simp add: run_stories_def)
  show ?thesis
  proof (cases "br_writer ?r2")
    case None
    with s2 show ?thesis
      by (simp add: skip_story_def Let_def run_stories_def case_prod_beta stop_if_unset_def split: option.split)
  next
    case (Some w)
    from known [OF Some] writer_update_stories [of "OutcomeValue (PStr ''skipped'')" w slug fr ok "[]"] s2 Some show ?thesis
      by (simp add: skip_story_def Let_def run_stories_def stop_if_unset_def split: option.split)
  qed
qed

lemma skip_story_other:
  assumes "s \<noteq> slug"
  shows "dict_get (run_stories (skip_story fr ctx ok now d slug r)) s = dict_get (run_stories r) s"
proof -
  have "dict_get (run_stories (ensure_registered ctx slug (r\<lparr>br_dag := g\<rparr>))) s = dict_get (run_stories r) s" for g
    using ensure_registered_stories(2) [OF assms, of ctx "r\<lparr>br_dag := g\<rparr>"] by (simp add: run_stories_def cong: option.case_cong)
  with skip_story_stories [of fr ctx ok now d slug r] assms show ?thesis
    by (auto simp: transition_get)
qed

lemma skip_story_refuses: "\<exists>e. dict_get (run_stories (skip_story fr ctx ok now d slug r)) slug = Some e \<and> refused e"
proof -
  let ?r = "ensure_registered ctx slug (r\<lparr>br_dag := mark_skipped slug (br_dag r)\<rparr>)"
  let ?kvs = "[(''reason'', PStr (story_reason d))] @ (if is_terminal SKIPPED then [(''finished_at'', PStr now)] else [])"
  have k: "set ?kvs \<subseteq> {(''reason'', PStr (story_reason d)), (''finished_at'', PStr now)}" by auto
  have x: "coerce_outcome (OutcomeEnum SKIPPED) = SKIPPED" by (simp add: coerce_outcome_def)
  have y: "coerce_outcome (OutcomeValue (PStr ''skipped'')) = SKIPPED"
    using status_outcome_value [of SKIPPED] by (simp add: coerce_outcome_def)
  obtain e where e: "dict_get (run_stories ?r) slug = Some e" using ensure_registered_stories(1) by blast
  let ?e1 = "transition_entry (Some (OutcomeEnum SKIPPED)) ?kvs e"
  have one: "refused ?e1" by (rule skip_transition_refused [OF x k])
  have two: "refused (transition_entry (Some (OutcomeValue (PStr ''skipped''))) [] ?e1)"
    by (rule skip_transition_refused [OF y]) simp
  from skip_story_stories [of fr ctx ok now d slug r] show ?thesis
    by (rule insertE) (use e one two in \<open>auto simp: transition_get simp del: map_of_eq_Some_iff\<close>)
qed

lemma skip_story_parts [simp]:
  "br_dag (skip_story fr ctx ok now d slug r) = mark_skipped slug (br_dag r)"
  "br_cache (skip_story fr ctx ok now d slug r) = br_cache r"
  "br_stop (skip_story fr ctx ok now d slug r) =
     (case br_stop r of Some s \<Rightarrow> Some s | None \<Rightarrow> Some \<lparr>ss_reason = stopped_reason d, ss_halt_slug = None\<rparr>)"
  by (simp_all add: skip_story_def Let_def stop_if_unset_def split: option.split)

interpretation skipping: settling_machine "skip_story fr ctx ok now d" "\<lambda>_. True" "\<lambda>_. True"
    "\<lambda>r. \<exists>e. dict_get (run_stories r) slug = Some e \<and> refused e" for fr ctx ok now d slug
proof (unfold_locales, goal_cases)
  case (2 r x)
  then show ?case using skip_story_other [of slug x] skip_story_refuses [of fr ctx ok now d slug r]
    by (cases "x = slug") auto
qed simp

lemma skips_refuse:
  "slug \<in> set slugs \<Longrightarrow> \<exists>e. dict_get (run_stories (fold (skip_story fr ctx ok now d) slugs r)) slug = Some e \<and> refused e"
proof (induction slugs arbitrary: r)
  case (Cons x slugs)
  show ?case
  proof (cases "x = slug")
    case True
    have "\<exists>e. dict_get (run_stories (fold (skip_story fr ctx ok now d) slugs (skip_story fr ctx ok now d slug r))) slug = Some e \<and> refused e"
      by (rule skipping.settled_run) (use skip_story_refuses in auto)
    with True show ?thesis by simp
  qed (use Cons in simp)
qed simp

lemma skips_dag:
  "dag_tasks (br_dag (fold (skip_story fr ctx ok now d) slugs r)) = dag_tasks (br_dag r)"
  "dag_finished (br_dag (fold (skip_story fr ctx ok now d) slugs r)) = dag_finished (br_dag r) \<union> set slugs"
  by (induction slugs arbitrary: r) (simp_all add: mark_skipped_def)

lemma skips_stopped: "br_stop r = Some s \<Longrightarrow> br_stop (fold (skip_story fr ctx ok now d) slugs r) = Some s"
  by (induction slugs arbitrary: r) simp_all

lemma skips_stop:
  "br_stop r = None \<Longrightarrow> br_stop (fold (skip_story fr ctx ok now d) slugs r) =
     (if slugs = [] then None else Some \<lparr>ss_reason = stopped_reason d, ss_halt_slug = None\<rparr>)"
  by (cases slugs) (simp_all add: skips_stopped)

lemma skips_cache: "br_cache (fold (skip_story fr ctx ok now d) slugs r) = br_cache r"
  by (induction slugs arbitrary: r) simp_all

section \<open>Any sequence of calls\<close>

text \<open>
  A call on the runtime, with whatever surroundings, or a step of the rest of the sprint, which moves the
  ledger, the stories, the scheduler and the workers but neither the cache nor, once set, the stop.
\<close>

inductive runtime_step :: "run_context \<Rightarrow> budget_runtime \<Rightarrow> budget_runtime \<Rightarrow> bool" for ctx where
  call_accept: "runtime_step ctx r (load_operator_acceptances fr pf ctx audits persisted prior now ok r)"
| call_pin: "runtime_step ctx r (pin_carried_occurrences fr audits r)"
| call_startup: "runtime_step ctx r (snd (evaluate_startup_headroom fr pf ctx w r))"
| call_decide: "runtime_step ctx r (snd (decision_before_dispatch fr ctx audits slug r))"
| call_checkpoint: "runtime_step ctx r (checkpoint fr ctx audits ok re rg slug ob r)"
| call_halt: "runtime_step ctx r (halt ctx re rg slug d r)"
| call_skip: "runtime_step ctx r (skip_story fr ctx ok now d slug r)"
| call_skip_remaining: "runtime_step ctx r (skip_remaining_stories fr ctx ok now d r)"
| rest_of_sprint: "br_cache r' = br_cache r \<Longrightarrow> br_stop r \<noteq> None \<longrightarrow> br_stop r' = br_stop r \<Longrightarrow> runtime_step ctx r r'"

definition keeps :: "budget_runtime \<Rightarrow> budget_runtime \<Rightarrow> bool" where
  "keeps r r' \<longleftrightarrow> (\<forall>k v. dict_get (br_cache r) k = Some v \<longrightarrow> dict_get (br_cache r') k = Some v)
     \<and> (\<forall>s. br_stop r = Some s \<longrightarrow> br_stop r' = Some s)"

lemma keeps_refl [simp]: "keeps r r"
  by (simp add: keeps_def)

lemma keeps_trans: "keeps r r' \<Longrightarrow> keeps r' r'' \<Longrightarrow> keeps r r''"
  by (simp add: keeps_def)

lemma cache_grows_keeps: "cache_grows r r' \<Longrightarrow> keeps r r'"
  using cache_grows_parts(2) [of r r'] by (simp add: keeps_def cache_grows_def del: map_of_eq_Some_iff)

lemma keeps_same: "br_cache r' = br_cache r \<Longrightarrow> br_stop r' = br_stop r \<Longrightarrow> keeps r r'"
  by (simp add: keeps_def)

lemma fold_keeps: "(\<And>x s. keeps (g s) (g (f x s))) \<Longrightarrow> keeps (g s) (g (fold f xs s))"
proof (induction xs arbitrary: s)
  case (Cons x xs)
  from keeps_trans [OF Cons.prems Cons.IH [OF Cons.prems]] show ?case by simp
qed simp

lemma accept_step_keeps: "keeps (snd acc) (snd (accept_step fr ctx audits known now raw acc))"
proof -
  obtain src r1 where d: "describe_raw_source fr audits (Some Carried) raw (snd acc) = (src, r1)" by force
  have "keeps (snd acc) r1" by (rule cache_grows_keeps [OF describe_cache(1) [OF d]])
  moreover have "keeps r1 (r1\<lparr>br_accepted := a\<rparr>)" for a by (rule keeps_same) simp_all
  ultimately show ?thesis by (auto simp: accept_step_def d Let_def intro: keeps_trans split: option.split)
qed

lemma pin_step_keeps: "keeps r (pin_step fr audits fresh raw r)"
proof -
  obtain src r1 where d: "describe_raw_source fr audits (Some Carried) raw r = (src, r1)" by force
  have "keeps r r1" by (rule cache_grows_keeps [OF describe_cache(1) [OF d]])
  moreover have "keeps r1 (r1\<lparr>br_carried_ids := a\<rparr>)" for a by (rule keeps_same) simp_all
  ultimately show ?thesis by (auto simp: pin_step_def d intro: keeps_trans)
qed

lemma accept_keeps: "keeps r (load_operator_acceptances fr pf ctx audits persisted prior now ok r)"
proof -
  let ?r0 = "restore_acceptances fr pf ctx persisted r"
  let ?known = "map normalize_source_id (cl_unmeasured (br_cost ?r0)) @ map normalize_source_id prior"
  obtain b r1 where f: "fold (accept_step fr ctx audits ?known now) (rx_accept ctx) (False, ?r0) = (b, r1)" by force
  have "keeps r ?r0" by (rule keeps_same) (simp_all add: restore_acceptances_def)
  moreover have "keeps ?r0 r1"
    using fold_keeps [of snd "accept_step fr ctx audits ?known now" "(False, ?r0)" "rx_accept ctx"] accept_step_keeps f by simp
  moreover have "keeps r1 (r1\<lparr>br_persisted := p\<rparr>)" for p by (rule keeps_same) simp_all
  ultimately show ?thesis
    by (auto simp: load_operator_acceptances_def Let_def f intro: keeps_trans)
qed

lemma halt_keeps: "keeps r (halt ctx re rg slug d r)"
  using halt_stopped [of r ctx re rg slug d] by (auto simp: keeps_def halt_cache)

lemma publish_parts [simp]:
  "br_cache (publish_live_status ctx ok x r) = br_cache r" "br_stop (publish_live_status ctx ok x r) = br_stop r"
  by (simp_all add: publish_live_status_def split: option.split)

lemma checkpoint_keeps: "keeps r (checkpoint fr ctx audits ok re rg slug ob r)"
proof -
  obtain snap cost where c: "checkpoint_in_flight_cost slug (map_option ob_amount ob)
      (case ob of None \<Rightarrow> True | Some ob \<Rightarrow> ob_measured ob) (br_cost r) = (snap, cost)" by force
  let ?r1 = "publish_live_status ctx ok (spent_including_in_flight snap) (r\<lparr>br_cost := cost\<rparr>)"
  obtain d r2 where d: "decision_for fr ctx audits snap None ?r1 = (d, r2)" by force
  have k1: "keeps r ?r1" by (rule keeps_same) simp_all
  have k2: "keeps ?r1 r2" by (rule cache_grows_keeps [OF decision_cache [OF d]])
  show ?thesis
    using k1 keeps_trans [OF k1 k2] keeps_trans [OF keeps_trans [OF k1 k2] halt_keeps]
    by (auto simp: checkpoint_def c d Let_def split: option.split)
qed

lemma runtime_step_keeps: "runtime_step ctx r r' \<Longrightarrow> keeps r r'"
proof (induction rule: runtime_step.induct)
  case (call_pin r fr audits)
  show ?case unfolding pin_carried_occurrences_def by (rule fold_keeps [where g = id, simplified]) (rule pin_step_keeps)
next
  case (call_startup r fr pf w)
  show ?case unfolding evaluate_startup_headroom_def Let_def
    by (rule if_intro) (simp, metis cache_grows_keeps startup_cache prod.collapse)
next
  case (call_decide r fr audits slug)
  show ?case unfolding decision_before_dispatch_def by (metis cache_grows_keeps decision_cache prod.collapse)
next
  case (call_skip_remaining r fr ok now d)
  show ?case unfolding skip_remaining_stories_def keeps_def skips_cache by (simp add: skips_stopped)
next
  case (call_skip r fr ok now d slug)
  show ?case by (simp add: keeps_def)
next
  case (rest_of_sprint r' r)
  then show ?case by (simp add: keeps_def)
qed (rule accept_keeps checkpoint_keeps halt_keeps)+

lemma run_keeps: "(runtime_step ctx)\<^sup>*\<^sup>* r r' \<Longrightarrow> keeps r r'"
  by (induction rule: rtranclp_induct) (auto intro: keeps_trans runtime_step_keeps)

section \<open>Properties\<close>

text \<open>A run of one story with a cap of ten dollars, in which another story ended with unmeasured work.\<close>

definition sample_context :: run_context where
  "sample_context = \<lparr>rx_sprint_name = ''s'', rx_sprint_id = Some ''id'', rx_budget_usd = 10, rx_accept = [],
     rx_accept_reason = None, rx_notify = False, rx_contexts = []\<rparr>"

definition sample_runtime :: budget_runtime where
  "sample_runtime = \<lparr>br_cost = flag_unmeasured_here ''dropped-with-work:issue-2'' (new_ledger 0 0), br_stop = None,
     br_stop_events = [(''issue-1'', 0)], br_signals = (\<lambda>_. new_stop_signal), br_plan_gates = [(''issue-1'', False)],
     br_cancelled = [], br_dag = new_story_dag [\<lparr>ts_name = ''t'', ts_slug = ''issue-1'', ts_story_text = None,
       ts_depends_on = [], ts_collision_deps = [], ts_github_issue = None\<rparr>] {},
     br_stories = [(''issue-2'', new_entry ''issue-2'' (PStr ''u'') FAILED)], br_writer = None, br_entries = [],
     br_notifications = [], br_accepted = [], br_cache = [], br_carried_ids = [], br_persisted = None\<rparr>"

lemma sample_attribution: "attributed_story_slug ''dropped-with-work:issue-2'' = Some ''issue-2''"
  by code_simp

lemma sample_open: "open_sources (snapshot (br_cost sample_runtime)) (Some ''issue-1'') sample_runtime = []"
proof -
  have "terminal_story_source_for_other_story ''dropped-with-work:issue-2'' ''issue-1'' sample_runtime"
    by (simp add: terminal_story_source_for_other_story_def sample_attribution run_stories_def sample_runtime_def
        new_entry_def is_terminal_def terminal_outcomes_def)
  moreover have "cs_unmeasured (snapshot (br_cost sample_runtime)) = [''dropped-with-work:issue-2'']"
    by (simp add: snapshot_def sample_runtime_def flag_unmeasured_here_def new_ledger_def set_add_def)
  ultimately show ?thesis by (simp add: open_sources_def)
qed

lemma sample_spend:
  "budget_verification_spend (float_add (cs_accumulated (snapshot (br_cost sample_runtime))) (cs_in_flight (snapshot (br_cost sample_runtime))))
     (cs_prior (snapshot (br_cost sample_runtime))) (charged_ceiling (snapshot (br_cost sample_runtime)) sample_runtime) = 0"
proof -
  have "charged_ceiling (snapshot (br_cost sample_runtime)) sample_runtime = 0"
    by (simp add: charged_ceiling_def snapshot_def sample_runtime_def flag_unmeasured_here_def new_ledger_def set_add_def
        partition_sources_def partition_step_def accepted_ceiling_total_def)
  then show ?thesis
    by (simp add: snapshot_def sample_runtime_def flag_unmeasured_here_def new_ledger_def budget_verification_spend_def float_add_def)
qed

text \<open>C19. The dispatch gate lets a story start only when the cap is known to hold: a permission for a story means
  that measured spend, that of running stories included, with what was carried and every accepted
  ceiling stays below the cap, and that every unmeasured source of the run was accepted for its
  occurrence or belongs only to another story that is already terminal.\<close>

theorem dispatch_permission_covered:
  assumes "decision_before_dispatch fr ctx audits (Some slug) r = (None, r')"
  shows "budget_verification_spend (float_add (cl_accumulated (br_cost r)) (cs_in_flight (snapshot (br_cost r))))
      (cl_prior (br_cost r)) (charged_ceiling (snapshot (br_cost r)) r) < rx_budget_usd ctx
    \<and> (\<forall>raw \<in> set (cl_unmeasured (br_cost r)).
         resolves (br_accepted r) (cl_current_generation (br_cost r)) (br_carried_ids r) raw
         \<or> terminal_story_source_for_other_story raw slug r)"
proof -
  from assms have "fst (decision_for fr ctx audits (snapshot (br_cost r)) (Some slug) r) = None"
    by (simp add: decision_before_dispatch_def)
  then show ?thesis
    unfolding decision_None by (auto simp: snapshot_def open_sources_def filter_empty_conv)
qed

theorem dispatch_permission_covered_witness:
  "\<exists>r'. decision_before_dispatch (\<lambda>_. []) sample_context (\<lambda>_. PNone) (Some ''issue-1'') sample_runtime = (None, r')
    \<and> terminal_story_source_for_other_story ''dropped-with-work:issue-2'' ''issue-1'' sample_runtime"
proof -
  have "fst (decision_for (\<lambda>_. []) sample_context (\<lambda>_. PNone) (snapshot (br_cost sample_runtime)) (Some ''issue-1'') sample_runtime) = None"
    unfolding decision_None by (simp add: sample_open sample_spend sample_context_def)
  then obtain r' where r': "decision_before_dispatch (\<lambda>_. []) sample_context (\<lambda>_. PNone) (Some ''issue-1'') sample_runtime = (None, r')"
    unfolding decision_before_dispatch_def by (metis prod.collapse)
  have "''dropped-with-work:issue-2'' \<in> set (cl_unmeasured (br_cost sample_runtime))"
    "\<not> resolves (br_accepted sample_runtime) (cl_current_generation (br_cost sample_runtime)) (br_carried_ids sample_runtime) ''dropped-with-work:issue-2''"
    by (simp_all add: sample_runtime_def flag_unmeasured_here_def new_ledger_def resolves_def)
  with dispatch_permission_covered [OF r'] r' show ?thesis by blast
qed

lemma copy_unraced: "False \<in> set (take 3 bs) \<Longrightarrow> copy_worker_signals bs m = m"
proof -
  assume f: "False \<in> set (take 3 bs)"
  have "length (takeWhile id (take 3 bs)) \<noteq> 3"
  proof
    assume "length (takeWhile id (take 3 bs)) = 3"
    then have "takeWhile id (take 3 bs) = take 3 bs"
      by (metis takeWhile_eq_take take_take length_take min.cobounded1 min_absorb2 order_antisym)
    then have "\<forall>x \<in> set (take 3 bs). id x" by (simp add: takeWhile_eq_all_conv)
    with f show False by (metis id_apply)
  qed
  then show ?thesis by (simp add: copy_worker_signals_def)
qed

lemma halt_cancels:
  assumes "br_stop r = None" "False \<in> set (take 3 re)" "dict_get (br_stop_events r) s = Some a"
  shows "s \<in> set (br_cancelled (halt ctx re rg slug d r)) \<and> event_set (br_signals (halt ctx re rg slug d r) a)"
proof -
  have "(s, a) \<in> set (br_stop_events r)" using assms(3) by (rule map_of_SomeD)
  moreover have "event_set (event_stop x y e)" for x y e by (cases e) simp_all
  ultimately show ?thesis using assms(1)
    by (force simp: halt_def stop_if_unset_def Let_def copy_unraced [OF assms(2)] cancel_parts release_parts cancel_signals set_fold_set_add)
qed

lemma halt_releases:
  assumes "br_stop r = None" "dict_wf (br_plan_gates r)" "False \<in> set (take 3 rg)" "dict_get (br_plan_gates r) g = Some b"
  shows "dict_get (br_plan_gates (halt ctx re rg slug d r)) g = Some True"
proof -
  have "br_plan_gates (halt ctx re rg slug d r) = fold (\<lambda>(k, v). dict_set k True) (br_plan_gates r) (br_plan_gates r)"
    using assms(1) by (simp add: halt_def stop_if_unset_def Let_def copy_unraced [OF assms(3)] cancel_parts release_parts)
  with released_all [OF assms(2,4)] show ?thesis by simp
qed

lemma checkpoint_is_halt:
  fixes slug ob r
  defines "snap \<equiv> fst (checkpoint_in_flight_cost slug (map_option ob_amount ob) (case ob of None \<Rightarrow> True | Some x \<Rightarrow> ob_measured x) (br_cost r))"
  assumes "0 < rx_budget_usd ctx" "br_stop r = None"
    and "rx_budget_usd ctx \<le> budget_verification_spend (float_add (cs_accumulated snap) (cs_in_flight snap)) (cs_prior snap) (charged_ceiling snap r)"
  shows "\<exists>dec r2. checkpoint fr ctx audits ok re rg slug ob r = halt ctx re rg slug dec r2 \<and> br_stop r2 = br_stop r
    \<and> br_stop_events r2 = br_stop_events r \<and> br_plan_gates r2 = br_plan_gates r"
proof -
  obtain cost where c: "checkpoint_in_flight_cost slug (map_option ob_amount ob)
      (case ob of None \<Rightarrow> True | Some ob \<Rightarrow> ob_measured ob) (br_cost r) = (snap, cost)"
    unfolding snap_def by (metis prod.collapse)
  let ?r1 = "publish_live_status ctx ok (spent_including_in_flight snap) (r\<lparr>br_cost := cost\<rparr>)"
  obtain dd r2 where d: "decision_for fr ctx audits snap None ?r1 = (dd, r2)" by force
  have p: "br_accepted ?r1 = br_accepted r" "br_carried_ids ?r1 = br_carried_ids r" "br_stop_events ?r1 = br_stop_events r"
    "br_plan_gates ?r1 = br_plan_gates r" "br_stop ?r1 = br_stop r"
    by (simp_all add: publish_live_status_def split: option.split)
  have ce: "charged_ceiling snap ?r1 = charged_ceiling snap r" by (simp add: charged_ceiling_def p)
  have "fst (decision_for fr ctx audits snap None ?r1) \<noteq> None" unfolding decision_None ce using assms(4) by linarith
  then obtain dec where dec: "dd = Some dec" using d by auto
  have "bb_kind dec = Exhausted" using decision_exhausted [OF d [unfolded dec]] ce assms(4) by simp
  then have "checkpoint fr ctx audits ok re rg slug ob r = halt ctx re rg slug dec r2"
    unfolding checkpoint_def using assms(2,3) c d dec p(5) by (simp add: Let_def)
  with cache_grows_parts [OF decision_cache [OF d]] p show ?thesis by metis
qed

text \<open>C20. Reaching the cap while stories run stops them all, once: a checkpoint whose charge meets the cap in a
  sprint that has not stopped records the stop with its story, marks every story with a signal as
  cancelled by the budget, sets each such signal, shared or not, and releases every plan gate, when
  the copies of the two maps are not lost to a race.\<close>

theorem checkpoint_halts_everything:
  fixes fr ctx audits ok re rg slug ob r
  defines "r' \<equiv> checkpoint fr ctx audits ok re rg slug ob r"
  defines "snap \<equiv> fst (checkpoint_in_flight_cost slug (map_option ob_amount ob) (case ob of None \<Rightarrow> True | Some x \<Rightarrow> ob_measured x) (br_cost r))"
  assumes "0 < rx_budget_usd ctx" "br_stop r = None" "dict_wf (br_plan_gates r)" "False \<in> set (take 3 re)" "False \<in> set (take 3 rg)"
    and "rx_budget_usd ctx \<le> budget_verification_spend (float_add (cs_accumulated snap) (cs_in_flight snap)) (cs_prior snap) (charged_ceiling snap r)"
  shows "(\<exists>reason. br_stop r' = Some \<lparr>ss_reason = reason, ss_halt_slug = Some slug\<rparr>)
    \<and> (\<forall>s a. dict_get (br_stop_events r) s = Some a \<longrightarrow> s \<in> set (br_cancelled r') \<and> event_set (br_signals r' a))
    \<and> (\<forall>g b. dict_get (br_plan_gates r) g = Some b \<longrightarrow> dict_get (br_plan_gates r') g = Some True)"
proof -
  obtain dec r2 where h: "r' = halt ctx re rg slug dec r2" "br_stop r2 = br_stop r"
    "br_stop_events r2 = br_stop_events r" "br_plan_gates r2 = br_plan_gates r"
    using checkpoint_is_halt [OF assms(3,4), of slug ob] assms(8) unfolding r'_def snap_def by blast
  have s2: "br_stop r2 = None" using h(2) assms(4) by simp
  have w2: "dict_wf (br_plan_gates r2)" using h(4) assms(5) by simp
  show ?thesis
    unfolding h(1) using halt_stop [OF s2, of ctx re rg slug dec] halt_cancels [OF s2 assms(6), of _ _ ctx rg slug dec]
      halt_releases [OF s2 w2 assms(7), of _ _ ctx re slug dec] h(3,4) by (metis (no_types))
qed

theorem checkpoint_halts_everything_witness:
  "\<exists>r'. br_stop r' \<noteq> None \<and> ''issue-1'' \<in> set (br_cancelled r') \<and> dict_get (br_plan_gates r') ''issue-1'' = Some True
    \<and> r' = checkpoint (\<lambda>_. []) sample_context (\<lambda>_. PNone) True [False] [False] ''issue-1'' (Some \<lparr>ob_amount = 16, ob_measured = True\<rparr>) sample_runtime"
proof -
  let ?ob = "Some \<lparr>ob_amount = 16, ob_measured = True\<rparr>"
  let ?snap = "fst (checkpoint_in_flight_cost ''issue-1'' (map_option ob_amount ?ob) (case ?ob of None \<Rightarrow> True | Some x \<Rightarrow> ob_measured x) (br_cost sample_runtime))"
  have a: "cs_accumulated ?snap = 0" "cs_in_flight ?snap = 16" "cs_prior ?snap = 0"
    by (simp_all add: checkpoint_in_flight_cost_def snapshot_def sample_runtime_def flag_unmeasured_here_def new_ledger_def)
  have "16 = budget_verification_spend 16 0 0"
    using fl_of_int [of 16] by (simp add: budget_verification_spend_def float_add_def py_round_def)
  also have "\<dots> \<le> budget_verification_spend 16 0 (max 0 (charged_ceiling ?snap sample_runtime))"
    by (rule verification_mono) simp_all
  also have "\<dots> = budget_verification_spend (float_add (cs_accumulated ?snap) (cs_in_flight ?snap)) (cs_prior ?snap) (charged_ceiling ?snap sample_runtime)"
    using fl_of_int [of 16] unfolding a by (simp add: budget_verification_spend_def float_add_def)
  finally have le: "rx_budget_usd sample_context \<le> budget_verification_spend (float_add (cs_accumulated ?snap) (cs_in_flight ?snap))
      (cs_prior ?snap) (charged_ceiling ?snap sample_runtime)" by (simp add: sample_context_def)
  have h: "0 < rx_budget_usd sample_context" "br_stop sample_runtime = None" "dict_wf (br_plan_gates sample_runtime)"
    "False \<in> set (take 3 [False])" "dict_get (br_stop_events sample_runtime) ''issue-1'' = Some 0"
    "dict_get (br_plan_gates sample_runtime) ''issue-1'' = Some False"
    by (simp_all add: sample_context_def sample_runtime_def)
  from checkpoint_halts_everything [OF h(1-4) h(4) le, of "\<lambda>_. []" "\<lambda>_. PNone" True] h(5,6) show ?thesis by (metis option.distinct(1))
qed

text \<open>A refusal for the whole run leaves nothing to schedule: after it the scheduler has no remaining and no
  ready story, the sprint is stopped if it was not, and every story that was left is recorded as
  skipped, unless its work had already landed; no dependent is left to fail later.\<close>

theorem refusal_skips_everything:
  fixes fr ctx ok now d r
  defines "r' \<equiv> skip_remaining_stories fr ctx ok now d r"
  assumes "dag_ok (br_dag r)"
  shows "dag_remaining (br_dag r') = [] \<and> dag_ready (br_dag r') = []
    \<and> (dag_remaining (br_dag r) \<noteq> [] \<longrightarrow> br_stop r' \<noteq> None)
    \<and> (\<forall>t \<in> set (dag_remaining (br_dag r)). \<exists>e. dict_get (run_stories r') (ts_slug t) = Some e
         \<and> (se_outcome e = SKIPPED \<or> py_truthy (py_get (se_extras e) ''landed'')))"
proof -
  have fin: "dag_finished (br_dag r') = dag_finished (br_dag r) \<union> ts_slug ` set (dag_remaining (br_dag r))"
    and tasks: "dag_tasks (br_dag r') = dag_tasks (br_dag r)"
    by (simp_all add: r'_def skip_remaining_stories_def skips_dag)
  have "s \<in> dag_finished (br_dag r')" if "(s, t) \<in> set (dag_tasks (br_dag r))" for s t
  proof -
    have "ts_slug t = s" using assms(2) that by (auto simp: dag_ok_def)
    with that fin remaining_iff [OF assms(2), of t] show ?thesis by auto
  qed
  then have "dag_remaining (br_dag r') = []" "dag_ready (br_dag r') = []"
    by (auto simp: dag_remaining_def dag_ready_def tasks filter_empty_conv)
  moreover have "dag_remaining (br_dag r) \<noteq> [] \<longrightarrow> br_stop r' \<noteq> None"
    unfolding r'_def skip_remaining_stories_def
    by (cases "br_stop r") (simp_all add: skips_stop skips_stopped)
  moreover have "\<exists>e. dict_get (run_stories r') (ts_slug t) = Some e \<and> (se_outcome e = SKIPPED \<or> py_truthy (py_get (se_extras e) ''landed''))"
    if "t \<in> set (dag_remaining (br_dag r))" for t
    using skips_refuse [of "ts_slug t" "map ts_slug (dag_remaining (br_dag r))" fr ctx ok now d r] that
    unfolding r'_def skip_remaining_stories_def refused_def by simp
  ultimately show ?thesis by blast
qed

theorem refusal_skips_everything_witness:
  "\<exists>e. dict_get (run_stories (skip_remaining_stories (\<lambda>_. []) sample_context True ''t0'' \<lparr>bb_kind = Exhausted, bb_detail = ''d''\<rparr> sample_runtime))
      ''issue-1'' = Some e \<and> (se_outcome e = SKIPPED \<or> py_truthy (py_get (se_extras e) ''landed''))"
proof -
  have ok: "dag_ok (br_dag sample_runtime)" unfolding sample_runtime_def by (simp add: dag_ok_new)
  obtain t where t: "t \<in> set (dag_remaining (br_dag sample_runtime))" "ts_slug t = ''issue-1''"
    by (simp add: sample_runtime_def dag_remaining_def new_story_dag_def dict_of_def dict_merge_def)
  from refusal_skips_everything [OF ok, of "\<lambda>_. []" sample_context True "''t0''" "\<lparr>bb_kind = Exhausted, bb_detail = ''d''\<rparr>"] t
  show ?thesis by metis
qed

text \<open>A run is admitted only with room to spend: when the startup check lets it through under a positive cap,
  nothing it inherits is both unmeasured and unaccepted, and the verified figure of the larger of the two
  accounts of its carried spend, the records and the ledger, is below the cap, so that no enforcement
  moment can find the carried spend alone to have met it.\<close>

theorem startup_admits_only_with_room:
  fixes fr pf ctx w r
  defines "c \<equiv> load_sprint_carry_budget_snapshot fr pf (rx_sprint_id ctx) (w\<lparr>cw_accepted := Some (br_accepted r)\<rparr>)"
  assumes "evaluate_startup_headroom fr pf ctx w r = (None, r')" "0 < rx_budget_usd ctx"
  shows "cb_unresolved c = []
    \<and> budget_verification_spend 0 (max (cl_prior (br_cost r)) (cb_carried_cost_usd c)) (cb_accepted_ceiling_usd c) < rx_budget_usd ctx
    \<and> budget_verification_spend 0 (cl_prior (br_cost r)) 0 < rx_budget_usd ctx"
proof -
  have "fst (startup_decision fr ctx (cw_story_audit w) (prior_unmeasured_spend_sources fr (cw_audit w) (rx_sprint_id ctx))
      (floored_at (cl_prior (br_cost r)) c) r) = None"
    using assms(2,3) by (simp add: evaluate_startup_headroom_def c_def Let_def snapshot_def)
  then have a: "cb_unresolved c = []"
    "budget_verification_spend 0 (max (cl_prior (br_cost r)) (cb_carried_cost_usd c)) (cb_accepted_ceiling_usd c) < rx_budget_usd ctx"
    by (simp_all add: startup_decision_def Let_def case_prod_beta evaluate_None floored_carried)
  have "budget_verification_spend 0 (cl_prior (br_cost r)) 0
      \<le> budget_verification_spend 0 (max (cl_prior (br_cost r)) (cb_carried_cost_usd c)) (max 0 (cb_accepted_ceiling_usd c))"
    by (rule verification_mono) simp_all
  also have "\<dots> = budget_verification_spend 0 (max (cl_prior (br_cost r)) (cb_carried_cost_usd c)) (cb_accepted_ceiling_usd c)"
    by (simp add: budget_verification_spend_def)
  finally show ?thesis using a by simp
qed

theorem startup_admits_only_with_room_witness:
  "budget_verification_spend 0 (cl_prior (br_cost sample_runtime)) 0 < rx_budget_usd (sample_context\<lparr>rx_sprint_id := None\<rparr>)"
proof -
  let ?w = "\<lparr>cw_id_file = None, cw_audit = None, cw_rows = [], cw_accepted = None, cw_saved = [], cw_story_audit = (\<lambda>_. PNone),
    cw_resume = False, cw_reexec = False, cw_previous_run = False\<rparr>"
  let ?ctx = "sample_context\<lparr>rx_sprint_id := None\<rparr>"
  have "fst (evaluate_startup_headroom (\<lambda>_. []) (\<lambda>_. None) ?ctx ?w sample_runtime) = None"
    by (simp add: evaluate_startup_headroom_def load_sprint_carry_budget_snapshot_def existing_sprint_id_def startup_decision_def
        evaluate_None floored_at_def snapshot_def sample_runtime_def flag_unmeasured_here_def new_ledger_def sample_context_def
        budget_verification_spend_def float_add_def)
  then obtain r' where r': "evaluate_startup_headroom (\<lambda>_. []) (\<lambda>_. None) ?ctx ?w sample_runtime = (None, r')" by (metis prod.collapse)
  from startup_admits_only_with_room [OF r'] show ?thesis by (simp add: sample_context_def)
qed

text \<open>What an inherited source stands for is fixed once read: after a source was described as carried, no
  sequence of calls on the runtime and steps of the sprint, whatever the stories write to their audits
  meanwhile, changes the description a later call gets for it under any spelling of its name; and a
  stop, once recorded, keeps its reason.\<close>

theorem carried_description_pinned:
  assumes "describe_raw_source fr audits (Some Carried) raw r = (src, r1)" "(runtime_step ctx)\<^sup>*\<^sup>* r1 r2"
    and "normalize_source_id raw' = normalize_source_id raw"
  shows "describe_raw_source fr' audits' (Some Carried) raw' r2 = (src, r2)
    \<and> (\<forall>s. br_stop r1 = Some s \<longrightarrow> br_stop r2 = Some s)"
proof -
  have "dict_get (br_cache r1) (Carried, normalize_source_id raw) = Some src" using describe_cache(2) [OF assms(1)] by simp
  then have "dict_get (br_cache r2) (Carried, normalize_source_id raw') = Some src"
    using run_keeps [OF assms(2)] assms(3) by (simp add: keeps_def del: map_of_eq_Some_iff)
  with run_keeps [OF assms(2)] show ?thesis by (simp add: describe_raw_source_def keeps_def)
qed

theorem carried_description_pinned_witness:
  "\<exists>src r1. describe_raw_source (\<lambda>_. []) (\<lambda>_. PNone) (Some Carried) ''carried:issue-1'' sample_runtime = (src, r1)
    \<and> fst (describe_raw_source (\<lambda>_. []) (\<lambda>_. PDict []) (Some Carried) ''carried:issue-1''
        (skip_story (\<lambda>_. []) sample_context True ''t0'' \<lparr>bb_kind = Exhausted, bb_detail = ''d''\<rparr> ''issue-1'' r1)) = src"
proof -
  obtain src r1 where d: "describe_raw_source (\<lambda>_. []) (\<lambda>_. PNone) (Some Carried) ''carried:issue-1'' sample_runtime = (src, r1)" by force
  have "(runtime_step sample_context)\<^sup>*\<^sup>* r1 (skip_story (\<lambda>_. []) sample_context True ''t0'' \<lparr>bb_kind = Exhausted, bb_detail = ''d''\<rparr> ''issue-1'' r1)"
    by (rule r_into_rtranclp) (rule call_skip)
  from carried_description_pinned [OF d this refl] d show ?thesis by simp
qed

text \<open>
  When all three attempts at copying the signals lose the race, a halt records the stop and signals
  nobody, and no later halt repeats it.
\<close>

theorem raced_halt_signals_nobody:
  assumes "br_stop r = None"
  shows "br_stop (halt ctx [True, True, True] rg slug d r) \<noteq> None
    \<and> br_signals (halt ctx [True, True, True] rg slug d r) = br_signals r
    \<and> halt ctx re' rg' slug' d' (halt ctx [True, True, True] rg slug d r) = halt ctx [True, True, True] rg slug d r"
proof -
  have stop: "br_stop (halt ctx [True, True, True] rg slug d r) \<noteq> None" using halt_stop [OF assms] by simp
  have "br_signals (halt ctx [True, True, True] rg slug d r) = br_signals r"
    using assms by (simp add: halt_def stop_if_unset_def copy_worker_signals_def Let_def cancel_parts release_parts)
  with stop halt_stopped [OF stop] show ?thesis by simp
qed

end
