(* ===== verification/Story_Budget.thy ===== *)
theory Story_Budget
  imports Unmeasured_Spend
begin

text \<open>
  The dollar allocation of one story (\<^verbatim>\<open>coordinator/story_budget.py\<close>): the allocation derived from the cost of
  earlier stories of the same complexity, the planned price of a review cycle, the review reservation held
  against dev spend, and the reconciliation at seating time. Records the code passes as dictionaries are
  dictionaries here. The audit substrate is an argument: the samples or records read from it, and the
  prefix the reason gets when it could not be read. \<open>parse_float\<close> and \<open>parse_int\<close> are \<^verbatim>\<open>float\<close> and \<^verbatim>\<open>int\<close> of a
  string, \<open>float_repr\<close> is \<^verbatim>\<open>repr\<close> of a float. The dash U+2014 is written as two hyphens. The operator
  messages built from the records (\<^verbatim>\<open>format_reconciliation\<close>, \<^verbatim>\<open>format_shortfall\<close>) are left out.
\<close>

section \<open>Model\<close>

subsection \<open>Constants\<close>

definition min_band_samples :: nat where "min_band_samples = 8"

definition band_headroom :: rat where "band_headroom = 5 / 4"

definition min_allocation_usd :: rat where "min_allocation_usd = 1"

definition min_review_cycle_price_usd :: rat where "min_review_cycle_price_usd = fl (1 / 100)"

definition review_cycle_price_min_samples :: nat where "review_cycle_price_min_samples = 3"

definition review_cycle_price_headroom :: rat where "review_cycle_price_headroom = 5 / 4"

definition observed_review_cycle_bases :: "string list" where
  "observed_review_cycle_bases =
     [''observed_complexity_score'', ''observed_composition'', ''observed_review_cycle'', ''observed_sparse'']"

definition comparable_review_cycle_bases :: "string list" where
  "comparable_review_cycle_bases = [''observed_complexity_score'']"

subsection \<open>Records\<close>

record story_allocation =
  sa_allocation_usd :: rat
  sa_basis :: string
  sa_complexity_score :: "int option"
  sa_fallback_configured_usd :: rat
  sa_sample_count :: nat
  sa_median_usd :: "rat option"
  sa_p90_usd :: "rat option"
  sa_max_usd :: "rat option"
  sa_reason :: string
  sa_excluded_for_taint :: nat
  sa_excluded_for_unsuccessful :: nat
  sa_scaled_profiles :: pydict

definition allocation_derived :: "story_allocation \<Rightarrow> bool" where
  "allocation_derived a \<longleftrightarrow> sa_basis a = ''substrate_band''"

definition opt_int :: "int option \<Rightarrow> pyval" where
  "opt_int i = (case i of None \<Rightarrow> PNone | Some n \<Rightarrow> PInt n)"

definition round_opt :: "rat option \<Rightarrow> pyval" where
  "round_opt v = (case v of None \<Rightarrow> PNone | Some x \<Rightarrow> PFloat (py_round 4 x))"

definition allocation_as_dict :: "story_allocation \<Rightarrow> pydict" where
  "allocation_as_dict a =
     [(''allocation_usd'', PFloat (py_round 2 (sa_allocation_usd a))), (''basis'', PStr (sa_basis a)),
      (''complexity_score'', opt_int (sa_complexity_score a)), (''sample_count'', PInt (int (sa_sample_count a))),
      (''median_usd'', round_opt (sa_median_usd a)), (''p90_usd'', round_opt (sa_p90_usd a)),
      (''max_usd'', round_opt (sa_max_usd a)),
      (''fallback_configured_usd'', PFloat (py_round 2 (sa_fallback_configured_usd a))), (''reason'', PStr (sa_reason a)),
      (''excluded_for_taint'', PInt (int (sa_excluded_for_taint a))),
      (''excluded_for_unsuccessful_outcome'', PInt (int (sa_excluded_for_unsuccessful a)))]
     @ (if sa_scaled_profiles a \<noteq> [] then [(''scaled_profiles'', PDict (sa_scaled_profiles a))] else [])"

record planning_price =
  pp_planned_cost_usd :: rat
  pp_basis :: string
  pp_fallback_configured_usd :: rat
  pp_sample_count :: nat
  pp_median_usd :: "rat option"
  pp_p90_usd :: "rat option"
  pp_max_usd :: "rat option"
  pp_headroom_multiplier :: rat
  pp_reason :: string
  pp_excluded_for_taint :: nat
  pp_composition :: "string list option"
  pp_complexity_score :: "int option"
  pp_requested_complexity_score :: "int option"

definition planning_derived :: "planning_price \<Rightarrow> bool" where
  "planning_derived p \<longleftrightarrow> pp_basis p \<in> set observed_review_cycle_bases"

definition planning_as_dict :: "planning_price \<Rightarrow> pydict" where
  "planning_as_dict p =
     [(''planned_cost_usd'', PFloat (py_round 4 (pp_planned_cost_usd p))), (''basis'', PStr (pp_basis p)),
      (''fallback_configured_usd'', PFloat (py_round 4 (pp_fallback_configured_usd p))),
      (''sample_count'', PInt (int (pp_sample_count p))), (''median_usd'', round_opt (pp_median_usd p)),
      (''p90_usd'', round_opt (pp_p90_usd p)), (''max_usd'', round_opt (pp_max_usd p)),
      (''headroom_multiplier'', PFloat (py_round 4 (pp_headroom_multiplier p))), (''reason'', PStr (pp_reason p)),
      (''excluded_for_taint'', PInt (int (pp_excluded_for_taint p))),
      (''composition'', case pp_composition p of Some (c # cs) \<Rightarrow> PList (map PStr (c # cs)) | _ \<Rightarrow> PNone),
      (''complexity_score'', opt_int (pp_complexity_score p)),
      (''requested_complexity_score'', opt_int (pp_requested_complexity_score p))]"

subsection \<open>Allocation\<close>

text \<open>The nearest-rank percentile; \<open>nearest_rank\<close> is its value where there is one.\<close>

definition percentile_rank :: "nat \<Rightarrow> rat \<Rightarrow> nat" where
  "percentile_rank n fraction =
     (let rank = - \<lfloor>float_mul (- fraction) (of_nat n)\<rfloor>
      in if rank < 1 then 1 else if rank > int n then n else nat rank)"

definition nearest_rank :: "rat list \<Rightarrow> rat \<Rightarrow> rat" where
  "nearest_rank values fraction = sort values ! (percentile_rank (length values) fraction - 1)"

definition percentile :: "rat list \<Rightarrow> rat \<Rightarrow> rat py_result" where
  "percentile values fraction =
     (if values = [] then Inl (ValueError ''percentile() requires at least one value'')
      else Inr (nearest_rank values fraction))"

definition usable_samples :: "rat list \<Rightarrow> rat list" where
  "usable_samples samples = filter (\<lambda>s. s > 0) samples"

definition configured_allocation :: "int option \<Rightarrow> rat \<Rightarrow> nat \<Rightarrow> string \<Rightarrow> nat \<Rightarrow> nat \<Rightarrow> story_allocation" where
  "configured_allocation score configured_usd sample_count reason taint unsuccessful =
     \<lparr>sa_allocation_usd = configured_usd, sa_basis = ''configured_fallback'', sa_complexity_score = score,
      sa_fallback_configured_usd = configured_usd, sa_sample_count = sample_count, sa_median_usd = None, sa_p90_usd = None,
      sa_max_usd = None, sa_reason = reason, sa_excluded_for_taint = taint, sa_excluded_for_unsuccessful = unsuccessful,
      sa_scaled_profiles = []\<rparr>"

definition allocation_from_samples :: "(rat \<Rightarrow> string) \<Rightarrow> int option \<Rightarrow> rat list \<Rightarrow> rat \<Rightarrow> nat \<Rightarrow> nat \<Rightarrow> nat \<Rightarrow> story_allocation" where
  "allocation_from_samples float_repr complexity_score samples configured_usd taint unsuccessful min_samples =
     (case complexity_score of
        None \<Rightarrow> configured_allocation None configured_usd (length samples)
                  ''no preflight complexity score for this story'' taint unsuccessful
      | Some score \<Rightarrow>
          (let usable = usable_samples samples
           in if length usable < min_samples
              then configured_allocation (Some score) configured_usd (length usable)
                     (''complexity score '' @ py_str_int score @ '' has '' @ show_nat (length usable) @ '' admissible run(s), below the ''
                      @ show_nat min_samples @ ''-run floor'') taint unsuccessful
              else (let observed_max = Max (set usable);
                        allocation = max (float_mul observed_max band_headroom) min_allocation_usd
                    in \<lparr>sa_allocation_usd = py_round 2 allocation, sa_basis = ''substrate_band'', sa_complexity_score = Some score,
                        sa_fallback_configured_usd = configured_usd, sa_sample_count = length usable,
                        sa_median_usd = Some (nearest_rank usable (1 / 2)), sa_p90_usd = Some (nearest_rank usable (fl (9 / 10))),
                        sa_max_usd = Some observed_max,
                        sa_reason = ''derived from '' @ show_nat (length usable) @ '' admissible run(s) at complexity score ''
                          @ py_str_int score @ '' (max $'' @ format_2f observed_max @ '' x '' @ float_repr band_headroom @ '')'',
                        sa_excluded_for_taint = taint, sa_excluded_for_unsuccessful = unsuccessful, sa_scaled_profiles = []\<rparr>)))"

text \<open>
  What reading the substrate gave: nothing usable, with the prefix of the reason, or the samples by score
  and the two counts of excluded runs.
\<close>

datatype substrate_costs =
    NoCosts string
  | Costs "(int, rat list) dict" nat nat

fun derive_story_allocation :: "(rat \<Rightarrow> string) \<Rightarrow> substrate_costs \<Rightarrow> int option \<Rightarrow> rat \<Rightarrow> nat \<Rightarrow> story_allocation" where
  "derive_story_allocation float_repr (NoCosts reason_prefix) score configured_usd min_samples =
     (let a = allocation_from_samples float_repr score [] configured_usd 0 0 min_samples
      in if reason_prefix \<noteq> [] then a\<lparr>sa_reason := reason_prefix @ sa_reason a\<rparr> else a)"
| "derive_story_allocation float_repr (Costs by_score taint unsuccessful) score configured_usd min_samples =
     allocation_from_samples float_repr score
       (case score of None \<Rightarrow> [] | Some s \<Rightarrow> (case dict_get by_score s of None \<Rightarrow> [] | Some xs \<Rightarrow> xs))
       configured_usd taint unsuccessful min_samples"

subsection \<open>The price of a review cycle\<close>

record planning_args =
  pa_excluded_for_taint :: nat
  pa_min_samples :: nat
  pa_headroom_multiplier :: rat
  pa_derived_basis :: string
  pa_scope_suffix :: string
  pa_composition :: "string list option"
  pa_complexity_score :: "int option"
  pa_requested_complexity_score :: "int option"

definition review_cycle_planning_from_samples :: "(rat \<Rightarrow> string) \<Rightarrow> rat list \<Rightarrow> rat \<Rightarrow> planning_args \<Rightarrow> planning_price" where
  "review_cycle_planning_from_samples float_repr samples ceiling_usd a =
     (let usable = usable_samples samples
      in if usable = []
         then \<lparr>pp_planned_cost_usd = py_round 4 ceiling_usd, pp_basis = ''ceiling_fallback'', pp_fallback_configured_usd = ceiling_usd,
               pp_sample_count = 0, pp_median_usd = None, pp_p90_usd = None, pp_max_usd = None,
               pp_headroom_multiplier = review_cycle_price_headroom,
               pp_reason = ''no measured review cycle in recorded history -- priced at the reviewer ceiling sum as an unobserved installation'',
               pp_excluded_for_taint = pa_excluded_for_taint a, pp_composition = pa_composition a, pp_complexity_score = None,
               pp_requested_complexity_score = pa_requested_complexity_score a\<rparr>
         else
           (let median = nearest_rank usable (1 / 2); p90 = nearest_rank usable (fl (9 / 10)); observed_max = Max (set usable);
                headroom = pa_headroom_multiplier a
            in if length usable < pa_min_samples a
               then \<lparr>pp_planned_cost_usd = py_round 4 (min (max (float_mul observed_max headroom) min_review_cycle_price_usd) ceiling_usd),
                     pp_basis = ''observed_sparse'', pp_fallback_configured_usd = ceiling_usd, pp_sample_count = length usable,
                     pp_median_usd = Some median, pp_p90_usd = Some p90, pp_max_usd = Some observed_max, pp_headroom_multiplier = headroom,
                     pp_reason = ''derived from maximum observed review-cycle spend $'' @ format_2f observed_max @ '' x '' @ float_repr headroom
                       @ '' headroom over '' @ show_nat (length usable) @ '' cycle(s)'' @ pa_scope_suffix a @ '', below the ''
                       @ show_nat (pa_min_samples a) @ ''-cycle floor (capped at the ceiling sum)'',
                     pp_excluded_for_taint = pa_excluded_for_taint a, pp_composition = pa_composition a, pp_complexity_score = None,
                     pp_requested_complexity_score = pa_requested_complexity_score a\<rparr>
               else \<lparr>pp_planned_cost_usd = py_round 4 (min (max (float_mul median headroom) min_review_cycle_price_usd) ceiling_usd),
                     pp_basis = pa_derived_basis a, pp_fallback_configured_usd = ceiling_usd, pp_sample_count = length usable,
                     pp_median_usd = Some median, pp_p90_usd = Some p90, pp_max_usd = Some observed_max, pp_headroom_multiplier = headroom,
                     pp_reason = ''derived from median observed review-cycle spend $'' @ format_2f median @ '' x '' @ float_repr headroom
                       @ '' headroom over '' @ show_nat (length usable) @ '' cycle(s)'' @ pa_scope_suffix a,
                     pp_excluded_for_taint = pa_excluded_for_taint a, pp_composition = pa_composition a,
                     pp_complexity_score = pa_complexity_score a, pp_requested_complexity_score = pa_requested_complexity_score a\<rparr>))"

text \<open>A panel is the set of its members: the names stripped and sorted, None when there is none.\<close>

definition composition_key :: "string list \<Rightarrow> string list option" where
  "composition_key names =
     (let cleaned = sort (map py_strip (filter (\<lambda>n. py_strip n \<noteq> []) names))
      in if cleaned = [] then None else Some cleaned)"

text \<open>
  The names a review entry lists, each as \<^verbatim>\<open>str\<close>; a falsy name counts as blank. The code iterates over
  whatever the entry holds: the characters of a string, the keys of a dictionary. A number there, which
  has no items and makes the code raise, counts as no panel.
\<close>

definition pool_names :: "(rat \<Rightarrow> string) \<Rightarrow> pyval \<Rightarrow> string list" where
  "pool_names float_repr v =
     (case v of
        PList xs \<Rightarrow> map (\<lambda>n. if py_truthy n then py_str float_repr n else []) xs
      | PStr s \<Rightarrow> map (\<lambda>c. [c]) s
      | PDict d \<Rightarrow> map fst d
      | _ \<Rightarrow> [])"

definition record_cycle_compositions :: "(rat \<Rightarrow> string) \<Rightarrow> pydict \<Rightarrow> (pyval \<times> string list) list" where
  "record_cycle_compositions float_repr rec =
     (case py_get rec ''reviews'' of
        PList reviews \<Rightarrow>
          concat (map (\<lambda>v. case v of
              PDict review \<Rightarrow> (case composition_key (pool_names float_repr (py_get review ''pool_models'')) of
                  None \<Rightarrow> [] | Some key \<Rightarrow> [(py_get review ''cycle'', key)])
            | _ \<Rightarrow> []) reviews)
      | _ \<Rightarrow> [])"

text \<open>Lookup of a cycle number under Python equality; a later entry of the same cycle replaces an earlier one.\<close>

definition composition_of_cycle :: "(pyval \<times> string list) list \<Rightarrow> pyval \<Rightarrow> string list option" where
  "composition_of_cycle compositions cycle = map_option snd (find (\<lambda>(k, v). py_eq k cycle) (rev compositions))"

text \<open>\<^verbatim>\<open>int(x)\<close> of a float truncates towards zero.\<close>

definition truncate :: "rat \<Rightarrow> int" where
  "truncate x = (if x < 0 then \<lceil>x\<rceil> else \<lfloor>x\<rfloor>)"

definition record_complexity_score :: "pydict \<Rightarrow> int option" where
  "record_complexity_score rec =
     (case py_get rec ''preflight'' of
        PDict preflight \<Rightarrow> (case py_get preflight ''complexity_score'' of
            PInt i \<Rightarrow> Some i | PFloat r \<Rightarrow> Some (truncate r) | _ \<Rightarrow> None)
      | _ \<Rightarrow> None)"

definition cycle_sample :: "(string \<Rightarrow> rat option) \<Rightarrow> string list option \<Rightarrow> (pyval \<times> string list) list \<Rightarrow> pyval \<Rightarrow> rat list" where
  "cycle_sample parse_float composition compositions v =
     (case v of
        PDict cycle \<Rightarrow>
          (case to_float parse_float (py_get cycle ''cost_usd'') of
             None \<Rightarrow> []
           | Some cost \<Rightarrow>
               if cost \<le> 0 then []
               else if composition \<noteq> None \<and> composition_of_cycle compositions (py_get cycle ''iteration'') \<noteq> composition then []
               else [cost])
      | _ \<Rightarrow> [])"

definition is_tainted :: "(rat \<Rightarrow> string) \<Rightarrow> pydict \<Rightarrow> bool" where
  "is_tainted float_repr rec =
     (let t = py_get rec ''trust_status'' in py_lower (if py_truthy t then py_str float_repr t else []) = ''tainted'')"

definition record_samples :: "(rat \<Rightarrow> string) \<Rightarrow> (string \<Rightarrow> rat option) \<Rightarrow> string list option \<Rightarrow> int option \<Rightarrow> pydict \<Rightarrow> rat list" where
  "record_samples float_repr parse_float composition complexity_score rec =
     (if complexity_score \<noteq> None \<and> record_complexity_score rec \<noteq> complexity_score then []
      else (case py_get rec ''iterations'' of
              PDict iterations \<Rightarrow>
                (case py_get iterations ''review_loop'' of
                   PList review_loop \<Rightarrow>
                     (let compositions = (if composition \<noteq> None then record_cycle_compositions float_repr rec else [])
                      in concat (map (cycle_sample parse_float composition compositions) review_loop))
                 | _ \<Rightarrow> [])
            | _ \<Rightarrow> []))"

definition extract_review_cycle_cost_samples :: "(rat \<Rightarrow> string) \<Rightarrow> (string \<Rightarrow> rat option) \<Rightarrow> pydict list \<Rightarrow> string list option \<Rightarrow> int option
    \<Rightarrow> rat list \<times> nat" where
  "extract_review_cycle_cost_samples float_repr parse_float records composition complexity_score =
     (concat (map (record_samples float_repr parse_float composition complexity_score) (filter (\<lambda>r. \<not> is_tainted float_repr r) records)),
      length (filter (is_tainted float_repr) records))"

text \<open>The ladder, most specific rung first; the records are those of the substrate's tail.\<close>

definition derive_review_cycle_planning_price :: "(rat \<Rightarrow> string) \<Rightarrow> (string \<Rightarrow> rat option) \<Rightarrow> pydict list \<Rightarrow> string \<Rightarrow> rat \<Rightarrow> string list
    \<Rightarrow> int option \<Rightarrow> nat \<Rightarrow> rat \<Rightarrow> planning_price" where
  "derive_review_cycle_planning_price float_repr parse_float records reason_prefix ceiling_usd names score min_samples headroom =
     (let panel = composition_key names;
          args = (\<lambda>excluded basis suffix scoped. \<lparr>pa_excluded_for_taint = excluded, pa_min_samples = min_samples,
            pa_headroom_multiplier = headroom, pa_derived_basis = basis, pa_scope_suffix = suffix, pa_composition = panel,
            pa_complexity_score = scoped, pa_requested_complexity_score = score\<rparr>);
          by_score = extract_review_cycle_cost_samples float_repr parse_float records None score;
          by_panel = extract_review_cycle_cost_samples float_repr parse_float records panel None;
          overall = extract_review_cycle_cost_samples float_repr parse_float records None None;
          planning =
            (if score \<noteq> None \<and> length (fst by_score) \<ge> min_samples
             then review_cycle_planning_from_samples float_repr (fst by_score) ceiling_usd
                    (args (snd by_score) ''observed_complexity_score'' ('' on stories at complexity score '' @ py_str_int (the score)) score)
             else if panel \<noteq> None \<and> length (fst by_panel) \<ge> min_samples
             then review_cycle_planning_from_samples float_repr (fst by_panel) ceiling_usd
                    (args (snd by_panel) ''observed_composition'' '' run by this exact panel'' None)
             else review_cycle_planning_from_samples float_repr (fst overall) ceiling_usd
                    (args (snd overall) ''observed_review_cycle'' [] None))
      in if reason_prefix \<noteq> [] then planning\<lparr>pp_reason := reason_prefix @ pp_reason planning\<rparr> else planning)"

section \<open>Percentiles\<close>

lemma percentile_rank_bounds:
  assumes "n \<noteq> 0"
  shows "1 \<le> percentile_rank n f" "percentile_rank n f \<le> n"
  using assms by (auto simp: percentile_rank_def Let_def)

text \<open>The value at a position of a sorted list: the values up to it are no larger, those below it come earlier.\<close>

lemma sorted_count_le:
  assumes "sorted xs" "i < length xs"
  shows "Suc i \<le> length (filter (\<lambda>x. x \<le> xs ! i) xs)"
proof -
  have "filter (\<lambda>x. x \<le> xs ! i) (take (Suc i) xs) = take (Suc i) xs"
    using assms by (auto intro!: filter_True simp: in_set_conv_nth sorted_nth_mono)
  then have "length (filter (\<lambda>x. x \<le> xs ! i) (take (Suc i) xs @ drop (Suc i) xs)) \<ge> Suc i"
    using assms(2) by (simp del: append_take_drop_id)
  then show ?thesis by simp
qed

lemma sorted_count_less:
  assumes "sorted xs" "i < length xs"
  shows "length (filter (\<lambda>x. x < xs ! i) xs) \<le> i"
proof -
  have "filter (\<lambda>x. x < xs ! i) (drop i xs) = []"
    using assms by (auto simp: filter_empty_conv in_set_conv_nth not_less sorted_nth_mono)
  then have "length (filter (\<lambda>x. x < xs ! i) (take i xs @ drop i xs)) \<le> length (take i xs)"
    unfolding filter_append by (simp only: append_Nil2 length_filter_le)
  then show ?thesis using assms(2) by simp
qed

lemma length_filter_sort: "length (filter P (sort xs)) = length (filter P xs)"
  by (simp add: filter_sort)

lemma nearest_rank_position:
  assumes "xs \<noteq> []"
  shows "percentile_rank (length xs) f - 1 < length (sort xs)"
  using percentile_rank_bounds [of "length xs" f] assms by (cases xs) auto

lemma nearest_rank_in_set: "xs \<noteq> [] \<Longrightarrow> nearest_rank xs f \<in> set xs"
  using nth_mem [OF nearest_rank_position] by (simp add: nearest_rank_def)

lemma nearest_rank_counts:
  assumes "xs \<noteq> []"
  shows "percentile_rank (length xs) f \<le> length (filter (\<lambda>x. x \<le> nearest_rank xs f) xs)"
    and "length (filter (\<lambda>x. x < nearest_rank xs f) xs) < percentile_rank (length xs) f"
  using sorted_count_le [OF sorted_sort nearest_rank_position [OF assms], of f]
    sorted_count_less [OF sorted_sort nearest_rank_position [OF assms], of f]
    percentile_rank_bounds(1) [of "length xs" f] assms
  by (simp_all add: nearest_rank_def length_filter_sort)

text \<open>At one half the rank is the upper half of the length, the product being exact.\<close>

lemma percentile_rank_half:
  assumes "0 < n" "n \<le> 2 ^ 53"
  shows "percentile_rank n (1 / 2) = (n + 1) div 2"
proof -
  have "float_mul (- (1 / 2)) (of_nat n) = - (of_nat n / 2)"
    unfolding float_mul_def using assms(2)
    by (intro fl_exact [of _ "- int n" "-1", THEN trans]) (simp_all add: power_int_minus)
  moreover have "- \<lfloor>- (of_nat n / 2 :: rat)\<rfloor> = int ((n + 1) div 2)"
  proof -
    have "\<lfloor>- (of_nat n / 2 :: rat)\<rfloor> = - int ((n + 1) div 2)"
    proof (intro floor_unique)
      have "(of_nat n :: rat) \<le> of_nat (2 * ((n + 1) div 2))" by (intro of_nat_mono) simp
      then show "of_int (- int ((n + 1) div 2)) \<le> - (of_nat n / 2 :: rat)" by simp
      have "(of_nat (2 * ((n + 1) div 2)) :: rat) < of_nat (n + 2)"
        by (intro iffD2 [OF of_nat_less_iff]) simp
      then show "- (of_nat n / 2 :: rat) < of_int (- int ((n + 1) div 2)) + 1" by simp
    qed
    then show ?thesis by simp
  qed
  ultimately show ?thesis using assms(1) by (simp add: percentile_rank_def Let_def)
qed

text \<open>The percentile of a non-empty list of costs is one of the costs, at least as many costs as its rank
  are no larger, and fewer are smaller; on the empty list the call raises. At one half this is a median:
  at least half of the costs are no larger and at least half no smaller.
\<close>

theorem percentile_spec:
  assumes "length values \<le> 2 ^ 53"
  shows "(values = [] \<longrightarrow> (\<exists>m. percentile values f = Inl (ValueError m)))
    \<and> (values \<noteq> [] \<longrightarrow> (\<exists>v \<in> set values. percentile values f = Inr v
         \<and> percentile_rank (length values) f \<le> length (filter (\<lambda>x. x \<le> v) values)
         \<and> length (filter (\<lambda>x. x < v) values) < percentile_rank (length values) f
         \<and> (f = 1 / 2 \<longrightarrow> length values \<le> 2 * length (filter (\<lambda>x. x \<le> v) values)
                       \<and> length values \<le> 2 * length (filter (\<lambda>x. v \<le> x) values))))"
proof (cases "values = []")
  case False
  let ?v = "nearest_rank values f" and ?r = "percentile_rank (length values) f"
  note c = nearest_rank_counts [OF False, of f]
  have half: "length values \<le> 2 * length (filter (\<lambda>x. x \<le> ?v) values) \<and> length values \<le> 2 * length (filter (\<lambda>x. ?v \<le> x) values)"
    if "f = 1 / 2"
  proof -
    have r: "?r = (length values + 1) div 2"
      unfolding that using False assms by (intro percentile_rank_half) auto
    have "length (filter (\<lambda>x. x < ?v) values) + length (filter (\<lambda>x. \<not> x < ?v) values) = length values"
      by (rule sum_length_filter_compl)
    with c r show ?thesis by (auto simp: not_less)
  qed
  show ?thesis
    using False nearest_rank_in_set [OF False, of f] c half
    by (intro conjI impI bexI [of _ ?v]) (blast | simp add: percentile_def)+
qed (simp add: percentile_def)

theorem percentile_spec_witness:
  "\<exists>v \<in> set [3, 1, 2 :: rat]. percentile [3, 1, 2] (1 / 2) = Inr v \<and> 3 \<le> 2 * length (filter (\<lambda>x. v \<le> x) [3, 1, 2])"
  using percentile_spec [of "[3, 1, 2]" "1 / 2"] by auto

section \<open>The derived allocation\<close>

lemma allocation_from_samples_derived:
  "allocation_derived (allocation_from_samples float_repr score samples configured taint unsuccessful min_samples)
     \<longleftrightarrow> score \<noteq> None \<and> min_samples \<le> length (usable_samples samples)"
  by (simp add: allocation_from_samples_def allocation_derived_def configured_allocation_def Let_def split: option.splits)

lemma py_round_2_one: "py_round 2 1 = 1"
proof -
  have "round_half_even (100 :: rat) = 100" using round_half_even_int [of 100] by simp
  then show ?thesis using fl_of_int [of 1] by (simp add: py_round_def)
qed

lemma allocation_amount_covers:
  assumes "fl m = m" "s \<le> m"
  shows "s \<le> py_round 2 (max (float_mul m band_headroom) min_allocation_usd)"
    and "1 \<le> py_round 2 (max (float_mul m band_headroom) min_allocation_usd)"
proof -
  let ?a = "max (float_mul m band_headroom) min_allocation_usd"
  show one: "1 \<le> py_round 2 ?a"
    using py_round_mono [of 1 ?a 2] py_round_2_one by (simp add: min_allocation_usd_def)
  show "s \<le> py_round 2 ?a"
  proof (cases "m \<le> 1")
    case True
    with one assms(2) show ?thesis by linarith
  next
    case False
    let ?x = "m * band_headroom"
    have "?x * (1 - 1 / 2 ^ 53) \<le> fl ?x"
    proof (rule fl_lower)
      have "(2::rat) powi (-1022) \<le> 2 powi 0" by (intro power_int_increasing) simp_all
      then show "2 powi (-1022) \<le> ?x" using False by (simp add: band_headroom_def)
    qed
    moreover have "m + 1 / 200 \<le> ?x * (1 - 1 / 2 ^ 53)" using False by (simp add: band_headroom_def)
    ultimately have "m \<le> ?a - 1 / (2 * 10 ^ 2)" by (simp add: float_mul_def)
    from fl_mono [OF this] assms have "s \<le> fl (?a - 1 / (2 * 10 ^ 2))" by simp
    with py_round_lower [of ?a 2] show ?thesis by linarith
  qed
qed

text \<open>C24. The allocation of a scored story is derived exactly when enough earlier runs at its score have a cost.
  A derived allocation is at least a dollar and covers every one of those runs: rounding to cents after the
  headroom never brings it under a cost that was really observed. Otherwise it is the configured figure.
\<close>

theorem derived_allocation_covers_history:
  assumes "\<And>s. s \<in> set samples \<Longrightarrow> fl s = s" "min_samples \<noteq> 0"
    and "dict_get by_score score = Some samples"
    and "a = derive_story_allocation float_repr (Costs by_score taint unsuccessful) (Some score) configured min_samples"
  shows "(allocation_derived a \<longleftrightarrow> min_samples \<le> length (usable_samples samples))
    \<and> (allocation_derived a \<longrightarrow> 1 \<le> sa_allocation_usd a \<and> (\<forall>s \<in> set samples. s \<le> sa_allocation_usd a))
    \<and> (\<not> allocation_derived a \<longrightarrow> sa_allocation_usd a = configured)"
proof -
  let ?u = "usable_samples samples"
  have a: "a = allocation_from_samples float_repr (Some score) samples configured taint unsuccessful min_samples"
    unfolding assms(4) using assms(3) by simp
  have d: "allocation_derived a \<longleftrightarrow> min_samples \<le> length ?u" unfolding a by (simp add: allocation_from_samples_derived)
  show ?thesis
  proof (cases "min_samples \<le> length ?u")
    case True
    with assms(2) have ne: "?u \<noteq> []" by auto
    then have max: "Max (set ?u) \<in> set ?u" by simp
    then have fm: "fl (Max (set ?u)) = Max (set ?u)" and pos: "0 < Max (set ?u)"
      using assms(1) by (auto simp: usable_samples_def)
    have usd: "sa_allocation_usd a = py_round 2 (max (float_mul (Max (set ?u)) band_headroom) min_allocation_usd)"
      unfolding a using True by (simp add: allocation_from_samples_def Let_def)
    have "s \<le> Max (set ?u)" if "s \<in> set samples" for s
    proof (cases "0 < s")
      case True
      with that show ?thesis by (intro Max_ge) (simp_all add: usable_samples_def)
    qed (use pos in simp)
    then have "1 \<le> sa_allocation_usd a \<and> (\<forall>s \<in> set samples. s \<le> sa_allocation_usd a)"
      unfolding usd using allocation_amount_covers [OF fm] by blast
    with d True show ?thesis by simp
  next
    case False
    then show ?thesis using d unfolding a by (simp add: allocation_from_samples_def configured_allocation_def Let_def)
  qed
qed

theorem derived_allocation_covers_history_witness:
  "4 \<le> sa_allocation_usd (derive_story_allocation (\<lambda>_. []) (Costs [(2, [3, 4])] 0 0) (Some 2) 5 2)"
proof -
  have "fl s = s" if "s \<in> set [3, 4]" for s using that fl_of_int [of 3] fl_of_int [of 4] by auto
  from derived_allocation_covers_history [OF this, of "[3, 4]" 2 "[(2, [3, 4])]" 2 _ "\<lambda>_. []" 0 0 5, OF _ _ _ refl]
  show ?thesis by (simp add: usable_samples_def)
qed

section \<open>The planned price\<close>

lemma cycle_sample_pos: "c \<in> set (cycle_sample parse_float composition compositions v) \<Longrightarrow> 0 < c"
  by (auto simp: cycle_sample_def split: pyval.splits option.splits if_splits)

lemma record_samples_pos: "c \<in> set (record_samples float_repr parse_float composition score r) \<Longrightarrow> 0 < c"
  by (auto simp: record_samples_def Let_def split: pyval.splits if_splits dest: cycle_sample_pos)

lemma extract_usable [simp]:
  "usable_samples (fst (extract_review_cycle_cost_samples float_repr parse_float records composition score))
     = fst (extract_review_cycle_cost_samples float_repr parse_float records composition score)"
  unfolding usable_samples_def extract_review_cycle_cost_samples_def fst_conv
  by (rule filter_True) (auto dest: record_samples_pos)

lemma cycle_sample_scope: "set (cycle_sample parse_float composition compositions v) \<subseteq> set (cycle_sample parse_float None [] v)"
  by (auto simp: cycle_sample_def split: pyval.splits option.splits if_splits)

lemma record_samples_scope:
  "set (record_samples float_repr parse_float composition score r) \<subseteq> set (record_samples float_repr parse_float None None r)"
proof
  fix c assume "c \<in> set (record_samples float_repr parse_float composition score r)"
  then obtain iterations loop compositions v where "py_get r ''iterations'' = PDict iterations"
    "py_get iterations ''review_loop'' = PList loop" "v \<in> set loop" "c \<in> set (cycle_sample parse_float composition compositions v)"
    by (auto simp: record_samples_def Let_def split: pyval.splits if_splits)
  with cycle_sample_scope [of parse_float composition compositions v]
  show "c \<in> set (record_samples float_repr parse_float None None r)"
    by (auto simp: record_samples_def Let_def)
qed

text \<open>The samples of a narrower scope are samples of review at large.\<close>

lemma extract_scope:
  "set (fst (extract_review_cycle_cost_samples float_repr parse_float records composition score))
     \<subseteq> set (fst (extract_review_cycle_cost_samples float_repr parse_float records None None))"
  using record_samples_scope by (fastforce simp: extract_review_cycle_cost_samples_def)

lemma planning_price_capped:
  "pp_planned_cost_usd (review_cycle_planning_from_samples float_repr samples ceiling_usd a) \<le> py_round 4 ceiling_usd"
  by (simp add: review_cycle_planning_from_samples_def Let_def py_round_mono)

lemma planning_basis:
  "pp_basis (review_cycle_planning_from_samples float_repr samples ceiling_usd a) =
     (if usable_samples samples = [] then ''ceiling_fallback''
      else if length (usable_samples samples) < pa_min_samples a then ''observed_sparse'' else pa_derived_basis a)"
  "pp_complexity_score (review_cycle_planning_from_samples float_repr samples ceiling_usd a) =
     (if usable_samples samples = [] \<or> length (usable_samples samples) < pa_min_samples a then None else pa_complexity_score a)"
  "pp_sample_count (review_cycle_planning_from_samples float_repr samples ceiling_usd a) = length (usable_samples samples)"
  by (simp_all add: review_cycle_planning_from_samples_def Let_def)

lemma planning_price_shape:
  "\<exists>x \<le> ceiling_usd. pp_planned_cost_usd (review_cycle_planning_from_samples float_repr samples ceiling_usd a) = py_round 4 x"
proof (cases "usable_samples samples = []")
  case True
  then show ?thesis by (intro exI [of _ ceiling_usd]) (simp add: review_cycle_planning_from_samples_def)
next
  case False
  let ?x = "if length (usable_samples samples) < pa_min_samples a then Max (set (usable_samples samples))
    else nearest_rank (usable_samples samples) (1 / 2)"
  show ?thesis using False
    by (intro exI [of _ "min (max (float_mul ?x (pa_headroom_multiplier a)) min_review_cycle_price_usd) ceiling_usd"])
      (simp add: review_cycle_planning_from_samples_def Let_def)
qed

lemma planning_price_rounded:
  "\<exists>x \<le> ceiling_usd. pp_planned_cost_usd (derive_review_cycle_planning_price float_repr parse_float records reason_prefix ceiling_usd names score min_samples headroom)
     = py_round 4 x"
  unfolding derive_review_cycle_planning_price_def Let_def by (simp add: planning_price_shape)

lemma planned_price_at_score:
  assumes "min_samples \<noteq> 0"
    and "pp_basis (derive_review_cycle_planning_price float_repr parse_float records reason_prefix ceiling_usd names score min_samples headroom)
           = ''observed_complexity_score''"
  shows "score \<noteq> None \<and> min_samples \<le> length (fst (extract_review_cycle_cost_samples float_repr parse_float records None score))
    \<and> pp_complexity_score (derive_review_cycle_planning_price float_repr parse_float records reason_prefix ceiling_usd names score min_samples headroom)
        = score"
  using assms unfolding derive_review_cycle_planning_price_def Let_def
  by (auto simp: planning_basis split: if_splits)

text \<open>The planned price of a review cycle never exceeds the reviewer ceiling, rounded. The price claims to
  be measured at the story's own score only when the story has one and the floor of samples at exactly
  that score is met, and then it carries that score; it is the bare ceiling only when no review cycle was
  ever measured.
\<close>

theorem planned_price_ladder:
  assumes "min_samples \<noteq> 0"
    and "p = derive_review_cycle_planning_price float_repr parse_float records reason_prefix ceiling_usd names score min_samples headroom"
  shows "pp_planned_cost_usd p \<le> py_round 4 ceiling_usd
    \<and> (pp_basis p = ''observed_complexity_score'' \<longleftrightarrow>
         score \<noteq> None \<and> min_samples \<le> length (fst (extract_review_cycle_cost_samples float_repr parse_float records None score)))
    \<and> (pp_basis p = ''observed_complexity_score'' \<longrightarrow> pp_complexity_score p = score
         \<and> pp_sample_count p = length (fst (extract_review_cycle_cost_samples float_repr parse_float records None score)))
    \<and> (pp_basis p = ''ceiling_fallback'' \<longleftrightarrow> fst (extract_review_cycle_cost_samples float_repr parse_float records None None) = [])"
proof -
  let ?E = "\<lambda>c s. fst (extract_review_cycle_cost_samples float_repr parse_float records c s)"
  have sub: "?E None None \<noteq> []" if "min_samples \<le> length (?E c s)" for c s
    using that assms(1) extract_scope [of float_repr parse_float records c s] by (cases "?E c s") auto
  have cap: "pp_planned_cost_usd p \<le> py_round 4 ceiling_usd"
    unfolding assms(2) derive_review_cycle_planning_price_def Let_def by (simp add: planning_price_capped)
  show ?thesis
    using cap assms(1) sub [of None score] sub [of "composition_key names" None]
    unfolding assms(2) derive_review_cycle_planning_price_def Let_def by (auto simp: planning_basis)
qed

theorem planned_price_ladder_witness:
  "pp_planned_cost_usd (derive_review_cycle_planning_price (\<lambda>_. []) (\<lambda>_. None) [] [] 2 [''r''] (Some 3) 3 1) \<le> py_round 4 2"
  using planned_price_ladder [of 3 _ "\<lambda>_. []" "\<lambda>_. None" "[]" "[]" 2 "[''r'']" "Some 3" 1, OF _ refl] by simp

end
