(* ===== verification/Story_Funding.thy ===== *)
theory Story_Funding
  imports Story_Budget
begin

text \<open>
  Holding and spending a story's allocation (\<^verbatim>\<open>coordinator/story_budget.py\<close>, second half): the comparison of
  spend with the allocation, the review reservation and its release, the refusal of phases that cannot be
  funded, the reconciliation of review cycles at seating time and the scaling of role budgets. A
  reservation or allocation is the dictionary the code carries, None where the code has None; the record
  of a reconciliation, a dictionary with fixed keys, is a record, rendered by \<open>reconciliation_as_dict\<close>.
\<close>

section \<open>Model\<close>

subsection \<open>Comparison with the allocation\<close>

definition opt_figure :: "rat option \<Rightarrow> pyval" where
  "opt_figure v = (case v of None \<Rightarrow> PNone | Some x \<Rightarrow> PFloat x)"

definition evaluate_allocation_dict :: "(string \<Rightarrow> rat option) \<Rightarrow> pydict option \<Rightarrow> rat option \<Rightarrow> pydict option" where
  "evaluate_allocation_dict parse_float allocation observed_usd =
     (case allocation of None \<Rightarrow> None | Some [] \<Rightarrow> None
      | Some block \<Rightarrow>
          (case to_float parse_float (py_get block ''allocation_usd'') of
             None \<Rightarrow> Some block
           | Some allocation_usd \<Rightarrow>
               (let block1 = dict_set ''observed_usd'' (opt_figure (map_option (py_round 4) observed_usd)) block
                in case observed_usd of
                     None \<Rightarrow> Some (dict_set ''exceeded'' PNone (dict_set ''status'' (PStr ''cost_unknown'') block1))
                   | Some observed \<Rightarrow>
                       (let exceeded = observed > allocation_usd;
                            block2 = dict_set ''exceeded'' (PBool exceeded)
                              (dict_set ''status'' (PStr (if exceeded then ''allocation_exceeded'' else ''within_allocation'')) block1)
                        in Some (if exceeded then dict_set ''overrun_usd'' (PFloat (py_round 4 (float_sub observed allocation_usd))) block2
                                 else block2)))))"

definition evaluate_allocation :: "(string \<Rightarrow> rat option) \<Rightarrow> story_allocation \<Rightarrow> rat option \<Rightarrow> pydict" where
  "evaluate_allocation parse_float allocation observed_usd =
     (case evaluate_allocation_dict parse_float (Some (allocation_as_dict allocation)) observed_usd of None \<Rightarrow> [] | Some d \<Rightarrow> d)"

definition balance :: "rat \<Rightarrow> rat" where
  "balance v = py_round 4 v"

definition allocation_evidence :: "pydict \<Rightarrow> pydict" where
  "allocation_evidence allocation = map (\<lambda>k. (k, py_get allocation k))
     [''basis'', ''complexity_score'', ''median_usd'', ''p90_usd'', ''max_usd'', ''sample_count'']"

definition phase_funding_shortfall :: "(string \<Rightarrow> rat option) \<Rightarrow> pydict option \<Rightarrow> rat option \<Rightarrow> string \<Rightarrow> string list \<Rightarrow> rat
    \<Rightarrow> pydict option" where
  "phase_funding_shortfall parse_float allocation observed_usd phase participants planned_usd =
     (case (allocation, observed_usd) of
        (Some alloc, Some observed) \<Rightarrow>
          if alloc = [] \<or> participants = [] then None
          else (case to_float parse_float (py_get alloc ''allocation_usd'') of
                  None \<Rightarrow> None
                | Some allocation_usd \<Rightarrow>
                    (let remaining = balance (float_sub allocation_usd observed)
                     in if remaining \<ge> balance planned_usd then None
                        else Some ([(''phase'', PStr phase), (''participants'', PList (map PStr participants)),
                               (''planned_usd'', PFloat (py_round 4 planned_usd)), (''observed_usd'', PFloat (py_round 4 observed)),
                               (''allocation_usd'', PFloat (py_round 2 allocation_usd)), (''remaining_usd'', PFloat remaining)]
                             @ allocation_evidence alloc)))
      | _ \<Rightarrow> None)"

subsection \<open>The review reservation\<close>

definition nonneg_float :: "(string \<Rightarrow> rat option) \<Rightarrow> pyval \<Rightarrow> rat option \<Rightarrow> rat option" where
  "nonneg_float parse_float v dflt =
     (if v = PNone then dflt else (case to_float parse_float v of Some x \<Rightarrow> Some (max 0 x) | None \<Rightarrow> dflt))"

text \<open>\<^verbatim>\<open>max(0.0, float(v or 0.0))\<close>, zero where that raises.\<close>

definition amount_or_zero :: "(string \<Rightarrow> rat option) \<Rightarrow> pyval \<Rightarrow> rat" where
  "amount_or_zero parse_float v =
     (case to_float parse_float (if py_truthy v then v else PFloat 0) of Some x \<Rightarrow> max 0 x | None \<Rightarrow> 0)"

definition reserved_review_usd :: "(string \<Rightarrow> rat option) \<Rightarrow> pydict option \<Rightarrow> rat" where
  "reserved_review_usd parse_float reservation =
     (case reservation of None \<Rightarrow> 0 | Some d \<Rightarrow> amount_or_zero parse_float (py_get d ''reserved_review_usd''))"

definition retained_balance :: "rat \<Rightarrow> rat option \<Rightarrow> rat option \<Rightarrow> rat" where
  "retained_balance retained baseline review_observed_usd =
     (case (baseline, review_observed_usd) of
        (Some b, Some observed) \<Rightarrow>
          if retained \<le> 0 then balance retained
          else balance (max 0 (float_sub retained (max 0 (float_sub observed b))))
      | _ \<Rightarrow> balance retained)"

definition remaining_reserved_review_usd :: "(string \<Rightarrow> rat option) \<Rightarrow> pydict option \<Rightarrow> rat option \<Rightarrow> rat option" where
  "remaining_reserved_review_usd parse_float reservation review_observed_usd =
     (case reservation of None \<Rightarrow> Some 0
      | Some d \<Rightarrow>
          if py_truthy (py_get d ''released'')
          then Some (retained_balance
                  (case nonneg_float parse_float (py_get d ''retained_review_usd'') (Some 0) of Some x \<Rightarrow> x | None \<Rightarrow> 0)
                  (nonneg_float parse_float (py_get d ''review_observed_at_release_usd'') None) review_observed_usd)
          else (let reserved = reserved_review_usd parse_float reservation
                in if reserved \<le> 0 then Some 0
                   else (case review_observed_usd of None \<Rightarrow> None
                         | Some observed \<Rightarrow> Some (balance (max 0 (float_sub reserved observed))))))"

text \<open>\<^verbatim>\<open>int(v)\<close>; None where it raises.\<close>

fun to_int :: "(string \<Rightarrow> int option) \<Rightarrow> pyval \<Rightarrow> int option" where
  "to_int parse_int (PInt i) = Some i"
| "to_int parse_int (PBool b) = Some (of_bool b)"
| "to_int parse_int (PFloat r) = Some (truncate r)"
| "to_int parse_int (PStr s) = parse_int s"
| "to_int parse_int _ = None"

definition released_record :: "pydict \<Rightarrow> string \<Rightarrow> pyval \<Rightarrow> rat \<Rightarrow> int \<Rightarrow> rat \<Rightarrow> rat \<Rightarrow> int \<Rightarrow> pydict" where
  "released_record d reason review_cycle observed cycles retained remaining release_count =
     dict_set ''release_count'' (PInt (release_count + 1))
      (dict_set ''released_review_usd'' (PFloat (balance (float_sub remaining retained)))
       (dict_set ''retained_review_usd'' (PFloat retained)
        (dict_set ''retained_review_cycles'' (PInt (max 0 cycles))
         (dict_set ''review_observed_at_release_usd'' (PFloat (py_round 4 observed))
          (dict_set ''release_review_cycle'' review_cycle
           (dict_set ''release_reason'' (PStr reason)
            (dict_set ''released'' (PBool True) d)))))))"

definition release_review_reservation :: "(string \<Rightarrow> rat option) \<Rightarrow> (string \<Rightarrow> int option) \<Rightarrow> pydict option \<Rightarrow> rat option \<Rightarrow> int \<Rightarrow> pyval \<Rightarrow> string
    \<Rightarrow> pydict option py_result" where
  "release_review_reservation parse_float parse_int reservation review_observed_usd retained_cycles review_cycle reason =
     (case (reservation, review_observed_usd) of
        (Some d, Some observed) \<Rightarrow>
          if reserved_review_usd parse_float reservation \<le> 0 then Inr reservation
          else (let cycle_cost = amount_or_zero parse_float (py_get d ''review_cycle_cost_usd'')
                in case remaining_reserved_review_usd parse_float reservation review_observed_usd of
                     None \<Rightarrow> Inr reservation
                   | Some remaining \<Rightarrow>
                       (let retained = balance (min remaining (float_mul (of_int (max 0 retained_cycles)) cycle_cost));
                            count = py_get d ''release_count''
                        in case to_int parse_int (if py_truthy count then count else PInt 0) of
                             None \<Rightarrow> Inl (ValueError ''release_count'')
                           | Some n \<Rightarrow> Inr (Some (released_record d reason review_cycle observed retained_cycles retained remaining n))))
      | _ \<Rightarrow> Inr reservation)"

definition reserved_review_shortfall :: "(string \<Rightarrow> rat option) \<Rightarrow> pydict option \<Rightarrow> pydict option \<Rightarrow> rat option \<Rightarrow> rat option \<Rightarrow> string list \<Rightarrow> rat
    \<Rightarrow> pydict option" where
  "reserved_review_shortfall parse_float reservation allocation observed_usd review_observed_usd participants planned_usd =
     (let reserved = reserved_review_usd parse_float reservation;
          whole = phase_funding_shortfall parse_float allocation observed_usd ''review'' participants planned_usd
      in if reserved \<le> 0 \<or> participants = [] then whole
         else (case remaining_reserved_review_usd parse_float reservation review_observed_usd of
                 None \<Rightarrow> None
               | Some reserved_remaining \<Rightarrow>
                   if reserved_remaining \<ge> balance planned_usd then None
                   else (case whole of None \<Rightarrow> None
                         | Some shortfall \<Rightarrow>
                             (let d = (case reservation of None \<Rightarrow> [] | Some d \<Rightarrow> d)
                              in Some (dict_set ''reserved_review_released'' (PBool (py_truthy (py_get d ''released'')))
                                   (dict_set ''reserved_review_remaining_usd'' (PFloat reserved_remaining)
                                    (dict_set ''reserved_review_cycles'' (py_get d ''reserved_review_cycles'')
                                     (dict_set ''reserved_review_usd'' (PFloat (balance reserved)) shortfall))))))))"

text \<open>The money an attempt outside review may still use, as the code computes it.\<close>

definition nonreview_observed :: "rat \<Rightarrow> rat \<Rightarrow> rat" where
  "nonreview_observed observed review_observed = balance (max 0 (float_sub observed review_observed))"

definition nonreview_ceiling :: "rat \<Rightarrow> rat \<Rightarrow> rat \<Rightarrow> rat" where
  "nonreview_ceiling allocation_usd review_observed protected =
     balance (max 0 (float_sub (float_sub allocation_usd review_observed) protected))"

definition nonreview_funding_exhausted :: "(string \<Rightarrow> rat option) \<Rightarrow> pydict option \<Rightarrow> pydict option \<Rightarrow> rat option \<Rightarrow> rat option \<Rightarrow> string list
    \<Rightarrow> string \<Rightarrow> pydict option" where
  "nonreview_funding_exhausted parse_float reservation allocation observed_usd review_observed_usd participants phase =
     (let reserved = reserved_review_usd parse_float reservation;
          alloc = (case allocation of None \<Rightarrow> [] | Some a \<Rightarrow> a);
          d = (case reservation of None \<Rightarrow> [] | Some x \<Rightarrow> x)
      in if reserved \<le> 0 then None
         else (case (observed_usd, review_observed_usd, to_float parse_float (py_get alloc ''allocation_usd''),
                     remaining_reserved_review_usd parse_float reservation review_observed_usd) of
                 (Some observed, Some review_observed, Some allocation_usd, Some protected) \<Rightarrow>
                   (let used = nonreview_observed observed review_observed;
                        pool = nonreview_ceiling allocation_usd review_observed protected;
                        remaining = balance (float_sub pool used)
                    in if remaining > 0 then None
                       else Some ([(''phase'', PStr phase), (''participants'', PList (map PStr participants)), (''planned_usd'', PFloat 0),
                              (''observed_usd'', PFloat used), (''allocation_usd'', PFloat (py_round 2 allocation_usd)),
                              (''remaining_usd'', PFloat remaining), (''nonreview_exhausted'', PBool True),
                              (''nonreview_allocation_usd'', PFloat pool), (''reserved_review_usd'', PFloat (balance reserved)),
                              (''reserved_review_cycles'', py_get d ''reserved_review_cycles''),
                              (''reserved_review_remaining_usd'', PFloat protected),
                              (''reserved_review_released'', PBool (py_truthy (py_get d ''released''))),
                              (''total_observed_usd'', PFloat (py_round 4 observed))] @ allocation_evidence alloc))
               | _ \<Rightarrow> None))"

subsection \<open>Reconciliation at seating time\<close>

record reconciliation =
  rc_requested :: int
  rc_reconciled :: int
  rc_affordable :: "int option"
  rc_allocation_usd :: "rat option"
  rc_basis :: pyval
  rc_complexity_score :: pyval
  rc_spent_so_far_usd :: "rat option"
  rc_dev_cost_estimate_usd :: "rat option"
  rc_dev_basis :: pydict
  rc_review_cycle_cost_usd :: "rat option"
  rc_review_basis :: pydict
  rc_review_comparable :: "bool option"
  rc_remaining_after_dev_usd :: "rat option"
  rc_reserved_cycles :: int
  rc_reserved_usd :: rat
  rc_shortfall_usd :: "rat option"
  rc_action :: string

text \<open>The entries copied from the two bases, as (key of the record, key of the basis).\<close>

definition dev_basis_keys :: "(string \<times> string) list" where
  "dev_basis_keys =
     [(''dev_cost_estimate_basis'', ''source''), (''dev_cost_estimate_basis_reason'', ''reason''),
      (''dev_cost_estimate_statistic'', ''statistic''), (''dev_cost_estimate_scope'', ''scope''),
      (''dev_cost_estimate_band'', ''band''), (''dev_cost_estimate_complexity_score'', ''complexity_score''),
      (''dev_cost_estimate_sample_count'', ''sample_count''), (''dev_cost_estimate_headroom_multiplier'', ''headroom_multiplier''),
      (''dev_cost_estimate_headroom_basis'', ''headroom_basis''), (''dev_cost_estimate_comparable'', ''allocation_comparable'')]"

definition review_basis_keys :: "(string \<times> string) list" where
  "review_basis_keys =
     [(''review_cycle_cost_basis'', ''basis''), (''review_cycle_cost_sample_count'', ''sample_count''),
      (''review_cycle_cost_median_usd'', ''median_usd''), (''review_cycle_cost_p90_usd'', ''p90_usd''),
      (''review_cycle_cost_max_usd'', ''max_usd''), (''review_cycle_cost_headroom_multiplier'', ''headroom_multiplier''),
      (''review_cycle_cost_reason'', ''reason''), (''review_cycle_cost_composition'', ''composition''),
      (''review_cycle_cost_complexity_score'', ''complexity_score''),
      (''review_cycle_cost_requested_complexity_score'', ''requested_complexity_score'')]"

definition copy_basis :: "(string \<times> string) list \<Rightarrow> pydict option \<Rightarrow> pydict" where
  "copy_basis keys basis = map (\<lambda>(k, b). (k, case basis of None \<Rightarrow> PNone | Some d \<Rightarrow> py_get d b)) keys"

definition dev_estimate_comparable_to_allocation :: "(string \<Rightarrow> rat option) \<Rightarrow> (string \<Rightarrow> int option) \<Rightarrow> pydict option \<Rightarrow> pydict option \<Rightarrow> bool" where
  "dev_estimate_comparable_to_allocation parse_float parse_int basis allocation =
     (case basis of None \<Rightarrow> False
      | Some b \<Rightarrow>
          py_get b ''source'' = PStr ''profile_observed_score'' \<and> py_get b ''statistic'' = PStr ''avg_cost_usd''
          \<and> py_get b ''headroom_basis'' = PStr ''allocation_headroom'' \<and> py_truthy (py_get b ''allocation_comparable'')
          \<and> to_float parse_float (py_get b ''headroom_multiplier'') = Some band_headroom
          \<and> (case (to_int parse_int (py_get b ''complexity_score''),
                   to_int parse_int (py_get (case allocation of None \<Rightarrow> [] | Some a \<Rightarrow> a) ''complexity_score'')) of
               (Some x, Some y) \<Rightarrow> x = y | _ \<Rightarrow> False))"

definition review_price_comparable_to_allocation :: "(string \<Rightarrow> int option) \<Rightarrow> pydict option \<Rightarrow> pydict option \<Rightarrow> bool" where
  "review_price_comparable_to_allocation parse_int planning allocation =
     (case planning of None \<Rightarrow> False
      | Some p \<Rightarrow>
          py_get p ''basis'' \<in> PStr ` set comparable_review_cycle_bases
          \<and> (case (to_int parse_int (py_get p ''complexity_score''),
                   to_int parse_int (py_get (case allocation of None \<Rightarrow> [] | Some a \<Rightarrow> a) ''complexity_score'')) of
               (Some x, Some y) \<Rightarrow> x = y | _ \<Rightarrow> False))"

text \<open>Whole units of the reported precision.\<close>

definition usd_units :: "rat \<Rightarrow> int" where
  "usd_units x = round_half_even (float_mul x 10000)"

definition affordable_cycles :: "rat \<Rightarrow> rat \<Rightarrow> int py_result" where
  "affordable_cycles remaining cycle_cost =
     (if usd_units remaining < usd_units cycle_cost then Inr 0
      else if usd_units cycle_cost = 0 then Inl ZeroDivisionError
      else Inr (usd_units remaining div usd_units cycle_cost))"

record seating =
  sg_allocation :: "pydict option"
  sg_dev_estimate :: "rat option"
  sg_dev_basis :: "pydict option"
  sg_cycle_cost :: "rat option"
  sg_planning :: "pydict option"
  sg_requested :: int
  sg_spent :: "rat option"

definition undecided :: "seating \<Rightarrow> reconciliation" where
  "undecided g =
     \<lparr>rc_requested = sg_requested g, rc_reconciled = sg_requested g, rc_affordable = None, rc_allocation_usd = None,
      rc_basis = PNone, rc_complexity_score = PNone, rc_spent_so_far_usd = map_option (py_round 4) (sg_spent g),
      rc_dev_cost_estimate_usd = None, rc_dev_basis = copy_basis dev_basis_keys None, rc_review_cycle_cost_usd = None,
      rc_review_basis = copy_basis review_basis_keys None, rc_review_comparable = None, rc_remaining_after_dev_usd = None,
      rc_reserved_cycles = 0, rc_reserved_usd = 0, rc_shortfall_usd = None, rc_action = ''within_allocation''\<rparr>"

definition fit_cycles :: "int \<Rightarrow> rat \<Rightarrow> rat \<Rightarrow> int \<Rightarrow> bool \<Rightarrow> reconciliation \<Rightarrow> reconciliation" where
  "fit_cycles requested remaining cycle_cost affordable comparable r0 =
     (let r = r0\<lparr>rc_remaining_after_dev_usd := Some remaining, rc_affordable := Some affordable\<rparr>
      in if affordable = 0
         then (if \<not> comparable then r\<lparr>rc_action := ''review_cost_not_comparable''\<rparr>
               else r\<lparr>rc_action := ''review_unfundable'', rc_shortfall_usd := Some (py_round 4 (float_sub cycle_cost remaining))\<rparr>)
         else if affordable \<ge> requested
         then r\<lparr>rc_action := ''within_allocation'', rc_reserved_cycles := requested,
                rc_reserved_usd := py_round 4 (float_mul (of_int requested) cycle_cost)\<rparr>
         else r\<lparr>rc_reconciled := affordable, rc_action := ''review_max_reduced'', rc_reserved_cycles := affordable,
                rc_reserved_usd := py_round 4 (float_mul (of_int affordable) cycle_cost),
                rc_shortfall_usd := Some (py_round 4 (float_sub (float_mul (of_int (requested - affordable)) cycle_cost)
                  (float_sub remaining (float_mul (of_int affordable) cycle_cost))))\<rparr>)"

definition reconcile_review_cycles :: "(string \<Rightarrow> rat option) \<Rightarrow> (string \<Rightarrow> int option) \<Rightarrow> seating \<Rightarrow> reconciliation py_result" where
  "reconcile_review_cycles parse_float parse_int g =
     (let r0 = undecided g; alloc = (case sg_allocation g of None \<Rightarrow> [] | Some a \<Rightarrow> a)
      in case to_float parse_float (py_get alloc ''allocation_usd'') of
           None \<Rightarrow> Inr (r0\<lparr>rc_action := ''no_allocation''\<rparr>)
         | Some allocation_usd \<Rightarrow>
             (let r1 = r0\<lparr>rc_allocation_usd := Some (py_round 2 allocation_usd), rc_basis := py_get alloc ''basis'',
                    rc_complexity_score := py_get alloc ''complexity_score''\<rparr>
              in if py_get alloc ''basis'' \<noteq> PStr ''substrate_band'' then Inr (r1\<lparr>rc_action := ''no_band_history''\<rparr>)
                 else (case sg_spent g of None \<Rightarrow> Inr (r1\<lparr>rc_action := ''cost_unknown''\<rparr>)
                 | Some spent_so_far \<Rightarrow>
                     (let dev_estimate = (case sg_dev_estimate g of None \<Rightarrow> 0 | Some x \<Rightarrow> x);
                          r2 = r1\<lparr>rc_dev_cost_estimate_usd := Some (py_round 4 dev_estimate),
                                 rc_dev_basis := copy_basis dev_basis_keys (sg_dev_basis g)\<rparr>;
                          cycle_cost = (case sg_cycle_cost g of None \<Rightarrow> 0 | Some x \<Rightarrow> x);
                          comparable = review_price_comparable_to_allocation parse_int (sg_planning g) (sg_allocation g);
                          r3 = r2\<lparr>rc_review_cycle_cost_usd := Some (py_round 4 cycle_cost),
                                 rc_review_basis := copy_basis review_basis_keys (sg_planning g), rc_review_comparable := Some comparable\<rparr>
                      in if dev_estimate \<le> 0 then Inr (r1\<lparr>rc_action := ''no_dev_estimate''\<rparr>)
                         else if cycle_cost \<le> 0 then Inr (r2\<lparr>rc_action := ''no_review_cost''\<rparr>)
                         else if sg_requested g \<le> 0 then Inr (r3\<lparr>rc_action := ''within_allocation''\<rparr>)
                         else if \<not> dev_estimate_comparable_to_allocation parse_float parse_int (sg_dev_basis g) (sg_allocation g)
                         then Inr (r3\<lparr>rc_action := ''dev_estimate_not_comparable''\<rparr>)
                         else (let remaining = balance (float_sub (float_sub allocation_usd spent_so_far) dev_estimate)
                               in py_bind (affordable_cycles remaining cycle_cost) (\<lambda>affordable.
                                    Inr (fit_cycles (sg_requested g) remaining cycle_cost affordable comparable r3)))))))"

definition reconciliation_as_dict :: "reconciliation \<Rightarrow> pydict" where
  "reconciliation_as_dict r =
     [(''requested_review_max'', PInt (rc_requested r)), (''reconciled_review_max'', PInt (rc_reconciled r)),
      (''affordable_review_cycles'', opt_int (rc_affordable r)), (''allocation_usd'', opt_figure (rc_allocation_usd r)),
      (''spent_so_far_usd'', opt_figure (rc_spent_so_far_usd r)), (''dev_cost_estimate_usd'', opt_figure (rc_dev_cost_estimate_usd r)),
      (''review_cycle_cost_usd'', opt_figure (rc_review_cycle_cost_usd r))]
     @ rc_review_basis r
     @ [(''review_cycle_cost_comparable'', case rc_review_comparable r of None \<Rightarrow> PNone | Some b \<Rightarrow> PBool b)]
     @ rc_dev_basis r
     @ [(''remaining_after_dev_usd'', opt_figure (rc_remaining_after_dev_usd r)), (''reserved_review_cycles'', PInt (rc_reserved_cycles r)),
        (''reserved_review_usd'', PFloat (rc_reserved_usd r)), (''action'', PStr (rc_action r))]
     @ (if rc_allocation_usd r \<noteq> None then [(''basis'', rc_basis r), (''complexity_score'', rc_complexity_score r)] else [])
     @ (case rc_shortfall_usd r of None \<Rightarrow> [] | Some x \<Rightarrow> [(''shortfall_usd'', PFloat x)])"

text \<open>What seating leaves on the state for the later phases (\<^verbatim>\<open>coordinator/engine.py\<close>).\<close>

definition seated_reservation :: "reconciliation \<Rightarrow> pydict" where
  "seated_reservation r =
     [(''allocation_usd'', opt_figure (rc_allocation_usd r)), (''reserved_review_usd'', PFloat (rc_reserved_usd r)),
      (''reserved_review_cycles'', PInt (rc_reserved_cycles r)), (''review_cycle_cost_usd'', opt_figure (rc_review_cycle_cost_usd r)),
      (''action'', PStr (rc_action r))]
     @ (case rc_allocation_usd r of None \<Rightarrow> []
        | Some a \<Rightarrow> if rc_reserved_usd r \<noteq> 0 then [(''nonreview_allocation_usd'', PFloat (py_round 4 (float_sub a (rc_reserved_usd r))))] else [])"

definition seating_shortfall :: "(string \<Rightarrow> rat option) \<Rightarrow> pydict option \<Rightarrow> reconciliation \<Rightarrow> string list \<Rightarrow> pydict option" where
  "seating_shortfall parse_float allocation r participants =
     (if rc_action r \<noteq> ''review_unfundable'' then None
      else (let projected = float_add (case rc_spent_so_far_usd r of None \<Rightarrow> 0 | Some x \<Rightarrow> x)
                  (case rc_dev_cost_estimate_usd r of None \<Rightarrow> 0 | Some x \<Rightarrow> x)
            in case phase_funding_shortfall parse_float allocation (Some projected) ''review'' participants
                      (case rc_review_cycle_cost_usd r of None \<Rightarrow> 0 | Some x \<Rightarrow> x) of
                 None \<Rightarrow> None
               | Some shortfall \<Rightarrow> Some (dict_set ''seating_reconciliation'' (PDict (reconciliation_as_dict r))
                                          (dict_set ''projected'' (PBool True) shortfall))))"

subsection \<open>Role budgets\<close>

definition scale_role_budgets :: "(string, rat) dict \<Rightarrow> rat \<Rightarrow> string list \<Rightarrow> rat \<Rightarrow> (string, rat) dict" where
  "scale_role_budgets current allocation_usd locked floor_usd =
     (let scalable = filter (\<lambda>(name, value). name \<notin> set locked) current;
          scalable_total = float_sum (map snd scalable)
      in if scalable = [] \<or> scalable_total \<le> 0 then current
         else (let locked_total = float_sum (map snd (filter (\<lambda>(name, value). name \<in> set locked) current));
                   remaining = float_sub allocation_usd locked_total
               in if remaining \<le> 0
                  then map (\<lambda>(name, value). (name, if name \<in> set locked then value else floor_usd)) current
                  else (let factor = float_div remaining scalable_total
                        in map (\<lambda>(name, value). (name, if name \<in> set locked then value
                             else max (py_round 4 (float_mul value factor)) floor_usd)) current)))"

section \<open>Reconciliation\<close>

text \<open>The decision over the figures, once every guard has passed.\<close>

definition seating_figures :: "(string \<Rightarrow> rat option) \<Rightarrow> (string \<Rightarrow> int option) \<Rightarrow> seating \<Rightarrow> (rat \<times> rat) option" where
  "seating_figures parse_float parse_int g =
     (case (sg_allocation g, sg_spent g, sg_dev_estimate g, sg_cycle_cost g) of
        (Some a, Some spent, Some dev, Some cycle_cost) \<Rightarrow>
          (case to_float parse_float (py_get a ''allocation_usd'') of
             None \<Rightarrow> None
           | Some usd \<Rightarrow>
               if py_get a ''basis'' = PStr ''substrate_band'' \<and> 0 < dev \<and> 0 < cycle_cost \<and> 0 < sg_requested g
                  \<and> dev_estimate_comparable_to_allocation parse_float parse_int (sg_dev_basis g) (sg_allocation g)
               then Some (balance (float_sub (float_sub usd spent) dev), cycle_cost) else None)
      | _ \<Rightarrow> None)"

lemma py_get_empty [simp]: "py_get [] k = PNone"
  by (simp add: py_get_def)

lemma reconcile_cases:
  "(seating_figures parse_float parse_int g = None
     \<and> (\<exists>r. reconcile_review_cycles parse_float parse_int g = Inr r \<and> rc_requested r = sg_requested g \<and> rc_reconciled r = sg_requested g
          \<and> rc_reserved_cycles r = 0 \<and> rc_reserved_usd r = 0 \<and> rc_action r \<noteq> ''review_unfundable'' \<and> rc_action r \<noteq> ''review_max_reduced''))
   \<or> (\<exists>remaining cycle_cost r0. seating_figures parse_float parse_int g = Some (remaining, cycle_cost) \<and> 0 < cycle_cost \<and> 0 < sg_requested g
        \<and> sg_cycle_cost g = Some cycle_cost
        \<and> reconcile_review_cycles parse_float parse_int g =
            py_bind (affordable_cycles remaining cycle_cost) (\<lambda>affordable. Inr (fit_cycles (sg_requested g) remaining cycle_cost affordable
              (review_price_comparable_to_allocation parse_int (sg_planning g) (sg_allocation g)) r0))
        \<and> rc_requested r0 = sg_requested g \<and> rc_reconciled r0 = sg_requested g \<and> rc_reserved_cycles r0 = 0 \<and> rc_reserved_usd r0 = 0
        \<and> rc_review_cycle_cost_usd r0 = Some (py_round 4 cycle_cost) \<and> rc_spent_so_far_usd r0 = map_option (py_round 4) (sg_spent g)
        \<and> rc_dev_cost_estimate_usd r0 = map_option (py_round 4) (sg_dev_estimate g))"
  unfolding seating_figures_def reconcile_review_cycles_def Let_def undecided_def
  by (cases "sg_allocation g"; cases "sg_spent g"; cases "sg_dev_estimate g"; cases "sg_cycle_cost g")
    (auto split: option.splits)

lemma usd_units_mono: "x \<le> y \<Longrightarrow> usd_units x \<le> usd_units y"
  unfolding usd_units_def float_mul_def by (intro round_half_even_mono fl_mono) simp

lemma usd_units_nonneg: "0 \<le> x \<Longrightarrow> 0 \<le> usd_units x"
  using usd_units_mono [of 0 x] by (simp add: usd_units_def float_mul_def)

lemma affordable_cycles_spec:
  assumes "0 < cycle_cost" "affordable_cycles remaining cycle_cost = Inr n"
  shows "0 \<le> n" "n = 0 \<longleftrightarrow> usd_units remaining < usd_units cycle_cost"
    "n \<noteq> 0 \<Longrightarrow> n * usd_units cycle_cost \<le> usd_units remaining" "usd_units remaining < (n + 1) * usd_units cycle_cost"
proof -
  let ?r = "usd_units remaining" and ?c = "usd_units cycle_cost"
  have c: "0 \<le> ?c" using assms(1) by (simp add: usd_units_nonneg)
  have n: "?r < ?c \<and> n = 0 \<or> \<not> ?r < ?c \<and> 0 < ?c \<and> n = ?r div ?c"
    using assms(2) c by (auto simp: affordable_cycles_def split: if_splits)
  then show "0 \<le> n" by (auto simp: pos_imp_zdiv_nonneg_iff)
  show "n = 0 \<longleftrightarrow> ?r < ?c" using n pos_imp_zdiv_pos_iff [of ?c ?r] by auto
  show "n * ?c \<le> ?r" if "n \<noteq> 0" using n that by (auto simp: minus_mod_eq_div_mult [symmetric])
  have "?r < (?r div ?c + 1) * ?c" if "0 < ?c"
    using pos_mod_bound [OF that, of ?r] div_mult_mod_eq [of ?r ?c] unfolding distrib_right by linarith
  with n show "?r < (n + 1) * ?c" by auto
qed

lemma affordable_cycles_total: "usd_units cycle_cost \<noteq> 0 \<Longrightarrow> \<exists>n. affordable_cycles remaining cycle_cost = Inr n"
  by (simp add: affordable_cycles_def)

text \<open>A price rounded to the reported precision is zero or at least one unit.\<close>

lemma usd_units_least: "1 \<le> usd_units (fl (1 / 10 ^ 4))"
proof -
  have "(2::rat) powi (-1022) \<le> 2 powi (-14)" by (intro power_int_increasing) simp_all
  also have "\<dots> \<le> 1 / 10 ^ 4" by (simp add: power_int_minus)
  finally have "1 / 10 ^ 4 * (1 - 1 / 2 ^ 53) \<le> fl (1 / 10 ^ 4)" by (rule fl_lower)
  then have "3 / 4 \<le> fl (1 / 10 ^ 4) * 10000" by simp
  from fl_mono [OF this] have "fl (3 / 4) \<le> float_mul (fl (1 / 10 ^ 4)) 10000" by (simp add: float_mul_def)
  moreover have "fl (3 / 4) = 3 / 4" by (rule fl_exact [of _ 3 "-2"]) (simp_all add: power_int_minus)
  moreover have "round_half_even (3 / 4) = 1" by (rule round_half_even_unique) simp
  ultimately show ?thesis using round_half_even_mono [of "3 / 4"] by (fastforce simp: usd_units_def)
qed

lemma usd_units_rounded:
  assumes "0 < py_round 4 x"
  shows "1 \<le> usd_units (py_round 4 x)"
proof -
  have "1 \<le> round_half_even (x * 10 ^ 4)"
  proof (rule ccontr)
    assume "\<not> 1 \<le> round_half_even (x * 10 ^ 4)"
    then have "of_int (round_half_even (x * 10 ^ 4)) / 10 ^ 4 \<le> (0 :: rat)" by (simp add: divide_le_0_iff)
    then have "py_round 4 x \<le> fl 0" unfolding py_round_def by (rule fl_mono)
    with assms show False by simp
  qed
  then have "fl (1 / 10 ^ 4) \<le> py_round 4 x" unfolding py_round_def by (intro fl_mono divide_right_mono) simp_all
  with usd_units_mono usd_units_least show ?thesis by (meson order_trans)
qed

lemma reconcile_total:
  assumes "sg_cycle_cost g = Some (py_round 4 x)"
  shows "\<exists>r. reconcile_review_cycles parse_float parse_int g = Inr r \<and> rc_requested r = sg_requested g"
  using reconcile_cases [of parse_float parse_int g]
proof (elim disjE conjE exE)
  fix remaining cycle_cost r0
  assume c: "0 < cycle_cost" "sg_cycle_cost g = Some cycle_cost" and r0: "rc_requested r0 = sg_requested g"
    and eq: "reconcile_review_cycles parse_float parse_int g = py_bind (affordable_cycles remaining cycle_cost)
      (\<lambda>affordable. Inr (fit_cycles (sg_requested g) remaining cycle_cost affordable
        (review_price_comparable_to_allocation parse_int (sg_planning g) (sg_allocation g)) r0))"
  from c assms usd_units_rounded [of x] have "usd_units cycle_cost \<noteq> 0" by auto
  with affordable_cycles_total obtain n where "affordable_cycles remaining cycle_cost = Inr n" by blast
  then show ?thesis unfolding eq using r0 by (simp add: fit_cycles_def Let_def)
qed blast

text \<open>Seating returns a decision for every price the planner produces: such a price is rounded to the
  reported precision, so it is either not positive, which decides nothing, or at least one unit, and the
  division by it is defined.
\<close>

theorem seating_always_decides:
  assumes "p = derive_review_cycle_planning_price float_repr parse_float' records reason_prefix ceiling_usd names score min_samples headroom"
    and "sg_cycle_cost g = Some (pp_planned_cost_usd p)"
  shows "\<exists>r. reconcile_review_cycles parse_float parse_int g = Inr r \<and> rc_requested r = sg_requested g"
  using planning_price_rounded [of ceiling_usd float_repr parse_float' records reason_prefix names score min_samples headroom]
    assms reconcile_total [of g _ parse_float parse_int] by metis

theorem seating_always_decides_witness:
  "\<exists>r. reconcile_review_cycles (\<lambda>_. None) (\<lambda>_. None)
     \<lparr>sg_allocation = None, sg_dev_estimate = Some 1, sg_dev_basis = None,
      sg_cycle_cost = Some (pp_planned_cost_usd (derive_review_cycle_planning_price (\<lambda>_. []) (\<lambda>_. None) [] [] 2 [] None 3 1)),
      sg_planning = None, sg_requested = 2, sg_spent = Some 0\<rparr> = Inr r"
  using seating_always_decides [OF refl, of "\<lparr>sg_allocation = None, sg_dev_estimate = Some 1, sg_dev_basis = None,
      sg_cycle_cost = Some (pp_planned_cost_usd (derive_review_cycle_planning_price (\<lambda>_. []) (\<lambda>_. None) [] [] 2 [] None 3 1)),
      sg_planning = None, sg_requested = 2, sg_spent = Some 0\<rparr>" "\<lambda>_. []" "\<lambda>_. None" "[]" "[]" 2 "[]" None 3 1]
  by auto

text \<open>C22. A reconciliation that returns keeps the permission or lowers it. What it reserves fits, in whole units
  of the reported precision, in what the allocation leaves after spend and dev estimate; the lowered permission is
  the largest that fits; and it refuses the story outright only when the allocation comes from recorded
  history, both prices were drawn from the allocation's own population, and not one cycle fits.
\<close>

theorem reconciliation_sound:
  assumes "reconcile_review_cycles parse_float parse_int g = Inr r"
  shows "rc_reconciled r \<le> sg_requested g
    \<and> (rc_action r = ''review_max_reduced'' \<longleftrightarrow> rc_reconciled r < sg_requested g)
    \<and> (rc_reserved_cycles r \<noteq> 0 \<longrightarrow> rc_reserved_cycles r = rc_reconciled r
         \<and> (\<exists>remaining cycle_cost. seating_figures parse_float parse_int g = Some (remaining, cycle_cost)
              \<and> 1 \<le> rc_reserved_cycles r \<and> rc_reserved_cycles r * usd_units cycle_cost \<le> usd_units remaining
              \<and> (rc_reconciled r < sg_requested g \<longrightarrow> usd_units remaining < (rc_reserved_cycles r + 1) * usd_units cycle_cost)))
    \<and> (rc_action r = ''review_unfundable'' \<longleftrightarrow>
         (\<exists>remaining cycle_cost. seating_figures parse_float parse_int g = Some (remaining, cycle_cost)
            \<and> usd_units remaining < usd_units cycle_cost
            \<and> review_price_comparable_to_allocation parse_int (sg_planning g) (sg_allocation g)))"
  using reconcile_cases [of parse_float parse_int g]
proof (elim disjE conjE exE)
  fix remaining cycle_cost r0
  assume f: "seating_figures parse_float parse_int g = Some (remaining, cycle_cost)" and c: "0 < cycle_cost" "0 < sg_requested g"
    and r0: "rc_requested r0 = sg_requested g" "rc_reconciled r0 = sg_requested g" "rc_reserved_cycles r0 = 0"
    and eq: "reconcile_review_cycles parse_float parse_int g = py_bind (affordable_cycles remaining cycle_cost)
      (\<lambda>affordable. Inr (fit_cycles (sg_requested g) remaining cycle_cost affordable
        (review_price_comparable_to_allocation parse_int (sg_planning g) (sg_allocation g)) r0))"
  from eq assms obtain n where n: "affordable_cycles remaining cycle_cost = Inr n"
    and r: "r = fit_cycles (sg_requested g) remaining cycle_cost n
        (review_price_comparable_to_allocation parse_int (sg_planning g) (sg_allocation g)) r0"
    by (cases "affordable_cycles remaining cycle_cost") auto
  note a = affordable_cycles_spec [OF c(1) n]
  have "sg_requested g * usd_units cycle_cost \<le> usd_units remaining" if "sg_requested g \<le> n" "n \<noteq> 0"
    using that a(3) usd_units_nonneg [of cycle_cost] c(1) mult_right_mono [of "sg_requested g" n "usd_units cycle_cost"] by simp
  then show ?thesis unfolding r using f c r0 a by (auto simp: fit_cycles_def Let_def)
qed (use assms in auto)

text \<open>An instance with whole dollars: ten allocated, one spent, four estimated for dev, two per cycle.\<close>

definition sample_allocation :: pydict where
  "sample_allocation = [(''allocation_usd'', PFloat 10), (''basis'', PStr ''substrate_band''), (''complexity_score'', PInt 3)]"

definition sample_seating :: seating where
  "sample_seating =
     \<lparr>sg_allocation = Some sample_allocation, sg_dev_estimate = Some 4,
      sg_dev_basis = Some [(''source'', PStr ''profile_observed_score''), (''statistic'', PStr ''avg_cost_usd''),
        (''headroom_basis'', PStr ''allocation_headroom''), (''allocation_comparable'', PBool True),
        (''headroom_multiplier'', PFloat (5 / 4)), (''complexity_score'', PInt 3)],
      sg_cycle_cost = Some 2,
      sg_planning = Some [(''basis'', PStr ''observed_complexity_score''), (''complexity_score'', PInt 3)],
      sg_requested = 3, sg_spent = Some 1\<rparr>"

lemma fl_numeral: "(numeral k :: int) \<le> 2 ^ 53 \<Longrightarrow> fl (numeral k) = numeral k"
  using fl_of_int [of "numeral k"] by simp

lemma py_round_of_int: "\<bar>n\<bar> \<le> 2 ^ 53 \<Longrightarrow> py_round d (of_int n) = of_int n"
  using round_half_even_int [of "n * 10 ^ d"] fl_of_int [of n] by (simp add: py_round_def)

lemma py_round_numeral: "(numeral k :: int) \<le> 2 ^ 53 \<Longrightarrow> py_round d (numeral k) = numeral k"
  using py_round_of_int [of "numeral k" d] by simp

lemma usd_units_numeral: "(numeral k * 10000 :: int) \<le> 2 ^ 53 \<Longrightarrow> usd_units (numeral k) = numeral k * 10000"
  using fl_of_int [of "numeral k * 10000"] round_half_even_int [of "numeral k * 10000"]
  by (simp add: usd_units_def float_mul_def)

lemma sample_seating_figures: "seating_figures parse_float parse_int sample_seating = Some (5, 2)"
  by (simp add: sample_seating_def sample_allocation_def seating_figures_def py_get_def dev_estimate_comparable_to_allocation_def band_headroom_def
      float_sub_def balance_def fl_numeral py_round_numeral)

lemma sample_seating_decided:
  "\<exists>r. reconcile_review_cycles parse_float parse_int sample_seating = Inr r \<and> rc_action r = ''review_max_reduced'' \<and> rc_reconciled r = 2"
proof -
  have "affordable_cycles 5 2 = Inr 2" by (simp add: affordable_cycles_def usd_units_numeral)
  with reconcile_cases [of parse_float parse_int sample_seating] show ?thesis
    by (auto simp: sample_seating_figures fit_cycles_def Let_def) (simp_all add: sample_seating_def)
qed

theorem reconciliation_sound_witness:
  "\<exists>r. reconcile_review_cycles (\<lambda>_. None) (\<lambda>_. None) sample_seating = Inr r \<and> rc_reconciled r < sg_requested sample_seating"
  using sample_seating_decided [of "\<lambda>_. None" "\<lambda>_. None"] reconciliation_sound [of "\<lambda>_. None" "\<lambda>_. None" sample_seating]
  by blast

section \<open>The reservation across the phases\<close>

lemma amount_or_zero_float [simp]: "amount_or_zero parse_float (PFloat x) = max 0 x"
  by (simp add: amount_or_zero_def)

lemma amount_or_zero_nonneg: "0 \<le> amount_or_zero parse_float v"
  by (simp add: amount_or_zero_def split: option.splits)

lemma seated_reserved [simp]: "reserved_review_usd parse_float (Some (seated_reservation r)) = max 0 (rc_reserved_usd r)"
  by (simp add: reserved_review_usd_def seated_reservation_def py_get_def)

lemma seated_not_released [simp]: "py_truthy (py_get (seated_reservation r) ''released'') = False"
  by (auto simp: seated_reservation_def py_get_def split: option.splits)

text \<open>Rounding the balance again changes nothing, for amounts below the thirty-sixth power of two.\<close>

lemma balance_mono: "x \<le> y \<Longrightarrow> balance x \<le> balance y"
  by (simp add: balance_def py_round_mono)

lemma balance_idem:
  assumes "0 \<le> x" "balance x < 2 ^ 36"
  shows "balance (balance x) = balance x"
proof -
  have "x < 2 ^ 36"
  proof (rule ccontr)
    assume "\<not> x < 2 ^ 36"
    then have "balance (2 ^ 36) \<le> balance x" by (intro balance_mono) simp
    moreover have "balance (2 ^ 36) = 2 ^ 36" using py_round_of_int [of "2 ^ 36" 4] by (simp add: balance_def)
    ultimately show False using assms(2) by simp
  qed
  with assms(1) show ?thesis unfolding balance_def by (intro py_round_idem) (simp_all add: abs_of_nonneg)
qed

lemma balance_float: "fl (balance x) = balance x"
  by (simp add: balance_def py_round_def)

lemma balance_nonneg: "0 \<le> x \<Longrightarrow> 0 \<le> balance x"
  by (simp add: balance_def py_round_nonneg)

lemma float_sub_le: "0 \<le> y \<Longrightarrow> fl x = x \<Longrightarrow> float_sub x y \<le> x"
  using fl_mono [of "x - y" x] by (simp add: float_sub_def)

lemma float_mul_count: "1 \<le> n \<Longrightarrow> 0 \<le> x \<Longrightarrow> fl x = x \<Longrightarrow> x \<le> float_mul (of_int n) x"
  using fl_mono [of x "of_int n * x"] mult_right_mono [of 1 "of_int n" x] by (simp add: float_mul_def)

lemma reserved_amount:
  assumes "reconcile_review_cycles parse_float parse_int g = Inr r" "rc_reserved_cycles r \<noteq> 0"
  shows "\<exists>cycle_cost. sg_cycle_cost g = Some cycle_cost \<and> 0 < cycle_cost \<and> 1 \<le> rc_reserved_cycles r
    \<and> rc_reserved_usd r = balance (float_mul (of_int (rc_reserved_cycles r)) cycle_cost)"
  using reconcile_cases [of parse_float parse_int g]
proof (elim disjE conjE exE)
  fix remaining cycle_cost r0
  assume c: "0 < cycle_cost" "0 < sg_requested g" "sg_cycle_cost g = Some cycle_cost" and r0: "rc_reserved_cycles r0 = 0"
    and eq: "reconcile_review_cycles parse_float parse_int g = py_bind (affordable_cycles remaining cycle_cost)
      (\<lambda>affordable. Inr (fit_cycles (sg_requested g) remaining cycle_cost affordable
        (review_price_comparable_to_allocation parse_int (sg_planning g) (sg_allocation g)) r0))"
  from eq assms(1) obtain n where n: "affordable_cycles remaining cycle_cost = Inr n"
    and r: "r = fit_cycles (sg_requested g) remaining cycle_cost n
        (review_price_comparable_to_allocation parse_int (sg_planning g) (sg_allocation g)) r0"
    by (cases "affordable_cycles remaining cycle_cost") auto
  from affordable_cycles_spec(1) [OF c(1) n] assms(2) r0 c show ?thesis
    unfolding r by (auto simp: fit_cycles_def Let_def balance_def)
qed (use assms in auto)

text \<open>C21. Money seated for review is there when review starts: if seating reserved at least one cycle at the
  planner's price, then, before any review spend, no dev overrun makes the check at dispatch refuse
  participants planned at no more than that price.
\<close>

theorem seated_review_is_funded:
  assumes "reconcile_review_cycles parse_float parse_int g = Inr r" "rc_reserved_cycles r \<noteq> 0"
    and "sg_cycle_cost g = Some (py_round 4 price)" "py_round 4 price < 2 ^ 36" "planned_usd \<le> py_round 4 price"
  shows "reserved_review_shortfall parse_float (Some (seated_reservation r)) allocation observed_usd (Some 0) participants planned_usd = None"
proof -
  from reserved_amount [OF assms(1,2)] assms(3) have c: "0 < balance price" and n: "1 \<le> rc_reserved_cycles r"
    and reserved: "rc_reserved_usd r = balance (float_mul (of_int (rc_reserved_cycles r)) (balance price))"
    by (auto simp: balance_def)
  have "0 \<le> price"
  proof (rule ccontr)
    assume "\<not> 0 \<le> price"
    then have "balance price \<le> balance 0" by (intro balance_mono) simp
    with c show False by (simp add: balance_def)
  qed
  then have idem: "balance (balance price) = balance price" using assms(4) by (intro balance_idem) (simp_all add: balance_def)
  have "balance price \<le> float_mul (of_int (rc_reserved_cycles r)) (balance price)"
    using n c by (intro float_mul_count) (simp_all add: balance_float)
  from balance_mono [OF this] have le: "balance price \<le> rc_reserved_usd r" unfolding reserved idem .
  with c have pos: "0 < rc_reserved_usd r" by linarith
  have "float_sub (rc_reserved_usd r) 0 = rc_reserved_usd r" unfolding reserved by (simp add: float_sub_def balance_float)
  then have "remaining_reserved_review_usd parse_float (Some (seated_reservation r)) (Some 0) = Some (balance (rc_reserved_usd r))"
    using pos by (simp add: remaining_reserved_review_usd_def)
  moreover have "balance planned_usd \<le> balance (rc_reserved_usd r)" using assms(5) le by (intro balance_mono) (simp add: balance_def)
  ultimately show ?thesis using pos
    by (cases "participants = []")
      (auto simp: reserved_review_shortfall_def phase_funding_shortfall_def Let_def split: option.splits)
qed

lemma sample_price: "sg_cycle_cost sample_seating = Some (py_round 4 2)"
  by (simp add: sample_seating_def py_round_numeral)

lemma sample_reserves:
  "\<exists>r. reconcile_review_cycles parse_float parse_int sample_seating = Inr r \<and> rc_reserved_cycles r \<noteq> 0"
proof -
  have "affordable_cycles 5 2 = Inr 2" by (simp add: affordable_cycles_def usd_units_numeral)
  with reconcile_cases [of parse_float parse_int sample_seating] show ?thesis
    by (auto simp: sample_seating_figures fit_cycles_def Let_def)
qed

theorem seated_review_is_funded_witness:
  "\<exists>r. reconcile_review_cycles (\<lambda>_. None) (\<lambda>_. None) sample_seating = Inr r
     \<and> reserved_review_shortfall (\<lambda>_. None) (Some (seated_reservation r)) (Some sample_allocation) (Some 9) (Some 0) [''r''] 2 = None"
  using sample_reserves [of "\<lambda>_. None" "\<lambda>_. None"]
    seated_review_is_funded [of "\<lambda>_. None" "\<lambda>_. None" sample_seating _ 2 2 "Some sample_allocation" "Some 9" "[''r'']"]
  by (auto simp: sample_price py_round_numeral)

lemma released_lookups:
  "py_get (released_record d reason review_cycle observed cycles retained remaining n) ''released'' = PBool True"
  "py_get (released_record d reason review_cycle observed cycles retained remaining n) ''retained_review_usd'' = PFloat retained"
  "py_get (released_record d reason review_cycle observed cycles retained remaining n) ''review_observed_at_release_usd'' = PFloat (py_round 4 observed)"
  "py_get (released_record d reason review_cycle observed cycles retained remaining n) ''reserved_review_usd'' = py_get d ''reserved_review_usd''"
  by (simp_all add: released_record_def py_get_def)

lemma retained_is_balance:
  assumes "0 \<le> retained"
  shows "\<exists>x. 0 \<le> x \<and> retained_balance retained baseline observed = balance x"
proof (cases baseline; cases observed)
  fix b obs assume "baseline = Some b" "observed = Some obs"
  then show ?thesis using assms
    by (cases "retained \<le> 0") (force simp: retained_balance_def intro: exI [of _ "max 0 (float_sub retained (max 0 (float_sub obs b)))"])+
qed (use assms in \<open>auto simp: retained_balance_def\<close>)

lemma remaining_is_balance:
  assumes "remaining_reserved_review_usd parse_float reservation observed = Some remaining"
  shows "\<exists>x. 0 \<le> x \<and> remaining = balance x"
proof -
  have zero: "\<exists>x. 0 \<le> x \<and> 0 = balance x" by (intro exI [of _ 0]) (simp add: balance_def)
  have "0 \<le> (case nonneg_float parse_float v (Some 0) of Some x \<Rightarrow> x | None \<Rightarrow> 0)" for v
    by (auto simp: nonneg_float_def split: option.splits)
  note kept = retained_is_balance [OF this]
  have held: "\<exists>x. 0 \<le> x \<and> balance (max 0 y) = balance x" for y by (intro exI [of _ "max 0 y"]) simp
  show ?thesis
    using assms zero kept held unfolding remaining_reserved_review_usd_def Let_def
    by (cases reservation; cases observed) (auto split: if_splits)
qed

lemma retained_balance_le:
  assumes "fl retained = retained" "0 \<le> retained"
  shows "0 \<le> retained_balance retained baseline observed" "retained_balance retained baseline observed \<le> balance retained"
  using assms balance_nonneg balance_mono float_sub_le
  by (auto simp: retained_balance_def split: option.splits)

text \<open>Releasing a review reservation, once or again, never raises the protected balance: whatever review
  spend is measured later, the balance computed from the released record is not negative, at most the
  balance before the release and at most the price of the cycles kept. The seated amount itself is kept.
\<close>

theorem release_never_raises:
  assumes "release_review_reservation parse_float parse_int (Some d) (Some observed) cycles review_cycle reason = Inr (Some d')"
    and "0 < reserved_review_usd parse_float (Some d)"
    and "remaining_reserved_review_usd parse_float (Some d) (Some observed) = Some before" "before < 2 ^ 36"
  shows "\<exists>after. remaining_reserved_review_usd parse_float (Some d') observed' = Some after \<and> 0 \<le> after \<and> after \<le> before
    \<and> after \<le> balance (balance (float_mul (of_int (max 0 cycles)) (amount_or_zero parse_float (py_get d ''review_cycle_cost_usd''))))
    \<and> reserved_review_usd parse_float (Some d') = reserved_review_usd parse_float (Some d)"
proof -
  let ?kept = "float_mul (of_int (max 0 cycles)) (amount_or_zero parse_float (py_get d ''review_cycle_cost_usd''))"
  define retained where "retained = balance (min before ?kept)"
  from assms obtain n where d': "d' = released_record d reason review_cycle observed cycles retained before n"
    by (auto simp: release_review_reservation_def retained_def Let_def not_le split: option.splits if_splits)
  from remaining_is_balance [OF assms(3)] obtain x where x: "0 \<le> x" "before = balance x" by blast
  then have before: "0 \<le> before" "balance before = before" using assms(4) balance_idem [of x] balance_nonneg [of x] by auto
  have "0 \<le> ?kept" by (simp add: float_mul_def fl_nonneg amount_or_zero_nonneg)
  with before have r: "0 \<le> retained" "fl retained = retained" "retained \<le> before" "retained \<le> balance ?kept"
    using balance_mono [of "min before ?kept" before] balance_mono [of "min before ?kept" ?kept]
    by (simp_all add: retained_def balance_nonneg balance_float)
  have "remaining_reserved_review_usd parse_float (Some d') observed'
      = Some (retained_balance retained (Some (max 0 (py_round 4 observed))) observed')"
    using r(1) by (simp add: remaining_reserved_review_usd_def d' released_lookups nonneg_float_def)
  moreover have "reserved_review_usd parse_float (Some d') = reserved_review_usd parse_float (Some d)"
    by (simp add: reserved_review_usd_def d' released_lookups)
  ultimately show ?thesis
    using retained_balance_le [OF r(2,1)] balance_mono [OF r(3)] balance_mono [OF r(4)] before
    by (intro exI conjI) (assumption | force intro: order_trans)+
qed

theorem release_never_raises_witness:
  "\<exists>d'. release_review_reservation (\<lambda>_. None) (\<lambda>_. None) (Some [(''reserved_review_usd'', PFloat 6), (''review_cycle_cost_usd'', PFloat 2)]) (Some 2) 1
        (PInt 1) ''approved'' = Inr (Some d')
      \<and> (\<exists>after. remaining_reserved_review_usd (\<lambda>_. None) (Some d') (Some 3) = Some after \<and> after \<le> 4)"
proof -
  let ?d = "[(''reserved_review_usd'', PFloat 6), (''review_cycle_cost_usd'', PFloat 2)]"
  have b: "remaining_reserved_review_usd (\<lambda>_. None) (Some ?d) (Some 2) = Some 4"
    by (simp add: remaining_reserved_review_usd_def reserved_review_usd_def py_get_def balance_def float_sub_def fl_numeral py_round_numeral)
  have p: "0 < reserved_review_usd (\<lambda>_. None) (Some ?d)" by (simp add: reserved_review_usd_def py_get_def)
  then obtain d' where d': "release_review_reservation (\<lambda>_. None) (\<lambda>_. None) (Some ?d) (Some 2) 1 (PInt 1) ''approved'' = Inr (Some d')"
    using b by (auto simp: release_review_reservation_def py_get_def Let_def)
  from release_never_raises [OF d' p b] d' show ?thesis by auto
qed

section \<open>Refusal of the story\<close>



lemma to_int_opt [simp]: "to_int parse_int (opt_int v) = v"
  by (simp add: opt_int_def split: option.split)









text \<open>
  Seating compares unrounded spend and estimate, the shortfall it then reports adds the rounded ones, so a
  refused seating can come without a shortfall and the run goes on into dev.
\<close>

definition sample_gap :: seating where
  "sample_gap = sample_seating
     \<lparr>sg_allocation := Some (dict_set ''allocation_usd'' (PFloat 6) sample_allocation), sg_spent := Some (2 + 1 / 2 ^ 15),
      sg_dev_estimate := Some (2 + 1 / 2 ^ 15), sg_cycle_cost := Some 2\<rparr>"

lemma sample_gap_units: "usd_units (balance (2 - 1 / 2 ^ 14)) < 20000"
proof -
  let ?x = "2 - 1 / 2 ^ 14 :: rat"
  have "round_half_even (?x * 10 ^ 4) = 19999" by (rule round_half_even_unique) simp
  then have "balance ?x = fl (19999 / 10 ^ 4)" by (simp add: balance_def py_round_def)
  also have "\<dots> \<le> fl ?x" by (rule fl_mono) simp
  also have "\<dots> = ?x" by (rule fl_exact [of _ 32767 "-14"]) (simp_all add: power_int_minus)
  finally have "usd_units (balance ?x) \<le> usd_units ?x" by (rule usd_units_mono)
  also have "fl (?x * 10000) = ?x * 10000" by (rule fl_exact [of _ 327670000 "-14"]) (simp_all add: power_int_minus)
  then have "usd_units ?x = 19999" unfolding usd_units_def float_mul_def by (simp only:) (rule round_half_even_unique, simp)
  finally show ?thesis by simp
qed

lemma sample_gap_figures: "seating_figures parse_float parse_int sample_gap = Some (balance (2 - 1 / 2 ^ 14), 2)"
proof -
  have "float_sub 6 (2 + 1 / 2 ^ 15) = 4 - 1 / 2 ^ 15"
    unfolding float_sub_def by (rule fl_exact [of _ 131071 "-15", THEN trans]) (simp_all add: power_int_minus)
  moreover have "float_sub (4 - 1 / 2 ^ 15) (2 + 1 / 2 ^ 15) = 2 - 1 / 2 ^ 14"
    unfolding float_sub_def by (rule fl_exact [of _ 32767 "-14", THEN trans]) (simp_all add: power_int_minus)
  ultimately have "float_sub (float_sub 6 (2 + 1 / 2 ^ 15)) (2 + 1 / 2 ^ 15) = 2 - 1 / 2 ^ 14" by (simp only:)
  from arg_cong [OF this, of balance] show ?thesis
    by (simp add: sample_gap_def sample_seating_def sample_allocation_def seating_figures_def py_get_def
        dev_estimate_comparable_to_allocation_def band_headroom_def)
qed

lemma sample_gap_rounded: "py_round 4 (2 + 1 / 2 ^ 15) = 2"
proof -
  have "round_half_even ((2 + 1 / 2 ^ 15) * 10 ^ 4) = 20000" by (rule round_half_even_unique) simp
  then show ?thesis by (simp add: py_round_def fl_numeral)
qed

lemma refused_without_shortfall:
  "\<exists>r. reconcile_review_cycles parse_float parse_int sample_gap = Inr r \<and> rc_action r = ''review_unfundable''
     \<and> seating_shortfall parse_float (sg_allocation sample_gap) r participants = None"
proof -
  have "affordable_cycles (balance (2 - 1 / 2 ^ 14)) 2 = Inr 0"
    using sample_gap_units by (simp add: affordable_cycles_def usd_units_numeral)
  moreover have "review_price_comparable_to_allocation parse_int (sg_planning sample_gap) (sg_allocation sample_gap)"
    by (simp add: sample_gap_def sample_seating_def sample_allocation_def review_price_comparable_to_allocation_def py_get_def
        comparable_review_cycle_bases_def)
  ultimately obtain r where r: "reconcile_review_cycles parse_float parse_int sample_gap = Inr r" "rc_action r = ''review_unfundable''"
    "rc_review_cycle_cost_usd r = Some (py_round 4 2)" "rc_spent_so_far_usd r = map_option (py_round 4) (sg_spent sample_gap)"
    "rc_dev_cost_estimate_usd r = map_option (py_round 4) (sg_dev_estimate sample_gap)"
    using reconcile_cases [of parse_float parse_int sample_gap] sample_gap_figures [of parse_float parse_int]
    by (auto simp: fit_cycles_def Let_def)
  have sd: "sg_spent sample_gap = Some (2 + 1 / 2 ^ 15)" "sg_dev_estimate sample_gap = Some (2 + 1 / 2 ^ 15)"
    by (simp_all add: sample_gap_def)
  have "seating_shortfall parse_float (sg_allocation sample_gap) r participants = None"
    unfolding seating_shortfall_def r(2-5) sd option.map sample_gap_rounded
    by (simp add: sample_gap_def sample_allocation_def phase_funding_shortfall_def py_get_def float_add_def float_sub_def fl_numeral balance_def
        py_round_numeral)
  with r show ?thesis by blast
qed

section \<open>Role budgets\<close>

text \<open>Scaling keeps the roles and their order and never touches a locked role. Unless nothing can be scaled,
  every other role keeps at least the floor, and when the locked roles use up the allocation exactly the floor.
\<close>

theorem scale_role_budgets_spec:
  shows "map fst (scale_role_budgets current allocation_usd locked floor_usd) = map fst current
    \<and> (\<forall>i < length current. fst (current ! i) \<in> set locked \<longrightarrow> scale_role_budgets current allocation_usd locked floor_usd ! i = current ! i)
    \<and> (0 < float_sum (map snd (filter (\<lambda>(name, value). name \<notin> set locked) current)) \<longrightarrow>
        (\<forall>i < length current. fst (current ! i) \<notin> set locked \<longrightarrow>
           floor_usd \<le> snd (scale_role_budgets current allocation_usd locked floor_usd ! i)
           \<and> (float_sub allocation_usd (float_sum (map snd (filter (\<lambda>(name, value). name \<in> set locked) current))) \<le> 0 \<longrightarrow>
                snd (scale_role_budgets current allocation_usd locked floor_usd ! i) = floor_usd)))"
  by (auto simp: scale_role_budgets_def Let_def case_prod_beta)

theorem scale_role_budgets_spec_witness:
  "snd (scale_role_budgets [(''dev'', 2), (''review'', 2)] 2 [''review''] (1 / 4) ! 0) = 1 / 4"
  using scale_role_budgets_spec [of "[(''dev'', 2), (''review'', 2)]" 2 "[''review'']" "1 / 4"]
  by (simp add: float_sub_def)

end
