(* ===== verification/Dev_Profiles.thy ===== *)
theory Dev_Profiles
  imports Story_Funding
begin

text \<open>
  What the stored model profiles say about development runs (\<^verbatim>\<open>model_profiles_identity.py\<close>,
  \<^verbatim>\<open>model_profiles_read_model.py\<close>): the sums kept in a bucket, the identity of a profile key, the averages of a
  complexity band for one model and of one complexity score over all models. Profiles are the dictionary
  read from the store. A field of the wrong type makes the code raise; the result type carries that. The registry of
  known models is an argument: \<open>infer_identity\<close> gives the provider and model a bare key stands for, and
  \<open>provider_of_cli\<close> the provider of a command-line runner.
\<close>

section \<open>Model\<close>

text \<open>\<^verbatim>\<open>float(v)\<close> and \<^verbatim>\<open>int(v)\<close> where nothing catches the exception.\<close>

definition conversion_error :: "pyval \<Rightarrow> py_error" where
  "conversion_error v = (case v of PStr s \<Rightarrow> ValueError s | _ \<Rightarrow> TypeError [])"

definition py_float :: "(string \<Rightarrow> rat option) \<Rightarrow> pyval \<Rightarrow> rat py_result" where
  "py_float parse_float v = (case to_float parse_float v of None \<Rightarrow> Inl (conversion_error v) | Some x \<Rightarrow> Inr x)"

definition py_int :: "(string \<Rightarrow> int option) \<Rightarrow> pyval \<Rightarrow> int py_result" where
  "py_int parse_int v = (case to_int parse_int v of None \<Rightarrow> Inl (conversion_error v) | Some x \<Rightarrow> Inr x)"

text \<open>\<^verbatim>\<open>d.get(k, v)\<close>.\<close>

definition get_or :: "pydict \<Rightarrow> string \<Rightarrow> pyval \<Rightarrow> pyval" where
  "get_or d k v = (case dict_get d k of None \<Rightarrow> v | Some w \<Rightarrow> w)"

definition metric_sum :: "(string \<Rightarrow> rat option) \<Rightarrow> pydict \<Rightarrow> int \<Rightarrow> string \<Rightarrow> string \<Rightarrow> rat option py_result" where
  "metric_sum parse_float stats runs sum_key avg_key =
     (case dict_get stats sum_key of
        Some v \<Rightarrow> py_bind (py_float parse_float v) (\<lambda>x. Inr (Some x))
      | None \<Rightarrow> (case dict_get stats avg_key of
          Some v \<Rightarrow> py_bind (py_float parse_float v) (\<lambda>x. Inr (Some (float_mul x (fl (of_int runs)))))
        | None \<Rightarrow> Inr None))"

definition complexity_bands :: "string list" where
  "complexity_bands = [''small'', ''medium'', ''large'']"

definition normalize_band :: "string option \<Rightarrow> string" where
  "normalize_band complexity =
     (case complexity of None \<Rightarrow> ''medium'' | Some [] \<Rightarrow> ''medium''
      | Some s \<Rightarrow>
          (let cl = py_lower s
           in if cl \<in> set complexity_bands then cl else if cl = ''low'' then ''small'' else if cl = ''high'' then ''large'' else ''medium''))"

text \<open>The registry, and the reading of a profile key; \<^verbatim>\<open>x or ''\<close> of an optional string, stripped.\<close>

record registry =
  rg_provider_of_cli :: "string option \<Rightarrow> string option"
  rg_infer_identity :: "string \<Rightarrow> (string \<times> string) option"

definition stripped_or_empty :: "string option \<Rightarrow> string" where
  "stripped_or_empty v = (case v of None \<Rightarrow> [] | Some s \<Rightarrow> py_strip s)"

definition meta_text :: "(rat \<Rightarrow> string) \<Rightarrow> pydict \<Rightarrow> string \<Rightarrow> string" where
  "meta_text float_repr d k = (let v = py_get d k in py_strip (if py_truthy v then py_str float_repr v else []))"

definition resolve_identity :: "(rat \<Rightarrow> string) \<Rightarrow> registry \<Rightarrow> string \<Rightarrow> pydict option \<Rightarrow> string option \<Rightarrow> string option \<Rightarrow> string option
    \<Rightarrow> (string \<times> string) option" where
  "resolve_identity float_repr rg model_key entry actual_model provider cli =
     (let meta = (case entry of None \<Rightarrow> None | Some e \<Rightarrow>
            (case py_get e ''_identity'' of
               PDict m \<Rightarrow> if meta_text float_repr m ''provider'' \<noteq> [] \<and> meta_text float_repr m ''model'' \<noteq> []
                          then Some (meta_text float_repr m ''provider'', meta_text float_repr m ''model'') else None
             | _ \<Rightarrow> None));
          explicit_provider = stripped_or_empty (case provider of Some (c # cs) \<Rightarrow> provider | _ \<Rightarrow> rg_provider_of_cli rg cli);
          explicit_model = stripped_or_empty actual_model
      in case meta of Some identity \<Rightarrow> Some identity
         | None \<Rightarrow>
             if explicit_provider \<noteq> [] \<and> explicit_model \<noteq> [] then Some (explicit_provider, explicit_model)
             else (case rg_infer_identity rg model_key of
                     Some identity \<Rightarrow> Some identity
                   | None \<Rightarrow> if explicit_provider \<noteq> [] \<and> model_key \<noteq> [] then Some (explicit_provider, model_key) else None))"

text \<open>\<^verbatim>\<open>(profiles or {}).get("models") or {}\<close>, with no entry where that is not a dictionary.\<close>

definition profile_models :: "pydict \<Rightarrow> pydict" where
  "profile_models profiles = (case py_get profiles ''models'' of PDict d \<Rightarrow> d | _ \<Rightarrow> [])"

definition entry_matches :: "(rat \<Rightarrow> string) \<Rightarrow> registry \<Rightarrow> string \<Rightarrow> (string \<times> string) option \<Rightarrow> string \<times> pyval \<Rightarrow> pydict list" where
  "entry_matches float_repr rg model_key target kv =
     (case snd kv of
        PDict e \<Rightarrow>
          if fst kv = model_key then [e]
          else if target = None then []
          else if resolve_identity float_repr rg (fst kv) (Some e) None None None = target then [e] else []
      | _ \<Rightarrow> [])"

record model_ref =
  mr_name :: string
  mr_actual :: "string option"
  mr_provider :: "string option"
  mr_cli :: "string option"

definition matching_profile_entries :: "(rat \<Rightarrow> string) \<Rightarrow> registry \<Rightarrow> pydict \<Rightarrow> model_ref \<Rightarrow> pydict list" where
  "matching_profile_entries float_repr rg profiles m =
     (let target = resolve_identity float_repr rg (mr_name m) None (mr_actual m) (mr_provider m) (mr_cli m)
      in concat (map (entry_matches float_repr rg (mr_name m) target) (profile_models profiles)))"

subsection \<open>Averages of a band\<close>

record dev_sums =
  du_runs :: int
  du_measured_runs :: int
  du_iterations :: rat
  du_cost :: rat
  du_duration_runs :: int
  du_max_duration :: rat
  du_max_killed :: rat

definition no_sums :: dev_sums where
  "no_sums = \<lparr>du_runs = 0, du_measured_runs = 0, du_iterations = 0, du_cost = 0, du_duration_runs = 0, du_max_duration = 0, du_max_killed = 0\<rparr>"

text \<open>The bucket of a band, or of a score, in the dev section of an entry.\<close>

definition band_bucket :: "string \<Rightarrow> pydict \<Rightarrow> pydict option py_result" where
  "band_bucket band entry =
     (case py_get entry ''dev'' of
        PDict dev \<Rightarrow>
          (case py_get dev ''by_complexity'' of
             PDict bands \<Rightarrow> (case py_get bands band of PDict bc \<Rightarrow> Inr (Some bc) | _ \<Rightarrow> Inr None)
           | v \<Rightarrow> if py_truthy v then Inl (AttributeError ''get'') else Inr None)
      | _ \<Rightarrow> Inr None)"

text \<open>One bucket with runs; None where an average is missing altogether, which gives up the whole result.\<close>

definition add_bucket :: "(string \<Rightarrow> rat option) \<Rightarrow> (string \<Rightarrow> int option) \<Rightarrow> pydict \<Rightarrow> int \<Rightarrow> dev_sums \<Rightarrow> dev_sums option py_result" where
  "add_bucket parse_float parse_int bc entry_runs t =
     py_bind (metric_sum parse_float bc entry_runs ''_iterations_sum'' ''avg_iterations'') (\<lambda>iterations.
     py_bind (metric_sum parse_float bc entry_runs ''_cost_sum'' ''avg_cost_usd'') (\<lambda>cost.
     case (iterations, cost) of
       (Some its, Some usd) \<Rightarrow>
         py_bind (py_int parse_int (get_or bc ''_cost_unknown_runs'' (PInt 0))) (\<lambda>unknown.
         py_bind (py_int parse_int (get_or bc ''_duration_runs'' (PInt 0))) (\<lambda>duration_runs.
         py_bind (py_float parse_float (get_or bc ''max_duration_s'' (PFloat 0))) (\<lambda>duration.
         py_bind (py_float parse_float (get_or bc ''max_killed_timeout_s'' (PFloat 0))) (\<lambda>killed.
           Inr (Some \<lparr>du_runs = du_runs t + entry_runs, du_measured_runs = du_measured_runs t + (entry_runs - unknown),
             du_iterations = float_add (du_iterations t) its, du_cost = float_add (du_cost t) usd,
             du_duration_runs = du_duration_runs t + duration_runs, du_max_duration = max (du_max_duration t) duration,
             du_max_killed = max (du_max_killed t) killed\<rparr>)))))
     | _ \<Rightarrow> Inr None))"

fun sum_bands :: "(string \<Rightarrow> rat option) \<Rightarrow> (string \<Rightarrow> int option) \<Rightarrow> string \<Rightarrow> pydict list \<Rightarrow> dev_sums \<Rightarrow> dev_sums option py_result" where
  "sum_bands parse_float parse_int band [] t = Inr (Some t)"
| "sum_bands parse_float parse_int band (e # es) t =
     py_bind (band_bucket band e) (\<lambda>b. case b of
       None \<Rightarrow> sum_bands parse_float parse_int band es t
     | Some bc \<Rightarrow>
         py_bind (py_int parse_int (get_or bc ''runs'' (PInt 0))) (\<lambda>entry_runs.
           if entry_runs \<le> 0 then sum_bands parse_float parse_int band es t
           else py_bind (add_bucket parse_float parse_int bc entry_runs t) (\<lambda>t'. case t' of
                  None \<Rightarrow> Inr None | Some t1 \<Rightarrow> sum_bands parse_float parse_int band es t1)))"

record dev_stats =
  ds_runs :: int
  ds_avg_iterations :: rat
  ds_avg_cost_usd :: rat
  ds_cost_measured_runs :: int
  ds_max_duration_s :: rat
  ds_duration_runs :: int
  ds_max_killed_timeout_s :: rat

definition stats_of_sums :: "dev_sums \<Rightarrow> dev_stats" where
  "stats_of_sums t =
     \<lparr>ds_runs = du_runs t, ds_avg_iterations = py_round 4 (float_div (du_iterations t) (of_int (du_runs t))),
      ds_avg_cost_usd = (if du_measured_runs t > 0 then py_round 6 (float_div (du_cost t) (of_int (du_measured_runs t))) else 0),
      ds_cost_measured_runs = du_measured_runs t, ds_max_duration_s = py_round 4 (du_max_duration t),
      ds_duration_runs = du_duration_runs t, ds_max_killed_timeout_s = py_round 4 (du_max_killed t)\<rparr>"

definition get_dev_complexity_stats :: "(rat \<Rightarrow> string) \<Rightarrow> (string \<Rightarrow> rat option) \<Rightarrow> (string \<Rightarrow> int option) \<Rightarrow> registry \<Rightarrow> pydict \<Rightarrow> model_ref
    \<Rightarrow> string option \<Rightarrow> int \<Rightarrow> dev_stats option py_result" where
  "get_dev_complexity_stats float_repr parse_float parse_int rg profiles m complexity min_runs =
     (let matching = matching_profile_entries float_repr rg profiles m
      in if matching = [] then Inr None
         else py_bind (sum_bands parse_float parse_int (normalize_band complexity) matching no_sums) (\<lambda>s. case s of
                None \<Rightarrow> Inr None
              | Some t \<Rightarrow> if du_runs t < min_runs \<or> du_runs t \<le> 0 then Inr None else Inr (Some (stats_of_sums t))))"

subsection \<open>Cost at one complexity score\<close>

record score_stats =
  sx_runs :: int
  sx_measured_runs :: int
  sx_avg_cost_usd :: rat

definition score_bucket :: "string \<Rightarrow> pyval \<Rightarrow> pydict option" where
  "score_bucket score_key v =
     (case v of
        PDict entry \<Rightarrow>
          (case py_get entry ''dev'' of
             PDict dev \<Rightarrow>
               (case py_get dev ''by_complexity_score'' of
                  PDict by_score \<Rightarrow> (case py_get by_score score_key of PDict sc \<Rightarrow> Some sc | _ \<Rightarrow> None)
                | _ \<Rightarrow> None)
           | _ \<Rightarrow> None)
      | _ \<Rightarrow> None)"

text \<open>Runs, measured runs and cost so far; None gives up the result.\<close>

fun sum_scores :: "(string \<Rightarrow> rat option) \<Rightarrow> (string \<Rightarrow> int option) \<Rightarrow> string \<Rightarrow> pyval list \<Rightarrow> int \<times> int \<times> rat
    \<Rightarrow> (int \<times> int \<times> rat) option py_result" where
  "sum_scores parse_float parse_int score_key [] t = Inr (Some t)"
| "sum_scores parse_float parse_int score_key (e # es) t =
     (case score_bucket score_key e of
        None \<Rightarrow> sum_scores parse_float parse_int score_key es t
      | Some sc \<Rightarrow>
          py_bind (py_int parse_int (get_or sc ''runs'' (PInt 0))) (\<lambda>entry_runs.
            if entry_runs \<le> 0 then sum_scores parse_float parse_int score_key es t
            else py_bind (metric_sum parse_float sc entry_runs ''_cost_sum'' ''avg_cost_usd'') (\<lambda>cost. case cost of
                   None \<Rightarrow> Inr None
                 | Some usd \<Rightarrow>
                     py_bind (py_int parse_int (get_or sc ''_cost_unknown_runs'' (PInt 0))) (\<lambda>unknown.
                       case t of (runs, measured, cost_sum) \<Rightarrow>
                         sum_scores parse_float parse_int score_key es (runs + entry_runs, measured + (entry_runs - unknown), float_add cost_sum usd)))))"

definition get_dev_score_cost_stats :: "(string \<Rightarrow> rat option) \<Rightarrow> (string \<Rightarrow> int option) \<Rightarrow> pydict \<Rightarrow> int \<Rightarrow> int \<Rightarrow> score_stats option py_result" where
  "get_dev_score_cost_stats parse_float parse_int profiles complexity_score min_runs =
     py_bind (sum_scores parse_float parse_int (py_str_int complexity_score) (map snd (profile_models profiles)) (0, 0, 0)) (\<lambda>s. case s of
       None \<Rightarrow> Inr None
     | Some (runs, measured, cost_sum) \<Rightarrow>
         if runs < min_runs \<or> runs \<le> 0 \<or> measured \<le> 0 then Inr None
         else Inr (Some \<lparr>sx_runs = runs, sx_measured_runs = measured, sx_avg_cost_usd = py_round 6 (float_div cost_sum (of_int measured))\<rparr>))"

end
