(* ===== verification/Adaptive_Limits.thy ===== *)
theory Adaptive_Limits
  imports Dev_Profiles
begin

text \<open>
  The limits of one story (\<^verbatim>\<open>coordinator/adaptive_iterations.py\<close>, the timeouts of \<^verbatim>\<open>coordinator/util.py\<close>): dev
  attempts, review cycles, the timeout of one invocation and the estimated cost of development, derived from
  complexity, the policy and the profiles of \<open>Dev_Profiles\<close>; the cap of the timeout under the ceiling of the
  story and its clamp at dispatch. The records of earlier runs, newest first, are an argument. Dashes and
  arrows of messages are written in ASCII.
\<close>

section \<open>Model\<close>

subsection \<open>Timeouts\<close>

definition default_timeout_headroom_factor :: rat where "default_timeout_headroom_factor = 3 / 2"

definition derived_timeout :: "int \<Rightarrow> rat \<Rightarrow> int" where
  "derived_timeout base factor = round_half_even (float_mul (fl (of_int base)) factor)"

definition resolve_timeout_with_active :: "int \<Rightarrow> int option \<Rightarrow> int option \<Rightarrow> string option \<Rightarrow> int option \<Rightarrow> int \<times> bool" where
  "resolve_timeout_with_active base medium large complexity complexity_score =
     (let large_tier = (case large of Some t \<Rightarrow> (t, True) | None \<Rightarrow> (derived_timeout base default_timeout_headroom_factor, True));
          medium_tier = (case medium of Some t \<Rightarrow> (t, True) | None \<Rightarrow> (derived_timeout base default_timeout_headroom_factor, True))
      in case complexity_score of
           Some score \<Rightarrow> if score \<ge> 8 then large_tier else if score \<ge> 6 then medium_tier else (base, False)
         | None \<Rightarrow> if complexity = Some ''large'' then large_tier else if complexity = Some ''medium'' then medium_tier else (base, False))"

definition dev_invocation_story_share :: rat where "dev_invocation_story_share = fl (8 / 10)"

definition min_dev_invocation_seconds :: int where "min_dev_invocation_seconds = 900"

definition dev_invocation_tail_reserve_seconds :: int where "dev_invocation_tail_reserve_seconds = 300"

definition dev_share_seconds :: "rat \<Rightarrow> rat \<Rightarrow> int" where
  "dev_share_seconds story_ceiling share = Story_Budget.truncate (float_mul story_ceiling share)"

definition invocation_cap :: "int \<Rightarrow> int \<Rightarrow> int" where
  "invocation_cap share_seconds max_invocations = Story_Budget.truncate (float_div (of_int share_seconds) (of_int (max 1 max_invocations)))"

definition cap_timeout_to_story_ceiling :: "(rat \<Rightarrow> string) \<Rightarrow> int \<Rightarrow> rat option \<Rightarrow> int \<Rightarrow> rat \<Rightarrow> int \<Rightarrow> int \<times> pydict" where
  "cap_timeout_to_story_ceiling float_repr raw_timeout story_ceiling max_invocations share floor_seconds =
     (let audit = [(''raw_timeout_seconds'', PInt raw_timeout),
            (''story_ceiling_seconds'', case story_ceiling of None \<Rightarrow> PNone | Some c \<Rightarrow> PInt (round_half_even c)),
            (''max_invocations'', PInt max_invocations), (''share'', PFloat share)];
          uncapped = (raw_timeout, audit @ [(''capped'', PBool False), (''final_timeout_seconds'', PInt raw_timeout),
            (''rationale'', PStr ''no enclosing story ceiling; per-invocation timeout left as derived'')])
      in case story_ceiling of None \<Rightarrow> uncapped
         | Some story_ceiling_seconds \<Rightarrow>
             if story_ceiling_seconds \<le> 0 then uncapped
             else (let share_seconds = dev_share_seconds story_ceiling_seconds share;
                       cap = invocation_cap share_seconds max_invocations;
                       floor_applied = cap < floor_seconds;
                       floor_capped = max cap floor_seconds > share_seconds;
                       final = min raw_timeout (min (max cap floor_seconds) share_seconds);
                       capped = final < raw_timeout;
                       window = show_nat (nat (max 1 max_invocations)) @ '' invocation(s) inside the ''
                         @ py_str_int (round_half_even story_ceiling_seconds) @ ''s story ceiling'';
                       rationale = (if capped then ''per-invocation timeout capped '' @ py_str_int raw_timeout @ ''s -> '' @ py_str_int final
                                      @ ''s to fit '' @ window @ '' (share '' @ float_repr share @ '')''
                                    else ''per-invocation timeout '' @ py_str_int final @ ''s already fits '' @ window)
                         @ (if floor_applied then ''; ceiling funds only '' @ py_str_int cap @ ''s per invocation, below the ''
                              @ py_str_int floor_seconds @ ''s floor'' else [])
                         @ (if floor_capped then ''; the floor itself was cut to the '' @ py_str_int share_seconds
                              @ ''s development share of the ceiling'' else [])
                   in (final, audit @ [(''capped'', PBool capped), (''cap_seconds'', PInt cap), (''floor_seconds'', PInt floor_seconds),
                        (''floor_applied'', PBool floor_applied), (''dev_share_seconds'', PInt share_seconds),
                        (''floor_capped_by_share'', PBool floor_capped), (''final_timeout_seconds'', PInt final),
                        (''rationale'', PStr rationale)])))"

definition clamp_timeout_to_remaining :: "int \<Rightarrow> rat option \<Rightarrow> int \<Rightarrow> int \<Rightarrow> int \<times> pydict option" where
  "clamp_timeout_to_remaining timeout_seconds remaining_seconds tail_reserve floor_seconds =
     (case remaining_seconds of None \<Rightarrow> (timeout_seconds, None)
      | Some remaining \<Rightarrow>
          (let after_reserve = max (fl (of_int floor_seconds)) (float_sub remaining (of_int tail_reserve));
               floor_capped = after_reserve > remaining;
               allowed = Story_Budget.truncate (max 0 (min after_reserve remaining))
           in if allowed \<ge> timeout_seconds then (timeout_seconds, None)
              else (allowed, Some
                [(''requested_timeout_seconds'', PInt timeout_seconds), (''remaining_story_seconds'', PInt (round_half_even remaining)),
                 (''tail_reserve_seconds'', PInt tail_reserve), (''floor_seconds'', PInt floor_seconds),
                 (''floor_capped_by_remaining'', PBool floor_capped), (''no_working_time_left'', PBool (allowed \<le> 0)),
                 (''granted_timeout_seconds'', PInt allowed),
                 (''rationale'', PStr (''invocation clamped '' @ py_str_int timeout_seconds @ ''s -> '' @ py_str_int allowed
                    @ ''s: the enclosing story deadline has '' @ py_str_int (round_half_even remaining) @ ''s of working time left''
                    @ (if floor_capped then ''; less than the '' @ py_str_int floor_seconds @ ''s floor, so the floor was cut to what remains''
                       else [])))])))"

subsection \<open>Complexity and history\<close>

definition history_tail :: nat where "history_tail = 50"

definition headroom_factor :: rat where "headroom_factor = 3 / 2"

definition min_profile_runs :: int where "min_profile_runs = 3"

definition band_to_score :: "string \<Rightarrow> int option" where
  "band_to_score band = (if band = ''small'' then Some 2 else if band = ''medium'' then Some 5 else if band = ''large'' then Some 9 else None)"

definition estimate_headroom_by_band :: "string \<Rightarrow> rat" where
  "estimate_headroom_by_band band =
     (if band = ''small'' then 3 / 2 else if band = ''medium'' then 2 else if band = ''large'' then 5 / 2 else headroom_factor)"

definition score_from_inputs :: "int option \<Rightarrow> string option \<Rightarrow> int option" where
  "score_from_inputs score band =
     (let by_band = (case band of None \<Rightarrow> None | Some [] \<Rightarrow> None | Some b \<Rightarrow> band_to_score (py_lower b))
      in case score of Some s \<Rightarrow> if 1 \<le> s \<and> s \<le> 10 then Some s else by_band | None \<Rightarrow> by_band)"

definition scale_to_band :: "int \<Rightarrow> int \<Rightarrow> int \<Rightarrow> int" where
  "scale_to_band score floor_v cap =
     (if cap \<le> floor_v then floor_v
      else floor_v + \<lceil>float_mul (max 0 (min 1 (float_div (of_int (score - 1)) 9))) (of_int (cap - floor_v))\<rceil>)"

definition round_money :: "rat \<Rightarrow> rat" where
  "round_money v = py_round 4 (max v (fl (1 / 100)))"

definition ceil_int :: "rat \<Rightarrow> int" where
  "ceil_int v = max 1 \<lceil>v\<rceil>"

text \<open>The candidates come newest first; kept are the records of stories, in order of time.\<close>

definition read_history_tail :: "pyval list \<Rightarrow> pydict list" where
  "read_history_tail candidates =
     (let records = rev (concat (map (\<lambda>v. case v of PDict r \<Rightarrow> if dict_get r ''iterations'' = None then [] else [r] | _ \<Rightarrow> []) candidates))
      in drop (length records - history_tail) records)"

text \<open>A boolean is an integer to \<^verbatim>\<open>isinstance\<close>.\<close>

definition int_value :: "pyval \<Rightarrow> int option" where
  "int_value v = (case v of PInt i \<Rightarrow> Some i | PBool b \<Rightarrow> Some (of_bool b) | _ \<Rightarrow> None)"

definition section_of :: "pydict \<Rightarrow> string \<Rightarrow> pydict option" where
  "section_of rec k = (let v = py_get rec k in if py_truthy v then (case v of PDict d \<Rightarrow> Some d | _ \<Rightarrow> None) else Some [])"

definition extract_record_score :: "pydict \<Rightarrow> int option" where
  "extract_record_score rec =
     (case section_of rec ''preflight'' of None \<Rightarrow> None
      | Some pf \<Rightarrow>
          (let by_band = (case py_get pf ''complexity'' of PStr b \<Rightarrow> band_to_score (py_lower b) | _ \<Rightarrow> None)
           in case int_value (py_get pf ''complexity_score'') of
                Some s \<Rightarrow> if 1 \<le> s \<and> s \<le> 10 then Some s else by_band
              | None \<Rightarrow> by_band))"

fun first_positive :: "pydict \<Rightarrow> string list \<Rightarrow> int option" where
  "first_positive d [] = None"
| "first_positive d (k # ks) = (case int_value (py_get d k) of Some v \<Rightarrow> if v > 0 then Some v else first_positive d ks | None \<Rightarrow> first_positive d ks)"

definition extract_review_used :: "pydict \<Rightarrow> int option" where
  "extract_review_used rec =
     (case section_of rec ''iterations'' of None \<Rightarrow> None | Some it \<Rightarrow> first_positive it [''review_cycles_total'', ''review_cycles''])"

definition extract_dev_used :: "pydict \<Rightarrow> int option" where
  "extract_dev_used rec =
     (case section_of rec ''iterations'' of None \<Rightarrow> None
      | Some it \<Rightarrow> first_positive it [''dev_iterations_productive'', ''dev_iterations'', ''dev_attempts_total''])"

definition int_percentile :: "int list \<Rightarrow> rat \<Rightarrow> int" where
  "int_percentile values pct =
     (if values = [] then 0
      else if length values = 1 then hd values
      else (let top = int (length values) - 1;
                idx = max 0 (min top (round_half_even (float_mul (float_div pct 100) (of_int top))))
            in sort values ! nat idx))"

definition matching_review :: "int \<Rightarrow> pydict list \<Rightarrow> int list" where
  "matching_review score recs =
     concat (map (\<lambda>rec. case extract_record_score rec of
         None \<Rightarrow> []
       | Some s \<Rightarrow> if \<bar>s - score\<bar> > 1 then [] else (case extract_review_used rec of None \<Rightarrow> [] | Some r \<Rightarrow> [r])) recs)"

subsection \<open>The basis of an estimate\<close>

definition configured_estimate_basis :: "string \<Rightarrow> string option \<Rightarrow> int option \<Rightarrow> pydict" where
  "configured_estimate_basis reason band score =
     [(''source'', PStr ''configured_fallback''), (''band'', case band of None \<Rightarrow> PNone | Some b \<Rightarrow> PStr b), (''complexity_score'', opt_int score),
      (''statistic'', PStr ''configured_budget_usd''), (''scope'', PStr ''dev_phase''), (''sample_count'', PInt 0), (''headroom_multiplier'', PNone),
      (''headroom_basis'', PNone), (''allocation_comparable'', PBool False), (''reason'', PStr reason)]"

definition band_estimate_basis :: "string option \<Rightarrow> int option \<Rightarrow> rat \<Rightarrow> int \<Rightarrow> string \<Rightarrow> pydict" where
  "band_estimate_basis band score headroom sample_count reason =
     [(''source'', PStr ''profile_observed_band''), (''band'', case band of None \<Rightarrow> PNone | Some b \<Rightarrow> PStr b), (''complexity_score'', opt_int score),
      (''statistic'', PStr ''avg_cost_usd''), (''scope'', PStr ''dev_phase''), (''sample_count'', PInt sample_count),
      (''headroom_multiplier'', PFloat headroom), (''headroom_basis'', PStr ''band_headroom''), (''allocation_comparable'', PBool False),
      (''reason'', PStr reason)]"

definition score_estimate_basis :: "string option \<Rightarrow> int \<Rightarrow> int \<Rightarrow> pydict" where
  "score_estimate_basis band score sample_count =
     [(''source'', PStr ''profile_observed_score''), (''band'', case band of None \<Rightarrow> PNone | Some b \<Rightarrow> PStr b), (''complexity_score'', PInt score),
      (''statistic'', PStr ''avg_cost_usd''), (''scope'', PStr ''dev_phase''), (''sample_count'', PInt sample_count),
      (''headroom_multiplier'', PFloat band_headroom), (''headroom_basis'', PStr ''allocation_headroom''), (''allocation_comparable'', PBool True),
      (''reason'', PStr ''profile_score_history'')]"

subsection \<open>Limits\<close>

record retry_policy =
  rp_max_dev_iterations :: int
  rp_max_review_cycles :: int
  rp_max_dev_iterations_cap :: int
  rp_max_review_cycles_cap :: int
  rp_adaptive_iterations :: bool

definition floor_dev :: "retry_policy \<Rightarrow> int" where "floor_dev p = max 1 (rp_max_dev_iterations p)"

definition floor_review :: "retry_policy \<Rightarrow> int" where "floor_review p = max 1 (rp_max_review_cycles p)"

definition cap_dev :: "retry_policy \<Rightarrow> int" where "cap_dev p = max (floor_dev p) (rp_max_dev_iterations_cap p)"

definition cap_review :: "retry_policy \<Rightarrow> int" where "cap_review p = max (floor_review p) (rp_max_review_cycles_cap p)"

record limit_request =
  lq_score :: "int option"
  lq_band :: "string option"
  lq_policy :: retry_policy
  lq_model :: model_ref
  lq_base_timeout :: int
  lq_base_cost :: rat
  lq_static_dev_max :: int
  lq_history :: "pyval list option"
  lq_profiles :: "pydict option"

record adaptive_limits =
  al_dev_max :: int
  al_review_max :: int
  al_dev_timeout_seconds :: int
  al_dev_cost_estimate_usd :: rat
  al_audit :: pydict

definition opt_text :: "string option \<Rightarrow> pyval" where
  "opt_text v = (case v of None \<Rightarrow> PNone | Some s \<Rightarrow> PStr s)"

definition set_all :: "(string \<times> pyval) list \<Rightarrow> pydict \<Rightarrow> pydict" where
  "set_all kvs d = fold (\<lambda>(k, v). dict_set k v) kvs d"

definition request_audit :: "limit_request \<Rightarrow> pydict" where
  "request_audit q =
     (let p = lq_policy q; m = lq_model q
      in [(''enabled'', PBool (rp_adaptive_iterations p)), (''complexity_score_input'', opt_int (lq_score q)),
          (''complexity_band_input'', opt_text (lq_band q)), (''floor_dev'', PInt (floor_dev p)), (''floor_review'', PInt (floor_review p)),
          (''cap_dev'', PInt (cap_dev p)), (''cap_review'', PInt (cap_review p)), (''model_name'', PStr (mr_name m)),
          (''model_actual'', opt_text (mr_actual m)), (''model_provider'', opt_text (mr_provider m)), (''model_cli'', opt_text (mr_cli m)),
          (''headroom_factor'', PFloat headroom_factor), (''min_profile_runs'', PInt min_profile_runs),
          (''base_timeout_seconds'', PInt (lq_base_timeout q)), (''base_dev_cost_estimate_usd'', PFloat (lq_base_cost q)),
          (''static_dev_max'', PInt (lq_static_dev_max q)), (''estimate_headroom_factor'', PNone)])"

text \<open>Static limits, with the reason they are static.\<close>

definition static_limits :: "limit_request \<Rightarrow> pydict \<Rightarrow> string \<Rightarrow> string \<Rightarrow> adaptive_limits" where
  "static_limits q audit rationale reason =
     \<lparr>al_dev_max = lq_static_dev_max q, al_review_max = floor_review (lq_policy q), al_dev_timeout_seconds = lq_base_timeout q,
      al_dev_cost_estimate_usd = lq_base_cost q,
      al_audit = set_all [(''rationale'', PStr rationale),
        (''dev_cost_estimate_basis'', PDict (configured_estimate_basis reason (lq_band q) None))] audit\<rparr>"

text \<open>What development is sized to: attempts, timeout, estimate, the audit so far and the rationale.\<close>

record dev_sizing =
  dz_dev_max :: int
  dz_timeout :: int
  dz_estimate :: rat
  dz_audit :: pydict
  dz_rationale :: string

definition static_sizing :: "limit_request \<Rightarrow> int \<Rightarrow> pydict \<Rightarrow> dev_sizing" where
  "static_sizing q score audit =
     \<lparr>dz_dev_max = lq_static_dev_max q, dz_timeout = lq_base_timeout q, dz_estimate = lq_base_cost q,
      dz_audit = dict_set ''dev_cost_estimate_basis''
        (PDict (configured_estimate_basis ''insufficient_profile_history'' (lq_band q) (Some score))) audit,
      dz_rationale = ''insufficient profile history for complexity band; using static configured dev limits''\<rparr>"

definition profile_dev_max :: "retry_policy \<Rightarrow> dev_stats \<Rightarrow> int" where
  "profile_dev_max p s = max (floor_dev p) (min (cap_dev p) (ceil_int (float_mul (ds_avg_iterations s) headroom_factor)))"

definition iteration_timeout :: "limit_request \<Rightarrow> int \<Rightarrow> int" where
  "iteration_timeout q chosen_dev =
     ceil_int (float_mul (of_int chosen_dev) (float_div (of_int (lq_base_timeout q)) (of_int (max (lq_static_dev_max q) 1))))"

definition observed_floor :: "dev_stats \<Rightarrow> int" where
  "observed_floor s = (if ds_max_duration_s s = 0 then 0 else ceil_int (float_mul (ds_max_duration_s s) headroom_factor))"

definition kill_floor :: "dev_stats \<Rightarrow> int" where
  "kill_floor s = (if ds_max_killed_timeout_s s = 0 then 0 else ceil_int (ds_max_killed_timeout_s s))"

definition profile_timeout :: "limit_request \<Rightarrow> dev_stats \<Rightarrow> int" where
  "profile_timeout q s =
     max (max (max (iteration_timeout q (profile_dev_max (lq_policy q) s)) (observed_floor s)) (kill_floor s)) (lq_base_timeout q)"

definition timeout_note :: "limit_request \<Rightarrow> dev_stats \<Rightarrow> string" where
  "timeout_note q s =
     (let it = iteration_timeout q (profile_dev_max (lq_policy q) s)
      in if kill_floor s > it \<and> kill_floor s > observed_floor s
         then ''; timeout floored on the '' @ py_str_int (kill_floor s) @ ''s limit that killed comparable runs.''
         else if observed_floor s > it \<and> observed_floor s \<ge> kill_floor s
         then ''; timeout floored on observed run duration+headroom ('' @ py_str_int (observed_floor s) @ ''s).''
         else if profile_timeout q s > it
         then ''; timeout floored on the operator-configured base ('' @ py_str_int (lq_base_timeout q) @ ''s).''
         else ''; timeout scaled from static per-iteration baseline.'')"

definition profile_sizing :: "(rat \<Rightarrow> string) \<Rightarrow> limit_request \<Rightarrow> int \<Rightarrow> dev_stats \<Rightarrow> pydict \<Rightarrow> dev_sizing" where
  "profile_sizing float_repr q score s audit =
     (let headroom = estimate_headroom_by_band (case lq_band q of None \<Rightarrow> [] | Some b \<Rightarrow> py_lower b);
          it = iteration_timeout q (profile_dev_max (lq_policy q) s)
      in \<lparr>dz_dev_max = profile_dev_max (lq_policy q) s, dz_timeout = profile_timeout q s,
          dz_estimate = round_money (float_mul (ds_avg_cost_usd s) headroom),
          dz_audit = set_all
            [(''profile_raw_dev_max'', PFloat (py_round 4 (float_mul (ds_avg_iterations s) headroom_factor))),
             (''estimate_headroom_factor'', PFloat headroom),
             (''dev_cost_estimate_basis'', PDict (band_estimate_basis (lq_band q) (Some score) headroom (ds_runs s) ''profile_history'')),
             (''iteration_derived_timeout_seconds'', PInt it), (''profile_max_duration_s'', PFloat (py_round 4 (ds_max_duration_s s))),
             (''profile_max_killed_timeout_s'', PFloat (py_round 4 (ds_max_killed_timeout_s s))),
             (''duration_floor_seconds'', PInt (observed_floor s)), (''kill_floor_seconds'', PInt (kill_floor s)),
             (''timeout_floored_on_observation'', PBool (profile_timeout q s > it))] audit,
          dz_rationale = ''derived dev limits from '' @ py_str_int (ds_runs s) @ '' ''
            @ (case lq_band q of None \<Rightarrow> ''unknown'' | Some [] \<Rightarrow> ''unknown'' | Some b \<Rightarrow> b) @ ''-band profile runs with ''
            @ float_repr headroom_factor @ ''x iteration headroom and '' @ float_repr headroom @ ''x budget headroom'' @ timeout_note q s\<rparr>)"

text \<open>The estimate, and only it, prefers the average at the story's own score.\<close>

definition prefer_score_cost :: "(rat \<Rightarrow> string) \<Rightarrow> limit_request \<Rightarrow> int \<Rightarrow> score_stats option \<Rightarrow> dev_sizing \<Rightarrow> dev_sizing" where
  "prefer_score_cost float_repr q score score_cost z =
     (case score_cost of
        Some s \<Rightarrow> z\<lparr>dz_estimate := round_money (float_mul (sx_avg_cost_usd s) band_headroom),
          dz_audit := set_all [(''estimate_headroom_factor'', PFloat band_headroom),
            (''dev_cost_estimate_basis'', PDict (score_estimate_basis (lq_band q) score (sx_runs s)))] (dz_audit z),
          dz_rationale := dz_rationale z @ '' Dev cost estimate from '' @ py_str_int (sx_runs s) @ '' score-'' @ py_str_int score
            @ '' run(s) across all models (avg $'' @ format_2f (sx_avg_cost_usd s) @ '' x '' @ float_repr band_headroom
            @ ''x allocation headroom) -- the population the story allocation is drawn from.''\<rparr>
      | None \<Rightarrow> z\<lparr>dz_rationale := dz_rationale z @ '' Dev cost estimate is not comparable with the story allocation (no score-''
            @ py_str_int score @ '' cost history); seating will not subtract it.''\<rparr>)"

definition review_limit :: "retry_policy \<Rightarrow> int \<Rightarrow> int \<Rightarrow> int" where
  "review_limit p base_review p75 = max (floor_review p) (min (cap_review p) (max base_review (if p75 > 0 then p75 + 1 else 0)))"

definition finish_limits :: "limit_request \<Rightarrow> int \<Rightarrow> dev_sizing \<Rightarrow> adaptive_limits" where
  "finish_limits q score z =
     (let p = lq_policy q; base_review = scale_to_band score (floor_review p) (cap_review p);
          sample = (case lq_history q of None \<Rightarrow> [] | Some candidates \<Rightarrow> matching_review score (read_history_tail candidates));
          p75 = int_percentile sample 75; raw_review = max base_review (if p75 > 0 then p75 + 1 else 0);
          chosen_review = review_limit p base_review p75;
          note = (if sample \<noteq> [] \<and> raw_review > base_review then '' review history raised review_max to '' @ py_str_int chosen_review @ ''.''
                  else if sample \<noteq> [] then '' review history stayed within the complexity-derived review base.''
                  else '' no matching review history; using complexity-derived review limit.'')
      in \<lparr>al_dev_max = dz_dev_max z, al_review_max = chosen_review, al_dev_timeout_seconds = dz_timeout z,
          al_dev_cost_estimate_usd = dz_estimate z,
          al_audit = set_all
            [(''chosen_dev_max'', PInt (dz_dev_max z)), (''chosen_dev_timeout_seconds'', PInt (dz_timeout z)),
             (''chosen_dev_cost_estimate_usd'', PFloat (py_round 4 (dz_estimate z))), (''review_history_sample_size'', PInt (int (length sample))),
             (''p75_review'', PInt p75), (''chosen_review_max'', PInt chosen_review), (''rationale'', PStr (dz_rationale z @ note))] (dz_audit z)\<rparr>)"

definition score_audit :: "limit_request \<Rightarrow> int \<Rightarrow> dev_stats option \<Rightarrow> score_stats option \<Rightarrow> pydict" where
  "score_audit q score stats score_cost =
     request_audit q
     @ [(''complexity_score_used'', PInt score),
        (''base_review'', PInt (scale_to_band score (floor_review (lq_policy q)) (cap_review (lq_policy q)))),
        (''profile_history_runs'', PInt (case stats of None \<Rightarrow> 0 | Some s \<Rightarrow> ds_runs s)),
        (''profile_avg_iterations'', case stats of None \<Rightarrow> PNone | Some s \<Rightarrow> PFloat (py_round 4 (ds_avg_iterations s))),
        (''profile_avg_cost_usd'', case stats of None \<Rightarrow> PNone | Some s \<Rightarrow> PFloat (py_round 6 (ds_avg_cost_usd s))),
        (''score_cost_history_runs'', PInt (case score_cost of None \<Rightarrow> 0 | Some s \<Rightarrow> sx_runs s)),
        (''score_cost_avg_usd'', case score_cost of None \<Rightarrow> PNone | Some s \<Rightarrow> PFloat (py_round 6 (sx_avg_cost_usd s)))]"

definition limits_from_stats :: "(rat \<Rightarrow> string) \<Rightarrow> limit_request \<Rightarrow> int \<Rightarrow> dev_stats option \<Rightarrow> score_stats option \<Rightarrow> adaptive_limits" where
  "limits_from_stats float_repr q score stats score_cost =
     (let audit = score_audit q score stats score_cost;
          z = (case stats of None \<Rightarrow> static_sizing q score audit | Some s \<Rightarrow> profile_sizing float_repr q score s audit)
      in finish_limits q score (prefer_score_cost float_repr q score score_cost z))"

definition derive_limits :: "(rat \<Rightarrow> string) \<Rightarrow> (string \<Rightarrow> rat option) \<Rightarrow> (string \<Rightarrow> int option) \<Rightarrow> registry \<Rightarrow> limit_request \<Rightarrow> adaptive_limits py_result" where
  "derive_limits float_repr parse_float parse_int rg q =
     (if \<not> rp_adaptive_iterations (lq_policy q)
      then Inr (static_limits q (request_audit q) ''adaptive_iterations disabled; using static configured limits'' ''adaptive_iterations_disabled'')
      else (case score_from_inputs (lq_score q) (lq_band q) of
              None \<Rightarrow> Inr (static_limits q (dict_set ''complexity_score_used'' PNone (request_audit q))
                       ''no complexity score available; using static configured limits'' ''no_complexity_score'')
            | Some score \<Rightarrow>
                (case lq_profiles q of
                   Some (kv # kvs) \<Rightarrow>
                     py_bind (get_dev_complexity_stats float_repr parse_float parse_int rg (kv # kvs) (lq_model q) (lq_band q) min_profile_runs) (\<lambda>stats.
                     py_bind (get_dev_score_cost_stats parse_float parse_int (kv # kvs) score min_profile_runs) (\<lambda>score_cost.
                       Inr (limits_from_stats float_repr q score stats score_cost)))
                 | _ \<Rightarrow> Inr (limits_from_stats float_repr q score None None))))"

section \<open>Timeouts under a deadline\<close>

lemma truncate_pos: "0 \<le> x \<Longrightarrow> Story_Budget.truncate x = \<lfloor>x\<rfloor>"
  by (simp add: Story_Budget.truncate_def)

lemma truncate_le: "0 \<le> x \<Longrightarrow> of_int (Story_Budget.truncate x) \<le> x"
  by (simp add: truncate_pos)

lemma fl_upper:
  assumes "2 powi (-1022) \<le> x"
  shows "fl x \<le> x * (1 + 1 / 2 ^ 53)"
proof -
  have x: "0 < x" using assms pow2_pos [of "-1022"] by linarith
  have "ulp x * 2 ^ 52 \<le> \<bar>x\<bar>" by (rule ulp_relative [of "-1022"]) (use assms x in simp_all)
  then have "ulp x / 2 \<le> x / 2 ^ 53" using x by simp
  moreover have "fl x \<le> x + ulp x / 2" using fl_error [of x] by linarith
  ultimately show ?thesis by (simp add: distrib_left)
qed

text \<open>Dividing whole seconds by a count of invocations in binary64 and truncating never rounds up.\<close>

lemma invocation_cap_mult:
  assumes "0 \<le> a" "a < 2 ^ 53"
  shows "invocation_cap a n * max 1 n \<le> a"
proof (cases "a = 0")
  case False
  define b where "b = max 1 n"
  have b: "1 \<le> b" by (simp add: b_def)
  let ?q = "of_int a / of_int b :: rat" and ?k = "invocation_cap a n"
  have q: "0 < ?q" using False assms(1) b by simp
  then have k: "?k = \<lfloor>fl ?q\<rfloor>" by (simp add: invocation_cap_def float_div_def b_def truncate_pos fl_nonneg less_imp_le)
  show ?thesis
  proof (rule ccontr)
    assume "\<not> ?thesis"
    then have "a + 1 \<le> ?k * b" by (simp add: b_def)
    then have ab: "(of_int a + 1 :: rat) \<le> of_int ?k * of_int b" by (metis of_int_1 of_int_add of_int_le_iff of_int_mult)
    have "1 \<le> ?k"
    proof (rule ccontr)
      assume "\<not> 1 \<le> ?k"
      then have "?k * b \<le> 0" using b by (simp add: mult_nonpos_nonneg)
      with \<open>a + 1 \<le> ?k * b\<close> assms(1) show False by simp
    qed
    have small: "2 powi (-1022) \<le> ?q"
    proof (rule ccontr)
      assume "\<not> 2 powi (-1022) \<le> ?q"
      then have "fl ?q \<le> fl (2 powi (-1022))" by (intro fl_mono) simp
      also have "\<dots> = 2 powi (-1022)" by (rule fl_exact [of _ 1 "-1022"]) simp_all
      also have "\<dots> \<le> 2 powi (-1)" by (intro power_int_increasing) simp_all
      finally have "fl ?q < 1" by (simp add: power_int_minus)
      with \<open>1 \<le> ?k\<close> show False unfolding k by linarith
    qed
    have "of_int ?k \<le> fl ?q" unfolding k by simp
    also have "\<dots> \<le> ?q * (1 + 1 / 2 ^ 53)" by (rule fl_upper [OF small])
    finally have "of_int ?k * of_int b \<le> ?q * (1 + 1 / 2 ^ 53) * of_int b" using b by (intro mult_right_mono) simp_all
    also have "\<dots> = of_int a + of_int a / 2 ^ 53" using b by (simp add: field_simps)
    also have "of_int a / 2 ^ 53 < (1 :: rat)"
    proof -
      have "(of_int a :: rat) < of_int (2 ^ 53)" using assms(2) by (simp only: of_int_less_iff)
      then show ?thesis by simp
    qed
    finally show False using ab by linarith
  qed
qed (simp add: invocation_cap_def float_div_def Story_Budget.truncate_def)

lemma dev_share_bounds:
  assumes "0 < c" "fl c = c"
  shows "0 \<le> dev_share_seconds c dev_invocation_story_share" "of_int (dev_share_seconds c dev_invocation_story_share) \<le> c"
proof -
  have "fl (8 / 10) \<le> fl 1" "fl 0 \<le> fl (8 / 10)" by (intro fl_mono; simp)+
  then have s: "0 \<le> dev_invocation_story_share" "dev_invocation_story_share \<le> 1"
    using fl_of_int [of 1] by (simp_all add: dev_invocation_story_share_def)
  then have n: "0 \<le> float_mul c dev_invocation_story_share" using assms by (simp add: float_mul_def fl_nonneg)
  then show "0 \<le> dev_share_seconds c dev_invocation_story_share" by (simp add: dev_share_seconds_def truncate_pos)
  have "c * dev_invocation_story_share \<le> c" using s assms(1) mult_left_mono [of dev_invocation_story_share 1 c] by simp
  from fl_mono [OF this] assms(2) truncate_le [OF n]
  show "of_int (dev_share_seconds c dev_invocation_story_share) \<le> c" by (simp add: dev_share_seconds_def float_mul_def)
qed

text \<open>
  The timeout of one development invocation is fitted under the ceiling of its story: never raised, never
  above the ceiling, and, unless the floor of fifteen minutes had to be applied, small enough that all
  permitted invocations of a cycle together stay within development's share of the ceiling.
\<close>

theorem capped_timeout_fits_story:
  assumes "0 < story_ceiling" "fl story_ceiling = story_ceiling" "story_ceiling < 2 ^ 53"
    and "cap_timeout_to_story_ceiling float_repr raw_timeout (Some story_ceiling) n dev_invocation_story_share min_dev_invocation_seconds
           = (timeout, audit)"
  shows "timeout \<le> raw_timeout \<and> of_int timeout \<le> story_ceiling
    \<and> (py_get audit ''floor_applied'' = PBool False \<longrightarrow>
        timeout * max 1 n \<le> dev_share_seconds story_ceiling dev_invocation_story_share)"
proof -
  let ?share = "dev_share_seconds story_ceiling dev_invocation_story_share"
  let ?cap = "invocation_cap ?share n"
  note sb = dev_share_bounds [OF assms(1,2)]
  have t: "timeout = min raw_timeout (min (max ?cap min_dev_invocation_seconds) ?share)"
    and a: "py_get audit ''floor_applied'' = PBool (?cap < min_dev_invocation_seconds)"
    using assms(1,4) by (auto simp: cap_timeout_to_story_ceiling_def Let_def py_get_def)
  have "(of_int ?share :: rat) < of_int (2 ^ 53)" using sb(2) assms(3) by simp
  then have "?share < 2 ^ 53" by (simp only: of_int_less_iff)
  then have m: "?cap * max 1 n \<le> ?share" by (rule invocation_cap_mult [OF sb(1)])
  have "timeout * max 1 n \<le> ?share" if "\<not> ?cap < min_dev_invocation_seconds"
  proof -
    have "timeout \<le> ?cap" using that by (simp add: t)
    then have "timeout * max 1 n \<le> ?cap * max 1 n" by (intro mult_right_mono) simp_all
    with m show ?thesis by linarith
  qed
  moreover have "timeout \<le> ?share" by (simp add: t)
  then have "of_int timeout \<le> story_ceiling" using sb(2) by (meson of_int_le_iff order_trans)
  ultimately show ?thesis using a by (simp add: t)
qed

theorem capped_timeout_fits_story_witness:
  "fst (cap_timeout_to_story_ceiling (\<lambda>_. []) 4950 (Some 5400) 3 dev_invocation_story_share min_dev_invocation_seconds) \<le> 4950"
  using capped_timeout_fits_story [of 5400 "\<lambda>_. []" 4950 3
      "fst (cap_timeout_to_story_ceiling (\<lambda>_. []) 4950 (Some 5400) 3 dev_invocation_story_share min_dev_invocation_seconds)"
      "snd (cap_timeout_to_story_ceiling (\<lambda>_. []) 4950 (Some 5400) 3 dev_invocation_story_share min_dev_invocation_seconds)"]
  by (simp add: fl_numeral)

text \<open>
  At dispatch an invocation is given no more than was asked for and no more than the working time its story has
  left, however small; the record of a clamp is present exactly when something was taken away.
\<close>

theorem clamp_within_deadline:
  assumes "clamp_timeout_to_remaining timeout_seconds (Some remaining) tail_reserve floor_seconds = (granted, audit)"
  shows "granted \<le> timeout_seconds \<and> of_int granted \<le> max 0 remaining \<and> (audit = None \<longleftrightarrow> granted = timeout_seconds)"
proof -
  let ?allowed = "Story_Budget.truncate (max 0 (min (max (fl (of_int floor_seconds)) (float_sub remaining (of_int tail_reserve))) remaining))"
  have "of_int ?allowed \<le> max 0 (min (max (fl (of_int floor_seconds)) (float_sub remaining (of_int tail_reserve))) remaining)"
    by (rule truncate_le) simp
  then have le: "of_int ?allowed \<le> max 0 remaining" by linarith
  have "of_int timeout_seconds \<le> max 0 remaining" if "timeout_seconds \<le> ?allowed"
    using that le by (meson of_int_le_iff order_trans)
  with assms le show ?thesis by (auto simp: clamp_timeout_to_remaining_def Let_def split: if_splits)
qed

theorem clamp_within_deadline_witness:
  "of_int (fst (clamp_timeout_to_remaining 900 (Some 40) 300 60)) \<le> (40 :: rat)"
  using clamp_within_deadline [of 900 40 300 60 "fst (clamp_timeout_to_remaining 900 (Some 40) 300 60)"
      "snd (clamp_timeout_to_remaining 900 (Some 40) 300 60)"] by simp

section \<open>Derived limits\<close>

lemma finish_limits_fields:
  "al_dev_max (finish_limits q score z) = dz_dev_max z" "al_dev_timeout_seconds (finish_limits q score z) = dz_timeout z"
  "al_dev_cost_estimate_usd (finish_limits q score z) = dz_estimate z"
  "floor_review (lq_policy q) \<le> al_review_max (finish_limits q score z)" "al_review_max (finish_limits q score z) \<le> cap_review (lq_policy q)"
  by (simp_all add: finish_limits_def Let_def review_limit_def cap_review_def)

lemma prefer_score_cost_fields [simp]:
  "dz_dev_max (prefer_score_cost float_repr q score score_cost z) = dz_dev_max z"
  "dz_timeout (prefer_score_cost float_repr q score score_cost z) = dz_timeout z"
  by (simp_all add: prefer_score_cost_def split: option.splits)

lemma sizing_fields [simp]:
  "dz_dev_max (static_sizing q score audit) = lq_static_dev_max q" "dz_timeout (static_sizing q score audit) = lq_base_timeout q"
  "dz_dev_max (profile_sizing float_repr q score s audit) = profile_dev_max (lq_policy q) s"
  "dz_timeout (profile_sizing float_repr q score s audit) = profile_timeout q s"
  by (simp_all add: static_sizing_def profile_sizing_def Let_def)

lemma limits_from_stats_fields:
  "al_dev_max (limits_from_stats float_repr q score stats score_cost)
     = (case stats of None \<Rightarrow> lq_static_dev_max q | Some s \<Rightarrow> profile_dev_max (lq_policy q) s)"
  "al_dev_timeout_seconds (limits_from_stats float_repr q score stats score_cost)
     = (case stats of None \<Rightarrow> lq_base_timeout q | Some s \<Rightarrow> profile_timeout q s)"
  unfolding limits_from_stats_def Let_def finish_limits_fields by (simp_all split: option.split)

lemma limits_from_stats_review:
  "floor_review (lq_policy q) \<le> al_review_max (limits_from_stats float_repr q score stats score_cost)"
  "al_review_max (limits_from_stats float_repr q score stats score_cost) \<le> cap_review (lq_policy q)"
  unfolding limits_from_stats_def Let_def by (rule finish_limits_fields)+

lemma profile_limits:
  "floor_dev p \<le> profile_dev_max p s" "profile_dev_max p s \<le> cap_dev p" "lq_base_timeout q \<le> profile_timeout q s"
  by (simp_all add: profile_dev_max_def cap_dev_def profile_timeout_def)

lemma derive_limits_cases:
  assumes "derive_limits float_repr parse_float parse_int rg q = Inr l"
  obtains (static) audit rationale reason where "l = static_limits q audit rationale reason"
      "\<not> rp_adaptive_iterations (lq_policy q) \<or> score_from_inputs (lq_score q) (lq_band q) = None"
  | (unprofiled) score where "rp_adaptive_iterations (lq_policy q)" "score_from_inputs (lq_score q) (lq_band q) = Some score"
      "lq_profiles q = None \<or> lq_profiles q = Some []" "l = limits_from_stats float_repr q score None None"
  | (profiled) score profiles stats score_cost where "rp_adaptive_iterations (lq_policy q)"
      "score_from_inputs (lq_score q) (lq_band q) = Some score" "lq_profiles q = Some profiles" "profiles \<noteq> []"
      "get_dev_complexity_stats float_repr parse_float parse_int rg profiles (lq_model q) (lq_band q) min_profile_runs = Inr stats"
      "get_dev_score_cost_stats parse_float parse_int profiles score min_profile_runs = Inr score_cost"
      "l = limits_from_stats float_repr q score stats score_cost"
proof (cases "rp_adaptive_iterations (lq_policy q)")
  case False
  with assms show thesis by (auto simp: derive_limits_def intro: static [OF sym])
next
  case True
  show thesis
  proof (cases "score_from_inputs (lq_score q) (lq_band q)")
    case None
    with assms True show thesis by (auto simp: derive_limits_def intro: static [OF sym])
  next
    case (Some score)
    show thesis
    proof (cases "\<exists>kv kvs. lq_profiles q = Some (kv # kvs)")
      case p: True
      then obtain kv kvs where p: "lq_profiles q = Some (kv # kvs)" by blast
      with assms True Some obtain stats score_cost where
        "get_dev_complexity_stats float_repr parse_float parse_int rg (kv # kvs) (lq_model q) (lq_band q) min_profile_runs = Inr stats"
        "get_dev_score_cost_stats parse_float parse_int (kv # kvs) score min_profile_runs = Inr score_cost"
        "l = limits_from_stats float_repr q score stats score_cost"
        unfolding derive_limits_def by (auto simp: py_bind_eq_Inr)
      with profiled [OF True Some p] show thesis by simp
    next
      case False
      then have "lq_profiles q = None \<or> lq_profiles q = Some []" by (metis list.exhaust option.exhaust)
      with assms True Some unprofiled [OF True Some] show thesis unfolding derive_limits_def by auto
    qed
  qed
qed

text \<open>
  The limits derived for a story respect the policy: review cycles lie between the configured number and the
  cap, dev attempts are the configured number or lie between it and its cap, and the timeout of an invocation
  is never below the configured one.
\<close>

theorem limits_within_policy:
  assumes "derive_limits float_repr parse_float parse_int rg q = Inr l"
  shows "floor_review (lq_policy q) \<le> al_review_max l \<and> al_review_max l \<le> cap_review (lq_policy q)
    \<and> (al_dev_max l = lq_static_dev_max q \<or> floor_dev (lq_policy q) \<le> al_dev_max l \<and> al_dev_max l \<le> cap_dev (lq_policy q))
    \<and> lq_base_timeout q \<le> al_dev_timeout_seconds l"
  using assms
proof (cases rule: derive_limits_cases)
  case static
  then show ?thesis by (simp add: static_limits_def cap_review_def)
next
  case (unprofiled score)
  then show ?thesis by (simp add: limits_from_stats_review limits_from_stats_fields)
next
  case (profiled score profiles stats score_cost)
  then show ?thesis by (simp add: limits_from_stats_review limits_from_stats_fields profile_limits split: option.split)
qed

theorem limits_within_policy_witness:
  "\<exists>l. derive_limits (\<lambda>_. []) (\<lambda>_. None) (\<lambda>_. None) \<lparr>rg_provider_of_cli = \<lambda>_. None, rg_infer_identity = \<lambda>_. None\<rparr>
      \<lparr>lq_score = Some 9, lq_band = None,
       lq_policy = \<lparr>rp_max_dev_iterations = 3, rp_max_review_cycles = 2, rp_max_dev_iterations_cap = 6, rp_max_review_cycles_cap = 5,
         rp_adaptive_iterations = True\<rparr>,
       lq_model = \<lparr>mr_name = ''m'', mr_actual = None, mr_provider = None, mr_cli = None\<rparr>, lq_base_timeout = 1800, lq_base_cost = 5,
       lq_static_dev_max = 3, lq_history = None, lq_profiles = None\<rparr> = Inr l \<and> 2 \<le> al_review_max l \<and> al_review_max l \<le> 5"
proof -
  let ?rg = "\<lparr>rg_provider_of_cli = \<lambda>_. None, rg_infer_identity = \<lambda>_. None\<rparr>"
  let ?q = "\<lparr>lq_score = Some 9, lq_band = None,
       lq_policy = \<lparr>rp_max_dev_iterations = 3, rp_max_review_cycles = 2, rp_max_dev_iterations_cap = 6, rp_max_review_cycles_cap = 5,
         rp_adaptive_iterations = True\<rparr>,
       lq_model = \<lparr>mr_name = ''m'', mr_actual = None, mr_provider = None, mr_cli = None\<rparr>, lq_base_timeout = 1800, lq_base_cost = 5,
       lq_static_dev_max = 3, lq_history = None, lq_profiles = None\<rparr> :: limit_request"
  have "derive_limits (\<lambda>_. []) (\<lambda>_. None) (\<lambda>_. None) ?rg ?q = Inr (limits_from_stats (\<lambda>_. []) ?q 9 None None)"
    by (simp add: derive_limits_def score_from_inputs_def)
  with limits_within_policy [OF this] show ?thesis by (simp add: floor_review_def cap_review_def)
qed

subsection \<open>Observed durations\<close>

lemma add_bucket_max:
  assumes "add_bucket parse_float parse_int bc n t = Inr (Some t')"
  shows "\<exists>d k. py_float parse_float (get_or bc ''max_duration_s'' (PFloat 0)) = Inr d
    \<and> py_float parse_float (get_or bc ''max_killed_timeout_s'' (PFloat 0)) = Inr k
    \<and> du_max_duration t' = max (du_max_duration t) d \<and> du_max_killed t' = max (du_max_killed t) k"
proof -
  from assms obtain its cost where m: "metric_sum parse_float bc n ''_iterations_sum'' ''avg_iterations'' = Inr its"
    "metric_sum parse_float bc n ''_cost_sum'' ''avg_cost_usd'' = Inr cost"
    by (auto simp: add_bucket_def py_bind_eq_Inr)
  with assms show ?thesis
    by (cases its; cases cost) (auto simp: add_bucket_def py_bind_eq_Inr)
qed

lemma sum_bands_step:
  assumes "sum_bands parse_float parse_int band (e # es) t = Inr (Some t')"
  obtains (skip) "sum_bands parse_float parse_int band es t = Inr (Some t')"
      "\<And>bc n. band_bucket band e = Inr (Some bc) \<Longrightarrow> py_int parse_int (get_or bc ''runs'' (PInt 0)) = Inr n \<Longrightarrow> n \<le> 0"
  | (add) bc n t1 where "band_bucket band e = Inr (Some bc)" "py_int parse_int (get_or bc ''runs'' (PInt 0)) = Inr n"
      "add_bucket parse_float parse_int bc n t = Inr (Some t1)" "sum_bands parse_float parse_int band es t1 = Inr (Some t')"
proof -
  from assms obtain b where b: "band_bucket band e = Inr b" by (auto simp: py_bind_eq_Inr)
  show thesis
  proof (cases b)
    case None
    with assms b skip show thesis by simp
  next
    case (Some bc)
    with assms b obtain n where n: "py_int parse_int (get_or bc ''runs'' (PInt 0)) = Inr n" by (auto simp: py_bind_eq_Inr)
    show thesis
    proof (cases "n \<le> 0")
      case True
      with assms b Some n have "sum_bands parse_float parse_int band es t = Inr (Some t')" by simp
      then show thesis using b Some n True by (intro skip) auto
    next
      case False
      with assms b Some n obtain t2 where t2: "add_bucket parse_float parse_int bc n t = Inr t2" by (auto simp: py_bind_eq_Inr)
      with False assms b Some n add show thesis by (cases t2) auto
    qed
  qed
qed

lemma sum_bands_max:
  assumes "sum_bands parse_float parse_int band es t = Inr (Some t')"
  shows "du_max_duration t \<le> du_max_duration t' \<and> du_max_killed t \<le> du_max_killed t'"
  using assms
proof (induction es arbitrary: t)
  case (Cons e es)
  from Cons.prems show ?case
  proof (cases rule: sum_bands_step)
    case (add bc n t1)
    with add_bucket_max [OF add(3)] Cons.IH [OF add(4)] show ?thesis by auto
  qed (rule Cons.IH)
qed simp

lemma sum_bands_covers:
  assumes "sum_bands parse_float parse_int band es t = Inr (Some t')" "e \<in> set es"
    and "band_bucket band e = Inr (Some bc)" "py_int parse_int (get_or bc ''runs'' (PInt 0)) = Inr n" "0 < n"
    and "py_float parse_float (get_or bc ''max_duration_s'' (PFloat 0)) = Inr d"
    and "py_float parse_float (get_or bc ''max_killed_timeout_s'' (PFloat 0)) = Inr k"
  shows "d \<le> du_max_duration t' \<and> k \<le> du_max_killed t'"
  using assms(1,2)
proof (induction es arbitrary: t)
  case (Cons e' es)
  from Cons.prems(1) show ?case
  proof (cases rule: sum_bands_step)
    case skip
    with Cons.prems(2) assms(3-5) show ?thesis by (intro Cons.IH) fastforce+
  next
    case (add bc' n' t1)
    show ?thesis
    proof (cases "e' = e")
      case True
      with add assms(3,4) have "bc' = bc" by simp
      with add_bucket_max [OF add(3)] assms(6,7) sum_bands_max [OF add(4)] show ?thesis by auto
    next
      case False
      with Cons.prems(2) add(4) Cons.IH show ?thesis by simp
    qed
  qed
qed simp

lemma profile_timeout_covers:
  assumes "0 \<le> ds_max_duration_s s" "fl (ds_max_duration_s s) = ds_max_duration_s s"
  shows "ds_max_duration_s s \<le> of_int (profile_timeout q s)" "ds_max_killed_timeout_s s \<le> of_int (profile_timeout q s)"
proof -
  have one: "1 \<le> profile_timeout q s" by (simp add: profile_timeout_def iteration_timeout_def ceil_int_def)
  have ceil: "x \<le> of_int (ceil_int x)" for x
    using le_of_int_ceiling [of x] by (simp add: ceil_int_def of_int_max le_max_iff_disj)
  have o: "of_int (observed_floor s) \<le> (of_int (profile_timeout q s) :: rat)" "of_int (kill_floor s) \<le> (of_int (profile_timeout q s) :: rat)"
    by (simp_all add: profile_timeout_def)
  show "ds_max_duration_s s \<le> of_int (profile_timeout q s)"
  proof (cases "ds_max_duration_s s = 0")
    case False
    have "ds_max_duration_s s \<le> ds_max_duration_s s * headroom_factor"
      using assms(1) by (simp add: headroom_factor_def)
    from fl_mono [OF this] assms(2) have "ds_max_duration_s s \<le> float_mul (ds_max_duration_s s) headroom_factor"
      by (simp add: float_mul_def)
    also have "\<dots> \<le> of_int (observed_floor s)" using False ceil by (simp add: observed_floor_def)
    finally show ?thesis using o(1) by linarith
  qed (use one in simp)
  show "ds_max_killed_timeout_s s \<le> of_int (profile_timeout q s)"
  proof (cases "ds_max_killed_timeout_s s = 0")
    case False
    then show ?thesis using o(2) ceil [of "ds_max_killed_timeout_s s"] by (simp add: kill_floor_def)
  qed (use one in simp)
qed

text \<open>C25. 
  A learned timeout follows the wall clock it bounds: once the profiles of the model's band are used, the timeout is
  at least the longest recorded duration of a completed run and at least the longest limit that killed a
  run, in every profile entry that stands for the model.
\<close>

theorem timeout_covers_observations:
  assumes "derive_limits float_repr parse_float parse_int rg q = Inr l" "rp_adaptive_iterations (lq_policy q)"
    and "score_from_inputs (lq_score q) (lq_band q) = Some score" "lq_profiles q = Some profiles"
    and "get_dev_complexity_stats float_repr parse_float parse_int rg profiles (lq_model q) (lq_band q) min_profile_runs = Inr (Some s)"
    and "e \<in> set (matching_profile_entries float_repr rg profiles (lq_model q))"
    and "band_bucket (normalize_band (lq_band q)) e = Inr (Some bc)" "py_int parse_int (get_or bc ''runs'' (PInt 0)) = Inr n" "0 < n"
    and "py_float parse_float (get_or bc ''max_duration_s'' (PFloat 0)) = Inr d"
    and "py_float parse_float (get_or bc ''max_killed_timeout_s'' (PFloat 0)) = Inr k"
  shows "py_round 4 d \<le> of_int (al_dev_timeout_seconds l) \<and> py_round 4 k \<le> of_int (al_dev_timeout_seconds l)"
proof -
  from assms(5) obtain t where t: "sum_bands parse_float parse_int (normalize_band (lq_band q))
      (matching_profile_entries float_repr rg profiles (lq_model q)) no_sums = Inr (Some t)" and s: "s = stats_of_sums t"
    by (auto simp: get_dev_complexity_stats_def Let_def py_bind_eq_Inr split: if_splits option.splits)
  have "profiles \<noteq> []" using assms(6) by (auto simp: matching_profile_entries_def profile_models_def py_get_def)
  with assms(1-5) have l: "al_dev_timeout_seconds l = profile_timeout q s"
    by (cases profiles) (auto simp: derive_limits_def py_bind_eq_Inr limits_from_stats_fields)
  have "d \<le> du_max_duration t" "k \<le> du_max_killed t" "0 \<le> du_max_duration t"
    using sum_bands_covers [OF t assms(6-11)] sum_bands_max [OF t] by (simp_all add: no_sums_def)
  then have "py_round 4 d \<le> ds_max_duration_s s" "py_round 4 k \<le> ds_max_killed_timeout_s s" "0 \<le> ds_max_duration_s s"
    unfolding s by (simp_all add: stats_of_sums_def py_round_mono py_round_nonneg)
  moreover have "fl (ds_max_duration_s s) = ds_max_duration_s s" unfolding s by (simp add: stats_of_sums_def py_round_def)
  ultimately show ?thesis using profile_timeout_covers [of s q] unfolding l by force
qed

text \<open>A profile of one model, with four small runs of at most 2000 seconds, one of them killed at 2400.\<close>

definition sample_profiles :: pydict where
  "sample_profiles = [(''models'', PDict [(''m'', PDict [(''dev'', PDict [(''by_complexity'', PDict [(''small'', PDict
     [(''runs'', PInt 4), (''_iterations_sum'', PFloat 4), (''_cost_sum'', PFloat 4), (''max_duration_s'', PFloat 2000),
      (''max_killed_timeout_s'', PFloat 2400)])])])])])]"

definition sample_registry :: registry where
  "sample_registry = \<lparr>rg_provider_of_cli = \<lambda>_. None, rg_infer_identity = \<lambda>_. None\<rparr>"

definition sample_request :: limit_request where
  "sample_request =
     \<lparr>lq_score = Some 2, lq_band = Some ''small'',
      lq_policy = \<lparr>rp_max_dev_iterations = 3, rp_max_review_cycles = 2, rp_max_dev_iterations_cap = 6, rp_max_review_cycles_cap = 5,
        rp_adaptive_iterations = True\<rparr>,
      lq_model = \<lparr>mr_name = ''m'', mr_actual = None, mr_provider = None, mr_cli = None\<rparr>, lq_base_timeout = 1800, lq_base_cost = 5,
      lq_static_dev_max = 3, lq_history = None, lq_profiles = Some sample_profiles\<rparr>"

lemma sample_matching:
  "matching_profile_entries (\<lambda>_. []) sample_registry sample_profiles (lq_model sample_request)
     = [[(''dev'', PDict [(''by_complexity'', PDict [(''small'', PDict
         [(''runs'', PInt 4), (''_iterations_sum'', PFloat 4), (''_cost_sum'', PFloat 4), (''max_duration_s'', PFloat 2000),
          (''max_killed_timeout_s'', PFloat 2400)])])])]]"
  by (simp add: matching_profile_entries_def profile_models_def sample_profiles_def sample_request_def py_get_def entry_matches_def)

lemma sample_stats:
  "\<exists>s. get_dev_complexity_stats (\<lambda>_. []) (\<lambda>_. None) (\<lambda>_. None) sample_registry sample_profiles (lq_model sample_request)
     (lq_band sample_request) min_profile_runs = Inr (Some s)"
proof -
  have band: "normalize_band (lq_band sample_request) = ''small''" by code_simp
  show ?thesis
    unfolding get_dev_complexity_stats_def sample_matching band
    by (simp add: band_bucket_def py_get_def get_or_def py_int_def add_bucket_def metric_sum_def py_float_def no_sums_def min_profile_runs_def)
qed

lemma sample_request_fields:
  "rp_adaptive_iterations (lq_policy sample_request)" "lq_profiles sample_request = Some sample_profiles"
  "score_from_inputs (lq_score sample_request) (lq_band sample_request) = Some 2"
  by (simp_all add: sample_request_def score_from_inputs_def)

lemma sample_score_stats: "get_dev_score_cost_stats (\<lambda>_. None) (\<lambda>_. None) sample_profiles 2 min_profile_runs = Inr None"
  by (simp add: get_dev_score_cost_stats_def profile_models_def sample_profiles_def py_get_def score_bucket_def min_profile_runs_def)

lemma sample_derived: "\<exists>l. derive_limits (\<lambda>_. []) (\<lambda>_. None) (\<lambda>_. None) sample_registry sample_request = Inr l"
  using sample_stats sample_score_stats sample_request_fields by (auto simp: derive_limits_def sample_profiles_def)

theorem timeout_covers_observations_witness:
  "\<exists>l. derive_limits (\<lambda>_. []) (\<lambda>_. None) (\<lambda>_. None) sample_registry sample_request = Inr l
     \<and> py_round 4 2400 \<le> of_int (al_dev_timeout_seconds l)"
proof -
  let ?bc = "[(''runs'', PInt 4), (''_iterations_sum'', PFloat 4), (''_cost_sum'', PFloat 4), (''max_duration_s'', PFloat 2000),
    (''max_killed_timeout_s'', PFloat 2400)]"
  from sample_stats obtain s where s: "get_dev_complexity_stats (\<lambda>_. []) (\<lambda>_. None) (\<lambda>_. None) sample_registry sample_profiles
    (lq_model sample_request) (lq_band sample_request) min_profile_runs = Inr (Some s)" by blast
  from sample_derived obtain l where l: "derive_limits (\<lambda>_. []) (\<lambda>_. None) (\<lambda>_. None) sample_registry sample_request = Inr l" by blast
  have b: "band_bucket (normalize_band (lq_band sample_request)) [(''dev'', PDict [(''by_complexity'', PDict [(''small'', PDict ?bc)])])] = Inr (Some ?bc)"
    by code_simp
  from timeout_covers_observations [OF l sample_request_fields(1,3,2) s _ b, of 4 2000 2400] l show ?thesis
    by (simp add: sample_matching py_int_def py_float_def get_or_def)
qed

section \<open>Comparability of the estimate\<close>








end
