(* ===== verification/Seating.thy ===== *)
theory Seating
  imports Adaptive_Limits
begin

text \<open>
  Seating of a story before development spends (\<^verbatim>\<open>_coordinator_loop\<close> of \<^verbatim>\<open>coordinator/engine.py\<close>, with the operator
  messages of \<^verbatim>\<open>coordinator/story_budget.py\<close> and the allocation that \<^verbatim>\<open>coordinator/preflight.py\<close> installs before): limits are derived, one review cycle is priced, the permission is
  reconciled with the allocation, the reservation recorded, the timeout fitted under the story's ceiling,
  and a story that cannot fund one review cycle is stopped. Log lines and events are left out.
\<close>

section \<open>Model\<close>

subsection \<open>Messages\<close>

text \<open>\<^verbatim>\<open>d[k]\<close>, \<^verbatim>\<open>f"{v:.2f}"\<close> and \<^verbatim>\<open>f"{float(v):.2f}"\<close>.\<close>

definition item :: "pydict \<Rightarrow> string \<Rightarrow> pyval py_result" where
  "item d k = (case dict_get d k of None \<Rightarrow> Inl (KeyError k) | Some v \<Rightarrow> Inr v)"

definition format_value :: "pyval \<Rightarrow> string py_result" where
  "format_value v = (case py_number v of None \<Rightarrow> Inl (conversion_error v) | Some x \<Rightarrow> Inr (format_2f x))"

definition format_float :: "(string \<Rightarrow> rat option) \<Rightarrow> pyval \<Rightarrow> string py_result" where
  "format_float parse_float v = py_bind (py_float parse_float v) (\<lambda>x. Inr (format_2f x))"

definition item_usd :: "(string \<Rightarrow> rat option) \<Rightarrow> pydict \<Rightarrow> string \<Rightarrow> string py_result" where
  "item_usd parse_float d k = py_bind (item d k) (format_float parse_float)"

text \<open>A count when it is a number: \<^verbatim>\<open>int(x)\<close> of an integer, a boolean or a float.\<close>

definition count_text :: "string \<Rightarrow> string \<Rightarrow> pyval \<Rightarrow> string" where
  "count_text before after v = (case py_number v of None \<Rightarrow> [] | Some x \<Rightarrow> before @ py_str_int (Story_Budget.truncate x) @ after)"

definition format_dev_estimate_basis :: "(rat \<Rightarrow> string) \<Rightarrow> pydict \<Rightarrow> string" where
  "format_dev_estimate_basis float_repr d =
     (let source = py_get d ''dev_cost_estimate_basis''; score = py_get d ''dev_cost_estimate_complexity_score'';
          samples = count_text '' over '' '' run(s)'' (py_get d ''dev_cost_estimate_sample_count'')
      in if source = PStr ''profile_observed_score'' then ''score-'' @ py_str float_repr score @ '' average across all models'' @ samples
         else if source = PStr ''profile_observed_band''
         then (let band = py_get d ''dev_cost_estimate_band'' in if py_truthy band then py_str float_repr band else ''unknown'')
           @ ''-band, single-model average'' @ samples @ (if score \<noteq> PNone then ''; scored '' @ py_str float_repr score else [])
         else if source = PStr ''configured_fallback''
         then (let reason = py_get d ''dev_cost_estimate_basis_reason''
               in ''configured fallback'' @ (if py_truthy reason then '': '' @ py_str float_repr reason else []))
         else if py_truthy source then py_str float_repr source else ''no recorded basis'')"

definition review_cycle_basis_text :: "(rat \<Rightarrow> string) \<Rightarrow> (string \<Rightarrow> rat option) \<Rightarrow> pydict \<Rightarrow> string py_result" where
  "review_cycle_basis_text float_repr parse_float d =
     (let basis = py_get d ''review_cycle_cost_basis''; headroom = py_get d ''review_cycle_cost_headroom_multiplier'';
          samples = count_text '' over '' '' cycle(s)'' (py_get d ''review_cycle_cost_sample_count'');
          median = py_get d ''review_cycle_cost_median_usd''; observed_max = py_get d ''review_cycle_cost_max_usd'';
          reason = py_strip (let r = py_get d ''review_cycle_cost_reason'' in if py_truthy r then py_str float_repr r else [])
      in if basis \<in> PStr ` {''observed_complexity_score'', ''observed_composition'', ''observed_review_cycle''} \<and> median \<noteq> PNone \<and> headroom \<noteq> PNone
         then py_bind (format_float parse_float median) (\<lambda>m. py_bind (format_float parse_float headroom) (\<lambda>h.
                Inr ('' (observed median $'' @ m @ '' x '' @ h @ '' headroom'' @ samples @ '', ''
                  @ (if basis = PStr ''observed_complexity_score''
                     then ''complexity score '' @ py_str float_repr (py_get d ''review_cycle_cost_complexity_score'')
                     else if basis = PStr ''observed_composition'' then ''this panel'' else ''review at large'') @ '')'')))
         else if basis = PStr ''observed_sparse'' \<and> observed_max \<noteq> PNone \<and> headroom \<noteq> PNone
         then py_bind (format_float parse_float observed_max) (\<lambda>m. py_bind (format_float parse_float headroom) (\<lambda>h.
                Inr ('' (sparse history: observed max $'' @ m @ '' x '' @ h @ '' headroom'' @ samples @ '', capped at the ceiling sum)'')))
         else if basis = PStr ''ceiling_fallback''
         then Inr ('' (ceiling fallback'' @ (if reason \<noteq> [] then '': '' @ reason else []) @ '')'')
         else Inr [])"

text \<open>The score the allocation prices, a question mark where there is none.\<close>

definition allocation_score_text :: "(rat \<Rightarrow> string) \<Rightarrow> pydict \<Rightarrow> string" where
  "allocation_score_text float_repr d =
     (let score = py_get d ''complexity_score'' in if score \<noteq> PNone then py_str float_repr score else ''?'')"

definition format_reconciliation :: "(rat \<Rightarrow> string) \<Rightarrow> (string \<Rightarrow> rat option) \<Rightarrow> pydict \<Rightarrow> string py_result" where
  "format_reconciliation float_repr parse_float d =
     py_bind (review_cycle_basis_text float_repr parse_float d) (\<lambda>basis.
       let action = py_get d ''action''; usd = item_usd parse_float d;
           shown = (\<lambda>k f. py_bind (item d k) (\<lambda>v. f (py_str float_repr v)))
       in if action = PStr ''review_max_reduced''
          then shown ''requested_review_max'' (\<lambda>requested. shown ''reconciled_review_max'' (\<lambda>reconciled.
                 py_bind (usd ''allocation_usd'') (\<lambda>a. shown ''affordable_review_cycles'' (\<lambda>n.
                 py_bind (usd ''review_cycle_cost_usd'') (\<lambda>c. py_bind (usd ''dev_cost_estimate_usd'') (\<lambda>e.
                   Inr (''review_max reduced '' @ requested @ '' -> '' @ reconciled @ '': the $'' @ a @ '' allocation funds '' @ n
                     @ '' review cycle(s) at $'' @ c @ '' each'' @ basis @ '' after a $'' @ e @ '' dev estimate.'')))))))
          else if action = PStr ''review_unfundable''
          then py_bind (usd ''allocation_usd'') (\<lambda>a. py_bind (usd ''review_cycle_cost_usd'') (\<lambda>c. py_bind (usd ''dev_cost_estimate_usd'') (\<lambda>e.
                 py_bind (usd ''shortfall_usd'') (\<lambda>s.
                   Inr (''the $'' @ a @ '' allocation cannot fund one $'' @ c @ '' review cycle'' @ basis @ '' after a $'' @ e
                     @ '' dev estimate (short $'' @ s @ '').'')))))
          else if action = PStr ''dev_estimate_not_comparable''
          then shown ''requested_review_max'' (\<lambda>requested. py_bind (usd ''dev_cost_estimate_usd'') (\<lambda>e.
                 Inr (''review_max left at '' @ requested @ '': the dev estimate and the allocation are not on a common population, so they were not ''
                   @ ''subtracted. The allocation prices complexity score '' @ allocation_score_text float_repr d @ ''; the $'' @ e
                   @ '' dev estimate is a '' @ format_dev_estimate_basis float_repr d @ ''. Nothing reserved for review.'')))
          else if action = PStr ''review_cost_not_comparable''
          then shown ''requested_review_max'' (\<lambda>requested. py_bind (usd ''allocation_usd'') (\<lambda>a. py_bind (usd ''review_cycle_cost_usd'') (\<lambda>c.
                 Inr (''review_max left at '' @ requested @ '': no review cycle fits the $'' @ a @ '' allocation at $'' @ c @ '' each'' @ basis
                   @ '', but that price and the allocation are not on a common population, so the story was not refused. The allocation prices ''
                   @ ''complexity score '' @ allocation_score_text float_repr d @ ''; no review history at that score was available to price ''
                   @ ''against. Nothing reserved for review; the dispatch-time check against measured spend still applies.''))))
          else if action = PStr ''within_allocation''
          then shown ''requested_review_max'' (\<lambda>requested. Inr (''allocation funds the permitted '' @ requested @ '' review cycle(s).''))
          else Inr (''review-cycle reconciliation not decided ('' @ py_str float_repr action @ '').''))"

definition format_nonreview_shortfall :: "(rat \<Rightarrow> string) \<Rightarrow> (string \<Rightarrow> rat option) \<Rightarrow> pydict \<Rightarrow> string \<Rightarrow> string py_result" where
  "format_nonreview_shortfall float_repr parse_float d story_label =
     (let protected = (let p = py_get d ''reserved_review_remaining_usd'' in if p = PNone then py_get d ''reserved_review_usd'' else p);
          usd = item_usd parse_float d
      in py_bind (usd ''observed_usd'') (\<lambda>observed. py_bind (usd ''nonreview_allocation_usd'') (\<lambda>pool. py_bind (usd ''allocation_usd'') (\<lambda>a.
         py_bind (item d ''phase'') (\<lambda>phase. py_bind (format_float parse_float protected) (\<lambda>p. py_bind (usd ''reserved_review_usd'') (\<lambda>r.
           Inr (''Story allocation exhausted: '' @ story_label @ '' has spent $'' @ observed @ '' of the $'' @ pool @ '' its $'' @ a
             @ '' allocation leaves for non-review work, so no further '' @ py_str float_repr phase @ '' attempt is funded. $'' @ p
             @ '' is reserved for the review cycles that can yet run -- of the $'' @ r @ '' seated for ''
             @ py_str float_repr (py_get d ''reserved_review_cycles'')
             @ '' review cycle(s) -- and is not available to spend here. Sprint headroom is reported alongside this story in the sprint summary.''))))))))"

definition expected_text :: "(rat \<Rightarrow> string) \<Rightarrow> (string \<Rightarrow> rat option) \<Rightarrow> pydict \<Rightarrow> string py_result" where
  "expected_text float_repr parse_float d =
     (if py_get d ''median_usd'' = PNone then Inr ''no band history''
      else py_bind (item_usd parse_float d ''median_usd'') (\<lambda>m. py_bind (item_usd parse_float d ''p90_usd'') (\<lambda>p.
           py_bind (item_usd parse_float d ''max_usd'') (\<lambda>x.
             Inr (''median $'' @ m @ '' / p90 $'' @ p @ '' / max $'' @ x @ '' over '' @ py_str float_repr (py_get d ''sample_count'') @ '' run(s)'')))))"

definition participants_text :: "pyval \<Rightarrow> string py_result" where
  "participants_text v =
     (case v of
        PList xs \<Rightarrow> if list_all (\<lambda>x. case x of PStr s \<Rightarrow> True | _ \<Rightarrow> False) xs
                   then Inr (py_join '', '' (map (\<lambda>x. case x of PStr s \<Rightarrow> s | _ \<Rightarrow> []) xs)) else Inl (TypeError ''join'')
      | _ \<Rightarrow> Inl (TypeError ''join''))"

definition format_shortfall :: "(rat \<Rightarrow> string) \<Rightarrow> (string \<Rightarrow> rat option) \<Rightarrow> pydict \<Rightarrow> string option \<Rightarrow> string py_result" where
  "format_shortfall float_repr parse_float d story =
     (let story_label = (case story of Some (c # cs) \<Rightarrow> ''story '' @ (c # cs) | _ \<Rightarrow> ''story'');
          projected = py_truthy (py_get d ''projected''); plain = (\<lambda>k. py_bind (item d k) format_value)
      in if py_truthy (py_get d ''nonreview_exhausted'') then format_nonreview_shortfall float_repr parse_float d story_label
         else py_bind (expected_text float_repr parse_float d) (\<lambda>expected. py_bind (item d ''phase'') (\<lambda>phase.
              py_bind (py_bind (item d ''participants'') participants_text) (\<lambda>names. py_bind (plain ''planned_usd'') (\<lambda>planned.
              py_bind (plain ''remaining_usd'') (\<lambda>remaining. py_bind (plain ''allocation_usd'') (\<lambda>a. py_bind (plain ''observed_usd'') (\<lambda>observed.
                Inr (''Story allocation exhausted: '' @ story_label @ '' cannot fund its planned '' @ py_str float_repr phase @ '' participants (''
                  @ names @ '') -- needs $'' @ planned @ '', $'' @ remaining @ '' left of the $'' @ a @ '' allocation (complexity score ''
                  @ py_str float_repr (py_get d ''complexity_score'') @ '', basis '' @ py_str float_repr (py_get d ''basis'') @ '', expected '' @ expected
                  @ ''); '' @ (if projected then ''projected'' else ''observed'') @ '' $'' @ observed @ ''.''
                  @ (if projected then '' Decided at seating, before dev spent: the permitted review cycles cost more than the allocation ''
                       @ ''leaves after the dev estimate.'' else [])
                  @ '' Sprint headroom is reported alongside this story in the sprint summary.'')))))))))"

subsection \<open>The allocation on the state\<close>

text \<open>
  What a preflight installs: the budgets of the roles of the configuration, scaled to the allocation, and the record on the
  state: the one already there when it reads as an amount and was derived at the same complexity score, a derived one
  otherwise, with the scaled budgets. The copy in the routing audit and the log line are left out.
\<close>

definition carried_story_allocation :: "(string \<Rightarrow> rat option) \<Rightarrow> pydict option \<Rightarrow> int option \<Rightarrow> (pydict \<times> rat) option" where
  "carried_story_allocation parse_float carried score =
     (case carried of
        None \<Rightarrow> None
      | Some d \<Rightarrow>
          if d = [] then None
          else (case dict_get d ''allocation_usd'' of
                  None \<Rightarrow> None
                | Some v \<Rightarrow>
                    (case to_float parse_float v of
                       None \<Rightarrow> None
                     | Some x \<Rightarrow> if py_eq (py_get d ''complexity_score'') (opt_int score) then Some (d, x) else None)))"

definition apply_story_allocation :: "(rat \<Rightarrow> string) \<Rightarrow> (string \<Rightarrow> rat option) \<Rightarrow> substrate_costs \<Rightarrow> int option \<Rightarrow> rat \<Rightarrow> nat
    \<Rightarrow> (string, rat) dict \<Rightarrow> string list \<Rightarrow> rat \<Rightarrow> pydict option \<Rightarrow> (string, rat) dict \<times> pydict" where
  "apply_story_allocation float_repr parse_float costs score configured_usd min_samples budgets locked floor_usd stored =
     (let derived = derive_story_allocation float_repr costs score configured_usd min_samples;
          carried = carried_story_allocation parse_float stored score;
          (record1, allocation_usd) = (case carried of Some c \<Rightarrow> c | None \<Rightarrow> (allocation_as_dict derived, sa_allocation_usd derived));
          scaled = scale_role_budgets budgets allocation_usd locked floor_usd;
          record2 = dict_set ''scaled_profiles'' (PDict (map (\<lambda>(name, value). (name, PFloat (py_round 4 value))) scaled)) record1
      in (scaled, if carried \<noteq> None then dict_set ''carried'' (PBool True) record2 else record2))"

subsection \<open>The step\<close>

record seat_config =
  sc_slug :: string
  sc_timeout_seconds :: int
  sc_timeout_medium :: "int option"
  sc_timeout_large :: "int option"
  sc_complexity :: "string option"
  sc_complexity_score :: "int option"
  sc_retry :: retry_policy
  sc_model :: model_ref
  sc_budget_usd :: rat
  sc_explicit_dev :: bool
  sc_assignment_enabled :: bool
  sc_assignment_adaptive :: bool
  sc_profiles :: pydict
  sc_history :: "pyval list"
  sc_price_records :: "pydict list"
  sc_price_prefix :: string
  sc_review_pool :: "(string \<times> rat) list"
  sc_allocation :: "pydict option"
  sc_spent :: "rat option"
  sc_worker_timeout :: "rat option"

record seat_state =
  ss_dev_max :: int
  ss_review_max :: int
  ss_dev_timeout_seconds :: int
  ss_dev_cost_estimate_usd :: rat
  ss_review_cycle_planning :: "pydict option"
  ss_reservation :: "pydict option"
  ss_limits_audit :: pydict
  ss_allocation_exhausted :: "pydict option"
  ss_error :: "string option"
  ss_error_type :: "string option"
  ss_escalated :: bool
  ss_max_iterations :: int

definition adaptive_resource_enabled :: "seat_config \<Rightarrow> bool" where
  "adaptive_resource_enabled c \<longleftrightarrow> sc_assignment_enabled c \<and> sc_assignment_adaptive c \<and> \<not> sc_explicit_dev c"

definition seat_request :: "seat_config \<Rightarrow> limit_request" where
  "seat_request c =
     \<lparr>lq_score = sc_complexity_score c, lq_band = sc_complexity c, lq_policy = sc_retry c, lq_model = sc_model c,
      lq_base_timeout = fst (resolve_timeout_with_active (sc_timeout_seconds c) (sc_timeout_medium c) (sc_timeout_large c)
        (sc_complexity c) (sc_complexity_score c)),
      lq_base_cost = sc_budget_usd c, lq_static_dev_max = rp_max_dev_iterations (sc_retry c), lq_history = Some (sc_history c),
      lq_profiles = (if adaptive_resource_enabled c then Some (sc_profiles c) else None)\<rparr>"

definition audit_int :: "pydict \<Rightarrow> string \<Rightarrow> int" where
  "audit_int d k = (case py_get d k of PInt i \<Rightarrow> i | _ \<Rightarrow> 0)"

text \<open>Without adaptive resources development keeps the configured limits; review keeps the derived one.\<close>

definition static_override :: "seat_config \<Rightarrow> adaptive_limits \<Rightarrow> adaptive_limits" where
  "static_override c l =
     (if adaptive_resource_enabled c then l
      else (let q = seat_request c; d = al_audit l;
                note = (if audit_int d ''review_history_sample_size'' > 0
                        then (if audit_int d ''chosen_review_max'' > audit_int d ''base_review''
                              then '' review history raised review_max to '' @ py_str_int (al_review_max l) @ ''.''
                              else '' review history stayed within the complexity-derived review base.'')
                        else '' no matching review history; using complexity-derived review limit.'');
                rationale = (if sc_explicit_dev c then ''explicit dev forge.yaml override preserved over adaptive limits''
                             else ''adaptive assignment disabled; using static configured dev limits'')
            in \<lparr>al_dev_max = lq_static_dev_max q, al_review_max = al_review_max l, al_dev_timeout_seconds = lq_base_timeout q,
                al_dev_cost_estimate_usd = lq_base_cost q,
                al_audit = set_all [(''enabled'', PBool False), (''explicit_dev_override'', PBool (sc_explicit_dev c)),
                  (''rationale'', PStr (rationale @ note))] d\<rparr>))"

definition seat_planning :: "(rat \<Rightarrow> string) \<Rightarrow> (string \<Rightarrow> rat option) \<Rightarrow> seat_config \<Rightarrow> planning_price" where
  "seat_planning float_repr parse_float c =
     derive_review_cycle_planning_price float_repr parse_float (sc_price_records c) (sc_price_prefix c)
       (float_sum (map snd (sc_review_pool c))) (map fst (sc_review_pool c)) (sc_complexity_score c)
       review_cycle_price_min_samples review_cycle_price_headroom"

definition seat_seating :: "seat_config \<Rightarrow> adaptive_limits \<Rightarrow> planning_price \<Rightarrow> seating" where
  "seat_seating c l p =
     \<lparr>sg_allocation = sc_allocation c, sg_dev_estimate = Some (al_dev_cost_estimate_usd l),
      sg_dev_basis = (case py_get (al_audit l) ''dev_cost_estimate_basis'' of PDict d \<Rightarrow> Some d | _ \<Rightarrow> None),
      sg_cycle_cost = Some (py_round 4 (pp_planned_cost_usd p)), sg_planning = Some (planning_as_dict p),
      sg_requested = al_review_max l, sg_spent = sc_spent c\<rparr>"

definition noted_actions :: "string set" where
  "noted_actions = {''review_max_reduced'', ''review_unfundable'', ''dev_estimate_not_comparable'', ''review_cost_not_comparable''}"

definition seat_rationale :: "(rat \<Rightarrow> string) \<Rightarrow> (string \<Rightarrow> rat option) \<Rightarrow> pydict \<Rightarrow> reconciliation \<Rightarrow> pydict py_result" where
  "seat_rationale float_repr parse_float audit r =
     (if rc_action r \<in> noted_actions
      then py_bind (format_reconciliation float_repr parse_float (reconciliation_as_dict r)) (\<lambda>msg.
             Inr (dict_set ''rationale'' (PStr (py_strip (py_str float_repr (get_or audit ''rationale'' (PStr [])) @ '' '' @ msg))) audit))
      else Inr audit)"

definition record_seat :: "adaptive_limits \<Rightarrow> pydict \<Rightarrow> reconciliation \<Rightarrow> seat_state \<Rightarrow> seat_state" where
  "record_seat l planning r st =
     st\<lparr>ss_dev_max := al_dev_max l, ss_review_max := al_review_max l, ss_dev_timeout_seconds := al_dev_timeout_seconds l,
        ss_dev_cost_estimate_usd := al_dev_cost_estimate_usd l, ss_review_cycle_planning := Some planning,
        ss_reservation := Some (seated_reservation r), ss_limits_audit := al_audit l\<rparr>"

text \<open>The result is the state and whether the story stops here.\<close>

definition finish_seat :: "(rat \<Rightarrow> string) \<Rightarrow> (string \<Rightarrow> rat option) \<Rightarrow> seat_config \<Rightarrow> reconciliation \<Rightarrow> seat_state \<Rightarrow> (seat_state \<times> bool) py_result" where
  "finish_seat float_repr parse_float c r st =
     (case (if rc_action r = ''review_unfundable''
            then seating_shortfall parse_float (sc_allocation c) r (map fst (sc_review_pool c)) else None) of
        None \<Rightarrow> Inr (st\<lparr>ss_max_iterations := ss_dev_max st\<rparr>, False)
      | Some shortfall \<Rightarrow>
          py_bind (format_shortfall float_repr parse_float shortfall (Some (sc_slug c))) (\<lambda>msg.
            Inr (st\<lparr>ss_allocation_exhausted := Some shortfall, ss_error := Some msg, ss_error_type := Some ''allocation_exhausted'',
                   ss_escalated := True\<rparr>, True)))"

definition seat_limits :: "(rat \<Rightarrow> string) \<Rightarrow> (string \<Rightarrow> rat option) \<Rightarrow> seat_config \<Rightarrow> adaptive_limits \<Rightarrow> reconciliation \<Rightarrow> pydict
    \<Rightarrow> adaptive_limits py_result" where
  "seat_limits float_repr parse_float c l r planning =
     py_bind (seat_rationale float_repr parse_float (set_all [(''review_cycle_planning'', PDict planning),
         (''review_cycle_reconciliation'', PDict (reconciliation_as_dict r)), (''review_funding_reservation'', PDict (seated_reservation r))]
         (al_audit l)) r) (\<lambda>audit.
       case cap_timeout_to_story_ceiling float_repr (al_dev_timeout_seconds l) (sc_worker_timeout c) (al_dev_max l)
              dev_invocation_story_share min_dev_invocation_seconds of
         (timeout, cap_audit) \<Rightarrow>
           Inr \<lparr>al_dev_max = al_dev_max l, al_review_max = rc_reconciled r, al_dev_timeout_seconds = timeout,
                al_dev_cost_estimate_usd = al_dev_cost_estimate_usd l,
                al_audit = dict_set ''story_ceiling_cap'' (PDict cap_audit) audit\<rparr>)"

definition unseated :: "seat_state \<Rightarrow> bool" where
  "unseated st \<longleftrightarrow> ss_dev_max st = 0 \<or> ss_review_max st = 0 \<or> ss_dev_timeout_seconds st = 0 \<or> ss_dev_cost_estimate_usd st = 0"

definition seat_story :: "(rat \<Rightarrow> string) \<Rightarrow> (string \<Rightarrow> rat option) \<Rightarrow> (string \<Rightarrow> int option) \<Rightarrow> registry \<Rightarrow> seat_config \<Rightarrow> seat_state
    \<Rightarrow> (seat_state \<times> bool) py_result" where
  "seat_story float_repr parse_float parse_int rg c st =
     (if \<not> unseated st then Inr (st\<lparr>ss_max_iterations := ss_dev_max st\<rparr>, False)
      else py_bind (derive_limits float_repr parse_float parse_int rg (seat_request c)) (\<lambda>l0.
           let l = static_override c l0; p = seat_planning float_repr parse_float c
           in py_bind (reconcile_review_cycles parse_float parse_int (seat_seating c l p)) (\<lambda>r.
              py_bind (seat_limits float_repr parse_float c l r (planning_as_dict p)) (\<lambda>l1.
                finish_seat float_repr parse_float c r (record_seat l1 (planning_as_dict p) r st)))))"

section \<open>The messages never fail\<close>

text \<open>What the message functions need of a reconciliation, and that every reconciliation has it.\<close>

definition renderable :: "pydict option \<Rightarrow> reconciliation \<Rightarrow> bool" where
  "renderable planning r \<longleftrightarrow>
     (\<exists>b. rc_dev_basis r = copy_basis dev_basis_keys b) \<and> (\<exists>b. rc_review_basis r = copy_basis review_basis_keys b \<and> (b = None \<or> b = planning))
     \<and> (rc_action r \<in> noted_actions \<longrightarrow> rc_allocation_usd r \<noteq> None \<and> rc_review_cycle_cost_usd r \<noteq> None \<and> rc_dev_cost_estimate_usd r \<noteq> None)
     \<and> (rc_action r = ''review_unfundable'' \<longrightarrow> rc_shortfall_usd r \<noteq> None)"

lemma fit_cycles_keeps:
  "rc_dev_basis (fit_cycles requested remaining cycle_cost n comparable r) = rc_dev_basis r"
  "rc_review_basis (fit_cycles requested remaining cycle_cost n comparable r) = rc_review_basis r"
  "rc_allocation_usd (fit_cycles requested remaining cycle_cost n comparable r) = rc_allocation_usd r"
  "rc_review_cycle_cost_usd (fit_cycles requested remaining cycle_cost n comparable r) = rc_review_cycle_cost_usd r"
  "rc_dev_cost_estimate_usd (fit_cycles requested remaining cycle_cost n comparable r) = rc_dev_cost_estimate_usd r"
  "rc_action (fit_cycles requested remaining cycle_cost n comparable r) = ''review_unfundable''
     \<Longrightarrow> \<exists>y. rc_shortfall_usd (fit_cycles requested remaining cycle_cost n comparable r) = Some y"
  by (simp_all add: fit_cycles_def Let_def split: if_splits)

lemma reconcile_renderable:
  assumes "reconcile_review_cycles parse_float parse_int g = Inr r"
  shows "renderable (sg_planning g) r"
  using assms unfolding reconcile_review_cycles_def Let_def undecided_def
  by (auto simp: renderable_def noted_actions_def fit_cycles_keeps py_bind_eq_Inr split: option.splits if_splits)

text \<open>Lookups in the rendered record.\<close>

lemma record_items:
  assumes "rc_dev_basis r = copy_basis dev_basis_keys bd" "rc_review_basis r = copy_basis review_basis_keys br"
  shows "item (reconciliation_as_dict r) ''requested_review_max'' = Inr (PInt (rc_requested r))"
    "item (reconciliation_as_dict r) ''reconciled_review_max'' = Inr (PInt (rc_reconciled r))"
    "item (reconciliation_as_dict r) ''affordable_review_cycles'' = Inr (opt_int (rc_affordable r))"
    "item (reconciliation_as_dict r) ''allocation_usd'' = Inr (opt_figure (rc_allocation_usd r))"
    "item (reconciliation_as_dict r) ''dev_cost_estimate_usd'' = Inr (opt_figure (rc_dev_cost_estimate_usd r))"
    "item (reconciliation_as_dict r) ''review_cycle_cost_usd'' = Inr (opt_figure (rc_review_cycle_cost_usd r))"
    "py_get (reconciliation_as_dict r) ''action'' = PStr (rc_action r)"
    "rc_shortfall_usd r = Some x \<Longrightarrow> item (reconciliation_as_dict r) ''shortfall_usd'' = Inr (PFloat x)"
    "py_get (reconciliation_as_dict r) ''review_cycle_cost_basis'' = (case br of None \<Rightarrow> PNone | Some d \<Rightarrow> py_get d ''basis'')"
    "py_get (reconciliation_as_dict r) ''review_cycle_cost_median_usd'' = (case br of None \<Rightarrow> PNone | Some d \<Rightarrow> py_get d ''median_usd'')"
    "py_get (reconciliation_as_dict r) ''review_cycle_cost_max_usd'' = (case br of None \<Rightarrow> PNone | Some d \<Rightarrow> py_get d ''max_usd'')"
    "py_get (reconciliation_as_dict r) ''review_cycle_cost_headroom_multiplier'' = (case br of None \<Rightarrow> PNone | Some d \<Rightarrow> py_get d ''headroom_multiplier'')"
  by (simp_all add: reconciliation_as_dict_def item_def py_get_def assms copy_basis_def review_basis_keys_def dev_basis_keys_def)

lemma planning_items:
  "py_get (planning_as_dict p) ''median_usd'' = round_opt (pp_median_usd p)" "py_get (planning_as_dict p) ''max_usd'' = round_opt (pp_max_usd p)"
  "py_get (planning_as_dict p) ''headroom_multiplier'' = PFloat (py_round 4 (pp_headroom_multiplier p))"
  by (simp_all add: planning_as_dict_def py_get_def)

lemma format_float_ok [simp]:
  "format_float parse_float (PFloat x) = Inr (format_2f x)"
  "v \<noteq> None \<Longrightarrow> \<exists>t. format_float parse_float (opt_figure v) = Inr t"
  "round_opt u \<noteq> PNone \<Longrightarrow> \<exists>t. format_float parse_float (round_opt u) = Inr t"
  by (auto simp: format_float_def py_float_def opt_figure_def round_opt_def split: option.splits)

lemma basis_text_total:
  assumes "renderable (Some (planning_as_dict p)) r"
  shows "\<exists>t. review_cycle_basis_text float_repr parse_float (reconciliation_as_dict r) = Inr t"
proof -
  from assms obtain bd br where b: "rc_dev_basis r = copy_basis dev_basis_keys bd" "rc_review_basis r = copy_basis review_basis_keys br"
    "br = None \<or> br = Some (planning_as_dict p)" by (auto simp: renderable_def)
  show ?thesis
  proof (cases br)
    case None
    then show ?thesis by (simp add: review_cycle_basis_text_def record_items [OF b(1,2)])
  next
    case (Some d)
    with b(3) have d: "d = planning_as_dict p" by simp
    have m: "\<exists>t. format_float parse_float (round_opt u) = Inr t" if "round_opt u \<noteq> PNone" for u using that by (rule format_float_ok)
    show ?thesis
      using m [of "pp_median_usd p"] m [of "pp_max_usd p"]
      unfolding review_cycle_basis_text_def Let_def record_items [OF b(1,2)] Some d option.case planning_items
      by (auto simp: py_bind_eq_Inr simp del: split_paired_All)
  qed
qed

lemma format_reconciliation_total:
  assumes "renderable (Some (planning_as_dict p)) r" "rc_action r \<in> noted_actions"
  shows "\<exists>t. format_reconciliation float_repr parse_float (reconciliation_as_dict r) = Inr t"
proof -
  from assms(1) obtain bd br where b: "rc_dev_basis r = copy_basis dev_basis_keys bd" "rc_review_basis r = copy_basis review_basis_keys br"
    by (auto simp: renderable_def)
  from basis_text_total [OF assms(1)] obtain t where t: "review_cycle_basis_text float_repr parse_float (reconciliation_as_dict r) = Inr t" by blast
  from assms obtain a c e where f: "rc_allocation_usd r = Some a" "rc_review_cycle_cost_usd r = Some c" "rc_dev_cost_estimate_usd r = Some e"
    by (auto simp: renderable_def)
  have usd: "item_usd parse_float (reconciliation_as_dict r) ''allocation_usd'' = Inr (format_2f a)"
    "item_usd parse_float (reconciliation_as_dict r) ''review_cycle_cost_usd'' = Inr (format_2f c)"
    "item_usd parse_float (reconciliation_as_dict r) ''dev_cost_estimate_usd'' = Inr (format_2f e)"
    by (simp_all add: item_usd_def record_items [OF b] f opt_figure_def)
  have "rc_action r = ''review_unfundable'' \<Longrightarrow> \<exists>x. item_usd parse_float (reconciliation_as_dict r) ''shortfall_usd'' = Inr (format_2f x)"
    using assms(1) record_items(8) [OF b] by (auto simp: renderable_def item_usd_def)
  with assms(2) show ?thesis
    unfolding format_reconciliation_def t Let_def record_items(7) [OF b] noted_actions_def
    by (auto simp: usd record_items(1-3) [OF b])
qed

text \<open>The evidence of an allocation: the three figures are there together or not at all.\<close>

lemma derived_evidence:
  assumes "a = derive_story_allocation float_repr costs score configured min_samples" "sa_median_usd a \<noteq> None"
  shows "sa_p90_usd a \<noteq> None \<and> sa_max_usd a \<noteq> None"
proof -
  have "sa_median_usd (allocation_from_samples float_repr score samples configured taint unsuccessful min_samples) = None
    \<or> sa_p90_usd (allocation_from_samples float_repr score samples configured taint unsuccessful min_samples) \<noteq> None
      \<and> sa_max_usd (allocation_from_samples float_repr score samples configured taint unsuccessful min_samples) \<noteq> None"
    for samples taint unsuccessful
    by (simp add: allocation_from_samples_def configured_allocation_def Let_def split: option.split)
  with assms show ?thesis by (cases costs) (force simp: Let_def)+
qed

text \<open>The records installed by any number of preflights, resumed ones included, from a state without one.\<close>

inductive installed_allocation :: "(rat \<Rightarrow> string) \<Rightarrow> (string \<Rightarrow> rat option) \<Rightarrow> pydict option \<Rightarrow> bool" for float_repr parse_float where
  not_yet: "installed_allocation float_repr parse_float None"
| preflight: "installed_allocation float_repr parse_float stored \<Longrightarrow>
    installed_allocation float_repr parse_float
      (Some (snd (apply_story_allocation float_repr parse_float costs score configured min_samples budgets locked floor_usd stored)))"

text \<open>Apart from the two fields a preflight writes, such a record is one that was derived.\<close>

definition derived_record :: "(rat \<Rightarrow> string) \<Rightarrow> pydict \<Rightarrow> story_allocation \<Rightarrow> bool" where
  "derived_record float_repr d a \<longleftrightarrow> (\<exists>costs score configured min_samples. a = derive_story_allocation float_repr costs score configured min_samples)
     \<and> (\<forall>k. k \<noteq> ''scaled_profiles'' \<and> k \<noteq> ''carried'' \<longrightarrow> dict_get d k = dict_get (allocation_as_dict a) k)"

lemma derived_record_set:
  "derived_record float_repr d a \<Longrightarrow> k = ''scaled_profiles'' \<or> k = ''carried'' \<Longrightarrow> derived_record float_repr (dict_set k v d) a"
  by (auto simp: derived_record_def)

lemma derived_record_source:
  assumes "derived_record float_repr d a"
  obtains costs score configured min_samples where "a = derive_story_allocation float_repr costs score configured min_samples"
  using assms unfolding derived_record_def by (elim conjE exE) (rule that)

lemma derived_record_new: "derived_record float_repr (allocation_as_dict (derive_story_allocation float_repr costs score configured min_samples))
    (derive_story_allocation float_repr costs score configured min_samples)"
  by (auto simp: derived_record_def)

lemma carried_record: "carried_story_allocation parse_float stored score = Some (d, x) \<Longrightarrow> stored = Some d"
  by (auto simp: carried_story_allocation_def split: option.splits if_splits)

lemma installed_derived:
  assumes "installed_allocation float_repr parse_float stored"
  shows "stored = Some d \<Longrightarrow> \<exists>a. derived_record float_repr d a"
  using assms
proof (induction arbitrary: d rule: installed_allocation.induct)
  case (preflight stored costs score configured min_samples budgets locked floor_usd)
  let ?a = "derive_story_allocation float_repr costs score configured min_samples"
  show ?case
  proof (cases "carried_story_allocation parse_float stored score")
    case None
    with preflight.prems have "d = dict_set ''scaled_profiles'' (PDict (map (\<lambda>(name, value). (name, PFloat (py_round 4 value)))
        (scale_role_budgets budgets (sa_allocation_usd ?a) locked floor_usd))) (allocation_as_dict ?a)"
      by (simp add: apply_story_allocation_def Let_def)
    with derived_record_set [OF derived_record_new] show ?thesis by blast
  next
    case (Some c)
    obtain d0 x where c: "c = (d0, x)" by force
    from preflight.IH [OF carried_record [OF Some [unfolded c]]] obtain a where a: "derived_record float_repr d0 a" by blast
    from preflight.prems Some c have "d = dict_set ''carried'' (PBool True) (dict_set ''scaled_profiles'' (PDict (map (\<lambda>(name, value). (name, PFloat (py_round 4 value)))
        (scale_role_budgets budgets x locked floor_usd))) d0)"
      by (simp add: apply_story_allocation_def Let_def)
    with a show ?thesis by (blast intro: derived_record_set)
  qed
qed simp

lemma derived_record_get:
  assumes "derived_record float_repr d a"
  shows "py_get d ''median_usd'' = round_opt (sa_median_usd a)" "py_get d ''p90_usd'' = round_opt (sa_p90_usd a)"
    "py_get d ''max_usd'' = round_opt (sa_max_usd a)"
proof -
  have "dict_get d ''median_usd'' = dict_get (allocation_as_dict a) ''median_usd''" "dict_get d ''p90_usd'' = dict_get (allocation_as_dict a) ''p90_usd''"
    "dict_get d ''max_usd'' = dict_get (allocation_as_dict a) ''max_usd''" using assms unfolding derived_record_def by simp_all
  then show "py_get d ''median_usd'' = round_opt (sa_median_usd a)" "py_get d ''p90_usd'' = round_opt (sa_p90_usd a)"
    "py_get d ''max_usd'' = round_opt (sa_max_usd a)" by (simp_all add: py_get_def allocation_as_dict_def)
qed

lemma shortfall_items:
  assumes "phase_funding_shortfall parse_float (Some alloc) observed phase participants planned = Some s"
    and "derived_record fr alloc a"
  shows "\<exists>o1 p r x. dict_get s ''phase'' = Some (PStr phase) \<and> dict_get s ''participants'' = Some (PList (map PStr participants))
    \<and> dict_get s ''planned_usd'' = Some (PFloat p) \<and> dict_get s ''remaining_usd'' = Some (PFloat r)
    \<and> dict_get s ''allocation_usd'' = Some (PFloat x) \<and> dict_get s ''observed_usd'' = Some (PFloat o1)
    \<and> dict_get s ''median_usd'' = Some (round_opt (sa_median_usd a)) \<and> dict_get s ''p90_usd'' = Some (round_opt (sa_p90_usd a))
    \<and> dict_get s ''max_usd'' = Some (round_opt (sa_max_usd a)) \<and> dict_get s ''nonreview_exhausted'' = None"
proof -
  from assms(1) derived_record_get [OF assms(2)] show ?thesis
    by (auto simp: phase_funding_shortfall_def Let_def allocation_evidence_def split: option.splits if_splits)
qed

lemma format_shortfall_total:
  assumes "derived_record fr alloc a"
    and "seating_shortfall parse_float (Some alloc) r participants = Some s"
  shows "\<exists>t. format_shortfall float_repr parse_float s story = Inr t"
proof -
  from assms(2) obtain s0 planned observed where s0: "phase_funding_shortfall parse_float (Some alloc) observed ''review'' participants planned = Some s0"
    and s: "s = dict_set ''seating_reconciliation'' (PDict (reconciliation_as_dict r)) (dict_set ''projected'' (PBool True) s0)"
    by (auto simp: seating_shortfall_def Let_def split: if_splits option.splits)
  from shortfall_items [OF s0 assms(1)] obtain o1 p q x where g: "dict_get s ''phase'' = Some (PStr ''review'')"
    "dict_get s ''participants'' = Some (PList (map PStr participants))" "dict_get s ''planned_usd'' = Some (PFloat p)"
    "dict_get s ''remaining_usd'' = Some (PFloat q)" "dict_get s ''allocation_usd'' = Some (PFloat x)" "dict_get s ''observed_usd'' = Some (PFloat o1)"
    "dict_get s ''median_usd'' = Some (round_opt (sa_median_usd a))" "dict_get s ''p90_usd'' = Some (round_opt (sa_p90_usd a))"
    "dict_get s ''max_usd'' = Some (round_opt (sa_max_usd a))" "dict_get s ''nonreview_exhausted'' = None"
    unfolding s by auto
  have "\<exists>t. expected_text float_repr parse_float s = Inr t"
  proof (cases "sa_median_usd a")
    case None
    then show ?thesis by (simp add: expected_text_def py_get_def g round_opt_def)
  next
    case (Some m)
    from derived_record_source [OF assms(1)] obtain costs score configured min_samples where
      "a = derive_story_allocation fr costs score configured min_samples" .
    from derived_evidence [OF this] Some obtain p90 mx where "sa_p90_usd a = Some p90" "sa_max_usd a = Some mx" by auto
    with Some show ?thesis by (simp add: expected_text_def py_get_def item_usd_def item_def g round_opt_def)
  qed
  moreover have "participants_text (PList (map PStr participants)) = Inr (py_join '', '' participants)"
    by (simp add: participants_text_def list_all_iff comp_def)
  ultimately show ?thesis
    by (auto simp: format_shortfall_def Let_def item_def format_value_def py_get_def g)
qed

section \<open>Seating\<close>

lemma seat_limits_total:
  assumes "renderable (Some (planning_as_dict p)) r"
  shows "\<exists>l1. seat_limits float_repr parse_float c l r planning = Inr l1"
proof -
  have "\<exists>d. seat_rationale float_repr parse_float audit r = Inr d" for audit
    using format_reconciliation_total [OF assms, of float_repr parse_float] by (auto simp: seat_rationale_def)
  then obtain d where "seat_rationale float_repr parse_float (set_all [(''review_cycle_planning'', PDict planning),
      (''review_cycle_reconciliation'', PDict (reconciliation_as_dict r)), (''review_funding_reservation'', PDict (seated_reservation r))]
      (al_audit l)) r = Inr d" by blast
  then show ?thesis by (simp add: seat_limits_def split: prod.split)
qed

lemma seat_total:
  assumes "derive_limits float_repr parse_float parse_int rg (seat_request c) = Inr l0"
    and "installed_allocation fr parse_float (sc_allocation c)"
  shows "\<exists>st' stop. seat_story float_repr parse_float parse_int rg c st = Inr (st', stop)"
proof (cases "unseated st")
  case True
  let ?p = "seat_planning float_repr parse_float c" and ?g = "seat_seating c (static_override c l0) (seat_planning float_repr parse_float c)"
  have "sg_cycle_cost ?g = Some (py_round 4 (pp_planned_cost_usd ?p))" by (simp add: seat_seating_def)
  from reconcile_total [OF this] obtain r where r: "reconcile_review_cycles parse_float parse_int ?g = Inr r" by blast
  have "sg_planning ?g = Some (planning_as_dict ?p)" by (simp add: seat_seating_def)
  with reconcile_renderable [OF r] have "renderable (Some (planning_as_dict ?p)) r" by simp
  from seat_limits_total [OF this] obtain l1 where
    l1: "seat_limits float_repr parse_float c (static_override c l0) r (planning_as_dict ?p) = Inr l1" by blast
  have "\<exists>t. format_shortfall float_repr parse_float s (Some (sc_slug c)) = Inr t"
    if s: "seating_shortfall parse_float (sc_allocation c) r (map fst (sc_review_pool c)) = Some s" for s
  proof -
    from s obtain d where d: "sc_allocation c = Some d"
      by (auto simp: seating_shortfall_def phase_funding_shortfall_def Let_def split: if_splits option.splits)
    from installed_derived [OF assms(2) this] obtain a where "derived_record fr d a" by blast
    from format_shortfall_total [OF this s [unfolded d]] show ?thesis .
  qed
  then have "\<exists>res. finish_seat float_repr parse_float c r st1 = Inr res" for st1
    unfolding finish_seat_def by (auto simp del: split_paired_Ex split: option.split)
  then show ?thesis using True assms(1) r l1 by (simp add: seat_story_def Let_def)
qed (simp add: seat_story_def ex_bool_eq)

text \<open>C27. 
  Seating a story always comes to an end with a decision: once the profiles could be read, and whatever allocation the preflights of
  this attempt and of earlier ones installed, derived or carried over, with the role budgets scaled to it, no later step raises,
  neither the division by the review price nor any message.
\<close>

theorem seating_never_raises:
  assumes "derive_limits float_repr parse_float parse_int rg (seat_request c) = Inr l0"
    and "installed_allocation fr parse_float (sc_allocation c)"
  shows "\<exists>st' stop. seat_story float_repr parse_float parse_int rg c st = Inr (st', stop)"
  using seat_total [OF assms] .

text \<open>A project without profiles or history: adaptive limits on, an allocation of the configured figure.\<close>

definition sample_config :: seat_config where
  "sample_config =
     \<lparr>sc_slug = ''issue-1'', sc_timeout_seconds = 1800, sc_timeout_medium = None, sc_timeout_large = None, sc_complexity = Some ''small'',
      sc_complexity_score = Some 2, sc_retry = lq_policy sample_request, sc_model = lq_model sample_request, sc_budget_usd = 5,
      sc_explicit_dev = False, sc_assignment_enabled = True, sc_assignment_adaptive = True, sc_profiles = [], sc_history = [],
      sc_price_records = [], sc_price_prefix = [], sc_review_pool = [(''reviewer'', 2)],
      sc_allocation = Some (snd (apply_story_allocation (\<lambda>_. []) (\<lambda>_. None) (NoCosts []) (Some 2) 10 8 [(''dev'', 5)] [] (1 / 20) None)), sc_spent = Some 0,
      sc_worker_timeout = Some 5400\<rparr>"

definition sample_unseated :: seat_state where
  "sample_unseated =
     \<lparr>ss_dev_max = 0, ss_review_max = 0, ss_dev_timeout_seconds = 0, ss_dev_cost_estimate_usd = 0, ss_review_cycle_planning = None,
      ss_reservation = None, ss_limits_audit = [], ss_allocation_exhausted = None, ss_error = None, ss_error_type = None,
      ss_escalated = False, ss_max_iterations = 0\<rparr>"

lemma sample_config_derived: "\<exists>l. derive_limits (\<lambda>_. []) (\<lambda>_. None) (\<lambda>_. None) sample_registry (seat_request sample_config) = Inr l"
  by (simp add: derive_limits_def seat_request_def sample_config_def sample_request_def score_from_inputs_def adaptive_resource_enabled_def)

lemma sample_installed: "installed_allocation (\<lambda>_. []) (\<lambda>_. None) (sc_allocation sample_config)"
  unfolding sample_config_def by (simp add: installed_allocation.intros)

theorem seating_never_raises_witness:
  "\<exists>st' stop. seat_story (\<lambda>_. []) (\<lambda>_. None) (\<lambda>_. None) sample_registry sample_config sample_unseated = Inr (st', stop)"
proof -
  from sample_config_derived obtain l where
    l: "derive_limits (\<lambda>_. []) (\<lambda>_. None) (\<lambda>_. None) sample_registry (seat_request sample_config) = Inr l" by blast
  from seating_never_raises [OF l sample_installed] show ?thesis .
qed

lemma derive_limits_review:
  assumes "derive_limits float_repr parse_float parse_int rg q = Inr l"
  shows "floor_review (lq_policy q) \<le> al_review_max l" "al_review_max l \<le> cap_review (lq_policy q)"
proof -
  from assms have "floor_review (lq_policy q) \<le> al_review_max l \<and> al_review_max l \<le> cap_review (lq_policy q)"
  proof (cases rule: derive_limits_cases)
    case static
    then show ?thesis by (simp add: static_limits_def cap_review_def)
  qed (simp_all add: limits_from_stats_review)
  then show "floor_review (lq_policy q) \<le> al_review_max l" "al_review_max l \<le> cap_review (lq_policy q)" by simp_all
qed

lemma capped_timeout_le:
  assumes "0 < story_ceiling" "fl story_ceiling = story_ceiling"
  shows "of_int (fst (cap_timeout_to_story_ceiling float_repr raw_timeout (Some story_ceiling) n dev_invocation_story_share
    min_dev_invocation_seconds)) \<le> story_ceiling"
proof -
  have "fst (cap_timeout_to_story_ceiling float_repr raw_timeout (Some story_ceiling) n dev_invocation_story_share min_dev_invocation_seconds)
      \<le> dev_share_seconds story_ceiling dev_invocation_story_share"
    using assms(1) by (simp add: cap_timeout_to_story_ceiling_def Let_def)
  with dev_share_bounds(2) [OF assms] show ?thesis by (meson of_int_le_iff order_trans)
qed

subsection \<open>What seating leaves on the state\<close>

lemma static_override_review: "al_review_max (static_override c l) = al_review_max l"
  by (simp add: static_override_def Let_def)

lemma seat_limits_fields:
  assumes "seat_limits float_repr parse_float c l r planning = Inr l1"
  shows "al_dev_max l1 = al_dev_max l" "al_review_max l1 = rc_reconciled r"
    "al_dev_timeout_seconds l1 = fst (cap_timeout_to_story_ceiling float_repr (al_dev_timeout_seconds l) (sc_worker_timeout c) (al_dev_max l)
       dev_invocation_story_share min_dev_invocation_seconds)"
  using assms by (auto simp: seat_limits_def py_bind_eq_Inr case_prod_beta)

lemma finish_seat_cases:
  assumes "finish_seat float_repr parse_float c r st = Inr (st', stop)"
  shows "stop \<and> rc_action r = ''review_unfundable'' \<and> ss_escalated st' \<and> ss_error_type st' = Some ''allocation_exhausted''
      \<and> ss_allocation_exhausted st' \<noteq> None \<and> ss_error st' \<noteq> None \<and> ss_review_max st' = ss_review_max st
      \<and> ss_dev_timeout_seconds st' = ss_dev_timeout_seconds st \<and> ss_reservation st' = ss_reservation st \<and> ss_dev_max st' = ss_dev_max st
    \<or> \<not> stop \<and> st' = st\<lparr>ss_max_iterations := ss_dev_max st\<rparr>"
  using assms by (auto simp: finish_seat_def py_bind_eq_Inr split: option.splits if_splits)

lemma reconciliation_range:
  assumes "reconcile_review_cycles parse_float parse_int g = Inr r" "1 \<le> sg_requested g"
  shows "1 \<le> rc_reconciled r \<and> rc_reconciled r \<le> sg_requested g
    \<and> (rc_reserved_cycles r = 0 \<or> rc_reserved_cycles r = rc_reconciled r \<and> rc_action r \<noteq> ''review_unfundable'')"
  using reconcile_cases [of parse_float parse_int g]
proof (elim disjE conjE exE)
  fix remaining cycle_cost r0
  assume c: "0 < cycle_cost" "0 < sg_requested g"
    and r0: "rc_requested r0 = sg_requested g" "rc_reconciled r0 = sg_requested g" "rc_reserved_cycles r0 = 0"
    and eq: "reconcile_review_cycles parse_float parse_int g = py_bind (affordable_cycles remaining cycle_cost)
      (\<lambda>affordable. Inr (fit_cycles (sg_requested g) remaining cycle_cost affordable
        (review_price_comparable_to_allocation parse_int (sg_planning g) (sg_allocation g)) r0))"
  from eq assms obtain n where n: "affordable_cycles remaining cycle_cost = Inr n"
    and r: "r = fit_cycles (sg_requested g) remaining cycle_cost n
        (review_price_comparable_to_allocation parse_int (sg_planning g) (sg_allocation g)) r0"
    by (cases "affordable_cycles remaining cycle_cost") auto
  from affordable_cycles_spec(1) [OF c(1) n] show ?thesis unfolding r using c r0 by (auto simp: fit_cycles_def Let_def)
qed (use assms in auto)

text \<open>C9. 
  Seating leaves a usable permission: at least one review cycle and at most the policy's cap, a reservation for all
  permitted cycles or for none, attempts handed to the retry budget, and a timeout inside the ceiling of the story. A
  story is stopped only as unfundable, with the error set and nothing reserved.
\<close>

theorem seating_outcome:
  assumes "seat_story float_repr parse_float parse_int rg c st = Inr (st', stop)" "unseated st"
  shows "1 \<le> ss_review_max st' \<and> ss_review_max st' \<le> cap_review (sc_retry c)
    \<and> (\<exists>d n. ss_reservation st' = Some d \<and> py_get d ''reserved_review_cycles'' = PInt n
          \<and> (n = 0 \<or> n = ss_review_max st' \<and> \<not> stop))
    \<and> (\<forall>ceiling_s. sc_worker_timeout c = Some ceiling_s \<longrightarrow> 0 < ceiling_s \<longrightarrow> fl ceiling_s = ceiling_s \<longrightarrow> of_int (ss_dev_timeout_seconds st') \<le> ceiling_s)
    \<and> (\<not> stop \<longrightarrow> ss_max_iterations st' = ss_dev_max st')
    \<and> (stop \<longrightarrow> ss_escalated st' \<and> ss_error st' \<noteq> None \<and> ss_error_type st' = Some ''allocation_exhausted'' \<and> ss_allocation_exhausted st' \<noteq> None)"
proof -
  let ?p = "seat_planning float_repr parse_float c"
  from assms obtain l0 r l1 where l0: "derive_limits float_repr parse_float parse_int rg (seat_request c) = Inr l0"
    and r: "reconcile_review_cycles parse_float parse_int (seat_seating c (static_override c l0) ?p) = Inr r"
    and l1: "seat_limits float_repr parse_float c (static_override c l0) r (planning_as_dict ?p) = Inr l1"
    and fin: "finish_seat float_repr parse_float c r (record_seat l1 (planning_as_dict ?p) r st) = Inr (st', stop)"
    by (auto simp: seat_story_def Let_def py_bind_eq_Inr)
  have rq: "sg_requested (seat_seating c (static_override c l0) ?p) = al_review_max l0"
    by (simp add: seat_seating_def static_override_review)
  have pol: "lq_policy (seat_request c) = sc_retry c" by (simp add: seat_request_def)
  have b: "floor_review (sc_retry c) \<le> al_review_max l0" "al_review_max l0 \<le> cap_review (sc_retry c)"
    using derive_limits_review [OF l0] unfolding pol by auto
  then have "1 \<le> al_review_max l0" by (simp add: floor_review_def)
  with reconciliation_range [OF r] b(2) have rr: "1 \<le> rc_reconciled r" "rc_reconciled r \<le> cap_review (sc_retry c)"
    "rc_reserved_cycles r = 0 \<or> rc_reserved_cycles r = rc_reconciled r \<and> rc_action r \<noteq> ''review_unfundable''"
    unfolding rq by auto
  have st1: "ss_review_max (record_seat l1 (planning_as_dict ?p) r st) = rc_reconciled r"
    "ss_reservation (record_seat l1 (planning_as_dict ?p) r st) = Some (seated_reservation r)"
    "ss_dev_timeout_seconds (record_seat l1 (planning_as_dict ?p) r st) = al_dev_timeout_seconds l1"
    by (simp_all add: record_seat_def seat_limits_fields [OF l1])
  have d: "py_get (seated_reservation r) ''reserved_review_cycles'' = PInt (rc_reserved_cycles r)" by (simp add: seated_reservation_def py_get_def)
  have t: "of_int (al_dev_timeout_seconds l1) \<le> ceiling_s"
    if "sc_worker_timeout c = Some ceiling_s" "0 < ceiling_s" "fl ceiling_s = ceiling_s" for ceiling_s
    unfolding seat_limits_fields(3) [OF l1] that(1) using capped_timeout_le [OF that(2,3)] .
  show ?thesis using finish_seat_cases [OF fin] rr t d by (auto simp: st1)
qed

lemma sample_seated:
  "\<exists>st' stop. seat_story (\<lambda>_. []) (\<lambda>_. None) (\<lambda>_. None) sample_registry sample_config sample_unseated = Inr (st', stop)"
proof -
  from sample_config_derived obtain l where
    l: "derive_limits (\<lambda>_. []) (\<lambda>_. None) (\<lambda>_. None) sample_registry (seat_request sample_config) = Inr l" by blast
  show ?thesis by (rule seat_total [OF l sample_installed])
qed

theorem seating_outcome_witness:
  "\<exists>st' stop. seat_story (\<lambda>_. []) (\<lambda>_. None) (\<lambda>_. None) sample_registry sample_config sample_unseated = Inr (st', stop)
     \<and> 1 \<le> ss_review_max st' \<and> ss_review_max st' \<le> 5"
proof -
  from sample_seated obtain st' stop where
    st: "seat_story (\<lambda>_. []) (\<lambda>_. None) (\<lambda>_. None) sample_registry sample_config sample_unseated = Inr (st', stop)" by blast
  have "unseated sample_unseated" by (simp add: unseated_def sample_unseated_def)
  from seating_outcome [OF st this] st show ?thesis
    by (auto simp: sample_config_def sample_request_def cap_review_def floor_review_def)
qed

end
