(* ===== verification/Reviewer_Value.thy ===== *)
theory Reviewer_Value
  imports Plan_Review Dev_Profiles
begin

text \<open>
  What a reviewer adds to a pool (\<^verbatim>\<open>reviewer_value.py\<close>, \<^verbatim>\<open>_fold_resolved_model\<close> of \<^verbatim>\<open>model_profiles_identity.py\<close>, the weighting of
  \<^verbatim>\<open>model_profiles_read_model.py\<close>): how many of its blocking findings no other reviewer raised, by union-find over shared
  anchors; the sums and rings kept of it in a profile entry; the signal read from them. The order in which a set of anchors is
  iterated and the power of floats are arguments. Profiles are dictionaries as in \<open>Dev_Profiles\<close>.
\<close>

section \<open>Model\<close>

subsection \<open>Union-find\<close>

text \<open>The list of parents; the two loops of \<^verbatim>\<open>find\<close>, which return only when the parents lead to a root.\<close>

partial_function (option) root_of :: "nat list \<Rightarrow> nat \<Rightarrow> nat option" where
  [code]: "root_of p x = (if p ! x = x then Some x else root_of p (p ! x))"

partial_function (option) compress :: "nat list \<Rightarrow> nat \<Rightarrow> nat \<Rightarrow> nat list option" where
  [code]: "compress p rt x = (if p ! x = rt then Some p else compress (p[x := rt]) rt (p ! x))"

definition uf_find :: "nat list \<Rightarrow> nat \<Rightarrow> (nat \<times> nat list) option" where
  "uf_find p x = Option.bind (root_of p x) (\<lambda>rt. map_option (\<lambda>q. (rt, q)) (compress p rt x))"

definition uf_union :: "nat list \<Rightarrow> nat \<Rightarrow> nat \<Rightarrow> nat list option" where
  "uf_union p a b =
     Option.bind (uf_find p a) (\<lambda>(ra, p1). Option.bind (uf_find p1 b) (\<lambda>(rb, p2).
       Some (if ra \<noteq> rb then p2[max ra rb := min ra rb] else p2)))"

fun find_each :: "nat list \<Rightarrow> nat list \<Rightarrow> (nat list \<times> nat list) option" where
  "find_each p [] = Some ([], p)"
| "find_each p (x # xs) =
     Option.bind (uf_find p x) (\<lambda>(r, p1). Option.bind (find_each p1 xs) (\<lambda>(rs, p2). Some (r # rs, p2)))"

subsection \<open>Uniqueness\<close>

text \<open>An unhashable severity raises in the test of membership, a text that is none in the pattern.\<close>

definition value_severity :: "pyval \<Rightarrow> bool py_result" where
  "value_severity v = (case v of PList _ \<Rightarrow> Inl (TypeError ''unhashable'') | PDict _ \<Rightarrow> Inl (TypeError ''unhashable'')
     | _ \<Rightarrow> Inr (v = PStr ''P0'' \<or> v = PStr ''P1''))"

definition non_file_values :: "string \<Rightarrow> string set" where
  "non_file_values s = an_value ` {a \<in> extract_anchors (strip_reviewer_prefix s). an_kind a \<noteq> FilePath}"

fun finding_items :: "string \<Rightarrow> (pyval \<times> pyval) list \<Rightarrow> (string \<times> string set) list py_result" where
  "finding_items name [] = Inr []"
| "finding_items name ((severity, descr) # fs) =
     py_bind (value_severity severity) (\<lambda>blocking.
       if \<not> blocking then finding_items name fs
       else (case descr of
               PStr s \<Rightarrow> py_bind (finding_items name fs) (\<lambda>items. Inr ((name, non_file_values s) # items))
             | _ \<Rightarrow> Inl (TypeError ''expected string'')))"

fun pool_items :: "(string \<times> (pyval \<times> pyval) list) list \<Rightarrow> (string \<times> string set) list py_result" where
  "pool_items [] = Inr []"
| "pool_items ((name, fs) # rest) =
     py_bind (finding_items name fs) (\<lambda>items. py_bind (pool_items rest) (\<lambda>more_items. Inr (items @ more_items)))"

text \<open>One anchor of item \<open>i\<close>: joined to the first item that has it, or noted as first.\<close>

type_synonym anchor_state = "nat list \<times> (string, nat) dict"

definition value_step :: "nat \<Rightarrow> string \<Rightarrow> anchor_state \<Rightarrow> anchor_state option" where
  "value_step i v st =
     (case dict_get (snd st) v of
        Some j \<Rightarrow> map_option (\<lambda>p. (p, snd st)) (uf_union (fst st) j i)
      | None \<Rightarrow> Some (fst st, dict_set v i (snd st)))"

fun value_steps :: "(nat \<times> string) list \<Rightarrow> anchor_state \<Rightarrow> anchor_state option" where
  "value_steps [] st = Some st"
| "value_steps ((i, v) # ivs) st = Option.bind (value_step i v st) (value_steps ivs)"

definition item_values :: "(string set \<Rightarrow> string list) \<Rightarrow> (string \<times> string set) list \<Rightarrow> (nat \<times> string) list" where
  "item_values enum items = concat (map (\<lambda>(i, it). map (Pair i) (enum (snd it))) (enumerate 0 items))"

text \<open>The reviewers of the items with this root.\<close>

definition root_reviewers :: "(string \<times> string set) list \<Rightarrow> nat list \<Rightarrow> nat \<Rightarrow> string list" where
  "root_reviewers items roots r = remdups (map fst (map snd (filter (\<lambda>(q, it). q = r) (zip roots items))))"

definition counts_of :: "(string \<times> string set) list \<Rightarrow> nat list \<Rightarrow> nat list \<Rightarrow> string \<Rightarrow> nat \<times> nat" where
  "counts_of items roots again name =
     (length (filter (\<lambda>(r, it). fst it = name \<and> length (root_reviewers items roots r) = 1) (zip again items)),
      length (filter (\<lambda>it. fst it = name) items))"

definition item_uniqueness :: "(string set \<Rightarrow> string list) \<Rightarrow> string list \<Rightarrow> (string \<times> string set) list \<Rightarrow> (string, nat \<times> nat) dict option" where
  "item_uniqueness enum names items =
     (let n = length items
      in Option.bind (value_steps (item_values enum items) ([0..<n], [])) (\<lambda>(p, _).
         Option.bind (find_each p [0..<n]) (\<lambda>(roots, p1).
         Option.bind (find_each p1 [0..<n]) (\<lambda>(again, _).
           Some (fold (\<lambda>name. dict_set name (counts_of items roots again name)) names [])))))"

definition compute_reviewer_uniqueness :: "(string set \<Rightarrow> string list) \<Rightarrow> (string \<times> (pyval \<times> pyval) list) list
    \<Rightarrow> (string, nat \<times> nat) dict option py_result" where
  "compute_reviewer_uniqueness enum named_findings =
     py_bind (pool_items named_findings) (\<lambda>items. Inr (item_uniqueness enum (map fst named_findings) items))"

definition plan_value_inputs :: "(string \<times> pyval plan_review) list \<Rightarrow> (string \<times> (pyval \<times> pyval) list) list" where
  "plan_value_inputs valid = map (\<lambda>(name, r). (name, map (\<lambda>f. (pl_severity f, pl_description f)) (pr_findings r))) valid"

definition compute_plan_reviewer_uniqueness :: "(string set \<Rightarrow> string list) \<Rightarrow> (string \<times> pyval plan_review) list
    \<Rightarrow> (string, nat \<times> nat) dict option py_result" where
  "compute_plan_reviewer_uniqueness enum valid = compute_reviewer_uniqueness enum (plan_value_inputs valid)"

definition code_review_anchor_text :: "parsed_finding \<Rightarrow> string" where
  "code_review_anchor_text f = py_join '' '' (filter (\<lambda>part. part \<noteq> []) [pf_observed f, pf_evidence f])"

section \<open>The parents are a partition\<close>

text \<open>Every parent is at most its child, so the way up ends.\<close>

definition uf_ok :: "nat list \<Rightarrow> bool" where
  "uf_ok p \<longleftrightarrow> (\<forall>x < length p. p ! x \<le> x)"

lemma uf_okD: "uf_ok p \<Longrightarrow> x < length p \<Longrightarrow> p ! x \<le> x"
  by (simp add: uf_ok_def)

lemma root_of_fixed: "p ! x = x \<Longrightarrow> root_of p x = Some x"
  by (subst root_of.simps) simp

lemma root_of_step: "p ! x \<noteq> x \<Longrightarrow> root_of p x = root_of p (p ! x)"
  by (subst root_of.simps) simp

text \<open>Induction along the parents.\<close>

lemma parent_induct [consumes 2, case_names fixed step]:
  assumes "uf_ok p" "x < length p"
    and fixed: "\<And>x. x < length p \<Longrightarrow> p ! x = x \<Longrightarrow> P x"
    and step: "\<And>x. x < length p \<Longrightarrow> p ! x < x \<Longrightarrow> P (p ! x) \<Longrightarrow> P x"
  shows "P x"
  using assms(2)
proof (induction x rule: less_induct)
  case (less x)
  from uf_okD [OF assms(1) less.prems] consider "p ! x = x" | "p ! x < x" by linarith
  then show ?case
  proof cases
    case 1
    show ?thesis by (rule fixed [OF less.prems 1])
  next
    case 2
    then have "p ! x < length p" using less.prems by linarith
    from step [OF less.prems 2 less.IH [OF 2 this]] show ?thesis .
  qed
qed

lemma root_of_total:
  assumes "uf_ok p" "x < length p"
  shows "\<exists>r. root_of p x = Some r \<and> r \<le> x \<and> p ! r = r"
  using assms
proof (induction rule: parent_induct)
  case (fixed x)
  then show ?case by (auto intro: root_of_fixed)
next
  case (step x)
  from step.IH obtain r where r: "root_of p (p ! x) = Some r" "r \<le> p ! x" "p ! r = r" by blast
  from step.hyps have "root_of p x = root_of p (p ! x)" by (intro root_of_step) simp
  with r step.hyps show ?case by auto
qed

lemma root_of_fixed_point:
  assumes "uf_ok p" "x < length p" "root_of p x = Some r"
  shows "p ! r = r" "r \<le> x" "r < length p"
proof -
  from root_of_total [OF assms(1,2)] assms(3) have "r \<le> x \<and> p ! r = r" by (metis option.inject)
  then show "p ! r = r" "r \<le> x" "r < length p" using assms(2) by linarith+
qed

lemma root_of_shortcut:
  assumes "uf_ok p" "y < length p" "x < length p" "root_of p x = Some r"
  shows "root_of (p[x := r]) y = root_of p y"
  using assms(1,2)
proof (induction rule: parent_induct)
  case (fixed y)
  have "p[x := r] ! y = y"
  proof (cases "y = x")
    case True
    with root_of_fixed [OF fixed(2)] assms(3,4) show ?thesis by simp
  qed (simp add: fixed)
  from root_of_fixed [OF this] root_of_fixed [OF fixed(2)] show ?case by simp
next
  case (step y)
  from root_of_total [OF assms(1,3)] assms(4) have r: "p ! r = r" by auto
  show ?case
  proof (cases "y = x")
    case False
    have "root_of p y = root_of p (p ! y)" using step(2) by (intro root_of_step) simp
    moreover have "root_of (p[x := r]) y = root_of (p[x := r]) (p[x := r] ! y)" using step(2) False by (intro root_of_step) simp
    ultimately show ?thesis using step.IH False by simp
  next
    case True
    with r step(2) have ne: "r \<noteq> x" by auto
    then have "root_of (p[x := r]) x = root_of (p[x := r]) (p[x := r] ! x)" using assms(3) by (intro root_of_step) simp
    moreover have "root_of (p[x := r]) r = Some r" using r ne by (intro root_of_fixed) simp
    ultimately show ?thesis using True assms(3,4) by simp
  qed
qed

lemma uf_ok_update: "uf_ok p \<Longrightarrow> r \<le> x \<Longrightarrow> uf_ok (p[x := r])"
proof -
  assume p: "uf_ok p" "r \<le> x"
  have "p[x := r] ! y \<le> y" if "y < length p" for y
    using uf_okD [OF p(1) that] p(2) that by (cases "y = x") simp_all
  then show ?thesis by (simp add: uf_ok_def)
qed

text \<open>What a state of the parents says: the same roots, and still in order.\<close>

definition same_roots :: "nat list \<Rightarrow> nat list \<Rightarrow> bool" where
  "same_roots p q \<longleftrightarrow> uf_ok q \<and> length q = length p \<and> (\<forall>y < length p. root_of q y = root_of p y)"

lemma same_roots_refl: "uf_ok p \<Longrightarrow> same_roots p p"
  by (simp add: same_roots_def)

lemma same_roots_trans: "same_roots p q \<Longrightarrow> same_roots q r \<Longrightarrow> same_roots p r"
  by (simp add: same_roots_def)

lemma compress_total:
  assumes "uf_ok p" "x < length p" "root_of p x = Some r"
  shows "\<exists>q. compress p r x = Some q \<and> same_roots p q"
  using assms
proof (induction x arbitrary: p rule: less_induct)
  case (less x)
  show ?case
  proof (cases "p ! x = r")
    case True
    then show ?thesis by (subst compress.simps) (simp add: same_roots_refl less.prems(1))
  next
    case False
    have "p ! x \<noteq> x" using False less.prems(3) by (auto simp: root_of_fixed)
    with uf_okD [OF less.prems(1,2)] have lt: "p ! x < x" by simp
    from root_of_total [OF less.prems(1,2)] less.prems(3) have "r \<le> x" by simp
    then have ok: "uf_ok (p[x := r])" by (rule uf_ok_update [OF less.prems(1)])
    have sr: "same_roots p (p[x := r])"
      using ok root_of_shortcut [OF less.prems(1) _ less.prems(2,3)] by (simp add: same_roots_def)
    have "root_of (p[x := r]) (p ! x) = Some r"
      using sr lt less.prems by (simp add: same_roots_def root_of_step [OF \<open>p ! x \<noteq> x\<close>, symmetric])
    from less.IH [OF lt ok _ this] lt less.prems(2) obtain q where
      q: "compress (p[x := r]) r (p ! x) = Some q" "same_roots (p[x := r]) q" by auto
    have "compress p r x = Some q" by (subst compress.simps) (simp add: False q(1))
    with q(2) sr show ?thesis by (blast intro: same_roots_trans)
  qed
qed

lemma uf_find_total:
  assumes "uf_ok p" "x < length p"
  shows "\<exists>r q. uf_find p x = Some (r, q) \<and> root_of p x = Some r \<and> same_roots p q"
proof -
  from root_of_total [OF assms] obtain r where r: "root_of p x = Some r" by blast
  from compress_total [OF assms r] r show ?thesis by (auto simp: uf_find_def)
qed

lemma root_of_join:
  assumes "uf_ok p" "y < length p" "a < length p" "p ! a = a" "p ! b = b" "b < a"
  shows "root_of (p[a := b]) y = map_option (\<lambda>r. if r = a then b else r) (root_of p y)"
  using assms(1,2)
proof (induction rule: parent_induct)
  case (fixed y)
  have b: "root_of (p[a := b]) b = Some b" using assms(5,6) by (intro root_of_fixed) simp
  show ?case
  proof (cases "y = a")
    case True
    have "root_of (p[a := b]) a = root_of (p[a := b]) (p[a := b] ! a)" using assms(3,6) by (intro root_of_step) simp
    with b assms(3) have "root_of (p[a := b]) a = Some b" by simp
    with True root_of_fixed [OF assms(4)] show ?thesis by simp
  next
    case False
    then have "root_of (p[a := b]) y = Some y" using fixed by (intro root_of_fixed) simp
    with False root_of_fixed [OF fixed(2)] show ?thesis by simp
  qed
next
  case (step y)
  then have ne: "y \<noteq> a" using assms(4) by auto
  have "root_of p y = root_of p (p ! y)" using step(2) by (intro root_of_step) simp
  moreover have "root_of (p[a := b]) y = root_of (p[a := b]) (p[a := b] ! y)" using step(2) ne by (intro root_of_step) simp
  ultimately show ?case using step.IH ne by simp
qed

text \<open>The roots below the length, as labels; a union merges two labels.\<close>

definition uf_labels :: "nat list \<Rightarrow> nat \<rightharpoonup> nat" where
  "uf_labels p = root_of p |` {..<length p}"

lemma uf_labels_same: "same_roots p q \<Longrightarrow> uf_labels q = uf_labels p"
  by (rule ext) (simp add: uf_labels_def same_roots_def restrict_map_def)

lemma uf_union_total:
  assumes "uf_ok p" "a < length p" "b < length p"
  shows "\<exists>q g h. uf_union p a b = Some q \<and> uf_ok q \<and> length q = length p \<and> uf_labels q = map_option (\<lambda>v. if v = h then g else v) \<circ> uf_labels p
    \<and> (uf_labels p a = Some g \<and> uf_labels p b = Some h \<or> uf_labels p a = Some h \<and> uf_labels p b = Some g)"
proof -
  from uf_find_total [OF assms(1,2)] obtain ra p1 where a: "uf_find p a = Some (ra, p1)" "root_of p a = Some ra" "same_roots p p1" by blast
  then have p1: "uf_ok p1" "b < length p1" using assms(3) by (simp_all add: same_roots_def)
  from uf_find_total [OF p1] obtain rb p2 where b: "uf_find p1 b = Some (rb, p2)" "root_of p1 b = Some rb" "same_roots p1 p2" by blast
  have sr: "same_roots p p2" using a(3) b(3) by (rule same_roots_trans)
  then have p2: "uf_ok p2" "length p2 = length p" by (simp_all add: same_roots_def)
  have rb: "root_of p b = Some rb" using a(3) b(2) assms(3) by (simp add: same_roots_def)
  have l: "uf_labels p a = Some ra" "uf_labels p b = Some rb" using a(2) rb assms(2,3) by (simp_all add: uf_labels_def)
  show ?thesis
  proof (cases "ra = rb")
    case True
    then have "uf_union p a b = Some p2" by (simp add: uf_union_def a(1) b(1))
    moreover have "map_option (\<lambda>v. if v = ra then ra else v) \<circ> uf_labels p = uf_labels p"
    proof (rule ext)
      fix z
      show "(map_option (\<lambda>v. if v = ra then ra else v) \<circ> uf_labels p) z = uf_labels p z"
        by (cases "uf_labels p z") simp_all
    qed
    ultimately show ?thesis using uf_labels_same [OF sr] p2 l True
      by (intro exI [of _ p2] exI [of _ ra]) (simp only: simp_thms)
  next
    case False
    let ?m = "max ra rb" and ?n = "min ra rb"
    have roots: "root_of p2 a = Some ra" "root_of p2 b = Some rb" using sr a(2) rb assms(2,3) by (simp_all add: same_roots_def)
    note fa = root_of_fixed_point [OF p2(1) _ roots(1)] and fb = root_of_fixed_point [OF p2(1) _ roots(2)]
    have fp: "p2 ! ra = ra" "p2 ! rb = rb" "ra < length p2" "rb < length p2"
      using fa fb p2(2) assms(2,3) by metis+
    then have m: "?m < length p2" "p2 ! ?m = ?m" "p2 ! ?n = ?n" "?n < ?m" using False by (auto simp: max_def min_def)
    have u: "uf_union p a b = Some (p2[?m := ?n])" using False by (simp add: uf_union_def a(1) b(1))
    have "uf_ok (p2[?m := ?n])" by (rule uf_ok_update [OF p2(1)]) simp
    moreover have "uf_labels (p2[?m := ?n]) = map_option (\<lambda>v. if v = ?m then ?n else v) \<circ> uf_labels p2"
      using root_of_join [OF p2(1) _ m] by (intro ext) (simp add: uf_labels_def restrict_map_def)
    moreover have "uf_labels p a = Some ?n \<and> uf_labels p b = Some ?m \<or> uf_labels p a = Some ?m \<and> uf_labels p b = Some ?n"
      using l by (auto simp: max_def min_def)
    ultimately show ?thesis using u p2(2) uf_labels_same [OF sr] by (intro exI [of _ "p2[?m := ?n]"] exI [of _ ?n] exI [of _ ?m]) simp
  qed
qed

lemma uf_union_lab:
  assumes "uf_ok p" "a < length p" "b < length p" "lab_inv {..<length p} R (uf_labels p)"
  shows "\<exists>q. uf_union p a b = Some q \<and> uf_ok q \<and> length q = length p \<and> lab_inv {..<length p} (R \<union> {(a, b), (b, a)}) (uf_labels q)"
proof -
  from uf_union_total [OF assms(1-3)] obtain q g h where q: "uf_union p a b = Some q" "uf_ok q" "length q = length p"
    "uf_labels q = map_option (\<lambda>v. if v = h then g else v) \<circ> uf_labels p"
    "uf_labels p a = Some g \<and> uf_labels p b = Some h \<or> uf_labels p a = Some h \<and> uf_labels p b = Some g" by blast
  have "R \<union> {(b, a), (a, b)} = R \<union> {(a, b), (b, a)}" by blast
  with q(5) lab_merge [OF assms(4), of a g b h] lab_merge [OF assms(4), of b g a h]
  have "lab_inv {..<length p} (R \<union> {(a, b), (b, a)}) (uf_labels q)" unfolding q(4) by auto
  with q show ?thesis by blast
qed

section \<open>The groups are the connected items\<close>

text \<open>The items joined by the pairs of item and value seen so far, and what holds of the state then.\<close>

definition value_links :: "(nat \<times> string) set \<Rightarrow> (nat \<times> nat) set" where
  "value_links P = {(x, y). \<exists>v. (x, v) \<in> P \<and> (y, v) \<in> P}"

definition value_inv :: "nat \<Rightarrow> (nat \<times> string) set \<Rightarrow> anchor_state \<Rightarrow> bool" where
  "value_inv n P st \<longleftrightarrow> fst ` P \<subseteq> {..<n} \<and> uf_ok (fst st) \<and> length (fst st) = n \<and> lab_inv {..<n} (value_links P) (uf_labels (fst st))
     \<and> (\<forall>v j. dict_get (snd st) v = Some j \<longrightarrow> (j, v) \<in> P) \<and> (\<forall>v x. dict_get (snd st) v = None \<longrightarrow> (x, v) \<notin> P)"

lemma value_links_subset: "fst ` P \<subseteq> V \<Longrightarrow> value_links P \<subseteq> V \<times> V"
  by (force simp: value_links_def)

lemma value_links_sym: "sym (value_links P)"
  by (auto simp: value_links_def sym_def)

lemma lab_inv_closure: "lab_inv V R l \<Longrightarrow> R'\<^sup>* = R\<^sup>* \<Longrightarrow> sym R' \<Longrightarrow> R' \<subseteq> V \<times> V \<Longrightarrow> lab_inv V R' l"
  unfolding lab_inv_def by simp

lemma rtrancl_between: "R \<subseteq> R' \<Longrightarrow> R' \<subseteq> R\<^sup>* \<Longrightarrow> R'\<^sup>* = R\<^sup>*"
  by (metis rtrancl_subset)

lemma value_links_known:
  assumes "(j, v) \<in> P"
  shows "(value_links (insert (i, v) P))\<^sup>* = (value_links P \<union> {(j, i), (i, j)})\<^sup>*"
proof (rule rtrancl_between)
  let ?R = "value_links P \<union> {(j, i), (i, j)}"
  show "?R \<subseteq> value_links (insert (i, v) P)" using assms by (auto simp: value_links_def)
  have ij: "(i, j) \<in> ?R" "(j, i) \<in> ?R" by simp_all
  have known: "(x, i) \<in> ?R\<^sup>*" "(i, x) \<in> ?R\<^sup>*" if "(x, v) \<in> P" for x
  proof -
    from that assms have "(x, j) \<in> ?R" "(j, x) \<in> ?R" by (auto simp: value_links_def)
    with ij show "(x, i) \<in> ?R\<^sup>*" "(i, x) \<in> ?R\<^sup>*" by (meson converse_rtrancl_into_rtrancl r_into_rtrancl)+
  qed
  show "value_links (insert (i, v) P) \<subseteq> ?R\<^sup>*"
  proof (clarify)
    fix x y
    assume "(x, y) \<in> value_links (insert (i, v) P)"
    then consider "(x, y) \<in> value_links P" | "x = i" "y = i" | "x = i" "(y, v) \<in> P" | "y = i" "(x, v) \<in> P"
      by (auto simp: value_links_def)
    then show "(x, y) \<in> ?R\<^sup>*" by cases (use known in auto)
  qed
qed

lemma value_links_new:
  assumes "\<forall>x. (x, v) \<notin> P"
  shows "(value_links (insert (i, v) P))\<^sup>* = (value_links P)\<^sup>*"
proof (rule rtrancl_between)
  show "value_links P \<subseteq> value_links (insert (i, v) P)" by (auto simp: value_links_def)
  show "value_links (insert (i, v) P) \<subseteq> (value_links P)\<^sup>*" using assms by (auto simp: value_links_def)
qed

lemma value_step_inv:
  assumes "value_inv n P st" "i < n"
  shows "\<exists>st'. value_step i v st = Some st' \<and> value_inv n (insert (i, v) P) st'"
proof (cases "dict_get (snd st) v")
  case None
  with assms(1) have new: "\<forall>x. (x, v) \<notin> P" by (simp add: value_inv_def)
  from assms have V: "fst ` insert (i, v) P \<subseteq> {..<n}" by (auto simp: value_inv_def)
  have "lab_inv {..<n} (value_links (insert (i, v) P)) (uf_labels (fst st))"
    using assms(1) by (intro lab_inv_closure [OF _ value_links_new [OF new] value_links_sym value_links_subset [OF V]]) (simp add: value_inv_def)
  with assms(1) None V have "value_inv n (insert (i, v) P) (fst st, dict_set v i (snd st))"
    by (simp add: value_inv_def dict_get_set_fun)
  with None show ?thesis by (simp add: value_step_def)
next
  case (Some j)
  with assms(1) have old: "(j, v) \<in> P" by (simp add: value_inv_def)
  with assms have V: "fst ` insert (i, v) P \<subseteq> {..<n}" and j: "j < n" by (auto simp: value_inv_def)
  have l: "uf_ok (fst st)" "length (fst st) = n" "lab_inv {..<length (fst st)} (value_links P) (uf_labels (fst st))"
    using assms(1) by (simp_all add: value_inv_def)
  from uf_union_lab [OF l(1) _ _ l(3), of j i] l(2) j assms(2) obtain q where
    q: "uf_union (fst st) j i = Some q" "uf_ok q" "length q = n" "lab_inv {..<n} (value_links P \<union> {(j, i), (i, j)}) (uf_labels q)" by auto
  have "lab_inv {..<n} (value_links (insert (i, v) P)) (uf_labels q)"
    by (rule lab_inv_closure [OF q(4) value_links_known [OF old] value_links_sym value_links_subset [OF V]])
  with assms(1) q V have "value_inv n (insert (i, v) P) (q, snd st)" using Some by (auto simp: value_inv_def)
  with Some q(1) show ?thesis by (simp add: value_step_def)
qed

lemma value_steps_inv:
  assumes "value_inv n P st" "fst ` set ivs \<subseteq> {..<n}"
  shows "\<exists>st'. value_steps ivs st = Some st' \<and> value_inv n (P \<union> set ivs) st'"
  using assms
proof (induction ivs arbitrary: P st)
  case (Cons iv ivs)
  obtain i v where iv: "iv = (i, v)" by (cases iv)
  with value_step_inv [OF Cons.prems(1), of i v] Cons.prems(2) obtain st' where
    st': "value_step i v st = Some st'" "value_inv n (insert (i, v) P) st'" by auto
  from Cons.IH [OF st'(2)] Cons.prems(2) st'(1) iv show ?case by simp
qed simp

lemma uf_labels_start: "lab_inv {..<n} {} (uf_labels [0..<n])"
proof -
  have "uf_labels [0..<n] x = (if x < n then Some x else None)" for x
    by (cases "x < n") (simp_all add: uf_labels_def root_of_fixed)
  then show ?thesis by (auto simp: lab_inv_def sym_def dom_def split: if_splits)
qed

lemma value_inv_start: "value_inv n {} ([0..<n], [])"
  using uf_labels_start [of n] by (simp add: value_inv_def value_links_def uf_ok_def)

lemma find_each_total:
  assumes "uf_ok p" "set xs \<subseteq> {..<length p}"
  shows "\<exists>q. find_each p xs = Some (map (the \<circ> root_of p) xs, q) \<and> same_roots p q"
  using assms
proof (induction xs arbitrary: p)
  case Nil
  then show ?case by (simp add: same_roots_refl)
next
  case (Cons x xs)
  then have "x < length p" by simp
  from uf_find_total [OF Cons.prems(1) this] obtain r q where q: "uf_find p x = Some (r, q)" "root_of p x = Some r" "same_roots p q" by blast
  with Cons.prems have "uf_ok q" "set xs \<subseteq> {..<length q}" by (simp_all add: same_roots_def)
  from Cons.IH [OF this] obtain q' where q': "find_each q xs = Some (map (the \<circ> root_of q) xs, q')" "same_roots q q'" by blast
  have "map (the \<circ> root_of q) xs = map (the \<circ> root_of p) xs" using q(3) Cons.prems(2) by (auto simp: same_roots_def)
  with q q' same_roots_trans [OF q(3) q'(2)] show ?case by simp
qed

subsection \<open>What is counted\<close>

text \<open>Two items are linked when they share a value; an item is unique when all it is connected to is of its own reviewer.\<close>

definition same_issue :: "(string \<times> string set) list \<Rightarrow> (nat \<times> nat) set" where
  "same_issue items = {(x, y). x < length items \<and> y < length items \<and> snd (items ! x) \<inter> snd (items ! y) \<noteq> {}}"

definition alone :: "(string \<times> string set) list \<Rightarrow> nat \<Rightarrow> bool" where
  "alone items i \<longleftrightarrow> (\<forall>j < length items. (i, j) \<in> (same_issue items)\<^sup>* \<longrightarrow> fst (items ! j) = fst (items ! i))"

lemma zip_map_index: "zip (map f [0..<length xs]) xs = map (\<lambda>i. (f i, xs ! i)) [0..<length xs]"
  by (rule nth_equalityI) simp_all

lemma zip_indices: "zip [0..<length xs] xs = map (\<lambda>i. (i, xs ! i)) [0..<length xs]"
  using zip_map_index [of id xs] by simp

lemma length_filter_upt: "length (filter P [0..<n]) = card {i. i < n \<and> P i}"
proof -
  have "{i. i < n \<and> P ([0..<n] ! i)} = {i. i < n \<and> P i}" by auto
  then show ?thesis by (simp add: length_filter_conv_card)
qed

lemma item_values_set:
  assumes "\<forall>it \<in> set items. set (enum (snd it)) = snd it"
  shows "set (item_values enum items) = {(i, v). i < length items \<and> v \<in> snd (items ! i)}"
proof -
  have e: "set (enum (snd (items ! i))) = snd (items ! i)" if "i < length items" for i using assms that by simp
  have "(\<Union>x \<in> set (enumerate 0 items). Pair (fst x) ` set (enum (snd (snd x)))) = {(i, v). i < length items \<and> v \<in> snd (items ! i)}"
    unfolding enumerate_eq_zip add_0 zip_indices by (auto simp: e)
  then show ?thesis by (simp add: item_values_def case_prod_beta)
qed

lemma value_links_items: "value_links {(i, v). i < length items \<and> v \<in> snd (items ! i)} = same_issue items"
  by (auto simp: value_links_def same_issue_def)

lemma remdups_one: "x \<in> set xs \<Longrightarrow> length (remdups xs) = 1 \<longleftrightarrow> (\<forall>y \<in> set xs. y = x)"
  by (auto simp: length_remdups_card_conv card_1_singleton_iff)

lemma root_reviewers_one:
  assumes "i < length items" "\<And>x y. x < length items \<Longrightarrow> y < length items \<Longrightarrow> f x = f y \<longleftrightarrow> (x, y) \<in> (same_issue items)\<^sup>*"
  shows "length (root_reviewers items (map f [0..<length items]) (f i)) = 1 \<longleftrightarrow> alone items i"
proof -
  let ?xs = "map fst (map snd (filter (\<lambda>(q, it). q = f i) (zip (map f [0..<length items]) items)))"
  have s: "set ?xs = {fst (items ! j) | j. j < length items \<and> f j = f i}" unfolding zip_map_index by (force simp: image_iff)
  then have "fst (items ! i) \<in> set ?xs" using assms(1) by auto
  from remdups_one [OF this] have "length (root_reviewers items (map f [0..<length items]) (f i)) = 1
    \<longleftrightarrow> (\<forall>j < length items. f j = f i \<longrightarrow> fst (items ! j) = fst (items ! i))"
    unfolding root_reviewers_def s by blast
  moreover have "f j = f i \<longleftrightarrow> (i, j) \<in> (same_issue items)\<^sup>*" if "j < length items" for j
    using assms(2) [OF assms(1) that] by (simp add: eq_commute)
  ultimately show ?thesis by (auto simp: alone_def)
qed

lemma counts_of_exact:
  assumes "\<And>x y. x < length items \<Longrightarrow> y < length items \<Longrightarrow> f x = f y \<longleftrightarrow> (x, y) \<in> (same_issue items)\<^sup>*"
  shows "counts_of items (map f [0..<length items]) (map f [0..<length items]) name =
    (card {i. i < length items \<and> fst (items ! i) = name \<and> alone items i}, card {i. i < length items \<and> fst (items ! i) = name})"
proof -
  have "{i. i < length items \<and> fst (items ! i) = name \<and> length (root_reviewers items (map f [0..<length items]) (f i)) = 1}
    = {i. i < length items \<and> fst (items ! i) = name \<and> alone items i}"
    using root_reviewers_one [OF _ assms] by blast
  then show ?thesis
    by (simp add: counts_of_def zip_map_index length_filter_upt comp_def length_filter_conv_card [of "\<lambda>it. fst it = name"])
qed

lemma dict_get_fold_set: "dict_get (fold (\<lambda>k. dict_set k (g k)) ks d) x = (if x \<in> set ks then Some (g x) else dict_get d x)"
  by (induction ks arbitrary: d) auto

lemma item_uniqueness_exact:
  assumes "\<forall>it \<in> set items. set (enum (snd it)) = snd it"
  shows "\<exists>d. item_uniqueness enum names items = Some d \<and> (\<forall>name. dict_get d name = (if name \<in> set names
    then Some (card {i. i < length items \<and> fst (items ! i) = name \<and> alone items i}, card {i. i < length items \<and> fst (items ! i) = name}) else None))"
proof -
  let ?n = "length items"
  have "fst ` set (item_values enum items) \<subseteq> {..<?n}" by (auto simp: item_values_set [OF assms])
  from value_steps_inv [OF value_inv_start this] obtain p d where
    st: "value_steps (item_values enum items) ([0..<?n], []) = Some (p, d)" "value_inv ?n (set (item_values enum items)) (p, d)" by auto
  then have p: "uf_ok p" "length p = ?n" and lab: "lab_inv {..<?n} (same_issue items) (uf_labels p)"
    by (simp_all add: value_inv_def item_values_set [OF assms] value_links_items)
  have f: "(the \<circ> root_of p) x = (the \<circ> root_of p) y \<longleftrightarrow> (x, y) \<in> (same_issue items)\<^sup>*" if "x < ?n" "y < ?n" for x y
  proof -
    from lab_invD(4) [OF lab] that have "uf_labels p x = uf_labels p y \<longleftrightarrow> (x, y) \<in> (same_issue items)\<^sup>*" by simp
    with root_of_total [OF p(1), of x] root_of_total [OF p(1), of y] that p(2) show ?thesis by (auto simp: uf_labels_def)
  qed
  from find_each_total [OF p(1), of "[0..<?n]"] p(2) atLeast0LessThan [of ?n] obtain q where
    q: "find_each p [0..<?n] = Some (map (the \<circ> root_of p) [0..<?n], q)" "same_roots p q" by auto
  then have q': "uf_ok q" "length q = ?n" using p(2) by (simp_all add: same_roots_def)
  from find_each_total [OF q'(1), of "[0..<?n]"] q'(2) atLeast0LessThan [of ?n] obtain r where
    r: "find_each q [0..<?n] = Some (map (the \<circ> root_of q) [0..<?n], r)" by auto
  have "map (the \<circ> root_of q) [0..<?n] = map (the \<circ> root_of p) [0..<?n]" using q(2) p(2) by (simp add: same_roots_def)
  with st(1) q(1) r show ?thesis
    by (simp add: item_uniqueness_def Let_def dict_get_fold_set counts_of_exact [OF f])
qed

lemma finding_items_text:
  assumes "\<And>f. f \<in> set fs \<Longrightarrow> \<exists>sv s. f = (PStr sv, PStr s)"
  shows "finding_items name fs = Inr (map (\<lambda>f. (name, non_file_values (case snd f of PStr s \<Rightarrow> s | _ \<Rightarrow> [])))
    (filter (\<lambda>f. fst f = PStr ''P0'' \<or> fst f = PStr ''P1'') fs))"
  using assms
proof (induction fs)
  case (Cons f fs)
  from Cons.prems [of f] obtain sv s where "f = (PStr sv, PStr s)" by auto
  with Cons.IH Cons.prems show ?case by (simp add: value_severity_def)
qed simp

section \<open>Property\<close>

text \<open>C16. 
  The uniqueness of a reviewer. Whenever the findings of the pool can be read, the computation ends and gives, for every reviewer
  of the pool and no other name, how many P0 and P1 findings it raised and how many of them are unique: the findings connected to
  it by shared anchors other than file paths, however long the chain, are all its own. Neither the order of the findings nor the
  order in which the anchors of a finding are visited matters.
\<close>

theorem uniqueness_exact:
  assumes "pool_items named = Inr items" and "\<forall>it \<in> set items. set (enum (snd it)) = snd it"
  shows "\<exists>d. compute_reviewer_uniqueness enum named = Inr (Some d) \<and> (\<forall>name. dict_get d name = (if name \<in> fst ` set named
    then Some (card {i. i < length items \<and> fst (items ! i) = name \<and> alone items i}, card {i. i < length items \<and> fst (items ! i) = name})
    else None))"
  using item_uniqueness_exact [OF assms(2), of "map fst named"] by (simp add: compute_reviewer_uniqueness_def assms(1))

definition sample_pool :: "(string \<times> (pyval \<times> pyval) list) list" where
  "sample_pool = [(''a'', [(PStr ''P1'', PStr ''a_b'')]), (''b'', [(PStr ''P1'', PStr ''a_b''), (PStr ''P0'', PStr ''x'')])]"

lemma sample_pool_items: "pool_items sample_pool = Inr [(''a'', {''a_b''}), (''b'', {''a_b''}), (''b'', {})]"
proof -
  have "extract_anchors (strip_reviewer_prefix ''a_b'') = {\<lparr>an_value = ''a_b'', an_kind = SnakeIdent\<rparr>}"
    "extract_anchors (strip_reviewer_prefix ''x'') = {}" by code_simp+
  then have "non_file_values ''a_b'' = {''a_b''}" "non_file_values ''x'' = {}" by (auto simp: non_file_values_def)
  then show ?thesis by (simp add: sample_pool_def value_severity_def)
qed

theorem uniqueness_exact_witness:
  "\<exists>d. compute_reviewer_uniqueness (\<lambda>S. filter (\<lambda>v. v \<in> S) [''a_b'']) sample_pool = Inr (Some d)
    \<and> dict_get d ''a'' = Some (0, 1) \<and> dict_get d ''c'' = None"
proof -
  let ?items = "[(''a'', {''a_b''}), (''b'', {''a_b''}), (''b'', {})] :: (string \<times> string set) list"
  have "(0, 1) \<in> same_issue ?items" by (simp add: same_issue_def)
  then have "\<not> alone ?items 0" by (auto simp: alone_def intro!: exI [of _ 1])
  then have "{i. i < length ?items \<and> fst (?items ! i) = ''a'' \<and> alone ?items i} = {}"
    and "{i. i < length ?items \<and> fst (?items ! i) = ''a''} = {0}" by (auto simp: less_Suc_eq nth_Cons')
  moreover have "\<forall>it \<in> set ?items. set (filter (\<lambda>v. v \<in> snd it) [''a_b'']) = snd it" by auto
  ultimately show ?thesis using uniqueness_exact [OF sample_pool_items, of "\<lambda>S. filter (\<lambda>v. v \<in> S) [''a_b'']"]
    by (auto simp: sample_pool_def)
qed

text \<open>
  A P1 finding whose description is not a text stops the computation with an exception, and so does a severity that is a list:
  the parser of plan reviews lets both through.
\<close>

theorem uniqueness_may_raise:
  "compute_plan_reviewer_uniqueness enum [(''a'', r\<lparr>pr_findings := [\<lparr>pl_severity = PStr ''P1'', pl_description = PInt 1, pl_suggestion = PNone\<rparr>]\<rparr>)]
     = Inl (TypeError ''expected string'')"
  "compute_plan_reviewer_uniqueness enum [(''a'', r\<lparr>pr_findings := [\<lparr>pl_severity = PList [], pl_description = PStr [], pl_suggestion = PNone\<rparr>]\<rparr>)]
     = Inl (TypeError ''unhashable'')"
  by (simp_all add: compute_plan_reviewer_uniqueness_def plan_value_inputs_def compute_reviewer_uniqueness_def value_severity_def)

end
