(* ===== verification/Reviewer_Signals.thy ===== *)
theory Reviewer_Signals
  imports Dev_Profiles Story_State
begin

text \<open>
  The value of a reviewer kept in a model profile and read back for routing (\<^verbatim>\<open>reviewer_value.py\<close>, \<^verbatim>\<open>_fold_resolved_model\<close> of
  \<^verbatim>\<open>model_profiles_identity.py\<close>, the weighting and the population of \<^verbatim>\<open>model_profiles_read_model.py\<close>): sums, rings of the latest
  samples and counters, in a section for each phase and a bucket for each complexity band in it. Profiles are dictionaries as in
  \<open>Dev_Profiles\<close>; an exception is the result, what was stored before it is not. The power of floats is an argument.
\<close>

section \<open>Model\<close>

subsection \<open>Samples\<close>

record value_sample =
  vs_name :: string
  vs_complexity :: string
  vs_unique_p1 :: int
  vs_total_p1 :: int
  vs_latency_s :: "rat option"
  vs_actual_model :: "string option"
  vs_provider :: "string option"
  vs_cli :: "string option"
  vs_resolved_model :: "string option"

definition uniqueness_rate :: "value_sample \<Rightarrow> rat option" where
  "uniqueness_rate s = (if vs_total_p1 s \<le> 0 then None else Some (fl (of_int (vs_unique_p1 s) / of_int (vs_total_p1 s))))"

definition latency_per_p1 :: "value_sample \<Rightarrow> rat option" where
  "latency_per_p1 s =
     (case vs_latency_s s of
        None \<Rightarrow> None
      | Some l \<Rightarrow> if vs_total_p1 s \<le> 0 then None else Some (float_div l (fl (of_int (vs_total_p1 s)))))"

definition section_for_phase :: "string \<Rightarrow> string py_result" where
  "section_for_phase phase =
     (if phase = ''plan_review'' then Inr ''plan_review_value'' else if phase = ''code_review'' then Inr ''code_review_value''
      else Inl (ValueError phase))"

subsection \<open>Folding a sample in\<close>

definition value_recency_window :: nat where "value_recency_window = 200"

definition newest :: "nat \<Rightarrow> 'a list \<Rightarrow> 'a list" where
  "newest n xs = drop (length xs - n) xs"

definition dict_default :: "string \<Rightarrow> pyval \<Rightarrow> pydict \<Rightarrow> pydict" where
  "dict_default k v d = (case dict_get d k of None \<Rightarrow> dict_set k v d | Some _ \<Rightarrow> d)"

text \<open>A method of dictionaries called on any value.\<close>

definition as_dict :: "string \<Rightarrow> pyval \<Rightarrow> pydict py_result" where
  "as_dict method v = (case v of PDict d \<Rightarrow> Inr d | _ \<Rightarrow> Inl (AttributeError method))"

definition empty_value_bucket :: pydict where
  "empty_value_bucket =
     [(''runs'', PInt 0), (''tainted_runs'', PInt 0), (''_uniqueness_sum'', PFloat 0), (''_latency_per_p1_sum'', PFloat 0),
      (''avg_uniqueness_rate'', PFloat 0), (''avg_latency_per_p1'', PFloat 0), (''_uniqueness_recent'', PList []),
      (''_latency_per_p1_recent'', PList [])]"

definition ring_of :: "pydict \<Rightarrow> string \<Rightarrow> pyval list" where
  "ring_of b k = (case dict_get b k of Some (PList xs) \<Rightarrow> xs | _ \<Rightarrow> [])"

definition push_ring :: "string \<Rightarrow> rat \<Rightarrow> pydict \<Rightarrow> pydict" where
  "push_ring k x b = dict_set k (PList (newest value_recency_window (ring_of b k @ [PFloat x]))) b"

definition average :: "rat \<Rightarrow> int \<Rightarrow> rat py_result" where
  "average t n = (if n = 0 then Inl ZeroDivisionError else Inr (py_round 4 (float_div t (fl (of_int n)))))"

text \<open>The two halves of \<^verbatim>\<open>_fold_bucket\<close>.\<close>

definition fold_uniqueness :: "(string \<Rightarrow> rat option) \<Rightarrow> (string \<Rightarrow> int option) \<Rightarrow> rat \<Rightarrow> pydict \<Rightarrow> pydict py_result" where
  "fold_uniqueness parse_float parse_int uniq b =
     py_bind (py_int parse_int (get_or b ''runs'' (PInt 0))) (\<lambda>r.
       let b1 = dict_set ''runs'' (PInt (r + 1)) b
       in py_bind (py_float parse_float (get_or b1 ''_uniqueness_sum'' (PFloat 0))) (\<lambda>s.
            let u_sum = float_add s uniq
            in py_bind (average u_sum (r + 1)) (\<lambda>avg.
                 Inr (push_ring ''_uniqueness_recent'' (py_round 4 uniq)
                   (dict_set ''avg_uniqueness_rate'' (PFloat avg) (dict_set ''_uniqueness_sum'' (PFloat u_sum) b1))))))"

definition fold_latency :: "(string \<Rightarrow> rat option) \<Rightarrow> rat option \<Rightarrow> pydict \<Rightarrow> pydict py_result" where
  "fold_latency parse_float lpp b =
     (case lpp of
        None \<Rightarrow> Inr b
      | Some l \<Rightarrow>
          py_bind (py_float parse_float (get_or b ''_latency_per_p1_sum'' (PFloat 0))) (\<lambda>s.
            let l_sum = float_add s l;
                b1 = push_ring ''_latency_per_p1_recent'' (py_round 4 l) (dict_set ''_latency_per_p1_sum'' (PFloat l_sum) b);
                measured = length (ring_of b1 ''_latency_per_p1_recent'')
            in Inr (if measured > 0 then dict_set ''avg_latency_per_p1'' (PFloat (py_round 4 (float_div l_sum (of_nat measured)))) b1 else b1)))"

definition fold_bucket :: "(string \<Rightarrow> rat option) \<Rightarrow> (string \<Rightarrow> int option) \<Rightarrow> rat \<Rightarrow> rat option \<Rightarrow> pydict \<Rightarrow> pydict py_result" where
  "fold_bucket parse_float parse_int uniq lpp b = py_bind (fold_uniqueness parse_float parse_int uniq b) (fold_latency parse_float lpp)"

text \<open>\<^verbatim>\<open>d[k] = int(d.get(k, 0)) + n\<close>.\<close>

definition count_up :: "(string \<Rightarrow> int option) \<Rightarrow> string \<Rightarrow> int \<Rightarrow> pydict \<Rightarrow> pydict py_result" where
  "count_up parse_int k n d = py_bind (py_int parse_int (get_or d k (PInt 0))) (\<lambda>r. Inr (dict_set k (PInt (r + n)) d))"

definition fold_resolved_model :: "(string \<Rightarrow> rat option) \<Rightarrow> (string \<Rightarrow> int option) \<Rightarrow> string option \<Rightarrow> bool option \<Rightarrow> bool \<Rightarrow> string \<Rightarrow> int
    \<Rightarrow> pydict \<Rightarrow> pydict py_result" where
  "fold_resolved_model parse_float parse_int resolved success tainted key n b =
     (case resolved of
        Some (c # cs) \<Rightarrow>
          if n \<le> 0 then Inr b
          else py_bind (as_dict ''setdefault'' (get_or b key (PDict []))) (\<lambda>breakdown.
                 py_bind (as_dict ''get'' (get_or breakdown (c # cs) (PDict []))) (\<lambda>served.
                 py_bind (if tainted then count_up parse_int ''tainted_runs'' n served
                          else py_bind (count_up parse_int ''runs'' n served) (\<lambda>d.
                                 case success of
                                   None \<Rightarrow> Inr d
                                 | Some ok \<Rightarrow>
                                     py_bind (py_float parse_float (get_or d ''_successes'' (PFloat 0))) (\<lambda>x.
                                       Inr (dict_set ''_successes'' (PFloat (float_add x (if ok then fl (of_int n) else 0))) d)))) (\<lambda>served'.
                   Inr (dict_set key (PDict (dict_set (c # cs) (PDict served') breakdown)) b))))
      | _ \<Rightarrow> Inr b)"

text \<open>What one bucket learns of a sample; a tainted one is only counted.\<close>

definition teach :: "(string \<Rightarrow> rat option) \<Rightarrow> (string \<Rightarrow> int option) \<Rightarrow> value_sample \<Rightarrow> rat \<Rightarrow> bool \<Rightarrow> pydict \<Rightarrow> pydict py_result" where
  "teach parse_float parse_int s uniq tainted b =
     (if tainted then count_up parse_int ''tainted_runs'' 1 b
      else py_bind (fold_bucket parse_float parse_int uniq (latency_per_p1 s) b)
             (fold_resolved_model parse_float parse_int (vs_resolved_model s) None False ''by_resolved_model'' 1))"

definition fold_reviewer_value :: "(string \<Rightarrow> rat option) \<Rightarrow> (string \<Rightarrow> int option) \<Rightarrow> string \<Rightarrow> value_sample \<times> bool \<Rightarrow> pydict \<Rightarrow> pydict py_result" where
  "fold_reviewer_value parse_float parse_int phase st entry =
     (case st of (s, tainted) \<Rightarrow>
      (case uniqueness_rate s of
         None \<Rightarrow> Inr entry
       | Some uniq \<Rightarrow>
           py_bind (section_for_phase phase) (\<lambda>key.
           py_bind (as_dict ''setdefault'' (get_or entry key (PDict []))) (\<lambda>s0.
             let band = normalize_band (Some (vs_complexity s));
                 s1 = dict_default ''tainted_runs'' (PInt 0) (dict_default ''runs'' (PInt 0) s0)
             in py_bind (as_dict ''setdefault'' (get_or s1 ''by_complexity'' (PDict []))) (\<lambda>bands.
                py_bind (teach parse_float parse_int s uniq tainted (dict_default ''by_complexity'' (PDict []) s1)) (\<lambda>s2.
                py_bind (as_dict ''get'' (get_or bands band (PDict empty_value_bucket))) (\<lambda>bucket.
                py_bind (teach parse_float parse_int s uniq tainted bucket) (\<lambda>bucket'.
                  Inr (dict_set key (PDict (dict_set ''by_complexity'' (PDict (dict_set band (PDict bucket') bands)) s2)) entry)))))))))"

text \<open>The samples of a history, in order, as the accumulator folds them in.\<close>

fun fold_samples :: "(string \<Rightarrow> rat option) \<Rightarrow> (string \<Rightarrow> int option) \<Rightarrow> string \<Rightarrow> (value_sample \<times> bool) list \<Rightarrow> pydict \<Rightarrow> pydict py_result" where
  "fold_samples parse_float parse_int phase [] e = Inr e"
| "fold_samples parse_float parse_int phase (st # sts) e =
     py_bind (fold_reviewer_value parse_float parse_int phase st e) (fold_samples parse_float parse_int phase sts)"

subsection \<open>Weighting\<close>

record recency_config =
  rc_mode :: string
  rc_half_life_runs :: rat
  rc_window :: int

definition recency_params :: "recency_config option \<Rightarrow> recency_config" where
  "recency_params c =
     (case c of
        None \<Rightarrow> \<lparr>rc_mode = ''exponential'', rc_half_life_runs = 50, rc_window = 200\<rparr>
      | Some r \<Rightarrow> if rc_mode r = [] then r\<lparr>rc_mode := ''exponential''\<rparr> else r)"

text \<open>The numerator and the denominator of the exponential mean; the newest outcome is the last.\<close>

fun decayed_sums :: "(rat \<Rightarrow> rat \<Rightarrow> rat) \<Rightarrow> rat \<Rightarrow> rat list \<Rightarrow> rat \<times> rat \<Rightarrow> rat \<times> rat" where
  "decayed_sums pow decay [] t = t"
| "decayed_sums pow decay (x # xs) (num, den) =
     (let weight = pow decay (of_nat (length xs))
      in decayed_sums pow decay xs (float_add num (float_mul weight x), float_add den weight))"

definition weighted_rate :: "(rat \<Rightarrow> rat \<Rightarrow> rat) \<Rightarrow> rat list \<Rightarrow> rat option \<Rightarrow> recency_config \<Rightarrow> int \<Rightarrow> rat option" where
  "weighted_rate pow recent fallback rc min_samples =
     (if rc_mode rc = ''off'' then fallback
      else if recent = [] then fallback
      else (let capped = (if rc_window rc > 0 then newest (nat (rc_window rc)) recent else recent)
            in if capped = [] \<or> int (length capped) < min_samples then fallback
               else if rc_mode rc = ''window'' \<or> rc_half_life_runs rc \<le> 0
               then Some (py_round 4 (float_div (float_sum capped) (of_nat (length capped))))
               else (case decayed_sums pow (pow (1 / 2) (float_div 1 (rc_half_life_runs rc))) capped (0, 0) of
                       (num, den) \<Rightarrow> if den > 0 then Some (py_round 4 (float_div num den)) else fallback)))"

subsection \<open>Reading the signal\<close>

record merged_value =
  mv_runs :: int
  mv_tainted :: int
  mv_uniqueness_sum :: rat
  mv_latency_sum :: rat
  mv_uniqueness_ring :: "rat list"
  mv_latency_ring :: "rat list"

definition nothing_merged :: merged_value where
  "nothing_merged = \<lparr>mv_runs = 0, mv_tainted = 0, mv_uniqueness_sum = 0, mv_latency_sum = 0, mv_uniqueness_ring = [], mv_latency_ring = []\<rparr>"

fun floats_of :: "(string \<Rightarrow> rat option) \<Rightarrow> pyval list \<Rightarrow> rat list py_result" where
  "floats_of parse_float [] = Inr []"
| "floats_of parse_float (v # vs) =
     py_bind (py_float parse_float v) (\<lambda>x. py_bind (floats_of parse_float vs) (\<lambda>xs. Inr (x # xs)))"

definition merge_bucket :: "(string \<Rightarrow> rat option) \<Rightarrow> (string \<Rightarrow> int option) \<Rightarrow> pydict \<Rightarrow> merged_value \<Rightarrow> merged_value py_result" where
  "merge_bucket parse_float parse_int b m =
     py_bind (py_int parse_int (get_or b ''runs'' (PInt 0))) (\<lambda>runs.
     py_bind (py_int parse_int (get_or b ''tainted_runs'' (PInt 0))) (\<lambda>tainted.
     py_bind (py_float parse_float (get_or b ''_uniqueness_sum'' (PFloat 0))) (\<lambda>u.
     py_bind (py_float parse_float (get_or b ''_latency_per_p1_sum'' (PFloat 0))) (\<lambda>l.
     py_bind (floats_of parse_float (ring_of b ''_uniqueness_recent'')) (\<lambda>us.
     py_bind (floats_of parse_float (ring_of b ''_latency_per_p1_recent'')) (\<lambda>ls.
       Inr \<lparr>mv_runs = mv_runs m + runs, mv_tainted = mv_tainted m + tainted,
         mv_uniqueness_sum = float_add (mv_uniqueness_sum m) u, mv_latency_sum = float_add (mv_latency_sum m) l,
         mv_uniqueness_ring = mv_uniqueness_ring m @ us, mv_latency_ring = mv_latency_ring m @ ls\<rparr>))))))"

text \<open>The bucket consulted in an entry: the section itself, or the one of the band.\<close>

definition value_bucket :: "string \<Rightarrow> string option \<Rightarrow> pydict \<Rightarrow> pydict option py_result" where
  "value_bucket key band entry =
     (case py_get entry key of
        PDict section \<Rightarrow>
          (case band of
             None \<Rightarrow> Inr (Some section)
           | Some b \<Rightarrow>
               (case py_get section ''by_complexity'' of
                  PDict bands \<Rightarrow> (case py_get bands b of PDict bucket \<Rightarrow> Inr (Some bucket) | _ \<Rightarrow> Inr None)
                | v \<Rightarrow> if py_truthy v then Inl (AttributeError ''get'') else Inr None))
      | _ \<Rightarrow> Inr None)"

fun merge_entries :: "(string \<Rightarrow> rat option) \<Rightarrow> (string \<Rightarrow> int option) \<Rightarrow> string \<Rightarrow> string option \<Rightarrow> pydict list \<Rightarrow> merged_value \<times> pydict list
    \<Rightarrow> (merged_value \<times> pydict list) py_result" where
  "merge_entries parse_float parse_int key band [] t = Inr t"
| "merge_entries parse_float parse_int key band (e # es) (m, consulted) =
     py_bind (value_bucket key band e) (\<lambda>b. case b of
       None \<Rightarrow> merge_entries parse_float parse_int key band es (m, consulted)
     | Some bucket \<Rightarrow> py_bind (merge_bucket parse_float parse_int bucket m) (\<lambda>m'.
         merge_entries parse_float parse_int key band es (m', consulted @ [bucket])))"

record value_signal =
  sg_raw :: "rat option"
  sg_weighted :: "rat option"
  sg_runs :: int
  sg_floor :: bool
  sg_weighting :: recency_config
  sg_rate :: "rat option"

definition bucket_signal :: "(rat \<Rightarrow> rat \<Rightarrow> rat) \<Rightarrow> int \<Rightarrow> rat \<Rightarrow> rat list \<Rightarrow> int \<Rightarrow> int \<Rightarrow> recency_config option \<Rightarrow> value_signal" where
  "bucket_signal pow runs t ring denom min_runs recency =
     (let rc = recency_params recency;
          raw = (if denom > 0 then Some (py_round 4 (float_div t (fl (of_int denom)))) else None);
          weighted = weighted_rate pow ring raw rc min_runs;
          floor_ok = (runs \<ge> min_runs \<and> runs > 0)
      in \<lparr>sg_raw = raw, sg_weighted = weighted, sg_runs = runs, sg_floor = floor_ok, sg_weighting = rc,
          sg_rate = (if floor_ok then weighted else None)\<rparr>)"

subsection \<open>The population behind a signal\<close>

text \<open>Runs for each served version, in one bucket; a value that is not a dictionary, or no run, is passed over.\<close>

fun served_counts :: "(string \<Rightarrow> int option) \<Rightarrow> (string \<times> pyval) list \<Rightarrow> (string, int) dict \<times> int \<Rightarrow> ((string, int) dict \<times> int) py_result" where
  "served_counts parse_int [] t = Inr t"
| "served_counts parse_int ((model, v) # vs) (by_model, attributed) =
     (case v of
        PDict tally \<Rightarrow>
          py_bind (py_int parse_int (get_or tally ''runs'' (PInt 0))) (\<lambda>runs.
            if runs \<le> 0 then served_counts parse_int vs (by_model, attributed)
            else served_counts parse_int vs
                   (dict_set model ((case dict_get by_model model of None \<Rightarrow> 0 | Some n \<Rightarrow> n) + runs) by_model, attributed + runs))
      | _ \<Rightarrow> served_counts parse_int vs (by_model, attributed))"

fun population_counts :: "(string \<Rightarrow> int option) \<Rightarrow> string \<Rightarrow> string \<Rightarrow> pydict list \<Rightarrow> (string, int) dict \<times> int \<times> int
    \<Rightarrow> ((string, int) dict \<times> int \<times> int) py_result" where
  "population_counts parse_int total_key key [] t = Inr t"
| "population_counts parse_int total_key key (b # bs) (by_model, attributed, total_runs) =
     py_bind (py_int parse_int (get_or b total_key (PInt 0))) (\<lambda>n.
       case py_get b key of
         PDict breakdown \<Rightarrow>
           py_bind (served_counts parse_int breakdown (by_model, attributed)) (\<lambda>(by_model', attributed').
             population_counts parse_int total_key key bs (by_model', attributed', total_runs + n))
       | _ \<Rightarrow> population_counts parse_int total_key key bs (by_model, attributed, total_runs + n))"

record population =
  po_by_resolved_model :: "(string \<times> int) list"
  po_distinct :: nat
  po_mixed :: bool
  po_attributed :: int
  po_unattributed :: int

definition resolved_population :: "(string \<Rightarrow> int option) \<Rightarrow> string \<Rightarrow> string \<Rightarrow> pydict list \<Rightarrow> population option py_result" where
  "resolved_population parse_int total_key key buckets =
     py_bind (population_counts parse_int total_key key buckets ([], 0, 0)) (\<lambda>(by_model, attributed, total_runs).
       Inr (if by_model = [] then None
            else Some \<lparr>po_by_resolved_model = sort_key (\<lambda>(model, n). (- n, model)) by_model, po_distinct = length by_model,
                   po_mixed = (length by_model > 1), po_attributed = attributed, po_unattributed = max 0 (total_runs - attributed)\<rparr>))"

record reviewer_value_signal =
  rv_uniqueness_rate :: value_signal
  rv_latency_per_p1 :: value_signal
  rv_runs :: int
  rv_tainted_runs :: int
  rv_resolved_population :: "population option"

definition value_signal_of :: "(rat \<Rightarrow> rat \<Rightarrow> rat) \<Rightarrow> (string \<Rightarrow> rat option) \<Rightarrow> (string \<Rightarrow> int option) \<Rightarrow> string \<Rightarrow> string option \<Rightarrow> int
    \<Rightarrow> recency_config option \<Rightarrow> pydict list \<Rightarrow> reviewer_value_signal py_result" where
  "value_signal_of pow parse_float parse_int key band min_runs recency entries =
     py_bind (merge_entries parse_float parse_int key band entries (nothing_merged, [])) (\<lambda>(m, consulted).
     py_bind (resolved_population parse_int ''runs'' ''by_resolved_model'' consulted) (\<lambda>population.
       Inr \<lparr>rv_uniqueness_rate = bucket_signal pow (mv_runs m) (mv_uniqueness_sum m) (mv_uniqueness_ring m) (mv_runs m) min_runs recency,
            rv_latency_per_p1 = bucket_signal pow (mv_runs m) (mv_latency_sum m) (mv_latency_ring m) (int (length (mv_latency_ring m))) min_runs recency,
            rv_runs = mv_runs m, rv_tainted_runs = mv_tainted m, rv_resolved_population = population\<rparr>))"

definition get_reviewer_value_signal :: "(rat \<Rightarrow> rat \<Rightarrow> rat) \<Rightarrow> (rat \<Rightarrow> string) \<Rightarrow> (string \<Rightarrow> rat option) \<Rightarrow> (string \<Rightarrow> int option) \<Rightarrow> registry
    \<Rightarrow> pydict \<Rightarrow> model_ref \<Rightarrow> string option \<Rightarrow> int \<Rightarrow> recency_config option \<Rightarrow> string \<Rightarrow> reviewer_value_signal py_result" where
  "get_reviewer_value_signal pow float_repr parse_float parse_int rg profiles m complexity min_runs recency phase =
     py_bind (section_for_phase phase) (\<lambda>key.
       value_signal_of pow parse_float parse_int key (map_option (\<lambda>c. normalize_band (Some c)) complexity) min_runs recency
         (matching_profile_entries float_repr rg profiles m))"

section \<open>A history of samples\<close>

text \<open>What a history should leave: rates and latencies of the samples learned from, and how many were tainted.\<close>

definition option_list :: "'a option \<Rightarrow> 'a list" where
  "option_list v = (case v of None \<Rightarrow> [] | Some x \<Rightarrow> [x])"

definition rates :: "(value_sample \<times> bool) list \<Rightarrow> rat list" where
  "rates sts = concat (map (\<lambda>(s, tainted). if tainted then [] else option_list (uniqueness_rate s)) sts)"

definition latencies :: "(value_sample \<times> bool) list \<Rightarrow> rat list" where
  "latencies sts = concat (map (\<lambda>(s, tainted). if tainted then [] else option_list (latency_per_p1 s)) sts)"

definition taints :: "(value_sample \<times> bool) list \<Rightarrow> nat" where
  "taints sts = length (filter (\<lambda>(s, tainted). tainted \<and> uniqueness_rate s \<noteq> None) sts)"

definition served_by :: "string \<Rightarrow> (value_sample \<times> bool) list \<Rightarrow> nat" where
  "served_by m sts = length (filter (\<lambda>(s, tainted). \<not> tainted \<and> uniqueness_rate s \<noteq> None \<and> vs_resolved_model s = Some m \<and> m \<noteq> []) sts)"

definition of_band :: "string \<Rightarrow> (value_sample \<times> bool) list \<Rightarrow> (value_sample \<times> bool) list" where
  "of_band b sts = filter (\<lambda>(s, tainted). normalize_band (Some (vs_complexity s)) = b) sts"

lemma history_snoc:
  "rates (sts @ [(s, t)]) = rates sts @ (case uniqueness_rate s of None \<Rightarrow> [] | Some u \<Rightarrow> if t then [] else [u])"
  "latencies (sts @ [(s, t)]) = latencies sts @ (case latency_per_p1 s of None \<Rightarrow> [] | Some l \<Rightarrow> if t then [] else [l])"
  "taints (sts @ [(s, t)]) = taints sts + (if t \<and> uniqueness_rate s \<noteq> None then 1 else 0)"
  "served_by m (sts @ [(s, t)]) = served_by m sts + (if \<not> t \<and> uniqueness_rate s \<noteq> None \<and> vs_resolved_model s = Some m \<and> m \<noteq> [] then 1 else 0)"
  "of_band b (sts @ [(s, t)]) = of_band b sts @ (if normalize_band (Some (vs_complexity s)) = b then [(s, t)] else [])"
  by (simp_all add: rates_def latencies_def taints_def served_by_def of_band_def option_list_def split: option.splits)

lemma history_nil [simp]: "rates [] = []" "latencies [] = []" "taints [] = 0" "served_by m [] = 0" "of_band b [] = []"
  by (simp_all add: rates_def latencies_def taints_def served_by_def of_band_def)

text \<open>What a bucket holds of it.\<close>

definition breakdown_holds :: "pydict \<Rightarrow> (value_sample \<times> bool) list \<Rightarrow> bool" where
  "breakdown_holds d sts \<longleftrightarrow> dict_wf d \<and> (\<forall>m. \<exists>c. get_or d m (PDict []) = PDict c \<and> get_or c ''runs'' (PInt 0) = PInt (int (served_by m sts)))"

definition bucket_holds :: "pydict \<Rightarrow> (value_sample \<times> bool) list \<Rightarrow> bool" where
  "bucket_holds b sts \<longleftrightarrow>
     get_or b ''runs'' (PInt 0) = PInt (int (length (rates sts))) \<and> get_or b ''tainted_runs'' (PInt 0) = PInt (int (taints sts))
   \<and> get_or b ''_uniqueness_sum'' (PFloat 0) = PFloat (foldl float_add 0 (rates sts))
   \<and> get_or b ''_latency_per_p1_sum'' (PFloat 0) = PFloat (foldl float_add 0 (latencies sts))
   \<and> ring_of b ''_uniqueness_recent'' = map (PFloat \<circ> py_round 4) (newest 200 (rates sts))
   \<and> ring_of b ''_latency_per_p1_recent'' = map (PFloat \<circ> py_round 4) (newest 200 (latencies sts))
   \<and> (\<exists>d. get_or b ''by_resolved_model'' (PDict []) = PDict d \<and> breakdown_holds d sts)"

lemma get_or_set: "get_or (dict_set k v d) k' w = (if k' = k then v else get_or d k' w)"
  by (simp add: get_or_def)

lemma ring_of_set: "ring_of (dict_set k v d) k' = (if k' = k then case v of PList xs \<Rightarrow> xs | _ \<Rightarrow> [] else ring_of d k')"
  by (simp add: ring_of_def split: pyval.splits)

lemma get_or_default: "get_or (dict_default k v d) k' w = (if k' = k then get_or d k v else get_or d k' w)"
  by (cases "dict_get d k") (auto simp: get_or_def dict_default_def)

lemma ring_of_default: "k' \<noteq> k \<Longrightarrow> ring_of (dict_default k v d) k' = ring_of d k'"
  by (cases "dict_get d k") (auto simp: ring_of_def dict_default_def)

lemma newest_snoc: "newest n (newest n xs @ [x]) = newest n (xs @ [x])"
proof -
  have "newest n xs @ [x] = drop (length xs - n) (xs @ [x])" by (simp add: newest_def)
  moreover have "length xs + 1 - (length xs - n) - n + (length xs - n) = length xs + 1 - n" by linarith
  ultimately show ?thesis by (simp add: newest_def add.commute del: drop_append)
qed

lemma newest_map: "newest n (map f xs) = map f (newest n xs)"
  by (simp add: newest_def drop_map)

lemma newest_push: "newest n (map f (newest n xs) @ [f x]) = map f (newest n (xs @ [x]))"
  using newest_snoc [of n xs x] newest_map [of n f "newest n xs @ [x]"] by simp

lemma py_reads [simp]: "py_int parse_int (PInt i) = Inr i" "py_float parse_float (PFloat x) = Inr x"
  by (simp_all add: py_int_def py_float_def)

lemma as_dict_dict [simp]: "as_dict method (PDict d) = Inr d"
  by (simp add: as_dict_def)

lemma bucket_holds_same:
  assumes "bucket_holds b sts" "\<And>k w. get_or b' k w = get_or b k w \<or> k \<in> K" "\<And>k. ring_of b' k = ring_of b k \<or> k \<in> K"
    and "K \<inter> {''runs'', ''tainted_runs'', ''_uniqueness_sum'', ''_latency_per_p1_sum'', ''_uniqueness_recent'', ''_latency_per_p1_recent'', ''by_resolved_model''} = {}"
  shows "bucket_holds b' sts"
  using assms(1) assms(2) [of "''runs''"] assms(2) [of "''tainted_runs''"] assms(2) [of "''_uniqueness_sum''"]
    assms(2) [of "''_latency_per_p1_sum''"] assms(2) [of "''by_resolved_model''"]
    assms(3) [of "''_uniqueness_recent''"] assms(3) [of "''_latency_per_p1_recent''"] assms(4)
  unfolding bucket_holds_def by auto

lemma bucket_holds_empty: "bucket_holds [] []" "bucket_holds empty_value_bucket []"
  by (simp_all add: bucket_holds_def breakdown_holds_def empty_value_bucket_def get_or_def ring_of_def newest_def)

subsection \<open>One sample\<close>

text \<open>The fields of a bucket that a sample may change.\<close>

definition value_fields :: "string set" where
  "value_fields = {''runs'', ''tainted_runs'', ''_uniqueness_sum'', ''avg_uniqueness_rate'', ''_uniqueness_recent'', ''_latency_per_p1_sum'',
     ''_latency_per_p1_recent'', ''avg_latency_per_p1'', ''by_resolved_model''}"

definition only_values :: "pydict \<Rightarrow> pydict \<Rightarrow> bool" where
  "only_values b b' \<longleftrightarrow> (\<forall>k. k \<notin> value_fields \<longrightarrow> dict_get b' k = dict_get b k)"

definition sums_hold :: "pydict \<Rightarrow> (value_sample \<times> bool) list \<Rightarrow> bool" where
  "sums_hold b sts \<longleftrightarrow>
     get_or b ''runs'' (PInt 0) = PInt (int (length (rates sts))) \<and> get_or b ''tainted_runs'' (PInt 0) = PInt (int (taints sts))
   \<and> get_or b ''_uniqueness_sum'' (PFloat 0) = PFloat (foldl float_add 0 (rates sts))
   \<and> get_or b ''_latency_per_p1_sum'' (PFloat 0) = PFloat (foldl float_add 0 (latencies sts))
   \<and> ring_of b ''_uniqueness_recent'' = map (PFloat \<circ> py_round 4) (newest 200 (rates sts))
   \<and> ring_of b ''_latency_per_p1_recent'' = map (PFloat \<circ> py_round 4) (newest 200 (latencies sts))"

definition versions_hold :: "pydict \<Rightarrow> (value_sample \<times> bool) list \<Rightarrow> bool" where
  "versions_hold b sts \<longleftrightarrow> (\<exists>d. get_or b ''by_resolved_model'' (PDict []) = PDict d \<and> breakdown_holds d sts)"

lemma bucket_holds_parts: "bucket_holds b sts \<longleftrightarrow> sums_hold b sts \<and> versions_hold b sts"
  by (auto simp: bucket_holds_def sums_hold_def versions_hold_def)

lemma latency_needs_rate: "latency_per_p1 s = Some l \<Longrightarrow> \<exists>u. uniqueness_rate s = Some u"
  by (auto simp: latency_per_p1_def uniqueness_rate_def split: option.splits if_splits)

lemma tainted_holds:
  assumes "bucket_holds b sts" "uniqueness_rate s = Some u"
  shows "\<exists>b'. teach parse_float parse_int s u True b = Inr b' \<and> bucket_holds b' (sts @ [(s, True)]) \<and> only_values b b'"
proof -
  let ?b = "dict_set ''tainted_runs'' (PInt (int (taints sts) + 1)) b"
  have "teach parse_float parse_int s u True b = Inr ?b" using assms(1) by (simp add: teach_def count_up_def bucket_holds_def)
  moreover have "sums_hold ?b (sts @ [(s, True)])"
    using assms by (simp add: bucket_holds_parts sums_hold_def history_snoc get_or_set ring_of_set split: option.splits)
  moreover have "versions_hold ?b (sts @ [(s, True)])"
    using assms(1) by (simp add: bucket_holds_parts versions_hold_def breakdown_holds_def history_snoc get_or_set)
  ultimately show ?thesis by (simp add: bucket_holds_parts only_values_def value_fields_def)
qed

lemma fold_bucket_holds:
  assumes "bucket_holds b sts" "uniqueness_rate s = Some u"
  shows "\<exists>b'. fold_bucket parse_float parse_int u (latency_per_p1 s) b = Inr b' \<and> sums_hold b' (sts @ [(s, False)])
    \<and> get_or b' ''by_resolved_model'' (PDict []) = get_or b ''by_resolved_model'' (PDict []) \<and> only_values b b'"
proof -
  from assms(1) have h: "sums_hold b sts" by (simp add: bucket_holds_parts)
  have "\<exists>b1. fold_uniqueness parse_float parse_int u b = Inr b1
    \<and> get_or b1 ''runs'' (PInt 0) = PInt (int (length (rates sts)) + 1) \<and> get_or b1 ''tainted_runs'' (PInt 0) = PInt (int (taints sts))
    \<and> get_or b1 ''_uniqueness_sum'' (PFloat 0) = PFloat (float_add (foldl float_add 0 (rates sts)) u)
    \<and> get_or b1 ''_latency_per_p1_sum'' (PFloat 0) = PFloat (foldl float_add 0 (latencies sts))
    \<and> ring_of b1 ''_uniqueness_recent'' = map (PFloat \<circ> py_round 4) (newest 200 (rates sts @ [u]))
    \<and> ring_of b1 ''_latency_per_p1_recent'' = map (PFloat \<circ> py_round 4) (newest 200 (latencies sts))
    \<and> get_or b1 ''by_resolved_model'' (PDict []) = get_or b ''by_resolved_model'' (PDict []) \<and> only_values b b1"
    using h newest_push [of 200 "PFloat \<circ> py_round 4" "rates sts" u]
    by (simp add: fold_uniqueness_def Let_def sums_hold_def average_def push_ring_def value_recency_window_def get_or_set ring_of_set
        only_values_def value_fields_def)
  then obtain b1 where b1: "fold_uniqueness parse_float parse_int u b = Inr b1"
    "get_or b1 ''runs'' (PInt 0) = PInt (int (length (rates sts)) + 1)" "get_or b1 ''tainted_runs'' (PInt 0) = PInt (int (taints sts))"
    "get_or b1 ''_uniqueness_sum'' (PFloat 0) = PFloat (float_add (foldl float_add 0 (rates sts)) u)"
    "get_or b1 ''_latency_per_p1_sum'' (PFloat 0) = PFloat (foldl float_add 0 (latencies sts))"
    "ring_of b1 ''_uniqueness_recent'' = map (PFloat \<circ> py_round 4) (newest 200 (rates sts @ [u]))"
    "ring_of b1 ''_latency_per_p1_recent'' = map (PFloat \<circ> py_round 4) (newest 200 (latencies sts))"
    "get_or b1 ''by_resolved_model'' (PDict []) = get_or b ''by_resolved_model'' (PDict [])" "only_values b b1" by blast
  show ?thesis
  proof (cases "latency_per_p1 s")
    case None
    with b1 assms(2) show ?thesis by (simp add: fold_bucket_def fold_latency_def sums_hold_def history_snoc)
  next
    case (Some l)
    with b1 assms(2) newest_push [of 200 "PFloat \<circ> py_round 4" "latencies sts" l] show ?thesis
      by (simp add: fold_bucket_def fold_latency_def Let_def sums_hold_def history_snoc push_ring_def value_recency_window_def
          get_or_set ring_of_set only_values_def value_fields_def)
  qed
qed

lemma resolved_holds:
  assumes "sums_hold b sts'" "get_or b ''by_resolved_model'' (PDict []) = PDict d" "breakdown_holds d sts"
    and "sts' = sts @ [(s, False)]" "uniqueness_rate s = Some u"
  shows "\<exists>b'. fold_resolved_model parse_float parse_int (vs_resolved_model s) None False ''by_resolved_model'' 1 b = Inr b'
    \<and> bucket_holds b' sts' \<and> only_values b b'"
proof (cases "\<exists>c cs. vs_resolved_model s = Some (c # cs)")
  case False
  then have "vs_resolved_model s = Some m \<and> m \<noteq> [] \<longleftrightarrow> False" for m by (cases m) auto
  with False assms show ?thesis
    by (cases "vs_resolved_model s") (auto simp: fold_resolved_model_def bucket_holds_parts versions_hold_def breakdown_holds_def
        history_snoc only_values_def split: list.splits)
next
  case True
  then obtain c cs where m: "vs_resolved_model s = Some (c # cs)" by blast
  from assms(3) obtain e where e: "get_or d (c # cs) (PDict []) = PDict e" "get_or e ''runs'' (PInt 0) = PInt (int (served_by (c # cs) sts))"
    unfolding breakdown_holds_def by blast
  let ?d = "dict_set (c # cs) (PDict (dict_set ''runs'' (PInt (int (served_by (c # cs) sts) + 1)) e)) d"
  let ?b = "dict_set ''by_resolved_model'' (PDict ?d) b"
  have "fold_resolved_model parse_float parse_int (vs_resolved_model s) None False ''by_resolved_model'' 1 b = Inr ?b"
    using assms(2) e by (simp add: fold_resolved_model_def m count_up_def)
  moreover have "sums_hold ?b sts'" using assms(1) by (simp add: sums_hold_def get_or_set ring_of_set)
  moreover have "breakdown_holds ?d sts'"
    using assms(3,5) by (auto simp: breakdown_holds_def get_or_set history_snoc assms(4) m)
  ultimately show ?thesis
    by (intro exI [of _ ?b]) (simp add: bucket_holds_parts versions_hold_def get_or_set only_values_def value_fields_def)
qed

lemma only_values_trans: "only_values a b \<Longrightarrow> only_values b c \<Longrightarrow> only_values a c"
  by (simp add: only_values_def)

lemma teach_holds:
  assumes "bucket_holds b sts" "uniqueness_rate s = Some u"
  shows "\<exists>b'. teach parse_float parse_int s u t b = Inr b' \<and> bucket_holds b' (sts @ [(s, t)]) \<and> only_values b b'"
proof (cases t)
  case True
  with tainted_holds [OF assms] show ?thesis by simp
next
  case False
  from fold_bucket_holds [OF assms] obtain b1 where b1: "fold_bucket parse_float parse_int u (latency_per_p1 s) b = Inr b1"
    "sums_hold b1 (sts @ [(s, False)])" "get_or b1 ''by_resolved_model'' (PDict []) = get_or b ''by_resolved_model'' (PDict [])" "only_values b b1"
    by blast
  from assms(1) obtain d where "get_or b ''by_resolved_model'' (PDict []) = PDict d" "breakdown_holds d sts"
    by (auto simp: bucket_holds_parts versions_hold_def)
  with resolved_holds [OF b1(2) _ _ refl assms(2)] b1(3) obtain b2 where
    "fold_resolved_model parse_float parse_int (vs_resolved_model s) None False ''by_resolved_model'' 1 b1 = Inr b2"
    "bucket_holds b2 (sts @ [(s, False)])" "only_values b1 b2" by metis
  with b1(1,4) False show ?thesis by (auto simp: teach_def intro: only_values_trans)
qed

subsection \<open>An entry\<close>

definition section_holds :: "pydict \<Rightarrow> (value_sample \<times> bool) list \<Rightarrow> bool" where
  "section_holds s sts \<longleftrightarrow> bucket_holds s sts \<and> (\<exists>bands. get_or s ''by_complexity'' (PDict []) = PDict bands
     \<and> (\<forall>band. \<exists>d. get_or bands band (PDict empty_value_bucket) = PDict d \<and> bucket_holds d (of_band band sts)))"

definition entry_holds :: "string \<Rightarrow> pydict \<Rightarrow> (value_sample \<times> bool) list \<Rightarrow> pydict \<Rightarrow> bool" where
  "entry_holds key e0 sts e \<longleftrightarrow> (\<forall>k. k \<noteq> key \<longrightarrow> dict_get e k = dict_get e0 k) \<and> (\<exists>s. get_or e key (PDict []) = PDict s \<and> section_holds s sts)"

lemma unrated_history:
  assumes "uniqueness_rate s = None"
  shows "rates (sts @ [(s, t)]) = rates sts" "latencies (sts @ [(s, t)]) = latencies sts" "taints (sts @ [(s, t)]) = taints sts"
    "served_by m (sts @ [(s, t)]) = served_by m sts"
  using assms latency_needs_rate [of s] by (cases "latency_per_p1 s"; simp add: history_snoc)+

lemma bucket_holds_unrated: "uniqueness_rate s = None \<Longrightarrow> bucket_holds b (sts @ [(s, t)]) = bucket_holds b sts"
  by (simp add: bucket_holds_def breakdown_holds_def unrated_history)

lemma entry_holds_start: "dict_get e key = None \<Longrightarrow> entry_holds key e [] e"
  by (simp add: entry_holds_def section_holds_def get_or_def bucket_holds_empty)

lemma bucket_holds_defaults:
  assumes "bucket_holds b sts"
  shows "bucket_holds (dict_default ''tainted_runs'' (PInt 0) (dict_default ''runs'' (PInt 0) b)) sts"
    and "bucket_holds (dict_default ''by_complexity'' v b) sts"
  using assms by (simp_all add: bucket_holds_def get_or_default ring_of_default)

lemma fold_value_holds:
  assumes "entry_holds key e0 sts e" "section_for_phase phase = Inr key"
  shows "\<exists>e'. fold_reviewer_value parse_float parse_int phase (s, t) e = Inr e' \<and> entry_holds key e0 (sts @ [(s, t)]) e'"
proof (cases "uniqueness_rate s")
  case None
  have "bucket_holds d (of_band band (sts @ [(s, t)])) = bucket_holds d (of_band band sts)" for d band
    using bucket_holds_unrated [OF None] by (simp add: history_snoc)
  with assms(1) None show ?thesis by (simp add: fold_reviewer_value_def entry_holds_def section_holds_def bucket_holds_unrated)
next
  case (Some u)
  from assms(1) obtain s0 bands where s0: "get_or e key (PDict []) = PDict s0" "bucket_holds s0 sts" "get_or s0 ''by_complexity'' (PDict []) = PDict bands"
    and bands: "\<And>band. \<exists>d. get_or bands band (PDict empty_value_bucket) = PDict d \<and> bucket_holds d (of_band band sts)"
    and e: "\<forall>k. k \<noteq> key \<longrightarrow> dict_get e k = dict_get e0 k"
    unfolding entry_holds_def section_holds_def by blast
  let ?band = "normalize_band (Some (vs_complexity s))"
  let ?s1 = "dict_default ''tainted_runs'' (PInt 0) (dict_default ''runs'' (PInt 0) s0)"
  have s1: "get_or ?s1 ''by_complexity'' (PDict []) = PDict bands" using s0(3) by (simp add: get_or_default)
  have "bucket_holds (dict_default ''by_complexity'' (PDict []) ?s1) sts" by (intro bucket_holds_defaults s0(2))
  from teach_holds [OF this Some] obtain s2 where
    s2: "teach parse_float parse_int s u t (dict_default ''by_complexity'' (PDict []) ?s1) = Inr s2" "bucket_holds s2 (sts @ [(s, t)])" by blast
  from bands [of ?band] obtain d where d: "get_or bands ?band (PDict empty_value_bucket) = PDict d" "bucket_holds d (of_band ?band sts)" by blast
  from teach_holds [OF d(2) Some] obtain d' where
    d': "teach parse_float parse_int s u t d = Inr d'" "bucket_holds d' (of_band ?band sts @ [(s, t)])" by blast
  let ?bands = "dict_set ?band (PDict d') bands"
  let ?s = "dict_set ''by_complexity'' (PDict ?bands) s2"
  have "fold_reviewer_value parse_float parse_int phase (s, t) e = Inr (dict_set key (PDict ?s) e)"
    using s0(1) s1 s2(1) d(1) d'(1) by (simp add: fold_reviewer_value_def Some assms(2) Let_def)
  moreover have "bucket_holds ?s (sts @ [(s, t)])" using s2(2) by (simp add: bucket_holds_def get_or_set ring_of_set)
  moreover have "\<exists>d. get_or ?bands band (PDict empty_value_bucket) = PDict d \<and> bucket_holds d (of_band band (sts @ [(s, t)]))" for band
    using bands [of band] d'(2) by (auto simp: get_or_set history_snoc)
  ultimately show ?thesis using e by (simp add: entry_holds_def section_holds_def get_or_set)
qed

lemma fold_samples_snoc:
  "fold_samples parse_float parse_int phase (sts @ [st]) e = py_bind (fold_samples parse_float parse_int phase sts e) (fold_reviewer_value parse_float parse_int phase st)"
proof (induction sts arbitrary: e)
  case Nil
  then show ?case by (cases "fold_reviewer_value parse_float parse_int phase st e") simp_all
next
  case (Cons s sts)
  then show ?case by (cases "fold_reviewer_value parse_float parse_int phase s e") simp_all
qed

lemma fold_samples_holds:
  assumes "dict_get e0 key = None" "section_for_phase phase = Inr key"
  shows "\<exists>e. fold_samples parse_float parse_int phase sts e0 = Inr e \<and> entry_holds key e0 sts e"
proof (induction sts rule: rev_induct)
  case Nil
  then show ?case using entry_holds_start [OF assms(1)] by simp
next
  case (snoc st sts)
  obtain s t where "st = (s, t)" by (cases st)
  with snoc fold_value_holds [OF _ assms(2)] show ?case by (auto simp: fold_samples_snoc)
qed

subsection \<open>Reading it back\<close>

text \<open>What a reader of a history should see.\<close>

definition signal_of_history :: "(rat \<Rightarrow> rat \<Rightarrow> rat) \<Rightarrow> int \<Rightarrow> recency_config option \<Rightarrow> nat \<Rightarrow> rat list \<Rightarrow> nat \<Rightarrow> value_signal" where
  "signal_of_history pow min_runs recency runs xs denom =
     bucket_signal pow (int runs) (foldl float_add 0 xs) (map (py_round 4) (newest 200 xs)) (int denom) min_runs recency"

lemma floats_of_ring: "floats_of parse_float (map (PFloat \<circ> f) xs) = Inr (map f xs)"
  by (induction xs) simp_all

lemma foldl_float: "float_add 0 (foldl float_add 0 xs) = foldl float_add 0 xs"
  by (cases xs rule: rev_cases) (simp_all add: float_add_def)

lemma merge_bucket_holds:
  assumes "bucket_holds b sts"
  shows "merge_bucket parse_float parse_int b m = Inr \<lparr>mv_runs = mv_runs m + int (length (rates sts)), mv_tainted = mv_tainted m + int (taints sts),
    mv_uniqueness_sum = float_add (mv_uniqueness_sum m) (foldl float_add 0 (rates sts)),
    mv_latency_sum = float_add (mv_latency_sum m) (foldl float_add 0 (latencies sts)),
    mv_uniqueness_ring = mv_uniqueness_ring m @ map (py_round 4) (newest 200 (rates sts)),
    mv_latency_ring = mv_latency_ring m @ map (py_round 4) (newest 200 (latencies sts))\<rparr>"
  using assms by (simp add: bucket_holds_def merge_bucket_def floats_of_ring del: map_map comp_apply)

definition in_scope :: "string option \<Rightarrow> (value_sample \<times> bool) list \<Rightarrow> (value_sample \<times> bool) list" where
  "in_scope band sts = (case band of None \<Rightarrow> sts | Some b \<Rightarrow> of_band b sts)"

lemma value_bucket_holds:
  assumes "entry_holds key e0 sts e"
  shows "\<exists>b. bucket_holds b (in_scope band sts) \<and>
    (value_bucket key band e = Inr (Some b) \<or> value_bucket key band e = Inr None \<and> (b = [] \<or> b = empty_value_bucket))"
proof -
  from assms obtain s bands where s: "get_or e key (PDict []) = PDict s" "bucket_holds s sts" "get_or s ''by_complexity'' (PDict []) = PDict bands"
    and bands: "\<And>band. \<exists>d. get_or bands band (PDict empty_value_bucket) = PDict d \<and> bucket_holds d (of_band band sts)"
    unfolding entry_holds_def section_holds_def by blast
  show ?thesis
  proof (cases band)
    case None
    with s show ?thesis
      by (cases "dict_get e key") (auto simp: value_bucket_def in_scope_def py_get_def get_or_def)
  next
    case (Some b)
    from bands [of b] obtain d where d: "get_or bands b (PDict empty_value_bucket) = PDict d" "bucket_holds d (of_band b sts)" by blast
    have "value_bucket key band e = Inr (Some d) \<or> value_bucket key band e = Inr None \<and> d = empty_value_bucket"
      using s(1,3) d(1) Some
      by (cases "dict_get e key"; cases "dict_get s ''by_complexity''"; cases "dict_get bands b")
        (simp_all add: value_bucket_def py_get_def get_or_def)
    with d(2) Some show ?thesis by (auto simp: in_scope_def)
  qed
qed

text \<open>The versions that served the samples learned from, and how many samples name one.\<close>

definition versions :: "(value_sample \<times> bool) list \<Rightarrow> string set" where
  "versions sts = {m. 0 < served_by m sts}"

definition versioned :: "(value_sample \<times> bool) list \<Rightarrow> nat" where
  "versioned sts = length (filter (\<lambda>(s, tainted). \<not> tainted \<and> uniqueness_rate s \<noteq> None \<and> vs_resolved_model s \<noteq> None \<and> vs_resolved_model s \<noteq> Some []) sts)"

definition population_of :: "(value_sample \<times> bool) list \<Rightarrow> population option \<Rightarrow> bool" where
  "population_of sts v =
     (case v of
        None \<Rightarrow> versions sts = {}
      | Some p \<Rightarrow> versions sts \<noteq> {} \<and> po_distinct p = card (versions sts) \<and> po_mixed p = (card (versions sts) > 1)
          \<and> set (po_by_resolved_model p) = (\<lambda>m. (m, int (served_by m sts))) ` versions sts
          \<and> po_attributed p = int (versioned sts) \<and> po_unattributed p = int (length (rates sts)) - int (versioned sts))"

lemma served_by_cons:
  "served_by m ((s, t) # sts) = (if \<not> t \<and> uniqueness_rate s \<noteq> None \<and> vs_resolved_model s = Some m \<and> m \<noteq> [] then 1 else 0) + served_by m sts"
  by (simp add: served_by_def)

lemma versioned_sum:
  assumes "finite K" "versions sts \<subseteq> K"
  shows "(\<Sum>m \<in> K. served_by m sts) = versioned sts"
  using assms(2)
proof (induction sts)
  case Nil
  then show ?case by (simp add: versioned_def)
next
  case (Cons st sts)
  obtain s t where st: "st = (s, t)" by (cases st)
  have "versions sts \<subseteq> K" using Cons.prems by (auto simp: versions_def st served_by_cons)
  note IH = Cons.IH [OF this]
  let ?g = "\<lambda>m. if \<not> t \<and> uniqueness_rate s \<noteq> None \<and> vs_resolved_model s = Some m \<and> m \<noteq> [] then 1 else 0 :: nat"
  have g: "(\<Sum>m \<in> K. ?g m) = (if \<not> t \<and> uniqueness_rate s \<noteq> None \<and> vs_resolved_model s \<noteq> None \<and> vs_resolved_model s \<noteq> Some [] then 1 else 0)"
  proof (cases "\<not> t \<and> uniqueness_rate s \<noteq> None \<and> vs_resolved_model s \<noteq> None \<and> vs_resolved_model s \<noteq> Some []")
    case True
    then obtain m where m: "vs_resolved_model s = Some m" "m \<noteq> []" by auto
    with True Cons.prems have "m \<in> K" by (auto simp: versions_def st served_by_cons)
    have "?g = (\<lambda>k. if k = m then 1 else 0)" using True m by auto
    then have "(\<Sum>k \<in> K. ?g k) = (\<Sum>k \<in> K. if k = m then 1 else 0)" by (simp only:)
    with True \<open>m \<in> K\<close> assms(1) show ?thesis by simp
  next
    case False
    then have "(\<Sum>k \<in> K. ?g k) = 0" by (intro sum.neutral) auto
    with False show ?thesis by (simp only: if_False)
  qed
  have "(\<Sum>m \<in> K. served_by m (st # sts)) = (\<Sum>m \<in> K. ?g m) + (\<Sum>m \<in> K. served_by m sts)"
    unfolding st served_by_cons by (rule sum.distrib)
  also have "\<dots> = versioned (st # sts)" unfolding g IH by (simp add: versioned_def st)
  finally show ?case .
qed

lemma versioned_le: "versioned sts \<le> length (rates sts)"
proof (induction sts)
  case (Cons st sts)
  then show ?case by (cases st) (auto simp: versioned_def rates_def option_list_def split: option.splits)
qed (simp add: versioned_def)

lemma history_append [simp]:
  "rates (a @ b) = rates a @ rates b" "taints (a @ b) = taints a + taints b" "versioned (a @ b) = versioned a + versioned b"
  "served_by m (a @ b) = served_by m a + served_by m b"
  by (simp_all add: rates_def taints_def versioned_def served_by_def)

text \<open>Counts kept for each version: those that are not zero.\<close>

definition tallies :: "(string, int) dict \<Rightarrow> (string \<Rightarrow> nat) \<Rightarrow> bool" where
  "tallies d g \<longleftrightarrow> dict_wf d \<and> (\<forall>m. dict_get d m = (if 0 < g m then Some (int (g m)) else None))"

lemma tallies_add:
  assumes "tallies d g" "0 < n"
  shows "tallies (dict_set m ((case dict_get d m of None \<Rightarrow> 0 | Some i \<Rightarrow> i) + int n) d) (\<lambda>k. g k + (if k = m then n else 0))"
  using assms by (auto simp: tallies_def)

lemma served_counts_adds:
  assumes "tallies d g" "distinct (map fst vs)"
    and "\<And>m v. (m, v) \<in> set vs \<Longrightarrow> \<exists>c. v = PDict c \<and> get_or c ''runs'' (PInt 0) = PInt (int (f m))"
  shows "\<exists>d'. served_counts parse_int vs (d, a) = Inr (d', a + int (\<Sum>m \<leftarrow> map fst vs. f m))
    \<and> tallies d' (\<lambda>m. g m + (if m \<in> fst ` set vs then f m else 0))"
  using assms
proof (induction vs arbitrary: d g a)
  case (Cons mv vs)
  obtain m v where mv: "mv = (m, v)" by (cases mv)
  from Cons.prems(3) [of m v] obtain c where c: "v = PDict c" "get_or c ''runs'' (PInt 0) = PInt (int (f m))" by (auto simp: mv)
  have rest: "distinct (map fst vs)" "\<And>m v. (m, v) \<in> set vs \<Longrightarrow> \<exists>c. v = PDict c \<and> get_or c ''runs'' (PInt 0) = PInt (int (f m))"
    using Cons.prems(2,3) by auto
  have new: "m \<notin> fst ` set vs" using Cons.prems(2) by (simp add: mv)
  show ?case
  proof (cases "f m = 0")
    case True
    have "(\<lambda>k. g k + (if k \<in> fst ` set (mv # vs) then f k else 0)) = (\<lambda>k. g k + (if k \<in> fst ` set vs then f k else 0))"
      using True by (auto simp: mv)
    with Cons.IH [OF Cons.prems(1) rest, of a] True show ?thesis by (simp add: mv c)
  next
    case False
    then have pos: "0 < f m" by simp
    have g: "(\<lambda>k. g k + (if k \<in> fst ` set (mv # vs) then f k else 0))
        = (\<lambda>k. (g k + (if k = m then f m else 0)) + (if k \<in> fst ` set vs then f k else 0))"
      using new by (auto simp: mv)
    from Cons.IH [OF tallies_add [OF Cons.prems(1) pos, of m] rest, of "a + int (f m)"] False show ?thesis
      unfolding g by (simp add: mv c add.assoc)
  qed
qed simp

lemma breakdown_entry:
  assumes "breakdown_holds d sts"
  shows "(m, v) \<in> set d \<Longrightarrow> \<exists>c. v = PDict c \<and> get_or c ''runs'' (PInt 0) = PInt (int (served_by m sts))"
    and "versions sts \<subseteq> set (map fst d)"
proof -
  have wf: "distinct (map fst d)" using assms by (simp add: breakdown_holds_def)
  show "\<exists>c. v = PDict c \<and> get_or c ''runs'' (PInt 0) = PInt (int (served_by m sts))" if "(m, v) \<in> set d"
  proof -
    from that wf have "dict_get d m = Some v" by simp
    with assms show ?thesis by (auto simp: breakdown_holds_def get_or_def dest: spec [of _ m])
  qed
  show "versions sts \<subseteq> set (map fst d)"
  proof
    fix m
    assume "m \<in> versions sts"
    then have pos: "0 < served_by m sts" by (simp add: versions_def)
    from assms obtain c where c: "get_or d m (PDict []) = PDict c" "get_or c ''runs'' (PInt 0) = PInt (int (served_by m sts))"
      unfolding breakdown_holds_def by blast
    have "dict_get d m \<noteq> None"
    proof
      assume "dict_get d m = None"
      then have "c = []" using c(1) by (simp add: get_or_def)
      with c(2) pos show False by (simp add: get_or_def)
    qed
    then show "m \<in> set (map fst d)" by (simp only: map_of_eq_None_iff set_map not_not)
  qed
qed

lemma population_step:
  assumes "bucket_holds b sts" "tallies d g"
  shows "\<exists>d'. tallies d' (\<lambda>m. g m + served_by m sts) \<and> population_counts parse_int ''runs'' ''by_resolved_model'' (b # bs) (d, a, n)
    = population_counts parse_int ''runs'' ''by_resolved_model'' bs (d', a + int (versioned sts), n + int (length (rates sts)))"
proof -
  from assms(1) obtain e where e: "get_or b ''by_resolved_model'' (PDict []) = PDict e" "breakdown_holds e sts" by (auto simp: bucket_holds_def)
  have runs: "get_or b ''runs'' (PInt 0) = PInt (int (length (rates sts)))" using assms(1) by (simp add: bucket_holds_def)
  have wf: "distinct (map fst e)" using e(2) by (simp add: breakdown_holds_def)
  note entry = breakdown_entry [OF e(2)]
  have total_runs: "(\<Sum>m \<leftarrow> map fst e. served_by m sts) = versioned sts"
    using versioned_sum [OF finite_set entry(2)] sum_list_distinct_conv_sum_set [OF wf, of "\<lambda>m. served_by m sts"] by simp
  have "m \<in> fst ` set e" if "0 < served_by m sts" for m using entry(2) that by (auto simp: versions_def)
  then have g: "(\<lambda>m. g m + (if m \<in> fst ` set e then served_by m sts else 0)) = (\<lambda>m. g m + served_by m sts)" by fastforce
  from served_counts_adds [where f = "\<lambda>m. served_by m sts" and parse_int = parse_int and a = a, OF assms(2) wf entry(1)] obtain d' where
    d': "served_counts parse_int e (d, a) = Inr (d', a + int (versioned sts))" "tallies d' (\<lambda>m. g m + served_by m sts)"
    unfolding total_runs g by blast
  show ?thesis
  proof (cases "dict_get b ''by_resolved_model''")
    case None
    then have "e = []" using e(1) by (simp add: get_or_def)
    with None d' runs show ?thesis by (auto simp: py_get_def)
  next
    case (Some v)
    with e(1) d' runs show ?thesis by (auto simp: py_get_def get_or_def [of _ "''by_resolved_model''"])
  qed
qed

lemma population_counts_holds:
  assumes "list_all2 bucket_holds bs hs" "tallies d g"
  shows "\<exists>d'. population_counts parse_int ''runs'' ''by_resolved_model'' bs (d, a, n)
      = Inr (d', a + int (versioned (concat hs)), n + int (length (rates (concat hs))))
    \<and> tallies d' (\<lambda>m. g m + served_by m (concat hs))"
  using assms
proof (induction arbitrary: d g a n rule: list_all2_induct)
  case (Cons b bs h hs)
  from population_step [OF Cons(1) Cons.prems, of parse_int bs a n] obtain d1 where
    d1: "tallies d1 (\<lambda>m. g m + served_by m h)"
      "population_counts parse_int ''runs'' ''by_resolved_model'' (b # bs) (d, a, n)
        = population_counts parse_int ''runs'' ''by_resolved_model'' bs (d1, a + int (versioned h), n + int (length (rates h)))" by blast
  from Cons.IH [OF d1(1), of "a + int (versioned h)" "n + int (length (rates h))"] show ?case
    unfolding d1(2) by (simp add: add.assoc)
qed (simp add: versioned_def)

lemma population_exact:
  assumes "list_all2 bucket_holds bs hs"
  shows "\<exists>v. resolved_population parse_int ''runs'' ''by_resolved_model'' bs = Inr v \<and> population_of (concat hs) v"
proof -
  let ?h = "concat hs"
  have "tallies [] (\<lambda>m. 0)" by (simp add: tallies_def)
  from population_counts_holds [OF assms this, of parse_int 0 0] obtain d where
    d: "population_counts parse_int ''runs'' ''by_resolved_model'' bs ([], 0, 0) = Inr (d, int (versioned ?h), int (length (rates ?h)))"
      "tallies d (\<lambda>m. served_by m ?h)" by auto
  have wf: "distinct (map fst d)" using d(2) by (simp add: tallies_def)
  have mem: "(m, n) \<in> set d \<longleftrightarrow> 0 < served_by m ?h \<and> n = int (served_by m ?h)" for m n
    using d(2) map_of_eq_Some_iff [OF wf, of m n] by (auto simp: tallies_def split: if_splits)
  have set_d: "set d = (\<lambda>m. (m, int (served_by m ?h))) ` versions ?h" by (auto simp: mem versions_def)
  then have keys: "fst ` set d = versions ?h" by (simp add: image_comp comp_def)
  have card: "length d = card (versions ?h)" using distinct_card [OF wf] keys by simp
  show ?thesis
  proof (cases "d = []")
    case True
    with d(1) keys show ?thesis by (simp add: resolved_population_def population_of_def)
  next
    case False
    then have "versions ?h \<noteq> {}" using keys by auto
    then show ?thesis using d(1) False card set_d versioned_le [of ?h]
      by (simp add: resolved_population_def population_of_def)
  qed
qed

lemma empty_scope:
  assumes "bucket_holds b sts" "b = [] \<or> b = empty_value_bucket"
  shows "rates sts = []" "latencies sts = []" "taints sts = 0" "versions sts = {}" "served_by m sts = 0" "versioned sts = 0"
proof -
  have empty: "newest 200 xs = [] \<Longrightarrow> xs = []" for xs :: "rat list" by (cases xs) (auto simp: newest_def)
  show "rates sts = []" "latencies sts = []" "taints sts = 0"
    using assms by (auto simp: bucket_holds_def get_or_def ring_of_def empty_value_bucket_def dest: empty)
  show v: "versions sts = {}"
    using assms by (fastforce simp: bucket_holds_def breakdown_holds_def versions_def get_or_def empty_value_bucket_def)
  then show "served_by m sts = 0" by (auto simp: versions_def)
  show "versioned sts = 0" using versioned_sum [of "{}" sts] v by simp
qed

subsection \<open>Several entries\<close>

text \<open>
  What a reader of several histories should see: the sums of their sums, their rings one after the other, and for the latencies the
  number of samples in the rings.
\<close>

definition signal_of_histories :: "(rat \<Rightarrow> rat \<Rightarrow> rat) \<Rightarrow> int \<Rightarrow> recency_config option \<Rightarrow> nat \<Rightarrow> rat list list \<Rightarrow> nat \<Rightarrow> value_signal" where
  "signal_of_histories pow min_runs recency runs xss denom =
     bucket_signal pow (int runs) (foldl float_add 0 (map (foldl float_add 0) xss))
       (concat (map (\<lambda>xs. map (py_round 4) (newest 200 xs)) xss)) (int denom) min_runs recency"

definition merged_of :: "(value_sample \<times> bool) list list \<Rightarrow> merged_value" where
  "merged_of hs =
     \<lparr>mv_runs = int (length (rates (concat hs))), mv_tainted = int (taints (concat hs)),
      mv_uniqueness_sum = foldl float_add 0 (map (foldl float_add 0 \<circ> rates) hs),
      mv_latency_sum = foldl float_add 0 (map (foldl float_add 0 \<circ> latencies) hs),
      mv_uniqueness_ring = concat (map (\<lambda>h. map (py_round 4) (newest 200 (rates h))) hs),
      mv_latency_ring = concat (map (\<lambda>h. map (py_round 4) (newest 200 (latencies h))) hs)\<rparr>"

definition same_learned :: "(value_sample \<times> bool) list \<Rightarrow> (value_sample \<times> bool) list \<Rightarrow> bool" where
  "same_learned a b \<longleftrightarrow> length (rates a) = length (rates b) \<and> versioned a = versioned b \<and> (\<forall>m. served_by m a = served_by m b)"

lemma same_learned_population: "same_learned a b \<Longrightarrow> population_of a v = population_of b v"
  by (cases v) (simp_all add: same_learned_def population_of_def versions_def)

lemma float_add_zero: "float_add (foldl float_add 0 xs) 0 = foldl float_add 0 xs"
  by (cases xs rule: rev_cases) (simp_all add: float_add_def)

definition consulted_holds :: "pydict list \<Rightarrow> (value_sample \<times> bool) list list \<Rightarrow> bool" where
  "consulted_holds bs hs \<longleftrightarrow> (\<exists>hs'. list_all2 bucket_holds bs hs' \<and> same_learned (concat hs') (concat hs))"

lemma merge_step:
  assumes "entry_holds key e0 sts e" and h: "h = in_scope band sts" and "consulted_holds bs hs"
  shows "\<exists>bs'. merge_entries parse_float parse_int key band (e # es) (merged_of hs, bs)
      = merge_entries parse_float parse_int key band es (merged_of (hs @ [h]), bs')
    \<and> consulted_holds bs' (hs @ [h])"
proof -
  from value_bucket_holds [OF assms(1), of band] obtain b where b: "bucket_holds b h"
    "value_bucket key band e = Inr (Some b) \<or> value_bucket key band e = Inr None \<and> (b = [] \<or> b = empty_value_bucket)"
    unfolding h by blast
  from assms(3) obtain hs' where hs': "list_all2 bucket_holds bs hs'" "same_learned (concat hs') (concat hs)"
    by (auto simp: consulted_holds_def)
  from b(2) show ?thesis
  proof
    assume v: "value_bucket key band e = Inr (Some b)"
    have "list_all2 bucket_holds (bs @ [b]) (hs' @ [h])" using hs'(1) b(1) by (simp add: list_all2_appendI)
    moreover have "same_learned (concat (hs' @ [h])) (concat (hs @ [h]))" using hs'(2) by (simp add: same_learned_def)
    ultimately have "consulted_holds (bs @ [b]) (hs @ [h])" unfolding consulted_holds_def by blast
    then show ?thesis using merge_bucket_holds [OF b(1), of parse_float parse_int "merged_of hs"] v
      by (intro exI [of _ "bs @ [b]"]) (simp add: merged_of_def)
  next
    assume v: "value_bucket key band e = Inr None \<and> (b = [] \<or> b = empty_value_bucket)"
    then have "b = [] \<or> b = empty_value_bucket" ..
    note none = empty_scope [OF b(1) this]
    have "merged_of (hs @ [h]) = merged_of hs" by (simp add: merged_of_def none newest_def float_add_zero)
    moreover have "consulted_holds bs (hs @ [h])"
      using hs' none unfolding consulted_holds_def same_learned_def by (intro exI [of _ hs']) simp
    ultimately show ?thesis using v by (intro exI [of _ bs]) simp
  qed
qed

lemma merge_entries_holds:
  assumes "list_all2 (\<lambda>h e. \<exists>e0 sts. entry_holds key e0 sts e \<and> h = in_scope band sts) hs es" and "consulted_holds bs hs0"
  shows "\<exists>bs'. merge_entries parse_float parse_int key band es (merged_of hs0, bs) = Inr (merged_of (hs0 @ hs), bs')
    \<and> consulted_holds bs' (hs0 @ hs)"
  using assms
proof (induction arbitrary: bs hs0 rule: list_all2_induct)
  case (Cons h hs e es)
  from Cons(1) obtain e0 sts where "entry_holds key e0 sts e" "h = in_scope band sts" by blast
  from merge_step [OF this Cons.prems, of parse_float parse_int es] Cons.IH [of _ "hs0 @ [h]"] show ?case by fastforce
qed simp

lemma value_signals_hold:
  assumes "list_all2 (\<lambda>h e. \<exists>e0 sts. entry_holds key e0 sts e \<and> h = in_scope band sts) hs es"
  shows "\<exists>v. population_of (concat hs) v \<and> value_signal_of pow parse_float parse_int key band min_runs recency es = Inr
    \<lparr>rv_uniqueness_rate = signal_of_histories pow min_runs recency (length (rates (concat hs))) (map rates hs) (length (rates (concat hs))),
     rv_latency_per_p1 = signal_of_histories pow min_runs recency (length (rates (concat hs))) (map latencies hs)
       (\<Sum>h \<leftarrow> hs. min 200 (length (latencies h))),
     rv_runs = int (length (rates (concat hs))), rv_tainted_runs = int (taints (concat hs)), rv_resolved_population = v\<rparr>"
proof -
  have "consulted_holds [] []" by (simp add: consulted_holds_def same_learned_def)
  from merge_entries_holds [OF assms this, of parse_float parse_int] obtain bs where
    bs: "merge_entries parse_float parse_int key band es (nothing_merged, []) = Inr (merged_of hs, bs)" "consulted_holds bs hs"
    by (auto simp: merged_of_def nothing_merged_def)
  from bs(2) obtain hs' where hs': "list_all2 bucket_holds bs hs'" "same_learned (concat hs') (concat hs)" by (auto simp: consulted_holds_def)
  from population_exact [OF hs'(1), of parse_int] obtain v where
    v: "resolved_population parse_int ''runs'' ''by_resolved_model'' bs = Inr v" "population_of (concat hs') v" by blast
  have len: "length (newest 200 xs) = min 200 (length xs)" for xs :: "rat list" by (simp add: newest_def)
  have "length (concat (map (\<lambda>h. map (py_round 4) (newest 200 (latencies h))) hs)) = (\<Sum>h \<leftarrow> hs. min 200 (length (latencies h)))"
    by (simp add: length_concat comp_def len)
  with bs(1) v same_learned_population [OF hs'(2)] show ?thesis
    by (intro exI [of _ v]) (simp add: value_signal_of_def merged_of_def signal_of_histories_def comp_def)
qed

lemma value_signal_holds:
  fixes band :: "string option"
  assumes "entry_holds key e0 sts e"
  defines "h \<equiv> in_scope band sts"
  shows "\<exists>v. population_of h v \<and> value_signal_of pow parse_float parse_int key band min_runs recency [e] = Inr
    \<lparr>rv_uniqueness_rate = signal_of_history pow min_runs recency (length (rates h)) (rates h) (length (rates h)),
     rv_latency_per_p1 = signal_of_history pow min_runs recency (length (rates h)) (latencies h) (min 200 (length (latencies h))),
     rv_runs = int (length (rates h)), rv_tainted_runs = int (taints h), rv_resolved_population = v\<rparr>"
proof -
  have "list_all2 (\<lambda>h e. \<exists>e0 sts. entry_holds key e0 sts e \<and> h = in_scope band sts) [h] [e]" using assms by auto
  from value_signals_hold [OF this, of pow parse_float parse_int min_runs recency] show ?thesis
    by (simp add: signal_of_histories_def signal_of_history_def foldl_float)
qed

text \<open>The entries that stand for a model: the one of its name, and those of the provider and model it resolves to.\<close>

definition names_model :: "(rat \<Rightarrow> string) \<Rightarrow> registry \<Rightarrow> model_ref \<Rightarrow> string \<Rightarrow> pydict \<Rightarrow> bool" where
  "names_model float_repr rg m k e \<longleftrightarrow> k = mr_name m
     \<or> (\<exists>identity. resolve_identity float_repr rg (mr_name m) None (mr_actual m) (mr_provider m) (mr_cli m) = Some identity
          \<and> resolve_identity float_repr rg k (Some e) None None None = Some identity)"

lemma matching_entries:
  "matching_profile_entries float_repr rg [(''models'', PDict (map (\<lambda>(k, e). (k, PDict e)) es))] m
    = map snd (filter (\<lambda>(k, e). names_model float_repr rg m k e) es)"
proof -
  let ?target = "resolve_identity float_repr rg (mr_name m) None (mr_actual m) (mr_provider m) (mr_cli m)"
  have "entry_matches float_repr rg (mr_name m) ?target (k, PDict e) = (if names_model float_repr rg m k e then [e] else [])" for k e
    by (cases ?target) (auto simp: entry_matches_def names_model_def)
  then have "concat (map (entry_matches float_repr rg (mr_name m) ?target) (map (\<lambda>(k, e). (k, PDict e)) es))
      = map snd (filter (\<lambda>(k, e). names_model float_repr rg m k e) es)"
    by (induction es) auto
  then show ?thesis by (simp add: matching_profile_entries_def profile_models_def py_get_def Let_def)
qed

lemma names_model_same: "dict_get e ''_identity'' = dict_get e0 ''_identity'' \<Longrightarrow> names_model float_repr rg m k e = names_model float_repr rg m k e0"
  by (simp add: names_model_def resolve_identity_def py_get_def)

lemma section_keys: "section_for_phase phase = Inr key \<Longrightarrow> key \<noteq> ''_identity''"
  by (auto simp: section_for_phase_def split: if_splits)

text \<open>A history for each entry of the profiles, folded into it.\<close>

definition learned :: "(string \<Rightarrow> rat option) \<Rightarrow> (string \<Rightarrow> int option) \<Rightarrow> string \<Rightarrow> string \<times> pydict \<times> (value_sample \<times> bool) list
    \<Rightarrow> string \<times> pydict \<Rightarrow> bool" where
  "learned parse_float parse_int phase row ke =
     (case row of (k, e0, sts) \<Rightarrow> fst ke = k \<and> fold_samples parse_float parse_int phase sts e0 = Inr (snd ke))"

lemma rows_learned:
  assumes "\<forall>(k, e0, sts) \<in> set rows. dict_get e0 key = None" "section_for_phase phase = Inr key"
  shows "\<exists>es. list_all2 (\<lambda>row ke. learned parse_float parse_int phase row ke \<and> entry_holds key (fst (snd row)) (snd (snd row)) (snd ke)) rows es"
  using assms(1)
proof (induction rows)
  case (Cons row rows)
  obtain k e0 sts where row: "row = (k, e0, sts)" by (cases row)
  from Cons.prems have "dict_get e0 key = None" by (simp add: row)
  from fold_samples_holds [OF this assms(2), of parse_float parse_int sts] obtain e where
    e: "fold_samples parse_float parse_int phase sts e0 = Inr e" "entry_holds key e0 sts e" by blast
  from Cons obtain es where
    "list_all2 (\<lambda>row ke. learned parse_float parse_int phase row ke \<and> entry_holds key (fst (snd row)) (snd (snd row)) (snd ke)) rows es" by auto
  with e show ?case by (intro exI [of _ "(k, e) # es"]) (simp add: learned_def row)
qed auto

definition histories_for :: "(rat \<Rightarrow> string) \<Rightarrow> registry \<Rightarrow> model_ref \<Rightarrow> string option \<Rightarrow> (string \<times> pydict \<times> (value_sample \<times> bool) list) list
    \<Rightarrow> (value_sample \<times> bool) list list" where
  "histories_for float_repr rg m band rows =
     map (\<lambda>(k, e0, sts). in_scope band sts) (filter (\<lambda>(k, e0, sts). names_model float_repr rg m k e0) rows)"

lemma histories_match:
  assumes "list_all2 (\<lambda>row ke. learned parse_float parse_int phase row ke \<and> entry_holds key (fst (snd row)) (snd (snd row)) (snd ke)) rows es"
    and "key \<noteq> ''_identity''"
  shows "list_all2 (\<lambda>h e. \<exists>e0 sts. entry_holds key e0 sts e \<and> h = in_scope band sts) (histories_for float_repr rg m band rows)
    (map snd (filter (\<lambda>(k, e). names_model float_repr rg m k e) es))"
  using assms(1)
proof (induction rule: list_all2_induct)
  case (Cons row rows ke es)
  obtain k e0 sts where row: "row = (k, e0, sts)" by (cases row)
  from Cons(1) obtain e where ke: "ke = (k, e)" "entry_holds key e0 sts e" by (cases ke) (auto simp: row learned_def)
  then have "dict_get e ''_identity'' = dict_get e0 ''_identity''" using assms(2) by (simp add: entry_holds_def)
  from names_model_same [OF this, of float_repr rg m k] Cons.IH ke show ?case by (auto simp: histories_for_def row)
qed (simp add: histories_for_def)

section \<open>Properties\<close>

text \<open>C17. 
  What routing reads of a reviewer is exactly its history. Take any profiles, each entry without a section of that phase yet and with
  a history of samples of its own: the samples fold in without an exception and change nothing else in an entry. The signal of a model
  then rests on the histories of the entries that stand for it, and of no other: it has the sums of all samples with a P1 in a run that
  was not tainted, the rings of the latest two hundred of each entry, the number of tainted ones, and the population of versions with
  every sample that names its version counted once. A band reads the samples of its complexity only, a tainted sample moves no rate, and
  a rate is given only from the floor of runs on. The latency is divided by the number of samples in the rings, which is at most two
  hundred for each entry.
\<close>

theorem value_signal_is_history:
  assumes "section_for_phase phase = Inr key" and "\<forall>(k, e0, sts) \<in> set rows. dict_get e0 key = None"
    and hs: "hs = histories_for float_repr rg m (map_option (\<lambda>c. normalize_band (Some c)) complexity) rows"
    and h: "h = concat hs"
  shows "\<exists>es v. list_all2 (\<lambda>(k, e0, sts) (k', e). k' = k \<and> fold_samples parse_float parse_int phase sts e0 = Inr e
        \<and> (\<forall>i. i = key \<or> dict_get e i = dict_get e0 i)) rows es
    \<and> population_of h v
    \<and> get_reviewer_value_signal pow float_repr parse_float parse_int rg [(''models'', PDict (map (\<lambda>(k, e). (k, PDict e)) es))] m
        complexity min_runs recency phase
      = Inr \<lparr>rv_uniqueness_rate = signal_of_histories pow min_runs recency (length (rates h)) (map rates hs) (length (rates h)),
             rv_latency_per_p1 = signal_of_histories pow min_runs recency (length (rates h)) (map latencies hs)
               (\<Sum>x \<leftarrow> hs. min 200 (length (latencies x))),
             rv_runs = int (length (rates h)), rv_tainted_runs = int (taints h), rv_resolved_population = v\<rparr>"
proof -
  let ?band = "map_option (\<lambda>c. normalize_band (Some c)) complexity"
  from rows_learned [OF assms(2,1), of parse_float parse_int] obtain es where
    es: "list_all2 (\<lambda>row ke. learned parse_float parse_int phase row ke \<and> entry_holds key (fst (snd row)) (snd (snd row)) (snd ke)) rows es" by blast
  have 1: "list_all2 (\<lambda>(k, e0, sts) (k', e). k' = k \<and> fold_samples parse_float parse_int phase sts e0 = Inr e
        \<and> (\<forall>i. i = key \<or> dict_get e i = dict_get e0 i)) rows es"
    by (rule list_all2_mono [OF es]) (auto simp: learned_def entry_holds_def)
  from value_signals_hold [OF histories_match [OF es section_keys [OF assms(1)], of ?band float_repr rg m, folded hs],
      of pow parse_float parse_int min_runs recency, folded h] obtain v where
    v: "population_of h v" "value_signal_of pow parse_float parse_int key ?band min_runs recency
        (map snd (filter (\<lambda>(k, e). names_model float_repr rg m k e) es))
      = Inr \<lparr>rv_uniqueness_rate = signal_of_histories pow min_runs recency (length (rates h)) (map rates hs) (length (rates h)),
             rv_latency_per_p1 = signal_of_histories pow min_runs recency (length (rates h)) (map latencies hs)
               (\<Sum>x \<leftarrow> hs. min 200 (length (latencies x))),
             rv_runs = int (length (rates h)), rv_tainted_runs = int (taints h), rv_resolved_population = v\<rparr>"
    unfolding h by blast
  show ?thesis unfolding get_reviewer_value_signal_def assms(1) py_bind.simps matching_entries using 1 v by blast
qed

definition sample_value :: value_sample where
  "sample_value = \<lparr>vs_name = ''a'', vs_complexity = ''low'', vs_unique_p1 = 1, vs_total_p1 = 1, vs_latency_s = Some 1,
     vs_actual_model = None, vs_provider = None, vs_cli = None, vs_resolved_model = Some ''m''\<rparr>"

text \<open>Two keys for one model, and a key for another one.\<close>

definition sample_models :: registry where
  "sample_models = \<lparr>rg_provider_of_cli = (\<lambda>c. None),
     rg_infer_identity = (\<lambda>k. if k = ''b'' then Some (''p'', ''b'') else Some (''p'', ''a''))\<rparr>"

definition sample_model :: model_ref where
  "sample_model = \<lparr>mr_name = ''a'', mr_actual = None, mr_provider = None, mr_cli = None\<rparr>"

definition sample_rows :: "(string \<times> pydict \<times> (value_sample \<times> bool) list) list" where
  "sample_rows = [(''a'', [], [(sample_value, False), (sample_value, True)]), (''b'', [], [(sample_value, False)]), (''c'', [], [(sample_value, False)])]"

theorem value_signal_is_history_witness:
  "\<exists>es sig. map fst es = [''a'', ''b'', ''c'']
    \<and> get_reviewer_value_signal (\<lambda>x y. 1) (\<lambda>x. []) (\<lambda>s. None) (\<lambda>s. None) sample_models [(''models'', PDict (map (\<lambda>(k, e). (k, PDict e)) es))]
        sample_model (Some ''small'') 5 None ''code_review'' = Inr sig
    \<and> rv_runs sig = 2 \<and> rv_tainted_runs sig = 1 \<and> sg_rate (rv_uniqueness_rate sig) = None"
proof -
  let ?band = "map_option (\<lambda>c. normalize_band (Some c)) (Some ''small'')"
  have band: "normalize_band (Some ''low'') = ''small''" "normalize_band (Some ''small'') = ''small''" by code_simp+
  have rate: "uniqueness_rate sample_value = Some 1" using fl_of_int [of 1] by (simp add: uniqueness_rate_def sample_value_def)
  have names: "names_model (\<lambda>x. []) sample_models sample_model ''a'' []" "\<not> names_model (\<lambda>x. []) sample_models sample_model ''b'' []"
    "names_model (\<lambda>x. []) sample_models sample_model ''c'' []"
    by (simp_all add: names_model_def sample_models_def sample_model_def resolve_identity_def py_get_def stripped_or_empty_def py_strip_def)
  have scope: "in_scope ?band [(sample_value, False), (sample_value, True)] = [(sample_value, False), (sample_value, True)]"
    "in_scope ?band [(sample_value, False)] = [(sample_value, False)]" by (simp_all add: in_scope_def of_band_def sample_value_def band)
  have hs: "[[(sample_value, False), (sample_value, True)], [(sample_value, False)]] = histories_for (\<lambda>x. []) sample_models sample_model ?band sample_rows"
    unfolding histories_for_def sample_rows_def by (simp add: names scope [unfolded option.map])
  let ?h = "concat [[(sample_value, False), (sample_value, True)], [(sample_value, False)]]"
  have h: "length (rates ?h) = 2" "taints ?h = 1" by (simp_all add: rates_def taints_def option_list_def rate)
  have new: "\<forall>(k, e0, sts) \<in> set sample_rows. dict_get e0 ''code_review_value'' = None" by (simp add: sample_rows_def)
  have phase: "section_for_phase ''code_review'' = Inr ''code_review_value''" by (simp add: section_for_phase_def)
  from value_signal_is_history [OF phase new hs refl, of "\<lambda>s. None" "\<lambda>s. None" "\<lambda>x y. 1" 5 None, unfolded h] obtain es v where
    es: "list_all2 (\<lambda>(k, e0, sts) (k', e). k' = k \<and> fold_samples (\<lambda>s. None) (\<lambda>s. None) ''code_review'' sts e0 = Inr e
        \<and> (\<forall>i. i = ''code_review_value'' \<or> dict_get e i = dict_get e0 i)) sample_rows es"
    and sig: "get_reviewer_value_signal (\<lambda>x y. 1) (\<lambda>x. []) (\<lambda>s. None) (\<lambda>s. None) sample_models
        [(''models'', PDict (map (\<lambda>(k, e). (k, PDict e)) es))] sample_model (Some ''small'') 5 None ''code_review''
      = Inr \<lparr>rv_uniqueness_rate = signal_of_histories (\<lambda>x y. 1) 5 None 2 (map rates [[(sample_value, False), (sample_value, True)], [(sample_value, False)]]) 2,
             rv_latency_per_p1 = signal_of_histories (\<lambda>x y. 1) 5 None 2 (map latencies [[(sample_value, False), (sample_value, True)], [(sample_value, False)]])
               (\<Sum>x \<leftarrow> [[(sample_value, False), (sample_value, True)], [(sample_value, False)]]. min 200 (length (latencies x))),
             rv_runs = int 2, rv_tainted_runs = int 1, rv_resolved_population = v\<rparr>" by blast
  have "map fst es = [''a'', ''b'', ''c'']" using es by (auto simp: sample_rows_def list_all2_Cons1)
  with sig show ?thesis
    by (intro exI [of _ es]) (simp add: signal_of_histories_def bucket_signal_def Let_def)
qed

text \<open>
  The latency divides a sum over all samples by the length of a ring that stops growing at two hundred: a reviewer that takes one
  second for each P1 is read as taking \<open>k\<close> seconds after \<open>k\<close> times two hundred samples.
\<close>

lemma foldl_ones: "n \<le> 2 ^ 53 \<Longrightarrow> foldl float_add 0 (replicate n 1) = of_nat n"
proof (induction n)
  case (Suc n)
  have "replicate (Suc n) (1 :: rat) = replicate n 1 @ [1]" by (simp add: replicate_append_same)
  moreover have "fl (of_int (int n + 1)) = (of_int (int n + 1) :: rat)" using Suc.prems by (intro fl_of_int) simp
  ultimately show ?case using Suc by (simp add: float_add_def add.commute)
qed simp

lemma py_round_of_nat: "k \<le> 2 ^ 53 \<Longrightarrow> py_round 4 (of_nat k) = of_nat k"
proof -
  assume k: "k \<le> 2 ^ 53"
  have "round_half_even (of_nat k * 10 ^ 4) = int k * 10 ^ 4" by (rule round_half_even_unique) simp
  moreover have "fl (of_int (int k)) = (of_int (int k) :: rat)" using k by (intro fl_of_int) simp
  ultimately show ?thesis by (simp add: py_round_def)
qed

lemma latencies_replicate: "latency_per_p1 s = Some l \<Longrightarrow> latencies (replicate n (s, False)) = replicate n l"
  by (induction n) (simp_all add: latencies_def option_list_def)

theorem latency_average_drifts:
  assumes "0 < k" and "k \<le> 2 ^ 40"
  shows "\<exists>e sig. fold_samples parse_float parse_int ''plan_review'' (replicate (200 * k) (sample_value, False)) [] = Inr e
    \<and> value_signal_of pow parse_float parse_int ''plan_review_value'' None min_runs recency [e] = Inr sig
    \<and> sg_raw (rv_latency_per_p1 sig) = Some (of_nat k)"
proof -
  let ?h = "replicate (200 * k) (sample_value, False)"
  have lat: "latency_per_p1 sample_value = Some 1"
    using fl_of_int [of 1] by (simp add: latency_per_p1_def sample_value_def float_div_def)
  have "foldl float_add 0 (replicate (200 * k) 1) = of_nat (200 * k)" using assms(2) by (intro foldl_ones) simp
  moreover have "fl (of_int 200) = (of_int 200 :: rat)" "fl (of_int (int k)) = (of_int (int k) :: rat)" using assms(2) by (intro fl_of_int; simp)+
  moreover have "min 200 (200 * k) = 200" using assms(1) by simp
  ultimately have raw: "sg_raw (signal_of_history pow min_runs recency n (latencies ?h) (min 200 (length (latencies ?h)))) = Some (of_nat k)" for n
    using py_round_of_nat [of k] assms(2)
    by (simp add: latencies_replicate [OF lat] signal_of_history_def bucket_signal_def Let_def float_div_def)
  from fold_samples_holds [of "[]" "''plan_review_value''" "''plan_review''" parse_float parse_int ?h] obtain e where
    e: "fold_samples parse_float parse_int ''plan_review'' ?h [] = Inr e" "entry_holds ''plan_review_value'' [] ?h e"
    by (auto simp: section_for_phase_def)
  from value_signal_holds [OF e(2), of None pow parse_float parse_int min_runs recency] e(1) raw show ?thesis by (auto simp: in_scope_def)
qed

end
