(* ===== verification/Spec2Isabelle.thy ===== *)
theory Spec2Isabelle
  imports Retry_Budget Story_DAG Sprint_Plan Collision_Edges Story_Grouping Story_State Sprint_Runner
    Finding_Registry Stuck_Detection Exploration_Slots Unmeasured_Spend Worker_Budget Live_Stories
    Review_Merge Plan_Loop Budget_Runtime Story_Funding Seating
    Reviewer_Value Reviewer_Signals
begin

text \<open>
  TheForge runs software stories through coding agents under deterministic control: Python decides
  what runs, in which order, whether a gate passes and when to stop; models only produce artifacts. This
  development models the parts that take those decisions and proves what they promise.

  \<^bold>\<open>The program and its parts.\<close> A sprint (\<^verbatim>\<open>sprint/\<close>) takes a manifest of stories, orders them into a
  dependency graph, adds edges between stories that would touch the same files, groups some of them
  for one dev pass, and runs them in parallel worktrees under one budget; the canonical story state
  records what became of each story. Inside a story the coordinator (\<^verbatim>\<open>coordinator/\<close>) loops over dev,
  validate and review under a retry budget; reviewers' replies are parsed and validated, merged to one
  verdict, and their findings are tracked across cycles in a registry that decides whether a P1 finding
  blocks. Agent runners (\<^verbatim>\<open>runners/\<close>) watch for agents that repeat themselves. Sidecar files tell a
  restarted process which stories another run still executes.

  \<^bold>\<open>Theories and sources\<close> (paths under \<^verbatim>\<open>src/src/theforge/\<close>).
  \<^item> \<open>Forge_Prelude\<close>: Python strings, dictionaries, dynamic values and errors; the interfaces
    \<open>keyed_store\<close> (interpreted on dictionaries), \<open>op_machine\<close>, \<open>settling_machine\<close> and \<open>simulation\<close>
    the components implement.
  \<^item> \<open>Py_Json\<close>, \<open>Py_Float\<close>, \<open>Py_Regex\<close>: \<^verbatim>\<open>json.dumps\<close>, \<^verbatim>\<open>repr\<close> and \<^verbatim>\<open>str\<close>; binary64 arithmetic with
    rounding and \<^verbatim>\<open>sum\<close>; the backtracking matcher of \<^verbatim>\<open>re\<close>.
  \<^item> \<open>Retry_Budget\<close>: \<^verbatim>\<open>coordinator/retry_budget.py\<close>. The log is an exact ledger of the counters.
  \<^item> \<open>Story_DAG\<close>: \<^verbatim>\<open>sprint/dag.py\<close>, issue slugs of \<^verbatim>\<open>coordinator/branch_landing.py\<close>, \<^verbatim>\<open>TaskStory\<close>. The
    validation of a manifest is exact, the scheduler offers exactly the unmarked stories whose hard and collision
    dependencies are released (a running one again, which its caller leaves out), and makes progress.
  \<^item> \<open>Sprint_Plan\<close>: \<^verbatim>\<open>sprint/query.py\<close>, the dry-run plan. It partitions the manifest and respects dependencies.
  \<^item> \<open>Collision_Edges\<close>: \<^verbatim>\<open>sprint/collision.py\<close>, synthetic edges. They never close a cycle and serialise
    claimants of a file, with the two gaps shown.
  \<^item> \<open>Story_Grouping\<close>: \<^verbatim>\<open>sprint/collision.py\<close>, conflict bundles and batch groups, their limits and eligibility.
  \<^item> \<open>Story_State\<close>: \<^verbatim>\<open>sprint/story_state.py\<close>. Terminal outcomes are final, counts partition the stories,
    saving and loading is the identity on reachable states.
  \<^item> \<open>Sprint_Runner\<close>: the places of \<^verbatim>\<open>sprint/runner.py\<close> where a finished story is classified and recorded in
    scheduler and state; dependents wait for landed work.
  \<^item> \<open>Sprint_Budget\<close>, \<open>Unmeasured_Spend\<close>: \<^verbatim>\<open>sprint/budget.py\<close>, \<^verbatim>\<open>sprint/unmeasured.py\<close>. The check is
    monotone in spend and opens only when every unmeasured source was accepted for its occurrence.
  \<^item> \<open>Cost_Ledger\<close>, \<open>Sprint_Carry\<close>, \<open>Budget_Runtime\<close>: \<^verbatim>\<open>sprint/budget_runtime.py\<close>, \<^verbatim>\<open>sprint/carry.py\<close>, the stop condition of
    \<^verbatim>\<open>sprint/runner.py\<close>, \<^verbatim>\<open>coordinator/cancellation.py\<close>, \<^verbatim>\<open>sprint/preserved_resume.py\<close>. The ledger is its history of
    calls; a story is dispatched only under a cap known to hold; reaching the cap stops all running
    stories once; a refusal of the whole run leaves nothing scheduled.
  \<^item> \<open>Story_Budget\<close>, \<open>Story_Funding\<close>: \<^verbatim>\<open>coordinator/story_budget.py\<close> and the reservation of \<^verbatim>\<open>coordinator/engine.py\<close>. A derived
    allocation covers the runs it came from; money seated for review is there when review starts, a release
    never raises it, and a story is refused only on figures of its own complexity score.
  \<^item> \<open>Dev_Profiles\<close>, \<open>Adaptive_Limits\<close>: \<^verbatim>\<open>model_profiles_identity.py\<close>, \<^verbatim>\<open>model_profiles_read_model.py\<close>,
    \<^verbatim>\<open>coordinator/adaptive_iterations.py\<close>, the timeouts of \<^verbatim>\<open>coordinator/util.py\<close>. Derived limits stay inside the policy; a learned
    timeout covers every observed run, and a capped one fits the ceiling of its story.
  \<^item> \<open>Seating\<close>: the seating step of \<^verbatim>\<open>coordinator/engine.py\<close>, which composes the limits, the price of a review cycle and the
    reconciliation of \<open>Story_Funding\<close>, and renders their messages, on the allocation that \<^verbatim>\<open>coordinator/preflight.py\<close> installs. It never raises once the limits are derived, and a
    story it lets pass has a permission that is funded or explained.
  \<^item> \<open>State_Writer\<close>: \<^verbatim>\<open>sprint/state_writer.py\<close>. The live file is the projection of the writer, published spend is
    never taken back, a stop leaves every story terminal, a late bootstrap is inert.
  \<^item> \<open>Worker_Budget\<close>: \<^verbatim>\<open>worker_budget.py\<close>, the deadline of a worker with credited operator waits.
  \<^item> \<open>Exploration_Slots\<close>: \<^verbatim>\<open>coordinator/exploration_budget.py\<close>. Interleaved workers that claim slot
    files refine a bounded counter.
  \<^item> \<open>Story_Executions\<close>, \<open>Live_Stories\<close>: \<^verbatim>\<open>sprint/story_executions.py\<close>, \<^verbatim>\<open>sprint/live_stories.py\<close>. A story
    is left schedulable only when no readable record names it as possibly running; one whose worktree may exist only when every
    record was read. A sweep takes no ownership away.
  \<^item> \<open>Stuck_Detection\<close>: \<^verbatim>\<open>runners/stuck_detection.py\<close>. A run is stopped only on a pattern that stayed after the nudge,
    which is one streak unless the threshold is one, and a persistent streak is stopped within a bound.
  \<^item> \<open>Review_Schema\<close>, \<open>Review_Parse\<close>, \<open>Review_Merge\<close>: \<^verbatim>\<open>schemas.py\<close>, \<^verbatim>\<open>review.py\<close>. Validation accepts exactly the
    declared contract; a merged approval is justified by every reviewer who could be read.
  \<^item> \<open>Plan_Review\<close>: plan reviews of \<^verbatim>\<open>review.py\<close> and \<^verbatim>\<open>plan_finding_classifier.py\<close>. Corroboration is
    connectedness by shared anchors.
  \<^item> \<open>Plan_Registry\<close>, \<open>Plan_Trajectory\<close>, \<open>Plan_Loop\<close>: \<^verbatim>\<open>plan_finding_classifier.py\<close>, \<^verbatim>\<open>coordinator/plan_trajectory.py\<close> and the loop of
    \<^verbatim>\<open>coordinator/plan_flow.py\<close>. The registry of plan findings says of each what its dates say; the text for the next plan
    has every blocker; a plan is given up on exact conditions, and reaches development only when its review approved it.
  \<^item> \<open>Reviewer_Value\<close>, \<open>Reviewer_Signals\<close>: \<^verbatim>\<open>reviewer_value.py\<close>, \<^verbatim>\<open>model_profiles_identity.py\<close>, \<^verbatim>\<open>model_profiles_read_model.py\<close>.
    The unique findings of a reviewer are counted exactly; the signal read for a model is the histories of its entries without
    tainted samples.
  \<^item> \<open>Finding_Registry\<close>: \<^verbatim>\<open>finding_classifier.py\<close>. The records of a cycle block exactly when the registry
    does, unless the count of cycles was set back.

  \<^bold>\<open>Conventions.\<close> A record of the code is a \<open>record\<close> with a two-letter prefix, an enumeration a
  \<open>datatype\<close>, a dictionary an association list in insertion order, a method a function from the state
  to the new state; exceptions are the left side of a sum. Properties are the theorems whose text
  starts with C and a number; a theorem with hypotheses is followed by a witness that applies it to
  concrete data.

  \<^bold>\<open>Bounds and fuel.\<close> The loop of \<open>Plan_Loop\<close> makes the attempts of the code, two more than its limit. The depth-first search of \<open>Story_DAG\<close> has as fuel the number of tasks, and
  \<open>build_dag_accepts_iff\<close> shows that it never runs out; the rounds of \<open>Sprint_Plan\<close> are bounded by one more than
  the number of stories, and \<open>batch_plan_partitions\<close> shows that the plan comes out. The loops of union-find in \<open>Reviewer_Value\<close> are
  partial functions, and \<open>uniqueness_exact\<close> shows that they return. Repetitions of a
  pattern in \<open>Py_Regex\<close> are bounded by the text left, which every iteration shortens. Floats are
  binary64 values below the overflow threshold. Strings range over the code points up to U+00FF.

  \<^bold>\<open>Arguments that stand for code outside the model.\<close> The SHA-256 digest, clock readings, the shortest
  digits of a float, \<^verbatim>\<open>yaml.safe_load\<close>, the failures of file-system calls, the view of the process table, the registry of known
  models, the replies of plan reviewers and the planner, the power of floats and the order
  in which a set of anchors is visited are arguments of the definitions that use them.

  \<^bold>\<open>Not modelled\<close>, and why: the command line, reports and rendering (presentation); subprocesses, git, GitHub,
  HTTP and the agent runners (input and output); SQLite storage of audits and profiles (a database);
  prompts (text for models); the phases of the coordinator beyond seating and plan review and the dispatch loop of the
  sprint, whose steps are mostly calls of the above; model assignment and routing with the other signals they read from the
  profiles (scores over a database that changes with every run). Of the partly modelled components, resume triage, the
  pre-flight of batches, the retries and telemetry of plan reviewers, and the human review of plans are left out.
\<close>

end
